(* ===== verification/Prelude.thy ===== *)
theory Prelude
  imports Main "HOL-Library.Word" "HOL-Library.Code_Target_Numeral" "HOL-Library.Char_ord" "HOL-Library.List_Lexorder" "HOL-Library.Sublist"
begin

text \<open>
  Shared vocabulary of the development.  A Rust \<^verbatim>\<open>str\<close> is its UTF-8 byte string, an Isabelle
  \<^typ>\<open>string\<close> (a list of 8-bit characters), so \<^term>\<open>length s\<close> is Rust's \<^verbatim>\<open>s.len()\<close>.
  A Rust \<^verbatim>\<open>Result<A, E>\<close> is the sum \<^typ>\<open>'e + 'a\<close> with \<^term>\<open>Inl e\<close> for \<^verbatim>\<open>Err(e)\<close> and
  \<^term>\<open>Inr a\<close> for \<^verbatim>\<open>Ok(a)\<close>; \<open>and_then\<close> is the \<^verbatim>\<open>?\<close> operator.
  The functions of this theory model the parts of the Rust standard library the sources use
  (string trimming and splitting, integer parsing and printing).
\<close>

unbundle bit_operations_syntax

named_theorems result_simps "rewrite rules that run Result-valued code"
named_theorems dest_ok "destruction rules that read off what an Ok result says"

section \<open>Results\<close>

type_synonym ('e, 'a) result = "'e + 'a"

fun and_then :: "'e + 'a \<Rightarrow> ('a \<Rightarrow> 'e + 'b) \<Rightarrow> 'e + 'b" where
  "and_then (Inl e) f = Inl e"
| "and_then (Inr x) f = f x"

fun map_err :: "('e \<Rightarrow> 'f) \<Rightarrow> 'e + 'a \<Rightarrow> 'f + 'a" where
  "map_err g (Inl e) = Inl (g e)"
| "map_err g (Inr x) = Inr x"

fun ok_or :: "'e \<Rightarrow> 'a option \<Rightarrow> 'e + 'a" where
  "ok_or e None = Inl e"
| "ok_or e (Some x) = Inr x"

fun to_option :: "'e + 'a \<Rightarrow> 'a option" where
  "to_option (Inl e) = None"
| "to_option (Inr x) = Some x"

definition is_ok :: "'e + 'a \<Rightarrow> bool" where
  "is_ok r = (case r of Inl _ \<Rightarrow> False | Inr _ \<Rightarrow> True)"

lemma is_ok_simps [simp]: "is_ok (Inr x)" "\<not> is_ok (Inl e)"
  by (simp_all add: is_ok_def)

lemma is_ok_iff: "is_ok r \<longleftrightarrow> (\<exists>x. r = Inr x)"
  by (cases r) simp_all

lemma and_then_cong [fundef_cong]:
  assumes "r = r'" and "\<And>x. r' = Inr x \<Longrightarrow> f x = g x"
  shows "and_then r f = and_then r' g"
  using assms by (cases r') simp_all

lemma and_then_Inr_iff [dest_ok]: "and_then r f = Inr y \<longleftrightarrow> (\<exists>x. r = Inr x \<and> f x = Inr y)"
  by (cases r) simp_all

lemma and_then_Inl_iff: "and_then r f = Inl e \<longleftrightarrow> r = Inl e \<or> (\<exists>x. r = Inr x \<and> f x = Inl e)"
  by (cases r) simp_all

lemma map_err_Inr_iff [dest_ok, simp]: "map_err g r = Inr y \<longleftrightarrow> r = Inr y"
  by (cases r) simp_all

lemma map_err_Inl_iff [simp]: "map_err g r = Inl x \<longleftrightarrow> (\<exists>e. r = Inl e \<and> x = g e)"
  by (cases r) auto

lemma ok_or_Inr_iff [dest_ok, simp]: "ok_or e x = Inr y \<longleftrightarrow> x = Some y"
  by (cases x) simp_all

lemma ok_or_Inl_iff [simp]: "ok_or e x = Inl d \<longleftrightarrow> x = None \<and> d = e"
  by (cases x) auto

lemma to_option_Some_iff [simp]: "to_option r = Some y \<longleftrightarrow> r = Inr y"
  by (cases r) simp_all

section \<open>Messages\<close>

text \<open>
  A formatted message is kept as the list of its fragments: a \<open>Lit\<close> is literal text (or a value
  printed with \<^verbatim>\<open>{}\<close>, which prints a string unchanged), a \<open>Dbg\<close> a string printed with
  \<^verbatim>\<open>{:?}\<close>, whose quoting and escaping is left uninterpreted.
\<close>

datatype frag = Lit string | Dbg string

type_synonym msg = "frag list"

section \<open>Characters and strings\<close>

definition chr :: "nat \<Rightarrow> char" where
  "chr n = char_of n"

definition ord_of :: "char \<Rightarrow> nat" where
  "ord_of c = of_char c"

text \<open>A byte that continues a multi-byte UTF-8 character.\<close>

definition is_cont :: "char \<Rightarrow> bool" where
  "is_cont c = (128 \<le> ord_of c \<and> ord_of c < 192)"

text \<open>\<^verbatim>\<open>s.chars().count()\<close> and \<^verbatim>\<open>s.chars().take(n)\<close>.\<close>

definition char_count :: "string \<Rightarrow> nat" where
  "char_count s = length (filter (\<lambda>c. \<not> is_cont c) s)"

fun take_chars :: "nat \<Rightarrow> string \<Rightarrow> string" where
  "take_chars n [] = []"
| "take_chars n (c # cs) =
     (if is_cont c then c # take_chars n cs
      else case n of 0 \<Rightarrow> [] | Suc m \<Rightarrow> c # take_chars m cs)"

text \<open>\<^verbatim>\<open>char::is_control\<close>: U+0000..U+001F, U+007F and U+0080..U+009F (bytes C2 80..C2 9F).\<close>

fun has_control :: "string \<Rightarrow> bool" where
  "has_control [] = False"
| "has_control (c # cs) =
     (ord_of c < 32 \<or> ord_of c = 127 \<or>
      (ord_of c = 194 \<and> (case cs of [] \<Rightarrow> False | d # _ \<Rightarrow> 128 \<le> ord_of d \<and> ord_of d < 160)) \<or>
      has_control cs)"

text \<open>The UTF-8 encodings of the Unicode \<^verbatim>\<open>White_Space\<close> characters, which
  \<^verbatim>\<open>str::trim\<close> removes.\<close>

definition white_space :: "string list" where
  "white_space = map (map chr)
     ([[9], [10], [11], [12], [13], [32], [194, 133], [194, 160], [225, 154, 128]]
      @ map (\<lambda>n. [226, 128, 128 + n]) [0..<11]
      @ [[226, 128, 168], [226, 128, 169], [226, 128, 175], [226, 129, 159], [227, 128, 128]])"

fun strip_one :: "string list \<Rightarrow> string \<Rightarrow> string option" where
  "strip_one [] s = None"
| "strip_one (w # ws) s =
     (if w \<noteq> [] \<and> prefix w s then Some (drop (length w) s) else strip_one ws s)"

lemma strip_one_shorter: "strip_one ws s = Some t \<Longrightarrow> length t < length s"
proof (induction ws s rule: strip_one.induct)
  case (2 w ws s)
  then show ?case
    by (cases "w \<noteq> [] \<and> prefix w s") (auto simp: prefix_def)
qed simp

function strip_all :: "string list \<Rightarrow> string \<Rightarrow> string" where
  "strip_all ws s = (case strip_one ws s of None \<Rightarrow> s | Some t \<Rightarrow> strip_all ws t)"
  by pat_completeness auto
termination by (relation "measure (\<lambda>(ws, s). length s)") (auto dest: strip_one_shorter)

declare strip_all.simps [simp del]

definition trim_start :: "string \<Rightarrow> string" where
  "trim_start s = strip_all white_space s"

definition trim_end :: "string \<Rightarrow> string" where
  "trim_end s = rev (strip_all (map rev white_space) (rev s))"

definition trim :: "string \<Rightarrow> string" where
  "trim s = trim_end (trim_start s)"

text \<open>\<^verbatim>\<open>s.split_once(c)\<close>, \<^verbatim>\<open>s.split(c)\<close> and \<^verbatim>\<open>s.contains(t)\<close>.\<close>

fun split_once :: "char \<Rightarrow> string \<Rightarrow> (string \<times> string) option" where
  "split_once c [] = None"
| "split_once c (d # ds) =
     (if d = c then Some ([], ds)
      else case split_once c ds of None \<Rightarrow> None | Some (a, b) \<Rightarrow> Some (d # a, b))"

fun split_on :: "char \<Rightarrow> string \<Rightarrow> string list" where
  "split_on c [] = [[]]"
| "split_on c (d # ds) =
     (if d = c then [] # split_on c ds
      else case split_on c ds of [] \<Rightarrow> [[d]] | p # ps \<Rightarrow> (d # p) # ps)"

fun contains_str :: "string \<Rightarrow> string \<Rightarrow> bool" where
  "contains_str t [] = (t = [])"
| "contains_str t (c # cs) = (prefix t (c # cs) \<or> contains_str t cs)"

definition strip_prefix :: "string \<Rightarrow> string \<Rightarrow> string option" where
  "strip_prefix p s = (if prefix p s then Some (drop (length p) s) else None)"

definition to_lower_char :: "char \<Rightarrow> char" where
  "to_lower_char c = (if 65 \<le> ord_of c \<and> ord_of c \<le> 90 then chr (ord_of c + 32) else c)"

definition to_ascii_lowercase :: "string \<Rightarrow> string" where
  "to_ascii_lowercase s = map to_lower_char s"

definition join_with :: "string \<Rightarrow> string list \<Rightarrow> string" where
  "join_with sep xs = concat (case xs of [] \<Rightarrow> [] | y # ys \<Rightarrow> y # map (\<lambda>z. sep @ z) ys)"

section \<open>Integers as text\<close>

text \<open>\<^verbatim>\<open>char::to_digit(radix)\<close>, and the digit \<^verbatim>\<open>{}\<close> and \<^verbatim>\<open>{:x}\<close> print for a value.\<close>

definition to_digit :: "nat \<Rightarrow> char \<Rightarrow> nat option" where
  "to_digit b c =
     (let n = ord_of c;
          v = (if 48 \<le> n \<and> n \<le> 57 then Some (n - 48)
               else if 97 \<le> n \<and> n \<le> 122 then Some (n - 87)
               else if 65 \<le> n \<and> n \<le> 90 then Some (n - 55) else None)
      in case v of None \<Rightarrow> None | Some d \<Rightarrow> if d < b then Some d else None)"

definition digit_chr :: "nat \<Rightarrow> char" where
  "digit_chr n = chr (if n < 10 then 48 + n else 87 + n)"

fun digits_val :: "nat \<Rightarrow> nat \<Rightarrow> string \<Rightarrow> nat option" where
  "digits_val b acc [] = Some acc"
| "digits_val b acc (c # cs) =
     (case to_digit b c of None \<Rightarrow> None | Some d \<Rightarrow> digits_val b (b * acc + d) cs)"

text \<open>\<^verbatim>\<open>s.parse::<uN>()\<close>: an optional plus sign, at least one digit, no overflow.\<close>

definition parse_unsigned :: "nat \<Rightarrow> string \<Rightarrow> nat option" where
  "parse_unsigned mx s =
     (let ds = (case s of [] \<Rightarrow> [] | c # cs \<Rightarrow> if c = CHR ''+'' then cs else s)
      in if ds = [] then None
         else case digits_val 10 0 ds of
                None \<Rightarrow> None
              | Some n \<Rightarrow> if n \<le> mx then Some n else None)"

definition parse_i64 :: "string \<Rightarrow> int option" where
  "parse_i64 s =
     (let ds = (case s of [] \<Rightarrow> []
                | c # cs \<Rightarrow> if c = CHR ''+'' \<or> c = CHR ''-'' then cs else s)
      in if ds = [] then None
         else case digits_val 10 0 ds of
                None \<Rightarrow> None
              | Some n \<Rightarrow>
                  let v = (if hd s = CHR ''-'' then - int n else int n)
                  in if - (2 ^ 63) \<le> v \<and> v < 2 ^ 63 then Some v else None)"

function show_base :: "nat \<Rightarrow> nat \<Rightarrow> string" where
  "show_base b n =
     (if n < b \<or> b < 2 then [digit_chr n]
      else show_base b (n div b) @ [digit_chr (n mod b)])"
  by pat_completeness auto
termination by (relation "measure snd") auto

declare show_base.simps [simp del]

definition show_nat :: "nat \<Rightarrow> string" where
  "show_nat n = show_base 10 n"

definition show_hex :: "nat \<Rightarrow> string" where
  "show_hex n = show_base 16 n"

definition show_int :: "int \<Rightarrow> string" where
  "show_int i = (if i < 0 then ''-'' @ show_nat (nat (- i)) else show_nat (nat i))"

lemma ord_of_chr [simp]: "n < 256 \<Longrightarrow> ord_of (chr n) = n"
  by (simp add: ord_of_def chr_def)

lemma ord_of_digit_chr: "n < 36 \<Longrightarrow> ord_of (digit_chr n) = (if n < 10 then 48 + n else 87 + n)"
  by (simp add: digit_chr_def)

lemma to_digit_digit_chr [simp]: "n < b \<Longrightarrow> b \<le> 36 \<Longrightarrow> to_digit b (digit_chr n) = Some n"
  by (auto simp: to_digit_def digit_chr_def)

lemma to_digit_less: "to_digit b c = Some d \<Longrightarrow> d < b"
  by (auto simp: to_digit_def Let_def split: option.splits if_splits)

lemma digits_val_append:
  "digits_val b acc (xs @ ys) =
     (case digits_val b acc xs of None \<Rightarrow> None | Some v \<Rightarrow> digits_val b v ys)"
  by (induction b acc xs rule: digits_val.induct) (auto split: option.splits)

lemma digits_val_ge: "digits_val b acc xs = Some v \<Longrightarrow> 0 < b \<Longrightarrow> acc \<le> v"
proof (induction b acc xs rule: digits_val.induct)
  case (2 b acc c cs)
  then obtain d where d: "to_digit b c = Some d" and v: "digits_val b (b * acc + d) cs = Some v"
    by (auto split: option.splits)
  have "acc \<le> b * acc + d" using 2(3) by (simp add: trans_le_add1)
  also have "\<dots> \<le> v" using 2(1)[OF d v] 2(3) by simp
  finally show ?case .
qed simp

lemma digits_val_show_base:
  assumes "2 \<le> b" "b \<le> 36"
  shows "digits_val b 0 (show_base b n) = Some n"
  using assms
proof (induction b n rule: show_base.induct)
  case (1 b n)
  show ?case
  proof (cases "n < b")
    case True
    then show ?thesis using 1 by (subst show_base.simps) simp
  next
    case False
    then have "show_base b n = show_base b (n div b) @ [digit_chr (n mod b)]"
      using 1(2) by (subst show_base.simps) simp
    then show ?thesis using 1 False by (simp add: digits_val_append)
  qed
qed

lemma show_base_not_empty [simp]: "show_base b n \<noteq> []"
  by (subst show_base.simps) simp

lemma set_show_base: "2 \<le> b \<Longrightarrow> set (show_base b n) \<subseteq> digit_chr ` {..<b}"
proof (induction b n rule: show_base.induct)
  case (1 b n)
  then show ?case by (subst show_base.simps) auto
qed

lemma show_base_first: "2 \<le> b \<Longrightarrow> 0 < n \<Longrightarrow> \<exists>d ds. show_base b n = digit_chr d # ds \<and> 0 < d \<and> d < b"
proof (induction b n rule: show_base.induct)
  case (1 b n)
  show ?case
  proof (cases "n < b")
    case True
    then show ?thesis using 1 by (subst show_base.simps) auto
  next
    case False
    then have "0 < n div b" using 1(2) by (simp add: div_greater_zero_iff)
    then obtain d ds where "show_base b (n div b) = digit_chr d # ds" "0 < d" "d < b"
      using 1 False by auto
    then show ?thesis using 1 False by (subst show_base.simps) auto
  qed
qed

lemma length_show_base_le:
  "2 \<le> b \<Longrightarrow> 0 < k \<Longrightarrow> n < b ^ k \<Longrightarrow> length (show_base b n) \<le> k"
proof (induction b n arbitrary: k rule: show_base.induct)
  case (1 b n)
  show ?case
  proof (cases "n < b")
    case True
    then show ?thesis using 1 by (subst show_base.simps) simp
  next
    case False
    obtain j where k: "k = Suc j" using 1(3) by (cases k) auto
    have j: "0 < j" using False 1(4) k by (cases j) auto
    have "n div b < b ^ j"
      using 1(2,4) k by (simp add: less_mult_imp_div_less mult.commute)
    then have "length (show_base b (n div b)) \<le> j" using 1 False j by auto
    then show ?thesis using 1(2) False k by (subst show_base.simps) simp
  qed
qed

lemma parse_unsigned_show_nat: "n \<le> mx \<Longrightarrow> parse_unsigned mx (show_nat n) = Some n"
proof -
  assume n: "n \<le> mx"
  obtain c cs where s: "show_base 10 n = c # cs" using show_base_not_empty by (cases "show_base 10 n") auto
  have "c \<in> digit_chr ` {..<10}" using set_show_base [of 10 n] s by auto
  then obtain d where "d < 10" and c: "c = digit_chr d" by auto
  then have "ord_of c \<noteq> 43" by (simp add: ord_of_digit_chr)
  then have "c \<noteq> CHR ''+''" by (auto simp: ord_of_def)
  then show ?thesis using n s digits_val_show_base [of 10 n]
    by (simp add: parse_unsigned_def show_nat_def)
qed

lemma split_once_None_iff: "split_once c s = None \<longleftrightarrow> c \<notin> set s"
  by (induction s) (auto split: option.splits)

lemma split_once_append: "c \<notin> set a \<Longrightarrow> split_once c (a @ c # b) = Some (a, b)"
  by (induction a) auto

lemma split_once_Some: "split_once c s = Some (a, b) \<Longrightarrow> s = a @ c # b \<and> c \<notin> set a"
  by (induction s arbitrary: a b) (auto split: option.splits if_splits)

section \<open>Lines and words\<close>

definition strip_cr :: "string \<Rightarrow> string" where
  "strip_cr s = (if s \<noteq> [] \<and> last s = chr 13 then butlast s else s)"

text \<open>\<^verbatim>\<open>s.lines()\<close>: split at line feeds, without a carriage return before one and without an empty
  last piece.\<close>

definition lines :: "string \<Rightarrow> string list" where
  "lines s =
     (let ps = split_on (chr 10) s
      in map strip_cr (butlast ps) @ (if last ps = [] then [] else [last ps]))"

lemma strip_all_stop: "strip_one ws (strip_all ws s) = None"
  by (induction ws s rule: strip_all.induct) (subst strip_all.simps, auto split: option.split)

lemma strip_all_le: "length (strip_all ws s) \<le> length s"
proof (induction ws s rule: strip_all.induct)
  case (1 ws s)
  then show ?case
    by (subst strip_all.simps) (fastforce dest: strip_one_shorter split: option.split)
qed

fun take_word :: "string \<Rightarrow> string \<times> string" where
  "take_word [] = ([], [])"
| "take_word (c # cs) =
     (if strip_one white_space (c # cs) \<noteq> None then ([], c # cs)
      else case take_word cs of (a, b) \<Rightarrow> (c # a, b))"

lemma take_word_le: "length (snd (take_word s)) \<le> length s"
  by (induction s rule: take_word.induct) (auto split: prod.splits)

text \<open>\<^verbatim>\<open>s.split_whitespace()\<close>.\<close>

function split_whitespace :: "string \<Rightarrow> string list" where
  "split_whitespace s =
     (case trim_start s of
        [] \<Rightarrow> []
      | c # cs \<Rightarrow> (c # fst (take_word cs)) # split_whitespace (snd (take_word cs)))"
  by pat_completeness auto
termination
proof (relation "measure length")
  fix s c cs
  assume "trim_start s = c # cs"
  then have "length (c # cs) \<le> length s" using strip_all_le by (metis trim_start_def)
  then show "(snd (take_word cs), s) \<in> measure length"
    using take_word_le [of cs] by simp
qed simp

declare split_whitespace.simps [simp del]

text \<open>Bytes that cannot begin a white-space character.\<close>

definition plain_byte :: "char \<Rightarrow> bool" where
  "plain_byte c = (32 < ord_of c \<and> ord_of c < 128)"

definition plain :: "string \<Rightarrow> bool" where
  "plain s = list_all plain_byte s"

lemma plain_simps [simp]:
  "plain []" "plain (c # s) \<longleftrightarrow> plain_byte c \<and> plain s" "plain (s @ t) \<longleftrightarrow> plain s \<and> plain t"
  by (simp_all add: plain_def)

lemma strip_one_plain: "plain_byte c \<Longrightarrow> strip_one white_space (c # s) = None"
proof -
  have *: "strip_one ws (c # s) = None" if "\<forall>w \<in> set ws. w = [] \<or> hd w \<noteq> c" for ws
    using that by (induction ws) (auto simp: prefix_Cons)
  assume "plain_byte c"
  then have "\<forall>w \<in> set white_space. w = [] \<or> hd w \<noteq> c"
    by (auto simp: white_space_def plain_byte_def)
  then show ?thesis by (rule *)
qed

lemma trim_start_plain [simp]: "plain_byte c \<Longrightarrow> trim_start (c # s) = c # s"
  by (simp add: trim_start_def strip_all.simps strip_one_plain)

lemma strip_one_single:
  assumes "list_all (\<lambda>w. w \<noteq> [] \<and> (hd w = c \<longrightarrow> w = [c])) ws" "[c] \<in> set ws"
  shows "strip_one ws (c # s) = Some s"
  using assms by (induction ws) (auto simp: prefix_Cons)

lemma strip_one_space [simp]: "strip_one white_space (CHR '' '' # s) = Some s"
proof (rule strip_one_single)
  show "list_all (\<lambda>w. w \<noteq> [] \<and> (hd w = CHR '' '' \<longrightarrow> w = [CHR '' ''])) white_space" by code_simp
  have "[chr 32] \<in> set white_space" by (simp add: white_space_def)
  moreover have "chr 32 = CHR '' ''" by code_simp
  ultimately show "[CHR '' ''] \<in> set white_space" by simp
qed

lemma strip_one_Nil [simp]: "strip_one ws [] = None"
  by (induction ws) auto

lemma trim_start_space [simp]: "trim_start (CHR '' '' # s) = trim_start s"
  by (simp add: trim_start_def strip_all.simps [of _ "CHR '' '' # s"])

lemma trim_start_Nil [simp]: "trim_start [] = []"
  by (simp add: trim_start_def strip_all.simps)

lemma take_word_plain: "plain w \<Longrightarrow> take_word (w @ CHR '' '' # r) = (w, CHR '' '' # r)"
  by (induction w) (auto simp: strip_one_plain)

lemma take_word_plain_all: "plain w \<Longrightarrow> take_word w = (w, [])"
  by (induction w) (auto simp: strip_one_plain)

lemma split_whitespace_word:
  "plain w \<Longrightarrow> w \<noteq> [] \<Longrightarrow> split_whitespace (w @ CHR '' '' # r) = w # split_whitespace r"
proof -
  assume w: "plain w" "w \<noteq> []"
  then obtain c cs where "w = c # cs" "plain_byte c" "plain cs" by (cases w) auto
  then show ?thesis using split_whitespace.simps [of r] split_whitespace.simps [of "CHR '' '' # r"]
    by (subst split_whitespace.simps) (simp add: take_word_plain)
qed

lemma split_whitespace_last: "plain w \<Longrightarrow> w \<noteq> [] \<Longrightarrow> split_whitespace w = [w]"
proof -
  assume w: "plain w" "w \<noteq> []"
  then obtain c cs where "w = c # cs" "plain_byte c" "plain cs" by (cases w) auto
  then show ?thesis using split_whitespace.simps [of "[]"]
    by (subst split_whitespace.simps) (simp add: take_word_plain_all)
qed

lemma split_on_append: "c \<notin> set a \<Longrightarrow> split_on c (a @ c # b) = a # split_on c b"
  by (induction a) auto

lemma split_on_not_Nil [simp]: "split_on c s \<noteq> []"
  by (induction s) (auto split: list.splits)

lemma lines_cons:
  assumes "chr 10 \<notin> set a" "a = [] \<or> last a \<noteq> chr 13"
  shows "lines (a @ chr 10 # b) = a # lines b"
  using assms by (auto simp: lines_def split_on_append Let_def strip_cr_def)

lemma lines_Nil [simp]: "lines [] = []"
  by (simp add: lines_def)

text \<open>Trimming twice is trimming once, and joining pieces without the separator undoes splitting.\<close>

lemma strip_one_None_iff: "strip_one ws s = None \<longleftrightarrow> (\<forall>w \<in> set ws. w \<noteq> [] \<longrightarrow> \<not> prefix w s)"
  by (induction ws) auto

lemma strip_one_split: "strip_one ws s = Some t \<Longrightarrow> \<exists>p. s = p @ t"
  by (induction ws) (auto simp: prefix_def split: if_splits)

lemma strip_all_split: "\<exists>p. s = p @ strip_all ws s"
proof (induction ws s rule: strip_all.induct)
  case (1 ws s)
  show ?case
  proof (cases "strip_one ws s")
    case None
    then show ?thesis by (simp add: strip_all.simps [of ws s])
  next
    case (Some t)
    then obtain p where "t = p @ strip_all ws t" using 1 by blast
    moreover obtain q where "s = q @ t" using Some strip_one_split by blast
    ultimately show ?thesis using Some by (metis append.assoc option.case(2) strip_all.simps)
  qed
qed

lemma strip_all_fix: "strip_one ws s = None \<Longrightarrow> strip_all ws s = s"
  by (simp add: strip_all.simps)

lemma trim_end_prefix: "prefix (trim_end s) s"
proof -
  obtain p where "rev s = p @ strip_all (map rev white_space) (rev s)" using strip_all_split by blast
  then show ?thesis unfolding trim_end_def by (metis prefixI rev_append rev_rev_ident)
qed

lemma trim_start_trim_end:
  assumes "strip_one white_space s = None"
  shows "trim_start (trim_end s) = trim_end s"
proof -
  have "strip_one white_space (trim_end s) = None"
    using assms trim_end_prefix [of s] unfolding strip_one_None_iff by (meson prefix_order.trans)
  then show ?thesis by (simp add: trim_start_def strip_all_fix)
qed

lemma trim_end_idem [simp]: "trim_end (trim_end s) = trim_end s"
  by (simp add: trim_end_def strip_all_fix strip_all_stop)

lemma trim_idem [simp]: "trim (trim s) = trim s"
  by (simp add: trim_def trim_start_trim_end trim_start_def [of s] strip_all_stop)

lemma trim_Nil: "trim [] = []" by code_simp

lemma set_trim: "set (trim s) \<subseteq> set s"
proof -
  obtain p where "s = p @ trim_start s" unfolding trim_start_def using strip_all_split by blast
  then have "set (trim_start s) \<subseteq> set s" by (metis set_append sup_ge2)
  moreover have "set (trim s) \<subseteq> set (trim_start s)"
    unfolding trim_def using trim_end_prefix [of "trim_start s"] by (rule set_mono_prefix)
  ultimately show ?thesis by blast
qed

lemma split_on_join:
  "split_on c (s @ c # b) = split_on c s @ split_on c b"
  by (induction s) (auto split: list.splits)

lemma split_on_no_sep: "t \<in> set (split_on c s) \<Longrightarrow> c \<notin> set t"
  by (induction s arbitrary: t) (auto split: list.splits if_splits)

lemma split_on_plain: "c \<notin> set s \<Longrightarrow> split_on c s = [s]"
  by (induction s) auto

lemma split_on_joined:
  "\<forall>t \<in> set ts. c \<notin> set t \<Longrightarrow> split_on c (join_with [c] ts) = (if ts = [] then [[]] else ts)"
proof (induction ts rule: rev_induct)
  case (snoc t ts)
  show ?case
  proof (cases ts)
    case Nil
    then show ?thesis using snoc.prems by (simp add: join_with_def split_on_plain)
  next
    case (Cons a as)
    then have "join_with [c] (ts @ [t]) = join_with [c] ts @ c # t" by (simp add: join_with_def)
    then show ?thesis using snoc Cons by (simp add: split_on_join split_on_plain)
  qed
qed (simp add: join_with_def)

section \<open>Effects\<close>

text \<open>Code that acts on the outside world takes the world as its last argument and returns the result
  with the world it leaves behind, also when it fails.\<close>

type_synonym ('w, 'e, 'a) io = "'w \<Rightarrow> ('e + 'a) \<times> 'w"

definition io_lift :: "'e + 'a \<Rightarrow> ('w, 'e, 'a) io" where
  "io_lift r w = (r, w)"

definition io_return :: "'a \<Rightarrow> ('w, 'e, 'a) io" where
  "io_return x w = (Inr x, w)"

definition io_fail :: "'e \<Rightarrow> ('w, 'e, 'a) io" where
  "io_fail e w = (Inl e, w)"

definition io_bind :: "('w, 'e, 'a) io \<Rightarrow> ('a \<Rightarrow> ('w, 'e, 'b) io) \<Rightarrow> ('w, 'e, 'b) io" where
  "io_bind m f w = (case m w of (Inl e, w') \<Rightarrow> (Inl e, w') | (Inr x, w') \<Rightarrow> f x w')"

definition io_map_err :: "('e \<Rightarrow> 'f) \<Rightarrow> ('w, 'e, 'a) io \<Rightarrow> ('w, 'f, 'a) io" where
  "io_map_err g m w = (case m w of (r, w') \<Rightarrow> (map_err g r, w'))"

text \<open>\<^verbatim>\<open>match m.await\<close>: both outcomes are handled.\<close>

definition io_case :: "('w, 'e, 'a) io \<Rightarrow> ('e \<Rightarrow> ('w, 'f, 'b) io) \<Rightarrow> ('a \<Rightarrow> ('w, 'f, 'b) io) \<Rightarrow> ('w, 'f, 'b) io" where
  "io_case m g f w = (case m w of (Inl e, w') \<Rightarrow> g e w' | (Inr x, w') \<Rightarrow> f x w')"

lemma io_simps [simp, result_simps]:
  "io_lift r w = (r, w)" "io_return x w = (Inr x, w)" "io_fail e w = (Inl e, w)"
  "io_bind (io_lift (Inl e)) f w = (Inl e, w)" "io_bind (io_lift (Inr x)) f w = f x w"
  "io_bind (io_return x) f w = f x w" "io_bind (io_fail e) f w = (Inl e, w)"
  by (simp_all add: io_lift_def io_return_def io_fail_def io_bind_def)

lemma io_bind_lift: "io_bind (io_lift r) f w = (case r of Inl e \<Rightarrow> (Inl e, w) | Inr x \<Rightarrow> f x w)"
  by (cases r) simp_all

lemma io_bind_Inr_iff [dest_ok]:
  "io_bind m f w = (Inr y, w') \<longleftrightarrow> (\<exists>x u. m w = (Inr x, u) \<and> f x u = (Inr y, w'))"
  by (auto simp: io_bind_def split: prod.splits sum.splits)

lemma io_bind_Inl_iff:
  "io_bind m f w = (Inl e, w') \<longleftrightarrow> m w = (Inl e, w') \<or> (\<exists>x u. m w = (Inr x, u) \<and> f x u = (Inl e, w'))"
  by (auto simp: io_bind_def split: prod.splits sum.splits)

lemma io_map_err_Inr_iff [dest_ok, simp]:
  "io_map_err g m w = (Inr y, w') \<longleftrightarrow> m w = (Inr y, w')"
  by (auto simp: io_map_err_def split: prod.splits)

lemma snd_io_map_err [simp]: "snd (io_map_err g m w) = snd (m w)"
  by (simp add: io_map_err_def split: prod.split)

section \<open>What an operation keeps\<close>

definition keeps :: "('s \<Rightarrow> bool) \<Rightarrow> ('s, 'e, 'a) io \<Rightarrow> bool" where
  "keeps P m \<longleftrightarrow> (\<forall>w. P w \<longrightarrow> P (snd (m w)))"

named_theorems keeps_intros

lemma keeps_return [keeps_intros]: "keeps P (io_return x)"
  by (simp add: keeps_def)

lemma keeps_fail [keeps_intros]: "keeps P (io_fail e)"
  by (simp add: keeps_def)

lemma keeps_lift [keeps_intros]: "keeps P (io_lift r)"
  by (simp add: keeps_def)

lemma keeps_bind [keeps_intros]:
  assumes "keeps P m" "\<And>x. keeps P (f x)"
  shows "keeps P (io_bind m f)"
  unfolding keeps_def
proof (intro allI impI)
  fix w assume "P w"
  then have "P (snd (m w))" using assms(1) by (simp add: keeps_def)
  then show "P (snd (io_bind m f w))" using assms(2)
    by (cases "m w"; cases "fst (m w)") (auto simp: io_bind_def keeps_def)
qed

lemma keeps_option [keeps_intros]:
  "keeps P f \<Longrightarrow> (\<And>y. keeps P (g y)) \<Longrightarrow> keeps P (case x of None \<Rightarrow> f | Some y \<Rightarrow> g y)"
  by (cases x) simp_all

lemma keeps_if [keeps_intros]: "keeps P f \<Longrightarrow> keeps P g \<Longrightarrow> keeps P (if b then f else g)"
  by simp

lemma keeps_pair [keeps_intros]: "(\<And>x y. keeps P (f x y)) \<Longrightarrow> keeps P (case p of (x, y) \<Rightarrow> f x y)"
  by (cases p) simp

section \<open>Collecting results\<close>

text \<open>\<^verbatim>\<open>iter.map(f).collect::<Result<Vec<_>, _>>()\<close>: the first error ends it.\<close>

fun collect_results :: "('a \<Rightarrow> 'e + 'b) \<Rightarrow> 'a list \<Rightarrow> 'e + 'b list" where
  "collect_results f [] = Inr []"
| "collect_results f (x # xs) =
     and_then (f x) (\<lambda>y. and_then (collect_results f xs) (\<lambda>ys. Inr (y # ys)))"

lemma collect_results_Inr:
  "collect_results f xs = Inr ys \<longleftrightarrow> list_all2 (\<lambda>x y. f x = Inr y) xs ys"
  by (induction xs arbitrary: ys) (auto simp: and_then_Inr_iff list_all2_Cons1)

lemma list_all2_member: "list_all2 P xs ys \<Longrightarrow> x \<in> set xs \<Longrightarrow> \<exists>y \<in> set ys. P x y"
  by (induction xs ys rule: list_all2_induct) auto

lemma find_snoc:
  "List.find Q (xs @ [p]) = (case List.find Q xs of None \<Rightarrow> if Q p then Some p else None | Some x \<Rightarrow> Some x)"
  by (induction xs) simp_all

end
