(* ===== verification/Store.thy ===== *)
theory Store
  imports Json
begin

text \<open>
  The database of \<^verbatim>\<open>storage/src\<close> as the executor and the approval code see it: the rows of the tables they
  read and write, with the columns they use, and transactions.  A transaction may fail before it commits,
  and its commit may be lost (it took effect, but the caller is told it did not); \<open>st_outcomes\<close> says what
  happens to the next transactions, and every property is for arbitrary outcomes.  Row identifiers are
  \<^verbatim>\<open>Uuid::new_v4()\<close>, modelled as numbers that were never used before.  Times are seconds.
\<close>

section \<open>Rows\<close>

type_synonym uuid = nat

text \<open>An identifier as text: the digits matter nowhere, only that they tell identifiers apart.\<close>

definition uuid_text :: "uuid \<Rightarrow> string" where
  "uuid_text u = show_nat u"

datatype generation_status = Prepared | Completed | RecoveryRequired | RolledBack | NotApplied

record rule_intent =
  ri_id :: uuid
  ri_execution :: uuid
  ri_adapter :: string
  ri_action_name :: string
  ri_scope :: string
  ri_fingerprint :: string
  ri_target_json :: json
  ri_preflight :: json
  ri_plan :: json
  ri_ttl :: int
  ri_expires :: int
  ri_status :: generation_status

record receipt_row =
  rr_id :: uuid
  rr_intent :: "uuid option"
  rr_execution :: "uuid option"
  rr_adapter :: string
  rr_action_name :: string
  rr_preflight :: json
  rr_commands :: json
  rr_observed :: "json option"
  rr_verification :: "string option"
  rr_ttl :: int
  rr_plan :: json
  rr_dry_run :: bool
  rr_expires :: int
  rr_kind :: string
  rr_fingerprint :: "string option"
  rr_target_json :: "json option"
  rr_created :: int

record inflight_row =
  if_id :: uuid
  if_adapter :: string
  if_started :: int

record kill_switch_row =
  ks_id :: uuid
  ks_adapter :: string
  ks_fingerprint :: string
  ks_target_json :: json
  ks_reason :: "string option"
  ks_intent :: "uuid option"
  ks_processed :: "int option"

text \<open>A quarantine generation: a row of the same table, kept apart from the rule generations.\<close>

record quarantine_row =
  qi_id :: uuid
  qi_execution :: uuid
  qi_adapter :: string
  qi_action_name :: string
  qi_fingerprint :: string
  qi_target_json :: json
  qi_preflight :: json
  qi_plan :: json
  qi_ttl :: int
  qi_expires :: int
  qi_status :: generation_status
  qi_upid :: "string option"

datatype lease_status = LActive | LExpired | LReleased

record lease_row =
  le_execution :: uuid
  le_worker :: uuid
  le_status :: lease_status
  le_expires :: int

text \<open>Requests, the actions they ask for, and who may approve them.\<close>

datatype exec_status =
    ExWaitingApproval | ExPending | ExApproved | ExQueued | ExStarting | ExRunning
  | ExSuccess | ExCompleted | ExFailed | ExTimeout | ExRollbackRequired | ExCancelled

record execution_row =
  ex_id :: uuid
  ex_action :: uuid
  ex_workflow :: "uuid option"
  ex_decision :: "uuid option"
  ex_requested_by :: string
  ex_requester :: "uuid option"
  ex_status :: exec_status
  ex_idempotency_key :: "string option"
  ex_required_approvals :: int
  ex_approval_expires :: "int option"
  ex_context :: json
  ex_context_hash :: "string option"
  ex_started :: "int option"
  ex_timeout :: int
  ex_retry_count :: int
  ex_max_retries :: int
  ex_next_retry :: "int option"

record action_row =
  ac_id :: uuid
  ac_name :: string
  ac_risk_level :: string
  ac_enabled :: bool
  ac_requires_approval :: bool

record policy_row =
  po_risk_level :: string
  po_required_approvals :: int
  po_timeout :: int

datatype approval_mode = Distinct_Person | Single_Operator_Confirmation

record approval_row =
  ap_execution :: uuid
  ap_approver :: uuid
  ap_name :: string
  ap_hash :: string
  ap_mode :: approval_mode

datatype profile_mode = Multi_Person | Single_Operator

record approval_profile =
  pr_mode :: profile_mode
  pr_operator :: "uuid option"
  pr_allowed_actions :: "string list"

record admin_user =
  us_id :: uuid
  us_name :: string
  us_enabled :: bool
  us_role :: string

text \<open>An address behind a pseudonym: \<^verbatim>\<open>host(raw_ip)\<close>, and whether its prefix is that of a single host.\<close>

record resolution_row =
  rs_pseudonym :: string
  rs_raw_ip :: string
  rs_single_host :: bool
  rs_expires :: int

text \<open>What the reputation feeds say now: by address, and by pseudonym for its origin network, the best unexpired listing.
  The executor never writes these tables.\<close>

record listing =
  li_confidence :: int
  li_last_seen :: int

datatype db_outcome = Db_Ok | Db_Failed | Commit_Lost

record store =
  st_now :: int
  st_next :: uuid
  st_intents :: "rule_intent list"
  st_quarantines :: "quarantine_row list"
  st_receipts :: "receipt_row list"
  st_inflight :: "inflight_row list"
  st_kill_switches :: "kill_switch_row list"
  st_leases :: "lease_row list"
  st_executions :: "execution_row list"
  st_actions :: "action_row list"
  st_policies :: "policy_row list"
  st_approvals :: "approval_row list"
  st_profile :: "approval_profile option"
  st_users :: "admin_user list"
  st_resolutions :: "resolution_row list"
  st_ip_listing :: "(string \<times> listing) list"
  st_asn_listing :: "(string \<times> listing) list"
  st_audit :: "(string \<times> string \<times> uuid) list"
  st_locked :: "uuid list"
  st_outcomes :: "db_outcome list"

section \<open>Transactions\<close>

definition db_error :: msg where
  "db_error = [Lit ''database error'']"

definition next_outcome :: "store \<Rightarrow> db_outcome \<times> store" where
  "next_outcome s = (case st_outcomes s of [] \<Rightarrow> (Db_Ok, s) | x # xs \<Rightarrow> (x, s\<lparr>st_outcomes := xs\<rparr>))"

definition transaction :: "(store \<Rightarrow> msg + 'a \<times> store) \<Rightarrow> (store, msg, 'a) io" where
  "transaction body s =
     (case next_outcome s of (outcome, u) \<Rightarrow>
        if outcome = Db_Failed then (Inl db_error, u)
        else
          (case body u of
             Inl e \<Rightarrow> (Inl e, u)
           | Inr (x, v) \<Rightarrow> (if outcome = Commit_Lost then (Inl db_error, v) else (Inr x, v))))"

text \<open>A read, and a single statement that cannot be refused.\<close>

definition query :: "(store \<Rightarrow> 'a) \<Rightarrow> (store, msg, 'a) io" where
  "query f = transaction (\<lambda>s. Inr (f s, s))"

definition execute :: "(store \<Rightarrow> store) \<Rightarrow> (store, msg, unit) io" where
  "execute f = transaction (\<lambda>s. Inr ((), f s))"

text \<open>\<^verbatim>\<open>insert_audit_outbox\<close>: the actor, the action and the resource of an audit event; its JSON details are
  not kept.\<close>

definition audit :: "string \<Rightarrow> string \<Rightarrow> uuid \<Rightarrow> store \<Rightarrow> store" where
  "audit actor action resource s = s\<lparr>st_audit := st_audit s @ [(actor, action, resource)]\<rparr>"

definition fresh :: "store \<Rightarrow> uuid \<times> store" where
  "fresh s = (st_next s, s\<lparr>st_next := st_next s + 1\<rparr>)"

section \<open>Lemmas\<close>

text \<open>A transaction of a working database.\<close>

lemma transaction_quiet:
  "st_outcomes s = [] \<Longrightarrow>
   transaction body s = (case body s of Inl e \<Rightarrow> (Inl e, s) | Inr (x, v) \<Rightarrow> (Inr x, v))"
  by (simp add: transaction_def next_outcome_def split: sum.split prod.split)

lemma query_quiet: "st_outcomes s = [] \<Longrightarrow> query f s = (Inr (f s), s)"
  by (simp add: query_def transaction_quiet)

text \<open>What a transaction can have done: its body ran on the state, or nothing happened; the consumed outcome
  apart.\<close>

lemma transaction_cases:
  assumes "transaction body s = (r, s')"
  obtains (none) u e where "u = snd (next_outcome s)" "s' = u" "r = Inl e"
  | (ran) u x where "u = snd (next_outcome s)" "body u = Inr (x, s')" "r = Inr x \<or> r = Inl db_error"
proof -
  obtain oc u where u: "next_outcome s = (oc, u)" by (rule prod.exhaust)
  have u': "u = snd (next_outcome s)" by (simp add: u)
  show ?thesis
  proof (cases "oc = Db_Failed")
    case True
    then have "r = Inl db_error" "s' = u" using assms by (simp_all add: transaction_def u)
    then show ?thesis using none [OF u'] by blast
  next
    case False
    show ?thesis
    proof (cases "body u")
      case (Inl e)
      then have "r = Inl e" "s' = u" using assms False by (simp_all add: transaction_def u)
      then show ?thesis using none [OF u'] by blast
    next
      case (Inr y)
      obtain x v where y: "y = (x, v)" by (rule prod.exhaust)
      then have "s' = v" "r = Inr x \<or> r = Inl db_error"
        using assms False Inr by (simp_all add: transaction_def u split: if_split_asm)
      then show ?thesis using ran [OF u'] Inr y by blast
    qed
  qed
qed

lemma transaction_Inr:
  "transaction body s = (Inr x, s') \<Longrightarrow> body (snd (next_outcome s)) = Inr (x, s')"
  by (erule transaction_cases) (simp_all add: db_error_def)

lemma transaction_pres:
  assumes "transaction body s = (r, s')" "P s" "\<And>t os. P t \<Longrightarrow> P (t\<lparr>st_outcomes := os\<rparr>)"
    and "\<And>u x v. P u \<Longrightarrow> body u = Inr (x, v) \<Longrightarrow> P v"
  shows "P s'"
proof -
  have u: "P (snd (next_outcome s))"
    by (cases "st_outcomes s") (simp_all add: next_outcome_def assms(2) assms(3))
  show ?thesis using assms(1)
  proof (rule transaction_cases)
    fix u e assume "u = snd (next_outcome s)" "s' = u"
    then show ?thesis using u by simp
  next
    fix v x assume "v = snd (next_outcome s)" "body v = Inr (x, s')"
    then show ?thesis using u assms(4) by blast
  qed
qed

lemma next_outcome_simps [simp]:
  "st_now (snd (next_outcome s)) = st_now s" "st_next (snd (next_outcome s)) = st_next s"
  "st_intents (snd (next_outcome s)) = st_intents s" "st_quarantines (snd (next_outcome s)) = st_quarantines s"
  "st_receipts (snd (next_outcome s)) = st_receipts s"
  "st_inflight (snd (next_outcome s)) = st_inflight s" "st_kill_switches (snd (next_outcome s)) = st_kill_switches s"
  "st_leases (snd (next_outcome s)) = st_leases s" "st_executions (snd (next_outcome s)) = st_executions s"
  "st_actions (snd (next_outcome s)) = st_actions s" "st_policies (snd (next_outcome s)) = st_policies s"
  "st_approvals (snd (next_outcome s)) = st_approvals s" "st_users (snd (next_outcome s)) = st_users s"
  "st_profile (snd (next_outcome s)) = st_profile s"
  "st_locked (snd (next_outcome s)) = st_locked s" "st_audit (snd (next_outcome s)) = st_audit s"
  "st_resolutions (snd (next_outcome s)) = st_resolutions s"
  "st_ip_listing (snd (next_outcome s)) = st_ip_listing s" "st_asn_listing (snd (next_outcome s)) = st_asn_listing s"
  by (auto simp: next_outcome_def split: list.splits)

text \<open>A property of the stored rows does not depend on the outcomes still to come.\<close>

definition row_property :: "(store \<Rightarrow> bool) \<Rightarrow> bool" where
  "row_property P \<longleftrightarrow> (\<forall>s os. P s \<longrightarrow> P (s\<lparr>st_outcomes := os\<rparr>))"

definition body_keeps :: "(store \<Rightarrow> bool) \<Rightarrow> (store \<Rightarrow> msg + 'a \<times> store) \<Rightarrow> bool" where
  "body_keeps P body \<longleftrightarrow> (\<forall>u x v. P u \<and> body u = Inr (x, v) \<longrightarrow> P v)"

lemma keeps_transaction:
  assumes "row_property P" "body_keeps P body"
  shows "keeps P (transaction body)"
  unfolding keeps_def
proof (intro allI impI)
  fix w assume w: "P w"
  obtain r w' where t: "transaction body w = (r, w')" by (rule prod.exhaust)
  then show "P (snd (transaction body w))" using w
    by (simp, rule transaction_pres [of body w r w' P])
      (use assms in \<open>auto simp: row_property_def body_keeps_def\<close>)
qed

lemma keeps_query: "row_property P \<Longrightarrow> keeps P (query f)"
  unfolding query_def by (rule keeps_transaction) (auto simp: body_keeps_def)

lemma keeps_execute: "row_property P \<Longrightarrow> (\<And>u. P u \<Longrightarrow> P (f u)) \<Longrightarrow> keeps P (execute f)"
  unfolding execute_def by (rule keeps_transaction) (auto simp: body_keeps_def)

end
