(* ===== verification/Ownership.thy ===== *)
theory Ownership
  imports Store
begin

text \<open>
  What the two write-ahead journals promise, without their rows: at any time a target has at most one owner,
  a generation with a status; it is claimed when free, its status moves along the transitions of the schema,
  and it is released by a transition into a resolved status.  The locale \<open>ownership_journal\<close> is the
  interface to it; the rule journal and the quarantine journal both interpret it.
\<close>

section \<open>Status\<close>

definition active :: "generation_status \<Rightarrow> bool" where
  "active st = (st \<in> {Prepared, Completed, RecoveryRequired})"

fun status_name :: "generation_status \<Rightarrow> string" where
  "status_name Prepared = ''prepared''"
| "status_name Completed = ''completed''"
| "status_name RecoveryRequired = ''recovery_required''"
| "status_name RolledBack = ''rolled_back''"
| "status_name NotApplied = ''not_applied''"

text \<open>The trigger \<^verbatim>\<open>protect_firewall_rule_intent_snapshot\<close> on a change of status.\<close>

definition generation_transition :: "generation_status \<Rightarrow> generation_status \<Rightarrow> bool" where
  "generation_transition old new =
     (old = new \<or>
      (old = Prepared \<and> new \<in> {Completed, NotApplied, RecoveryRequired, RolledBack}) \<or>
      (old = Completed \<and> new \<in> {RecoveryRequired, RolledBack}) \<or>
      (old = RecoveryRequired \<and> new = RolledBack))"

lemma generation_transition_refl [simp]: "generation_transition st st"
  by (simp add: generation_transition_def)

lemma generation_transition_trans:
  "generation_transition a b \<Longrightarrow> generation_transition b c \<Longrightarrow> generation_transition a c"
  by (auto simp: generation_transition_def)

lemma transition_from_inactive: "generation_transition old new \<Longrightarrow> \<not> active old \<Longrightarrow> new = old"
  by (cases old) (auto simp: generation_transition_def active_def)

section \<open>The abstract machine\<close>

type_synonym 'k owners = "'k \<Rightarrow> (uuid \<times> generation_status) option"

inductive ownership_step :: "'k owners \<Rightarrow> 'k owners \<Rightarrow> bool" where
  idle: "ownership_step M M"
| claim: "M k = None \<Longrightarrow> ownership_step M (M(k := Some (i, Prepared)))"
| progress: "M k = Some (i, st) \<Longrightarrow> generation_transition st st' \<Longrightarrow> active st' \<Longrightarrow>
    ownership_step M (M(k := Some (i, st')))"
| release: "M k = Some (i, st) \<Longrightarrow> generation_transition st st' \<Longrightarrow> \<not> active st' \<Longrightarrow>
    ownership_step M (M(k := None))"

inductive_cases ownership_stepE: "ownership_step M N"

lemma ownership_step_owner:
  assumes "ownership_step M N" "M k = Some (i, st)"
  shows "N k = None \<or> (\<exists>st'. N k = Some (i, st') \<and> generation_transition st st')"
  using assms(1) by (cases rule: ownership_step.cases) (use assms(2) in \<open>auto split: if_splits\<close>)

section \<open>Rows that own\<close>

text \<open>The owners a table of generations stands for: \<open>key\<close> is the target of a row, \<open>rid\<close> its identifier
  and \<open>st\<close> its status.\<close>

definition row_owners :: "('r \<Rightarrow> 'k) \<Rightarrow> ('r \<Rightarrow> uuid) \<Rightarrow> ('r \<Rightarrow> generation_status) \<Rightarrow> 'r list \<Rightarrow> 'k owners" where
  "row_owners key rid st rs k = map_option (\<lambda>r. (rid r, st r)) (List.find (\<lambda>r. key r = k \<and> active (st r)) rs)"

definition rows_ok :: "('r \<Rightarrow> 'k) \<Rightarrow> ('r \<Rightarrow> uuid) \<Rightarrow> ('r \<Rightarrow> generation_status) \<Rightarrow> 'r list \<Rightarrow> bool" where
  "rows_ok key rid st rs \<longleftrightarrow> distinct (map rid rs) \<and>
     (\<forall>a \<in> set rs. \<forall>b \<in> set rs. active (st a) \<and> active (st b) \<and> key a = key b \<longrightarrow> a = b)"

definition update_rows :: "('r \<Rightarrow> uuid) \<Rightarrow> uuid \<Rightarrow> ('r \<Rightarrow> 'r) \<Rightarrow> 'r list \<Rightarrow> 'r list" where
  "update_rows rid i upd rs = map (\<lambda>r. if rid r = i then upd r else r) rs"

lemma row_owners_iff:
  assumes "rows_ok key rid st rs"
  shows "row_owners key rid st rs k = Some (i, x) \<longleftrightarrow> (\<exists>r \<in> set rs. key r = k \<and> active (st r) \<and> rid r = i \<and> st r = x)"
proof
  assume "row_owners key rid st rs k = Some (i, x)"
  then show "\<exists>r \<in> set rs. key r = k \<and> active (st r) \<and> rid r = i \<and> st r = x"
    by (auto simp: row_owners_def find_Some_iff)
next
  assume "\<exists>r \<in> set rs. key r = k \<and> active (st r) \<and> rid r = i \<and> st r = x"
  then obtain r where r: "r \<in> set rs" "key r = k" "active (st r)" "rid r = i" "st r = x" by blast
  then obtain q where q: "List.find (\<lambda>r. key r = k \<and> active (st r)) rs = Some q"
    by (cases "List.find (\<lambda>r. key r = k \<and> active (st r)) rs") (auto simp: find_None_iff)
  then have "q \<in> set rs" "key q = k" "active (st q)" by (auto simp: find_Some_iff)
  then have "q = r" using r assms unfolding rows_ok_def by blast
  then show "row_owners key rid st rs k = Some (i, x)" using q r by (simp add: row_owners_def)
qed

lemma owners_eqI: "(\<And>k i x. M k = Some (i, x) \<longleftrightarrow> N k = Some (i, x)) \<Longrightarrow> M = N"
  by (rule ext) (metis option.exhaust surj_pair)

lemma rows_ok_id: "rows_ok key rid st rs \<Longrightarrow> r \<in> set rs \<Longrightarrow> g \<in> set rs \<Longrightarrow> rid r = rid g \<Longrightarrow> r = g"
  by (auto simp: rows_ok_def distinct_map inj_on_def)

lemma set_update_rows:
  assumes "rows_ok key rid st rs" "g \<in> set rs"
  shows "set (update_rows rid (rid g) upd rs) = insert (upd g) {r \<in> set rs. rid r \<noteq> rid g}"
proof -
  have "r = g" if "r \<in> set rs" "rid r = rid g" for r using rows_ok_id [OF assms(1) that(1) assms(2) that(2)] .
  then show ?thesis using assms(2) by (auto simp: update_rows_def)
qed

lemma rows_ok_update:
  assumes ok: "rows_ok key rid st rs" and g: "g \<in> set rs" "active (st g)"
    and upd: "\<And>r. key (upd r) = key r" "\<And>r. rid (upd r) = rid r"
  shows "rows_ok key rid st (update_rows rid (rid g) upd rs)"
proof -
  have "map rid (update_rows rid (rid g) upd rs) = map rid rs" by (simp add: update_rows_def upd(2))
  moreover have "a = b" if "active (st a)" "active (st b)" "key a = key b"
    "a \<in> insert (upd g) {r \<in> set rs. rid r \<noteq> rid g}" "b \<in> insert (upd g) {r \<in> set rs. rid r \<noteq> rid g}" for a b
    using that ok g upd(1) unfolding rows_ok_def by (metis (mono_tags, lifting) insertE mem_Collect_eq)
  ultimately show ?thesis using ok unfolding rows_ok_def set_update_rows [OF ok g(1)] by (metis (no_types, lifting))
qed

lemma row_owners_update:
  assumes ok: "rows_ok key rid st rs" and g: "g \<in> set rs" "active (st g)"
    and upd: "\<And>r. key (upd r) = key r" "\<And>r. rid (upd r) = rid r" "\<And>r. st (upd r) = new"
  shows "row_owners key rid st (update_rows rid (rid g) upd rs) =
    (row_owners key rid st rs)(key g := if active new then Some (rid g, new) else None)" (is "?l = ?r")
proof (rule owners_eqI)
  fix k i x
  note ok' = rows_ok_update [OF ok g upd(1,2)]
  have owner: "r = g" if "r \<in> set rs" "key r = key g" "active (st r)" for r
    using ok that g unfolding rows_ok_def by blast
  have "?l k = Some (i, x) \<longleftrightarrow> (\<exists>r \<in> insert (upd g) {r \<in> set rs. rid r \<noteq> rid g}. key r = k \<and> active (st r) \<and> rid r = i \<and> st r = x)"
    unfolding row_owners_iff [OF ok'] set_update_rows [OF ok g(1)] ..
  also have "\<dots> \<longleftrightarrow> ?r k = Some (i, x)"
  proof (cases "k = key g")
    case True
    then show ?thesis using owner by (auto simp: upd)
  next
    case False
    then show ?thesis using g(1) rows_ok_id [OF ok] by (auto simp: upd row_owners_iff [OF ok])
  qed
  finally show "?l k = Some (i, x) \<longleftrightarrow> ?r k = Some (i, x)" .
qed

lemma row_owners_snoc:
  assumes "row_owners key rid st rs (key p) = None" "active (st p)"
  shows "row_owners key rid st (rs @ [p]) = (row_owners key rid st rs)(key p := Some (rid p, st p))"
  using assms by (auto simp: row_owners_def find_snoc fun_eq_iff split: option.split)

text \<open>An updated row is a step of the machine.\<close>

lemma update_rows_step:
  assumes ok: "rows_ok key rid st rs" and g: "g \<in> set rs" "active (st g)" and tr: "generation_transition (st g) new"
    and upd: "\<And>r. key (upd r) = key r" "\<And>r. rid (upd r) = rid r" "\<And>r. st (upd r) = new"
  shows "ownership_step (row_owners key rid st rs) (row_owners key rid st (update_rows rid (rid g) upd rs))"
proof -
  have own: "row_owners key rid st rs (key g) = Some (rid g, st g)" using row_owners_iff [OF ok] g by blast
  show ?thesis
    unfolding row_owners_update [OF ok g upd]
    using ownership_step.progress [of "row_owners key rid st rs", OF own tr]
      ownership_step.release [of "row_owners key rid st rs", OF own tr] by simp
qed

lemma snoc_row_step:
  assumes "\<forall>q \<in> set rs. \<not> (key q = key p \<and> active (st q))" "st p = Prepared"
  shows "ownership_step (row_owners key rid st rs) (row_owners key rid st (rs @ [p]))"
proof -
  have none: "row_owners key rid st rs (key p) = None" using assms(1) by (auto simp: row_owners_def find_None_iff)
  have "active (st p)" using assms(2) by (simp add: active_def)
  from row_owners_snoc [OF none this] show ?thesis
    using ownership_step.claim [of "row_owners key rid st rs", OF none] by (simp add: assms(2))
qed

section \<open>The interface\<close>

text \<open>A concrete journal: its steps, an invariant they keep, and who owns what.\<close>

locale ownership_journal =
  fixes step :: "'c \<Rightarrow> 'c \<Rightarrow> bool" and inv :: "'c \<Rightarrow> bool" and owners :: "'c \<Rightarrow> 'k owners"
  assumes step_inv: "step S T \<Longrightarrow> inv S \<Longrightarrow> inv T"
    and simulation: "step S T \<Longrightarrow> inv S \<Longrightarrow> ownership_step (owners S) (owners T)"
begin

lemma run_inv: "step\<^sup>*\<^sup>* S T \<Longrightarrow> inv S \<Longrightarrow> inv T"
  by (induction rule: rtranclp_induct) (auto intro: step_inv)

lemma refines: "step\<^sup>*\<^sup>* S T \<Longrightarrow> inv S \<Longrightarrow> ownership_step\<^sup>*\<^sup>* (owners S) (owners T)"
proof (induction rule: rtranclp_induct)
  case (step T U)
  then have "ownership_step (owners T) (owners U)" using simulation run_inv by blast
  then show ?case using step by (meson rtranclp.rtrancl_into_rtrancl)
qed simp

text \<open>An owner is only ever replaced after a state in which the target was free.\<close>

lemma owner_kept:
  assumes "step\<^sup>*\<^sup>* S T" "inv S" "owners S k = Some (i, st)"
  shows "(\<exists>U. step\<^sup>*\<^sup>* S U \<and> step\<^sup>*\<^sup>* U T \<and> owners U k = None) \<or>
    (\<exists>st'. owners T k = Some (i, st') \<and> generation_transition st st')"
  using assms
proof (induction rule: rtranclp_induct)
  case base
  then show ?case by simp
next
  case (step T U)
  from step.IH [OF step.prems] show ?case
  proof
    assume "\<exists>V. step\<^sup>*\<^sup>* S V \<and> step\<^sup>*\<^sup>* V T \<and> owners V k = None"
    then show ?thesis using step.hyps(2) by (meson rtranclp.rtrancl_into_rtrancl)
  next
    assume "\<exists>st'. owners T k = Some (i, st') \<and> generation_transition st st'"
    then obtain st' where o: "owners T k = Some (i, st')" "generation_transition st st'" by blast
    have "ownership_step (owners T) (owners U)"
      using simulation [OF step.hyps(2)] run_inv [OF step.hyps(1) step.prems(1)] by blast
    from ownership_step_owner [OF this o(1)] show ?thesis
    proof
      assume "owners U k = None"
      then show ?thesis using step.hyps by (meson rtranclp.rtrancl_into_rtrancl rtranclp.rtrancl_refl)
    next
      assume "\<exists>st''. owners U k = Some (i, st'') \<and> generation_transition st' st''"
      then show ?thesis using o(2) generation_transition_trans by blast
    qed
  qed
qed

end

end
