(* ===== verification/Rule_Journal.thy ===== *)
theory Rule_Journal
  imports Ownership
begin

text \<open>
  \<^verbatim>\<open>storage/src/firewall_rule_intents.rs\<close>: the write-ahead journal of firewall rules.  A generation is
  prepared before the adapter is called, and finished, retained for recovery, rolled back or declared not
  applied afterwards.  The constraints of migration 0055 that the operations rely on are part of them: one
  active generation per rule, the fenced status changes, one receipt of a kind per generation.  A guard
  holds the row's lock from its acquisition to its end, also when its transaction fails.
\<close>

section \<open>Rows\<close>

text \<open>What is written into a receipt row (\<^verbatim>\<open>FirewallActionReceiptInput\<close>).\<close>

record receipt_input =
  in_execution :: "uuid option"
  in_adapter :: string
  in_action_name :: string
  in_preflight :: json
  in_commands :: json
  in_observed :: "json option"
  in_verification :: "string option"
  in_ttl :: "32 word"
  in_plan :: json
  in_dry_run :: bool
  in_kind :: string
  in_fingerprint :: "string option"
  in_target_json :: "json option"

definition find_intent :: "store \<Rightarrow> uuid \<Rightarrow> rule_intent option" where
  "find_intent s i = List.find (\<lambda>r. ri_id r = i) (st_intents s)"

definition same_rule :: "rule_intent \<Rightarrow> rule_intent \<Rightarrow> bool" where
  "same_rule a b = (ri_adapter a = ri_adapter b \<and> ri_scope a = ri_scope b \<and> ri_fingerprint a = ri_fingerprint b)"

text \<open>\<^verbatim>\<open>UPDATE firewall_action_intents SET status\<close>, with its trigger.\<close>

definition set_status :: "uuid \<Rightarrow> generation_status \<Rightarrow> store \<Rightarrow> msg + store" where
  "set_status i new s =
     (if list_all (\<lambda>r. ri_id r = i \<longrightarrow> generation_transition (ri_status r) new) (st_intents s)
      then Inr (s\<lparr>st_intents := map (\<lambda>r. if ri_id r = i then r\<lparr>ri_status := new\<rparr> else r) (st_intents s)\<rparr>)
      else Inl db_error)"

text \<open>\<^verbatim>\<open>INSERT INTO firewall_action_receipts\<close>, with its unique index.\<close>

definition insert_receipt :: "receipt_row \<Rightarrow> store \<Rightarrow> msg + store" where
  "insert_receipt r s =
     (if rr_intent r \<noteq> None \<and> list_ex (\<lambda>q. rr_intent q = rr_intent r \<and> rr_kind q = rr_kind r) (st_receipts s)
      then Inl db_error
      else Inr (s\<lparr>st_receipts := st_receipts s @ [r]\<rparr>))"

section \<open>Preparation\<close>

definition bounded :: "string \<Rightarrow> bool" where
  "bounded t = (t \<noteq> [] \<and> length t \<le> 256 \<and> \<not> has_control t)"

definition is_object :: "json \<Rightarrow> bool" where
  "is_object v = (as_object v \<noteq> None)"

definition prepare_body ::
  "uuid \<Rightarrow> string \<Rightarrow> string \<Rightarrow> string \<Rightarrow> string \<Rightarrow> json \<Rightarrow> json \<Rightarrow> json \<Rightarrow> 32 word \<Rightarrow> store \<Rightarrow> msg + uuid \<times> store" where
  "prepare_body execution adapter action_name scope fingerprint target_json preflight plan ttl s =
     (let (i, s) = fresh s;
          r = \<lparr> ri_id = i, ri_execution = execution, ri_adapter = adapter, ri_action_name = action_name,
                ri_scope = scope, ri_fingerprint = fingerprint, ri_target_json = target_json,
                ri_preflight = preflight, ri_plan = plan, ri_ttl = sint ttl, ri_expires = st_now s + sint ttl,
                ri_status = Prepared \<rparr> in
      if list_ex (\<lambda>q. same_rule q r \<and> active (ri_status q)) (st_intents s)
      then Inl [Lit ''firewall rule already owned by an active generation or invalid snapshot'']
      else Inr (i, audit ''executor'' ''firewall_rule_intent_prepared'' i (s\<lparr>st_intents := st_intents s @ [r]\<rparr>)))"

text \<open>\<open>json_len\<close> is the length of a value's JSON text.\<close>

definition prepare_firewall_rule_intent ::
  "(json \<Rightarrow> nat) \<Rightarrow> uuid \<Rightarrow> string \<Rightarrow> string \<Rightarrow> string \<Rightarrow> string \<Rightarrow> json \<Rightarrow> json \<Rightarrow> json \<Rightarrow> 32 word \<Rightarrow>
   (store, msg, uuid) io" where
  "prepare_firewall_rule_intent json_len execution adapter action_name scope fingerprint target_json preflight plan ttl =
     (if \<not> (adapter = ''nftables'' \<or> adapter = ''haproxy'' \<or> adapter = ''haproxy_ratelimit'')
         \<or> \<not> bounded fingerprint \<or> \<not> bounded scope
         \<or> \<not> is_object target_json \<or> \<not> is_object preflight \<or> \<not> is_object plan
         \<or> \<not> (60 \<le> ttl \<and> ttl \<le> 86400)
         \<or> list_ex (\<lambda>v. json_len v > 65536) [target_json, preflight, plan]
      then io_fail [Lit ''invalid bounded firewall rule intent metadata'']
      else transaction (prepare_body execution adapter action_name scope fingerprint target_json preflight plan ttl))"

section \<open>The guard\<close>

definition release :: "uuid \<Rightarrow> store \<Rightarrow> store" where
  "release i s = s\<lparr>st_locked := removeAll i (st_locked s)\<rparr>"

definition acquire_firewall_rule_guard :: "uuid \<Rightarrow> (store, msg, rule_intent option) io" where
  "acquire_firewall_rule_guard i s =
     (case next_outcome s of (outcome, s) \<Rightarrow>
        if outcome \<noteq> Db_Ok then (Inl db_error, s)
        else
          (case find_intent s i of
             Some r \<Rightarrow>
               if active (ri_status r) \<and> i \<notin> set (st_locked s)
               then (Inr (Some r), s\<lparr>st_locked := i # st_locked s\<rparr>)
               else (Inr None, s)
           | None \<Rightarrow> (Inr None, s)))"

definition guard_abort :: "rule_intent \<Rightarrow> store \<Rightarrow> store" where
  "guard_abort g s = release (ri_id g) s"

text \<open>The statements of a guard, ended by its commit or by its rollback.\<close>

definition guard_commit :: "rule_intent \<Rightarrow> (store \<Rightarrow> msg + 'a \<times> store) \<Rightarrow> (store, msg, 'a) io" where
  "guard_commit g body s = (case transaction body s of (r, s') \<Rightarrow> (r, release (ri_id g) s'))"

definition finish_mismatched :: "rule_intent \<Rightarrow> receipt_input \<Rightarrow> bool" where
  "finish_mismatched g input =
     (ri_status g \<noteq> Prepared \<or> in_execution input \<noteq> Some (ri_execution g) \<or> in_adapter input \<noteq> ri_adapter g
      \<or> in_action_name input \<noteq> ri_action_name g \<or> in_fingerprint input \<noteq> Some (ri_fingerprint g)
      \<or> in_target_json input \<noteq> Some (ri_target_json g) \<or> in_preflight input \<noteq> ri_preflight g
      \<or> in_plan input \<noteq> ri_plan g \<or> in_ttl input \<noteq> word_of_int (ri_ttl g) \<or> in_dry_run input
      \<or> in_kind input \<noteq> ''apply'' \<or> in_verification input \<noteq> Some ''verified'')"

text \<open>The row both inserts write for a generation, at time \<open>now\<close>.\<close>

definition generation_receipt ::
  "rule_intent \<Rightarrow> uuid \<Rightarrow> int \<Rightarrow> string \<Rightarrow> json \<Rightarrow> json option \<Rightarrow> string option \<Rightarrow> receipt_row" where
  "generation_receipt g rid now kind commands observed verification =
     \<lparr> rr_id = rid, rr_intent = Some (ri_id g), rr_execution = Some (ri_execution g),
       rr_adapter = ri_adapter g, rr_action_name = ri_action_name g, rr_preflight = ri_preflight g,
       rr_commands = commands, rr_observed = observed, rr_verification = verification,
       rr_ttl = ri_ttl g, rr_plan = ri_plan g, rr_dry_run = False, rr_expires = ri_expires g, rr_kind = kind,
       rr_fingerprint = Some (ri_fingerprint g), rr_target_json = Some (ri_target_json g), rr_created = now \<rparr>"

definition guard_finish_body :: "rule_intent \<Rightarrow> receipt_input \<Rightarrow> store \<Rightarrow> msg + uuid \<times> store" where
  "guard_finish_body g input s =
     (let (rid, s) = fresh s in
      and_then (insert_receipt (generation_receipt g rid (st_now s) ''apply'' (in_commands input) (in_observed input)
        (in_verification input)) s) (\<lambda>s.
      and_then (set_status (ri_id g) Completed s) (\<lambda>s.
      Inr (rid, audit ''executor'' ''firewall_rule_intent_completed'' (ri_id g) s))))"

definition guard_finish :: "rule_intent \<Rightarrow> receipt_input \<Rightarrow> (store, msg, uuid) io" where
  "guard_finish g input s =
     (if finish_mismatched g input
      then (Inl [Lit ''receipt does not match prepared verified firewall rule generation''], guard_abort g s)
      else guard_commit g (guard_finish_body g input) s)"

definition guard_transition_body :: "rule_intent \<Rightarrow> generation_status \<Rightarrow> store \<Rightarrow> msg + unit \<times> store" where
  "guard_transition_body g st s =
     and_then (set_status (ri_id g) st s) (\<lambda>s.
     Inr ((), audit ''executor'' (''firewall_rule_intent_'' @ status_name st) (ri_id g) s))"

definition guard_transition :: "rule_intent \<Rightarrow> generation_status \<Rightarrow> (store, msg, unit) io" where
  "guard_transition g st = guard_commit g (guard_transition_body g st)"

definition guard_rollback_body :: "rule_intent \<Rightarrow> store \<Rightarrow> msg + unit \<times> store" where
  "guard_rollback_body g s =
     (let (rid, s) = fresh s in
      and_then (insert_receipt (generation_receipt g rid (st_now s) ''rollback'' (ri_plan g)
        (Some (JObj [(''restored_or_removed'', JBool True)])) (Some ''verified'')) s) (guard_transition_body g RolledBack))"

definition guard_resolve_rollback :: "rule_intent \<Rightarrow> (store, msg, unit) io" where
  "guard_resolve_rollback g = guard_commit g (guard_rollback_body g)"

definition guard_recovery_required :: "rule_intent \<Rightarrow> (store, msg, unit) io" where
  "guard_recovery_required g = guard_transition g RecoveryRequired"

definition guard_not_applied :: "rule_intent \<Rightarrow> (store, msg, unit) io" where
  "guard_not_applied g s =
     (if ri_status g \<noteq> Prepared
      then (Inl [Lit ''ambiguous mutation cannot be declared unapplied''], guard_abort g s)
      else guard_transition g NotApplied s)"

section \<open>Operations by identifier\<close>

definition busy_error :: msg where
  "busy_error = [Lit ''firewall rule generation is resolved or busy'']"

text \<open>\<^verbatim>\<open>acquire(id).await?.ok_or(..)?\<close>, then the operation on the guard.\<close>

definition with_guard :: "uuid \<Rightarrow> (rule_intent \<Rightarrow> (store, msg, 'a) io) \<Rightarrow> (store, msg, 'a) io" where
  "with_guard i f =
     io_bind (acquire_firewall_rule_guard i) (\<lambda>g. case g of None \<Rightarrow> io_fail busy_error | Some r \<Rightarrow> f r)"

definition finish_firewall_rule_intent :: "uuid \<Rightarrow> receipt_input \<Rightarrow> (store, msg, uuid) io" where
  "finish_firewall_rule_intent i input = with_guard i (\<lambda>g. guard_finish g input)"

definition transition_firewall_rule_intent ::
  "uuid \<Rightarrow> generation_status \<Rightarrow> generation_status list \<Rightarrow> (store, msg, unit) io" where
  "transition_firewall_rule_intent i st allowed =
     with_guard i (\<lambda>g s.
       if ri_status g \<notin> set allowed
       then (Inl [Lit ''firewall rule intent transition refused''], guard_abort g s)
       else guard_transition g st s)"

definition mark_firewall_rule_not_applied :: "uuid \<Rightarrow> (store, msg, unit) io" where
  "mark_firewall_rule_not_applied i = transition_firewall_rule_intent i NotApplied [Prepared]"

definition mark_firewall_rule_recovery_required :: "uuid \<Rightarrow> (store, msg, unit) io" where
  "mark_firewall_rule_recovery_required i =
     transition_firewall_rule_intent i RecoveryRequired [Prepared, Completed, RecoveryRequired]"

definition resolve_firewall_rule_rollback :: "uuid \<Rightarrow> (store, msg, unit) io" where
  "resolve_firewall_rule_rollback i = with_guard i guard_resolve_rollback"

section \<open>Reads\<close>

definition firewall_rule_intent :: "uuid \<Rightarrow> (store, msg, rule_intent option) io" where
  "firewall_rule_intent i = query (\<lambda>s. find_intent s i)"

definition unresolved_firewall_rule_intents :: "(store, msg, rule_intent list) io" where
  "unresolved_firewall_rule_intents = query (\<lambda>s.
     take 100 (filter (\<lambda>r. ri_status r \<in> {Prepared, RecoveryRequired} \<or> (ri_status r = Completed \<and> ri_expires r \<le> st_now s))
       (st_intents s)))"

definition recoverable_firewall_rule_intents :: "(store, msg, rule_intent list) io" where
  "recoverable_firewall_rule_intents = query (\<lambda>s.
     take 100 (filter (\<lambda>r. ri_status r = Prepared \<or> (ri_status r = Completed \<and> ri_expires r \<le> st_now s)) (st_intents s)))"

definition active_completed_firewall_rule_intents :: "(store, msg, rule_intent list) io" where
  "active_completed_firewall_rule_intents = query (\<lambda>s.
     take 100 (filter (\<lambda>r. ri_status r = Completed \<and> ri_expires r > st_now s) (st_intents s)))"

definition record_firewall_rule_drift :: "rule_intent \<Rightarrow> string \<Rightarrow> (store, msg, unit) io" where
  "record_firewall_rule_drift r observed = execute (audit ''executor'' ''firewall_rule_drift_detected'' (ri_id r))"

definition active_firewall_rule_generation_for :: "string \<Rightarrow> string \<Rightarrow> (store, msg, uuid option) io" where
  "active_firewall_rule_generation_for adapter fingerprint = query (\<lambda>s.
     map_option ri_id (List.find (\<lambda>r. ri_adapter r = adapter \<and> ri_fingerprint r = fingerprint \<and> active (ri_status r))
       (st_intents s)))"

section \<open>The invariant\<close>

text \<open>The rows and receipts of a consistent journal: identifiers are used once, a rule has one active
  generation, and the receipts of a generation agree with its status.\<close>

definition intent_receipts :: "receipt_row list \<Rightarrow> uuid \<Rightarrow> string \<Rightarrow> receipt_row list" where
  "intent_receipts qs i k = filter (\<lambda>q. rr_intent q = Some i \<and> rr_kind q = k) qs"

definition row_ok :: "receipt_row list \<Rightarrow> rule_intent \<Rightarrow> bool" where
  "row_ok qs r =
     (60 \<le> ri_ttl r \<and> ri_ttl r \<le> 86400 \<and>
      length (intent_receipts qs (ri_id r) ''apply'') = (if ri_status r \<in> {Prepared, NotApplied} then 0
        else if ri_status r = Completed then 1 else length (intent_receipts qs (ri_id r) ''apply'')) \<and>
      length (intent_receipts qs (ri_id r) ''apply'') \<le> 1 \<and>
      length (intent_receipts qs (ri_id r) ''rollback'') = (if ri_status r = RolledBack then 1 else 0))"

definition journal_ok :: "rule_intent list \<Rightarrow> receipt_row list \<Rightarrow> uuid \<Rightarrow> bool" where
  "journal_ok rs qs n \<longleftrightarrow>
     distinct (map ri_id rs) \<and> (\<forall>r \<in> set rs. ri_id r < n \<and> row_ok qs r) \<and>
     (\<forall>a \<in> set rs. \<forall>b \<in> set rs. active (ri_status a) \<and> active (ri_status b) \<and> same_rule a b \<longrightarrow> a = b) \<and>
     (\<forall>q \<in> set qs. \<forall>i. rr_intent q = Some i \<longrightarrow>
        i < n \<and> \<not> rr_dry_run q \<and> rr_verification q = Some ''verified'' \<and> rr_kind q \<in> {''apply'', ''rollback''})"

definition update_row :: "uuid \<Rightarrow> generation_status \<Rightarrow> rule_intent list \<Rightarrow> rule_intent list" where
  "update_row i new rs = map (\<lambda>r. if ri_id r = i then r\<lparr>ri_status := new\<rparr> else r) rs"

lemma map_id_update [simp]: "map ri_id (update_row i new rs) = map ri_id rs"
  by (simp add: update_row_def comp_def if_distrib cong: if_cong)

lemma intent_receipts_none:
  "\<forall>q \<in> set qs. \<forall>i. rr_intent q = Some i \<longrightarrow> i < n \<Longrightarrow> intent_receipts qs n k = []"
  by (auto simp: intent_receipts_def filter_empty_conv)

lemma journal_ok_prepare:
  assumes "journal_ok rs qs n" "ri_id r = n" "ri_status r = Prepared" "60 \<le> ri_ttl r" "ri_ttl r \<le> 86400"
    and "\<forall>q \<in> set rs. \<not> (same_rule q r \<and> active (ri_status q))"
  shows "journal_ok (rs @ [r]) qs (n + 1)"
proof -
  have "intent_receipts qs n k = []" for k using assms(1) by (intro intent_receipts_none) (auto simp: journal_ok_def)
  then have "row_ok qs r" using assms(2-5) by (simp add: row_ok_def)
  moreover have "n \<notin> set (map ri_id rs)" using assms(1) by (auto simp: journal_ok_def)
  moreover have "same_rule a b = same_rule b a" for a b by (auto simp: same_rule_def)
  ultimately show ?thesis using assms
    unfolding journal_ok_def by (auto simp: less_Suc_eq)
qed

lemma update_row_cases:
  assumes "x \<in> set (update_row i new rs)"
  obtains r where "r \<in> set rs" "ri_id r = i" "x = r\<lparr>ri_status := new\<rparr>"
  | "x \<in> set rs" "ri_id x \<noteq> i"
  using assms by (auto simp: update_row_def split: if_splits)

lemma journal_ok_update:
  assumes ok: "journal_ok rs qs n" and g: "g \<in> set rs" "active (ri_status g)"
    and row: "row_ok (qs @ add) (g\<lparr>ri_status := new\<rparr>)"
    and add: "\<forall>q \<in> set add. rr_intent q = Some (ri_id g) \<and> \<not> rr_dry_run q \<and> rr_verification q = Some ''verified'' \<and>
      rr_kind q \<in> {''apply'', ''rollback''}"
    and n: "n \<le> m"
  shows "journal_ok (update_row (ri_id g) new rs) (qs @ add) m"
proof -
  have uniq: "r = g" if "r \<in> set rs" "ri_id r = ri_id g" for r
    using ok that g(1) unfolding journal_ok_def by (auto simp: distinct_map inj_on_def)
  have old: "row_ok (qs @ add) r" if "r \<in> set rs" "ri_id r \<noteq> ri_id g" for r
  proof -
    have "intent_receipts (qs @ add) (ri_id r) k = intent_receipts qs (ri_id r) k" for k
      using add that(2) by (auto simp: intent_receipts_def filter_empty_conv)
    then show ?thesis using ok that(1) by (auto simp: journal_ok_def row_ok_def)
  qed
  have rows: "ri_id x < m \<and> row_ok (qs @ add) x" if "x \<in> set (update_row (ri_id g) new rs)" for x
    using that
  proof (cases rule: update_row_cases)
    case (1 r)
    then have "r = g" using uniq by blast
    then show ?thesis using 1 row ok g(1) n by (auto simp: journal_ok_def)
  next
    case 2
    then show ?thesis using old ok n by (auto simp: journal_ok_def)
  qed
  have pair: "a = b" if ab: "a \<in> set (update_row (ri_id g) new rs)" "b \<in> set (update_row (ri_id g) new rs)"
    "active (ri_status a)" "active (ri_status b)" "same_rule a b" for a b
  proof -
    have orig: "\<exists>a'. a' \<in> set rs \<and> ri_id a' = ri_id a \<and> active (ri_status a') \<and>
        (\<forall>z. same_rule a' z = same_rule a z) \<and> (\<forall>z. same_rule z a' = same_rule z a)"
      if "a \<in> set (update_row (ri_id g) new rs)" "active (ri_status a)" for a
      using that(1)
    proof (cases rule: update_row_cases)
      case (1 r)
      then have "r = g" using uniq by blast
      then show ?thesis using 1 g by (intro exI [of _ g]) (simp add: same_rule_def)
    next
      case 2
      then show ?thesis using that(2) by blast
    qed
    obtain a' b' where a': "a' \<in> set rs" "ri_id a' = ri_id a" "active (ri_status a')" "same_rule a' b"
      and b': "b' \<in> set rs" "ri_id b' = ri_id b" "active (ri_status b')" "same_rule a' b'"
      using orig [OF ab(1,3)] orig [OF ab(2,4)] ab(5) by blast
    then have "a' = b'" using ok unfolding journal_ok_def by blast
    then have "ri_id a = ri_id b" using a' b' by simp
    moreover have "distinct (map ri_id (update_row (ri_id g) new rs))" using ok by (simp add: journal_ok_def)
    hence "inj_on ri_id (set (update_row (ri_id g) new rs))" by (simp only: distinct_map)
    ultimately show ?thesis using ab(1,2) by (meson inj_onD)
  qed
  have recs: "i < m \<and> \<not> rr_dry_run q \<and> rr_verification q = Some ''verified'' \<and> rr_kind q \<in> {''apply'', ''rollback''}"
    if "q \<in> set (qs @ add)" "rr_intent q = Some i" for q i
    using that add ok g(1) n unfolding journal_ok_def by fastforce
  show ?thesis
    unfolding journal_ok_def using rows pair recs ok by (simp add: journal_ok_def)
qed

section \<open>What a guard does\<close>

text \<open>The change a guard \<open>g\<close> makes to the journal: none, or its own row's status along an allowed transition,
  with receipts of its own; its lock is gone in both cases.\<close>

definition guard_change :: "rule_intent \<Rightarrow> store \<Rightarrow> store \<Rightarrow> bool" where
  "guard_change g s s' \<longleftrightarrow>
     st_locked s' = removeAll (ri_id g) (st_locked s) \<and> st_next s \<le> st_next s' \<and>
     (st_intents s' = st_intents s \<and> st_receipts s' = st_receipts s \<or>
      (\<exists>new add. st_intents s' = update_row (ri_id g) new (st_intents s) \<and> st_receipts s' = st_receipts s @ add \<and>
         generation_transition (ri_status g) new \<and> row_ok (st_receipts s @ add) (g\<lparr>ri_status := new\<rparr>) \<and>
         (\<forall>q \<in> set add. rr_intent q = Some (ri_id g) \<and> \<not> rr_dry_run q \<and> rr_verification q = Some ''verified'' \<and>
            rr_kind q \<in> {''apply'', ''rollback''})))"

lemma release_simps [simp]:
  "st_intents (release i s) = st_intents s" "st_receipts (release i s) = st_receipts s"
  "st_next (release i s) = st_next s" "st_locked (release i s) = removeAll i (st_locked s)"
  by (simp_all add: release_def)

lemma audit_simps [simp]:
  "st_intents (audit a b c s) = st_intents s" "st_receipts (audit a b c s) = st_receipts s"
  "st_next (audit a b c s) = st_next s" "st_locked (audit a b c s) = st_locked s"
  by (simp_all add: audit_def)

lemma guard_abort_change: "guard_change g s (guard_abort g s)"
  by (simp add: guard_change_def guard_abort_def)

lemma guard_commit_change:
  assumes "guard_commit g body s = (r, s')"
    and "\<And>u x v. \<lbrakk>st_intents u = st_intents s; st_receipts u = st_receipts s; st_next u = st_next s;
      st_locked u = st_locked s; body u = Inr (x, v)\<rbrakk> \<Longrightarrow> guard_change g s (release (ri_id g) v)"
  shows "guard_change g s s'"
proof -
  obtain r1 s1 where t: "transaction body s = (r1, s1)" by (rule prod.exhaust)
  then have s': "s' = release (ri_id g) s1" using assms(1) by (simp add: guard_commit_def)
  from t show ?thesis
  proof (rule transaction_cases)
    fix u e assume "u = snd (next_outcome s)" "s1 = u"
    then show ?thesis using s' by (simp add: guard_change_def)
  next
    fix u x assume "u = snd (next_outcome s)" "body u = Inr (x, s1)"
    then show ?thesis using s' assms(2) [of u x s1] by simp
  qed
qed

lemma set_status_Inr:
  assumes "set_status i new s = Inr v"
  shows "st_intents v = update_row i new (st_intents s) \<and> st_receipts v = st_receipts s \<and> st_next v = st_next s \<and>
    st_locked v = st_locked s \<and> (\<forall>r \<in> set (st_intents s). ri_id r = i \<longrightarrow> generation_transition (ri_status r) new)"
  using assms by (auto simp: set_status_def update_row_def list_all_iff split: if_splits)

lemma insert_receipt_Inr:
  assumes "insert_receipt q s = Inr v"
  shows "st_intents v = st_intents s \<and> st_receipts v = st_receipts s @ [q] \<and> st_next v = st_next s \<and>
    st_locked v = st_locked s \<and> (\<forall>i. rr_intent q = Some i \<longrightarrow> intent_receipts (st_receipts s) i (rr_kind q) = [])"
  using assms by (auto simp: insert_receipt_def intent_receipts_def filter_empty_conv list_ex_iff split: if_splits)

lemma intent_receipts_snoc:
  "intent_receipts (qs @ [q]) i k = intent_receipts qs i k @ (if rr_intent q = Some i \<and> rr_kind q = k then [q] else [])"
  by (simp add: intent_receipts_def)

lemma generation_receipt_simps [simp]:
  "rr_intent (generation_receipt g rid now kind c obs v) = Some (ri_id g)"
  "rr_kind (generation_receipt g rid now kind c obs v) = kind"
  "rr_verification (generation_receipt g rid now kind c obs v) = v"
  "\<not> rr_dry_run (generation_receipt g rid now kind c obs v)"
  by (simp_all add: generation_receipt_def)

lemma receipt_then_status:
  assumes q: "insert_receipt q (u\<lparr>st_next := st_next u + 1\<rparr>) = Inr s1" "set_status (ri_id g) new s1 = Inr s2"
    and u: "st_intents u = st_intents s" "st_receipts u = st_receipts s" "st_next u = st_next s" "st_locked u = st_locked s"
    and "generation_transition (ri_status g) new" "row_ok (st_receipts s @ [q]) (g\<lparr>ri_status := new\<rparr>)"
    and "rr_intent q = Some (ri_id g)" "rr_kind q \<in> {''apply'', ''rollback''}" "\<not> rr_dry_run q" "rr_verification q = Some ''verified''"
  shows "guard_change g s (release (ri_id g) (audit a b c s2))"
  unfolding guard_change_def using insert_receipt_Inr [OF q(1)] set_status_Inr [OF q(2)] u assms(7-)
  by (intro conjI disjI2 exI [of _ new] exI [of _ "[q]"]) simp_all

lemma guard_finish_change:
  assumes "guard_finish g input s = (r, s')" "row_ok (st_receipts s) g"
  shows "guard_change g s s'"
proof (cases "finish_mismatched g input")
  case True
  then show ?thesis using assms(1) guard_abort_change by (auto simp: guard_finish_def)
next
  case False
  then have i: "ri_status g = Prepared" "in_verification input = Some ''verified''"
    by (auto simp: finish_mismatched_def)
  have c: "guard_commit g (guard_finish_body g input) s = (r, s')" using assms(1) False by (simp add: guard_finish_def)
  show ?thesis
  proof (rule guard_commit_change [OF c])
    fix u x v
    assume u: "st_intents u = st_intents s" "st_receipts u = st_receipts s" "st_next u = st_next s" "st_locked u = st_locked s"
      and "guard_finish_body g input u = Inr (x, v)"
    then obtain q s1 s2 where q: "insert_receipt q (u\<lparr>st_next := st_next u + 1\<rparr>) = Inr s1"
      "set_status (ri_id g) Completed s1 = Inr s2" "v = audit ''executor'' ''firewall_rule_intent_completed'' (ri_id g) s2"
      "rr_intent q = Some (ri_id g)" "rr_kind q = ''apply''" "\<not> rr_dry_run q" "rr_verification q = Some ''verified''"
      using i by (auto simp: guard_finish_body_def fresh_def and_then_Inr_iff)
    moreover have "row_ok (st_receipts s @ [q]) (g\<lparr>ri_status := Completed\<rparr>)"
      using assms(2) i q by (auto simp: row_ok_def intent_receipts_snoc)
    ultimately show "guard_change g s (release (ri_id g) v)"
      using receipt_then_status [OF q(1,2) u] i by (simp add: generation_transition_def)
  qed
qed

lemma guard_transition_body_Inr:
  assumes "guard_transition_body g st u = Inr (x, v)"
  obtains s2 where "set_status (ri_id g) st u = Inr s2" "v = audit ''executor'' (''firewall_rule_intent_'' @ status_name st) (ri_id g) s2"
  using assms by (auto simp: guard_transition_body_def and_then_Inr_iff)

lemma guard_rollback_change:
  assumes "guard_resolve_rollback g s = (r, s')" "row_ok (st_receipts s) g" "g \<in> set (st_intents s)" "active (ri_status g)"
  shows "guard_change g s s'"
proof -
  have c: "guard_commit g (guard_rollback_body g) s = (r, s')" using assms(1) by (simp add: guard_resolve_rollback_def)
  show ?thesis
  proof (rule guard_commit_change [OF c])
    fix u x v
    assume u: "st_intents u = st_intents s" "st_receipts u = st_receipts s" "st_next u = st_next s" "st_locked u = st_locked s"
      and "guard_rollback_body g u = Inr (x, v)"
    then obtain q s1 where q: "insert_receipt q (u\<lparr>st_next := st_next u + 1\<rparr>) = Inr s1"
      "guard_transition_body g RolledBack s1 = Inr (x, v)"
      "rr_intent q = Some (ri_id g)" "rr_kind q = ''rollback''" "\<not> rr_dry_run q" "rr_verification q = Some ''verified''"
      by (auto simp: guard_rollback_body_def fresh_def and_then_Inr_iff)
    then obtain s2 where s2: "set_status (ri_id g) RolledBack s1 = Inr s2"
      "v = audit ''executor'' (''firewall_rule_intent_'' @ status_name RolledBack) (ri_id g) s2"
      using guard_transition_body_Inr by blast
    have "row_ok (st_receipts s @ [q]) (g\<lparr>ri_status := RolledBack\<rparr>)"
      using assms(2,4) q by (auto simp: row_ok_def intent_receipts_snoc active_def)
    moreover have "generation_transition (ri_status g) RolledBack"
      using assms(4) by (auto simp: generation_transition_def active_def)
    ultimately show "guard_change g s (release (ri_id g) v)"
      using receipt_then_status [OF q(1) s2(1) u] q s2 by simp
  qed
qed

lemma guard_transition_change:
  assumes "guard_transition g st s = (r, s')" "row_ok (st_receipts s) g" "g \<in> set (st_intents s)" "active (ri_status g)"
    and "st = RecoveryRequired \<or> st = NotApplied"
  shows "guard_change g s s'"
proof -
  have c: "guard_commit g (guard_transition_body g st) s = (r, s')" using assms(1) by (simp add: guard_transition_def)
  show ?thesis
  proof (rule guard_commit_change [OF c])
    fix u x v
    assume u: "st_intents u = st_intents s" "st_receipts u = st_receipts s" "st_next u = st_next s" "st_locked u = st_locked s"
      and "guard_transition_body g st u = Inr (x, v)"
    then obtain s2 where s2: "set_status (ri_id g) st u = Inr s2"
      "v = audit ''executor'' (''firewall_rule_intent_'' @ status_name st) (ri_id g) s2"
      using guard_transition_body_Inr by blast
    have tr: "generation_transition (ri_status g) st" using set_status_Inr [OF s2(1)] u(1) assms(3) by simp
    then have "row_ok (st_receipts s @ []) (g\<lparr>ri_status := st\<rparr>)"
      using assms(2,4,5) by (auto simp: row_ok_def generation_transition_def active_def)
    then show "guard_change g s (release (ri_id g) v)"
      unfolding guard_change_def using set_status_Inr [OF s2(1)] u s2(2) tr
      by (intro conjI disjI2 exI [of _ st] exI [of _ "[]"]) simp_all
  qed
qed

lemma guard_not_applied_change:
  assumes "guard_not_applied g s = (r, s')" "row_ok (st_receipts s) g" "g \<in> set (st_intents s)" "active (ri_status g)"
  shows "guard_change g s s'"
  using assms guard_abort_change guard_transition_change [of g NotApplied]
  by (auto simp: guard_not_applied_def split: if_splits)

text \<open>A guarded change keeps the journal consistent.\<close>

lemma guard_change_journal_ok:
  assumes "guard_change g s s'" "journal_ok (st_intents s) (st_receipts s) (st_next s)"
    and "g \<in> set (st_intents s)" "active (ri_status g)"
  shows "journal_ok (st_intents s') (st_receipts s') (st_next s')"
proof -
  have mono: "journal_ok rs qs n \<Longrightarrow> n \<le> m \<Longrightarrow> journal_ok rs qs m" for rs qs n m
    unfolding journal_ok_def by (meson order_less_le_trans)
  show ?thesis using assms(1) unfolding guard_change_def
    using mono [OF assms(2)] journal_ok_update [OF assms(2-4)] by (elim conjE disjE exE) auto
qed

section \<open>Workers\<close>

text \<open>The journal shared by several executor replicas: the database, and the guard each worker holds.  The
  environment changes everything else: time, the other tables, the outcomes of later transactions; a worker
  that dies loses its guard.\<close>

record journal_system =
  js_store :: store
  js_held :: "nat \<Rightarrow> rule_intent option"

inductive journal_step :: "journal_system \<Rightarrow> journal_system \<Rightarrow> bool" where
  prepare: "prepare_firewall_rule_intent json_len ex a n sc fp t pf pl ttl (js_store S) = (r, s') \<Longrightarrow>
     journal_step S (S\<lparr>js_store := s'\<rparr>)"
| acquire: "js_held S w = None \<Longrightarrow> acquire_firewall_rule_guard i (js_store S) = (Inr (Some g), s') \<Longrightarrow>
     journal_step S (S\<lparr>js_store := s', js_held := (js_held S)(w := Some g)\<rparr>)"
| acquire_nothing: "acquire_firewall_rule_guard i (js_store S) = (r, s') \<Longrightarrow> \<forall>g. r \<noteq> Inr (Some g) \<Longrightarrow>
     journal_step S (S\<lparr>js_store := s'\<rparr>)"
| finish: "js_held S w = Some g \<Longrightarrow> guard_finish g input (js_store S) = (r, s') \<Longrightarrow>
     journal_step S (S\<lparr>js_store := s', js_held := (js_held S)(w := None)\<rparr>)"
| recovery_required: "js_held S w = Some g \<Longrightarrow> guard_recovery_required g (js_store S) = (r, s') \<Longrightarrow>
     journal_step S (S\<lparr>js_store := s', js_held := (js_held S)(w := None)\<rparr>)"
| not_applied: "js_held S w = Some g \<Longrightarrow> guard_not_applied g (js_store S) = (r, s') \<Longrightarrow>
     journal_step S (S\<lparr>js_store := s', js_held := (js_held S)(w := None)\<rparr>)"
| rolled_back: "js_held S w = Some g \<Longrightarrow> guard_resolve_rollback g (js_store S) = (r, s') \<Longrightarrow>
     journal_step S (S\<lparr>js_store := s', js_held := (js_held S)(w := None)\<rparr>)"
| abandon: "js_held S w = Some g \<Longrightarrow>
     journal_step S (S\<lparr>js_store := guard_abort g (js_store S), js_held := (js_held S)(w := None)\<rparr>)"
| environment: "st_intents s' = st_intents (js_store S) \<Longrightarrow> st_locked s' = st_locked (js_store S) \<Longrightarrow>
     st_next (js_store S) \<le> st_next s' \<Longrightarrow> st_receipts s' = st_receipts (js_store S) @ qs \<Longrightarrow>
     \<forall>q \<in> set qs. rr_intent q = None \<Longrightarrow> journal_step S (S\<lparr>js_store := s'\<rparr>)"

definition journal_inv :: "journal_system \<Rightarrow> bool" where
  "journal_inv S \<longleftrightarrow>
     journal_ok (st_intents (js_store S)) (st_receipts (js_store S)) (st_next (js_store S)) \<and>
     (\<forall>w g. js_held S w = Some g \<longrightarrow> g \<in> set (st_intents (js_store S)) \<and> active (ri_status g) \<and>
        ri_id g \<in> set (st_locked (js_store S))) \<and>
     (\<forall>v w g h. js_held S v = Some g \<and> js_held S w = Some h \<and> ri_id g = ri_id h \<longrightarrow> v = w)"

lemma guard_step_inv:
  assumes "journal_inv S" "js_held S w = Some g" "guard_change g (js_store S) s'"
  shows "journal_inv (S\<lparr>js_store := s', js_held := (js_held S)(w := None)\<rparr>)"
proof -
  let ?s = "js_store S"
  have g: "g \<in> set (st_intents ?s)" "active (ri_status g)" and ok: "journal_ok (st_intents ?s) (st_receipts ?s) (st_next ?s)"
    using assms(1,2) by (auto simp: journal_inv_def)
  have others: "h \<in> set (st_intents s') \<and> ri_id h \<in> set (st_locked s')"
    if "js_held S v = Some h" "v \<noteq> w" for v h
  proof -
    have "ri_id h \<noteq> ri_id g" "h \<in> set (st_intents ?s)" "ri_id h \<in> set (st_locked ?s)"
      using assms(1,2) that unfolding journal_inv_def by blast+
    then show ?thesis using assms(3) by (auto simp: guard_change_def update_row_def image_iff)
  qed
  then show ?thesis
    using guard_change_journal_ok [OF assms(3) ok g] assms(1)
    unfolding journal_inv_def by (auto split: if_splits)
qed

lemma sint_ttl:
  assumes "60 \<le> ttl" "ttl \<le> (86400 :: 32 word)"
  shows "60 \<le> sint ttl" "sint ttl \<le> 86400"
proof -
  have b: "60 \<le> uint ttl" "uint ttl \<le> 86400" using assms by (simp_all add: word_le_def)
  have "sint ttl = uint ttl"
    using b by (simp add: sint_uint signed_take_bit_int_eq_self)
  then show "60 \<le> sint ttl" "sint ttl \<le> 86400" using b by simp_all
qed

lemma prepare_body_eq:
  "prepare_body ex a n sc fp t pf pl ttl u =
     (if list_ex (\<lambda>q. same_rule q \<lparr> ri_id = st_next u, ri_execution = ex, ri_adapter = a, ri_action_name = n,
                ri_scope = sc, ri_fingerprint = fp, ri_target_json = t,
                ri_preflight = pf, ri_plan = pl, ri_ttl = sint ttl, ri_expires = st_now u + sint ttl,
                ri_status = Prepared \<rparr> \<and> active (ri_status q)) (st_intents u)
      then Inl [Lit ''firewall rule already owned by an active generation or invalid snapshot'']
      else Inr (st_next u, audit ''executor'' ''firewall_rule_intent_prepared'' (st_next u)
        (u\<lparr>st_next := st_next u + 1, st_intents := st_intents u @ [\<lparr> ri_id = st_next u, ri_execution = ex,
                ri_adapter = a, ri_action_name = n,
                ri_scope = sc, ri_fingerprint = fp, ri_target_json = t,
                ri_preflight = pf, ri_plan = pl, ri_ttl = sint ttl, ri_expires = st_now u + sint ttl,
                ri_status = Prepared \<rparr>]\<rparr>)))"
  by (simp add: prepare_body_def fresh_def Let_def)

lemma prepare_cases:
  assumes "prepare_firewall_rule_intent json_len ex a n sc fp t pf pl ttl s = (r, s')"
  obtains (unchanged) "st_intents s' = st_intents s" "st_receipts s' = st_receipts s" "st_next s' = st_next s"
      "st_locked s' = st_locked s" "\<nexists>i. r = Inr i"
  | (prepared) p where "st_intents s' = st_intents s @ [p]" "st_receipts s' = st_receipts s" "st_next s' = st_next s + 1"
      "st_locked s' = st_locked s" "ri_id p = st_next s" "ri_status p = Prepared" "60 \<le> ri_ttl p" "ri_ttl p \<le> 86400"
      "\<forall>q \<in> set (st_intents s). \<not> (same_rule q p \<and> active (ri_status q))" "r = Inr (st_next s) \<or> r = Inl db_error"
      "p = \<lparr> ri_id = st_next s, ri_execution = ex, ri_adapter = a, ri_action_name = n,
                ri_scope = sc, ri_fingerprint = fp, ri_target_json = t,
                ri_preflight = pf, ri_plan = pl, ri_ttl = sint ttl, ri_expires = st_now s + sint ttl,
                ri_status = Prepared \<rparr>"
proof (cases "\<not> (a = ''nftables'' \<or> a = ''haproxy'' \<or> a = ''haproxy_ratelimit'')
         \<or> \<not> bounded fp \<or> \<not> bounded sc \<or> \<not> is_object t \<or> \<not> is_object pf \<or> \<not> is_object pl
         \<or> \<not> (60 \<le> ttl \<and> ttl \<le> 86400) \<or> list_ex (\<lambda>v. json_len v > 65536) [t, pf, pl]")
  case True
  then have "(r, s') = (Inl [Lit ''invalid bounded firewall rule intent metadata''], s)"
    using assms unfolding prepare_firewall_rule_intent_def by (simp only: if_True io_fail_def)
  then show ?thesis using unchanged by simp
next
  case False
  then have ttl: "60 \<le> ttl" "ttl \<le> 86400" by blast+
  have "transaction (prepare_body ex a n sc fp t pf pl ttl) s = (r, s')"
    using assms False unfolding prepare_firewall_rule_intent_def by (simp only: if_False)
  then show ?thesis
  proof (elim transaction_cases)
    fix u e assume "u = snd (next_outcome s)" "s' = u" "r = Inl e"
    then show ?thesis using unchanged by simp
  next
    fix u x assume u: "u = snd (next_outcome s)" "prepare_body ex a n sc fp t pf pl ttl u = Inr (x, s')" "r = Inr x \<or> r = Inl db_error"
    define p where "p = \<lparr> ri_id = st_next s, ri_execution = ex, ri_adapter = a, ri_action_name = n,
                ri_scope = sc, ri_fingerprint = fp, ri_target_json = t,
                ri_preflight = pf, ri_plan = pl, ri_ttl = sint ttl, ri_expires = st_now s + sint ttl,
                ri_status = Prepared \<rparr>"
    have f: "st_next u = st_next s" "st_now u = st_now s" "st_intents u = st_intents s" "st_receipts u = st_receipts s"
      "st_locked u = st_locked s" using u(1) by simp_all
    have body: "(if list_ex (\<lambda>q. same_rule q p \<and> active (ri_status q)) (st_intents s)
      then Inl [Lit ''firewall rule already owned by an active generation or invalid snapshot'']
      else Inr (st_next s, audit ''executor'' ''firewall_rule_intent_prepared'' (st_next s)
        (u\<lparr>st_next := st_next s + 1, st_intents := st_intents s @ [p]\<rparr>))) = Inr (x, s')"
      using u(2) unfolding prepare_body_eq by (simp only: f p_def [symmetric])
    show ?thesis
    proof (rule prepared [of p])
      show "r = Inr (st_next s) \<or> r = Inl db_error" using body u(3) by (auto split: if_splits)
    qed (use body sint_ttl [OF ttl] f in \<open>auto simp: p_def list_ex_iff split: if_splits\<close>)
  qed
qed

lemma acquire_cases:
  assumes "acquire_firewall_rule_guard i s = (r, s')"
  obtains (granted) g where "r = Inr (Some g)" "find_intent s i = Some g" "active (ri_status g)" "i \<notin> set (st_locked s)"
      "st_intents s' = st_intents s" "st_receipts s' = st_receipts s" "st_next s' = st_next s" "st_locked s' = i # st_locked s"
  | (refused) "\<forall>g. r \<noteq> Inr (Some g)"
      "st_intents s' = st_intents s" "st_receipts s' = st_receipts s" "st_next s' = st_next s" "st_locked s' = st_locked s"
proof -
  obtain oc u where u: "next_outcome s = (oc, u)" by (rule prod.exhaust)
  have us: "st_intents u = st_intents s" "st_receipts u = st_receipts s" "st_next u = st_next s" "st_locked u = st_locked s"
    using u next_outcome_simps [of s] by simp_all
  show ?thesis
  proof (cases "oc = Db_Ok \<and> (\<exists>g. find_intent u i = Some g \<and> active (ri_status g) \<and> i \<notin> set (st_locked u))")
    case True
    then obtain g where "find_intent u i = Some g" "active (ri_status g)" "i \<notin> set (st_locked u)" "oc = Db_Ok" by blast
    then show ?thesis using assms us
      by (intro granted [of g]) (auto simp: acquire_firewall_rule_guard_def u find_intent_def)
  next
    case False
    have "s' = u \<and> (\<forall>g. r \<noteq> Inr (Some g))"
    proof (cases "oc = Db_Ok")
      case True
      then show ?thesis using False assms
        by (cases "find_intent u i") (auto simp: acquire_firewall_rule_guard_def u split: if_split_asm)
    qed (use assms in \<open>auto simp: acquire_firewall_rule_guard_def u\<close>)
    then show ?thesis using us by (intro refused) simp_all
  qed
qed

lemma find_intent_Some: "find_intent s i = Some g \<Longrightarrow> g \<in> set (st_intents s) \<and> ri_id g = i"
  by (auto simp: find_intent_def find_Some_iff)

lemma journal_step_inv:
  assumes "journal_step S T" "journal_inv S"
  shows "journal_inv T"
  using assms
proof (induction rule: journal_step.induct)
  case (prepare json_len ex a n sc fp t pf pl ttl S r s')
  from prepare.hyps show ?case
  proof (cases rule: prepare_cases)
    case unchanged
    then show ?thesis using prepare.prems by (simp add: journal_inv_def)
  next
    case (prepared p)
    then show ?thesis using prepare.prems journal_ok_prepare [of "st_intents (js_store S)" _ _ p]
      by (simp add: journal_inv_def)
  qed
next
  case (acquire S w i g s')
  from acquire.hyps(2) show ?case
  proof (cases rule: acquire_cases)
    case (granted h)
    then have "g = h" by simp
    then have "ri_id g = i" "g \<in> set (st_intents (js_store S))" using granted(2) find_intent_Some by blast+
    moreover have "ri_id f \<noteq> i" if "js_held S v = Some f" for v f
      using granted(4) acquire.prems that unfolding journal_inv_def by metis
    ultimately show ?thesis using granted acquire.prems \<open>g = h\<close> by (auto simp: journal_inv_def)
  qed simp
next
  case (acquire_nothing i S r s')
  from acquire_nothing.hyps(1) show ?case
    by (cases rule: acquire_cases) (use acquire_nothing in \<open>simp_all add: journal_inv_def\<close>)
next
  case (finish S w g input r s')
  then show ?case using guard_finish_change by (intro guard_step_inv) (auto simp: journal_inv_def journal_ok_def)
next
  case (recovery_required S w g r s')
  then show ?case using guard_transition_change [of g RecoveryRequired]
    by (intro guard_step_inv) (auto simp: journal_inv_def journal_ok_def guard_recovery_required_def)
next
  case (not_applied S w g r s')
  then show ?case using guard_not_applied_change by (intro guard_step_inv) (auto simp: journal_inv_def journal_ok_def)
next
  case (rolled_back S w g r s')
  then show ?case using guard_rollback_change by (intro guard_step_inv) (auto simp: journal_inv_def journal_ok_def)
next
  case (abandon S w g)
  then show ?case using guard_abort_change by (intro guard_step_inv)
next
  case (environment s' S qs)
  have ext: "journal_ok rs as n \<Longrightarrow> n \<le> m \<Longrightarrow> journal_ok rs (as @ qs) m" for rs as n m
    using environment.hyps(5) unfolding journal_ok_def row_ok_def intent_receipts_def by fastforce
  show ?case using environment ext [of _ _ "st_next (js_store S)"] by (simp add: journal_inv_def)
qed

section \<open>Histories\<close>

definition journal_start :: "journal_system \<Rightarrow> bool" where
  "journal_start S \<longleftrightarrow> st_intents (js_store S) = [] \<and> st_locked (js_store S) = [] \<and>
     (\<forall>q \<in> set (st_receipts (js_store S)). rr_intent q = None) \<and> (\<forall>w. js_held S w = None)"

inductive journal_reachable :: "journal_system \<Rightarrow> bool" where
  start: "journal_start S \<Longrightarrow> journal_reachable S"
| step: "journal_reachable S \<Longrightarrow> journal_step S T \<Longrightarrow> journal_reachable T"

inductive journal_run :: "journal_system \<Rightarrow> journal_system \<Rightarrow> bool" where
  refl: "journal_run S S"
| step: "journal_run S T \<Longrightarrow> journal_step T U \<Longrightarrow> journal_run S U"

lemma journal_reachable_inv: "journal_reachable S \<Longrightarrow> journal_inv S"
proof (induction rule: journal_reachable.induct)
  case (start S)
  then show ?case by (auto simp: journal_start_def journal_inv_def journal_ok_def)
next
  case (step S T)
  then show ?case using journal_step_inv by blast
qed

text \<open>What a step does to a row: nothing, or its status moves along an allowed transition.\<close>

definition row_evolves :: "rule_intent \<Rightarrow> rule_intent \<Rightarrow> bool" where
  "row_evolves r r' \<longleftrightarrow> r' = r\<lparr>ri_status := ri_status r'\<rparr> \<and> generation_transition (ri_status r) (ri_status r')"

lemma row_evolves_refl [simp]: "row_evolves r r"
  by (simp add: row_evolves_def generation_transition_def)

lemma row_evolves_trans: "row_evolves a b \<Longrightarrow> row_evolves b c \<Longrightarrow> row_evolves a c"
  unfolding row_evolves_def using generation_transition_trans by (cases a; cases b; cases c) auto

lemma guard_change_rows:
  assumes "guard_change g s s'" "g \<in> set (st_intents s)" "distinct (map ri_id (st_intents s))" "r \<in> set (st_intents s)"
  shows "\<exists>r' \<in> set (st_intents s'). row_evolves r r'"
proof (cases "ri_id r = ri_id g")
  case True
  then have "r = g" using assms(2-4) by (auto simp: distinct_map inj_on_def)
  from assms(1) consider "st_intents s' = st_intents s"
    | new where "st_intents s' = update_row (ri_id g) new (st_intents s)" "generation_transition (ri_status g) new"
    unfolding guard_change_def by blast
  then show ?thesis
  proof cases
    case 1
    then show ?thesis using assms(4) by (intro bexI [of _ r]) simp_all
  next
    case (2 new)
    then show ?thesis using \<open>r = g\<close> assms(2)
      by (intro bexI [of _ "g\<lparr>ri_status := new\<rparr>"]) (auto simp: row_evolves_def update_row_def intro!: image_eqI [of _ _ g])
  qed
next
  case False
  then have "r \<in> set (st_intents s')" using assms(1,4) by (auto simp: guard_change_def update_row_def image_iff)
  then show ?thesis by (rule bexI [rotated]) simp
qed

lemma journal_step_rows:
  assumes "journal_step S T" "journal_inv S" "r \<in> set (st_intents (js_store S))"
  shows "\<exists>r' \<in> set (st_intents (js_store T)). row_evolves r r'"
proof -
  have same: "\<exists>r' \<in> set rs. row_evolves r r'" if "r \<in> set rs" for rs using that by (rule bexI [rotated]) simp
  have guarded: "\<exists>r' \<in> set (st_intents s'). row_evolves r r'"
    if "js_held S w = Some g" "guard_change g (js_store S) s'" for w g s'
    using that assms(2,3) by (intro guard_change_rows [of g]) (auto simp: journal_inv_def journal_ok_def)
  have row: "row_ok (st_receipts (js_store S)) g" "g \<in> set (st_intents (js_store S))" "active (ri_status g)"
    if "js_held S w = Some g" for w g using that assms(2) by (auto simp: journal_inv_def journal_ok_def)
  from assms(1) show ?thesis
  proof (cases rule: journal_step.cases)
    case (prepare json_len ex a n sc fp t pf pl ttl r s')
    from prepare(2) show ?thesis by (cases rule: prepare_cases) (use prepare same assms(3) in auto)
  next
    case (acquire w i g s')
    from acquire(3) show ?thesis by (cases rule: acquire_cases) (use acquire same assms(3) in auto)
  next
    case (acquire_nothing i r s')
    from acquire_nothing(2) show ?thesis by (cases rule: acquire_cases) (use acquire_nothing same assms(3) in auto)
  next
    case (finish w g input r s')
    then show ?thesis using guarded [OF finish(2) guard_finish_change [OF finish(3) row(1) [OF finish(2)]]] by simp
  next
    case (recovery_required w g r s')
    then show ?thesis
      using guarded [OF recovery_required(2) guard_transition_change [of g RecoveryRequired, OF _ row [OF recovery_required(2)]]]
      by (simp add: guard_recovery_required_def)
  next
    case (not_applied w g r s')
    then show ?thesis using guarded [OF not_applied(2) guard_not_applied_change [OF not_applied(3) row [OF not_applied(2)]]] by simp
  next
    case (rolled_back w g r s')
    then show ?thesis using guarded [OF rolled_back(2) guard_rollback_change [OF rolled_back(3) row [OF rolled_back(2)]]] by simp
  next
    case (abandon w g)
    then show ?thesis using guarded [OF abandon(2) guard_abort_change] by simp
  next
    case (environment s' qs)
    then show ?thesis using same assms(3) by simp
  qed
qed

lemma journal_run_rows:
  assumes "journal_run S T" "journal_inv S" "r \<in> set (st_intents (js_store S))"
  shows "journal_inv T \<and> (\<exists>r' \<in> set (st_intents (js_store T)). row_evolves r r')"
  using assms
proof (induction rule: journal_run.induct)
  case (refl S)
  then show ?case using row_evolves_refl by blast
next
  case (step S T U)
  then obtain t where t: "journal_inv T" "t \<in> set (st_intents (js_store T))" "row_evolves r t" by blast
  then obtain u where "u \<in> set (st_intents (js_store U))" "row_evolves t u"
    using journal_step_rows [OF step.hyps(2)] by blast
  then show ?case using t row_evolves_trans journal_step_inv [OF step.hyps(2)] by blast
qed

lemma journal_reachable_run: "journal_run S T \<Longrightarrow> journal_reachable S \<Longrightarrow> journal_reachable T"
  by (induction rule: journal_run.induct) (auto intro: journal_reachable.step)

lemma find_intent_row:
  assumes "distinct (map ri_id (st_intents s))" "r \<in> set (st_intents s)"
  shows "find_intent s (ri_id r) = Some r"
proof -
  obtain k where "k < length (st_intents s)" "st_intents s ! k = r" using assms(2) by (auto simp: in_set_conv_nth)
  moreover have "ri_id (st_intents s ! j) \<noteq> ri_id r" if "j < k" for j
    using nth_eq_iff_index_eq [OF assms(1), of j k] that calculation by simp
  ultimately show ?thesis unfolding find_intent_def find_Some_iff by blast
qed

section \<open>Properties\<close>

text \<open>C32 Whatever the workers of the journal do, in any interleaving and with any failed or lost commit: a rule
  (adapter, scope and target) is owned by at most one active generation, a completed generation has exactly
  one apply receipt, a prepared or unapplied one has none, exactly the rolled back generations have a
  rollback receipt, which is unique, and every receipt of a generation is live and verified.\<close>

theorem journal_consistent:
  assumes "journal_reachable S" "a \<in> set (st_intents (js_store S))"
  shows "(\<forall>b \<in> set (st_intents (js_store S)).
      ri_id a = ri_id b \<or> (same_rule a b \<and> active (ri_status a) \<and> active (ri_status b)) \<longrightarrow> a = b) \<and>
    length (intent_receipts (st_receipts (js_store S)) (ri_id a) ''apply'') \<le> 1 \<and>
    (ri_status a = Completed \<longrightarrow> length (intent_receipts (st_receipts (js_store S)) (ri_id a) ''apply'') = 1) \<and>
    (ri_status a \<in> {Prepared, NotApplied} \<longrightarrow> intent_receipts (st_receipts (js_store S)) (ri_id a) ''apply'' = []) \<and>
    length (intent_receipts (st_receipts (js_store S)) (ri_id a) ''rollback'') = (if ri_status a = RolledBack then 1 else 0) \<and>
    (\<forall>q \<in> set (st_receipts (js_store S)). rr_intent q = Some (ri_id a) \<longrightarrow>
      \<not> rr_dry_run q \<and> rr_verification q = Some ''verified'')"
proof -
  let ?s = "js_store S"
  have ok: "journal_ok (st_intents ?s) (st_receipts ?s) (st_next ?s)"
    using journal_reachable_inv [OF assms(1)] by (simp add: journal_inv_def)
  then have "row_ok (st_receipts ?s) a" using assms(2) by (simp add: journal_ok_def)
  moreover have "\<forall>b \<in> set (st_intents ?s). ri_id a = ri_id b \<longrightarrow> a = b"
    using ok assms(2) by (auto simp: journal_ok_def distinct_map inj_on_def)
  moreover have "\<forall>b \<in> set (st_intents ?s). same_rule a b \<and> active (ri_status a) \<and> active (ri_status b) \<longrightarrow> a = b"
    using ok assms(2) unfolding journal_ok_def by blast
  moreover have "\<forall>q \<in> set (st_receipts ?s). rr_intent q = Some (ri_id a) \<longrightarrow>
      \<not> rr_dry_run q \<and> rr_verification q = Some ''verified''"
    using ok unfolding journal_ok_def by blast
  ultimately show ?thesis by (auto simp: row_ok_def)
qed

text \<open>C33 The lock fences the workers: the snapshot in a guard is the row as the table has it for as long as the
  guard is held, it is unresolved, and no two workers hold guards of the same rule at once.\<close>

theorem journal_guard_exclusive:
  assumes "journal_reachable S" "js_held S v = Some g"
  shows "find_intent (js_store S) (ri_id g) = Some g \<and> active (ri_status g) \<and>
    (\<forall>w h. js_held S w = Some h \<and> same_rule g h \<longrightarrow> v = w)"
proof -
  have inv: "journal_inv S" using assms(1) by (rule journal_reachable_inv)
  then have "find_intent (js_store S) (ri_id g) = Some g" "active (ri_status g)"
    using assms(2) find_intent_row [of "js_store S" g] by (auto simp: journal_inv_def journal_ok_def)
  moreover have "v = w" if "js_held S w = Some h" "same_rule g h" for w h
  proof -
    have "g = h" using inv assms(2) that unfolding journal_inv_def journal_ok_def by blast
    then show ?thesis using inv assms(2) that unfolding journal_inv_def by blast
  qed
  ultimately show ?thesis by blast
qed

text \<open>A generation is never lost or rewritten: after any further run of the workers its row still exists with
  the same snapshot, only the status has moved, along the transitions of the schema; a resolved generation
  stays as it is, and so is never applied again.\<close>

theorem journal_history:
  assumes "journal_reachable S" "journal_run S T" "find_intent (js_store S) i = Some r"
  shows "\<exists>st. find_intent (js_store T) i = Some (r\<lparr>ri_status := st\<rparr>) \<and>
    generation_transition (ri_status r) st \<and> (active (ri_status r) \<or> st = ri_status r)"
proof -
  have r: "r \<in> set (st_intents (js_store S))" "ri_id r = i" using find_intent_Some [OF assms(3)] by simp_all
  obtain r' where r': "journal_inv T" "r' \<in> set (st_intents (js_store T))" "row_evolves r r'"
    using journal_run_rows [OF assms(2) journal_reachable_inv [OF assms(1)] r(1)] by blast
  then have e: "r' = r\<lparr>ri_status := ri_status r'\<rparr>" "generation_transition (ri_status r) (ri_status r')"
    by (simp_all add: row_evolves_def)
  then have "ri_id r' = i" using r(2) by (metis rule_intent.select_convs(1) rule_intent.surjective rule_intent.update_convs(12))
  then have "find_intent (js_store T) i = Some (r\<lparr>ri_status := ri_status r'\<rparr>)"
    using r' e(1) find_intent_row [of "js_store T" r'] by (simp add: journal_inv_def journal_ok_def)
  moreover have "active (ri_status r) \<or> ri_status r' = ri_status r"
    using e by (cases "ri_status r") (auto simp: generation_transition_def active_def)
  ultimately show ?thesis using e(2) by blast
qed

lemma resolve_rollback_succeeds:
  assumes inv: "journal_inv S" and s: "js_store S = s" and r: "find_intent s i = Some r" "active (ri_status r)"
    and free: "i \<notin> set (st_locked s)" "st_outcomes s = []"
  obtains s' where "resolve_firewall_rule_rollback i s = (Inr (), s')" "st_outcomes s' = []"
    "st_intents s' = update_row i RolledBack (st_intents s)" "st_next s' = st_next s + 1" "st_now s' = st_now s"
proof -
  let ?s1 = "s\<lparr>st_locked := i # st_locked s\<rparr>"
  have row: "r \<in> set (st_intents s)" "ri_id r = i" using find_intent_Some [OF r(1)] by simp_all
  have ok: "journal_ok (st_intents s) (st_receipts s) (st_next s)" using inv s by (simp add: journal_inv_def)
  have acq: "acquire_firewall_rule_guard i s = (Inr (Some r), ?s1)"
    using r free by (simp add: acquire_firewall_rule_guard_def next_outcome_def)
  define q where "q = generation_receipt r (st_next s) (st_now s) ''rollback'' (ri_plan r)
        (Some (JObj [(''restored_or_removed'', JBool True)])) (Some ''verified'')"
  have none: "\<not> list_ex (\<lambda>p. rr_intent p = Some i \<and> rr_kind p = ''rollback'') (st_receipts s)"
    using ok row r(2) by (auto simp: journal_ok_def row_ok_def intent_receipts_def filter_empty_conv list_ex_iff active_def)
  have uniq: "\<forall>x \<in> set (st_intents s). ri_id x = i \<longrightarrow> generation_transition (ri_status x) RolledBack"
    using ok row r(2) by (auto simp: journal_ok_def distinct_map inj_on_def generation_transition_def active_def)
  have body: "guard_rollback_body r ?s1 = Inr ((), audit ''executor'' (''firewall_rule_intent_'' @ status_name RolledBack) i
     (?s1\<lparr>st_next := st_next s + 1, st_receipts := st_receipts s @ [q],
        st_intents := update_row i RolledBack (st_intents s)\<rparr>))"
    using none uniq row(2)
    by (simp add: guard_rollback_body_def guard_transition_body_def fresh_def insert_receipt_def set_status_def
        list_all_iff update_row_def q_def)
  have "resolve_firewall_rule_rollback i s = guard_resolve_rollback r ?s1"
    by (simp add: resolve_firewall_rule_rollback_def with_guard_def io_bind_def acq)
  also have "\<dots> = (Inr (), release i (audit ''executor'' (''firewall_rule_intent_'' @ status_name RolledBack) i
     (?s1\<lparr>st_next := st_next s + 1, st_receipts := st_receipts s @ [q],
        st_intents := update_row i RolledBack (st_intents s)\<rparr>)))"
    using body free row(2) by (simp add: guard_resolve_rollback_def guard_commit_def transaction_def next_outcome_def)
  finally show ?thesis by (rule that) (simp_all add: release_def audit_def free)
qed

text \<open>Ownership is released by a rollback and by nothing less.  As long as a generation is unresolved, no other
  generation of its rule can be prepared; and an unresolved generation that no worker holds can be rolled
  back, after which the rule can be prepared again: no rule stays blocked.\<close>

theorem journal_ownership:
  assumes S: "journal_reachable S" and s: "js_store S = s" "st_outcomes s = []"
    and r: "find_intent s i = Some r" "active (ri_status r)" "i \<notin> set (st_locked s)"
    and m: "ri_adapter r \<in> {''nftables'', ''haproxy'', ''haproxy_ratelimit''}" "bounded (ri_scope r)" "bounded (ri_fingerprint r)"
      "is_object t" "is_object pf" "is_object pl" "\<forall>v \<in> {t, pf, pl}. json_len v \<le> 65536" "60 \<le> ttl" "ttl \<le> 86400"
  shows "fst (prepare_firewall_rule_intent json_len ex (ri_adapter r) n (ri_scope r) (ri_fingerprint r) t pf pl ttl s)
      = Inl [Lit ''firewall rule already owned by an active generation or invalid snapshot''] \<and>
    (\<exists>s'. resolve_firewall_rule_rollback i s = (Inr (), s') \<and>
      fst (prepare_firewall_rule_intent json_len ex (ri_adapter r) n (ri_scope r) (ri_fingerprint r) t pf pl ttl s')
        = Inr (st_next s'))"
proof -
  have inv: "journal_inv S" using S by (rule journal_reachable_inv)
  have row: "r \<in> set (st_intents s)" "ri_id r = i" using find_intent_Some [OF r(1)] by simp_all
  have prep: "prepare_firewall_rule_intent json_len ex (ri_adapter r) n (ri_scope r) (ri_fingerprint r) t pf pl ttl =
      transaction (prepare_body ex (ri_adapter r) n (ri_scope r) (ri_fingerprint r) t pf pl ttl)"
    using m unfolding prepare_firewall_rule_intent_def by auto
  have tr: "fst (transaction body u) = (case body u of Inl e \<Rightarrow> Inl e | Inr y \<Rightarrow> Inr (fst y))"
    if "st_outcomes u = []" for u and body :: "store \<Rightarrow> msg + uuid \<times> store"
    using that by (simp add: transaction_def next_outcome_def split: sum.split prod.split)
  have "list_ex (\<lambda>q. ri_adapter q = ri_adapter r \<and> ri_scope q = ri_scope r \<and> ri_fingerprint q = ri_fingerprint r \<and>
      active (ri_status q)) (st_intents s)" using row r(2) by (auto simp: list_ex_iff)
  then have refused: "prepare_body ex (ri_adapter r) n (ri_scope r) (ri_fingerprint r) t pf pl ttl s =
      Inl [Lit ''firewall rule already owned by an active generation or invalid snapshot'']"
    by (simp add: prepare_body_eq same_rule_def)
  obtain s' where s': "resolve_firewall_rule_rollback i s = (Inr (), s')" "st_outcomes s' = []"
    "st_intents s' = update_row i RolledBack (st_intents s)"
    using resolve_rollback_succeeds [OF inv s(1) r s(2)] by blast
  have "\<not> list_ex (\<lambda>q. ri_adapter q = ri_adapter r \<and> ri_scope q = ri_scope r \<and> ri_fingerprint q = ri_fingerprint r \<and>
      active (ri_status q)) (st_intents s')"
  proof -
    have "\<not> (same_rule q r \<and> active (ri_status q))" if "q \<in> set (st_intents s')" for q
      using that unfolding s'(3)
    proof (cases rule: update_row_cases)
      case (1 p)
      then show ?thesis by (simp add: active_def)
    next
      case 2
      then have "q \<noteq> r" using row by blast
      then show ?thesis using 2 inv s(1) row r(2) unfolding journal_inv_def journal_ok_def by blast
    qed
    then show ?thesis by (auto simp: list_ex_iff same_rule_def)
  qed
  then have "\<exists>y. prepare_body ex (ri_adapter r) n (ri_scope r) (ri_fingerprint r) t pf pl ttl s' = Inr (st_next s', y)"
    by (simp add: prepare_body_eq same_rule_def)
  then show ?thesis using refused s'(1) prep tr [OF s(2)] tr [OF s'(2)] by auto
qed

section \<open>Witnesses\<close>

definition example_store :: store where
  "example_store = \<lparr> st_now = 1000, st_next = 0, st_intents = [], st_quarantines = [], st_receipts = [], st_inflight = [],
     st_kill_switches = [], st_leases = [], st_executions = [], st_actions = [], st_policies = [], st_approvals = [],
     st_profile = None, st_users = [], st_resolutions = [], st_ip_listing = [], st_asn_listing = [],
     st_audit = [], st_locked = [], st_outcomes = [] \<rparr>"

definition example_rule :: rule_intent where
  "example_rule = \<lparr> ri_id = 0, ri_execution = 7, ri_adapter = ''nftables'', ri_action_name = ''block_ip'',
     ri_scope = ''blocklist'', ri_fingerprint = ''203.0.113.7'', ri_target_json = JObj [], ri_preflight = JObj [],
     ri_plan = JObj [], ri_ttl = 300, ri_expires = 1300, ri_status = Prepared \<rparr>"

definition example_prepared :: store where
  "example_prepared = example_store\<lparr>st_next := 1, st_intents := [example_rule],
     st_audit := [(''executor'', ''firewall_rule_intent_prepared'', 0)]\<rparr>"

definition example_journal :: journal_system where
  "example_journal = \<lparr> js_store = example_prepared, js_held = (\<lambda>_. None) \<rparr>"

definition example_guarded :: journal_system where
  "example_guarded = \<lparr> js_store = example_prepared\<lparr>st_locked := [0]\<rparr>, js_held = (\<lambda>_. None)(1 := Some example_rule) \<rparr>"

lemma bounded_examples: "bounded ''blocklist''" "bounded ''203.0.113.7''"
  by code_simp+

lemma example_prepare:
  "prepare_firewall_rule_intent (\<lambda>_. 2) 7 ''nftables'' ''block_ip'' ''blocklist'' ''203.0.113.7'' (JObj []) (JObj [])
     (JObj []) 300 example_store = (Inr 0, example_prepared)"
  by (simp add: prepare_firewall_rule_intent_def bounded_examples is_object_def transaction_def next_outcome_def
      prepare_body_eq example_store_def example_prepared_def example_rule_def audit_def)

lemma example_reachable: "journal_reachable example_journal" "journal_reachable example_guarded"
proof -
  let ?S = "\<lparr> js_store = example_store, js_held = (\<lambda>_. None) \<rparr>"
  have "journal_reachable ?S" by (rule journal_reachable.start) (simp add: journal_start_def example_store_def)
  moreover have "journal_step ?S (?S\<lparr>js_store := example_prepared\<rparr>)"
    using example_prepare by (intro journal_step.prepare) simp
  ultimately have "journal_reachable (?S\<lparr>js_store := example_prepared\<rparr>)" by (rule journal_reachable.step)
  then show j: "journal_reachable example_journal" by (simp add: example_journal_def)
  have "journal_step example_journal (example_journal\<lparr>js_store := example_prepared\<lparr>st_locked := [0]\<rparr>,
      js_held := (js_held example_journal)(1 := Some example_rule)\<rparr>)"
    by (rule journal_step.acquire [where i = 0])
      (simp_all add: example_journal_def acquire_firewall_rule_guard_def next_outcome_def example_prepared_def
        example_store_def find_intent_def example_rule_def active_def)
  then show "journal_reachable example_guarded"
    using j journal_reachable.step by (simp add: example_journal_def example_guarded_def)
qed

lemma journal_consistent_witness:
  "length (intent_receipts (st_receipts (js_store example_journal)) 0 ''apply'') \<le> 1"
  using journal_consistent [OF example_reachable(1), of example_rule]
  by (simp add: example_journal_def example_prepared_def example_rule_def)

lemma journal_guard_exclusive_witness:
  "find_intent (js_store example_guarded) (ri_id example_rule) = Some example_rule"
  using journal_guard_exclusive [OF example_reachable(2), of 1 example_rule] by (simp add: example_guarded_def)

lemma journal_history_witness:
  "\<exists>st. find_intent (js_store example_guarded) 0 = Some (example_rule\<lparr>ri_status := st\<rparr>)"
proof -
  have "find_intent (js_store example_guarded) 0 = Some example_rule"
    by (simp add: find_intent_def example_guarded_def example_prepared_def example_rule_def)
  then show ?thesis using journal_history [OF example_reachable(2) journal_run.refl, of 0 example_rule] by blast
qed

lemma journal_ownership_witness:
  "\<exists>s'. resolve_firewall_rule_rollback 0 example_prepared = (Inr (), s')"
  using journal_ownership [OF example_reachable(1), of example_prepared 0 example_rule "JObj []" "JObj []" "JObj []"
      "\<lambda>_. 2" 300 7 "''block_ip''"]
  by (auto simp: example_journal_def example_prepared_def example_store_def find_intent_def example_rule_def active_def
      bounded_examples is_object_def)

section \<open>The journal as an ownership\<close>

definition rule_key :: "rule_intent \<Rightarrow> string \<times> string \<times> string" where
  "rule_key r = (ri_adapter r, ri_scope r, ri_fingerprint r)"

definition rule_owners :: "rule_intent list \<Rightarrow> (string \<times> string \<times> string) owners" where
  "rule_owners = row_owners rule_key ri_id ri_status"

lemma same_rule_key: "same_rule a b \<longleftrightarrow> rule_key a = rule_key b"
  by (auto simp: same_rule_def rule_key_def)

lemma journal_rows_ok: "journal_ok rs qs n \<Longrightarrow> rows_ok rule_key ri_id ri_status rs"
  by (simp add: journal_ok_def rows_ok_def same_rule_key)

lemma guard_change_simulation:
  assumes "guard_change g s s'" "journal_ok (st_intents s) (st_receipts s) (st_next s)"
    and "g \<in> set (st_intents s)" "active (ri_status g)"
  shows "ownership_step (rule_owners (st_intents s)) (rule_owners (st_intents s'))"
proof -
  from assms(1) consider "st_intents s' = st_intents s"
    | new where "st_intents s' = update_row (ri_id g) new (st_intents s)" "generation_transition (ri_status g) new"
    unfolding guard_change_def by blast
  then show ?thesis
  proof cases
    case 1
    then show ?thesis by (simp add: ownership_step.idle)
  next
    case (2 new)
    have "update_row (ri_id g) new (st_intents s) = update_rows ri_id (ri_id g) (\<lambda>r. r\<lparr>ri_status := new\<rparr>) (st_intents s)"
      by (simp add: update_row_def update_rows_def)
    then show ?thesis
      using update_rows_step [OF journal_rows_ok [OF assms(2)] assms(3,4) 2(2), of "\<lambda>r. r\<lparr>ri_status := new\<rparr>"]
      by (simp add: rule_owners_def 2(1) rule_key_def)
  qed
qed

lemma journal_step_simulation:
  assumes "journal_step S T" "journal_inv S"
  shows "ownership_step (rule_owners (st_intents (js_store S))) (rule_owners (st_intents (js_store T)))"
proof -
  have ok: "journal_ok (st_intents (js_store S)) (st_receipts (js_store S)) (st_next (js_store S))"
    using assms(2) by (simp add: journal_inv_def)
  have row: "row_ok (st_receipts (js_store S)) g" "g \<in> set (st_intents (js_store S))" "active (ri_status g)"
    if "js_held S w = Some g" for w g using that assms(2) by (auto simp: journal_inv_def journal_ok_def)
  note guarded = guard_change_simulation [OF _ ok]
  from assms(1) show ?thesis
  proof (cases rule: journal_step.cases)
    case (prepare json_len ex a n sc fp t pf pl ttl r s')
    from prepare(2) show ?thesis
    proof (cases rule: prepare_cases)
      case unchanged
      then show ?thesis by (simp add: prepare(1) ownership_step.idle)
    next
      case (prepared p)
      then have "\<forall>q \<in> set (st_intents (js_store S)). \<not> (rule_key q = rule_key p \<and> active (ri_status q))"
        by (simp add: same_rule_key)
      from snoc_row_step [where st = ri_status, OF this] show ?thesis
        using prepared by (simp add: prepare(1) rule_owners_def)
    qed
  next
    case (acquire w i g s')
    from acquire(3) show ?thesis by (cases rule: acquire_cases) (simp_all add: acquire(1) ownership_step.idle)
  next
    case (acquire_nothing i r s')
    from acquire_nothing(2) show ?thesis by (cases rule: acquire_cases) (simp_all add: acquire_nothing(1) ownership_step.idle)
  next
    case (finish w g input r s')
    note h = row [OF finish(2)]
    show ?thesis using guarded [OF guard_finish_change [OF finish(3) h(1)] h(2,3)] by (simp add: finish(1))
  next
    case (recovery_required w g r s')
    note h = row [OF recovery_required(2)]
    have "guard_change g (js_store S) s'"
      using guard_transition_change [of g RecoveryRequired, OF _ h] recovery_required(3) by (simp add: guard_recovery_required_def)
    then show ?thesis using guarded [OF _ h(2,3)] by (simp add: recovery_required(1))
  next
    case (not_applied w g r s')
    note h = row [OF not_applied(2)]
    show ?thesis using guarded [OF guard_not_applied_change [OF not_applied(3) h] h(2,3)] by (simp add: not_applied(1))
  next
    case (rolled_back w g r s')
    note h = row [OF rolled_back(2)]
    show ?thesis using guarded [OF guard_rollback_change [OF rolled_back(3) h] h(2,3)] by (simp add: rolled_back(1))
  next
    case (abandon w g)
    note h = row [OF abandon(2)]
    show ?thesis using guarded [OF guard_abort_change h(2,3)] by (simp add: abandon(1))
  next
    case (environment s' qs)
    then show ?thesis by (simp add: ownership_step.idle)
  qed
qed

interpretation rule_journal: ownership_journal journal_step journal_inv "\<lambda>S. rule_owners (st_intents (js_store S))"
  by unfold_locales (rule journal_step_inv journal_step_simulation; assumption)+

text \<open>C34 The journal implements the ownership of rules: every run of the workers, on rows, receipts and locks and
  with failing commits, is a run of the abstract machine, in which a rule has at most one owner that is
  claimed when the rule is free, moves along the transitions and is released by a resolution; so whoever owns
  a rule still does, unless the rule has been free in between.\<close>

theorem journal_refines_ownership:
  assumes "journal_reachable S" "journal_step\<^sup>*\<^sup>* S T"
  shows "ownership_step\<^sup>*\<^sup>* (rule_owners (st_intents (js_store S))) (rule_owners (st_intents (js_store T))) \<and>
    (\<forall>k i st. rule_owners (st_intents (js_store S)) k = Some (i, st) \<longrightarrow>
      (\<exists>U. journal_step\<^sup>*\<^sup>* S U \<and> journal_step\<^sup>*\<^sup>* U T \<and> rule_owners (st_intents (js_store U)) k = None) \<or>
      (\<exists>st'. rule_owners (st_intents (js_store T)) k = Some (i, st') \<and> generation_transition st st'))"
  using rule_journal.refines [OF assms(2)] rule_journal.owner_kept [OF assms(2)] journal_reachable_inv [OF assms(1)] by blast

lemma journal_refines_ownership_witness:
  "ownership_step\<^sup>*\<^sup>* (rule_owners (st_intents (js_store example_journal))) (rule_owners (st_intents (js_store example_guarded)))"
proof -
  have "journal_step example_journal (example_journal\<lparr>js_store := example_prepared\<lparr>st_locked := [0]\<rparr>,
      js_held := (js_held example_journal)(1 := Some example_rule)\<rparr>)"
    by (rule journal_step.acquire [where i = 0])
      (simp_all add: example_journal_def acquire_firewall_rule_guard_def next_outcome_def example_prepared_def
        example_store_def find_intent_def example_rule_def active_def)
  then have "journal_step\<^sup>*\<^sup>* example_journal example_guarded"
    by (simp add: example_journal_def example_guarded_def)
  then show ?thesis using journal_refines_ownership [OF example_reachable(1)] by blast
qed

end
