(* ===== verification/Ip_Addr.thy ===== *)
theory Ip_Addr
  imports Prelude
begin

text \<open>
  \<^verbatim>\<open>std::net::IpAddr\<close>: addresses as 32-bit and 128-bit words, the standard library's parser
  (\<^verbatim>\<open>IpAddr::from_str\<close>) and printer (\<^verbatim>\<open>Display\<close>).  The last lemma of the theory is the round trip:
  every address is read back from its printed form.
\<close>

datatype ip_addr = V4 "32 word" | V6 "128 word"

fun is_ipv4 :: "ip_addr \<Rightarrow> bool" where
  "is_ipv4 (V4 _) = True"
| "is_ipv4 (V6 _) = False"

section \<open>Groups of an address\<close>

fun of_digits :: "nat \<Rightarrow> nat \<Rightarrow> nat list \<Rightarrow> nat" where
  "of_digits b acc [] = acc"
| "of_digits b acc (d # ds) = of_digits b (acc * b + d) ds"

text \<open>The \<^term>\<open>k\<close> base-\<^term>\<open>b\<close> digits of a number, the most significant first.\<close>

fun to_digits :: "nat \<Rightarrow> nat \<Rightarrow> nat \<Rightarrow> nat list" where
  "to_digits b 0 n = []"
| "to_digits b (Suc k) n = to_digits b k (n div b) @ [n mod b]"

definition v4_octets :: "32 word \<Rightarrow> nat list" where
  "v4_octets w = to_digits 256 4 (unat w)"

definition v4_of_octets :: "nat list \<Rightarrow> 32 word" where
  "v4_of_octets ds = of_nat (of_digits 256 0 ds)"

definition v6_segments :: "128 word \<Rightarrow> nat list" where
  "v6_segments w = to_digits 65536 8 (unat w)"

definition v6_of_segments :: "nat list \<Rightarrow> 128 word" where
  "v6_of_segments ds = of_nat (of_digits 65536 0 ds)"

definition to_ipv4_mapped :: "128 word \<Rightarrow> 32 word option" where
  "to_ipv4_mapped w = (if drop_bit 32 w = 0xffff then Some (ucast w) else None)"

section \<open>Printing\<close>

definition show_v4 :: "32 word \<Rightarrow> string" where
  "show_v4 w = join_with ''.'' (map show_nat (v4_octets w))"

text \<open>The first longest run of zero segments: its start and length.\<close>

fun zero_span :: "nat \<Rightarrow> nat \<times> nat \<Rightarrow> nat \<times> nat \<Rightarrow> nat list \<Rightarrow> nat \<times> nat" where
  "zero_span i longest current [] = longest"
| "zero_span i longest current (g # gs) =
     (if g = 0 then
        let current' = (if snd current = 0 then (i, 1) else (fst current, snd current + 1));
            longest' = (if snd current' > snd longest then current' else longest)
        in zero_span (Suc i) longest' current' gs
      else zero_span (Suc i) longest (0, 0) gs)"

definition show_groups :: "nat list \<Rightarrow> string" where
  "show_groups gs = join_with '':'' (map show_hex gs)"

definition show_v6 :: "128 word \<Rightarrow> string" where
  "show_v6 w =
     (case to_ipv4_mapped w of
        Some v4 \<Rightarrow> ''::ffff:'' @ show_v4 v4
      | None \<Rightarrow>
          let gs = v6_segments w; (st, len) = zero_span 0 (0, 0) (0, 0) gs
          in if len > 1 then show_groups (take st gs) @ ''::'' @ show_groups (drop (st + len) gs)
             else show_groups gs)"

fun show_ip :: "ip_addr \<Rightarrow> string" where
  "show_ip (V4 w) = show_v4 w"
| "show_ip (V6 w) = show_v6 w"

section \<open>Parsing\<close>

fun read_char :: "char \<Rightarrow> string \<Rightarrow> string option" where
  "read_char c [] = None"
| "read_char c (d # ds) = (if d = c then Some ds else None)"

fun read_digits :: "nat \<Rightarrow> nat \<Rightarrow> nat \<Rightarrow> nat \<Rightarrow> nat \<Rightarrow> string \<Rightarrow> (nat \<times> nat \<times> string) option" where
  "read_digits b maxd lim acc cnt [] = Some (acc, cnt, [])"
| "read_digits b maxd lim acc cnt (c # cs) =
     (case to_digit b c of
        None \<Rightarrow> Some (acc, cnt, c # cs)
      | Some d \<Rightarrow>
          if acc * b > lim \<or> acc * b + d > lim \<or> cnt + 1 > maxd then None
          else read_digits b maxd lim (acc * b + d) (cnt + 1) cs)"

definition read_number :: "nat \<Rightarrow> nat \<Rightarrow> nat \<Rightarrow> bool \<Rightarrow> string \<Rightarrow> (nat \<times> string) option" where
  "read_number b maxd lim allow_zero_prefix s =
     (case read_digits b maxd lim 0 0 s of
        None \<Rightarrow> None
      | Some (v, cnt, r) \<Rightarrow>
          if cnt = 0 then None
          else if \<not> allow_zero_prefix \<and> hd s = CHR ''0'' \<and> cnt > 1 then None
          else Some (v, r))"

definition read_separator :: "char \<Rightarrow> nat \<Rightarrow> (string \<Rightarrow> ('a \<times> string) option) \<Rightarrow> string \<Rightarrow> ('a \<times> string) option" where
  "read_separator sep i inner s =
     (if i > 0 then case read_char sep s of None \<Rightarrow> None | Some r \<Rightarrow> inner r else inner s)"

fun read_octets :: "nat \<Rightarrow> nat \<Rightarrow> string \<Rightarrow> (nat list \<times> string) option" where
  "read_octets 0 i s = Some ([], s)"
| "read_octets (Suc k) i s =
     (case read_separator CHR ''.'' i (read_number 10 3 255 False) s of
        None \<Rightarrow> None
      | Some (d, r) \<Rightarrow>
          case read_octets k (Suc i) r of None \<Rightarrow> None | Some (ds, r') \<Rightarrow> Some (d # ds, r'))"

definition read_v4 :: "string \<Rightarrow> (32 word \<times> string) option" where
  "read_v4 s = map_option (\<lambda>(ds, r). (v4_of_octets ds, r)) (read_octets 4 0 s)"

text \<open>\<^verbatim>\<open>read_groups\<close>: up to \<^term>\<open>k\<close> further groups, an embedded IPv4 address counting as the last two.
  The flag says that the groups ended with an IPv4 address.\<close>

fun read_groups :: "nat \<Rightarrow> nat \<Rightarrow> string \<Rightarrow> nat list \<times> bool \<times> string" where
  "read_groups 0 i s = ([], False, s)"
| "read_groups (Suc k) i s =
     (case (if k \<ge> 1 then read_separator CHR '':'' i read_v4 s else None) of
        Some (w, r) \<Rightarrow> (to_digits 65536 2 (unat w), True, r)
      | None \<Rightarrow>
          (case read_separator CHR '':'' i (read_number 16 4 65535 True) s of
             Some (g, r) \<Rightarrow> (case read_groups k (Suc i) r of (gs, v4, r') \<Rightarrow> (g # gs, v4, r'))
           | None \<Rightarrow> ([], False, s)))"

definition read_v6 :: "string \<Rightarrow> (128 word \<times> string) option" where
  "read_v6 s =
     (case read_groups 8 0 s of (hd_gs, hd_v4, r) \<Rightarrow>
        if length hd_gs = 8 then Some (v6_of_segments hd_gs, r)
        else if hd_v4 then None
        else (case read_char CHR '':'' r of
                None \<Rightarrow> None
              | Some r1 \<Rightarrow>
                  (case read_char CHR '':'' r1 of
                     None \<Rightarrow> None
                   | Some r2 \<Rightarrow>
                       (case read_groups (8 - (length hd_gs + 1)) 0 r2 of (tl_gs, _, r3) \<Rightarrow>
                          Some (v6_of_segments
                                  (hd_gs @ replicate (8 - length hd_gs - length tl_gs) 0 @ tl_gs), r3)))))"

definition parse_ip :: "string \<Rightarrow> ip_addr option" where
  "parse_ip s =
     (case read_v4 s of
        Some (w, r) \<Rightarrow> if r = [] then Some (V4 w) else None
      | None \<Rightarrow>
          (case read_v6 s of
             Some (w, r) \<Rightarrow> if r = [] then Some (V6 w) else None
           | None \<Rightarrow> None))"

section \<open>Every address is read back from its printed form\<close>

lemma of_digits_append: "of_digits b acc (xs @ ys) = of_digits b (of_digits b acc xs) ys"
  by (induction xs arbitrary: acc) auto

lemma of_digits_to_digits: "0 < b \<Longrightarrow> n < b ^ k \<Longrightarrow> of_digits b 0 (to_digits b k n) = n"
proof (induction k arbitrary: n)
  case (Suc k)
  then have "n div b < b ^ k" by (simp add: less_mult_imp_div_less mult.commute)
  then show ?case using Suc by (simp add: of_digits_append)
qed simp

lemma length_to_digits [simp]: "length (to_digits b k n) = k"
  by (induction k arbitrary: n) auto

lemma to_digits_less: "0 < b \<Longrightarrow> d \<in> set (to_digits b k n) \<Longrightarrow> d < b"
  by (induction k arbitrary: n) auto

lemma v4_of_octets_inverse [simp]: "v4_of_octets (v4_octets w) = w"
proof -
  have "unat w < 2 ^ LENGTH(32)" by (rule unsigned_less)
  then show ?thesis by (simp add: v4_of_octets_def v4_octets_def of_digits_to_digits)
qed

lemma v6_of_segments_inverse [simp]: "v6_of_segments (v6_segments w) = w"
proof -
  have "unat w < 2 ^ LENGTH(128)" by (rule unsigned_less)
  then show ?thesis by (simp add: v6_of_segments_def v6_segments_def of_digits_to_digits)
qed

lemma read_digits_append:
  assumes "digits_val b acc ds = Some v" "v \<le> lim" "cnt + length ds \<le> maxd" "0 < b"
  shows "read_digits b maxd lim acc cnt (ds @ r) = read_digits b maxd lim v (cnt + length ds) r"
  using assms
proof (induction ds arbitrary: acc cnt)
  case (Cons c cs)
  then obtain d where d: "to_digit b c = Some d" and v: "digits_val b (b * acc + d) cs = Some v"
    by (auto split: option.splits)
  have "b * acc + d \<le> v" using digits_val_ge [OF v] Cons.prems by simp
  then show ?case using Cons.IH [OF v] Cons.prems d by (simp add: mult.commute)
qed simp

definition no_digit :: "nat \<Rightarrow> string \<Rightarrow> bool" where
  "no_digit b r = (r = [] \<or> to_digit b (hd r) = None)"

lemma read_digits_stop: "no_digit b r \<Longrightarrow> read_digits b maxd lim acc cnt r = Some (acc, cnt, r)"
  by (cases r) (auto simp: no_digit_def)

lemma read_number_show:
  assumes "2 \<le> b" "b \<le> 36" "n \<le> lim" "n < b ^ maxd" "0 < maxd" "no_digit b r"
  shows "read_number b maxd lim z (show_base b n @ r) = Some (n, r)"
proof -
  have len: "length (show_base b n) \<le> maxd" using assms length_show_base_le by auto
  have rd: "read_digits b maxd lim 0 0 (show_base b n @ r) = Some (n, length (show_base b n), r)"
    using read_digits_append [OF digits_val_show_base, of b n lim 0 maxd r] assms len
    by (simp add: read_digits_stop)
  have hd: "length (show_base b n) > 1 \<Longrightarrow> hd (show_base b n @ r) \<noteq> CHR ''0''"
  proof -
    assume "length (show_base b n) > 1"
    then have "0 < n" using show_base.simps [of b 0] by (cases n) (use assms in auto)
    then obtain d ds where d: "show_base b n = digit_chr d # ds" "0 < d" "d < b"
      using show_base_first assms by blast
    then have "ord_of (digit_chr d) \<noteq> 48" using assms by (auto simp: ord_of_digit_chr)
    then show ?thesis using d by (auto simp: ord_of_def)
  qed
  show ?thesis using rd hd by (auto simp: read_number_def)
qed

lemma no_digit_sep [simp]:
  "no_digit b []" "no_digit b (CHR ''.'' # r)" "no_digit b (CHR '':'' # r)"
  by (simp_all add: no_digit_def to_digit_def ord_of_def)

fun sep_join :: "char \<Rightarrow> nat \<Rightarrow> string list \<Rightarrow> string" where
  "sep_join c i [] = []"
| "sep_join c i (x # xs) = (if i > 0 then c # x else x) @ sep_join c (Suc i) xs"

lemma sep_join_Suc: "sep_join c (Suc i) xs = concat (map ((#) c) xs)"
  by (induction xs arbitrary: i) auto

lemma join_with_sep_join: "join_with [c] xs = sep_join c 0 xs"
proof -
  have "(@) [c] = (#) c" by (simp add: fun_eq_iff)
  then show ?thesis by (cases xs) (simp_all add: join_with_def sep_join_Suc)
qed

lemma read_octets_show:
  "\<lbrakk>\<forall>d \<in> set ds. d < 256; no_digit 10 r\<rbrakk> \<Longrightarrow>
   read_octets (length ds) i (sep_join CHR ''.'' i (map show_nat ds) @ r) = Some (ds, r)"
proof (induction ds arbitrary: i)
  case (Cons d ds)
  have nd: "no_digit 10 (sep_join CHR ''.'' (Suc i) (map show_nat ds) @ r)"
    using Cons.prems by (cases ds) auto
  have "read_number 10 3 255 False (show_nat d @ sep_join CHR ''.'' (Suc i) (map show_nat ds) @ r)
        = Some (d, sep_join CHR ''.'' (Suc i) (map show_nat ds) @ r)"
    using Cons.prems nd by (intro read_number_show [of 10, folded show_nat_def]) auto
  then show ?case using Cons by (cases i) (simp_all add: read_separator_def)
qed simp

lemma read_v4_show: "no_digit 10 r \<Longrightarrow> read_v4 (show_v4 w @ r) = Some (w, r)"
proof -
  assume r: "no_digit 10 r"
  have "\<forall>d \<in> set (v4_octets w). d < 256" using to_digits_less [of 256] by (auto simp: v4_octets_def)
  from read_octets_show [OF this r, of 0] show ?thesis
    by (simp add: read_v4_def show_v4_def join_with_sep_join v4_octets_def [of w, THEN arg_cong [where f = length]])
qed

lemma read_digits_suffix: "read_digits b m lim a c s = Some (v, c', r) \<Longrightarrow> set r \<subseteq> set s"
  by (induction s arbitrary: a c) (auto split: option.splits if_splits)

lemma read_number_suffix: "read_number b m lim z s = Some (v, r) \<Longrightarrow> set r \<subseteq> set s"
  by (auto simp: read_number_def split: option.splits if_splits dest!: read_digits_suffix)

lemma read_octets_dot: "read_octets (Suc (Suc k)) 0 s = Some (ds, r) \<Longrightarrow> CHR ''.'' \<in> set s"
proof (rule ccontr)
  assume nd: "CHR ''.'' \<notin> set s" and "read_octets (Suc (Suc k)) 0 s = Some (ds, r)"
  then obtain d r1 where "read_number 10 3 255 False s = Some (d, r1)" "read_octets (Suc k) 1 r1 \<noteq> None"
    by (auto simp: read_separator_def split: option.splits)
  then have "CHR ''.'' \<notin> set r1" "read_char CHR ''.'' r1 \<noteq> None"
    using nd read_number_suffix [of 10 3 255 False s d r1]
    by (auto simp: read_separator_def split: option.splits)
  then show False by (cases r1) auto
qed

lemma read_v4_dot: "CHR ''.'' \<notin> set s \<Longrightarrow> read_v4 s = None"
  using read_octets_dot [of 2 s] by (cases "read_octets 4 0 s") (auto simp: read_v4_def)

definition stops :: "string \<Rightarrow> bool" where
  "stops r = (r = [] \<or> (\<exists>t. r = CHR '':'' # CHR '':'' # t))"

lemma stops_no_digit: "stops r \<Longrightarrow> no_digit b r"
  by (auto simp: stops_def)

lemma read_number_none [simp]: "no_digit b r \<Longrightarrow> read_number b m lim z r = None"
  by (simp add: read_number_def read_digits_stop)

lemma stops_read_group: "stops r \<Longrightarrow> read_separator CHR '':'' i (read_number 16 4 65535 True) r = None"
  by (auto simp: stops_def read_separator_def)

lemma read_separator_v4_none:
  "CHR ''.'' \<notin> set r \<Longrightarrow> read_separator CHR '':'' i read_v4 r = None"
  by (cases r) (auto simp: read_separator_def read_v4_dot)

lemma dot_show_hex [simp]: "CHR ''.'' \<notin> set (show_hex g)"
proof
  assume "CHR ''.'' \<in> set (show_hex g)"
  then obtain d where "d < 16" "digit_chr d = CHR ''.''"
    using set_show_base [of 16 g] by (auto simp: show_hex_def)
  then have "ord_of (digit_chr d) = 46" by (simp add: ord_of_def)
  then show False using \<open>d < 16\<close> by (simp add: ord_of_digit_chr split: if_splits)
qed

lemma dot_sep_join [simp]: "CHR ''.'' \<notin> set (sep_join CHR '':'' i (map show_hex gs))"
  by (induction gs arbitrary: i) auto

lemma read_groups_show:
  "\<lbrakk>\<forall>g \<in> set gs. g < 65536; CHR ''.'' \<notin> set r; stops r; length gs \<le> k\<rbrakk> \<Longrightarrow>
   read_groups k i (sep_join CHR '':'' i (map show_hex gs) @ r) = (gs, False, r)"
proof (induction gs arbitrary: i k)
  case Nil
  then show ?case by (cases k) (simp_all add: read_separator_v4_none stops_read_group)
next
  case (Cons g gs)
  then obtain k' where k: "k = Suc k'" by (cases k) auto
  let ?rest = "sep_join CHR '':'' (Suc i) (map show_hex gs) @ r"
  have nd: "no_digit 16 ?rest"
    using Cons.prems by (cases gs) (auto simp: stops_no_digit)
  have num: "read_number 16 4 65535 True (show_hex g @ ?rest) = Some (g, ?rest)"
    using Cons.prems nd by (intro read_number_show [of 16, folded show_hex_def]) auto
  have v4: "read_separator CHR '':'' i read_v4 (sep_join CHR '':'' i (map show_hex (g # gs)) @ r) = None"
    using Cons.prems by (intro read_separator_v4_none) auto
  show ?case
    using Cons.IH [of k' "Suc i"] Cons.prems k num v4
    by (cases i) (simp_all add: read_separator_def)
qed

lemma zero_span_sound:
  assumes "zero_span (length xs) (s, l) (c, m) gs = (st, len)"
    and "s + l \<le> length xs" "\<forall>j < l. xs ! (s + j) = 0"
    and "0 < m \<longrightarrow> c + m = length xs" "\<forall>j < m. xs ! (c + j) = 0"
  shows "st + len \<le> length (xs @ gs) \<and> (\<forall>j < len. (xs @ gs) ! (st + j) = 0)"
  using assms
proof (induction gs arbitrary: xs s l c m)
  case (Cons g gs)
  have old: "\<forall>j < l. (xs @ [g]) ! (s + j) = 0" using Cons.prems by (auto simp: nth_append)
  show ?case
  proof (cases "g = 0")
    case False
    then show ?thesis using Cons.IH [of "xs @ [g]" s l 0 0] Cons.prems old by simp
  next
    case True
    define c' m' where "c' = (if m = 0 then length xs else c)" and "m' = Suc m"
    have cm: "c' + m' = length (xs @ [g])" using Cons.prems by (auto simp: c'_def m'_def)
    have cur: "\<forall>j < m'. (xs @ [g]) ! (c' + j) = 0"
      using Cons.prems True by (auto simp: c'_def m'_def nth_append less_Suc_eq)
    have z: "zero_span (length (xs @ [g])) (if m' > l then (c', m') else (s, l)) (c', m') gs = (st, len)"
      using Cons.prems True by (auto simp: c'_def m'_def Let_def split: if_splits)
    show ?thesis
      using Cons.IH [of "xs @ [g]" c' m' c' m'] Cons.IH [of "xs @ [g]" s l c' m'] z Cons.prems old cm cur
      by (auto split: if_splits)
  qed
qed simp

lemma read_v6_show: "to_ipv4_mapped w = None \<Longrightarrow> read_v6 (show_v6 w) = Some (w, [])"
proof -
  assume nm: "to_ipv4_mapped w = None"
  let ?gs = "v6_segments w"
  have lt: "\<forall>g \<in> set ?gs. g < 65536" using to_digits_less [of 65536] by (auto simp: v6_segments_def)
  have len8: "length ?gs = 8" by (simp add: v6_segments_def)
  have st0: "stops []" "\<And>t. stops (CHR '':'' # CHR '':'' # t)" by (simp_all add: stops_def)
  obtain st len where zs: "zero_span 0 (0, 0) (0, 0) ?gs = (st, len)" by fastforce
  have z: "st + len \<le> 8" "\<forall>j < len. ?gs ! (st + j) = 0"
    using zero_span_sound [of "[]" 0 0 0 0 ?gs st len] zs len8 by auto
  show ?thesis
  proof (cases "len > 1")
    case False
    then have s: "show_v6 w = sep_join CHR '':'' 0 (map show_hex ?gs)"
      using nm zs by (simp add: show_v6_def show_groups_def join_with_sep_join)
    show ?thesis
      using read_groups_show [of ?gs "[]" 8 0] lt len8 st0 by (simp add: s read_v6_def)
  next
    case True
    let ?h = "take st ?gs" and ?t = "drop (st + len) ?gs"
    let ?tail = "sep_join CHR '':'' 0 (map show_hex ?t)"
    have s: "show_v6 w = sep_join CHR '':'' 0 (map show_hex ?h) @ CHR '':'' # CHR '':'' # ?tail"
      using True nm zs by (simp add: show_v6_def show_groups_def join_with_sep_join Let_def)
    have hd: "read_groups 8 0 (show_v6 w) = (?h, False, CHR '':'' # CHR '':'' # ?tail)"
      unfolding s using lt len8 st0 by (intro read_groups_show) (auto dest: in_set_takeD)
    have tl: "read_groups (8 - (length ?h + 1)) 0 ?tail = (?t, False, [])"
    proof -
      have "\<forall>g \<in> set ?t. g < 65536" using lt by (auto dest: in_set_dropD)
      moreover have "length ?t \<le> 8 - (length ?h + 1)" using z len8 True by auto
      ultimately show ?thesis using read_groups_show [of ?t "[]" "8 - (length ?h + 1)" 0] st0 by simp
    qed
    have "?h @ replicate len 0 @ ?t = ?gs"
    proof (rule nth_equalityI)
      show "length (?h @ replicate len 0 @ ?t) = length ?gs" using z len8 by simp
      fix i assume "i < length (?h @ replicate len 0 @ ?t)"
      then show "(?h @ replicate len 0 @ ?t) ! i = ?gs ! i"
        using z len8 z(2)[rule_format, of "i - st"] by (auto simp: nth_append min_def)
    qed
    moreover have "8 - length ?h - length ?t = len" "length ?h < 8" using z len8 True by auto
    ultimately show ?thesis using hd tl
      by (simp add: read_v6_def)
  qed
qed

lemma mapped_value:
  assumes "to_ipv4_mapped w = Some v"
  shows "v6_of_segments (replicate 5 0 @ 65535 # to_digits 65536 2 (unat v)) = w"
proof -
  have d: "drop_bit 32 w = 0xffff" and v: "v = ucast w"
    using assms by (auto simp: to_ipv4_mapped_def split: if_splits)
  have "unat (drop_bit 32 w) = unat (0xffff :: 128 word)" by (simp only: d)
  then have q: "unat w div 2 ^ 32 = 65535" by (simp add: drop_bit_eq_div unat_div)
  have r: "unat v = unat w mod 2 ^ 32" by (simp add: v unsigned_ucast_eq take_bit_eq_mod)
  have "unat v div 65536 mod 65536 = unat v div 65536"
  proof -
    have "unat v < 2 ^ LENGTH(32)" by (rule unsigned_less)
    then show ?thesis by (simp add: less_mult_imp_div_less)
  qed
  moreover have "replicate 5 (0 :: nat) = [0, 0, 0, 0, 0]" by (simp add: numeral_eq_Suc)
  moreover have "to_digits b (Suc (Suc 0)) n = [n div b mod b, n mod b]" for b n by simp
  ultimately have "of_digits 65536 0 (replicate 5 0 @ 65535 # to_digits 65536 2 (unat v))
        = (65535 * 65536 + unat v div 65536) * 65536 + unat v mod 65536"
    by (simp add: numeral_2_eq_2)
  also have "\<dots> = 65535 * 2 ^ 32 + unat v"
    using div_mult_mod_eq [of "unat v" 65536] by (simp add: algebra_simps)
  also have "\<dots> = unat w" using q r div_mult_mod_eq [of "unat w" "2 ^ 32"] by simp
  finally show ?thesis by (simp add: v6_of_segments_def)
qed

lemma read_octets_no_digit: "no_digit 10 x \<Longrightarrow> read_octets (Suc k) 0 x = None"
  by (simp add: read_separator_def)

lemma read_v4_no_digit: "no_digit 10 x \<Longrightarrow> read_v4 x = None"
  using read_octets_no_digit [of x 3] by (simp add: read_v4_def)

lemma read_v6_mapped:
  assumes "to_ipv4_mapped w = Some v"
  shows "read_v6 (''::ffff:'' @ show_v4 v) = Some (w, [])"
proof -
  have v4: "read_v4 (show_v4 v) = Some (v, [])" using read_v4_show [of "[]" v] by simp
  have hex: "show_hex 65535 = ''ffff''" by code_simp
  have num: "read_number 16 4 65535 True (''ffff:'' @ show_v4 v) = Some (65535, CHR '':'' # show_v4 v)"
    using read_number_show [of 16 65535 65535 4 "CHR '':'' # show_v4 v" True]
    by (simp add: hex [unfolded show_hex_def])
  have f: "no_digit 10 (''ffff:'' @ show_v4 v)" by (simp add: no_digit_def to_digit_def ord_of_def)
  have h: "read_groups (Suc k) 0 (''::ffff:'' @ show_v4 v) = ([], False, ''::ffff:'' @ show_v4 v)" for k
    by (simp add: read_separator_def read_v4_no_digit)
  have t: "read_groups (Suc (Suc (Suc k))) 0 (''ffff:'' @ show_v4 v) = (65535 # to_digits 65536 2 (unat v), True, [])" for k
    using f num v4 read_v4_no_digit by (simp add: read_separator_def)
  show ?thesis
    using h [of 7] t [of 4] mapped_value [OF assms] by (simp add: read_v6_def)
qed

lemma read_v4_show_v6: "read_v4 (show_v6 w) = None"
proof (cases "to_ipv4_mapped w")
  case None
  then have "CHR ''.'' \<notin> set (show_v6 w)"
    by (simp add: show_v6_def show_groups_def join_with_sep_join Let_def split: prod.split)
  then show ?thesis by (rule read_v4_dot)
next
  case (Some v)
  then show ?thesis by (simp add: show_v6_def read_v4_no_digit)
qed

theorem parse_show_ip [simp]: "parse_ip (show_ip a) = Some a"
proof (cases a)
  case (V4 w)
  then show ?thesis using read_v4_show [of "[]" w] by (simp add: parse_ip_def)
next
  case (V6 w)
  have "read_v6 (show_v6 w) = Some (w, [])"
    using read_v6_show [of w] read_v6_mapped [of w]
    by (cases "to_ipv4_mapped w") (simp_all add: show_v6_def)
  then show ?thesis using V6 by (simp add: parse_ip_def read_v4_show_v6)
qed

corollary show_ip_inject [simp]: "show_ip a = show_ip b \<longleftrightarrow> a = b"
  using parse_show_ip by (metis option.inject)

end
