(* ===== verification/Fw_Target.thy ===== *)
theory Fw_Target
  imports Ip_Addr Json
begin

text \<open>
  \<^verbatim>\<open>firewall-agent/src/lib.rs\<close>, the part every adapter shares: what a firewall action applies to
  (\<open>fw_target\<close>), its external JSON form and its durable recovery form, the normalised address it
  stands for, the references rendered for it, and the never-block exclusion list.
\<close>

section \<open>Errors and targets\<close>

datatype adapter_error =
    InvalidTarget msg
  | Preflight msg
  | Apply msg
  | Verify msg
  | Rollback msg

text \<open>\<^verbatim>\<open>AdapterError\<close>'s \<^verbatim>\<open>Display\<close>.\<close>

fun show_adapter_error :: "adapter_error \<Rightarrow> msg" where
  "show_adapter_error (InvalidTarget m) = Lit ''invalid target: '' # m"
| "show_adapter_error (Preflight m) = Lit ''preflight failed: '' # m"
| "show_adapter_error (Apply m) = Lit ''apply failed: '' # m"
| "show_adapter_error (Verify m) = Lit ''verify failed: '' # m"
| "show_adapter_error (Rollback m) = Lit ''rollback failed: '' # m"

datatype fw_target =
    ThreatIntelIndicator (cidr: string) (source: string)
  | IncidentSource (pseudonym: string)
  | ResolvedIncidentSource (raw_ip: string) (resolved_pseudonym: string)

definition invalid_lit :: "string \<Rightarrow> adapter_error" where
  "invalid_lit s = InvalidTarget [Lit s]"

definition validate_pseudonym :: "string \<Rightarrow> adapter_error + unit" where
  "validate_pseudonym p =
     (if \<not> prefix ''ip-pseudonym:'' p \<or> length p \<le> length ''ip-pseudonym:''
      then Inl (InvalidTarget [Dbg p, Lit '' is not a recognized pseudonymized resource''])
      else Inr ())"

fun normalize_address :: "ip_addr \<Rightarrow> ip_addr" where
  "normalize_address (V4 w) = V4 w"
| "normalize_address (V6 w) =
     (case to_ipv4_mapped w of Some v4 \<Rightarrow> V4 v4 | None \<Rightarrow> V6 w)"

text \<open>A prefix length is a \<^verbatim>\<open>u8\<close>.\<close>

definition parse_ip_or_cidr :: "string \<Rightarrow> (ip_addr \<times> 8 word option) option" where
  "parse_ip_or_cidr s =
     (case split_once CHR ''/'' s of
        Some (a, p) \<Rightarrow>
          (case parse_ip a of
             None \<Rightarrow> None
           | Some ip \<Rightarrow>
               let addr = normalize_address ip in
               (case parse_unsigned 255 p of
                  None \<Rightarrow> None
                | Some n \<Rightarrow>
                    let prefix = (of_nat n :: 8 word);
                        max_prefix = (if is_ipv4 addr then 32 else 128)
                    in if prefix > max_prefix then None else Some (addr, Some prefix)))
      | None \<Rightarrow>
          (case parse_ip s of
             None \<Rightarrow> None
           | Some ip \<Rightarrow> Some (normalize_address ip, None)))"

fun validate :: "fw_target \<Rightarrow> adapter_error + unit" where
  "validate (ThreatIntelIndicator c src) =
     (if trim src = [] then Inl (invalid_lit ''threat-intel indicator source must not be empty'')
      else and_then (ok_or (InvalidTarget [Dbg c, Lit '' is not a valid IP or CIDR'']) (parse_ip_or_cidr c))
             (\<lambda>_. Inr ()))"
| "validate (IncidentSource p) = validate_pseudonym p"
| "validate (ResolvedIncidentSource ip p) =
     and_then (validate_pseudonym p) (\<lambda>_.
     and_then (ok_or (InvalidTarget [Dbg ip, Lit '' is not a valid IP'']) (parse_ip_or_cidr ip)) (\<lambda>_.
     Inr ()))"

text \<open>\<^verbatim>\<open>TryFrom<&serde_json::Value>\<close>: the external parser, which never yields a resolved source.\<close>

definition target_of_json :: "json \<Rightarrow> adapter_error + fw_target" where
  "target_of_json v =
     and_then (ok_or (invalid_lit ''target is missing its \"kind\" field'') (get_str v ''kind'')) (\<lambda>kind.
     if kind = ''threat_intel_indicator'' then
       and_then (ok_or (invalid_lit ''target.cidr is missing'') (get_str v ''cidr'')) (\<lambda>c.
       and_then (ok_or (invalid_lit ''target.source is missing'') (get_str v ''source'')) (\<lambda>src.
       let t = ThreatIntelIndicator c src in
       and_then (validate t) (\<lambda>_. Inr t)))
     else if kind = ''incident_source'' then
       and_then (ok_or (invalid_lit ''target.pseudonym is missing'') (get_str v ''pseudonym'')) (\<lambda>p.
       let t = IncidentSource p in
       and_then (validate t) (\<lambda>_. Inr t))
     else Inl (InvalidTarget [Lit ''unknown target kind '', Dbg kind]))"

definition NFTABLES_FAMILY :: string where "NFTABLES_FAMILY = ''inet''"
definition NFTABLES_TABLE :: string where "NFTABLES_TABLE = ''clawforge''"
definition NFTABLES_BLOCKLIST_SET_V4 :: string where "NFTABLES_BLOCKLIST_SET_V4 = ''blocklist''"
definition NFTABLES_BLOCKLIST_SET_V6 :: string where "NFTABLES_BLOCKLIST_SET_V6 = ''blocklist6''"

definition set_name :: "fw_target \<Rightarrow> adapter_error + string option" where
  "set_name t =
     (let pick = (\<lambda>text. and_then (ok_or (invalid_lit ''no address'') (map_option fst (parse_ip_or_cidr text)))
                   (\<lambda>addr. Inr (Some (if is_ipv4 (normalize_address addr) then NFTABLES_BLOCKLIST_SET_V4
                                      else NFTABLES_BLOCKLIST_SET_V6))))
      in case t of
           ThreatIntelIndicator c _ \<Rightarrow> pick c
         | ResolvedIncidentSource ip _ \<Rightarrow> pick ip
         | IncidentSource _ \<Rightarrow> Inr None)"

section \<open>The durable recovery form\<close>

record recovery_target =
  scope :: string
  rt_target :: fw_target

definition SCHEMA_VERSION :: nat where "SCHEMA_VERSION = 1"

definition recovery_to_json :: "recovery_target \<Rightarrow> json" where
  "recovery_to_json r =
     (let ins = (\<lambda>k v obj. obj_insert k v obj);
          base = ins ''scope'' (JStr (scope r))
                   (ins ''schema_version'' (JInt (int SCHEMA_VERSION)) [])
      in JObj (case rt_target r of
           ThreatIntelIndicator c src \<Rightarrow>
             ins ''source'' (JStr src) (ins ''cidr'' (JStr c)
               (ins ''variant'' (JStr ''threat_intel_indicator'') base))
         | IncidentSource p \<Rightarrow>
             ins ''pseudonym'' (JStr p) (ins ''variant'' (JStr ''incident_source'') base)
         | ResolvedIncidentSource ip p \<Rightarrow>
             ins ''pseudonym'' (JStr p) (ins ''raw_ip'' (JStr ip)
               (ins ''variant'' (JStr ''resolved_incident_source'') base))))"

definition recovery_from_json :: "json \<Rightarrow> recovery_target option" where
  "recovery_from_json v =
     (case as_object v of None \<Rightarrow> None | Some obj \<Rightarrow>
     (case Option.bind (obj_get obj ''schema_version'') as_u64 of None \<Rightarrow> None | Some ver \<Rightarrow>
      if ver \<noteq> SCHEMA_VERSION then None else
     (case Option.bind (obj_get obj ''scope'') as_str of None \<Rightarrow> None | Some sc \<Rightarrow>
      let field = (\<lambda>key. Option.bind (obj_get obj key) as_str) in
     (case Option.bind (obj_get obj ''variant'') as_str of None \<Rightarrow> None | Some variant \<Rightarrow>
      let target =
        (if variant = ''threat_intel_indicator'' then
           (case field ''cidr'' of None \<Rightarrow> None | Some c \<Rightarrow>
             map_option (\<lambda>src. ThreatIntelIndicator c src) (field ''source''))
         else if variant = ''incident_source'' then
           map_option IncidentSource (field ''pseudonym'')
         else if variant = ''resolved_incident_source'' then
           (case field ''raw_ip'' of None \<Rightarrow> None | Some ip \<Rightarrow>
             map_option (\<lambda>p. ResolvedIncidentSource ip p) (field ''pseudonym''))
         else None)
      in (case target of None \<Rightarrow> None | Some t \<Rightarrow>
          (case validate t of Inl _ \<Rightarrow> None
           | Inr _ \<Rightarrow> Some \<lparr> scope = sc, rt_target = t \<rparr>))))))"

section \<open>Addresses and references\<close>

fun target_address :: "fw_target \<Rightarrow> adapter_error + (ip_addr \<times> 8 word option)" where
  "target_address (ThreatIntelIndicator c _) =
     ok_or (InvalidTarget [Dbg c, Lit '' invalid'']) (parse_ip_or_cidr c)"
| "target_address (ResolvedIncidentSource ip _) =
     ok_or (InvalidTarget [Dbg ip, Lit '' invalid'']) (parse_ip_or_cidr ip)"
| "target_address (IncidentSource _) =
     Inl (invalid_lit ''an unresolved IncidentSource has no address'')"

definition placeholder :: "string \<Rightarrow> string" where
  "placeholder p = ''<resolved-at-apply-time:'' @ p @ ''>''"

fun show_element :: "ip_addr \<times> 8 word option \<Rightarrow> string" where
  "show_element (addr, Some p) = show_ip addr @ ''/'' @ show_nat (unat p)"
| "show_element (addr, None) = show_ip addr"

definition element_reference :: "fw_target \<Rightarrow> adapter_error + string" where
  "element_reference t =
     (case t of
        IncidentSource p \<Rightarrow> Inr (placeholder p)
      | _ \<Rightarrow> and_then (target_address t) (\<lambda>ap. Inr (show_element ap)))"

definition redacted_element_reference :: "fw_target \<Rightarrow> adapter_error + string" where
  "redacted_element_reference t =
     (case t of ResolvedIncidentSource _ p \<Rightarrow> Inr (placeholder p) | _ \<Rightarrow> element_reference t)"

fun is_incident_source :: "fw_target \<Rightarrow> bool" where
  "is_incident_source (IncidentSource _) = True"
| "is_incident_source _ = False"

fun is_resolved :: "fw_target \<Rightarrow> bool" where
  "is_resolved (ResolvedIncidentSource _ _) = True"
| "is_resolved _ = False"

definition require_resolved_target :: "fw_target \<Rightarrow> adapter_error + unit" where
  "require_resolved_target t =
     (if is_incident_source t
      then Inl (invalid_lit ''an unresolved IncidentSource cannot be applied - resolve it to a ResolvedIncidentSource first'')
      else Inr ())"

definition full_prefix :: "ip_addr \<Rightarrow> 8 word" where
  "full_prefix a = (if is_ipv4 a then 32 else 128)"

definition set_elements :: "json \<Rightarrow> json list option" where
  "set_elements value =
     Option.bind (jget value ''nftables'') (\<lambda>v.
     Option.bind (as_array v) (\<lambda>entries.
     Option.bind (List.find (\<lambda>e. Option.bind (Option.bind (jget e ''set'') (\<lambda>s. jget s ''elem'')) as_array \<noteq> None) entries)
       (\<lambda>e. Option.bind (Option.bind (jget e ''set'') (\<lambda>s. jget s ''elem'')) as_array)))"

definition element_matches :: "ip_addr \<Rightarrow> 8 word \<Rightarrow> json \<Rightarrow> bool" where
  "element_matches addr target_prefix element =
     (let value = (case Option.bind (jget element ''elem'') (\<lambda>e. jget e ''val'') of
                     None \<Rightarrow> element | Some v \<Rightarrow> v)
      in case value of
           JStr s \<Rightarrow> target_prefix = full_prefix addr \<and> parse_ip s = Some addr
         | JObj kvs \<Rightarrow>
             (case obj_get kvs ''prefix'' of
                None \<Rightarrow> False
              | Some prefix_obj \<Rightarrow>
                  (case (get_str prefix_obj ''addr'', Option.bind (jget prefix_obj ''len'') as_u64) of
                     (Some a, Some l) \<Rightarrow> parse_ip a = Some addr \<and> l = unat target_prefix
                   | _ \<Rightarrow> False))
         | _ \<Rightarrow> False)"

definition set_contains_target ::
  "(string \<Rightarrow> json option) \<Rightarrow> string \<Rightarrow> ip_addr \<Rightarrow> 8 word option \<Rightarrow> bool" where
  "set_contains_target parse_json raw_set_json addr p =
     (case parse_json raw_set_json of
        None \<Rightarrow> False
      | Some value \<Rightarrow>
          (case set_elements value of
             None \<Rightarrow> False
           | Some elements \<Rightarrow>
               let target_prefix = (case p of Some q \<Rightarrow> q | None \<Rightarrow> full_prefix addr)
               in list_ex (element_matches addr target_prefix) elements))"

section \<open>The never-block list\<close>

fun ranges_overlap :: "ip_addr \<Rightarrow> 8 word \<Rightarrow> ip_addr \<Rightarrow> 8 word \<Rightarrow> bool" where
  "ranges_overlap (V4 a) a_prefix (V4 b) b_prefix =
     (let p = min a_prefix b_prefix;
          mask = (if p = 0 then 0 else push_bit (unat (32 - p)) (-1 :: 32 word))
      in (a AND mask) = (b AND mask))"
| "ranges_overlap (V6 a) a_prefix (V6 b) b_prefix =
     (let p = min a_prefix b_prefix;
          mask = (if p = 0 then 0 else push_bit (unat (128 - p)) (-1 :: 128 word))
      in (a AND mask) = (b AND mask))"
| "ranges_overlap _ _ _ _ = False"

type_synonym never_block_list = "msg + (ip_addr \<times> 8 word) list"

definition BUILTIN :: "string list" where
  "BUILTIN = [''127.0.0.0/8'', ''::1/128'', ''169.254.0.0/16'', ''fe80::/10'']"

definition with_full_prefix :: "ip_addr \<times> 8 word option \<Rightarrow> ip_addr \<times> 8 word" where
  "with_full_prefix ap =
     (fst ap, case snd ap of Some p \<Rightarrow> p | None \<Rightarrow> full_prefix (fst ap))"

text \<open>The built-in entries; an entry that did not parse would be a panic of the source, here \<^term>\<open>None\<close>
  (the lemma \<open>builtin_networks\<close> shows that it never happens).\<close>

definition builtin_list :: "(ip_addr \<times> 8 word) list option" where
  "builtin_list = those (map (\<lambda>e. map_option with_full_prefix (parse_ip_or_cidr e)) BUILTIN)"

fun configured_networks :: "string list \<Rightarrow> never_block_list" where
  "configured_networks [] = Inr []"
| "configured_networks (raw # rest) =
     (let entry = trim raw in
      if entry = [] then configured_networks rest
      else and_then (ok_or [Lit ''CLAWFORGE_FIREWALL_NEVER_BLOCK_CIDRS: '', Dbg entry,
                            Lit '' is not a valid IP or CIDR''] (parse_ip_or_cidr entry)) (\<lambda>ap.
           and_then (configured_networks rest) (\<lambda>l. Inr (with_full_prefix ap # l))))"

definition never_block_list_from_configured :: "string option \<Rightarrow> never_block_list" where
  "never_block_list_from_configured configured =
     (case builtin_list of
        None \<Rightarrow> Inl [Lit ''panic: built-in entry is valid'']
      | Some builtins \<Rightarrow>
          (case configured of
             None \<Rightarrow> Inr builtins
           | Some text \<Rightarrow>
               and_then (configured_networks (split_on CHR '','' text)) (\<lambda>l. Inr (builtins @ l))))"

definition check_never_block :: "never_block_list \<Rightarrow> fw_target \<Rightarrow> adapter_error + unit" where
  "check_never_block never_block t =
     and_then (map_err (\<lambda>e. InvalidTarget
                 (Lit ''never-block exclusion list is misconfigured, refusing every target until fixed: '' # e))
               never_block) (\<lambda>nets.
     if is_incident_source t then Inr ()
     else and_then (target_address t) (\<lambda>ap.
       let addr = fst ap; p = snd (with_full_prefix ap) in
       if list_ex (\<lambda>(net_addr, net_prefix). ranges_overlap net_addr net_prefix addr p) nets
       then Inl (invalid_lit ''target overlaps a never-block exclusion (loopback/link-local or CLAWFORGE_FIREWALL_NEVER_BLOCK_CIDRS)'')
       else Inr ()))"

section \<open>Lemmas\<close>

lemma validate_pseudonym_iff:
  "validate_pseudonym p = Inr () \<longleftrightarrow> (\<exists>rest. p = ''ip-pseudonym:'' @ rest \<and> rest \<noteq> [])"
proof (cases "prefix ''ip-pseudonym:'' p")
  case True
  then obtain rest where "p = ''ip-pseudonym:'' @ rest" by (rule prefixE)
  then show ?thesis by (cases rest) (simp_all add: validate_pseudonym_def)
next
  case False
  then show ?thesis by (auto simp: validate_pseudonym_def)
qed

lemma normalize_idem [simp]: "normalize_address (normalize_address a) = normalize_address a"
  by (cases a rule: normalize_address.cases) (auto split: option.splits)

lemma parse_ip_or_cidr_bounds:
  assumes "parse_ip_or_cidr s = Some (a, p)"
  shows "normalize_address a = a" "\<And>q. p = Some q \<Longrightarrow> q \<le> full_prefix a"
  using assms
  by (auto simp: parse_ip_or_cidr_def full_prefix_def Let_def not_less
           split: option.splits prod.splits if_splits)

lemma unat_full_prefix: "unat (full_prefix a) = (if is_ipv4 a then 32 else 128)"
  by (simp add: full_prefix_def)

subsection \<open>Networks\<close>

text \<open>The addresses of a network: those that agree with its address on the first \<^term>\<open>unat p\<close> bits.\<close>

definition network :: "ip_addr \<Rightarrow> 8 word \<Rightarrow> ip_addr set" where
  "network a p =
     (case a of
        V4 w \<Rightarrow> {V4 x | x. drop_bit (32 - unat p) x = drop_bit (32 - unat p) w}
      | V6 w \<Rightarrow> {V6 x | x. drop_bit (128 - unat p) x = drop_bit (128 - unat p) w})"

lemma drop_bit_eq_iff:
  fixes a b :: "'a :: len word"
  shows "drop_bit n a = drop_bit n b \<longleftrightarrow> (\<forall>k \<ge> n. bit a k = bit b k)"
proof
  assume d: "drop_bit n a = drop_bit n b"
  show "\<forall>k \<ge> n. bit a k = bit b k"
  proof (intro allI impI)
    fix k assume "n \<le> k"
    then show "bit a k = bit b k"
      using arg_cong [OF d, of "\<lambda>w. bit w (k - n)"] by (simp add: bit_drop_bit_eq)
  qed
next
  assume "\<forall>k \<ge> n. bit a k = bit b k"
  then have "bit (drop_bit n a) j = bit (drop_bit n b) j" for j by (simp add: bit_drop_bit_eq)
  then show "drop_bit n a = drop_bit n b" by (rule bit_eqI)
qed

lemma and_high_mask:
  fixes a b :: "'a :: len word"
  shows "(a AND NOT (mask n)) = (b AND NOT (mask n)) \<longleftrightarrow> drop_bit n a = drop_bit n b"
proof -
  have m: "bit (x AND NOT (mask n)) k \<longleftrightarrow> n \<le> k \<and> bit x k" for x :: "'a word" and k
    using bit_imp_le_length [of x k] by (auto simp: bit_and_iff bit_not_iff bit_mask_iff)
  show ?thesis
    unfolding drop_bit_eq_iff by (metis bit_eqI m)
qed

lemma drop_bit_coarser:
  fixes x y :: "'a :: len word"
  shows "drop_bit m x = drop_bit m y \<Longrightarrow> m \<le> n \<Longrightarrow> drop_bit n x = drop_bit n y"
  by (simp add: drop_bit_eq_iff)

lemma network_mem [simp]: "a \<in> network a p"
  by (cases a) (auto simp: network_def)

lemma min_word_unat: "unat (min a b) = min (unat a) (unat (b :: 8 word))"
  by (auto simp: min_def word_le_nat_alt)

lemma overlap_words:
  fixes a b :: "'l :: len word" and p q :: "8 word"
  assumes p: "unat p \<le> W" and q: "unat q \<le> W" and W: "LENGTH('l) = W" and w: "unat w = W"
  shows "(let r = min p q; mask = (if r = 0 then 0 else push_bit (unat (w - r)) (- 1 :: 'l word))
          in (a AND mask) = (b AND mask))
         \<longleftrightarrow> (\<exists>x. drop_bit (W - unat p) x = drop_bit (W - unat p) a \<and>
                  drop_bit (W - unat q) x = drop_bit (W - unat q) b)" (is "?L \<longleftrightarrow> ?R")
proof -
  let ?r = "min p q"
  have r: "unat ?r \<le> W" "unat ?r = min (unat p) (unat q)" using p q by (auto simp: min_word_unat)
  have "unat (w - ?r) = W - unat ?r" using r w by (simp add: unat_sub word_le_nat_alt)
  moreover have "?r = 0 \<Longrightarrow> drop_bit (W - unat ?r) a = drop_bit (W - unat ?r) b"
    unfolding drop_bit_eq_iff using W bit_imp_le_length by (metis diff_zero linorder_not_less unat_0)
  ultimately have L: "?L \<longleftrightarrow> drop_bit (W - unat ?r) a = drop_bit (W - unat ?r) b"
    by (auto simp: Let_def and_high_mask)
  show ?thesis
  proof
    assume "?L"
    then have e: "drop_bit (W - unat ?r) a = drop_bit (W - unat ?r) b" using L by simp
    show ?R
    proof (cases "unat p \<le> unat q")
      case True
      then show ?thesis using e r by (intro exI [of _ b]) (simp add: min_def)
    next
      case False
      then show ?thesis using e r by (intro exI [of _ a]) (simp add: min_def)
    qed
  next
    assume ?R
    then obtain x where x: "drop_bit (W - unat p) x = drop_bit (W - unat p) a"
      "drop_bit (W - unat q) x = drop_bit (W - unat q) b" by blast
    have "W - unat p \<le> W - unat ?r" "W - unat q \<le> W - unat ?r" using r(2) by simp_all
    then have "drop_bit (W - unat ?r) x = drop_bit (W - unat ?r) a"
      "drop_bit (W - unat ?r) x = drop_bit (W - unat ?r) b"
      using x by (blast intro: drop_bit_coarser)+
    then show ?L using L by simp
  qed
qed

lemma ranges_overlap_iff:
  assumes "p \<le> full_prefix a" "q \<le> full_prefix b"
  shows "ranges_overlap a p b q \<longleftrightarrow> network a p \<inter> network b q \<noteq> {}"
proof (cases a)
  case a: (V4 x)
  show ?thesis
  proof (cases b)
    case (V4 y)
    with a show ?thesis
      using assms overlap_words [of p 32 q 32 x y] by (auto simp: network_def full_prefix_def word_le_nat_alt)
  next
    case (V6 y)
    with a show ?thesis by (auto simp: network_def)
  qed
next
  case a: (V6 x)
  show ?thesis
  proof (cases b)
    case (V4 y)
    with a show ?thesis by (auto simp: network_def)
  next
    case (V6 y)
    with a show ?thesis
      using assms overlap_words [of p 128 q 128 x y] by (auto simp: network_def full_prefix_def word_le_nat_alt)
  qed
qed

definition target_network :: "fw_target \<Rightarrow> ip_addr set" where
  "target_network t =
     (case target_address t of
        Inl _ \<Rightarrow> {}
      | Inr ap \<Rightarrow> network (fst (with_full_prefix ap)) (snd (with_full_prefix ap)))"

definition well_formed_nets :: "(ip_addr \<times> 8 word) list \<Rightarrow> bool" where
  "well_formed_nets nets = list_all (\<lambda>(a, p). p \<le> full_prefix a \<and> normalize_address a = a) nets"

lemma with_full_prefix_le:
  "parse_ip_or_cidr s = Some ap \<Longrightarrow> snd (with_full_prefix ap) \<le> full_prefix (fst ap)"
  using parse_ip_or_cidr_bounds(2) [of s "fst ap" "snd ap"]
  by (cases ap; cases "snd ap") (simp_all add: with_full_prefix_def)

lemma target_address_Inr:
  "target_address t = Inr ap \<longleftrightarrow> \<not> is_incident_source t \<and>
     parse_ip_or_cidr (case t of ThreatIntelIndicator c _ \<Rightarrow> c | ResolvedIncidentSource ip _ \<Rightarrow> ip) = Some ap"
  by (cases t) (auto simp: ok_or_Inr_iff)

lemma fst_with_full_prefix [simp]: "fst (with_full_prefix ap) = fst ap"
  by (simp add: with_full_prefix_def)

lemma builtin_networks:
  "builtin_list = Some [(V4 0x7f000000, 8), (V6 1, 128), (V4 0xa9fe0000, 16),
                        (V6 0xfe800000000000000000000000000000, 10)]"
  by code_simp

lemma configured_networks_well_formed:
  "configured_networks es = Inr l \<Longrightarrow> well_formed_nets l"
proof (induction es arbitrary: l)
  case (Cons e es)
  then show ?case
  proof (cases "trim e = []")
    case False
    then obtain ap l' where ap: "parse_ip_or_cidr (trim e) = Some ap" and l': "configured_networks es = Inr l'"
      and l: "l = with_full_prefix ap # l'"
      using Cons.prems by (auto simp: Let_def and_then_Inr_iff)
    have "normalize_address (fst ap) = fst ap"
      using parse_ip_or_cidr_bounds(1) [of "trim e" "fst ap" "snd ap"] ap by simp
    then show ?thesis using Cons.IH [OF l'] with_full_prefix_le [OF ap] l
      by (simp add: well_formed_nets_def case_prod_unfold)
  qed simp
qed (simp add: well_formed_nets_def)

lemma builtin_well_formed: "builtin_list = Some l \<Longrightarrow> well_formed_nets l"
  by (auto simp: builtin_networks well_formed_nets_def full_prefix_def to_ipv4_mapped_def)

lemma never_block_list_cases:
  assumes "never_block_list_from_configured c = Inr l"
  obtains builtins extra where "builtin_list = Some builtins" "l = builtins @ extra" "well_formed_nets l"
proof -
  obtain builtins where b: "builtin_list = Some builtins" using builtin_networks by blast
  show ?thesis
  proof (cases c)
    case None
    then have "l = builtins @ []" using assms by (simp add: never_block_list_from_configured_def b)
    then show ?thesis using that [OF b] builtin_well_formed [OF b] by simp
  next
    case (Some cfg)
    then obtain extra where "configured_networks (split_on CHR '','' cfg) = Inr extra" "l = builtins @ extra"
      using assms by (auto simp: never_block_list_from_configured_def and_then_Inr_iff b)
    then show ?thesis using that b builtin_well_formed [OF b] configured_networks_well_formed
      by (auto simp: well_formed_nets_def)
  qed
qed

lemma check_never_block_sound:
  assumes "check_never_block (Inr nets) t = Inr ()" "well_formed_nets nets" "(a, p) \<in> set nets"
  shows "network a p \<inter> target_network t = {}"
proof (cases "target_address t")
  case (Inr ap)
  then have ni: "\<not> is_incident_source t" and b: "snd (with_full_prefix ap) \<le> full_prefix (fst ap)"
    by (auto simp: target_address_Inr intro: with_full_prefix_le)
  have "\<not> ranges_overlap a p (fst ap) (snd (with_full_prefix ap))"
    using assms(1,3) ni Inr by (auto simp: check_never_block_def list_ex_iff Let_def split: if_splits)
  moreover have "p \<le> full_prefix a" using assms(2,3) by (auto simp: well_formed_nets_def list_all_iff)
  ultimately show ?thesis using ranges_overlap_iff [of p a "snd (with_full_prefix ap)" "fst ap"] b Inr
    by (simp add: target_network_def)
qed (simp add: target_network_def)

lemma check_never_block_complete:
  assumes "well_formed_nets nets" "target_address t = Inr ap"
    and "\<forall>(a, p) \<in> set nets. network a p \<inter> target_network t = {}"
  shows "check_never_block (Inr nets) t = Inr ()"
proof -
  have b: "snd (with_full_prefix ap) \<le> full_prefix (fst ap)"
    using assms(2) by (auto simp: target_address_Inr intro: with_full_prefix_le)
  have "\<not> ranges_overlap a p (fst ap) (snd (with_full_prefix ap))" if "(a, p) \<in> set nets" for a p
  proof -
    have "p \<le> full_prefix a" using assms(1) that by (auto simp: well_formed_nets_def list_all_iff)
    then show ?thesis using assms(2,3) that b ranges_overlap_iff [of p a "snd (with_full_prefix ap)" "fst ap"]
      by (fastforce simp: target_network_def)
  qed
  moreover have "\<not> is_incident_source t" using assms(2) by (simp add: target_address_Inr)
  ultimately show ?thesis by (auto simp: check_never_block_def Let_def list_ex_iff assms(2))
qed

lemma check_never_block_Inl [simp]: "check_never_block (Inl e) t \<noteq> Inr x"
  by (simp add: check_never_block_def)

subsection \<open>References\<close>

lemma slash_show_ip [simp]: "CHR ''/'' \<notin> set (show_ip a)"
proof -
  have hex: "CHR ''/'' \<notin> set (show_base b n)" if "2 \<le> b" "b \<le> 36" for b n
  proof
    assume "CHR ''/'' \<in> set (show_base b n)"
    then obtain d where "d < b" "digit_chr d = CHR ''/''" using set_show_base [of b n] \<open>2 \<le> b\<close> by auto
    then have "ord_of (digit_chr d) = 47" by (simp add: ord_of_def)
    then show False using \<open>d < b\<close> that by (simp add: ord_of_digit_chr split: if_splits)
  qed
  have sj: "CHR ''/'' \<notin> set (sep_join c i xs)" if "c \<noteq> CHR ''/''" "\<forall>x \<in> set xs. CHR ''/'' \<notin> set x" for c i xs
    using that by (induction xs arbitrary: i) auto
  have v4: "CHR ''/'' \<notin> set (show_v4 w)" for w
    unfolding show_v4_def join_with_sep_join by (rule sj) (auto simp: show_nat_def hex)
  have gs: "CHR ''/'' \<notin> set (show_groups g)" for g
    unfolding show_groups_def join_with_sep_join by (rule sj) (auto simp: show_hex_def hex)
  show ?thesis
    by (cases a) (auto simp: show_v6_def v4 gs Let_def split: option.splits prod.splits)
qed

lemma parse_show_element:
  assumes "normalize_address a = a" "\<And>q. p = Some q \<Longrightarrow> q \<le> full_prefix a"
  shows "parse_ip_or_cidr (show_element (a, p)) = Some (a, p)"
proof (cases p)
  case None
  have "split_once CHR ''/'' (show_ip a) = None" by (simp add: split_once_None_iff)
  then show ?thesis using None assms by (simp add: parse_ip_or_cidr_def)
next
  case (Some q)
  have "split_once CHR ''/'' (show_ip a @ CHR ''/'' # show_nat (unat q)) = Some (show_ip a, show_nat (unat q))"
    by (rule split_once_append) simp
  moreover have "unat q \<le> 255" using unsigned_less [of q, where ?'a = nat] by simp
  ultimately show ?thesis using Some assms
    by (simp add: parse_ip_or_cidr_def parse_unsigned_show_nat Let_def not_less full_prefix_def)
qed

lemma parse_show_parse: "parse_ip_or_cidr s = Some ap \<Longrightarrow> parse_ip_or_cidr (show_element ap) = Some ap"
proof -
  assume s: "parse_ip_or_cidr s = Some ap"
  obtain a p where ap: "ap = (a, p)" by (cases ap)
  have p: "parse_ip_or_cidr s = Some (a, p)" using s ap by blast
  have "normalize_address a = a" by (rule parse_ip_or_cidr_bounds(1) [OF p])
  moreover have "q \<le> full_prefix a" if "p = Some q" for q by (rule parse_ip_or_cidr_bounds(2) [OF p that])
  ultimately have "parse_ip_or_cidr (show_element (a, p)) = Some (a, p)" by (rule parse_show_element)
  then show ?thesis using ap by blast
qed

lemma show_element_inject:
  assumes "parse_ip_or_cidr s = Some ap" "parse_ip_or_cidr s' = Some ap'" "show_element ap = show_element ap'"
  shows "ap = ap'"
  using parse_show_parse [OF assms(1)] parse_show_parse [OF assms(2), folded assms(3)]
  by (metis option.inject)

lemma element_reference_inject:
  assumes "target_address t = Inr ap" "target_address t' = Inr ap'"
  shows "element_reference t = element_reference t' \<longleftrightarrow> ap = ap'"
proof -
  have "\<not> is_incident_source t" "\<not> is_incident_source t'" using assms by (simp_all add: target_address_Inr)
  then have e: "element_reference t = Inr (show_element ap)" "element_reference t' = Inr (show_element ap')"
    using assms by (cases t; cases t'; simp add: element_reference_def)+
  obtain s s' where "parse_ip_or_cidr s = Some ap" "parse_ip_or_cidr s' = Some ap'"
    using assms by (auto simp: target_address_Inr simp del: split_paired_Ex)
  from show_element_inject [OF this] show ?thesis unfolding e by blast
qed

lemma redacted_resolved [simp]:
  "redacted_element_reference (ResolvedIncidentSource ip p) = Inr (placeholder p)"
  by (simp add: redacted_element_reference_def)

lemma redacted_unresolved [simp]:
  "redacted_element_reference (IncidentSource p) = Inr (placeholder p)"
  by (simp add: redacted_element_reference_def element_reference_def)

lemma redacted_indicator:
  "redacted_element_reference (ThreatIntelIndicator c src) =
     and_then (target_address (ThreatIntelIndicator c src)) (\<lambda>ap. Inr (show_element ap))"
  by (simp add: redacted_element_reference_def element_reference_def)

lemma validate_address: "validate t = Inr () \<Longrightarrow> \<not> is_incident_source t \<Longrightarrow> \<exists>ap. target_address t = Inr ap"
  by (cases t) (auto simp: and_then_Inr_iff split: if_splits)

lemma validate_set_name:
  "validate t = Inr () \<Longrightarrow> (\<exists>n. set_name t = Inr (Some n)) \<or> (is_incident_source t \<and> set_name t = Inr None)"
  by (cases t) (auto simp: set_name_def and_then_Inr_iff split: if_splits)

lemma element_reference_cases:
  "element_reference t = Inr e \<longleftrightarrow>
     (case t of IncidentSource p \<Rightarrow> e = placeholder p
      | _ \<Rightarrow> \<exists>ap. target_address t = Inr ap \<and> e = show_element ap)"
  by (cases t) (auto simp: element_reference_def and_then_Inr_iff)

subsection \<open>The two JSON forms\<close>

lemma target_of_json_ok:
  "target_of_json v = Inr t \<Longrightarrow> validate t = Inr () \<and> \<not> is_resolved t"
  by (auto simp: target_of_json_def and_then_Inr_iff Let_def simp del: validate.simps split: if_splits)

lemma recovery_from_json_ok:
  "recovery_from_json v = Some r \<Longrightarrow> validate (rt_target r) = Inr ()"
  by (auto simp: recovery_from_json_def Let_def simp del: validate.simps split: option.splits if_splits sum.splits)

lemma obj_get_recovery:
  "\<exists>obj. recovery_to_json r = JObj obj \<and>
     obj_get obj ''schema_version'' = Some (JInt 1) \<and> obj_get obj ''scope'' = Some (JStr (scope r)) \<and>
     (case rt_target r of
        ThreatIntelIndicator c src \<Rightarrow> obj_get obj ''variant'' = Some (JStr ''threat_intel_indicator'') \<and>
          obj_get obj ''cidr'' = Some (JStr c) \<and> obj_get obj ''source'' = Some (JStr src)
      | IncidentSource p \<Rightarrow> obj_get obj ''variant'' = Some (JStr ''incident_source'') \<and>
          obj_get obj ''pseudonym'' = Some (JStr p)
      | ResolvedIncidentSource ip p \<Rightarrow> obj_get obj ''variant'' = Some (JStr ''resolved_incident_source'') \<and>
          obj_get obj ''raw_ip'' = Some (JStr ip) \<and> obj_get obj ''pseudonym'' = Some (JStr p))"
  by (cases "rt_target r") (simp_all add: recovery_to_json_def SCHEMA_VERSION_def obj_get_def)

text \<open>A recovery target survives the durable store: reading back what \<^verbatim>\<open>to_json\<close> wrote gives the same
  target, for every variant (the resolved one included), exactly when the target is one that
  validates.  So a rollback after a crash acts on the rule that was applied.\<close>

theorem recovery_round_trip:
  "recovery_from_json (recovery_to_json r) = (if validate (rt_target r) = Inr () then Some r else None)"
proof -
  obtain obj where o: "recovery_to_json r = JObj obj" and
    g: "obj_get obj ''schema_version'' = Some (JInt 1)" "obj_get obj ''scope'' = Some (JStr (scope r))"
    and t: "(case rt_target r of
        ThreatIntelIndicator c src \<Rightarrow> obj_get obj ''variant'' = Some (JStr ''threat_intel_indicator'') \<and>
          obj_get obj ''cidr'' = Some (JStr c) \<and> obj_get obj ''source'' = Some (JStr src)
      | IncidentSource p \<Rightarrow> obj_get obj ''variant'' = Some (JStr ''incident_source'') \<and>
          obj_get obj ''pseudonym'' = Some (JStr p)
      | ResolvedIncidentSource ip p \<Rightarrow> obj_get obj ''variant'' = Some (JStr ''resolved_incident_source'') \<and>
          obj_get obj ''raw_ip'' = Some (JStr ip) \<and> obj_get obj ''pseudonym'' = Some (JStr p))"
    using obj_get_recovery by blast
  show ?thesis
  proof (cases "validate (rt_target r)")
    case (Inl e)
    then show ?thesis using o g t
      by (cases "rt_target r") (simp_all add: recovery_from_json_def SCHEMA_VERSION_def del: validate.simps)
  next
    case (Inr u)
    then show ?thesis using o g t
      by (cases r; cases "rt_target r")
        (simp_all add: recovery_from_json_def SCHEMA_VERSION_def del: validate.simps)
  qed
qed

fun is_invalid_target :: "adapter_error \<Rightarrow> bool" where
  "is_invalid_target (InvalidTarget _) = True"
| "is_invalid_target _ = False"

lemma validate_error: "validate t = Inl e \<Longrightarrow> is_invalid_target e"
  by (cases t) (auto simp: invalid_lit_def validate_pseudonym_def and_then_Inl_iff split: if_splits)

text \<open>The public parser is closed against foreign resolved targets: whatever JSON it is given, a target
  it accepts validates, is never an already resolved source, and is one of the two external kinds
  carrying exactly the fields of the object.\<close>

theorem public_target_sound:
  "case target_of_json v of
     Inl e \<Rightarrow> is_invalid_target e
   | Inr t \<Rightarrow> validate t = Inr () \<and>
       ((\<exists>c src. t = ThreatIntelIndicator c src \<and> get_str v ''kind'' = Some ''threat_intel_indicator'' \<and>
           get_str v ''cidr'' = Some c \<and> get_str v ''source'' = Some src) \<or>
        (\<exists>p. t = IncidentSource p \<and> get_str v ''kind'' = Some ''incident_source'' \<and>
           get_str v ''pseudonym'' = Some p))"
proof (cases "target_of_json v")
  case (Inl e)
  then have "is_invalid_target e"
    unfolding target_of_json_def invalid_lit_def Let_def and_then_Inl_iff ok_or_Inl_iff
    by (elim disjE exE conjE)
      (auto simp: and_then_Inl_iff simp del: validate.simps dest: validate_error split: if_split_asm)
  then show ?thesis using Inl by simp
next
  case (Inr t)
  then show ?thesis
    by (auto simp: target_of_json_def and_then_Inr_iff Let_def simp del: validate.simps split: if_splits)
qed

subsection \<open>The exclusion list and the set listing\<close>

lemma target_network_nonempty: "target_address t = Inr ap \<Longrightarrow> fst ap \<in> target_network t"
  by (simp add: target_network_def)

text \<open>C9 The never-block check is exact.  With a list that was read without error, a target that has an
  address passes if and only if its network shares no address with any network of the list (the
  source masks both sides with the shorter prefix; this is the intersection of the two sets of
  addresses, whichever side is the wider one), and the list always contains the loopback and
  link-local networks.\<close>

theorem never_block_exact:
  assumes "never_block_list_from_configured configured = Inr nets" "target_address t = Inr ap"
  shows "(check_never_block (Inr nets) t = Inr ()
            \<longleftrightarrow> (\<forall>(a, p) \<in> set nets. network a p \<inter> target_network t = {}))
         \<and> {(V4 0x7f000000, 8), (V6 1, 128), (V4 0xa9fe0000, 16),
            (V6 0xfe800000000000000000000000000000, 10)} \<subseteq> set nets"
proof -
  from assms(1) obtain builtins extra where
    b: "builtin_list = Some builtins" "nets = builtins @ extra" and wf: "well_formed_nets nets"
    by (rule never_block_list_cases)
  have "check_never_block (Inr nets) t = Inr ()
          \<longleftrightarrow> (\<forall>(a, p) \<in> set nets. network a p \<inter> target_network t = {})"
    using check_never_block_sound [OF _ wf] check_never_block_complete [OF wf assms(2)] by fast
  moreover have "{(V4 0x7f000000, 8), (V6 1, 128), (V4 0xa9fe0000, 16),
            (V6 0xfe800000000000000000000000000000, 10)} \<subseteq> set nets"
    using b(1) [unfolded builtin_networks] unfolding b(2) by auto
  ultimately show ?thesis by blast
qed

lemma never_block_exact_witness:
  "\<not> is_ok (check_never_block (never_block_list_from_configured None) (ThreatIntelIndicator ''127.0.0.1'' ''feed''))"
proof -
  let ?t = "ThreatIntelIndicator ''127.0.0.1'' ''feed''"
  obtain nets where b: "builtin_list = Some nets" using builtin_networks by blast
  have l: "never_block_list_from_configured None = Inr nets"
    by (simp add: never_block_list_from_configured_def b)
  have a: "target_address ?t = Inr (V4 0x7f000001, None)" by code_simp
  have m: "V4 0x7f000001 \<in> network (V4 0x7f000000) 8 \<inter> target_network ?t"
    using target_network_nonempty [OF a] by (simp add: network_def)
  have "\<not> check_never_block (Inr nets) ?t = Inr ()"
    using never_block_exact [OF l a] m by blast
  then show ?thesis by (simp add: l is_ok_iff)
qed

text \<open>
  What \<^verbatim>\<open>nft -j list set\<close> prints for a set that holds the networks \<open>ns\<close>, as the captured listings of the crate's
  tests have it: an object whose \<^verbatim>\<open>nftables\<close> array has, among other objects, the set with its elements, or no elements
  at all for an empty set.  A network is an address as text (a host) or a prefix object, alone or wrapped beside its
  timeout.  Whatever other members these objects have (versions, family, table, type, handle, flags, times), and however
  an address is spelt, is left open.
\<close>

definition network_value :: "json \<Rightarrow> ip_addr \<times> 8 word \<Rightarrow> bool" where
  "network_value v n \<longleftrightarrow>
     (\<exists>t. v = JStr t \<and> parse_ip t = Some (fst n) \<and> snd n = full_prefix (fst n)) \<or>
     (\<exists>kvs p t. v = JObj kvs \<and> obj_get kvs ''elem'' = None \<and> obj_get kvs ''prefix'' = Some p \<and> jget p ''addr'' = Some (JStr t) \<and>
        parse_ip t = Some (fst n) \<and> jget p ''len'' = Some (JInt (int (unat (snd n)))))"

definition network_element :: "json \<Rightarrow> ip_addr \<times> 8 word \<Rightarrow> bool" where
  "network_element x n \<longleftrightarrow> network_value x n \<or>
     (\<exists>kvs inner v. x = JObj kvs \<and> obj_get kvs ''elem'' = Some inner \<and> jget inner ''val'' = Some v \<and> network_value v n)"

definition set_elems :: "json \<Rightarrow> json list option" where
  "set_elems e = (case jget e ''set'' of Some t \<Rightarrow> (case jget t ''elem'' of Some (JArr xs) \<Rightarrow> Some xs | _ \<Rightarrow> None) | None \<Rightarrow> None)"

definition nft_lists :: "json \<Rightarrow> (ip_addr \<times> 8 word) set \<Rightarrow> bool" where
  "nft_lists j ns \<longleftrightarrow>
     (\<exists>entries. jget j ''nftables'' = Some (JArr entries) \<and>
       ((\<forall>e \<in> set entries. set_elems e = None) \<and> ns = {} \<or>
        (\<exists>pre e post xs nets. entries = pre @ e # post \<and> (\<forall>x \<in> set pre. set_elems x = None) \<and> set_elems e = Some xs \<and>
           list_all2 network_element xs nets \<and> ns = set nets)))"

lemma network_value_matches:
  assumes "network_value v (a, p)"
  shows "(case v of
         JStr s \<Rightarrow> q = full_prefix addr \<and> parse_ip s = Some addr
       | JObj kvs \<Rightarrow>
           (case obj_get kvs ''prefix'' of None \<Rightarrow> False
            | Some prefix_obj \<Rightarrow>
                (case (get_str prefix_obj ''addr'', Option.bind (jget prefix_obj ''len'') as_u64) of
                   (Some a, Some l) \<Rightarrow> parse_ip a = Some addr \<and> l = unat q
                 | _ \<Rightarrow> False))
       | _ \<Rightarrow> False) \<longleftrightarrow> a = addr \<and> p = q"
proof -
  have "uint p < 2 ^ LENGTH(8)" by (rule unsigned_less)
  then have p: "uint p < 2 ^ 64" by simp
  have u: "unat p = unat q \<longleftrightarrow> p = q" by (metis unsigned_word_eqI)
  show ?thesis using assms p u unfolding network_value_def get_str_def by auto
qed

lemma element_matches_network:
  assumes "network_element x (a, p)"
  shows "element_matches addr q x \<longleftrightarrow> a = addr \<and> p = q"
proof -
  consider (plain) "network_value x (a, p)" "Option.bind (jget x ''elem'') (\<lambda>e. jget e ''val'') = None"
    | (timed) v where "Option.bind (jget x ''elem'') (\<lambda>e. jget e ''val'') = Some v" "network_value v (a, p)"
    using assms unfolding network_element_def network_value_def by fastforce
  then show ?thesis
  proof cases
    case plain
    then show ?thesis using network_value_matches [OF plain(1)] by (simp add: element_matches_def Let_def)
  next
    case timed
    then show ?thesis using network_value_matches [OF timed(2)] by (simp add: element_matches_def Let_def)
  qed
qed

lemma set_elems_code: "set_elems e = Option.bind (Option.bind (jget e ''set'') (\<lambda>s. jget s ''elem'')) as_array"
  by (auto simp: set_elems_def split: option.split json.split)

lemma find_append: "(\<forall>x \<in> set pre. \<not> P x) \<Longrightarrow> P e \<Longrightarrow> List.find P (pre @ e # post) = Some e"
  by (induction pre) auto

lemma nft_lists_elements:
  assumes "nft_lists j ns"
  shows "(set_elements j = None \<and> ns = {}) \<or> (\<exists>xs nets. set_elements j = Some xs \<and> list_all2 network_element xs nets \<and> ns = set nets)"
proof -
  obtain entries where entries: "jget j ''nftables'' = Some (JArr entries)"
    and or: "((\<forall>e \<in> set entries. set_elems e = None) \<and> ns = {} \<or>
        (\<exists>pre e post xs nets. entries = pre @ e # post \<and> (\<forall>x \<in> set pre. set_elems x = None) \<and> set_elems e = Some xs \<and>
           list_all2 network_element xs nets \<and> ns = set nets))"
    using assms unfolding nft_lists_def by blast
  have code: "set_elements j = Option.bind (List.find (\<lambda>e. set_elems e \<noteq> None) entries) set_elems"
    using entries unfolding set_elements_def set_elems_code by simp
  from or show ?thesis
  proof
    assume "(\<forall>e \<in> set entries. set_elems e = None) \<and> ns = {}"
    moreover from this have "List.find (\<lambda>e. set_elems e \<noteq> None) entries = None" by (simp add: find_None_iff)
    ultimately show ?thesis using code by simp
  next
    assume "\<exists>pre e post xs nets. entries = pre @ e # post \<and> (\<forall>x \<in> set pre. set_elems x = None) \<and> set_elems e = Some xs \<and>
           list_all2 network_element xs nets \<and> ns = set nets"
    then obtain pre e post xs nets where e: "entries = pre @ e # post" "\<forall>x \<in> set pre. set_elems x = None" "set_elems e = Some xs"
      and nets: "list_all2 network_element xs nets" "ns = set nets" by blast
    have "List.find (\<lambda>e. set_elems e \<noteq> None) entries = Some e" unfolding e(1) by (rule find_append) (use e(2,3) in auto)
    then show ?thesis using code e(3) nets by auto
  qed
qed

lemma any_element_matches:
  "list_all2 network_element xs nets \<Longrightarrow> list_ex (element_matches addr q) xs \<longleftrightarrow> (addr, q) \<in> set nets"
  by (induction rule: list_all2_induct) (auto simp: element_matches_network)

lemma set_contains_target_exact_aux:
  assumes "parse_json raw = Some j" "nft_lists j ns"
  shows "set_contains_target parse_json raw addr p \<longleftrightarrow> (addr, snd (with_full_prefix (addr, p))) \<in> ns"
  using nft_lists_elements [OF assms(2)] assms(1)
  by (cases p) (auto simp: set_contains_target_def with_full_prefix_def any_element_matches)

text \<open>Verification reads the set listing exactly: whatever the listing holds, hosts, networks and
  timed elements alike, the target is reported present if and only if an element with exactly its
  address and prefix length is listed (a host target meaning the full prefix).  A wider or narrower
  network is never taken for it.\<close>

theorem set_contains_target_exact:
  assumes "parse_json raw = Some j" "nft_lists j ns"
  shows "set_contains_target parse_json raw addr p \<longleftrightarrow> (addr, snd (with_full_prefix (addr, p))) \<in> ns"
  using assms by (rule set_contains_target_exact_aux)

text \<open>Two of the listings the tests captured: a mixed set and one of timed elements.\<close>

definition listing_of :: "json \<Rightarrow> json \<Rightarrow> json" where
  "listing_of meta content = JObj [(''nftables'', JArr [meta, content])]"

definition mixed_listing :: json where
  "mixed_listing = listing_of
     (JObj [(''metainfo'', JObj [(''json_schema_version'', JInt 1), (''release_name'', JStr ''Lester Gooch #5''), (''version'', JStr ''1.0.6'')])])
     (JObj [(''set'', JObj [
       (''elem'', JArr [JObj [(''prefix'', JObj [(''addr'', JStr ''198.51.100.0''), (''len'', JInt 24)])], JStr ''203.0.113.7'']),
       (''family'', JStr ''inet''), (''flags'', JArr [JStr ''interval'']), (''handle'', JInt 1), (''name'', JStr ''s''),
       (''table'', JStr ''t''), (''type'', JStr ''ipv4_addr'')])])"

definition timed_listing :: json where
  "timed_listing = listing_of
     (JObj [(''metainfo'', JObj [(''json_schema_version'', JInt 1), (''version'', JStr ''1.0.6'')])])
     (JObj [(''set'', JObj [
       (''elem'', JArr [JObj [(''elem'', JObj [(''expires'', JInt 3599), (''timeout'', JInt 3600),
           (''val'', JObj [(''prefix'', JObj [(''addr'', JStr ''198.51.100.0''), (''len'', JInt 24)])])])],
         JObj [(''elem'', JObj [(''expires'', JInt 3599), (''timeout'', JInt 3600), (''val'', JStr ''203.0.113.5'')])]]),
       (''family'', JStr ''inet''), (''flags'', JArr [JStr ''interval'', JStr ''timeout'']), (''handle'', JInt 1),
       (''name'', JStr ''blocklist''), (''table'', JStr ''clawforge''), (''type'', JStr ''ipv4_addr'')])])"

lemma captured_addresses:
  "parse_ip ''198.51.100.0'' = Some (V4 0xc6336400)" "parse_ip ''203.0.113.7'' = Some (V4 0xcb007107)"
  "parse_ip ''203.0.113.5'' = Some (V4 0xcb007105)"
  by code_simp+

lemma nft_lists_pair:
  assumes "set_elems m = None" "set_elems e \<noteq> None" "list_all2 network_element (the (set_elems e)) nets" "ns = set nets"
  shows "nft_lists (listing_of m e) ns"
proof -
  have "jget (listing_of m e) ''nftables'' = Some (JArr [m, e])" by (simp add: listing_of_def obj_get_def)
  then show ?thesis unfolding nft_lists_def using assms
    by (intro exI [of _ "[m, e]"] conjI disjI2 exI [of _ "[m]"] exI [of _ e] exI [of _ "[]"] exI [of _ "the (set_elems e)"]
        exI [of _ nets]) simp_all
qed

lemmas reads_element = obj_get_def network_element_def network_value_def captured_addresses full_prefix_def

lemma captured_listings:
  "nft_lists mixed_listing {(V4 0xc6336400, 24), (V4 0xcb007107, 32)}"
  "nft_lists timed_listing {(V4 0xc6336400, 24), (V4 0xcb007105, 32)}"
proof -
  show "nft_lists mixed_listing {(V4 0xc6336400, 24), (V4 0xcb007107, 32)}"
    unfolding mixed_listing_def
    by (rule nft_lists_pair [where nets = "[(V4 0xc6336400, 24), (V4 0xcb007107, 32)]"])
      (simp_all add: set_elems_def reads_element)
  show "nft_lists timed_listing {(V4 0xc6336400, 24), (V4 0xcb007105, 32)}"
    unfolding timed_listing_def
    by (rule nft_lists_pair [where nets = "[(V4 0xc6336400, 24), (V4 0xcb007105, 32)]"])
      (simp_all add: set_elems_def reads_element)
qed

lemma set_contains_target_exact_witness:
  "\<not> set_contains_target (\<lambda>_. Some mixed_listing) ''{}'' (V4 0xc6336400) (Some 25)
   \<and> \<not> set_contains_target (\<lambda>_. Some mixed_listing) ''{}'' (V4 0xc6336400) None
   \<and> set_contains_target (\<lambda>_. Some timed_listing) ''{}'' (V4 0xc6336400) (Some 24)
   \<and> set_contains_target (\<lambda>_. Some timed_listing) ''{}'' (V4 0xcb007105) None"
  using set_contains_target_exact [OF HOL.refl captured_listings(1)] set_contains_target_exact [OF HOL.refl captured_listings(2)]
  by (simp add: with_full_prefix_def full_prefix_def)

subsection \<open>A worked example\<close>

definition example_target :: fw_target where
  "example_target = ThreatIntelIndicator ''203.0.113.7'' ''feed''"

lemma example_parse: "parse_ip_or_cidr ''203.0.113.7'' = Some (V4 0xcb007107, None)"
  by code_simp

lemma example_reference: "show_element (V4 0xcb007107, None) = ''203.0.113.7''"
  by code_simp

lemma example_admitted:
  "validate example_target = Inr ()"
  "target_address example_target = Inr (V4 0xcb007107, None)"
  "element_reference example_target = Inr ''203.0.113.7''"
  "redacted_element_reference example_target = Inr ''203.0.113.7''"
  "set_name example_target = Inr (Some ''blocklist'')"
  "check_never_block (never_block_list_from_configured None) example_target = Inr ()"
proof -
  have "trim ''feed'' = ''feed''" by code_simp
  then show "validate example_target = Inr ()" by (simp add: example_target_def example_parse)
  show a: "target_address example_target = Inr (V4 0xcb007107, None)"
    by (simp add: example_target_def example_parse)
  then show "element_reference example_target = Inr ''203.0.113.7''"
    using example_reference by (simp add: example_target_def element_reference_def)
  then show "redacted_element_reference example_target = Inr ''203.0.113.7''"
    by (simp add: redacted_element_reference_def example_target_def)
  show "set_name example_target = Inr (Some ''blocklist'')"
    by (simp add: set_name_def example_target_def example_parse NFTABLES_BLOCKLIST_SET_V4_def)
  show "check_never_block (never_block_list_from_configured None) example_target = Inr ()"
    by (simp add: never_block_list_from_configured_def builtin_networks check_never_block_def a
        with_full_prefix_def full_prefix_def min_def Let_def mask_eq_exp_minus_1 example_target_def [THEN arg_cong [where f = is_incident_source]])
qed

subsection \<open>The alphabet of an element\<close>

definition addr_char :: "char \<Rightarrow> bool" where
  "addr_char c = (to_digit 16 c \<noteq> None \<or> c = CHR ''.'' \<or> c = CHR '':'' \<or> c = CHR ''/'')"

lemma show_base_addr_char: "2 \<le> b \<Longrightarrow> b \<le> 16 \<Longrightarrow> c \<in> set (show_base b n) \<Longrightarrow> addr_char c"
  using set_show_base [of b n] by (auto simp: addr_char_def)

lemma sep_join_chars:
  "P sep \<Longrightarrow> \<forall>x \<in> set xs. \<forall>c \<in> set x. P c \<Longrightarrow> \<forall>c \<in> set (sep_join sep i xs). P c"
  by (induction xs arbitrary: i) auto

lemma show_ip_addr_char: "\<forall>c \<in> set (show_ip a). addr_char c"
proof -
  have p: "addr_char CHR ''.''" "addr_char CHR '':''" "addr_char CHR ''f''"
    by (simp_all add: addr_char_def to_digit_def ord_of_def)
  have v4: "\<forall>c \<in> set (show_v4 w). addr_char c" for w
    unfolding show_v4_def join_with_sep_join
    by (rule sep_join_chars) (auto simp: p show_nat_def intro: show_base_addr_char [of 10, simplified] show_base_addr_char [of 16, simplified])
  have gs: "\<forall>c \<in> set (show_groups g). addr_char c" for g
    unfolding show_groups_def join_with_sep_join
    by (rule sep_join_chars) (auto simp: p show_hex_def intro: show_base_addr_char [of 10, simplified] show_base_addr_char [of 16, simplified])
  show ?thesis
    by (cases a) (use v4 gs p in \<open>auto simp: show_v6_def Let_def split: option.splits prod.splits\<close>)
qed

lemma show_element_addr_char: "\<forall>c \<in> set (show_element ap). addr_char c"
  using show_ip_addr_char
  by (cases ap rule: show_element.cases)
    (auto simp: show_nat_def addr_char_def [of "CHR ''/''"] intro: show_base_addr_char [of 10, simplified] show_base_addr_char [of 16, simplified])

lemma addr_char_plain: "addr_char c \<Longrightarrow> plain_byte c"
  by (auto simp: addr_char_def plain_byte_def to_digit_def Let_def ord_of_def split: if_splits option.splits)

lemma addr_char_not_special: "addr_char c \<Longrightarrow> c \<noteq> chr 10 \<and> c \<noteq> CHR '';''"
proof
  assume a: "addr_char c"
  then have "ord_of c \<noteq> 10" using addr_char_plain [OF a] by (simp add: plain_byte_def)
  then show "c \<noteq> chr 10" by auto
  have "ord_of c \<noteq> 59"
    using a by (auto simp: addr_char_def to_digit_def Let_def ord_of_def split: if_splits)
  then show "c \<noteq> CHR '';''" by (auto simp: ord_of_def)
qed

lemma show_ip_not_empty [simp]: "show_ip a \<noteq> []"
proof
  assume "show_ip a = []"
  then have "parse_ip [] = Some a" using parse_show_ip [of a] by simp
  moreover have "parse_ip [] = None" by code_simp
  ultimately show False by simp
qed

lemma show_element_not_empty [simp]: "show_element ap \<noteq> []"
  by (cases ap rule: show_element.cases) auto

lemma plain_show_element: "plain (show_element ap)"
  using show_element_addr_char addr_char_plain by (auto simp: plain_def list_all_iff)

end
