(* ===== verification/Fw_Adapter.thy ===== *)
theory Fw_Adapter
  imports Fw_Target
begin

text \<open>
  The \<^verbatim>\<open>FirewallAdapter\<close> trait of \<^verbatim>\<open>firewall-agent/src/lib.rs\<close>: the data its methods exchange, the trait
  object as a record of functions over a world of type \<^typ>\<open>'w\<close> (everything outside the process), and
  its contract, the locale \<open>fw_contract\<close>, which every concrete adapter theory interprets and the
  executor relies on.
\<close>

section \<open>Actions, receipts and results\<close>

record fw_action =
  target :: fw_target
  ttl_seconds :: "32 word"
  reason :: string

record preflight_info =
  already_blocked :: bool
  raw_set_json :: string

record receipt =
  rc_adapter :: string
  rendered_commands :: "string list list"
  rollback_commands :: "string list list"
  is_dry_run :: bool
  rc_ttl_seconds :: "32 word"
  target_fingerprint :: string

record apply_result =
  ar_receipt :: receipt
  observed_state :: "string option"

datatype verification_result = Verified | NotPresent

text \<open>A finished child process: whether it succeeded, its printed status and its output (already
  decoded by \<^verbatim>\<open>from_utf8_lossy\<close>).\<close>

record process_output =
  exit_success :: bool
  exit_status :: string
  stdout :: string
  stderr :: string

type_synonym 'w run_process = "string list \<Rightarrow> ('w, msg, process_output) io"

section \<open>The trait\<close>

record 'w adapter =
  ad_name :: string
  ad_preflight :: "fw_target \<Rightarrow> ('w, adapter_error, preflight_info) io"
  ad_render :: "fw_action \<Rightarrow> adapter_error + receipt"
  ad_rule_scope :: "fw_target \<Rightarrow> string"
  ad_apply :: "fw_action \<Rightarrow> bool \<Rightarrow> ('w, adapter_error, apply_result) io"
  ad_verify :: "fw_target \<Rightarrow> ('w, adapter_error, verification_result) io"
  ad_rollback :: "fw_action \<Rightarrow> ('w, adapter_error, unit) io"

text \<open>What every adapter does first, in the order the code does it.\<close>

definition admitted :: "never_block_list \<Rightarrow> fw_target \<Rightarrow> bool" where
  "admitted never_block t = (validate t = Inr () \<and> check_never_block never_block t = Inr ())"

section \<open>The contract\<close>

locale fw_contract =
  fixes A :: "'w adapter" and never_block :: never_block_list
  assumes render_ok:
      "ad_render A a = Inr r \<Longrightarrow>
       admitted never_block (target a) \<and> \<not> is_resolved (target a) \<and>
       redacted_element_reference (target a) = Inr (target_fingerprint r) \<and>
       is_dry_run r \<and> rc_adapter r = ad_name A \<and> rc_ttl_seconds r = ttl_seconds a"
    and render_admits:
      "admitted never_block (target a) \<Longrightarrow> \<not> is_resolved (target a) \<Longrightarrow> is_ok (ad_render A a)"
    and apply_ok:
      "ad_apply A a dry w = (Inr res, w') \<Longrightarrow>
       admitted never_block (target a) \<and> (\<not> dry \<longrightarrow> \<not> is_incident_source (target a)) \<and>
       redacted_element_reference (target a) = Inr (target_fingerprint (ar_receipt res)) \<and>
       is_dry_run (ar_receipt res) = dry \<and> (observed_state res = None \<longleftrightarrow> dry) \<and>
       rc_adapter (ar_receipt res) = ad_name A \<and> rc_ttl_seconds (ar_receipt res) = ttl_seconds a"
    and apply_dry: "snd (ad_apply A a True w) = w"
    and apply_refused:
      "\<not> admitted never_block (target a) \<or> is_incident_source (target a) \<Longrightarrow> snd (ad_apply A a dry w) = w"
    and preflight_refused:
      "validate t \<noteq> Inr () \<or> is_incident_source t \<Longrightarrow> snd (ad_preflight A t w) = w"
    and preflight_unresolved:
      "validate t = Inr () \<Longrightarrow> is_incident_source t \<Longrightarrow>
       ad_preflight A t w = (Inr \<lparr> already_blocked = False, raw_set_json = '''' \<rparr>, w)"
    and verify_refused:
      "validate t \<noteq> Inr () \<or> is_incident_source t \<Longrightarrow> \<exists>e. ad_verify A t w = (Inl e, w)"
    and rollback_refused:
      "validate (target a) \<noteq> Inr () \<or> is_incident_source (target a) \<Longrightarrow> \<exists>e. ad_rollback A a w = (Inl e, w)"
begin

text \<open>A live apply that succeeds acts on a validated, resolved target outside every excluded network.\<close>

lemma live_apply_target:
  assumes "ad_apply A a False w = (Inr res, w')"
  shows "\<exists>nets ap. never_block = Inr nets \<and> target_address (target a) = Inr ap \<and>
           (well_formed_nets nets \<longrightarrow> (\<forall>(n, p) \<in> set nets. network n p \<inter> target_network (target a) = {}))"
proof -
  have v: "validate (target a) = Inr ()" "\<not> is_incident_source (target a)"
    and c: "check_never_block never_block (target a) = Inr ()"
    using apply_ok [OF assms] by (auto simp: admitted_def)
  obtain nets where n: "never_block = Inr nets" using c by (cases never_block) auto
  obtain ap where "target_address (target a) = Inr ap" using validate_address [OF v] by blast
  moreover have "\<forall>(n, p) \<in> set nets. network n p \<inter> target_network (target a) = {}" if "well_formed_nets nets"
    using check_never_block_sound [OF c [unfolded n] that] by blast
  ultimately show ?thesis using n by blast
qed

text \<open>The fingerprint of a receipt never depends on the address of a resolved source.\<close>

lemma apply_fingerprint_resolved:
  "ad_apply A a dry w = (Inr res, w') \<Longrightarrow> target a = ResolvedIncidentSource ip p \<Longrightarrow>
   target_fingerprint (ar_receipt res) = placeholder p"
  using apply_ok by fastforce

lemma refused_no_effect:
  assumes "\<not> admitted never_block (target a)"
  shows "\<exists>e. ad_apply A a dry w = (Inl e, w)"
proof -
  obtain r w' where ap: "ad_apply A a dry w = (r, w')" by fastforce
  have "w' = w" using apply_refused [of a dry w] ap assms by simp
  moreover have "r \<noteq> Inr x" for x using apply_ok [of a dry w x w'] ap assms by auto
  ultimately show ?thesis using ap by (cases r) auto
qed

lemma live_apply_unresolved:
  assumes "is_incident_source (target a)"
  shows "\<exists>e. ad_apply A a False w = (Inl e, w)"
proof -
  obtain r w' where ap: "ad_apply A a False w = (r, w')" by fastforce
  have "w' = w" using apply_refused [of a False w] ap assms by simp
  moreover have "r \<noteq> Inr x" for x using apply_ok [of a False w x w'] ap assms by auto
  ultimately show ?thesis using ap by (cases r) auto
qed

end

end
