(* ===== verification/Nftables.thy ===== *)
theory Nftables
  imports Fw_Adapter
begin

text \<open>
  \<^verbatim>\<open>NftablesAdapter\<close> of \<^verbatim>\<open>firewall-agent/src/lib.rs\<close>.  Parameters: \<open>run\<close> starts a program with an argument
  vector and waits for it (\<^verbatim>\<open>tokio::process::Command\<close>), \<open>parse_json\<close> is \<^verbatim>\<open>serde_json::from_str\<close>,
  \<open>never_block\<close> the adapter's exclusion list, read at construction.
\<close>

definition preflight_command :: "string \<Rightarrow> string list" where
  "preflight_command s =
     [''nft'', ''-j'', ''list'', ''set'', NFTABLES_FAMILY, NFTABLES_TABLE, s]"

definition add_command :: "string \<Rightarrow> string \<Rightarrow> 32 word \<Rightarrow> string list" where
  "add_command s element ttl =
     [''nft'', ''add'', ''element'', NFTABLES_FAMILY, NFTABLES_TABLE, s, ''{'', element,
      ''timeout'', show_nat (unat ttl) @ ''s'', ''}'']"

definition delete_command :: "string \<Rightarrow> string \<Rightarrow> string list" where
  "delete_command s element =
     [''nft'', ''delete'', ''element'', NFTABLES_FAMILY, NFTABLES_TABLE, s, ''{'', element, ''}'']"

definition nft_delete_reports_already_absent :: "string \<Rightarrow> bool" where
  "nft_delete_reports_already_absent err =
     (let s = to_ascii_lowercase err
      in contains_str ''no such file or directory'' s \<or> contains_str ''does not exist'' s)"

definition nft_exited :: "process_output \<Rightarrow> msg" where
  "nft_exited out = [Lit ''nft exited with '', Lit (exit_status out), Lit '': '', Lit (stderr out)]"

definition nft_rule_scope :: "fw_target \<Rightarrow> string" where
  "nft_rule_scope t =
     (case to_option (set_name t) of
        Some (Some s) \<Rightarrow> s
      | _ \<Rightarrow> NFTABLES_BLOCKLIST_SET_V4)"

definition nft_preflight ::
  "'w run_process \<Rightarrow> (string \<Rightarrow> json option) \<Rightarrow> fw_target \<Rightarrow> ('w, adapter_error, preflight_info) io" where
  "nft_preflight run parse_json t =
     io_bind (io_lift (validate t)) (\<lambda>_.
     io_bind (io_lift (set_name t)) (\<lambda>sn.
     case sn of
       None \<Rightarrow> io_return \<lparr> already_blocked = False, raw_set_json = '''' \<rparr>
     | Some s \<Rightarrow>
         io_bind (io_map_err Preflight (run (preflight_command s))) (\<lambda>output.
         if \<not> exit_success output then io_fail (Preflight (nft_exited output))
         else io_bind (io_lift (target_address t)) (\<lambda>ap.
           io_return \<lparr> already_blocked = set_contains_target parse_json (stdout output) (fst ap) (snd ap),
                       raw_set_json = stdout output \<rparr>))))"

definition render_refusal :: adapter_error where
  "render_refusal = invalid_lit ''a resolved incident source must never be rendered into a receipt''"

definition nft_receipt :: "string \<Rightarrow> string \<Rightarrow> 32 word \<Rightarrow> bool \<Rightarrow> receipt" where
  "nft_receipt s element ttl dry =
     \<lparr> rc_adapter = ''nftables'',
       rendered_commands = [add_command s element ttl],
       rollback_commands = [delete_command s element],
       is_dry_run = dry, rc_ttl_seconds = ttl, target_fingerprint = element \<rparr>"

definition nft_render :: "never_block_list \<Rightarrow> fw_action \<Rightarrow> adapter_error + receipt" where
  "nft_render never_block a =
     (if is_resolved (target a) then Inl render_refusal
      else and_then (validate (target a)) (\<lambda>_.
           and_then (check_never_block never_block (target a)) (\<lambda>_.
           and_then (element_reference (target a)) (\<lambda>element.
           and_then (set_name (target a)) (\<lambda>sn.
           let s = (case sn of Some s \<Rightarrow> s | None \<Rightarrow> NFTABLES_BLOCKLIST_SET_V4)
           in Inr (nft_receipt s element (ttl_seconds a) True))))))"

definition nft_apply ::
  "'w run_process \<Rightarrow> never_block_list \<Rightarrow> fw_action \<Rightarrow> bool \<Rightarrow> ('w, adapter_error, apply_result) io" where
  "nft_apply run never_block a dry =
     io_bind (io_lift (validate (target a))) (\<lambda>_.
     io_bind (io_lift (check_never_block never_block (target a))) (\<lambda>_.
     io_bind (io_lift (element_reference (target a))) (\<lambda>element.
     io_bind (io_lift (redacted_element_reference (target a))) (\<lambda>receipt_element.
     io_bind (io_lift (and_then (set_name (target a)) (ok_or (Apply [Lit
         ''an unresolved IncidentSource cannot be applied - resolve it to a ResolvedIncidentSource first''])))) (\<lambda>s.
     if dry then
       io_return \<lparr> ar_receipt = nft_receipt s receipt_element (ttl_seconds a) True, observed_state = None \<rparr>
     else
       io_bind (io_map_err Apply (run (add_command s element (ttl_seconds a)))) (\<lambda>output.
       if \<not> exit_success output then io_fail (Apply (nft_exited output))
       else
         io_bind (io_map_err Apply (run (preflight_command s))) (\<lambda>listing.
         io_return \<lparr> ar_receipt = nft_receipt s receipt_element (ttl_seconds a) False,
                     observed_state = Some (stdout listing) \<rparr>)))))))"

definition nft_verify ::
  "'w run_process \<Rightarrow> (string \<Rightarrow> json option) \<Rightarrow> fw_target \<Rightarrow> ('w, adapter_error, verification_result) io" where
  "nft_verify run parse_json t =
     io_bind (io_lift (validate t)) (\<lambda>_.
     io_bind (io_lift (and_then (set_name t) (ok_or (Verify [Lit ''target has no resolvable address''])))) (\<lambda>s.
     io_bind (io_map_err Verify (run (preflight_command s))) (\<lambda>output.
     if \<not> exit_success output then io_fail (Verify (nft_exited output))
     else io_bind (io_lift (target_address t)) (\<lambda>ap.
       io_return (if set_contains_target parse_json (stdout output) (fst ap) (snd ap)
                  then Verified else NotPresent)))))"

definition nft_rollback :: "'w run_process \<Rightarrow> fw_action \<Rightarrow> ('w, adapter_error, unit) io" where
  "nft_rollback run a =
     io_bind (io_lift (validate (target a))) (\<lambda>_.
     io_bind (io_lift (element_reference (target a))) (\<lambda>element.
     io_bind (io_lift (and_then (set_name (target a)) (ok_or (Rollback [Lit
         ''an unresolved IncidentSource has nothing to roll back''])))) (\<lambda>s.
     io_bind (io_map_err Rollback (run (delete_command s element))) (\<lambda>output.
     if \<not> exit_success output then
       (if nft_delete_reports_already_absent (stderr output) then io_return ()
        else io_fail (Rollback (nft_exited output)))
     else io_return ()))))"

definition nftables_adapter ::
  "'w run_process \<Rightarrow> (string \<Rightarrow> json option) \<Rightarrow> never_block_list \<Rightarrow> 'w adapter" where
  "nftables_adapter run parse_json never_block =
     \<lparr> ad_name = ''nftables'',
       ad_preflight = nft_preflight run parse_json,
       ad_render = nft_render never_block,
       ad_rule_scope = nft_rule_scope,
       ad_apply = nft_apply run never_block,
       ad_verify = nft_verify run parse_json,
       ad_rollback = nft_rollback run \<rparr>"

section \<open>The contract holds\<close>

lemma check_never_block_incident [simp]: "check_never_block (Inr nets) (IncidentSource p) = Inr ()"
  by (simp add: check_never_block_def)

lemma admitted_cases:
  assumes "admitted nb t"
  obtains (incident) p where "t = IncidentSource p" "set_name t = Inr None" "element_reference t = Inr (placeholder p)"
  | (address) s e where "\<not> is_incident_source t" "set_name t = Inr (Some s)" "element_reference t = Inr e"
proof (cases "is_incident_source t")
  case True
  then obtain p where "t = IncidentSource p" by (cases t) auto
  then show ?thesis using incident by (simp add: set_name_def element_reference_def)
next
  case False
  have v: "validate t = Inr ()" using assms by (simp add: admitted_def)
  obtain ap where "target_address t = Inr ap" using validate_address [OF v False] by blast
  then have "element_reference t = Inr (show_element ap)" using False by (cases t) (simp_all add: element_reference_def)
  moreover obtain s where "set_name t = Inr (Some s)" using validate_set_name [OF v] False by blast
  ultimately show ?thesis using address False by blast
qed

lemma redacted_total: "validate t = Inr () \<Longrightarrow> \<exists>e. redacted_element_reference t = Inr e"
  by (cases t) (auto simp: redacted_element_reference_def element_reference_def and_then_Inr_iff
      dest: validate_address split: if_splits)

lemma redacted_not_resolved: "\<not> is_resolved t \<Longrightarrow> redacted_element_reference t = element_reference t"
  by (cases t) (simp_all add: redacted_element_reference_def)

lemma nft_apply_ok:
  assumes "nft_apply run nb a dry w = (Inr res, w')"
  obtains s e r where "admitted nb (target a)" "\<not> is_incident_source (target a)"
    "set_name (target a) = Inr (Some s)" "element_reference (target a) = Inr e"
    "redacted_element_reference (target a) = Inr r"
    "ar_receipt res = nft_receipt s r (ttl_seconds a) dry"
    "if dry then w' = w \<and> observed_state res = None
     else (\<exists>out u lst. run (add_command s e (ttl_seconds a)) w = (Inr out, u) \<and> exit_success out \<and>
            run (preflight_command s) u = (Inr lst, w') \<and> observed_state res = Some (stdout lst))"
proof -
  have v: "validate (target a) = Inr ()" "check_never_block nb (target a) = Inr ()"
    using assms by (auto simp: nft_apply_def io_bind_lift split: sum.splits)
  then obtain e r s where e: "element_reference (target a) = Inr e"
    and r: "redacted_element_reference (target a) = Inr r" and s: "set_name (target a) = Inr (Some s)"
    using assms by (auto simp: nft_apply_def io_bind_lift and_then_Inr_iff split: sum.splits)
  have ni: "\<not> is_incident_source (target a)" using s by (cases "target a") (auto simp: set_name_def)
  have "ar_receipt res = nft_receipt s r (ttl_seconds a) dry \<and>
    (if dry then w' = w \<and> observed_state res = None
     else (\<exists>out u lst. run (add_command s e (ttl_seconds a)) w = (Inr out, u) \<and> exit_success out \<and>
            run (preflight_command s) u = (Inr lst, w') \<and> observed_state res = Some (stdout lst)))"
    using assms v e r s by (auto simp: nft_apply_def io_bind_Inr_iff split: if_splits)
  then show ?thesis using that [of s e r] v e r s ni by (auto simp: admitted_def)
qed

interpretation nft: fw_contract "nftables_adapter run parse_json never_block" never_block
  for run :: "'w run_process" and parse_json never_block
proof
  fix a :: fw_action and r
  assume "ad_render (nftables_adapter run parse_json never_block) a = Inr r"
  then show "admitted never_block (target a) \<and> \<not> is_resolved (target a) \<and>
       redacted_element_reference (target a) = Inr (target_fingerprint r) \<and> is_dry_run r \<and>
       rc_adapter r = ad_name (nftables_adapter run parse_json never_block) \<and> rc_ttl_seconds r = ttl_seconds a"
    by (auto simp: nftables_adapter_def nft_render_def nft_receipt_def and_then_Inr_iff admitted_def Let_def
        redacted_not_resolved split: if_splits)
next
  fix a :: fw_action
  show "admitted never_block (target a) \<Longrightarrow> \<not> is_resolved (target a) \<Longrightarrow> is_ok (ad_render (nftables_adapter run parse_json never_block) a)"
  proof -
    assume adm: "admitted never_block (target a)" and nr: "\<not> is_resolved (target a)"
    then have "validate (target a) = Inr ()" "check_never_block never_block (target a) = Inr ()"
      by (simp_all add: admitted_def)
    then show ?thesis using adm nr
      by (elim admitted_cases) (simp_all add: nftables_adapter_def nft_render_def)
  qed
next
  fix a :: fw_action and dry w res w'
  assume "ad_apply (nftables_adapter run parse_json never_block) a dry w = (Inr res, w')"
  then show "admitted never_block (target a) \<and> (\<not> dry \<longrightarrow> \<not> is_incident_source (target a)) \<and>
       redacted_element_reference (target a) = Inr (target_fingerprint (ar_receipt res)) \<and>
       is_dry_run (ar_receipt res) = dry \<and> (observed_state res = None \<longleftrightarrow> dry) \<and>
       rc_adapter (ar_receipt res) = ad_name (nftables_adapter run parse_json never_block) \<and>
       rc_ttl_seconds (ar_receipt res) = ttl_seconds a"
    unfolding nftables_adapter_def adapter.simps
    by (elim nft_apply_ok) (auto simp: nft_receipt_def split: if_splits)
next
  fix a :: fw_action and w
  show "snd (ad_apply (nftables_adapter run parse_json never_block) a True w) = w"
    by (simp add: nftables_adapter_def nft_apply_def io_bind_lift split: sum.split)
next
  fix a :: fw_action and dry w
  assume "\<not> admitted never_block (target a) \<or> is_incident_source (target a)"
  then show "snd (ad_apply (nftables_adapter run parse_json never_block) a dry w) = w"
    by (cases "target a") (auto simp: nftables_adapter_def nft_apply_def io_bind_lift admitted_def set_name_def
        split: sum.split)
next
  fix t w
  assume "validate t \<noteq> Inr () \<or> is_incident_source t"
  then show "snd (ad_preflight (nftables_adapter run parse_json never_block) t w) = w"
    by (cases t) (auto simp: nftables_adapter_def nft_preflight_def io_bind_lift set_name_def split: sum.split)
next
  fix t w
  assume "validate t = Inr ()" "is_incident_source t"
  then show "ad_preflight (nftables_adapter run parse_json never_block) t w
      = (Inr \<lparr> already_blocked = False, raw_set_json = '''' \<rparr>, w)"
    by (cases t) (auto simp: nftables_adapter_def nft_preflight_def set_name_def)
next
  fix t w
  assume "validate t \<noteq> Inr () \<or> is_incident_source t"
  then show "\<exists>e. ad_verify (nftables_adapter run parse_json never_block) t w = (Inl e, w)"
    by (cases t) (auto simp: nftables_adapter_def nft_verify_def io_bind_lift set_name_def split: sum.split)
next
  fix a :: fw_action and w
  assume "validate (target a) \<noteq> Inr () \<or> is_incident_source (target a)"
  then show "\<exists>e. ad_rollback (nftables_adapter run parse_json never_block) a w = (Inl e, w)"
    by (cases "target a") (auto simp: nftables_adapter_def nft_rollback_def io_bind_lift set_name_def
        element_reference_def split: sum.split)
qed

section \<open>Live effects\<close>

text \<open>A live nftables apply that reports success ran exactly one mutating command, adding the target's
  normalised element with its lifetime to the set of its address family in Clawforge's own table, then
  listed that set.  The target's network is disjoint from every excluded network, loopback and
  link-local included, and the receipt is marked as a live one.\<close>

theorem nft_live_apply_safe:
  assumes "nft_apply run (never_block_list_from_configured configured) a False w = (Inr res, w')"
  shows "\<exists>nets ap s out u lst.
    never_block_list_from_configured configured = Inr nets \<and>
    target_address (target a) = Inr ap \<and>
    (\<forall>(n, p) \<in> set nets. network n p \<inter> target_network (target a) = {}) \<and>
    s = (if is_ipv4 (fst ap) then ''blocklist'' else ''blocklist6'') \<and>
    run [''nft'', ''add'', ''element'', ''inet'', ''clawforge'', s, ''{'', show_element ap,
         ''timeout'', show_nat (unat (ttl_seconds a)) @ ''s'', ''}''] w = (Inr out, u) \<and>
    exit_success out \<and>
    run [''nft'', ''-j'', ''list'', ''set'', ''inet'', ''clawforge'', s] u = (Inr lst, w') \<and>
    observed_state res = Some (stdout lst) \<and> \<not> is_dry_run (ar_receipt res)"
proof -
  let ?nb = "never_block_list_from_configured configured"
  obtain s e r where o: "admitted ?nb (target a)" "\<not> is_incident_source (target a)"
    "set_name (target a) = Inr (Some s)" "element_reference (target a) = Inr e"
    "ar_receipt res = nft_receipt s r (ttl_seconds a) False"
    and run: "\<exists>out u lst. run (add_command s e (ttl_seconds a)) w = (Inr out, u) \<and> exit_success out \<and>
            run (preflight_command s) u = (Inr lst, w') \<and> observed_state res = Some (stdout lst)"
    using nft_apply_ok [OF assms] by (metis (full_types))
  obtain nets where nets: "?nb = Inr nets" using o(1) by (cases ?nb) (auto simp: admitted_def)
  obtain ap where ap: "target_address (target a) = Inr ap"
    using validate_address [of "target a"] o(1,2) unfolding admitted_def by blast
  have "well_formed_nets nets" using nets by (rule never_block_list_cases)
  then have net: "\<forall>(n, p) \<in> set nets. network n p \<inter> target_network (target a) = {}"
    using o(1) nets check_never_block_sound [of nets "target a"] by (auto simp: admitted_def)
  have e: "e = show_element ap" using o(4) ap by (cases "target a") (auto simp: element_reference_def)
  have "normalize_address (fst ap) = fst ap"
    using ap parse_ip_or_cidr_bounds(1) [of _ "fst ap" "snd ap"] by (auto simp: target_address_Inr)
  then have s: "s = (if is_ipv4 (fst ap) then ''blocklist'' else ''blocklist6'')"
    using o(3) ap by (cases "target a")
      (auto simp: set_name_def NFTABLES_BLOCKLIST_SET_V4_def NFTABLES_BLOCKLIST_SET_V6_def)
  show ?thesis
    using run nets ap net e s o(5)
    by (auto simp: add_command_def preflight_command_def NFTABLES_FAMILY_def NFTABLES_TABLE_def nft_receipt_def)
qed

lemma nft_live_apply_safe_witness:
  "\<exists>out u. (\<lambda>(argv :: string list) (w :: nat).
       (Inr \<lparr> exit_success = True, exit_status = ''0'', stdout = ''{}'', stderr = '''' \<rparr> :: msg + process_output, Suc w))
     [''nft'', ''add'', ''element'', ''inet'', ''clawforge'', ''blocklist'', ''{'', ''203.0.113.7'',
      ''timeout'', ''60s'', ''}''] 0 = (Inr out, u) \<and> exit_success out"
proof -
  let ?out = "\<lparr> exit_success = True, exit_status = ''0'', stdout = ''{}'', stderr = '''' \<rparr>"
  let ?run = "\<lambda>(argv :: string list) (w :: nat). (Inr ?out :: msg + process_output, Suc w)"
  let ?a = "\<lparr> target = example_target, ttl_seconds = 60, reason = '''' \<rparr>"
  have sixty: "show_nat 60 = ''60''" by code_simp
  have ap: "nft_apply ?run (never_block_list_from_configured None) ?a False 0
       = (Inr \<lparr> ar_receipt = nft_receipt ''blocklist'' ''203.0.113.7'' 60 False, observed_state = Some ''{}'' \<rparr>, 2)"
    by (simp add: nft_apply_def example_admitted io_map_err_def io_bind_def)
  show ?thesis
    using nft_live_apply_safe [OF ap] sixty by (auto simp: example_admitted example_reference)
qed

text \<open>The network \<^verbatim>\<open>nft\<close> stores for an element: the address with its host bits cleared.\<close>

definition mask_address :: "ip_addr \<Rightarrow> 8 word \<Rightarrow> ip_addr" where
  "mask_address a p =
     (case a of
        V4 w \<Rightarrow> V4 (w AND push_bit (32 - unat p) (- 1))
      | V6 w \<Rightarrow> V6 (w AND push_bit (128 - unat p) (- 1)))"

text \<open>
  What \<^verbatim>\<open>nft\<close> documents for one element \<open>ap\<close> of the set \<open>s\<close>, with \<open>held\<close> the networks the set holds in a world.
  Any command may fail.  A listing changes nothing, and one that succeeds is a listing of the set; an addition that
  succeeds stores the masked network; a deletion that succeeds removes it; one that fails changes nothing, and says that
  there is no such element only where there is none.  A command that could not be run at all may have done anything.
\<close>

definition nft_documented ::
  "'w run_process \<Rightarrow> (string \<Rightarrow> json option) \<Rightarrow> string \<Rightarrow> ip_addr \<times> 8 word option \<Rightarrow>
   ('w \<Rightarrow> (ip_addr \<times> 8 word) set) \<Rightarrow> bool" where
  "nft_documented run parse_json s ap held \<longleftrightarrow>
     (let n = (mask_address (fst ap) (snd (with_full_prefix ap)), snd (with_full_prefix ap)) in
       (\<forall>w out w'. run (preflight_command s) w = (Inr out, w') \<longrightarrow> held w' = held w \<and>
          (exit_success out \<longrightarrow> (\<exists>j. parse_json (stdout out) = Some j \<and> nft_lists j (held w)))) \<and>
       (\<forall>w ttl out w'. run (add_command s (show_element ap) ttl) w = (Inr out, w') \<longrightarrow>
          held w' = (if exit_success out then insert n (held w) else held w)) \<and>
       (\<forall>w out w'. run (delete_command s (show_element ap)) w = (Inr out, w') \<longrightarrow>
          (if exit_success out then held w' = held w - {n}
           else held w' = held w \<and> (nft_delete_reports_already_absent (stderr out) \<longrightarrow> n \<notin> held w))))"

text \<open>C30 What the adapter reports of a set is what the set holds.  With the documented behaviour of \<^verbatim>\<open>nft\<close>, any of whose
  commands may fail, and for an admitted target: a live apply that succeeds has added the target's network to the set
  and nothing else; a verification that answers changed nothing, and says \<^verbatim>\<open>Verified\<close> exactly where the set holds the
  target's own address and prefix; a rollback that succeeds has removed that network and nothing else, and it succeeds
  exactly if the deletion ran and either succeeded or was told that there is no such element, so that repeating a
  rollback (the kernel's own timeout having expired the element first, say) is no failure.  Without host bits in the
  address its network is the address itself, so a verification after a successful apply that answers says \<^verbatim>\<open>Verified\<close>,
  and one after a successful rollback \<^verbatim>\<open>NotPresent\<close>.\<close>

theorem nft_apply_verify_rollback:
  assumes "admitted never_block (target a)" "target_address (target a) = Inr ap"
    and "set_name (target a) = Inr (Some s)"
    and "nft_documented run parse_json s ap held"
  defines "p \<equiv> snd (with_full_prefix ap)"
  defines "n \<equiv> (mask_address (fst ap) p, p)"
  shows "(\<forall>w res w'. nft_apply run never_block a False w = (Inr res, w') \<longrightarrow> held w' = insert n (held w)) \<and>
    (\<forall>w v w'. nft_verify run parse_json (target a) w = (Inr v, w') \<longrightarrow>
       held w' = held w \<and> v = (if (fst ap, p) \<in> held w then Verified else NotPresent)) \<and>
    (\<forall>w w'. nft_rollback run a w = (Inr (), w') \<longrightarrow> held w' = held w - {n}) \<and>
    (\<forall>w. fst (nft_rollback run a w) = Inr () \<longleftrightarrow>
       (\<exists>out. fst (run (delete_command s (show_element ap)) w) = Inr out \<and>
          (exit_success out \<or> nft_delete_reports_already_absent (stderr out))))"
proof (intro conjI allI impI)
  have v: "validate (target a) = Inr ()" "check_never_block never_block (target a) = Inr ()"
    using assms(1) by (auto simp: admitted_def)
  have e: "element_reference (target a) = Inr (show_element ap)"
    using assms(2) by (cases "target a") (auto simp: element_reference_def)
  have doc: "\<And>w out w'. run (preflight_command s) w = (Inr out, w') \<Longrightarrow> held w' = held w \<and>
          (exit_success out \<longrightarrow> (\<exists>j. parse_json (stdout out) = Some j \<and> nft_lists j (held w)))"
    "\<And>w ttl out w'. run (add_command s (show_element ap) ttl) w = (Inr out, w') \<Longrightarrow>
          held w' = (if exit_success out then insert n (held w) else held w)"
    "\<And>w out w'. run (delete_command s (show_element ap)) w = (Inr out, w') \<Longrightarrow>
          (if exit_success out then held w' = held w - {n}
           else held w' = held w \<and> (nft_delete_reports_already_absent (stderr out) \<longrightarrow> n \<notin> held w))"
    using assms(4) unfolding nft_documented_def Let_def n_def p_def by blast+
  fix w
  {
    fix res w' assume "nft_apply run never_block a False w = (Inr res, w')"
    then obtain s' e' where o: "set_name (target a) = Inr (Some s')" "element_reference (target a) = Inr e'"
      "\<exists>out u lst. run (add_command s' e' (ttl_seconds a)) w = (Inr out, u) \<and> exit_success out \<and> run (preflight_command s') u = (Inr lst, w')"
      by (rule nft_apply_ok) auto
    have "s' = s" "e' = show_element ap" using o(1,2) e assms(3) by simp_all
    then obtain out u lst where
      "run (add_command s (show_element ap) (ttl_seconds a)) w = (Inr out, u)" "exit_success out" "run (preflight_command s) u = (Inr lst, w')"
      using o(3) by blast
    then show "held w' = insert n (held w)" using doc(1,2) by metis
  }
  {
    fix x w' assume "nft_verify run parse_json (target a) w = (Inr x, w')"
    then obtain out where out: "run (preflight_command s) w = (Inr out, w')" "exit_success out"
      "x = (if set_contains_target parse_json (stdout out) (fst ap) (snd ap) then Verified else NotPresent)"
      using v assms(2,3) by (auto simp: nft_verify_def io_bind_Inr_iff split: if_split_asm)
    from doc(1) [OF out(1)] out(2) obtain j where j: "held w' = held w" "parse_json (stdout out) = Some j" "nft_lists j (held w)" by blast
    have "set_contains_target parse_json (stdout out) (fst ap) (snd ap) \<longleftrightarrow> (fst ap, p) \<in> held w"
      using set_contains_target_exact_aux [where parse_json = parse_json, OF j(2,3), of "fst ap" "snd ap"] by (simp add: p_def)
    then show "held w' = held w" "x = (if (fst ap, p) \<in> held w then Verified else NotPresent)" using out(3) j(1) by simp_all
  }
  have roll: "nft_rollback run a w = (case run (delete_command s (show_element ap)) w of
      (Inl m, w') \<Rightarrow> (Inl (Rollback m), w')
    | (Inr out, w') \<Rightarrow> (if exit_success out \<or> nft_delete_reports_already_absent (stderr out) then Inr () else Inl (Rollback (nft_exited out)), w'))"
    using v e assms(3)
    by (simp add: nft_rollback_def io_bind_def io_map_err_def io_lift_def io_return_def io_fail_def split: prod.split sum.split)
  {
    fix w' assume "nft_rollback run a w = (Inr (), w')"
    then obtain out where "run (delete_command s (show_element ap)) w = (Inr out, w')"
      "exit_success out \<or> nft_delete_reports_already_absent (stderr out)"
      unfolding roll by (auto split: prod.split_asm sum.split_asm if_split_asm)
    then show "held w' = held w - {n}" using doc(3) by (metis Diff_empty Diff_insert0)
  }
  show "fst (nft_rollback run a w) = Inr () \<longleftrightarrow> (\<exists>out. fst (run (delete_command s (show_element ap)) w) = Inr out \<and>
          (exit_success out \<or> nft_delete_reports_already_absent (stderr out)))"
    unfolding roll by (auto split: prod.split sum.split)
qed

text \<open>A machine whose \<^verbatim>\<open>blocklist\<close> holds the example address or nothing, for the witness.\<close>

definition one_host_held :: "bool \<Rightarrow> (ip_addr \<times> 8 word) set" where
  "one_host_held w = (if w then {(V4 0xcb007107, 32)} else {})"

definition one_host_nft :: "bool run_process" where
  "one_host_nft argv w =
     (let ok = \<lparr> exit_success = True, exit_status = ''0'', stdout = (if w then ''1'' else ''0''), stderr = '''' \<rparr>
      in if argv ! 1 = ''-j'' then (Inr ok, w)
         else if argv ! 1 = ''add'' then (Inr ok, True)
         else if w then (Inr ok, False)
         else (Inr (ok \<lparr> exit_success := False, stderr := ''Error: No such file or directory'' \<rparr>), False))"

definition one_host_json :: "string \<Rightarrow> json option" where
  "one_host_json s = Some (listing_of (JObj [(''metainfo'', JObj [(''version'', JStr ''1.0.6'')])])
     (JObj [(''set'', JObj ((if s = ''1'' then [(''elem'', JArr [JObj [(''elem'', JObj [(''expires'', JInt 42), (''timeout'', JInt 60),
       (''val'', JStr ''203.0.113.7'')])]])] else []) @ [(''family'', JStr ''inet''), (''name'', JStr ''blocklist'')]))]))"

lemma one_host_lists: "nft_lists (the (one_host_json (if w then ''1'' else ''0''))) (one_host_held w)"
proof (cases w)
  case True
  then show ?thesis
    unfolding one_host_json_def option.sel
    by (intro nft_lists_pair [where nets = "[(V4 0xcb007107, 32)]"])
      (simp_all add: one_host_held_def set_elems_def reads_element)
next
  case False
  then show ?thesis by (simp add: nft_lists_def one_host_json_def listing_of_def one_host_held_def set_elems_def obj_get_def)
qed

lemma one_host_documented:
  "nft_documented one_host_nft one_host_json ''blocklist'' (V4 0xcb007107, None) one_host_held"
proof -
  have mask: "mask_address (V4 0xcb007107) 32 = V4 0xcb007107" by (simp add: mask_address_def)
  have full: "snd (with_full_prefix (V4 0xcb007107, None)) = 32" by (simp add: with_full_prefix_def full_prefix_def)
  have "\<exists>j. one_host_json (stdout out) = Some j \<and> nft_lists j (one_host_held w)"
    if "out = \<lparr> exit_success = True, exit_status = ''0'', stdout = (if w then ''1'' else ''0''), stderr = x \<rparr>" for out w x
    using one_host_lists [of w] that by (simp add: one_host_json_def)
  then have lists: "\<forall>w out w'. one_host_nft (preflight_command ''blocklist'') w = (Inr out, w') \<longrightarrow>
      one_host_held w' = one_host_held w \<and> (exit_success out \<longrightarrow> (\<exists>j. one_host_json (stdout out) = Some j \<and> nft_lists j (one_host_held w)))"
    by (simp add: one_host_nft_def preflight_command_def Let_def)
  have adds: "\<forall>w ttl out w'. one_host_nft (add_command ''blocklist'' (show_element (V4 0xcb007107, None)) ttl) w = (Inr out, w') \<longrightarrow>
      one_host_held w' = (if exit_success out then insert (V4 0xcb007107, 32) (one_host_held w) else one_host_held w)"
    by (auto simp: one_host_nft_def add_command_def one_host_held_def Let_def)
  have deletes: "\<forall>w out w'. one_host_nft (delete_command ''blocklist'' (show_element (V4 0xcb007107, None))) w = (Inr out, w') \<longrightarrow>
      (if exit_success out then one_host_held w' = one_host_held w - {(V4 0xcb007107, 32)}
       else one_host_held w' = one_host_held w \<and>
         (nft_delete_reports_already_absent (stderr out) \<longrightarrow> (V4 0xcb007107, 32) \<notin> one_host_held w))"
    by (simp add: one_host_nft_def delete_command_def one_host_held_def Let_def)
  show ?thesis unfolding nft_documented_def full fst_conv mask Let_def by (intro conjI lists adds deletes)
qed

lemma one_host_verifies: "\<exists>v. nft_verify one_host_nft one_host_json example_target w = (Inr v, w)"
proof -
  have "one_host_nft (preflight_command ''blocklist'') w =
      (Inr \<lparr> exit_success = True, exit_status = ''0'', stdout = (if w then ''1'' else ''0''), stderr = '''' \<rparr>, w)"
    by (simp add: one_host_nft_def preflight_command_def Let_def)
  then show ?thesis
    by (simp add: nft_verify_def io_bind_def io_map_err_def io_lift_def io_return_def example_admitted)
qed

lemma nft_apply_verify_rollback_witness:
  "nft_verify one_host_nft one_host_json example_target True = (Inr Verified, True) \<and>
   nft_verify one_host_nft one_host_json example_target False = (Inr NotPresent, False) \<and>
   fst (nft_rollback one_host_nft \<lparr> target = example_target, ttl_seconds = 60, reason = '''' \<rparr> False) = Inr ()"
proof -
  let ?a = "\<lparr> target = example_target, ttl_seconds = 60, reason = '''' \<rparr>"
  have adm: "admitted (never_block_list_from_configured None) (target ?a)" by (simp add: admitted_def example_admitted)
  have addr: "target_address (target ?a) = Inr (V4 0xcb007107, None)" "set_name (target ?a) = Inr (Some ''blocklist'')"
    by (simp_all add: example_admitted)
  note P = nft_apply_verify_rollback [OF adm addr one_host_documented]
  have ver: "\<And>w v w'. nft_verify one_host_nft one_host_json example_target w = (Inr v, w') \<Longrightarrow>
      v = (if (V4 0xcb007107, 32) \<in> one_host_held w then Verified else NotPresent)"
    using P [THEN conjunct2, THEN conjunct1] by (simp add: with_full_prefix_def full_prefix_def)
  have "nft_verify one_host_nft one_host_json example_target w =
      (Inr (if (V4 0xcb007107, 32) \<in> one_host_held w then Verified else NotPresent), w)" for w
    using one_host_verifies [of w] ver [of w] by (elim exE) simp
  moreover have "\<exists>out. fst (one_host_nft (delete_command ''blocklist'' (show_element (V4 0xcb007107, None))) False) = Inr out \<and>
      (exit_success out \<or> nft_delete_reports_already_absent (stderr out))"
  proof -
    have "nft_delete_reports_already_absent ''Error: No such file or directory''" by code_simp
    then show ?thesis by (simp add: one_host_nft_def delete_command_def Let_def)
  qed
  then have "fst (nft_rollback one_host_nft ?a False) = Inr ()" using P [THEN conjunct2, THEN conjunct2, THEN conjunct2] by blast
  ultimately show ?thesis by (simp add: one_host_held_def)
qed

end
