(* ===== verification/Haproxy.thy ===== *)
theory Haproxy
  imports Nftables
begin

text \<open>
  \<^verbatim>\<open>HaproxyAdapter\<close> (an ACL pattern list) and \<^verbatim>\<open>HaproxyRateLimitAdapter\<close> (a stick table) of
  \<^verbatim>\<open>firewall-agent/src/lib.rs\<close>.  The two \<^verbatim>\<open>impl\<close> blocks run the same code over different Runtime API
  commands; here the code is the \<open>runtime_*\<close> functions over a record of commands, and each adapter is
  its instance.  The parameter \<open>talk\<close> sends bytes over the Unix socket of a path and reads the answer.
\<close>

section \<open>The Runtime API\<close>

type_synonym 'w socket_talk = "string \<Rightarrow> string \<Rightarrow> ('w, msg, string) io"

definition haproxy_run_command :: "'w socket_talk \<Rightarrow> string \<Rightarrow> string \<Rightarrow> ('w, msg, string) io" where
  "haproxy_run_command talk admin_socket command = talk admin_socket (command @ [chr 10])"

record runtime_commands =
  rt_name :: string
  rt_scope :: string
  rt_show :: string
  rt_set :: "string \<Rightarrow> string"
  rt_unset :: "string \<Rightarrow> string"
  rt_holds :: "string \<Rightarrow> string \<Rightarrow> bool"

subsection \<open>The ACL pattern list\<close>

definition haproxy_show_acl_command :: "string \<Rightarrow> string" where
  "haproxy_show_acl_command acl_file = ''show acl '' @ acl_file"

definition haproxy_add_acl_command :: "string \<Rightarrow> string \<Rightarrow> string" where
  "haproxy_add_acl_command acl_file key = ''add acl '' @ acl_file @ '' '' @ key"

definition haproxy_del_acl_command :: "string \<Rightarrow> string \<Rightarrow> string" where
  "haproxy_del_acl_command acl_file key = ''del acl '' @ acl_file @ '' '' @ key"

definition haproxy_acl_contains_key :: "string \<Rightarrow> string \<Rightarrow> bool" where
  "haproxy_acl_contains_key raw_response key =
     list_ex (\<lambda>line. case split_whitespace line of
                _ # pattern # _ \<Rightarrow> pattern = key
              | _ \<Rightarrow> False) (lines raw_response)"

definition haproxy_acl_commands :: "string \<Rightarrow> runtime_commands" where
  "haproxy_acl_commands acl_file =
     \<lparr> rt_name = ''haproxy'', rt_scope = acl_file,
       rt_show = haproxy_show_acl_command acl_file,
       rt_set = haproxy_add_acl_command acl_file,
       rt_unset = haproxy_del_acl_command acl_file,
       rt_holds = haproxy_acl_contains_key \<rparr>"

subsection \<open>The stick table\<close>

definition haproxy_show_table_command :: "string \<Rightarrow> string" where
  "haproxy_show_table_command table = ''show table '' @ table"

definition haproxy_set_table_gpc0_command :: "string \<Rightarrow> string \<Rightarrow> string" where
  "haproxy_set_table_gpc0_command table key = ''set table '' @ table @ '' key '' @ key @ '' data.gpc0 1''"

definition haproxy_reset_table_gpc0_command :: "string \<Rightarrow> string \<Rightarrow> string" where
  "haproxy_reset_table_gpc0_command table key = ''set table '' @ table @ '' key '' @ key @ '' data.gpc0 0''"

text \<open>One field of a line: it updates whether the line is the key's and whether its counter is non-zero.\<close>

definition table_field :: "string \<Rightarrow> string \<Rightarrow> bool \<times> bool \<Rightarrow> bool \<times> bool" where
  "table_field key field st =
     (case strip_prefix ''key='' field of
        Some v \<Rightarrow> (v = key, snd st)
      | None \<Rightarrow>
          (case strip_prefix ''gpc0='' field of
             Some v \<Rightarrow> (fst st, case parse_unsigned (2 ^ 64 - 1) v of None \<Rightarrow> False | Some n \<Rightarrow> 0 < n)
           | None \<Rightarrow> st))"

definition haproxy_table_key_is_flagged :: "string \<Rightarrow> string \<Rightarrow> bool" where
  "haproxy_table_key_is_flagged raw_response key =
     list_ex (\<lambda>line. case fold (table_field key) (split_whitespace line) (False, False) of
                (matches_key, gpc0_is_nonzero) \<Rightarrow> matches_key \<and> gpc0_is_nonzero) (lines raw_response)"

definition haproxy_rate_limit_commands :: "string \<Rightarrow> runtime_commands" where
  "haproxy_rate_limit_commands table =
     \<lparr> rt_name = ''haproxy_ratelimit'', rt_scope = table,
       rt_show = haproxy_show_table_command table,
       rt_set = haproxy_set_table_gpc0_command table,
       rt_unset = haproxy_reset_table_gpc0_command table,
       rt_holds = haproxy_table_key_is_flagged \<rparr>"

section \<open>The adapters\<close>

definition runtime_preflight ::
  "(string \<Rightarrow> ('w, msg, string) io) \<Rightarrow> runtime_commands \<Rightarrow> fw_target \<Rightarrow> ('w, adapter_error, preflight_info) io" where
  "runtime_preflight run_command c t =
     io_bind (io_lift (validate t)) (\<lambda>_.
     if is_incident_source t then io_return \<lparr> already_blocked = False, raw_set_json = '''' \<rparr>
     else
       io_bind (io_lift (element_reference t)) (\<lambda>element.
       io_bind (io_map_err Preflight (run_command (rt_show c))) (\<lambda>response.
       io_return \<lparr> already_blocked = rt_holds c response element, raw_set_json = response \<rparr>)))"

definition runtime_receipt :: "runtime_commands \<Rightarrow> string \<Rightarrow> 32 word \<Rightarrow> bool \<Rightarrow> receipt" where
  "runtime_receipt c element ttl dry =
     \<lparr> rc_adapter = rt_name c,
       rendered_commands = [[rt_set c element]],
       rollback_commands = [[rt_unset c element]],
       is_dry_run = dry, rc_ttl_seconds = ttl, target_fingerprint = element \<rparr>"

definition runtime_render ::
  "runtime_commands \<Rightarrow> never_block_list \<Rightarrow> fw_action \<Rightarrow> adapter_error + receipt" where
  "runtime_render c never_block a =
     (if is_resolved (target a) then Inl render_refusal
      else and_then (validate (target a)) (\<lambda>_.
           and_then (check_never_block never_block (target a)) (\<lambda>_.
           and_then (element_reference (target a)) (\<lambda>element.
           Inr (runtime_receipt c element (ttl_seconds a) True)))))"

definition runtime_rejected :: "string \<Rightarrow> string \<Rightarrow> msg" where
  "runtime_rejected command response =
     [Lit ''haproxy runtime API rejected '', Dbg command, Lit '': '', Lit (trim response)]"

definition runtime_apply ::
  "(string \<Rightarrow> ('w, msg, string) io) \<Rightarrow> runtime_commands \<Rightarrow> never_block_list \<Rightarrow>
   fw_action \<Rightarrow> bool \<Rightarrow> ('w, adapter_error, apply_result) io" where
  "runtime_apply run_command c never_block a dry =
     io_bind (io_lift (validate (target a))) (\<lambda>_.
     io_bind (io_lift (require_resolved_target (target a))) (\<lambda>_.
     io_bind (io_lift (check_never_block never_block (target a))) (\<lambda>_.
     io_bind (io_lift (element_reference (target a))) (\<lambda>element.
     io_bind (io_lift (redacted_element_reference (target a))) (\<lambda>receipt_element.
     if dry then
       io_return \<lparr> ar_receipt = runtime_receipt c receipt_element (ttl_seconds a) True, observed_state = None \<rparr>
     else
       io_bind (io_map_err Apply (run_command (rt_set c element))) (\<lambda>response.
       if trim response \<noteq> [] then io_fail (Apply (runtime_rejected (rt_set c element) response))
       else
         io_bind (io_map_err Apply (run_command (rt_show c))) (\<lambda>listing.
         io_return \<lparr> ar_receipt = runtime_receipt c receipt_element (ttl_seconds a) False,
                     observed_state = Some listing \<rparr>)))))))"

definition runtime_verify ::
  "(string \<Rightarrow> ('w, msg, string) io) \<Rightarrow> runtime_commands \<Rightarrow> fw_target \<Rightarrow> ('w, adapter_error, verification_result) io" where
  "runtime_verify run_command c t =
     io_bind (io_lift (validate t)) (\<lambda>_.
     io_bind (io_lift (require_resolved_target t)) (\<lambda>_.
     io_bind (io_lift (element_reference t)) (\<lambda>element.
     io_bind (io_map_err Verify (run_command (rt_show c))) (\<lambda>response.
     io_return (if rt_holds c response element then Verified else NotPresent)))))"

definition runtime_rollback ::
  "(string \<Rightarrow> ('w, msg, string) io) \<Rightarrow> runtime_commands \<Rightarrow> fw_action \<Rightarrow> ('w, adapter_error, unit) io" where
  "runtime_rollback run_command c a =
     io_bind (io_lift (validate (target a))) (\<lambda>_.
     io_bind (io_lift (require_resolved_target (target a))) (\<lambda>_.
     io_bind (io_lift (element_reference (target a))) (\<lambda>element.
     io_bind (io_map_err Rollback (run_command (rt_unset c element))) (\<lambda>response.
     if trim response \<noteq> [] then io_fail (Rollback (runtime_rejected (rt_unset c element) response))
     else io_return ()))))"

definition runtime_adapter ::
  "(string \<Rightarrow> ('w, msg, string) io) \<Rightarrow> runtime_commands \<Rightarrow> never_block_list \<Rightarrow> 'w adapter" where
  "runtime_adapter run_command c never_block =
     \<lparr> ad_name = rt_name c,
       ad_preflight = runtime_preflight run_command c,
       ad_render = runtime_render c never_block,
       ad_rule_scope = (\<lambda>_. rt_scope c),
       ad_apply = runtime_apply run_command c never_block,
       ad_verify = runtime_verify run_command c,
       ad_rollback = runtime_rollback run_command c \<rparr>"

definition haproxy_adapter ::
  "'w socket_talk \<Rightarrow> string \<Rightarrow> string \<Rightarrow> never_block_list \<Rightarrow> 'w adapter" where
  "haproxy_adapter talk admin_socket acl_file never_block =
     runtime_adapter (haproxy_run_command talk admin_socket) (haproxy_acl_commands acl_file) never_block"

definition haproxy_rate_limit_adapter ::
  "'w socket_talk \<Rightarrow> string \<Rightarrow> string \<Rightarrow> never_block_list \<Rightarrow> 'w adapter" where
  "haproxy_rate_limit_adapter talk admin_socket table never_block =
     runtime_adapter (haproxy_run_command talk admin_socket) (haproxy_rate_limit_commands table) never_block"

section \<open>The contract holds\<close>

lemma admitted_element:
  assumes "admitted nb t"
  shows "\<exists>e r. element_reference t = Inr e \<and> redacted_element_reference t = Inr r"
proof -
  have "\<exists>r. redacted_element_reference t = Inr r" using assms redacted_total by (auto simp: admitted_def)
  moreover have "\<exists>e. element_reference t = Inr e" using assms by (rule admitted_cases) auto
  ultimately show ?thesis by blast
qed

lemma require_resolved_iff: "require_resolved_target t = Inr () \<longleftrightarrow> \<not> is_incident_source t"
  by (simp add: require_resolved_target_def)

lemma runtime_apply_ok:
  assumes "runtime_apply run c nb a dry w = (Inr res, w')"
  obtains e r where "admitted nb (target a)" "\<not> is_incident_source (target a)"
    "element_reference (target a) = Inr e" "redacted_element_reference (target a) = Inr r"
    "ar_receipt res = runtime_receipt c r (ttl_seconds a) dry"
    "if dry then w' = w \<and> observed_state res = None
     else (\<exists>out u lst. run (rt_set c e) w = (Inr out, u) \<and> trim out = [] \<and>
            run (rt_show c) u = (Inr lst, w') \<and> observed_state res = Some lst)"
proof -
  have v: "validate (target a) = Inr ()" "check_never_block nb (target a) = Inr ()"
    and ni: "\<not> is_incident_source (target a)"
    using assms by (auto simp: runtime_apply_def io_bind_lift require_resolved_target_def split: sum.splits if_splits)
  obtain e r where e: "element_reference (target a) = Inr e" and r: "redacted_element_reference (target a) = Inr r"
    using admitted_element [of nb "target a"] v by (auto simp: admitted_def)
  have "ar_receipt res = runtime_receipt c r (ttl_seconds a) dry \<and>
    (if dry then w' = w \<and> observed_state res = None
     else (\<exists>out u lst. run (rt_set c e) w = (Inr out, u) \<and> trim out = [] \<and>
            run (rt_show c) u = (Inr lst, w') \<and> observed_state res = Some lst))"
    using assms v e r ni
    by (auto simp: runtime_apply_def io_bind_Inr_iff require_resolved_target_def split: if_splits)
  then show ?thesis using that [of e r] v e r ni by (auto simp: admitted_def)
qed

interpretation runtime: fw_contract "runtime_adapter run_command c never_block" never_block
  for run_command :: "string \<Rightarrow> ('w, msg, string) io" and c never_block
proof
  let ?A = "runtime_adapter run_command c never_block"
  fix a :: fw_action and r
  assume "ad_render ?A a = Inr r"
  then show "admitted never_block (target a) \<and> \<not> is_resolved (target a) \<and>
       redacted_element_reference (target a) = Inr (target_fingerprint r) \<and> is_dry_run r \<and>
       rc_adapter r = ad_name ?A \<and> rc_ttl_seconds r = ttl_seconds a"
    by (auto simp: runtime_adapter_def runtime_render_def runtime_receipt_def and_then_Inr_iff admitted_def
        redacted_not_resolved split: if_splits)
next
  fix a :: fw_action
  assume adm: "admitted never_block (target a)" and "\<not> is_resolved (target a)"
  moreover have "validate (target a) = Inr ()" "check_never_block never_block (target a) = Inr ()"
    using adm by (simp_all add: admitted_def)
  ultimately show "is_ok (ad_render (runtime_adapter run_command c never_block) a)"
    using admitted_element [OF adm] by (auto simp: runtime_adapter_def runtime_render_def)
next
  let ?A = "runtime_adapter run_command c never_block"
  fix a :: fw_action and dry w res w'
  assume "ad_apply ?A a dry w = (Inr res, w')"
  then show "admitted never_block (target a) \<and> (\<not> dry \<longrightarrow> \<not> is_incident_source (target a)) \<and>
       redacted_element_reference (target a) = Inr (target_fingerprint (ar_receipt res)) \<and>
       is_dry_run (ar_receipt res) = dry \<and> (observed_state res = None \<longleftrightarrow> dry) \<and>
       rc_adapter (ar_receipt res) = ad_name ?A \<and> rc_ttl_seconds (ar_receipt res) = ttl_seconds a"
    unfolding runtime_adapter_def adapter.simps
    by (elim runtime_apply_ok) (auto simp: runtime_receipt_def split: if_splits)
next
  fix a :: fw_action and w
  show "snd (ad_apply (runtime_adapter run_command c never_block) a True w) = w"
    by (simp add: runtime_adapter_def runtime_apply_def io_bind_lift split: sum.split)
next
  fix a :: fw_action and dry w
  assume "\<not> admitted never_block (target a) \<or> is_incident_source (target a)"
  then show "snd (ad_apply (runtime_adapter run_command c never_block) a dry w) = w"
    by (auto simp: runtime_adapter_def runtime_apply_def io_bind_lift admitted_def require_resolved_target_def
        split: sum.split)
next
  fix t w
  assume "validate t \<noteq> Inr () \<or> is_incident_source t"
  then show "snd (ad_preflight (runtime_adapter run_command c never_block) t w) = w"
    by (auto simp: runtime_adapter_def runtime_preflight_def io_bind_lift split: sum.split)
next
  fix t w
  assume "validate t = Inr ()" "is_incident_source t"
  then show "ad_preflight (runtime_adapter run_command c never_block) t w
      = (Inr \<lparr> already_blocked = False, raw_set_json = '''' \<rparr>, w)"
    by (simp add: runtime_adapter_def runtime_preflight_def)
next
  fix t w
  assume "validate t \<noteq> Inr () \<or> is_incident_source t"
  then show "\<exists>e. ad_verify (runtime_adapter run_command c never_block) t w = (Inl e, w)"
    by (auto simp: runtime_adapter_def runtime_verify_def io_bind_lift require_resolved_target_def split: sum.split)
next
  fix a :: fw_action and w
  assume "validate (target a) \<noteq> Inr () \<or> is_incident_source (target a)"
  then show "\<exists>e. ad_rollback (runtime_adapter run_command c never_block) a w = (Inl e, w)"
    by (auto simp: runtime_adapter_def runtime_rollback_def io_bind_lift require_resolved_target_def split: sum.split)
qed

section \<open>Listings are read exactly\<close>

definition acl_listing :: "(string \<times> string) list \<Rightarrow> string" where
  "acl_listing entries = concat (map (\<lambda>(i, k). i @ CHR '' '' # k @ [chr 10]) entries)"

lemma plain_no_newline: "plain s \<Longrightarrow> chr 10 \<notin> set s"
  by (auto simp: plain_def list_all_iff plain_byte_def)

lemma plain_not_cr: "plain s \<Longrightarrow> s \<noteq> [] \<Longrightarrow> last s \<noteq> chr 13"
proof
  assume "plain s" "s \<noteq> []" "last s = chr 13"
  then have "plain_byte (chr 13)" by (metis last_in_set list_all_iff plain_def)
  then show False by (simp add: plain_byte_def)
qed

lemma lines_acl:
  assumes "\<forall>(i, k) \<in> set entries. plain i \<and> i \<noteq> [] \<and> plain k \<and> k \<noteq> []"
  shows "lines (acl_listing entries) = map (\<lambda>(i, k). i @ CHR '' '' # k) entries"
  using assms
proof (induction entries)
  case (Cons e entries)
  obtain i k where e: "e = (i, k)" by fastforce
  have p: "plain i" "plain k" "k \<noteq> []" using Cons.prems e by auto
  have nl: "chr 10 \<noteq> CHR '' ''" by code_simp
  have "lines ((i @ CHR '' '' # k) @ chr 10 # acl_listing entries) = (i @ CHR '' '' # k) # lines (acl_listing entries)"
    using p plain_no_newline plain_not_cr [of k] nl by (intro lines_cons) auto
  then show ?case using Cons e by (simp add: acl_listing_def)
qed (simp add: acl_listing_def)

text \<open>Reading \<^verbatim>\<open>show acl\<close> is exact: in a listing of one entry per line, an identifier and a pattern, a key
  is found if and only if it is the pattern of some entry.  Neither identifiers nor prefixes or
  extensions of a pattern match.\<close>

theorem haproxy_acl_contains_key_exact:
  assumes "\<forall>(i, k) \<in> set entries. plain i \<and> i \<noteq> [] \<and> plain k \<and> k \<noteq> []"
  shows "haproxy_acl_contains_key (acl_listing entries) key \<longleftrightarrow> key \<in> snd ` set entries"
proof -
  have "(case split_whitespace (i @ CHR '' '' # k) of _ # pattern # _ \<Rightarrow> pattern = key | _ \<Rightarrow> False) \<longleftrightarrow> k = key"
    if "(i, k) \<in> set entries" for i k
    using assms that by (fastforce simp: split_whitespace_word split_whitespace_last)
  then show ?thesis
    by (force simp: haproxy_acl_contains_key_def lines_acl [OF assms] list_ex_iff)
qed

lemma haproxy_acl_contains_key_exact_witness:
  "haproxy_acl_contains_key (acl_listing [(''0x1'', ''203.0.113.7''), (''0x2'', ''10.0.0.0/8'')]) ''10.0.0.0/8'' \<and>
   \<not> haproxy_acl_contains_key (acl_listing [(''0x1'', ''203.0.113.7''), (''0x2'', ''10.0.0.0/8'')]) ''203.0.113.70''"
  using haproxy_acl_contains_key_exact [of "[(''0x1'', ''203.0.113.7''), (''0x2'', ''10.0.0.0/8'')]"]
  by (simp add: plain_byte_def ord_of_def)

text \<open>A \<^verbatim>\<open>show table\<close> answer: a comment line, then one line per key with its counters.\<close>

definition table_text :: "string \<Rightarrow> string \<Rightarrow> nat \<Rightarrow> string" where
  "table_text i k n = i @ '' key='' @ k @ '' use=0 exp=0 gpc0='' @ show_nat n"

definition table_line :: "string \<times> string \<times> nat \<Rightarrow> string" where
  "table_line e = (case e of (i, k, n) \<Rightarrow> table_text i k n @ [chr 10])"

definition table_listing :: "string \<Rightarrow> (string \<times> string \<times> nat) list \<Rightarrow> string" where
  "table_listing table entries = ''# table: '' @ table @ [chr 10] @ concat (map table_line entries)"

lemma plain_show_nat: "plain (show_nat n)"
proof -
  have "addr_char c" if "c \<in> set (show_nat n)" for c
    using show_base_addr_char [of 10 c n] that by (simp add: show_nat_def)
  then show ?thesis using addr_char_plain by (auto simp: plain_def list_all_iff)
qed

lemma show_nat_not_empty [simp]: "show_nat n \<noteq> []"
  by (simp add: show_nat_def)

lemma plain_literals [simp]:
  "plain ''key=''" "plain ''use=0''" "plain ''exp=0''" "plain ''gpc0=''" "plain ''#''" "plain ''table:''"
  by (simp_all add: plain_byte_def ord_of_def)

lemma split_word_eq:
  "plain w \<Longrightarrow> w \<noteq> [] \<Longrightarrow> split_whitespace r = ws \<Longrightarrow> split_whitespace (w @ CHR '' '' # r) = w # ws"
  by (simp add: split_whitespace_word)

lemma split_table_text:
  assumes "plain i" "i \<noteq> []" "plain k"
  shows "split_whitespace (table_text i k n)
       = [i, ''key='' @ k, ''use=0'', ''exp=0'', ''gpc0='' @ show_nat n]"
proof -
  have "split_whitespace (i @ CHR '' '' # ((''key='' @ k) @ CHR '' '' # (''use=0'' @ CHR '' '' # (''exp=0'' @ CHR '' '' #
          (''gpc0='' @ show_nat n))))) = [i, ''key='' @ k, ''use=0'', ''exp=0'', ''gpc0='' @ show_nat n]"
    using assms plain_show_nat [of n]
    by (intro split_word_eq split_whitespace_last) (simp_all add: plain_byte_def ord_of_def)
  then show ?thesis by (simp add: table_text_def)
qed

lemma table_text_line:
  assumes "plain i" "plain k"
  shows "chr 10 \<notin> set (table_text i k n)" "table_text i k n \<noteq> []" "last (table_text i k n) \<noteq> chr 13"
proof -
  have nl: "chr 10 \<notin> set '' key=''" "chr 10 \<notin> set '' use=0 exp=0 gpc0=''" by code_simp+
  show "chr 10 \<notin> set (table_text i k n)"
    unfolding table_text_def set_append using nl plain_no_newline assms plain_show_nat by blast
  show "table_text i k n \<noteq> []" by (simp add: table_text_def)
  have "last (table_text i k n) = last (show_nat n)" by (simp add: table_text_def)
  then show "last (table_text i k n) \<noteq> chr 13" using plain_not_cr [OF plain_show_nat, of n] by simp
qed

lemma lines_table:
  assumes "\<forall>(i, k, n) \<in> set entries. plain i \<and> plain k"
  shows "lines (concat (map table_line entries)) = map (\<lambda>(i, k, n). table_text i k n) entries"
  using assms
proof (induction entries)
  case (Cons e entries)
  obtain i k n where e: "e = (i, k, n)" by (cases e)
  have "plain i" "plain k" using Cons.prems e by auto
  then have "lines (table_text i k n @ chr 10 # concat (map table_line entries))
      = table_text i k n # lines (concat (map table_line entries))"
    using table_text_line by (intro lines_cons) auto
  moreover have "table_line e = table_text i k n @ [chr 10]" by (simp add: table_line_def e)
  moreover have "lines (concat (map table_line entries)) = map (\<lambda>(i, k, n). table_text i k n) entries"
    using Cons by simp
  ultimately show ?case by (simp add: e)
qed simp

lemma table_fields:
  assumes "\<not> prefix ''key='' i" "\<not> prefix ''gpc0='' i" "n < 2 ^ 64"
  shows "fold (table_field key) [i, ''key='' @ k, ''use=0'', ''exp=0'', ''gpc0='' @ show_nat n] (False, False)
       = (k = key, 0 < n)"
  using assms parse_unsigned_show_nat [of n "2 ^ 64 - 1"]
  by (simp add: table_field_def strip_prefix_def)

text \<open>Reading \<^verbatim>\<open>show table\<close> is exact: a key is reported as flagged if and only if the table has an entry
  for exactly that key with a counter above zero, wherever the comment line and the other fields stand.\<close>

theorem haproxy_table_key_is_flagged_exact:
  assumes "\<forall>(i, k, n) \<in> set entries. plain i \<and> i \<noteq> [] \<and> plain k \<and> n < 2 ^ 64 \<and>
             \<not> prefix ''key='' i \<and> \<not> prefix ''gpc0='' i"
    and "plain table" "table \<noteq> []" "\<not> prefix ''key='' table" "\<not> prefix ''gpc0='' table"
  shows "haproxy_table_key_is_flagged (table_listing table entries) key
           \<longleftrightarrow> (\<exists>i n. (i, key, n) \<in> set entries \<and> 0 < n)"
proof -
  define hd where "hd = ''# table: '' @ table"
  have nl: "chr 10 \<notin> set ''# table: ''" by code_simp
  have hd1: "chr 10 \<notin> set hd"
    unfolding hd_def set_append using nl plain_no_newline [OF assms(2)] by blast
  have hd2: "hd = [] \<or> last hd \<noteq> chr 13" using plain_not_cr [OF assms(2,3)] assms(3) by (simp add: hd_def)
  have "\<forall>(i, k, n) \<in> set entries. plain i \<and> plain k" using assms(1) by fastforce
  then have l: "lines (table_listing table entries) = hd # map (\<lambda>(i, k, n). table_text i k n) entries"
    using lines_cons [OF hd1 hd2, of "concat (map table_line entries)"] lines_table
    by (simp add: table_listing_def hd_def)
  have "split_whitespace (''#'' @ CHR '' '' # (''table:'' @ CHR '' '' # table)) = [''#'', ''table:'', table]"
    using assms(2,3) by (intro split_word_eq split_whitespace_last) (simp_all add: plain_byte_def ord_of_def)
  then have h: "fold (table_field key) (split_whitespace hd) (False, False) = (False, False)"
    using assms(4,5) by (simp add: table_field_def strip_prefix_def hd_def)
  have e: "fold (table_field key) (split_whitespace (table_text i k n)) (False, False) = (k = key, 0 < n)"
    if "(i, k, n) \<in> set entries" for i k n
  proof -
    have "plain i" "i \<noteq> []" "plain k" "n < 2 ^ 64" "\<not> prefix ''key='' i" "\<not> prefix ''gpc0='' i"
      using assms(1) that by auto
    then show ?thesis using split_table_text [of i k n] table_fields [of i n key k] by simp
  qed
  have "haproxy_table_key_is_flagged (table_listing table entries) key \<longleftrightarrow>
      (\<exists>(i, k, n) \<in> set entries. k = key \<and> 0 < n)"
  proof -
    have "(\<exists>x \<in> set entries. case fold (table_field key) (split_whitespace (case x of (i, k, n) \<Rightarrow> table_text i k n))
              (False, False) of (m, g) \<Rightarrow> m \<and> g) \<longleftrightarrow> (\<exists>(i, k, n) \<in> set entries. k = key \<and> 0 < n)"
      by (rule bex_cong) (auto simp: e)
    then show ?thesis unfolding haproxy_table_key_is_flagged_def l by (simp add: list_ex_iff h)
  qed
  then show ?thesis by auto
qed

lemma haproxy_table_key_is_flagged_exact_witness:
  "haproxy_table_key_is_flagged (table_listing ''t'' [(''0x1:'', ''10.0.0.1'', 1), (''0x2:'', ''10.0.0.2'', 0)]) ''10.0.0.1'' \<and>
   \<not> haproxy_table_key_is_flagged (table_listing ''t'' [(''0x1:'', ''10.0.0.1'', 1), (''0x2:'', ''10.0.0.2'', 0)]) ''10.0.0.2''"
  using haproxy_table_key_is_flagged_exact [of "[(''0x1:'', ''10.0.0.1'', 1), (''0x2:'', ''10.0.0.2'', 0)]" "''t''"]
  by (simp add: plain_byte_def ord_of_def)

section \<open>Live effects\<close>

text \<open>A live HAProxy apply that reports success sent exactly one command line over the admin socket: the
  set command of its adapter for the normalised element, with no line feed and no command separator in
  it, so the target cannot smuggle in a second command; then it listed the list or table.  The target's
  network is disjoint from every excluded network.\<close>

theorem haproxy_live_apply_safe:
  assumes "c = haproxy_acl_commands name \<or> c = haproxy_rate_limit_commands name"
    and "chr 10 \<notin> set name" "CHR '';'' \<notin> set name"
    and "runtime_apply (haproxy_run_command talk sock) c (never_block_list_from_configured configured) a False w
           = (Inr res, w')"
  shows "\<exists>nets ap out u lst.
    never_block_list_from_configured configured = Inr nets \<and> target_address (target a) = Inr ap \<and>
    (\<forall>(n, p) \<in> set nets. network n p \<inter> target_network (target a) = {}) \<and>
    chr 10 \<notin> set (rt_set c (show_element ap)) \<and> CHR '';'' \<notin> set (rt_set c (show_element ap)) \<and>
    talk sock (rt_set c (show_element ap) @ [chr 10]) w = (Inr out, u) \<and> trim out = [] \<and>
    talk sock (rt_show c @ [chr 10]) u = (Inr lst, w') \<and> observed_state res = Some lst"
proof -
  let ?nb = "never_block_list_from_configured configured"
  from runtime_apply_ok [OF assms(4)] obtain e where o: "admitted ?nb (target a)" "\<not> is_incident_source (target a)"
    "element_reference (target a) = Inr e"
    and run: "\<exists>out u lst. haproxy_run_command talk sock (rt_set c e) w = (Inr out, u) \<and> trim out = [] \<and>
            haproxy_run_command talk sock (rt_show c) u = (Inr lst, w') \<and> observed_state res = Some lst"
    by (metis (full_types))
  obtain nets where nets: "?nb = Inr nets" using o(1) by (cases ?nb) (auto simp: admitted_def)
  obtain ap where ap: "target_address (target a) = Inr ap"
    using validate_address [of "target a"] o(1,2) unfolding admitted_def by blast
  have "well_formed_nets nets" using nets by (rule never_block_list_cases)
  then have net: "\<forall>(n, p) \<in> set nets. network n p \<inter> target_network (target a) = {}"
    using o(1) nets check_never_block_sound [of nets "target a"] by (auto simp: admitted_def)
  have e: "e = show_element ap" using o(3) ap by (cases "target a") (auto simp: element_reference_def)
  have el: "chr 10 \<notin> set (show_element ap)" "CHR '';'' \<notin> set (show_element ap)"
    using show_element_addr_char [of ap] addr_char_not_special by blast+
  have lit: "\<forall>x \<in> {chr 10, CHR '';''}. x \<notin> set ''add acl '' \<and> x \<notin> set '' '' \<and> x \<notin> set ''set table '' \<and>
      x \<notin> set '' key '' \<and> x \<notin> set '' data.gpc0 1''" by code_simp
  have one: "\<forall>x \<in> {chr 10, CHR '';''}. x \<notin> set (rt_set c (show_element ap))"
    using assms(1)
  proof
    assume "c = haproxy_acl_commands name"
    then have "rt_set c (show_element ap) = ''add acl '' @ name @ '' '' @ show_element ap"
      by (simp add: haproxy_acl_commands_def haproxy_add_acl_command_def)
    then show ?thesis using el lit assms(2,3) by (simp only: set_append) blast
  next
    assume "c = haproxy_rate_limit_commands name"
    then have "rt_set c (show_element ap) = ''set table '' @ name @ '' key '' @ show_element ap @ '' data.gpc0 1''"
      by (simp add: haproxy_rate_limit_commands_def haproxy_set_table_gpc0_command_def)
    then show ?thesis using el lit assms(2,3) by (simp only: set_append) blast
  qed
  show ?thesis
    using run nets ap net one unfolding e haproxy_run_command_def by blast
qed

lemma example_resolved: "require_resolved_target example_target = Inr ()"
  by (simp add: require_resolved_target_def example_target_def)

lemma haproxy_live_apply_safe_witness:
  "CHR '';'' \<notin> set (rt_set (haproxy_acl_commands ''/etc/haproxy/b.map'') ''203.0.113.7'')"
proof -
  let ?talk = "\<lambda>(p :: string) (cmd :: string) (w :: nat). (Inr [] :: msg + string, Suc w)"
  let ?c = "haproxy_acl_commands ''/etc/haproxy/b.map''"
  let ?a = "\<lparr> target = example_target, ttl_seconds = 60, reason = '''' \<rparr>"
  have t: "trim [] = []" by code_simp
  have n: "chr 10 \<notin> set ''/etc/haproxy/b.map''" "CHR '';'' \<notin> set ''/etc/haproxy/b.map''" by code_simp+
  have "runtime_apply (haproxy_run_command ?talk ''/s'') ?c (never_block_list_from_configured None) ?a False 0
      = (Inr \<lparr> ar_receipt = runtime_receipt ?c ''203.0.113.7'' 60 False, observed_state = Some [] \<rparr>, 2)"
    by (simp add: runtime_apply_def example_admitted example_resolved io_bind_def io_map_err_def
        haproxy_run_command_def t)
  from haproxy_live_apply_safe [OF disjI1 [OF refl] n this] show ?thesis
    by (auto simp: example_admitted example_reference [simplified])
qed

text \<open>What the Runtime API documents for one key: listing changes nothing and shows whether the key is
  there, a successful change answers with nothing.\<close>

definition runtime_documented ::
  "(string \<Rightarrow> ('w, msg, string) io) \<Rightarrow> runtime_commands \<Rightarrow> string \<Rightarrow> ('w \<Rightarrow> bool) \<Rightarrow> bool" where
  "runtime_documented run c key held \<longleftrightarrow>
     (\<forall>w. \<exists>resp. run (rt_show c) w = (Inr resp, w) \<and> (rt_holds c resp key \<longleftrightarrow> held w)) \<and>
     (\<forall>w. \<exists>resp w'. run (rt_set c key) w = (Inr resp, w') \<and> trim resp = [] \<and> held w') \<and>
     (\<forall>w. held w \<longrightarrow> (\<exists>resp w'. run (rt_unset c key) w = (Inr resp, w') \<and> trim resp = [] \<and> \<not> held w'))"

text \<open>With the documented behaviour of the Runtime API, both HAProxy adapters keep the contract's round
  trip for any admitted target with an address, CIDRs with host bits included: apply, verified,
  rollback, verified absent; and the preflight before and after agrees with what verification says.\<close>

theorem haproxy_apply_verify_rollback:
  assumes "admitted never_block (target a)" "element_reference (target a) = Inr key"
    and "\<not> is_incident_source (target a)" "runtime_documented run c key held"
  shows "\<exists>res w1 w2 p1 p2. runtime_apply run c never_block a False w = (Inr res, w1) \<and>
    runtime_verify run c (target a) w1 = (Inr Verified, w1) \<and>
    runtime_preflight run c (target a) w1 = (Inr p1, w1) \<and> already_blocked p1 \<and>
    runtime_rollback run c a w1 = (Inr (), w2) \<and>
    runtime_verify run c (target a) w2 = (Inr NotPresent, w2) \<and>
    runtime_preflight run c (target a) w2 = (Inr p2, w2) \<and> \<not> already_blocked p2"
proof -
  have v: "validate (target a) = Inr ()" "check_never_block never_block (target a) = Inr ()"
    using assms(1) by (auto simp: admitted_def)
  obtain r where r: "redacted_element_reference (target a) = Inr r" using redacted_total [OF v(1)] by blast
  have req: "require_resolved_target (target a) = Inr ()" using assms(3) by (simp add: require_resolved_iff)
  have show_ok: "\<exists>resp. run (rt_show c) u = (Inr resp, u) \<and> (rt_holds c resp key \<longleftrightarrow> held u)" for u
    using assms(4) by (simp add: runtime_documented_def)
  obtain o1 w1 where w1: "run (rt_set c key) w = (Inr o1, w1)" "trim o1 = []" "held w1"
    using assms(4) unfolding runtime_documented_def by blast
  obtain o2 w2 where w2: "run (rt_unset c key) w1 = (Inr o2, w2)" "trim o2 = []" "\<not> held w2"
    using assms(4) w1(3) unfolding runtime_documented_def by blast
  have ver: "runtime_verify run c (target a) u = (Inr (if held u then Verified else NotPresent), u)" for u
    using show_ok [of u] v req assms(2) by (auto simp: runtime_verify_def io_bind_def io_map_err_def io_lift_def)
  have pre: "\<exists>p. runtime_preflight run c (target a) u = (Inr p, u) \<and> already_blocked p = held u" for u
    using show_ok [of u] v assms(2,3) by (auto simp: runtime_preflight_def io_bind_def io_map_err_def io_lift_def)
  obtain l where l: "run (rt_show c) w1 = (Inr l, w1)" using show_ok by blast
  have "runtime_apply run c never_block a False w
      = (Inr \<lparr> ar_receipt = runtime_receipt c r (ttl_seconds a) False, observed_state = Some l \<rparr>, w1)"
    using v req assms(2) r w1 l by (simp add: runtime_apply_def io_bind_def io_map_err_def io_lift_def)
  moreover have "runtime_rollback run c a w1 = (Inr (), w2)"
    using v req assms(2) w2 by (simp add: runtime_rollback_def io_bind_def io_map_err_def io_lift_def)
  ultimately show ?thesis using ver [of w1] ver [of w2] pre [of w1] pre [of w2] w1(3) w2(3) by auto
qed

lemma haproxy_apply_verify_rollback_witness:
  "\<exists>w1. runtime_verify (\<lambda>cmd w. if prefix ''show'' cmd then (Inr (if w then acl_listing [(''0x1'', ''203.0.113.7'')] else []), w)
                         else (Inr [], prefix ''add'' cmd))
      (haproxy_acl_commands ''f'') example_target w1 = (Inr Verified, w1)"
proof -
  let ?run = "\<lambda>cmd w. if prefix ''show'' cmd then (Inr (if w then acl_listing [(''0x1'', ''203.0.113.7'')] else []) :: msg + string, w)
                         else (Inr [], prefix ''add'' cmd)"
  let ?c = "haproxy_acl_commands ''f''"
  have h: "haproxy_acl_contains_key (acl_listing [(''0x1'', ''203.0.113.7'')]) ''203.0.113.7''"
    "\<not> haproxy_acl_contains_key [] ''203.0.113.7''" by code_simp+
  have t: "trim [] = []" by code_simp
  have d: "runtime_documented ?run ?c ''203.0.113.7'' id"
    using h t by (simp add: runtime_documented_def haproxy_acl_commands_def haproxy_show_acl_command_def
        haproxy_add_acl_command_def haproxy_del_acl_command_def ex_bool_eq)
  have a: "admitted (never_block_list_from_configured None) example_target"
    by (simp add: admitted_def example_admitted)
  have "\<not> is_incident_source example_target" by (simp add: example_target_def)
  then show ?thesis
    using haproxy_apply_verify_rollback [of "never_block_list_from_configured None"
      "\<lparr> target = example_target, ttl_seconds = 60, reason = '''' \<rparr>" "''203.0.113.7''" ?run ?c id False] d a
    by (auto simp: example_admitted)
qed

end
