(* ===== verification/Goaway.thy ===== *)
theory Goaway
  imports Haproxy
begin

text \<open>
  \<^verbatim>\<open>GoAwayAdapter\<close> of \<^verbatim>\<open>firewall-agent/src/lib.rs\<close>: the adapter that manages one YAML snippet and has
  go-away reload it.  Parameters: the file system operations it uses (\<open>fs\<close>), starting the reload
  command (\<open>run\<close>), reading and printing YAML (\<open>serde_yaml\<close>) and printing a JSON list (\<open>serde_json\<close>).
\<close>

section \<open>The snippet\<close>

definition GOAWAY_MANAGED_NETWORK_NAME :: string where
  "GOAWAY_MANAGED_NETWORK_NAME = ''clawforge_challenge''"

record goaway_network =
  net_prefixes :: "string list"

record goaway_policy =
  networks :: "(string \<times> goaway_network list) list"

definition goaway_fresh :: goaway_policy where
  "goaway_fresh = \<lparr> networks = [(GOAWAY_MANAGED_NETWORK_NAME, [])] \<rparr>"

definition goaway_prefixes :: "goaway_policy \<Rightarrow> string list" where
  "goaway_prefixes p =
     (case map_of (networks p) GOAWAY_MANAGED_NETWORK_NAME of
        Some (n # _) \<Rightarrow> net_prefixes n
      | _ \<Rightarrow> [])"

text \<open>A change through \<^verbatim>\<open>prefixes_mut()\<close>: the managed network and its first source are created when
  missing, then the prefixes are changed in place.\<close>

definition goaway_update_prefixes :: "(string list \<Rightarrow> string list) \<Rightarrow> goaway_policy \<Rightarrow> goaway_policy" where
  "goaway_update_prefixes f p =
     (let sources = (case map_of (networks p) GOAWAY_MANAGED_NETWORK_NAME of None \<Rightarrow> [] | Some ss \<Rightarrow> ss);
          sources = (if sources = [] then [\<lparr> net_prefixes = [] \<rparr>] else sources);
          n = hd sources
      in p \<lparr> networks := obj_insert GOAWAY_MANAGED_NETWORK_NAME
               (n \<lparr> net_prefixes := f (net_prefixes n) \<rparr> # tl sources) (networks p) \<rparr>)"

definition goaway_clear_empty_source :: "goaway_policy \<Rightarrow> goaway_policy" where
  "goaway_clear_empty_source p =
     (if goaway_prefixes p = []
      then p \<lparr> networks := obj_insert GOAWAY_MANAGED_NETWORK_NAME [] (networks p) \<rparr> else p)"

definition goaway_validate :: "goaway_policy \<Rightarrow> msg + unit" where
  "goaway_validate p =
     (if length (networks p) \<noteq> 1
      then Inl [Lit ''go-away managed snippet must contain only the Clawforge network'']
      else case map_of (networks p) GOAWAY_MANAGED_NETWORK_NAME of
             None \<Rightarrow> Inl [Lit ''go-away managed snippet is missing the Clawforge network'']
           | Some sources \<Rightarrow>
               if length sources > 1 \<or> (case sources of n # _ \<Rightarrow> net_prefixes n = [] | [] \<Rightarrow> False)
               then Inl [Lit ''go-away managed network has an unsupported source layout'']
               else Inr ())"

section \<open>The file\<close>

datatype read_outcome = Content string | Not_Found | Read_Failed msg

record 'w fs_ops =
  fs_read :: "string \<Rightarrow> 'w \<Rightarrow> read_outcome \<times> 'w"
  fs_create_dir_all :: "string \<Rightarrow> ('w, msg, unit) io"
  fs_create_new :: "string \<Rightarrow> ('w, msg, unit) io"
  fs_write_all :: "string \<Rightarrow> string \<Rightarrow> ('w, msg, unit) io"
  fs_sync_all :: "string \<Rightarrow> ('w, msg, unit) io"
  fs_metadata :: "string \<Rightarrow> ('w, msg, nat) io"
  fs_set_permissions :: "string \<Rightarrow> nat \<Rightarrow> ('w, msg, unit) io"
  fs_rename :: "string \<Rightarrow> string \<Rightarrow> ('w, msg, unit) io"
  fs_remove :: "string \<Rightarrow> ('w, msg, unit) io"
  fs_next_id :: "'w \<Rightarrow> nat \<times> 'w"

record goaway_config =
  policy_file :: string
  reload_command :: "string list"
  process_id :: nat

definition goaway_read_policy ::
  "'w fs_ops \<Rightarrow> (string \<Rightarrow> msg + goaway_policy) \<Rightarrow> goaway_config \<Rightarrow> ('w, msg, goaway_policy) io" where
  "goaway_read_policy fs from_yaml cfg w =
     (case fs_read fs (policy_file cfg) w of
        (Content raw, w') \<Rightarrow>
          (and_then (map_err (\<lambda>e. Lit ''parsing '' # Lit (policy_file cfg) # Lit '': '' # e) (from_yaml raw)) (\<lambda>p.
           and_then (goaway_validate p) (\<lambda>_. Inr p)), w')
      | (Not_Found, w') \<Rightarrow> (Inr goaway_fresh, w')
      | (Read_Failed e, w') \<Rightarrow> (Inl (Lit ''reading '' # Lit (policy_file cfg) # Lit '': '' # e), w'))"

text \<open>\<^verbatim>\<open>Path::parent\<close> and \<^verbatim>\<open>Path::file_name\<close> of a path without a trailing slash.\<close>

definition path_parent :: "string \<Rightarrow> string" where
  "path_parent p = rev (drop 1 (dropWhile (\<lambda>c. c \<noteq> CHR ''/'') (rev p)))"

definition path_file_name :: "string \<Rightarrow> string" where
  "path_file_name p = rev (takeWhile (\<lambda>c. c \<noteq> CHR ''/'') (rev p))"

definition with_file_name :: "string \<Rightarrow> string \<Rightarrow> string" where
  "with_file_name p name =
     (if CHR ''/'' \<in> set p then path_parent p @ ''/'' @ name else name)"

definition goaway_temporary :: "goaway_config \<Rightarrow> nat \<Rightarrow> string" where
  "goaway_temporary cfg i =
     with_file_name (policy_file cfg)
       (''.'' @ path_file_name (policy_file cfg) @ ''.'' @ show_nat (process_id cfg) @ ''.'' @ show_nat i @ ''.tmp'')"

definition goaway_replace_file :: "'w fs_ops \<Rightarrow> string \<Rightarrow> string \<Rightarrow> string \<Rightarrow> ('w, msg, unit) io" where
  "goaway_replace_file fs temporary path rendered =
     io_bind (fs_create_new fs temporary) (\<lambda>_.
     io_bind (fs_write_all fs temporary rendered) (\<lambda>_.
     io_bind (fs_sync_all fs temporary) (\<lambda>_.
     io_bind (io_case (fs_metadata fs path) (\<lambda>_. io_return ()) (\<lambda>perms. fs_set_permissions fs temporary perms)) (\<lambda>_.
     fs_rename fs temporary path))))"

definition goaway_write_policy ::
  "'w fs_ops \<Rightarrow> (goaway_policy \<Rightarrow> msg + string) \<Rightarrow> goaway_config \<Rightarrow> goaway_policy \<Rightarrow> ('w, msg, unit) io" where
  "goaway_write_policy fs to_yaml cfg p =
     io_bind (io_lift (goaway_validate p)) (\<lambda>_.
     io_bind (io_lift (map_err (\<lambda>e. Lit ''serializing '' # Lit (policy_file cfg) # Lit '': '' # e) (to_yaml p))) (\<lambda>rendered.
     io_bind (io_map_err (\<lambda>e. Lit ''creating '' # Lit (path_parent (policy_file cfg)) # Lit '': '' # e)
               (fs_create_dir_all fs (path_parent (policy_file cfg)))) (\<lambda>_ w.
     let (i, w1) = fs_next_id fs w; temporary = goaway_temporary cfg i
     in case goaway_replace_file fs temporary (policy_file cfg) rendered w1 of
          (Inr u, w2) \<Rightarrow> (Inr u, w2)
        | (Inl e, w2) \<Rightarrow>
            (Inl (Lit ''writing '' # Lit (policy_file cfg) # Lit '': '' # e), snd (fs_remove fs temporary w2)))))"

definition goaway_reload :: "'w run_process \<Rightarrow> goaway_config \<Rightarrow> ('w, msg, unit) io" where
  "goaway_reload run cfg =
     (if reload_command cfg = []
      then io_fail [Lit ''CLAWFORGE_GOAWAY_RELOAD_COMMAND must not be empty'']
      else
        io_bind (io_map_err (\<lambda>e. Lit ''running '' # Lit (join_with '' '' (reload_command cfg)) # Lit '': '' # e)
                  (run (reload_command cfg))) (\<lambda>output.
        if \<not> exit_success output
        then io_fail [Lit (join_with '' '' (reload_command cfg)), Lit '' failed: '', Lit (stderr output)]
        else io_return ()))"

section \<open>The adapter\<close>

definition goaway_rendered_commands :: "string \<Rightarrow> string \<Rightarrow> string list \<Rightarrow> string list list" where
  "goaway_rendered_commands file element reload =
     [[''yaml-prefix-add'', file, GOAWAY_MANAGED_NETWORK_NAME, element], reload]"

definition goaway_rollback_commands :: "string \<Rightarrow> string \<Rightarrow> string list \<Rightarrow> string list list" where
  "goaway_rollback_commands file element reload =
     [[''yaml-prefix-remove'', file, GOAWAY_MANAGED_NETWORK_NAME, element], reload]"

definition goaway_receipt :: "goaway_config \<Rightarrow> string \<Rightarrow> 32 word \<Rightarrow> bool \<Rightarrow> receipt" where
  "goaway_receipt cfg element ttl dry =
     \<lparr> rc_adapter = ''goaway'',
       rendered_commands = goaway_rendered_commands (policy_file cfg) element (reload_command cfg),
       rollback_commands = goaway_rollback_commands (policy_file cfg) element (reload_command cfg),
       is_dry_run = dry, rc_ttl_seconds = ttl, target_fingerprint = element \<rparr>"

definition goaway_preflight ::
  "'w fs_ops \<Rightarrow> (string \<Rightarrow> msg + goaway_policy) \<Rightarrow> (string list \<Rightarrow> msg + string) \<Rightarrow> goaway_config \<Rightarrow>
   fw_target \<Rightarrow> ('w, adapter_error, preflight_info) io" where
  "goaway_preflight fs from_yaml json_text cfg t =
     io_bind (io_lift (validate t)) (\<lambda>_.
     if is_incident_source t then io_return \<lparr> already_blocked = False, raw_set_json = '''' \<rparr>
     else
       io_bind (io_lift (element_reference t)) (\<lambda>element.
       io_bind (io_map_err Preflight (goaway_read_policy fs from_yaml cfg)) (\<lambda>policy.
       io_bind (io_lift (map_err Preflight (json_text (goaway_prefixes policy)))) (\<lambda>raw.
       io_return \<lparr> already_blocked = element \<in> set (goaway_prefixes policy), raw_set_json = raw \<rparr>))))"

definition goaway_render :: "goaway_config \<Rightarrow> never_block_list \<Rightarrow> fw_action \<Rightarrow> adapter_error + receipt" where
  "goaway_render cfg never_block a =
     (if is_resolved (target a) then Inl render_refusal
      else and_then (validate (target a)) (\<lambda>_.
           and_then (check_never_block never_block (target a)) (\<lambda>_.
           and_then (element_reference (target a)) (\<lambda>element.
           Inr (goaway_receipt cfg element (ttl_seconds a) True)))))"

text \<open>After a write, reload; when that fails put the previous snippet back.\<close>

definition goaway_reload_or_restore ::
  "'w fs_ops \<Rightarrow> (goaway_policy \<Rightarrow> msg + string) \<Rightarrow> 'w run_process \<Rightarrow> goaway_config \<Rightarrow>
   (msg \<Rightarrow> adapter_error) \<Rightarrow> goaway_policy \<Rightarrow> ('w, adapter_error, unit) io" where
  "goaway_reload_or_restore fs to_yaml run cfg wrap original =
     io_case (goaway_reload run cfg)
       (\<lambda>e. io_bind (io_map_err (\<lambda>restore. wrap (Lit ''reload failed: '' # e @ Lit ''; restoring snippet failed: '' # restore))
                     (goaway_write_policy fs to_yaml cfg original)) (\<lambda>_.
            io_fail (wrap (Lit ''reload failed; previous snippet restored: '' # e))))
       (\<lambda>_. io_return ())"

definition goaway_apply ::
  "'w fs_ops \<Rightarrow> (string \<Rightarrow> msg + goaway_policy) \<Rightarrow> (goaway_policy \<Rightarrow> msg + string) \<Rightarrow> (string list \<Rightarrow> msg + string) \<Rightarrow>
   'w run_process \<Rightarrow> goaway_config \<Rightarrow> never_block_list \<Rightarrow> fw_action \<Rightarrow> bool \<Rightarrow> ('w, adapter_error, apply_result) io" where
  "goaway_apply fs from_yaml to_yaml json_text run cfg never_block a dry =
     io_bind (io_lift (validate (target a))) (\<lambda>_.
     if dry \<and> is_incident_source (target a) then
       io_bind (io_lift (goaway_render cfg never_block a)) (\<lambda>r.
       io_return \<lparr> ar_receipt = r, observed_state = None \<rparr>)
     else
       io_bind (io_lift (require_resolved_target (target a))) (\<lambda>_.
       io_bind (io_lift (check_never_block never_block (target a))) (\<lambda>_.
       io_bind (io_lift (element_reference (target a))) (\<lambda>element.
       io_bind (io_lift (redacted_element_reference (target a))) (\<lambda>receipt_element.
       if dry then
         io_return \<lparr> ar_receipt = goaway_receipt cfg receipt_element (ttl_seconds a) True, observed_state = None \<rparr>
       else
         io_bind (io_map_err Apply (goaway_read_policy fs from_yaml cfg)) (\<lambda>original.
         let policy = goaway_update_prefixes (\<lambda>ps. if element \<in> set ps then ps else ps @ [element]) original in
         io_bind (io_map_err Apply (goaway_write_policy fs to_yaml cfg policy)) (\<lambda>_.
         io_bind (goaway_reload_or_restore fs to_yaml run cfg Apply original) (\<lambda>_.
         io_bind (io_lift (map_err Apply (json_text (goaway_prefixes policy)))) (\<lambda>state.
         io_return \<lparr> ar_receipt = goaway_receipt cfg receipt_element (ttl_seconds a) False,
                     observed_state = Some state \<rparr>)))))))))"

definition goaway_verify ::
  "'w fs_ops \<Rightarrow> (string \<Rightarrow> msg + goaway_policy) \<Rightarrow> goaway_config \<Rightarrow> fw_target \<Rightarrow>
   ('w, adapter_error, verification_result) io" where
  "goaway_verify fs from_yaml cfg t =
     io_bind (io_lift (validate t)) (\<lambda>_.
     io_bind (io_lift (require_resolved_target t)) (\<lambda>_.
     io_bind (io_lift (element_reference t)) (\<lambda>element.
     io_bind (io_map_err Verify (goaway_read_policy fs from_yaml cfg)) (\<lambda>policy.
     io_return (if element \<in> set (goaway_prefixes policy) then Verified else NotPresent)))))"

definition goaway_rollback ::
  "'w fs_ops \<Rightarrow> (string \<Rightarrow> msg + goaway_policy) \<Rightarrow> (goaway_policy \<Rightarrow> msg + string) \<Rightarrow> 'w run_process \<Rightarrow>
   goaway_config \<Rightarrow> fw_action \<Rightarrow> ('w, adapter_error, unit) io" where
  "goaway_rollback fs from_yaml to_yaml run cfg a =
     io_bind (io_lift (validate (target a))) (\<lambda>_.
     io_bind (io_lift (require_resolved_target (target a))) (\<lambda>_.
     io_bind (io_lift (element_reference (target a))) (\<lambda>element.
     io_bind (io_map_err Rollback (goaway_read_policy fs from_yaml cfg)) (\<lambda>original.
     let policy = goaway_update_prefixes (filter (\<lambda>prefix. prefix \<noteq> element)) original in
     if length (goaway_prefixes policy) = length (goaway_prefixes original) then
       io_map_err Rollback (goaway_reload run cfg)
     else
       io_bind (io_map_err Rollback (goaway_write_policy fs to_yaml cfg (goaway_clear_empty_source policy))) (\<lambda>_.
       goaway_reload_or_restore fs to_yaml run cfg Rollback original)))))"

definition goaway_adapter ::
  "'w fs_ops \<Rightarrow> (string \<Rightarrow> msg + goaway_policy) \<Rightarrow> (goaway_policy \<Rightarrow> msg + string) \<Rightarrow> (string list \<Rightarrow> msg + string) \<Rightarrow>
   'w run_process \<Rightarrow> goaway_config \<Rightarrow> never_block_list \<Rightarrow> 'w adapter" where
  "goaway_adapter fs from_yaml to_yaml json_text run cfg never_block =
     \<lparr> ad_name = ''goaway'',
       ad_preflight = goaway_preflight fs from_yaml json_text cfg,
       ad_render = goaway_render cfg never_block,
       ad_rule_scope = (\<lambda>_. ''goaway''),
       ad_apply = goaway_apply fs from_yaml to_yaml json_text run cfg never_block,
       ad_verify = goaway_verify fs from_yaml cfg,
       ad_rollback = goaway_rollback fs from_yaml to_yaml run cfg \<rparr>"

section \<open>The contract holds\<close>

lemma goaway_apply_ok:
  assumes "goaway_apply fs fy ty js run cfg nb a dry w = (Inr res, w')"
  shows "admitted nb (target a) \<and> (\<not> dry \<longrightarrow> \<not> is_incident_source (target a)) \<and>
     (\<exists>r. redacted_element_reference (target a) = Inr r \<and>
          ar_receipt res = goaway_receipt cfg r (ttl_seconds a) dry) \<and>
     (observed_state res = None \<longleftrightarrow> dry)"
proof (cases "dry \<and> is_incident_source (target a)")
  case True
  then show ?thesis using assms
    by (auto simp: goaway_apply_def goaway_render_def io_bind_Inr_iff admitted_def and_then_Inr_iff
        redacted_not_resolved split: if_splits)
next
  case False
  then show ?thesis using assms
    by (auto simp: goaway_apply_def io_bind_Inr_iff admitted_def require_resolved_target_def Let_def
        split: if_splits)
qed

interpretation goaway: fw_contract "goaway_adapter fs from_yaml to_yaml json_text run cfg never_block" never_block
  for fs :: "'w fs_ops" and from_yaml to_yaml json_text run cfg never_block
proof
  let ?A = "goaway_adapter fs from_yaml to_yaml json_text run cfg never_block"
  fix a :: fw_action and r
  assume "ad_render ?A a = Inr r"
  then show "admitted never_block (target a) \<and> \<not> is_resolved (target a) \<and>
       redacted_element_reference (target a) = Inr (target_fingerprint r) \<and> is_dry_run r \<and>
       rc_adapter r = ad_name ?A \<and> rc_ttl_seconds r = ttl_seconds a"
    by (auto simp: goaway_adapter_def goaway_render_def goaway_receipt_def and_then_Inr_iff admitted_def
        redacted_not_resolved split: if_splits)
next
  fix a :: fw_action
  assume adm: "admitted never_block (target a)" and "\<not> is_resolved (target a)"
  moreover have "validate (target a) = Inr ()" "check_never_block never_block (target a) = Inr ()"
    using adm by (simp_all add: admitted_def)
  ultimately show "is_ok (ad_render (goaway_adapter fs from_yaml to_yaml json_text run cfg never_block) a)"
    using admitted_element [OF adm] by (auto simp: goaway_adapter_def goaway_render_def)
next
  let ?A = "goaway_adapter fs from_yaml to_yaml json_text run cfg never_block"
  fix a :: fw_action and dry w res w'
  assume "ad_apply ?A a dry w = (Inr res, w')"
  then show "admitted never_block (target a) \<and> (\<not> dry \<longrightarrow> \<not> is_incident_source (target a)) \<and>
       redacted_element_reference (target a) = Inr (target_fingerprint (ar_receipt res)) \<and>
       is_dry_run (ar_receipt res) = dry \<and> (observed_state res = None \<longleftrightarrow> dry) \<and>
       rc_adapter (ar_receipt res) = ad_name ?A \<and> rc_ttl_seconds (ar_receipt res) = ttl_seconds a"
    by (auto simp: goaway_adapter_def goaway_receipt_def dest!: goaway_apply_ok)
next
  fix a :: fw_action and w
  show "snd (ad_apply (goaway_adapter fs from_yaml to_yaml json_text run cfg never_block) a True w) = w"
    by (simp add: goaway_adapter_def goaway_apply_def io_bind_lift split: sum.split)
next
  fix a :: fw_action and dry w
  assume "\<not> admitted never_block (target a) \<or> is_incident_source (target a)"
  then show "snd (ad_apply (goaway_adapter fs from_yaml to_yaml json_text run cfg never_block) a dry w) = w"
    by (auto simp: goaway_adapter_def goaway_apply_def io_bind_lift admitted_def require_resolved_target_def
        split: sum.split)
next
  fix t w
  assume "validate t \<noteq> Inr () \<or> is_incident_source t"
  then show "snd (ad_preflight (goaway_adapter fs from_yaml to_yaml json_text run cfg never_block) t w) = w"
    by (auto simp: goaway_adapter_def goaway_preflight_def io_bind_lift split: sum.split)
next
  fix t w
  assume "validate t = Inr ()" "is_incident_source t"
  then show "ad_preflight (goaway_adapter fs from_yaml to_yaml json_text run cfg never_block) t w
      = (Inr \<lparr> already_blocked = False, raw_set_json = '''' \<rparr>, w)"
    by (simp add: goaway_adapter_def goaway_preflight_def)
next
  fix t w
  assume "validate t \<noteq> Inr () \<or> is_incident_source t"
  then show "\<exists>e. ad_verify (goaway_adapter fs from_yaml to_yaml json_text run cfg never_block) t w = (Inl e, w)"
    by (auto simp: goaway_adapter_def goaway_verify_def io_bind_lift require_resolved_target_def split: sum.split)
next
  fix a :: fw_action and w
  assume "validate (target a) \<noteq> Inr () \<or> is_incident_source (target a)"
  then show "\<exists>e. ad_rollback (goaway_adapter fs from_yaml to_yaml json_text run cfg never_block) a w = (Inl e, w)"
    by (auto simp: goaway_adapter_def goaway_rollback_def io_bind_lift require_resolved_target_def split: sum.split)
qed

section \<open>The snippet file\<close>

text \<open>What the operating system documents, \<open>file\<close> reading a file off the world.\<close>

definition fs_documented :: "'w fs_ops \<Rightarrow> ('w \<Rightarrow> string \<Rightarrow> string option) \<Rightarrow> bool" where
  "fs_documented fs file \<longleftrightarrow>
     (\<forall>p w. file (snd (fs_read fs p w)) = file w \<and>
        (case fst (fs_read fs p w) of
           Content s \<Rightarrow> file w p = Some s | Not_Found \<Rightarrow> file w p = None | Read_Failed _ \<Rightarrow> True)) \<and>
     (\<forall>p w. file (snd (fs_create_dir_all fs p w)) = file w) \<and>
     (\<forall>p w. case fs_create_new fs p w of
        (Inr _, w') \<Rightarrow> file w p = None \<and> file w' = (file w)(p \<mapsto> '''') | (Inl _, w') \<Rightarrow> file w' = file w) \<and>
     (\<forall>p d w. case fs_write_all fs p d w of
        (Inr _, w') \<Rightarrow> file w' = (file w)(p \<mapsto> d) | (Inl _, w') \<Rightarrow> \<exists>c. file w' = (file w)(p := c)) \<and>
     (\<forall>p w. file (snd (fs_sync_all fs p w)) = file w) \<and>
     (\<forall>p w. file (snd (fs_metadata fs p w)) = file w) \<and>
     (\<forall>p m w. file (snd (fs_set_permissions fs p m w)) = file w) \<and>
     (\<forall>p q w. case fs_rename fs p q w of
        (Inr _, w') \<Rightarrow> file w' = (file w)(q := file w p, p := None) | (Inl _, w') \<Rightarrow> file w' = file w) \<and>
     (\<forall>p w. case fs_remove fs p w of
        (Inr _, w') \<Rightarrow> file w' = (file w)(p := None) | (Inl _, w') \<Rightarrow> file w' = file w) \<and>
     (\<forall>w. file (snd (fs_next_id fs w)) = file w)"

lemma path_split: "CHR ''/'' \<in> set p \<Longrightarrow> p = path_parent p @ ''/'' @ path_file_name p"
proof -
  assume "CHR ''/'' \<in> set p"
  then have ne: "dropWhile (\<lambda>c. c \<noteq> CHR ''/'') (rev p) \<noteq> []" by (simp add: dropWhile_eq_Nil_conv)
  then obtain d ds where d: "dropWhile (\<lambda>c. c \<noteq> CHR ''/'') (rev p) = d # ds" by (cases "dropWhile (\<lambda>c. c \<noteq> CHR ''/'') (rev p)") auto
  then have "d = CHR ''/''" using hd_dropWhile [OF ne] by simp
  then have "rev p = takeWhile (\<lambda>c. c \<noteq> CHR ''/'') (rev p) @ CHR ''/'' # ds"
    using takeWhile_dropWhile_id [of "\<lambda>c. c \<noteq> CHR ''/''" "rev p"] d by simp
  then have "p = rev ds @ CHR ''/'' # rev (takeWhile (\<lambda>c. c \<noteq> CHR ''/'') (rev p))"
    by (metis append.assoc append_Cons append_Nil rev.simps(2) rev_append rev_swap)
  then show ?thesis using d by (simp add: path_parent_def path_file_name_def)
qed

lemma temporary_differs [simp]: "goaway_temporary cfg i \<noteq> policy_file cfg"
proof
  assume eq: "goaway_temporary cfg i = policy_file cfg"
  let ?p = "policy_file cfg"
  let ?n = "''.'' @ path_file_name ?p @ ''.'' @ show_nat (process_id cfg) @ ''.'' @ show_nat i @ ''.tmp''"
  have "?n = path_file_name ?p"
  proof (cases "CHR ''/'' \<in> set ?p")
    case True
    then have "path_parent ?p @ ''/'' @ ?n = path_parent ?p @ ''/'' @ path_file_name ?p"
      using eq path_split [OF True] by (simp add: goaway_temporary_def with_file_name_def)
    then show ?thesis by simp
  next
    case False
    then have "takeWhile (\<lambda>c. c \<noteq> CHR ''/'') (rev ?p) = rev ?p" by (simp add: takeWhile_eq_all_conv) blast
    then have "path_file_name ?p = ?p" unfolding path_file_name_def by (metis rev_rev_ident)
    then show ?thesis using eq False by (simp add: goaway_temporary_def with_file_name_def)
  qed
  from arg_cong [OF this, of length] show False by simp
qed

lemma fs_laws:
  assumes "fs_documented fs file"
  shows "fs_create_new fs p w = (Inr u, w') \<Longrightarrow> file w' = (file w)(p \<mapsto> '''')"
    and "fs_create_new fs p w = (Inl e, w') \<Longrightarrow> file w' = file w"
    and "fs_write_all fs p d w = (Inr u, w') \<Longrightarrow> file w' = (file w)(p \<mapsto> d)"
    and "fs_write_all fs p d w = (Inl e, w') \<Longrightarrow> \<exists>c. file w' = (file w)(p := c)"
    and "fs_rename fs p q w = (Inr u, w') \<Longrightarrow> file w' = (file w)(q := file w p, p := None)"
    and "fs_rename fs p q w = (Inl e, w') \<Longrightarrow> file w' = file w"
    and "fs_remove fs p w = (r, w') \<Longrightarrow> file w' = file w \<or> file w' = (file w)(p := None)"
    and "fs_sync_all fs p w = (r, w') \<Longrightarrow> file w' = file w"
    and "fs_metadata fs p w = (r2, w') \<Longrightarrow> file w' = file w"
    and "fs_set_permissions fs p m w = (r, w') \<Longrightarrow> file w' = file w"
    and "fs_create_dir_all fs p w = (r, w') \<Longrightarrow> file w' = file w"
    and "fs_next_id fs w = (i, w') \<Longrightarrow> file w' = file w"
    and "fs_read fs p w = (o1, w') \<Longrightarrow> file w' = file w"
    and "fs_read fs p w = (Content s, w') \<Longrightarrow> file w p = Some s"
    and "fs_read fs p w = (Not_Found, w') \<Longrightarrow> file w p = None"
proof -
  note L0 = assms [unfolded fs_documented_def]
  note L1 = L0 [THEN conjunct2]
  note L2 = L1 [THEN conjunct2]
  note L3 = L2 [THEN conjunct2]
  note L4 = L3 [THEN conjunct2]
  note L5 = L4 [THEN conjunct2]
  note L6 = L5 [THEN conjunct2]
  note L7 = L6 [THEN conjunct2]
  note L8 = L7 [THEN conjunct2]
  note L9 = L8 [THEN conjunct2]
  have rd: "file (snd (fs_read fs p w)) = file w \<and>
      (case fst (fs_read fs p w) of
           Content s \<Rightarrow> file w p = Some s | Not_Found \<Rightarrow> file w p = None | Read_Failed _ \<Rightarrow> True)"
    by (rule L0 [THEN conjunct1, THEN spec, THEN spec])
  have c: "case fs_create_new fs p w of
        (Inr _, w') \<Rightarrow> file w p = None \<and> file w' = (file w)(p \<mapsto> '''') | (Inl _, w') \<Rightarrow> file w' = file w"
    by (rule L2 [THEN conjunct1, THEN spec, THEN spec])
  have wr: "case fs_write_all fs p d w of
        (Inr _, w') \<Rightarrow> file w' = (file w)(p \<mapsto> d) | (Inl _, w') \<Rightarrow> \<exists>c. file w' = (file w)(p := c)"
    by (rule L3 [THEN conjunct1, THEN spec, THEN spec, THEN spec])
  have rn: "case fs_rename fs p q w of
        (Inr _, w') \<Rightarrow> file w' = (file w)(q := file w p, p := None) | (Inl _, w') \<Rightarrow> file w' = file w"
    by (rule L7 [THEN conjunct1, THEN spec, THEN spec, THEN spec])
  have rm: "case fs_remove fs p w of
        (Inr _, w') \<Rightarrow> file w' = (file w)(p := None) | (Inl _, w') \<Rightarrow> file w' = file w"
    by (rule L8 [THEN conjunct1, THEN spec, THEN spec])
  have id: "file (snd (fs_sync_all fs p w)) = file w" "file (snd (fs_metadata fs p w)) = file w"
      "file (snd (fs_set_permissions fs p m w)) = file w" "file (snd (fs_create_dir_all fs p w)) = file w"
      "file (snd (fs_next_id fs w)) = file w"
    by (rule L4 [THEN conjunct1, THEN spec, THEN spec], rule L5 [THEN conjunct1, THEN spec, THEN spec], rule L6 [THEN conjunct1, THEN spec, THEN spec, THEN spec], rule L1 [THEN conjunct1, THEN spec, THEN spec], rule L9 [THEN spec])
  show "fs_create_new fs p w = (Inr u, w') \<Longrightarrow> file w' = (file w)(p \<mapsto> '''')"
    "fs_create_new fs p w = (Inl e, w') \<Longrightarrow> file w' = file w" using c by simp_all
  show "fs_write_all fs p d w = (Inr u, w') \<Longrightarrow> file w' = (file w)(p \<mapsto> d)"
    "fs_write_all fs p d w = (Inl e, w') \<Longrightarrow> \<exists>c. file w' = (file w)(p := c)" using wr by simp_all
  show "fs_rename fs p q w = (Inr u, w') \<Longrightarrow> file w' = (file w)(q := file w p, p := None)"
    "fs_rename fs p q w = (Inl e, w') \<Longrightarrow> file w' = file w" using rn by simp_all
  show "fs_remove fs p w = (r, w') \<Longrightarrow> file w' = file w \<or> file w' = (file w)(p := None)"
    using rm by (cases r) simp_all
  show "fs_sync_all fs p w = (r, w') \<Longrightarrow> file w' = file w" "fs_metadata fs p w = (r2, w') \<Longrightarrow> file w' = file w"
    "fs_set_permissions fs p m w = (r, w') \<Longrightarrow> file w' = file w"
    "fs_create_dir_all fs p w = (r, w') \<Longrightarrow> file w' = file w" "fs_next_id fs w = (i, w') \<Longrightarrow> file w' = file w"
    "fs_read fs p w = (o1, w') \<Longrightarrow> file w' = file w"
    using id rd by simp_all
  show "fs_read fs p w = (Content s, w') \<Longrightarrow> file w p = Some s"
    "fs_read fs p w = (Not_Found, w') \<Longrightarrow> file w p = None" using rd by simp_all
qed

lemma replace_file_effect:
  assumes fs: "fs_documented fs file" and t: "t \<noteq> path" and r: "goaway_replace_file fs t path d w = (r, w')"
  shows "(case r of Inl _ \<Rightarrow> file w' path = file w path | Inr _ \<Rightarrow> file w' path = Some d) \<and>
         (\<forall>q. q \<noteq> path \<and> q \<noteq> t \<longrightarrow> file w' q = file w q)"
  using r t
  by (auto simp: goaway_replace_file_def io_bind_def io_case_def io_return_def split: prod.splits sum.splits
      dest!: fs_laws [OF fs])

lemma goaway_write_atomic_aux:
  assumes "fs_documented fs file" "goaway_write_policy fs to_yaml cfg p w = (r, w')"
  shows "(case r of
            Inl _ \<Rightarrow> file w' (policy_file cfg) = file w (policy_file cfg)
          | Inr _ \<Rightarrow> goaway_validate p = Inr () \<and>
              (\<exists>doc. to_yaml p = Inr doc \<and> file w' (policy_file cfg) = Some doc)) \<and>
         (\<forall>q. q \<noteq> policy_file cfg \<and> (\<forall>i. q \<noteq> goaway_temporary cfg i) \<longrightarrow> file w' q = file w q)"
proof (cases "goaway_validate p = Inr () \<and> (\<exists>doc. to_yaml p = Inr doc)")
  case False
  then have "is_ok r = False \<and> w' = w"
    using assms(2) by (auto simp: goaway_write_policy_def io_bind_lift is_ok_def split: sum.splits)
  then show ?thesis by (auto simp: is_ok_def split: sum.splits)
next
  case True
  then obtain doc where v: "goaway_validate p = Inr ()" "to_yaml p = Inr doc" by blast
  obtain r0 w0 where c: "fs_create_dir_all fs (path_parent (policy_file cfg)) w = (r0, w0)" by fastforce
  have f0: "file w0 = file w" by (rule fs_laws(11) [OF assms(1) c])
  obtain i w1 where n: "fs_next_id fs w0 = (i, w1)" by fastforce
  have f1: "file w1 = file w" using fs_laws(12) [OF assms(1) n] f0 by simp
  obtain r2 w2 where rep: "goaway_replace_file fs (goaway_temporary cfg i) (policy_file cfg) doc w1 = (r2, w2)"
    by fastforce
  note eff = replace_file_effect [OF assms(1) temporary_differs rep]
  obtain r3 w3 where rm: "fs_remove fs (goaway_temporary cfg i) w2 = (r3, w3)" by fastforce
  note f3 = fs_laws(7) [OF assms(1) rm]
  have "(r0 = Inl e \<longrightarrow> w' = w0 \<and> \<not> is_ok r) \<and>
        (r0 = Inr u \<longrightarrow> (case r2 of Inr x \<Rightarrow> r = Inr x \<and> w' = w2 | Inl e \<Rightarrow> \<not> is_ok r \<and> w' = w3))" for e u
    using assms(2) v c n rep rm
    by (auto simp: goaway_write_policy_def io_bind_def io_lift_def io_map_err_def Let_def split: sum.splits)
  then show ?thesis
    using f0 f1 eff f3 v temporary_differs [of cfg i, symmetric]
    by (cases r0; cases r2; cases r) (auto simp: is_ok_def)
qed

text \<open>The snippet is replaced atomically.  Whatever fails on the way, and also when a write stops half
  way, the managed file holds either its previous content, and the write reports an error, or the whole
  new document, and the write reports success, for a policy that passed validation; no file other than
  it and the temporary one changes.\<close>

theorem goaway_write_atomic:
  assumes "fs_documented fs file" "goaway_write_policy fs to_yaml cfg p w = (r, w')"
  shows "(case r of
            Inl _ \<Rightarrow> file w' (policy_file cfg) = file w (policy_file cfg)
          | Inr _ \<Rightarrow> goaway_validate p = Inr () \<and>
              (\<exists>doc. to_yaml p = Inr doc \<and> file w' (policy_file cfg) = Some doc)) \<and>
         (\<forall>q. q \<noteq> policy_file cfg \<and> (\<forall>i. q \<noteq> goaway_temporary cfg i) \<longrightarrow> file w' q = file w q)"
  using assms by (rule goaway_write_atomic_aux)

text \<open>A file system in memory on which everything succeeds, for the witnesses.\<close>

definition mem_fs :: "(string \<Rightarrow> string option) fs_ops" where
  "mem_fs =
     \<lparr> fs_read = (\<lambda>p w. (case w p of Some s \<Rightarrow> Content s | None \<Rightarrow> Not_Found, w)),
       fs_create_dir_all = (\<lambda>p w. (Inr (), w)),
       fs_create_new = (\<lambda>p w. if w p = None then (Inr (), w(p \<mapsto> '''')) else (Inl [Lit ''exists''], w)),
       fs_write_all = (\<lambda>p d w. (Inr (), w(p \<mapsto> d))),
       fs_sync_all = (\<lambda>p w. (Inr (), w)),
       fs_metadata = (\<lambda>p w. (Inr 420, w)),
       fs_set_permissions = (\<lambda>p m w. (Inr (), w)),
       fs_rename = (\<lambda>p q w. (Inr (), w(q := w p, p := None))),
       fs_remove = (\<lambda>p w. (Inr (), w(p := None))),
       fs_next_id = (\<lambda>w. (0, w)) \<rparr>"

lemma mem_fs_documented: "fs_documented mem_fs id"
  by (auto simp: fs_documented_def mem_fs_def split: option.split)

definition example_config :: goaway_config where
  "example_config = \<lparr> policy_file = ''snippet.yml'', reload_command = [''reload''], process_id = 7 \<rparr>"

lemma goaway_write_atomic_witness:
  "snd (goaway_write_policy mem_fs (\<lambda>_. Inr ''doc'') example_config goaway_fresh Map.empty) ''snippet.yml'' = Some ''doc''"
proof -
  let ?o = "goaway_write_policy mem_fs (\<lambda>_. Inr ''doc'') example_config goaway_fresh Map.empty"
  have ok: "fst ?o = Inr ()"
    by (simp add: goaway_write_policy_def goaway_validate_def goaway_fresh_def io_bind_def io_lift_def io_map_err_def
        io_case_def goaway_replace_file_def mem_fs_def Let_def)
  then have o: "?o = (Inr (), snd ?o)" by (metis prod.collapse)
  have f: "policy_file example_config = ''snippet.yml''" by (simp add: example_config_def)
  show ?thesis
    using goaway_write_atomic [OF mem_fs_documented o] unfolding f by simp
qed

section \<open>Live effects\<close>

lemma fresh_valid [simp]: "goaway_validate goaway_fresh = Inr ()"
  by (simp add: goaway_validate_def goaway_fresh_def)

lemma goaway_read_unchanged:
  assumes "fs_documented fs file" "goaway_read_policy fs fy cfg w = (r, w')"
  shows "file w' = file w"
proof -
  obtain o1 w1 where r: "fs_read fs (policy_file cfg) w = (o1, w1)" by fastforce
  have "file w1 = file w" by (rule fs_laws(13) [OF assms(1) r])
  moreover have "w' = w1" using assms(2) r by (auto simp: goaway_read_policy_def split: read_outcome.splits)
  ultimately show ?thesis by simp
qed

text \<open>What the file holds for the policy \<open>p\<close>, a missing file standing for the fresh policy.\<close>

definition holds_policy ::
  "(string \<Rightarrow> msg + goaway_policy) \<Rightarrow> goaway_policy \<Rightarrow> string option \<Rightarrow> bool" where
  "holds_policy fy p content =
     (goaway_validate p = Inr () \<and>
      (case content of None \<Rightarrow> p = goaway_fresh | Some doc \<Rightarrow> fy doc = Inr p))"

lemma goaway_read_holds:
  assumes "fs_documented fs file" "goaway_read_policy fs fy cfg w = (Inr p, w')"
  shows "holds_policy fy p (file w (policy_file cfg))"
  using assms(2) fs_laws(14,15) [OF assms(1), of "policy_file cfg" w]
  by (auto simp: goaway_read_policy_def holds_policy_def and_then_Inr_iff split: read_outcome.splits prod.splits)

lemma goaway_write_ok_holds:
  assumes "fs_documented fs file" "\<And>p doc. ty p = Inr doc \<Longrightarrow> fy doc = Inr p"
    and "goaway_write_policy fs ty cfg p w = (Inr u, w')"
  shows "holds_policy fy p (file w' (policy_file cfg))"
  using goaway_write_atomic_aux [OF assms(1,3)] assms(2) by (auto simp: holds_policy_def)

lemma goaway_write_err_keeps:
  assumes "fs_documented fs file" "goaway_write_policy fs ty cfg p w = (Inl e, w')"
  shows "file w' (policy_file cfg) = file w (policy_file cfg)"
  using goaway_write_atomic_aux [OF assms] by simp

lemma goaway_prefixes_update:
  assumes "goaway_validate p = Inr ()"
  shows "goaway_prefixes (goaway_update_prefixes f p) = f (goaway_prefixes p)"
proof -
  obtain k srcs where n: "networks p = [(k, srcs)]"
    using assms by (cases "networks p") (auto simp: goaway_validate_def split: if_splits)
  then have "k = GOAWAY_MANAGED_NETWORK_NAME"
    using assms by (auto simp: goaway_validate_def split: if_splits option.splits)
  with n show ?thesis
    by (cases srcs) (simp_all add: goaway_prefixes_def goaway_update_prefixes_def Let_def)
qed

lemma holds_policy_unique: "holds_policy fy p c \<Longrightarrow> holds_policy fy q c \<Longrightarrow> p = q"
  by (auto simp: holds_policy_def split: option.splits)

lemma goaway_reload_unchanged:
  assumes "\<And>argv w. file (snd (run argv w)) = file w" "goaway_reload run cfg w = (r, w')"
  shows "file w' = file w"
proof -
  have "w' = w \<or> w' = snd (run (reload_command cfg) w)"
    using assms(2) by (auto simp: goaway_reload_def io_bind_def io_map_err_def io_fail_def io_return_def
        split: if_splits prod.splits sum.splits)
  then show ?thesis using assms(1) by auto
qed

text \<open>A failed go-away apply leaves the challenge list as it was.  The file still holds the policy that
  was read (rewritten, when the reload of the new one failed and the old one was put back) unless the
  error itself says that restoring failed; a successful apply leaves the file with exactly the old
  prefixes and the target's element, once.\<close>

theorem goaway_apply_restores:
  assumes "fs_documented fs file" "\<And>p doc. ty p = Inr doc \<Longrightarrow> fy doc = Inr p" "\<And>ps. is_ok (js ps)"
    and "\<And>argv w. file (snd (run argv w)) = file w"
    and "holds_policy fy original (file w (policy_file cfg))"
    and "goaway_apply fs fy ty js run cfg never_block a False w = (r, w')"
    and "element_reference (target a) = Inr element"
  shows "case r of
      Inl e \<Rightarrow> holds_policy fy original (file w' (policy_file cfg)) \<or>
               (\<exists>e1 e2. e = Apply (Lit ''reload failed: '' # e1 @ Lit ''; restoring snippet failed: '' # e2))
    | Inr _ \<Rightarrow> \<exists>p. holds_policy fy p (file w' (policy_file cfg)) \<and>
               goaway_prefixes p = goaway_prefixes original @
                 (if element \<in> set (goaway_prefixes original) then [] else [element])"
proof -
  let ?path = "policy_file cfg"
  define policy where "policy = goaway_update_prefixes (\<lambda>ps. if element \<in> set ps then ps else ps @ [element]) original"
  have pre: "goaway_prefixes policy = goaway_prefixes original @
                 (if element \<in> set (goaway_prefixes original) then [] else [element])"
    using assms(5) by (simp add: policy_def goaway_prefixes_update holds_policy_def)
  obtain rd w1 where rd: "goaway_read_policy fs fy cfg w = (rd, w1)" by fastforce
  have f1: "file w1 = file w" by (rule goaway_read_unchanged [OF assms(1) rd])
  have orig: "rd = Inr p \<Longrightarrow> p = original" for p
    using goaway_read_holds [OF assms(1)] rd assms(5) holds_policy_unique by blast
  obtain wr w2 where wr: "goaway_write_policy fs ty cfg policy w1 = (wr, w2)" by fastforce
  have wr_err: "wr = Inl e \<Longrightarrow> file w2 ?path = file w ?path" for e
    using goaway_write_err_keeps [OF assms(1)] wr f1 by metis
  have wr_ok: "wr = Inr u \<Longrightarrow> holds_policy fy policy (file w2 ?path)" for u
    using goaway_write_ok_holds [OF assms(1), of ty fy cfg policy w1 u w2] assms(2) wr by simp
  obtain rl w3 where rl: "goaway_reload run cfg w2 = (rl, w3)" by fastforce
  have f3: "file w3 = file w2" by (rule goaway_reload_unchanged [OF assms(4) rl])
  obtain rs w4 where rs: "goaway_write_policy fs ty cfg original w3 = (rs, w4)" by fastforce
  have rs_ok: "rs = Inr u \<Longrightarrow> holds_policy fy original (file w4 ?path)" for u
    using goaway_write_ok_holds [OF assms(1), of ty fy cfg original w3 u w4] assms(2) rs by simp
  obtain st where st: "js (goaway_prefixes policy) = Inr st" using assms(3) by (auto simp: is_ok_iff)
  have restore: "goaway_reload_or_restore fs ty run cfg Apply original w2 =
      (case rl of Inr _ \<Rightarrow> (Inr (), w3)
       | Inl e \<Rightarrow> (case rs of
            Inl e2 \<Rightarrow> (Inl (Apply (Lit ''reload failed: '' # e @ Lit ''; restoring snippet failed: '' # e2)), w4)
          | Inr _ \<Rightarrow> (Inl (Apply (Lit ''reload failed; previous snippet restored: '' # e)), w4)))"
    using rl rs by (auto simp: goaway_reload_or_restore_def io_case_def io_bind_def io_map_err_def io_fail_def
        io_return_def split: sum.splits)
  have "(\<exists>e. r = Inl e \<and> w' = w) \<or>
    (\<exists>e. rd = Inl e \<and> r = Inl (Apply e) \<and> w' = w1) \<or>
    (rd = Inr original \<and>
      ((\<exists>e. wr = Inl e \<and> r = Inl (Apply e) \<and> w' = w2) \<or>
       (\<exists>u. wr = Inr u \<and>
         (case goaway_reload_or_restore fs ty run cfg Apply original w2 of
            (Inl e, w5) \<Rightarrow> r = Inl e \<and> w' = w5
          | (Inr _, w5) \<Rightarrow> is_ok r \<and> w' = w5))))"
    using assms(6,7) rd wr orig st
    by (auto simp: goaway_apply_def io_bind_def io_lift_def io_map_err_def io_return_def Let_def
        policy_def [symmetric] split: sum.splits prod.splits)
  then show ?thesis
    using assms(5) f1 f3 wr_err wr_ok rs_ok pre restore
    by (cases rl; cases rs; cases r) (auto simp: is_ok_def)
qed

definition challenged_example :: goaway_policy where
  "challenged_example = \<lparr> networks = [(GOAWAY_MANAGED_NETWORK_NAME, [\<lparr> net_prefixes = [''203.0.113.7''] \<rparr>])] \<rparr>"

definition example_to_yaml :: "goaway_policy \<Rightarrow> msg + string" where
  "example_to_yaml p = (if p = challenged_example then Inr ''one'' else if p = goaway_fresh then Inr ''none'' else Inl [])"

definition example_from_yaml :: "string \<Rightarrow> msg + goaway_policy" where
  "example_from_yaml doc = (if doc = ''one'' then Inr challenged_example else if doc = ''none'' then Inr goaway_fresh else Inl [])"

lemma goaway_apply_restores_witness:
  "\<exists>r w'. goaway_apply mem_fs example_from_yaml example_to_yaml (\<lambda>_. Inr ''[]'')
             (\<lambda>argv w. (Inl [Lit ''no such program''], w)) example_config (never_block_list_from_configured None)
             \<lparr> target = example_target, ttl_seconds = 60, reason = '''' \<rparr> False Map.empty = (r, w') \<and>
     (case r of
        Inl e \<Rightarrow> holds_policy example_from_yaml goaway_fresh (w' ''snippet.yml'') \<or>
                 (\<exists>e1 e2. e = Apply (Lit ''reload failed: '' # e1 @ Lit ''; restoring snippet failed: '' # e2))
      | Inr _ \<Rightarrow> \<exists>p. holds_policy example_from_yaml p (w' ''snippet.yml'') \<and> goaway_prefixes p = [''203.0.113.7''])"
proof -
  let ?run = "\<lambda>(argv :: string list) (w :: string \<Rightarrow> string option). (Inl [Lit ''no such program''] :: msg + process_output, w)"
  let ?a = "\<lparr> target = example_target, ttl_seconds = 60, reason = '''' \<rparr>"
  obtain r w' where o1: "goaway_apply mem_fs example_from_yaml example_to_yaml (\<lambda>_. Inr ''[]'')
             ?run example_config (never_block_list_from_configured None) ?a False Map.empty = (r, w')" by fastforce
  have codec: "example_to_yaml p = Inr doc \<Longrightarrow> example_from_yaml doc = Inr p" for p doc
    by (auto simp: example_to_yaml_def example_from_yaml_def split: if_splits)
  have h: "holds_policy example_from_yaml goaway_fresh (id Map.empty (policy_file example_config))"
    by (simp add: holds_policy_def)
  have f: "policy_file example_config = ''snippet.yml''" by (simp add: example_config_def)
  have e: "element_reference (target ?a) = Inr ''203.0.113.7''" by (simp add: example_admitted)
  have p0: "goaway_prefixes goaway_fresh = []" by (simp add: goaway_prefixes_def goaway_fresh_def)
  show ?thesis
    using goaway_apply_restores [OF mem_fs_documented codec _ _ h o1 e] o1 unfolding f p0 by (cases r) simp_all
qed

end
