(* ===== verification/Secret.thy ===== *)
theory Secret
  imports Prelude
begin

text \<open>
  \<^verbatim>\<open>secret/src/lib.rs\<close>: loading and validation of service credentials.  The process environment and the
  file system are arguments: a variable is set, absent or not Unicode, and a file is readable text or not.
  The last section states what a loaded token is guaranteed to be, and that a configured secret file never
  falls back to the environment value.
\<close>

section \<open>The environment\<close>

datatype env_var = EnvSet string | EnvMissing | EnvNotUnicode

type_synonym env = "string \<Rightarrow> env_var"
type_synonym files = "string \<Rightarrow> string option"

text \<open>\<^verbatim>\<open>env::var(key).ok()\<close>.\<close>

definition env_ok :: "env \<Rightarrow> string \<Rightarrow> string option" where
  "env_ok env k = (case env k of EnvSet v \<Rightarrow> Some v | _ \<Rightarrow> None)"

text \<open>The characters of a string, each with the bytes that encode it, and \<^verbatim>\<open>char::is_whitespace\<close>.\<close>

fun chars_from :: "string \<Rightarrow> string \<Rightarrow> string list" where
  "chars_from cur [] = (if cur = [] then [] else [cur])"
| "chars_from cur (c # cs) =
     (if is_cont c then chars_from (cur @ [c]) cs
      else (if cur = [] then [] else [cur]) @ chars_from [c] cs)"

definition chars :: "string \<Rightarrow> string list" where
  "chars s = chars_from [] s"

definition has_whitespace :: "string \<Rightarrow> bool" where
  "has_whitespace s = list_ex (\<lambda>c. c \<in> set white_space) (chars s)"

section \<open>Operations\<close>

definition MIN_TOKEN_LENGTH :: nat where "MIN_TOKEN_LENGTH = 32"

definition PLACEHOLDER_MARKERS :: "string list" where
  "PLACEHOLDER_MARKERS =
     [''change-me'', ''changeme'', ''replace-this'', ''replace-with'', ''placeholder'', ''example-token'']"

definition load_required :: "env \<Rightarrow> files \<Rightarrow> string \<Rightarrow> string \<Rightarrow> msg + string" where
  "load_required env fs file_key value_key =
     and_then
       (case env file_key of
          EnvSet path \<Rightarrow>
            if trim path = [] then Inl [Lit file_key, Lit '' cannot be empty'']
            else ok_or [Lit ''could not read secret configured by '', Lit file_key] (fs path)
        | EnvMissing \<Rightarrow> ok_or [Lit file_key, Lit '' or '', Lit value_key, Lit '' required''] (env_ok env value_key)
        | EnvNotUnicode \<Rightarrow> Inl [Lit ''invalid '', Lit file_key]) (\<lambda>v.
     let v = trim v in
     if v = [] then Inl [Lit ''secret configured by '', Lit file_key, Lit '' cannot be empty''] else Inr v)"

definition load_optional :: "env \<Rightarrow> files \<Rightarrow> string \<Rightarrow> string \<Rightarrow> msg + string option" where
  "load_optional env fs file_key value_key =
     (if env file_key = EnvMissing \<and> env value_key = EnvMissing then Inr None
      else and_then (load_required env fs file_key value_key) (\<lambda>v. Inr (Some v)))"

definition contains_placeholder :: "string \<Rightarrow> bool" where
  "contains_placeholder v = list_ex (\<lambda>marker. contains_str marker (to_ascii_lowercase v)) PLACEHOLDER_MARKERS"

definition validate_token :: "string \<Rightarrow> string \<Rightarrow> msg + unit" where
  "validate_token label v =
     (let normalized = to_ascii_lowercase v in
      if length v < MIN_TOKEN_LENGTH
      then Inl [Lit label, Lit '' must contain at least '', Lit (show_nat MIN_TOKEN_LENGTH), Lit '' characters'']
      else if has_whitespace v then Inl [Lit label, Lit '' must not contain whitespace'']
      else if list_ex (\<lambda>marker. contains_str marker normalized) PLACEHOLDER_MARKERS
      then Inl [Lit label, Lit '' contains a known placeholder'']
      else if length (remdups (chars v)) < 8 then Inl [Lit label, Lit '' has insufficient character diversity'']
      else Inr ())"

definition load_required_token :: "env \<Rightarrow> files \<Rightarrow> string \<Rightarrow> string \<Rightarrow> msg + string" where
  "load_required_token env fs file_key value_key =
     and_then (load_required env fs file_key value_key) (\<lambda>v.
     and_then (validate_token value_key v) (\<lambda>_. Inr v))"

text \<open>The two nested loops: each value is compared with the ones after it.\<close>

fun ensure_distinct :: "(string \<times> string) list \<Rightarrow> msg + unit" where
  "ensure_distinct [] = Inr ()"
| "ensure_distinct ((left_name, left) # rest) =
     (case List.find (\<lambda>(_, right). left = right) rest of
        Some (right_name, _) \<Rightarrow>
          Inl [Lit left_name, Lit '' and '', Lit right_name, Lit '' must use different credentials'']
      | None \<Rightarrow> ensure_distinct rest)"

section \<open>Properties\<close>

lemma validate_token_Inr:
  "validate_token label v = Inr () \<longleftrightarrow>
     32 \<le> length v \<and> \<not> has_whitespace v \<and> \<not> contains_placeholder v \<and> 8 \<le> card (set (chars v))"
  by (auto simp: validate_token_def contains_placeholder_def MIN_TOKEN_LENGTH_def Let_def length_remdups_card_conv)

text \<open>A token that loads is at least 32 bytes long, has no whitespace and no placeholder marker in any
  letter case, and has at least 8 different characters; when the file variable is configured, the value is
  the trimmed content of that file, and the environment value is never used.\<close>

theorem loaded_token:
  assumes "load_required_token env fs fk vk = Inr v"
  shows "32 \<le> length v \<and> \<not> has_whitespace v \<and> \<not> contains_placeholder v \<and> 8 \<le> card (set (chars v)) \<and>
    (case env fk of
       EnvSet path \<Rightarrow> \<exists>content. fs path = Some content \<and> v = trim content
     | EnvMissing \<Rightarrow> \<exists>content. env vk = EnvSet content \<and> v = trim content
     | EnvNotUnicode \<Rightarrow> False)"
  using assms
  by (auto simp: load_required_token_def load_required_def and_then_Inr_iff validate_token_Inr env_ok_def Let_def
      split: env_var.splits if_splits)

lemma loaded_token_witness:
  "\<exists>v. load_required_token (\<lambda>k. if k = ''TOKEN_FILE'' then EnvSet ''/run/token'' else EnvSet ''weak'')
      (\<lambda>p. if p = ''/run/token'' then Some ''0123456789abcdef0123456789abcdef '' else None) ''TOKEN_FILE'' ''TOKEN'' = Inr v \<and>
    v = ''0123456789abcdef0123456789abcdef'' \<and> \<not> contains_placeholder v"
proof -
  have e: "load_required_token (\<lambda>k. if k = ''TOKEN_FILE'' then EnvSet ''/run/token'' else EnvSet ''weak'')
      (\<lambda>p. if p = ''/run/token'' then Some ''0123456789abcdef0123456789abcdef '' else None) ''TOKEN_FILE'' ''TOKEN''
    = Inr ''0123456789abcdef0123456789abcdef''" by code_simp
  show ?thesis using loaded_token [OF e] e by blast
qed

lemma find_None_values: "List.find (\<lambda>(_, right). left = right) rest = None \<longleftrightarrow> left \<notin> set (map snd rest)"
  by (force simp: find_None_iff image_iff)

text \<open>The check of distinct credentials accepts a list exactly when no two of its values are equal.\<close>

theorem ensure_distinct_exact: "is_ok (ensure_distinct creds) = distinct (map snd creds)"
proof (induction creds rule: ensure_distinct.induct)
  case (2 left_name left rest)
  then show ?case
    using find_None_values [of left rest]
    by (cases "List.find (\<lambda>(_, right). left = right) rest") auto
qed simp

end
