(* ===== verification/Routing.thy ===== *)
theory Routing
  imports Nftables Haproxy Goaway Secret
begin

text \<open>
  The adapter constructors and \<^verbatim>\<open>adapter_for_action\<close> of \<^verbatim>\<open>firewall-agent/src/lib.rs\<close>: which adapter an
  action name is routed to and how it is configured from the environment.  Every routed adapter is an
  interpretation of the contract, so what the contract promises holds for whatever adapter an action gets.
\<close>

section \<open>Configuration\<close>

definition HAPROXY_DEFAULT_ADMIN_SOCKET :: string where
  "HAPROXY_DEFAULT_ADMIN_SOCKET = ''/var/run/haproxy/admin.sock''"

definition HAPROXY_DEFAULT_BLOCKLIST_ACL_FILE :: string where
  "HAPROXY_DEFAULT_BLOCKLIST_ACL_FILE = ''/etc/haproxy/maps/clawforge-blocklist.map''"

definition HAPROXY_DEFAULT_RATE_LIMIT_TABLE :: string where
  "HAPROXY_DEFAULT_RATE_LIMIT_TABLE = ''clawforge_ratelimit''"

definition GOAWAY_DEFAULT_POLICY_FILE :: string where
  "GOAWAY_DEFAULT_POLICY_FILE = ''/etc/go-away/policy-snippets/clawforge-managed.yml''"

definition GOAWAY_DEFAULT_RELOAD_COMMAND :: "string list" where
  "GOAWAY_DEFAULT_RELOAD_COMMAND = [''systemctl'', ''kill'', ''--signal=HUP'', ''go-away.service'']"

text \<open>The environment of the process and the outside operations the adapters use.\<close>

record 'w agent_env =
  ae_env :: env
  ae_nft :: "'w run_process"
  ae_parse_json :: "string \<Rightarrow> json option"
  ae_socket :: "'w socket_talk"
  ae_fs :: "'w fs_ops"
  ae_from_yaml :: "string \<Rightarrow> msg + goaway_policy"
  ae_to_yaml :: "goaway_policy \<Rightarrow> msg + string"
  ae_json_text :: "string list \<Rightarrow> msg + string"
  ae_command :: "'w run_process"
  ae_pid :: nat

definition env_or :: "env \<Rightarrow> string \<Rightarrow> string \<Rightarrow> string" where
  "env_or env k d = (case env_ok env k of Some v \<Rightarrow> v | None \<Rightarrow> d)"

definition never_block_list_from_env :: "env \<Rightarrow> never_block_list" where
  "never_block_list_from_env env =
     never_block_list_from_configured (env_ok env ''CLAWFORGE_FIREWALL_NEVER_BLOCK_CIDRS'')"

definition nftables_new :: "'w agent_env \<Rightarrow> 'w adapter" where
  "nftables_new E = nftables_adapter (ae_nft E) (ae_parse_json E) (never_block_list_from_env (ae_env E))"

definition haproxy_new :: "'w agent_env \<Rightarrow> 'w adapter" where
  "haproxy_new E = haproxy_adapter (ae_socket E)
     (env_or (ae_env E) ''CLAWFORGE_HAPROXY_ADMIN_SOCKET'' HAPROXY_DEFAULT_ADMIN_SOCKET)
     (env_or (ae_env E) ''CLAWFORGE_HAPROXY_BLOCKLIST_ACL_FILE'' HAPROXY_DEFAULT_BLOCKLIST_ACL_FILE)
     (never_block_list_from_env (ae_env E))"

definition haproxy_rate_limit_new :: "'w agent_env \<Rightarrow> 'w adapter" where
  "haproxy_rate_limit_new E = haproxy_rate_limit_adapter (ae_socket E)
     (env_or (ae_env E) ''CLAWFORGE_HAPROXY_ADMIN_SOCKET'' HAPROXY_DEFAULT_ADMIN_SOCKET)
     (env_or (ae_env E) ''CLAWFORGE_HAPROXY_RATE_LIMIT_TABLE'' HAPROXY_DEFAULT_RATE_LIMIT_TABLE)
     (never_block_list_from_env (ae_env E))"

definition goaway_new :: "'w agent_env \<Rightarrow> 'w adapter" where
  "goaway_new E = goaway_adapter (ae_fs E) (ae_from_yaml E) (ae_to_yaml E) (ae_json_text E) (ae_command E)
     \<lparr> policy_file = env_or (ae_env E) ''CLAWFORGE_GOAWAY_POLICY_FILE'' GOAWAY_DEFAULT_POLICY_FILE,
       reload_command = (case env_ok (ae_env E) ''CLAWFORGE_GOAWAY_RELOAD_COMMAND'' of
          Some v \<Rightarrow> split_on CHR '','' v | None \<Rightarrow> GOAWAY_DEFAULT_RELOAD_COMMAND),
       process_id = ae_pid E \<rparr>
     (never_block_list_from_env (ae_env E))"

section \<open>Routing\<close>

definition adapter_for_action :: "'w agent_env \<Rightarrow> string \<Rightarrow> 'w adapter option" where
  "adapter_for_action E name =
     (if prefix ''nftables'' name then Some (nftables_new E)
      else if prefix ''haproxy_ratelimit'' name then Some (haproxy_rate_limit_new E)
      else if prefix ''haproxy'' name then Some (haproxy_new E)
      else if prefix ''goaway'' name then Some (goaway_new E)
      else None)"

lemma adapter_names:
  "ad_name (nftables_new E) = ''nftables''" "ad_name (haproxy_new E) = ''haproxy''"
  "ad_name (haproxy_rate_limit_new E) = ''haproxy_ratelimit''" "ad_name (goaway_new E) = ''goaway''"
  by (simp_all add: nftables_new_def nftables_adapter_def haproxy_new_def haproxy_adapter_def runtime_adapter_def
      haproxy_acl_commands_def haproxy_rate_limit_new_def haproxy_rate_limit_adapter_def haproxy_rate_limit_commands_def
      goaway_new_def goaway_adapter_def)

lemma routed_contract:
  assumes "adapter_for_action E name = Some A"
  shows "fw_contract A (never_block_list_from_env (ae_env E))"
  using assms nft.fw_contract_axioms runtime.fw_contract_axioms goaway.fw_contract_axioms
  by (auto simp: adapter_for_action_def nftables_new_def haproxy_new_def haproxy_adapter_def haproxy_rate_limit_new_def
      haproxy_rate_limit_adapter_def goaway_new_def split: if_splits)

section \<open>Properties\<close>

text \<open>Whatever adapter an action name is routed to, a live apply that succeeds acted on a validated and
  resolved target whose network meets none of the configured excluded networks, and its fingerprint shows
  only the pseudonym of a resolved source; a refused target leaves the outside world untouched.\<close>

theorem routed_apply_safe:
  assumes "adapter_for_action E name = Some A"
    and "never_block_list_from_env (ae_env E) = Inr nets"
  shows "(ad_apply A a False w = (Inr res, w') \<longrightarrow>
           validate (target a) = Inr () \<and> \<not> is_incident_source (target a) \<and>
           (\<forall>(n, p) \<in> set nets. network n p \<inter> target_network (target a) = {}) \<and>
           (\<forall>ip p. target a = ResolvedIncidentSource ip p \<longrightarrow> target_fingerprint (ar_receipt res) = placeholder p)) \<and>
    (\<not> admitted (Inr nets) (target a) \<longrightarrow> (\<exists>e. ad_apply A a dry w = (Inl e, w)))"
proof -
  have wf: "well_formed_nets nets"
    using assms(2) unfolding never_block_list_from_env_def by (rule never_block_list_cases)
  have C: "fw_contract A (Inr nets)" using routed_contract [OF assms(1)] assms(2) by simp
  have "validate (target a) = Inr () \<and> \<not> is_incident_source (target a) \<and>
      (\<forall>(n, p) \<in> set nets. network n p \<inter> target_network (target a) = {}) \<and>
      (\<forall>ip p. target a = ResolvedIncidentSource ip p \<longrightarrow> target_fingerprint (ar_receipt res) = placeholder p)"
    if ok: "ad_apply A a False w = (Inr res, w')"
    using fw_contract.live_apply_target [OF C ok] fw_contract.apply_ok [OF C ok] wf
      fw_contract.apply_fingerprint_resolved [OF C ok]
    by (auto simp: admitted_def)
  then show ?thesis using fw_contract.refused_no_effect [OF C, of a dry w] by blast
qed

text \<open>The routing keeps the rate limit adapter apart from the ACL adapter: an action name of one of the
  forms \<open><adapter>.<operation>\<close> is routed to the adapter of that name.\<close>

theorem routing_exact:
  assumes "kind \<in> {''nftables'', ''haproxy'', ''haproxy_ratelimit'', ''goaway''}"
  shows "\<exists>A. adapter_for_action E (kind @ ''.'' @ op) = Some A \<and> ad_name A = kind \<and> adapter_for_action E kind = Some A"
  using assms by (elim insertE emptyE) (simp_all add: adapter_for_action_def adapter_names)

text \<open>A machine with \<^verbatim>\<open>nft\<close> and nothing else, for the witnesses.\<close>

definition example_agent :: "bool agent_env" where
  "example_agent = \<lparr>
     ae_env = (\<lambda>_. EnvMissing), ae_nft = one_host_nft, ae_parse_json = one_host_json,
     ae_socket = (\<lambda>_ _ w. (Inl [Lit ''no socket''], w)),
     ae_fs = \<lparr> fs_read = (\<lambda>_ w. (Not_Found, w)), fs_create_dir_all = (\<lambda>_ w. (Inr (), w)),
       fs_create_new = (\<lambda>_ w. (Inr (), w)), fs_write_all = (\<lambda>_ _ w. (Inr (), w)), fs_sync_all = (\<lambda>_ w. (Inr (), w)),
       fs_metadata = (\<lambda>_ w. (Inr 0, w)), fs_set_permissions = (\<lambda>_ _ w. (Inr (), w)),
       fs_rename = (\<lambda>_ _ w. (Inr (), w)), fs_remove = (\<lambda>_ w. (Inr (), w)), fs_next_id = (\<lambda>w. (0, w)) \<rparr>,
     ae_from_yaml = (\<lambda>_. Inl []), ae_to_yaml = (\<lambda>_. Inl []), ae_json_text = (\<lambda>_. Inl []),
     ae_command = (\<lambda>_ w. (Inl [], w)), ae_pid = 1 \<rparr>"

lemma example_agent_nft:
  "adapter_for_action example_agent ''nftables.block'' = Some (nftables_adapter one_host_nft one_host_json (never_block_list_from_configured None))"
  by (simp add: adapter_for_action_def nftables_new_def example_agent_def never_block_list_from_env_def env_ok_def)

lemma routed_apply_safe_witness:
  "\<exists>A nets. adapter_for_action example_agent ''nftables.block'' = Some A \<and> never_block_list_from_configured None = Inr nets \<and>
     (\<exists>e. ad_apply A \<lparr> target = ThreatIntelIndicator ''not an address'' ''feed'', ttl_seconds = 60, reason = '''' \<rparr> False False = (Inl e, False))"
proof -
  have "is_ok (never_block_list_from_configured None)" by code_simp
  then obtain nets where n: "never_block_list_from_configured None = Inr nets" by (auto simp: is_ok_iff)
  then have e: "never_block_list_from_env (ae_env example_agent) = Inr nets"
    by (simp add: example_agent_def never_block_list_from_env_def env_ok_def)
  have "validate (ThreatIntelIndicator ''not an address'' ''feed'') \<noteq> Inr ()" by code_simp
  then have "\<not> admitted (Inr nets) (target \<lparr> target = ThreatIntelIndicator ''not an address'' ''feed'', ttl_seconds = 60, reason = '''' \<rparr>)"
    by (simp add: admitted_def)
  then show ?thesis using routed_apply_safe [OF example_agent_nft e, where dry = False and w = False] example_agent_nft n by blast
qed

lemma routing_exact_witness:
  "\<exists>A. adapter_for_action example_agent (''haproxy_ratelimit'' @ ''.'' @ ''limit'') = Some A \<and> ad_name A = ''haproxy_ratelimit''"
  using routing_exact [of "''haproxy_ratelimit''" example_agent "''limit''"] by blast

end
