(* ===== verification/Quarantine.thy ===== *)
theory Quarantine
  imports Fw_Adapter
begin

text \<open>
  \<^verbatim>\<open>firewall-agent/src/quarantine.rs\<close>: identities of quarantine targets, the validated plan metadata and
  the never-quarantine protection list.  The last sections show that a parsed entry is always a valid
  target and that the list is read entirely or not at all.
\<close>

definition OWNER_LIMIT :: nat where "OWNER_LIMIT = 256"
definition REFERENCE_LIMIT :: nat where "REFERENCE_LIMIT = 2048"

datatype preflight_error =
    Blank string
  | TooLong string nat
  | ControlCharacter string
  | InvalidContainerId
  | InvalidNode
  | InvalidVmid
  | UnrecognizedEntry string

fun show_preflight_error :: "preflight_error \<Rightarrow> msg" where
  "show_preflight_error (Blank f) = [Lit f, Lit '' must not be blank'']"
| "show_preflight_error (TooLong f n) = [Lit f, Lit '' exceeds the '', Lit (show_nat n), Lit ''-byte limit'']"
| "show_preflight_error (ControlCharacter f) = [Lit f, Lit '' contains a control character'']"
| "show_preflight_error InvalidContainerId = [Lit ''Docker target must be a full canonical container ID'']"
| "show_preflight_error InvalidNode = [Lit ''Proxmox node must be an ASCII hostname label'']"
| "show_preflight_error InvalidVmid = [Lit ''Proxmox VM ID must be positive'']"
| "show_preflight_error (UnrecognizedEntry e) =
     [Lit ''unrecognized never-quarantine entry: '', Dbg e, Lit '' (expected docker:<id> or proxmox:<node>/<vmid>)'']"

definition ascii_digit :: "char \<Rightarrow> bool" where
  "ascii_digit c = (48 \<le> ord_of c \<and> ord_of c \<le> 57)"

definition ascii_alphanumeric :: "char \<Rightarrow> bool" where
  "ascii_alphanumeric c =
     (ascii_digit c \<or> (65 \<le> ord_of c \<and> ord_of c \<le> 90) \<or> (97 \<le> ord_of c \<and> ord_of c \<le> 122))"

definition validate_container_id :: "string \<Rightarrow> preflight_error + unit" where
  "validate_container_id s =
     (if length s \<noteq> 64 \<or> \<not> list_all (\<lambda>c. ascii_digit c \<or> (97 \<le> ord_of c \<and> ord_of c \<le> 102)) s
      then Inl InvalidContainerId else Inr ())"

definition validate_node :: "string \<Rightarrow> preflight_error + unit" where
  "validate_node s =
     (if s = [] \<or> length s > 63 \<or> \<not> list_all (\<lambda>c. ascii_alphanumeric c \<or> c = CHR ''-'') s
         \<or> \<not> ascii_alphanumeric (s ! 0) \<or> \<not> ascii_alphanumeric (s ! (length s - 1))
      then Inl InvalidNode else Inr ())"

definition validate_metadata :: "string \<Rightarrow> string \<Rightarrow> nat \<Rightarrow> preflight_error + unit" where
  "validate_metadata value field limit =
     (if trim value = [] then Inl (Blank field)
      else if length value > limit then Inl (TooLong field limit)
      else if has_control value then Inl (ControlCharacter field)
      else Inr ())"

datatype quarantine_target =
    Docker (container_id: string)
  | Proxmox (node: string) (vmid: "32 word")

record quarantine_plan =
  qp_target :: quarantine_target
  data_owner :: string
  snapshot_restore_reference :: string
  management_network_plan :: string

definition plan_from_target ::
  "quarantine_target \<Rightarrow> string \<Rightarrow> string \<Rightarrow> string \<Rightarrow> preflight_error + quarantine_plan" where
  "plan_from_target t owner snap mgmt =
     and_then (validate_metadata owner ''data_owner'' OWNER_LIMIT) (\<lambda>_.
     and_then (validate_metadata snap ''snapshot_restore_reference'' REFERENCE_LIMIT) (\<lambda>_.
     and_then (validate_metadata mgmt ''management_network_plan'' REFERENCE_LIMIT) (\<lambda>_.
     Inr \<lparr> qp_target = t, data_owner = owner, snapshot_restore_reference = snap,
           management_network_plan = mgmt \<rparr>)))"

definition new_docker :: "string \<Rightarrow> string \<Rightarrow> string \<Rightarrow> string \<Rightarrow> preflight_error + quarantine_plan" where
  "new_docker cid owner snap mgmt =
     and_then (validate_container_id cid) (\<lambda>_. plan_from_target (Docker cid) owner snap mgmt)"

definition new_proxmox :: "string \<Rightarrow> 32 word \<Rightarrow> string \<Rightarrow> string \<Rightarrow> string \<Rightarrow> preflight_error + quarantine_plan" where
  "new_proxmox n v owner snap mgmt =
     and_then (validate_node n) (\<lambda>_.
     if v = 0 then Inl InvalidVmid else plan_from_target (Proxmox n v) owner snap mgmt)"

fun qt_validate :: "quarantine_target \<Rightarrow> preflight_error + unit" where
  "qt_validate (Docker c) = validate_container_id c"
| "qt_validate (Proxmox n v) =
     and_then (validate_node n) (\<lambda>_. if v = 0 then Inl InvalidVmid else Inr ())"

definition qt_parse :: "string \<Rightarrow> preflight_error + quarantine_target" where
  "qt_parse raw =
     (let entry = trim raw in
      case strip_prefix ''docker:'' entry of
        Some i \<Rightarrow>
          let i = trim i in and_then (validate_container_id i) (\<lambda>_. Inr (Docker i))
      | None \<Rightarrow>
          (case strip_prefix ''proxmox:'' entry of
             Some rest \<Rightarrow>
               and_then (ok_or (UnrecognizedEntry entry) (split_once CHR ''/'' (trim rest))) (\<lambda>(n, v).
               let n = trim n in
               and_then (validate_node n) (\<lambda>_.
               and_then (ok_or InvalidVmid (parse_unsigned (2 ^ 32 - 1) (trim v))) (\<lambda>k.
               if k = 0 then Inl InvalidVmid else Inr (Proxmox n (of_nat k)))))
           | None \<Rightarrow> Inl (UnrecognizedEntry entry)))"

definition never_quarantine_list :: "string \<Rightarrow> preflight_error + quarantine_target list" where
  "never_quarantine_list configured =
     collect_results qt_parse (filter (\<lambda>e. e \<noteq> []) (map trim (split_on CHR '','' configured)))"

definition qt_is_protected :: "quarantine_target \<Rightarrow> quarantine_target list \<Rightarrow> bool" where
  "qt_is_protected t ps = list_ex (\<lambda>p. p = t) ps"

section \<open>Lemmas\<close>

lemma word_of_nat_nonzero: "k \<le> 2 ^ 32 - 1 \<Longrightarrow> k \<noteq> 0 \<Longrightarrow> of_nat k \<noteq> (0 :: 32 word)"
proof
  assume k: "k \<le> 2 ^ 32 - 1" "k \<noteq> 0" and z: "of_nat k = (0 :: 32 word)"
  have "unat (of_nat k :: 32 word) = k" using k by (simp add: unat_of_nat)
  then show False using k z by simp
qed

lemma parse_unsigned_bound: "parse_unsigned m s = Some n \<Longrightarrow> n \<le> m"
  by (auto simp: parse_unsigned_def Let_def split: if_splits option.splits)

lemma qt_parse_valid: "qt_parse s = Inr t \<Longrightarrow> qt_validate t = Inr ()"
  by (auto simp: qt_parse_def Let_def and_then_Inr_iff split: option.splits if_splits
      dest!: parse_unsigned_bound dest: word_of_nat_nonzero [simplified])

lemma strip_one_reversed_plain: "plain_byte c \<Longrightarrow> strip_one (map rev white_space) (c # s) = None"
proof -
  have *: "strip_one ws (c # s) = None" if "\<forall>w \<in> set ws. w = [] \<or> hd w \<noteq> c" for ws
    using that by (induction ws) (auto simp: prefix_Cons)
  assume "plain_byte c"
  then have "\<forall>w \<in> set (map rev white_space). w = [] \<or> hd w \<noteq> c"
    by (auto simp: white_space_def plain_byte_def)
  then show ?thesis by (rule *)
qed

lemma trim_plain [simp]: "plain s \<Longrightarrow> trim s = s"
proof (cases s)
  case Nil
  then show ?thesis by (simp add: trim_def trim_end_def strip_all.simps)
next
  case (Cons c cs)
  assume p: "plain s"
  then have st: "trim_start s = s" using Cons by simp
  obtain d ds where d: "rev s = d # ds" using Cons by (cases "rev s") auto
  then have "plain_byte d" using p by (metis list.set_intros(1) list_all_iff plain_def set_rev)
  then have "strip_all (map rev white_space) (rev s) = rev s"
    unfolding d by (subst strip_all.simps) (simp add: strip_one_reversed_plain)
  then show ?thesis by (simp add: trim_def st trim_end_def)
qed

text \<open>The configuration entry that names a target.\<close>

fun qt_entry :: "quarantine_target \<Rightarrow> string" where
  "qt_entry (Docker c) = ''docker:'' @ c"
| "qt_entry (Proxmox n v) = ''proxmox:'' @ n @ ''/'' @ show_nat (unat v)"

lemma plain_ascii: "list_all (\<lambda>c. ascii_alphanumeric c \<or> c = CHR ''-'') s \<Longrightarrow> plain s"
  by (auto simp: plain_def list_all_iff plain_byte_def ascii_alphanumeric_def ascii_digit_def ord_of_def)

lemma plain_container: "validate_container_id c = Inr () \<Longrightarrow> plain c"
  by (auto simp: validate_container_id_def plain_def list_all_iff plain_byte_def ascii_digit_def split: if_splits)

lemma plain_node: "validate_node n = Inr () \<Longrightarrow> plain n \<and> CHR ''/'' \<notin> set n"
  by (auto simp: validate_node_def plain_ascii list_all_iff ascii_alphanumeric_def ascii_digit_def ord_of_def
      split: if_splits)

lemma plain_show_nat': "plain (show_nat n)"
proof -
  have "plain_byte c" if "c \<in> set (show_base 10 n)" for c
    using set_show_base [of 10 n] that by (auto simp: plain_byte_def ord_of_digit_chr)
  then show ?thesis by (auto simp: plain_def list_all_iff show_nat_def)
qed

text \<open>Protection entries name exactly one instance.  The entry written for a valid target is read back as
  that target, and whatever entry is accepted yields a valid target (a full container identifier, or a
  host name label with a positive number), never an alias.\<close>

theorem qt_parse_round_trip:
  "(qt_validate t = Inr () \<longleftrightarrow> qt_parse (qt_entry t) = Inr t) \<and>
   (\<forall>s u. qt_parse s \<noteq> Inr u \<or> qt_validate u = Inr ())"
proof -
  have "qt_parse (qt_entry t) = Inr t" if v: "qt_validate t = Inr ()"
  proof (cases t)
    case (Docker c)
    have pc: "plain c" using v Docker by (simp add: plain_container)
    then have "plain (''docker:'' @ c)" by (simp add: plain_byte_def ord_of_def)
    then have "trim (''docker:'' @ c) = ''docker:'' @ c" by (rule trim_plain)
    then show ?thesis using v pc Docker by (simp add: qt_parse_def strip_prefix_def)
  next
    case (Proxmox n k)
    have n: "validate_node n = Inr ()" "k \<noteq> 0" using v Proxmox by (auto simp: and_then_Inr_iff split: if_splits)
    have pn: "plain n" "CHR ''/'' \<notin> set n" using plain_node [OF n(1)] by auto
    let ?r = "n @ CHR ''/'' # show_nat (unat k)"
    have pr: "plain ?r" using pn plain_show_nat' by (simp add: plain_byte_def ord_of_def)
    then have "plain (''proxmox:'' @ ?r)" by (simp add: plain_byte_def ord_of_def)
    then have t1: "trim (''proxmox:'' @ ?r) = ''proxmox:'' @ ?r" by (rule trim_plain)
    have "unat k < 2 ^ LENGTH(32)" by (rule unsigned_less)
    then have "parse_unsigned (2 ^ 32 - 1) (show_nat (unat k)) = Some (unat k)"
      by (intro parse_unsigned_show_nat) simp
    moreover have "unat k \<noteq> 0" using n(2) by (simp add: unat_eq_0)
    ultimately show ?thesis using Proxmox t1 pr pn n plain_show_nat' [of "unat k"]
      by (simp add: qt_parse_def strip_prefix_def split_once_append)
  qed
  then show ?thesis using qt_parse_valid by blast
qed

text \<open>The protection list is read entirely or not at all: it succeeds exactly when every non-blank entry
  is well formed, then lists the named instances in order, and a target named by any entry counts as
  protected.  One malformed entry yields an error, never a shorter list.\<close>

theorem never_quarantine_all_or_nothing:
  "case never_quarantine_list configured of
     Inl e \<Rightarrow> \<exists>entry \<in> set (split_on CHR '','' configured). trim entry \<noteq> [] \<and> qt_parse (trim entry) = Inl e
   | Inr ts \<Rightarrow> list_all2 (\<lambda>entry t. qt_parse entry = Inr t)
                (filter (\<lambda>e. e \<noteq> []) (map trim (split_on CHR '','' configured))) ts \<and>
              (\<forall>entry \<in> set (split_on CHR '','' configured). trim entry = [] \<or>
                 (\<exists>t. qt_parse (trim entry) = Inr t \<and> qt_is_protected t ts))"
proof (cases "never_quarantine_list configured")
  case (Inl e)
  have "\<exists>x \<in> set xs. f x = Inl e" if "collect_results f xs = Inl e" for f :: "string \<Rightarrow> preflight_error + quarantine_target" and xs
    using that by (induction xs) (auto simp: and_then_Inl_iff)
  from this [of qt_parse] Inl [unfolded never_quarantine_list_def] show ?thesis using Inl by fastforce
next
  case (Inr ts)
  let ?es = "filter (\<lambda>e. e \<noteq> []) (map trim (split_on CHR '','' configured))"
  have a: "list_all2 (\<lambda>entry t. qt_parse entry = Inr t) ?es ts"
    using Inr by (simp add: never_quarantine_list_def collect_results_Inr)
  have "\<exists>t. qt_parse e = Inr t \<and> qt_is_protected t ts" if "e \<in> set ?es" for e
    using list_all2_member [OF a that] by (auto simp: qt_is_protected_def list_ex_iff)
  then show ?thesis using Inr a by auto
qed

text \<open>The two container identifiers used by the witnesses.\<close>

definition example_container :: string where
  "example_container = replicate 64 CHR ''a''"

lemma example_container_valid: "validate_container_id example_container = Inr ()"
  by (simp add: validate_container_id_def example_container_def list_all_iff ascii_digit_def ord_of_def)

lemma qt_parse_round_trip_witness:
  "qt_parse (qt_entry (Proxmox ''pve1'' 100)) = Inr (Proxmox ''pve1'' 100)"
proof -
  have "qt_validate (Proxmox ''pve1'' 100) = Inr ()"
    by (simp add: validate_node_def ascii_alphanumeric_def ascii_digit_def ord_of_def)
  then show ?thesis using qt_parse_round_trip [of "Proxmox ''pve1'' 100"] by blast
qed

lemma never_quarantine_all_or_nothing_witness:
  "\<not> is_ok (never_quarantine_list ''proxmox:pve1/100, docker:short'') \<and>
   (\<exists>ts. never_quarantine_list ''proxmox:pve1/100,'' = Inr ts \<and> qt_is_protected (Proxmox ''pve1'' 100) ts)"
proof
  show "\<not> is_ok (never_quarantine_list ''proxmox:pve1/100, docker:short'')" by code_simp
  have s: "split_on CHR '','' ''proxmox:pve1/100,'' = [''proxmox:pve1/100'', []]" by code_simp
  have t: "trim ''proxmox:pve1/100'' \<noteq> []" "qt_parse (trim ''proxmox:pve1/100'') = Inr (Proxmox ''pve1'' 100)"
    by code_simp+
  have "is_ok (never_quarantine_list ''proxmox:pve1/100,'')" by code_simp
  then obtain ts where ts: "never_quarantine_list ''proxmox:pve1/100,'' = Inr ts" by (auto simp: is_ok_iff)
  then show "\<exists>ts. never_quarantine_list ''proxmox:pve1/100,'' = Inr ts \<and> qt_is_protected (Proxmox ''pve1'' 100) ts"
    using never_quarantine_all_or_nothing [of "''proxmox:pve1/100,''"] t by (simp add: s)
qed

end
