(* ===== verification/Exec_Gates.thy ===== *)
theory Exec_Gates
  imports Routing Quarantine
begin

text \<open>
  The gates in front of the executor: the environment limits, the live authorization
  (\<^verbatim>\<open>executor/src/live_authorization.rs\<close>), the quarantine gate (\<^verbatim>\<open>executor/src/quarantine_gate.rs\<close>) and the
  dry-run decision, the action classes and the start conditions of \<^verbatim>\<open>executor/src/main.rs\<close>.
  The parameter \<open>read_json\<close> is the JSON reader of \<^verbatim>\<open>serde_json\<close>; for the authorization, which is read
  directly into a struct, it keeps the members of an object as they are written.
\<close>

section \<open>Limits\<close>

definition DEFAULT_FIREWALL_ACTION_TTL_SECONDS :: "32 word" where
  "DEFAULT_FIREWALL_ACTION_TTL_SECONDS = 3600"

definition DEFAULT_FIREWALL_RATE_WINDOW_SECONDS :: int where
  "DEFAULT_FIREWALL_RATE_WINDOW_SECONDS = 300"

definition DEFAULT_FIREWALL_MAX_APPLIES_PER_WINDOW :: int where
  "DEFAULT_FIREWALL_MAX_APPLIES_PER_WINDOW = 20"

definition DEFAULT_FIREWALL_MAX_CONCURRENT_APPLIES_PER_ADAPTER :: int where
  "DEFAULT_FIREWALL_MAX_CONCURRENT_APPLIES_PER_ADAPTER = 5"

definition DEFAULT_FIREWALL_INFLIGHT_STALE_SECONDS :: int where
  "DEFAULT_FIREWALL_INFLIGHT_STALE_SECONDS = 120"

definition positive_i64 :: "env \<Rightarrow> string \<Rightarrow> int \<Rightarrow> int" where
  "positive_i64 env k d =
     (case Option.bind (env_ok env k) parse_i64 of
        Some v \<Rightarrow> if 0 < v then v else d
      | None \<Rightarrow> d)"

definition firewall_rate_window_seconds :: "env \<Rightarrow> int" where
  "firewall_rate_window_seconds env =
     positive_i64 env ''CLAWFORGE_FIREWALL_RATE_WINDOW_SECONDS'' DEFAULT_FIREWALL_RATE_WINDOW_SECONDS"

definition firewall_max_applies_per_window :: "env \<Rightarrow> int" where
  "firewall_max_applies_per_window env =
     positive_i64 env ''CLAWFORGE_FIREWALL_MAX_APPLIES_PER_WINDOW'' DEFAULT_FIREWALL_MAX_APPLIES_PER_WINDOW"

definition firewall_max_concurrent_applies_per_adapter :: "env \<Rightarrow> int" where
  "firewall_max_concurrent_applies_per_adapter env =
     positive_i64 env ''CLAWFORGE_FIREWALL_MAX_CONCURRENT_APPLIES_PER_ADAPTER'' DEFAULT_FIREWALL_MAX_CONCURRENT_APPLIES_PER_ADAPTER"

definition firewall_inflight_stale_seconds :: "env \<Rightarrow> int" where
  "firewall_inflight_stale_seconds env =
     positive_i64 env ''CLAWFORGE_FIREWALL_INFLIGHT_STALE_SECONDS'' DEFAULT_FIREWALL_INFLIGHT_STALE_SECONDS"

definition firewall_max_ttl_seconds :: "env \<Rightarrow> 32 word" where
  "firewall_max_ttl_seconds env =
     (case Option.bind (env_ok env ''CLAWFORGE_FIREWALL_MAX_TTL_SECONDS'') (parse_unsigned (2 ^ 32 - 1)) of
        Some v \<Rightarrow> if 0 < v then of_nat v else DEFAULT_FIREWALL_ACTION_TTL_SECONDS
      | None \<Rightarrow> DEFAULT_FIREWALL_ACTION_TTL_SECONDS)"

definition ttl_over_live_ceiling :: "32 word \<Rightarrow> 32 word \<Rightarrow> bool \<Rightarrow> msg option" where
  "ttl_over_live_ceiling ttl max_ttl dry =
     (if dry \<or> ttl \<le> max_ttl then None
      else Some [Lit ''firewall action TTL '', Lit (show_nat (unat ttl)), Lit ''s exceeds the live ceiling '',
        Lit (show_nat (unat max_ttl)), Lit ''s (CLAWFORGE_FIREWALL_MAX_TTL_SECONDS); refused so a real block always self-expires within a bounded window''])"

section \<open>Action names\<close>

definition TAILSCALE_ACTION_PREFIX :: string where
  "TAILSCALE_ACTION_PREFIX = ''tailscale.quarantine_device''"

definition PROXMOX_QUARANTINE_ACTION :: string where
  "PROXMOX_QUARANTINE_ACTION = ''proxmox.quarantine_vm''"

definition DOCKER_QUARANTINE_ACTION :: string where
  "DOCKER_QUARANTINE_ACTION = ''docker.quarantine_container''"

definition FIREWALL_MULTI_ADAPTER_PREFIX :: string where
  "FIREWALL_MULTI_ADAPTER_PREFIX = ''firewall.''"

definition MANDATORY_MULTI_ADAPTER :: string where
  "MANDATORY_MULTI_ADAPTER = ''nftables''"

lemmas action_name_defs =
  TAILSCALE_ACTION_PREFIX_def PROXMOX_QUARANTINE_ACTION_def DOCKER_QUARANTINE_ACTION_def
  FIREWALL_MULTI_ADAPTER_PREFIX_def MANDATORY_MULTI_ADAPTER_def

definition is_firewall_action :: "string \<Rightarrow> bool" where
  "is_firewall_action name =
     (prefix ''nftables.'' name \<or> prefix ''haproxy_ratelimit.'' name \<or> prefix ''haproxy.'' name \<or>
      prefix ''goaway.'' name \<or> prefix FIREWALL_MULTI_ADAPTER_PREFIX name \<or>
      name = TAILSCALE_ACTION_PREFIX \<or> name = PROXMOX_QUARANTINE_ACTION \<or> name = DOCKER_QUARANTINE_ACTION)"

definition firewall_budget_applies :: "string \<Rightarrow> bool \<Rightarrow> bool" where
  "firewall_budget_applies name dry = (\<not> dry \<and> is_firewall_action name)"

definition configured_multi_adapters :: "env \<Rightarrow> string list" where
  "configured_multi_adapters env =
     (let raw = env_or env ''CLAWFORGE_FIREWALL_ADAPTERS'' ''nftables'';
          names = filter (\<lambda>n. n = ''nftables'' \<or> n = ''haproxy'' \<or> n = ''haproxy_ratelimit'')
                    (filter (\<lambda>n. n \<noteq> []) (map trim (split_on CHR '','' raw)));
          names = (if MANDATORY_MULTI_ADAPTER \<in> set names then names else MANDATORY_MULTI_ADAPTER # names)
      in remdups_adj names)"

definition adapters_touched_by :: "env \<Rightarrow> string \<Rightarrow> string list" where
  "adapters_touched_by env name =
     (if prefix FIREWALL_MULTI_ADAPTER_PREFIX name then configured_multi_adapters env
      else if name = TAILSCALE_ACTION_PREFIX then [''tailscale'']
      else if name = PROXMOX_QUARANTINE_ACTION then [''proxmox'']
      else if name = DOCKER_QUARANTINE_ACTION then [''docker'']
      else if prefix ''haproxy_ratelimit.'' name then [''haproxy_ratelimit'']
      else if prefix ''haproxy.'' name then [''haproxy'']
      else if prefix ''goaway.'' name then [''goaway'']
      else if prefix ''nftables.'' name then [''nftables'']
      else [])"

section \<open>Live authorization\<close>

definition AUTHORIZABLE_ACTION_CLASSES :: "string list" where
  "AUTHORIZABLE_ACTION_CLASSES = [''nftables'', ''haproxy'', ''haproxy_ratelimit'', ''goaway'', ''firewall'']"

definition MAX_FIELD_LEN :: nat where "MAX_FIELD_LEN = 200"

record live_authorization =
  version :: "32 word"
  authorization_id :: string
  approved_by :: string
  la_actions :: "string list"

text \<open>The derived deserializer: an object with exactly the known fields, each once, or the fields in order
  as an array; \<open>actions\<close> may be missing.\<close>

definition read_u32 :: "json \<Rightarrow> 32 word option" where
  "read_u32 v = (case v of JInt i \<Rightarrow> if 0 \<le> i \<and> i < 2 ^ 32 then Some (of_int i) else None | _ \<Rightarrow> None)"

definition read_strings :: "json \<Rightarrow> string list option" where
  "read_strings v = (case v of JArr xs \<Rightarrow> those (map as_str xs) | _ \<Rightarrow> None)"

definition read_authorization :: "json option \<Rightarrow> json option \<Rightarrow> json option \<Rightarrow> json option \<Rightarrow> live_authorization option" where
  "read_authorization v i b a =
     (case (Option.bind v read_u32, Option.bind i as_str, Option.bind b as_str,
            case a of None \<Rightarrow> Some [] | Some x \<Rightarrow> read_strings x) of
        (Some v, Some i, Some b, Some a) \<Rightarrow>
          Some \<lparr> version = v, authorization_id = i, approved_by = b, la_actions = a \<rparr>
      | _ \<Rightarrow> None)"

fun decode_authorization :: "json \<Rightarrow> live_authorization option" where
  "decode_authorization (JObj kvs) =
     (if distinct (map fst kvs) \<and> set (map fst kvs) \<subseteq> {''version'', ''authorization_id'', ''approved_by'', ''actions''}
      then read_authorization (map_of kvs ''version'') (map_of kvs ''authorization_id'')
             (map_of kvs ''approved_by'') (map_of kvs ''actions'')
      else None)"
| "decode_authorization (JArr [v, i, b]) = read_authorization (Some v) (Some i) (Some b) None"
| "decode_authorization (JArr [v, i, b, a]) = read_authorization (Some v) (Some i) (Some b) (Some a)"
| "decode_authorization _ = None"

fun check_attestations :: "(string \<times> string) list \<Rightarrow> msg + unit" where
  "check_attestations [] = Inr ()"
| "check_attestations ((field, v) # rest) =
     (if trim v = [] then Inl [Lit ''live authorization `'', Lit field, Lit ''` must not be empty'']
      else if length v > MAX_FIELD_LEN
      then Inl [Lit ''live authorization `'', Lit field, Lit ''` exceeds '', Lit (show_nat MAX_FIELD_LEN), Lit '' bytes'']
      else if has_control v then Inl [Lit ''live authorization `'', Lit field, Lit ''` contains control characters'']
      else check_attestations rest)"

definition validate_authorization :: "live_authorization \<Rightarrow> msg + unit" where
  "validate_authorization a =
     (if version a \<noteq> 1
      then Inl [Lit ''unsupported live authorization version '', Lit (show_nat (unat (version a))), Lit '' (only 1 is accepted)'']
      else
        and_then (check_attestations [(''authorization_id'', authorization_id a), (''approved_by'', approved_by a)]) (\<lambda>_.
        if length (la_actions a) > length AUTHORIZABLE_ACTION_CLASSES
        then Inl [Lit ''live authorization lists more action classes than exist'']
        else
          (case List.find (\<lambda>c. c \<notin> set AUTHORIZABLE_ACTION_CLASSES) (la_actions a) of
             Some c \<Rightarrow> Inl [Lit ''live authorization lists a non-authorizable action class '', Dbg c,
               Lit ''; quarantine and unknown classes can never be authorized here'']
           | None \<Rightarrow> Inr ())))"

definition parse_authorization :: "(string \<Rightarrow> json option) \<Rightarrow> string \<Rightarrow> msg + live_authorization" where
  "parse_authorization read_json raw =
     and_then (ok_or [Lit ''CLAWFORGE_EXECUTOR_LIVE_AUTHORIZATION is not valid live-authorization JSON'']
       (Option.bind (read_json raw) decode_authorization)) (\<lambda>a.
     and_then (validate_authorization a) (\<lambda>_. Inr a))"

definition authorization_from_env :: "(string \<Rightarrow> json option) \<Rightarrow> env \<Rightarrow> msg + live_authorization option" where
  "authorization_from_env read_json env =
     (case env_ok env ''CLAWFORGE_EXECUTOR_LIVE_AUTHORIZATION'' of
        None \<Rightarrow> Inr None
      | Some raw \<Rightarrow>
          if trim raw = [] then Inr None
          else and_then (parse_authorization read_json raw) (\<lambda>a. Inr (Some a)))"

definition action_class :: "string \<Rightarrow> string option" where
  "action_class name =
     (if name = TAILSCALE_ACTION_PREFIX \<or> name = PROXMOX_QUARANTINE_ACTION \<or> name = DOCKER_QUARANTINE_ACTION then None
      else if prefix ''nftables.'' name then Some ''nftables''
      else if prefix ''haproxy_ratelimit.'' name then Some ''haproxy_ratelimit''
      else if prefix ''haproxy.'' name then Some ''haproxy''
      else if prefix ''goaway.'' name then Some ''goaway''
      else if prefix FIREWALL_MULTI_ADAPTER_PREFIX name then Some ''firewall''
      else None)"

definition allows_action :: "live_authorization \<Rightarrow> string \<Rightarrow> bool" where
  "allows_action a name =
     (case action_class name of Some cl \<Rightarrow> list_ex (\<lambda>x. x = cl) (la_actions a) | None \<Rightarrow> False)"

section \<open>The dry-run decision\<close>

record claimed_request =
  cl_id :: nat
  cl_action_name :: string
  cl_target :: "json option"

definition dry_run_from_env :: "env \<Rightarrow> bool" where
  "dry_run_from_env env =
     (case env_ok env ''CLAWFORGE_EXECUTOR_DRY_RUN'' of
        Some v \<Rightarrow> to_ascii_lowercase v = ''true'' \<or> v = ''1''
      | None \<Rightarrow> True)"

definition request_requires_dry_run :: "json option \<Rightarrow> bool" where
  "request_requires_dry_run t =
     (case Option.bind (Option.bind t (\<lambda>v. jget v ''simulation_only'')) as_bool of Some b \<Rightarrow> b | None \<Rightarrow> False)"

definition resolve_dry_run :: "bool \<Rightarrow> bool \<Rightarrow> live_authorization option \<Rightarrow> string \<Rightarrow> bool" where
  "resolve_dry_run env_dry simulation_only auth name =
     (if env_dry \<or> simulation_only then True
      else \<not> (case auth of Some a \<Rightarrow> allows_action a name | None \<Rightarrow> False))"

definition dispatch_dry_run :: "(string \<Rightarrow> json option) \<Rightarrow> env \<Rightarrow> claimed_request \<Rightarrow> bool" where
  "dispatch_dry_run read_json env c =
     resolve_dry_run (dry_run_from_env env) (request_requires_dry_run (cl_target c))
       (case authorization_from_env read_json env of Inr (Some a) \<Rightarrow> Some a | _ \<Rightarrow> None)
       (cl_action_name c)"

definition productive_start_refusal :: "bool \<Rightarrow> live_authorization option \<Rightarrow> string option \<Rightarrow> msg option" where
  "productive_start_refusal dry auth cidrs =
     (if dry \<or> \<not> (case auth of Some a \<Rightarrow> la_actions a \<noteq> [] | None \<Rightarrow> False) then None
      else
        let configured = (case cidrs of Some v \<Rightarrow> length (filter (\<lambda>e. trim e \<noteq> []) (split_on CHR '','' v)) | None \<Rightarrow> 0) in
        if configured = 0 then Some [Lit ''productive firewall execution is refused: CLAWFORGE_FIREWALL_NEVER_BLOCK_CIDRS names no address. Set the operator's management network, own ISP/VPN ranges, DNS and gateway first; the built-in loopback/link-local list alone is not a protection decision'']
        else None)"

text \<open>The start conditions of \<^verbatim>\<open>main\<close>.\<close>

definition startup_check :: "(string \<Rightarrow> json option) \<Rightarrow> env \<Rightarrow> msg + live_authorization option" where
  "startup_check read_json env =
     and_then (authorization_from_env read_json env) (\<lambda>auth.
     if \<not> dry_run_from_env env \<and> auth = None
     then Inl [Lit ''productive execution requires an explicit live authorization (CLAWFORGE_EXECUTOR_LIVE_AUTHORIZATION); with none set, CLAWFORGE_EXECUTOR_DRY_RUN must remain true'']
     else
       (case productive_start_refusal (dry_run_from_env env) auth (env_ok env ''CLAWFORGE_FIREWALL_NEVER_BLOCK_CIDRS'') of
          Some why \<Rightarrow> Inl why
        | None \<Rightarrow> Inr auth))"

section \<open>The quarantine gate\<close>

definition DEFAULT_TTL_SECONDS :: "32 word" where "DEFAULT_TTL_SECONDS = 3600"

datatype quarantine_kind = KDocker | KProxmox | KTailscale

definition from_action_name :: "string \<Rightarrow> quarantine_kind option" where
  "from_action_name name =
     (if name = ''docker.quarantine_container'' then Some KDocker
      else if name = ''proxmox.quarantine_vm'' then Some KProxmox
      else if name = ''tailscale.quarantine_device'' then Some KTailscale
      else None)"

definition from_reconcile_action_name :: "string \<Rightarrow> quarantine_kind option" where
  "from_reconcile_action_name name =
     (if name = ''docker.reconcile_quarantine'' then Some KDocker
      else if name = ''proxmox.reconcile_quarantine'' then Some KProxmox
      else None)"

fun quarantine_action_name :: "quarantine_kind \<Rightarrow> string" where
  "quarantine_action_name KDocker = ''docker.quarantine_container''"
| "quarantine_action_name KProxmox = ''proxmox.quarantine_vm''"
| "quarantine_action_name KTailscale = ''tailscale.quarantine_device''"

datatype quarantine_identity = QDocker string | QProxmox string "32 word" | QTailscale string

record quarantine_context =
  qc_target :: quarantine_identity
  qc_preflight :: "quarantine_plan option"
  qc_ttl_seconds :: "32 word"
  ready_for_live :: bool

definition bounded_string :: "json \<Rightarrow> string \<Rightarrow> nat \<Rightarrow> msg + string" where
  "bounded_string t field mx =
     and_then (ok_or [Lit ''quarantine target requires '', Lit field] (Option.bind (jget t field) as_str)) (\<lambda>v.
     if trim v = [] \<or> length v > mx \<or> has_control v then Inl [Lit ''invalid quarantine '', Lit field] else Inr v)"

definition quarantine_ttl :: "json \<Rightarrow> msg + 32 word" where
  "quarantine_ttl t =
     (case jget t ''ttl_seconds'' of
        None \<Rightarrow> Inr DEFAULT_TTL_SECONDS
      | Some v \<Rightarrow>
          and_then (ok_or [Lit ''quarantine ttl_seconds must be an integer''] (as_u64 v)) (\<lambda>n.
          if \<not> (60 \<le> n \<and> n \<le> 86400) then Inl [Lit ''quarantine ttl_seconds must be between 60 and 86400'']
          else Inr (of_nat n)))"

definition validate_context :: "string \<Rightarrow> json \<Rightarrow> bool \<Rightarrow> msg + quarantine_context" where
  "validate_context name t dry =
     and_then (ok_or [Lit ''unrecognized quarantine action''] (from_action_name name)) (\<lambda>kind.
     if as_object t = None then Inl [Lit ''quarantine target must be an object'']
     else
       and_then (quarantine_ttl t) (\<lambda>ttl.
       and_then
         (if dry then Inr (''dry-run only'', ''dry-run only'', ''dry-run only'')
          else and_then (bounded_string t ''data_owner'' 256) (\<lambda>o'.
               and_then (bounded_string t ''snapshot_restore_reference'' 2048) (\<lambda>r.
               and_then (bounded_string t ''management_network_plan'' 2048) (\<lambda>m. Inr (o', r, m))))) (\<lambda>(o', r, m).
       and_then
         (case kind of
            KDocker \<Rightarrow>
              and_then (bounded_string t ''container_id'' 64) (\<lambda>i.
              and_then (map_err show_preflight_error (new_docker i o' r m)) (\<lambda>p. Inr (QDocker i, Some p)))
          | KProxmox \<Rightarrow>
              and_then (bounded_string t ''node'' 63) (\<lambda>n.
              and_then (ok_or [Lit ''quarantine vmid must be a positive u32 integer'']
                (Option.bind (Option.bind (jget t ''vmid'') as_u64) (\<lambda>v. if v < 2 ^ 32 then Some (of_nat v) else None))) (\<lambda>v.
              and_then (map_err show_preflight_error (new_proxmox n v o' r m)) (\<lambda>p. Inr (QProxmox n v, Some p))))
          | KTailscale \<Rightarrow>
              and_then (bounded_string t ''device_id'' 256) (\<lambda>i.
              if list_all (\<lambda>c. ascii_alphanumeric c \<or> c = CHR ''-'' \<or> c = CHR ''_'') i then Inr (QTailscale i, None)
              else Inl [Lit ''invalid canonical Tailscale device_id''])) (\<lambda>(identity, plan).
       Inr \<lparr> qc_target = identity, qc_preflight = (if dry then None else plan), qc_ttl_seconds = ttl,
             ready_for_live = False \<rparr>))))"

definition ensure_live_dispatch_disabled :: "bool \<Rightarrow> msg + unit" where
  "ensure_live_dispatch_disabled dry =
     (if \<not> dry then Inl [Lit ''live quarantine is disabled pending durable recovery and generation ownership gates''] else Inr ())"

definition checked_quarantine_context ::
  "(string \<Rightarrow> json option) \<Rightarrow> env \<Rightarrow> claimed_request \<Rightarrow> msg + quarantine_context" where
  "checked_quarantine_context read_json env c =
     and_then (ok_or [Lit ''quarantine action has no target''] (cl_target c)) (\<lambda>t.
     let dry = dispatch_dry_run read_json env c in
     and_then (validate_context (cl_action_name c) t dry) (\<lambda>ctx.
     and_then (ensure_live_dispatch_disabled dry) (\<lambda>_.
     if \<not> dry \<and> (qc_preflight ctx = None \<or> \<not> ready_for_live ctx)
     then Inl [Lit ''quarantine live readiness has not been proven'']
     else Inr ctx)))"

section \<open>Properties\<close>

lemma check_attestations_Inr:
  "check_attestations fs = Inr () \<longleftrightarrow> (\<forall>(f, v) \<in> set fs. trim v \<noteq> [] \<and> length v \<le> MAX_FIELD_LEN \<and> \<not> has_control v)"
  by (induction fs rule: check_attestations.induct) auto

declare check_attestations.simps [simp del]

lemma check_then: "(if c then Inl e else r) = Inr x \<longleftrightarrow> \<not> c \<and> r = Inr x"
  by simp

lemma reject_found: "(case F of Some c \<Rightarrow> Inl (g c) | None \<Rightarrow> Inr ()) = Inr () \<longleftrightarrow> F = None"
  by (cases F) auto

lemma and_then_unit: "and_then r f = Inr y \<longleftrightarrow> r = Inr () \<and> f () = Inr y"
  by (cases r) auto

lemma validate_authorization_Inr:
  "validate_authorization a = Inr () \<longleftrightarrow>
     version a = 1 \<and> (\<forall>v \<in> {authorization_id a, approved_by a}. trim v \<noteq> [] \<and> length v \<le> MAX_FIELD_LEN \<and> \<not> has_control v) \<and>
     length (la_actions a) \<le> 5 \<and> set (la_actions a) \<subseteq> set AUTHORIZABLE_ACTION_CLASSES"
proof -
  have "validate_authorization a = Inr () \<longleftrightarrow>
      version a = 1 \<and> check_attestations [(''authorization_id'', authorization_id a), (''approved_by'', approved_by a)] = Inr () \<and>
      length (la_actions a) \<le> length AUTHORIZABLE_ACTION_CLASSES \<and>
      List.find (\<lambda>c. c \<notin> set AUTHORIZABLE_ACTION_CLASSES) (la_actions a) = None"
    unfolding validate_authorization_def check_then and_then_unit reject_found not_less not_not ..
  moreover have "length AUTHORIZABLE_ACTION_CLASSES = 5" by (simp add: AUTHORIZABLE_ACTION_CLASSES_def)
  moreover have "List.find (\<lambda>c. c \<notin> set AUTHORIZABLE_ACTION_CLASSES) (la_actions a) = None \<longleftrightarrow>
      set (la_actions a) \<subseteq> set AUTHORIZABLE_ACTION_CLASSES"
    by (auto simp: find_None_iff)
  ultimately show ?thesis by (simp add: check_attestations_Inr)
qed

lemma authorization_from_env_valid:
  "authorization_from_env read_json env = Inr (Some a) \<Longrightarrow> validate_authorization a = Inr ()"
  by (auto simp: authorization_from_env_def parse_authorization_def and_then_Inr_iff split: option.splits if_splits)

lemma live_dispatch_aux:
  assumes "\<not> dispatch_dry_run read_json env c"
  shows "\<exists>a cl. authorization_from_env read_json env = Inr (Some a) \<and> action_class (cl_action_name c) = Some cl \<and>
    cl \<in> set (la_actions a) \<and> \<not> dry_run_from_env env \<and> \<not> request_requires_dry_run (cl_target c)"
  using assms
  by (auto simp: dispatch_dry_run_def resolve_dry_run_def allows_action_def list_ex_iff
      split: if_splits option.splits sum.splits)

text \<open>C36 The live gate only narrows.  A claimed request is dispatched live only when dry-run mode is switched
  off, the request is not a simulation, and the environment holds a valid, attested authorization that lists
  the class of the action; so a quarantine action, an unknown action, a malformed authorization and an
  authorization that names a class outside the five known ones always leave the request a dry run.\<close>

theorem live_gate_narrows:
  assumes "\<not> dispatch_dry_run read_json env c"
  shows "\<exists>a cl. authorization_from_env read_json env = Inr (Some a) \<and> version a = 1 \<and>
    trim (authorization_id a) \<noteq> [] \<and> trim (approved_by a) \<noteq> [] \<and>
    action_class (cl_action_name c) = Some cl \<and> cl \<in> set (la_actions a) \<and>
    set (la_actions a) \<subseteq> {''nftables'', ''haproxy'', ''haproxy_ratelimit'', ''goaway'', ''firewall''} \<and>
    \<not> dry_run_from_env env \<and> \<not> request_requires_dry_run (cl_target c) \<and>
    from_action_name (cl_action_name c) = None"
proof -
  obtain a cl where a: "authorization_from_env read_json env = Inr (Some a)" "action_class (cl_action_name c) = Some cl"
    "cl \<in> set (la_actions a)" "\<not> dry_run_from_env env" "\<not> request_requires_dry_run (cl_target c)"
    using live_dispatch_aux [OF assms] by blast
  have "validate_authorization a = Inr ()" using a(1) by (rule authorization_from_env_valid)
  moreover have "from_action_name (cl_action_name c) = None"
    using a(2) by (auto simp: action_class_def from_action_name_def action_name_defs split: if_splits)
  ultimately show ?thesis using a
    by (auto simp: validate_authorization_Inr AUTHORIZABLE_ACTION_CLASSES_def)
qed

text \<open>The environment of a reviewed live run, for the witnesses.\<close>

definition live_env :: env where
  "live_env k =
     (if k = ''CLAWFORGE_EXECUTOR_DRY_RUN'' then EnvSet ''false''
      else if k = ''CLAWFORGE_EXECUTOR_LIVE_AUTHORIZATION'' then EnvSet ''auth''
      else if k = ''CLAWFORGE_FIREWALL_NEVER_BLOCK_CIDRS'' then EnvSet ''192.0.2.0/24''
      else EnvMissing)"

definition live_json :: "string \<Rightarrow> json option" where
  "live_json s = (if s = ''auth'' then Some (JObj [(''version'', JInt 1), (''authorization_id'', JStr ''pilot-1''),
     (''approved_by'', JStr ''ops''), (''actions'', JArr [JStr ''nftables''])]) else None)"

definition live_request :: claimed_request where
  "live_request = \<lparr> cl_id = 7, cl_action_name = ''nftables.block_indicator'', cl_target = Some (JObj []) \<rparr>"

lemma live_example: "\<not> dispatch_dry_run live_json live_env live_request" by code_simp

lemma live_gate_narrows_witness:
  "\<exists>a. authorization_from_env live_json live_env = Inr (Some a) \<and> approved_by a \<noteq> []"
  using live_gate_narrows [OF live_example] by (auto simp: trim_Nil)

text \<open>Every live dispatch is budgeted under the adapters it touches: the action counts as a firewall action,
  and the adapters a slot is reserved for are exactly the one the name is routed to or, for a
  fan-out, the configured ones, which always include \<^verbatim>\<open>nftables\<close> and are all routable.\<close>

theorem live_dispatch_budgeted:
  assumes "\<not> resolve_dry_run env_dry sim auth name"
  shows "firewall_budget_applies name False \<and>
    (if prefix ''firewall.'' name
     then adapters_touched_by env name = configured_multi_adapters env \<and> ''nftables'' \<in> set (adapters_touched_by env name) \<and>
       (\<forall>n \<in> set (adapters_touched_by env name). \<exists>A. adapter_for_action E n = Some A \<and> ad_name A = n)
     else \<exists>A. adapter_for_action E name = Some A \<and> adapters_touched_by env name = [ad_name A])"
proof -
  obtain cl where cl: "action_class name = Some cl"
    using assms by (auto simp: resolve_dry_run_def allows_action_def split: if_splits option.splits)
  have n: "''nftables'' \<in> set (configured_multi_adapters env)" 
    by (auto simp: configured_multi_adapters_def MANDATORY_MULTI_ADAPTER_def Let_def)
  have r: "\<exists>A. adapter_for_action E n = Some A \<and> ad_name A = n" if "n \<in> set (configured_multi_adapters env)" for n
  proof -
    have "n \<in> {''nftables'', ''haproxy'', ''haproxy_ratelimit''}"
      using that by (auto simp: configured_multi_adapters_def MANDATORY_MULTI_ADAPTER_def Let_def split: if_splits)
    then show ?thesis by (elim insertE emptyE) (simp_all add: adapter_for_action_def adapter_names)
  qed
  show ?thesis
  proof (cases "prefix ''firewall.'' name")
    case True
    then show ?thesis using n r
      by (simp add: adapters_touched_by_def firewall_budget_applies_def is_firewall_action_def FIREWALL_MULTI_ADAPTER_PREFIX_def)
  next
    case False
    obtain rest where "name \<in> {''nftables.'' @ rest, ''haproxy_ratelimit.'' @ rest, ''haproxy.'' @ rest, ''goaway.'' @ rest}"
      using cl False by (fastforce simp: action_class_def action_name_defs prefix_def split: if_splits)
    then show ?thesis
      by (elim insertE emptyE) (simp_all add: adapters_touched_by_def adapter_for_action_def adapter_names
        firewall_budget_applies_def is_firewall_action_def action_name_defs)
  qed
qed

lemma live_dispatch_budgeted_witness:
  "\<exists>A. adapter_for_action example_agent ''nftables.block'' = Some A \<and> adapters_touched_by live_env ''nftables.block'' = [ad_name A]"
proof -
  have "\<not> resolve_dry_run False False (Some \<lparr> version = 1, authorization_id = ''i'', approved_by = ''o'',
      la_actions = [''nftables''] \<rparr>) ''nftables.block''" by code_simp
  from live_dispatch_budgeted [OF this, of live_env example_agent] show ?thesis by simp
qed

text \<open>A configured adapter list keeps a repeated name that is not next to its first occurrence, so such a
  list makes one fan-out visit the mandatory adapter twice.\<close>

theorem multi_adapters_repeat:
  "configured_multi_adapters (\<lambda>_. EnvSet ''nftables,haproxy,nftables'') = [''nftables'', ''haproxy'', ''nftables'']"
  by code_simp

lemma ttl_bounds: "60 \<le> n \<Longrightarrow> n \<le> 86400 \<Longrightarrow> 60 \<le> (of_nat n :: 32 word) \<and> (of_nat n :: 32 word) \<le> 86400"
  by (simp add: word_le_nat_alt unat_of_nat)

text \<open>The quarantine gate is closed: a quarantine context is only ever accepted for a dry run, its identity
  is a canonical one and its lifetime lies between one minute and one day; a validated live context would
  also carry non-blank operator metadata and is still not ready.\<close>

theorem quarantine_gate_closed:
  "(checked_quarantine_context read_json env c = Inr ctx \<longrightarrow>
      dispatch_dry_run read_json env c \<and> qc_preflight ctx = None) \<and>
   (validate_context name t dry = Inr ctx \<longrightarrow>
      \<not> ready_for_live ctx \<and> 60 \<le> qc_ttl_seconds ctx \<and> qc_ttl_seconds ctx \<le> 86400 \<and>
      (case qc_target ctx of
         QDocker i \<Rightarrow> qt_validate (Docker i) = Inr () \<and> name = ''docker.quarantine_container''
       | QProxmox n v \<Rightarrow> qt_validate (Proxmox n v) = Inr () \<and> name = ''proxmox.quarantine_vm''
       | QTailscale i \<Rightarrow> i \<noteq> [] \<and> name = ''tailscale.quarantine_device''))"
proof (intro conjI [where P = "_ \<longrightarrow> _"] impI)
  assume "checked_quarantine_context read_json env c = Inr ctx"
  then show "dispatch_dry_run read_json env c \<and> qc_preflight ctx = None"
    by (auto simp: checked_quarantine_context_def and_then_Inr_iff Let_def ensure_live_dispatch_disabled_def
        validate_context_def split: if_splits)
next
  assume v: "validate_context name t dry = Inr ctx"
  have ttl: "60 \<le> ttl \<and> ttl \<le> 86400" if "quarantine_ttl t = Inr ttl" for ttl
    using that by (auto simp: quarantine_ttl_def and_then_Inr_iff DEFAULT_TTL_SECONDS_def ttl_bounds split: option.splits if_splits)
  have k: "from_action_name name = Some k \<Longrightarrow> name = quarantine_action_name k" for k
    by (auto simp: from_action_name_def split: if_splits)
  show "\<not> ready_for_live ctx \<and> 60 \<le> qc_ttl_seconds ctx \<and> qc_ttl_seconds ctx \<le> 86400 \<and>
      (case qc_target ctx of
         QDocker i \<Rightarrow> qt_validate (Docker i) = Inr () \<and> name = ''docker.quarantine_container''
       | QProxmox n v \<Rightarrow> qt_validate (Proxmox n v) = Inr () \<and> name = ''proxmox.quarantine_vm''
       | QTailscale i \<Rightarrow> i \<noteq> [] \<and> name = ''tailscale.quarantine_device'')"
  proof -
    obtain kind tl oo r m i p where d: "from_action_name name = Some kind" "quarantine_ttl t = Inr tl"
      "ctx = \<lparr> qc_target = i, qc_preflight = (if dry then None else p), qc_ttl_seconds = tl, ready_for_live = False \<rparr>"
      and i: "(case kind of
            KDocker \<Rightarrow>
              and_then (bounded_string t ''container_id'' 64) (\<lambda>i.
              and_then (map_err show_preflight_error (new_docker i oo r m)) (\<lambda>p. Inr (QDocker i, Some p)))
          | KProxmox \<Rightarrow>
              and_then (bounded_string t ''node'' 63) (\<lambda>n.
              and_then (ok_or [Lit ''quarantine vmid must be a positive u32 integer'']
                (Option.bind (Option.bind (jget t ''vmid'') as_u64) (\<lambda>v. if v < 2 ^ 32 then Some (of_nat v) else None))) (\<lambda>v.
              and_then (map_err show_preflight_error (new_proxmox n v oo r m)) (\<lambda>p. Inr (QProxmox n v, Some p))))
          | KTailscale \<Rightarrow>
              and_then (bounded_string t ''device_id'' 256) (\<lambda>i.
              if list_all (\<lambda>c. ascii_alphanumeric c \<or> c = CHR ''-'' \<or> c = CHR ''_'') i then Inr (QTailscale i, None)
              else Inl [Lit ''invalid canonical Tailscale device_id''])) = Inr (i, p)"
      using v unfolding validate_context_def and_then_Inr_iff ok_or_Inr_iff
      by (clarsimp simp: and_then_Inr_iff split del: if_split split: if_split_asm)
    have "case i of
         QDocker j \<Rightarrow> qt_validate (Docker j) = Inr () \<and> kind = KDocker
       | QProxmox n w \<Rightarrow> qt_validate (Proxmox n w) = Inr () \<and> kind = KProxmox
       | QTailscale j \<Rightarrow> j \<noteq> [] \<and> kind = KTailscale"
      using i by (cases kind) (auto simp: and_then_Inr_iff new_docker_def new_proxmox_def bounded_string_def trim_Nil
          split: if_splits)
    then show ?thesis using d ttl [OF d(2)] k [OF d(1)] by (auto split: quarantine_identity.splits)
  qed
qed

lemma quarantine_gate_closed_witness:
  "\<exists>ctx. validate_context ''tailscale.quarantine_device'' (JObj [(''device_id'', JStr ''n1'')]) True = Inr ctx \<and>
     \<not> ready_for_live ctx \<and> qc_ttl_seconds ctx \<le> 86400"
proof -
  have "is_ok (validate_context ''tailscale.quarantine_device'' (JObj [(''device_id'', JStr ''n1'')]) True)" by code_simp
  then obtain ctx where "validate_context ''tailscale.quarantine_device'' (JObj [(''device_id'', JStr ''n1'')]) True = Inr ctx"
    by (auto simp: is_ok_iff)
  then show ?thesis
    using quarantine_gate_closed [of live_json live_env live_request ctx "''tailscale.quarantine_device''"] by blast
qed

text \<open>A productive start needs a decision about what is never blocked: when the executor starts with
  dry-run switched off, it holds a valid authorization, and if that authorizes anything, the list of
  excluded networks names at least one entry of the operator's own.\<close>

theorem productive_start_protected:
  assumes "startup_check read_json env = Inr auth" "\<not> dry_run_from_env env"
  shows "\<exists>a. auth = Some a \<and> validate_authorization a = Inr () \<and>
    (la_actions a \<noteq> [] \<longrightarrow> (\<exists>v e. env_ok env ''CLAWFORGE_FIREWALL_NEVER_BLOCK_CIDRS'' = Some v \<and>
       e \<in> set (split_on CHR '','' v) \<and> trim e \<noteq> []))"
proof -
  have auth: "authorization_from_env read_json env = Inr auth" and "auth \<noteq> None"
    and p: "productive_start_refusal False auth (env_ok env ''CLAWFORGE_FIREWALL_NEVER_BLOCK_CIDRS'') = None"
    using assms by (auto simp: startup_check_def and_then_Inr_iff split: if_splits option.splits)
  then obtain a where a: "auth = Some a" by blast
  have "\<exists>v e. env_ok env ''CLAWFORGE_FIREWALL_NEVER_BLOCK_CIDRS'' = Some v \<and> e \<in> set (split_on CHR '','' v) \<and> trim e \<noteq> []"
    if "la_actions a \<noteq> []"
    using p a that by (auto simp: productive_start_refusal_def Let_def filter_empty_conv split: if_splits option.splits)
  then show ?thesis using a auth authorization_from_env_valid by blast
qed

lemma productive_start_protected_witness:
  "\<exists>a. startup_check live_json live_env = Inr (Some a) \<and> validate_authorization a = Inr ()"
proof -
  have "is_ok (startup_check live_json live_env)" "\<not> dry_run_from_env live_env" by code_simp+
  then obtain auth where "startup_check live_json live_env = Inr auth" by (auto simp: is_ok_iff)
  then show ?thesis using productive_start_protected [of live_json live_env auth] \<open>\<not> dry_run_from_env live_env\<close> by blast
qed

end
