(* ===== verification/Approvals.thy ===== *)
theory Approvals
  imports Rule_Journal Exec_Gates
begin

text \<open>
  Execution requests and their approval (\<^verbatim>\<open>storage/src/lib.rs\<close>): the request is created with an immutable
  context and its hash, approved by distinct people or confirmed by the single operator of an explicit
  profile, claimed by a worker under a lease, completed, retried or retained for recovery.  The triggers of
  migration 0071, which check every insertion and every change of status, are part of the operations.
  Hashing a context is a parameter; a UUID's text is the numeral of the number that stands for it.
\<close>

section \<open>Status\<close>

fun exec_status_name :: "exec_status \<Rightarrow> string" where
  "exec_status_name ExWaitingApproval = ''waiting_approval''"
| "exec_status_name ExPending = ''pending''"
| "exec_status_name ExApproved = ''approved''"
| "exec_status_name ExQueued = ''queued''"
| "exec_status_name ExStarting = ''starting''"
| "exec_status_name ExRunning = ''running''"
| "exec_status_name ExSuccess = ''success''"
| "exec_status_name ExCompleted = ''completed''"
| "exec_status_name ExFailed = ''failed''"
| "exec_status_name ExTimeout = ''timeout''"
| "exec_status_name ExRollbackRequired = ''rollback_required''"
| "exec_status_name ExCancelled = ''cancelled''"

text \<open>The statuses \<^verbatim>\<open>update_execution_status\<close> accepts.\<close>

definition settable_status :: "string \<Rightarrow> exec_status option" where
  "settable_status t = List.find (\<lambda>st. exec_status_name st = t)
     [ExQueued, ExApproved, ExStarting, ExRunning, ExSuccess, ExCompleted, ExFailed, ExTimeout, ExRollbackRequired, ExCancelled]"

definition execution_status_transition_allowed :: "exec_status \<Rightarrow> exec_status \<Rightarrow> bool" where
  "execution_status_transition_allowed current new =
     (case current of
        ExWaitingApproval \<Rightarrow> new \<in> {ExApproved, ExCancelled}
      | ExPending \<Rightarrow> new \<in> {ExQueued, ExStarting, ExCancelled}
      | ExApproved \<Rightarrow> new \<in> {ExQueued, ExStarting, ExCancelled}
      | ExQueued \<Rightarrow> new \<in> {ExStarting, ExCancelled}
      | ExStarting \<Rightarrow> new \<in> {ExRunning, ExQueued, ExFailed, ExTimeout, ExRollbackRequired, ExCancelled}
      | ExRunning \<Rightarrow> new \<in> {ExSuccess, ExCompleted, ExQueued, ExFailed, ExTimeout, ExRollbackRequired, ExCancelled}
      | ExFailed \<Rightarrow> new = ExQueued
      | ExRollbackRequired \<Rightarrow> new = ExCancelled
      | _ \<Rightarrow> False)"

section \<open>The approval profile\<close>

definition multi_person :: approval_profile where
  "multi_person = \<lparr> pr_mode = Multi_Person, pr_operator = None, pr_allowed_actions = [] \<rparr>"

text \<open>\<^verbatim>\<open>clawforge_approval_profile()\<close>\<close>

definition clawforge_approval_profile :: "store \<Rightarrow> approval_profile" where
  "clawforge_approval_profile s =
     (case st_profile s of
        Some p \<Rightarrow>
          if pr_mode p = Single_Operator \<and>
             list_ex (\<lambda>u. Some (us_id u) = pr_operator p \<and> us_enabled u \<and> us_role u = ''Administrator'') (st_users s)
          then p else multi_person
      | None \<Rightarrow> multi_person)"

definition approval_profile :: "(store, msg, approval_profile) io" where
  "approval_profile = query clawforge_approval_profile"

text \<open>\<^verbatim>\<open>approval_context -> 'approval_profile' ->> key = value\<close>; a missing key is SQL's NULL, which no test accepts.\<close>

definition profile_entry :: "json \<Rightarrow> string \<Rightarrow> string option" where
  "profile_entry context k = Option.bind (jget context ''approval_profile'') (\<lambda>p. get_str p k)"

definition profile_marked :: "json \<Rightarrow> bool" where
  "profile_marked context = (profile_entry context ''mode'' = Some ''single_operator'')"

definition names_operator :: "json \<Rightarrow> uuid option \<Rightarrow> bool" where
  "names_operator context operator = (profile_entry context ''operator_user_id'' = map_option uuid_text operator)"

definition find_action :: "store \<Rightarrow> uuid \<Rightarrow> action_row option" where
  "find_action s i = List.find (\<lambda>a. ac_id a = i) (st_actions s)"

definition find_policy :: "store \<Rightarrow> string \<Rightarrow> policy_row option" where
  "find_policy s level = List.find (\<lambda>p. po_risk_level p = level) (st_policies s)"

definition find_execution :: "store \<Rightarrow> uuid \<Rightarrow> execution_row option" where
  "find_execution s i = List.find (\<lambda>e. ex_id e = i) (st_executions s)"

definition policy_of :: "store \<Rightarrow> uuid \<Rightarrow> policy_row option" where
  "policy_of s action = Option.bind (find_action s action) (\<lambda>a. find_policy s (ac_risk_level a))"

section \<open>The triggers\<close>

text \<open>The profile lists the action of this request and its context names the operator.\<close>

definition profile_covers :: "store \<Rightarrow> execution_row \<Rightarrow> bool" where
  "profile_covers s e =
     (let prof = clawforge_approval_profile s in
      pr_mode prof = Single_Operator \<and>
      (case find_action s (ex_action e) of Some a \<Rightarrow> ac_name a \<in> set (pr_allowed_actions prof) | None \<Rightarrow> False) \<and>
      ex_required_approvals e = 1 \<and> profile_marked (ex_context e) \<and> names_operator (ex_context e) (pr_operator prof))"

text \<open>\<^verbatim>\<open>clawforge_validate_execution_transition\<close> on an insertion.\<close>

definition validate_insert :: "store \<Rightarrow> execution_row \<Rightarrow> bool" where
  "validate_insert s e =
     (ex_status e \<in> {ExPending, ExWaitingApproval} \<and>
      (ex_status e = ExWaitingApproval \<longrightarrow>
         ex_requester e \<noteq> None \<and> ex_required_approvals e \<ge> 1 \<and>
         (case ex_approval_expires e of Some t \<Rightarrow> t > st_now s | None \<Rightarrow> False) \<and> ex_context_hash e \<noteq> None) \<and>
      (ex_status e = ExPending \<longrightarrow> ex_required_approvals e = 0) \<and>
      (ex_status e = ExWaitingApproval \<and>
         ex_required_approvals e < (case policy_of s (ex_action e) of Some p \<Rightarrow> po_required_approvals p | None \<Rightarrow> 1) \<longrightarrow>
         profile_covers s e))"

definition matching_approvals :: "store \<Rightarrow> uuid \<Rightarrow> string \<Rightarrow> approval_row list" where
  "matching_approvals s i h = filter (\<lambda>a. ap_execution a = i \<and> ap_hash a = h) (st_approvals s)"

text \<open>The same trigger on an update: the snapshot is immutable, the status moves along the state machine, and
  an approval needs its count of matching approvals inside the window.\<close>

definition same_snapshot :: "execution_row \<Rightarrow> execution_row \<Rightarrow> bool" where
  "same_snapshot old new =
     (new = old\<lparr>ex_status := ex_status new, ex_started := ex_started new, ex_retry_count := ex_retry_count new,
        ex_next_retry := ex_next_retry new\<rparr>)"

definition validate_transition :: "store \<Rightarrow> execution_row \<Rightarrow> execution_row \<Rightarrow> bool" where
  "validate_transition s old new =
     (same_snapshot old new \<and>
      (ex_status old = ex_status new \<or>
       (execution_status_transition_allowed (ex_status old) (ex_status new) \<and>
        (ex_status old = ExFailed \<longrightarrow>
           ex_retry_count new = ex_retry_count old + 1 \<and> ex_retry_count new \<le> ex_max_retries new) \<and>
        (ex_status new = ExApproved \<longrightarrow>
           ex_required_approvals old \<ge> 1 \<and>
           (case ex_approval_expires old of Some t \<Rightarrow> t > st_now s | None \<Rightarrow> False) \<and>
           (case ex_context_hash old of
              Some h \<Rightarrow> int (length (matching_approvals s (ex_id old) h)) \<ge> ex_required_approvals old
            | None \<Rightarrow> False)))))"

text \<open>\<^verbatim>\<open>clawforge_validate_execution_approval\<close>\<close>

definition validate_approval :: "store \<Rightarrow> approval_row \<Rightarrow> bool" where
  "validate_approval s a =
     (case find_execution s (ap_execution a) of
        None \<Rightarrow> False
      | Some e \<Rightarrow>
          ex_status e = ExWaitingApproval \<and> ex_requester e \<noteq> None \<and>
          (case ex_approval_expires e of Some t \<Rightarrow> t > st_now s | None \<Rightarrow> False) \<and>
          ex_context_hash e = Some (ap_hash a) \<and>
          (case List.find (\<lambda>u. us_id u = ap_approver a) (st_users s) of
             None \<Rightarrow> False
           | Some u \<Rightarrow>
               us_enabled u \<and> us_role u \<in> {''Administrator'', ''Approver''} \<and> us_name u = ap_name a \<and>
               (if ap_mode a = Single_Operator_Confirmation
                then profile_covers s e \<and> pr_operator (clawforge_approval_profile s) = Some (ap_approver a)
                     \<and> us_role u = ''Administrator''
                else \<not> profile_marked (ex_context e) \<and> ex_requester e \<noteq> Some (ap_approver a))))"

section \<open>Statements\<close>

definition insert_execution :: "execution_row \<Rightarrow> store \<Rightarrow> msg + store" where
  "insert_execution e s =
     (if \<not> validate_insert s e
         \<or> (ex_idempotency_key e \<noteq> None \<and> list_ex (\<lambda>o'. ex_idempotency_key o' = ex_idempotency_key e) (st_executions s))
         \<or> \<not> (1 \<le> char_count (ex_requested_by e) \<and> char_count (ex_requested_by e) \<le> 160)
         \<or> \<not> (0 \<le> ex_required_approvals e \<and> ex_required_approvals e \<le> 10)
      then Inl db_error
      else Inr (s\<lparr>st_executions := st_executions s @ [e]\<rparr>))"

text \<open>\<^verbatim>\<open>UPDATE execution_requests SET .. WHERE ..\<close>, every changed row through the trigger.\<close>

definition update_executions ::
  "(execution_row \<Rightarrow> bool) \<Rightarrow> (execution_row \<Rightarrow> execution_row) \<Rightarrow> store \<Rightarrow> msg + store" where
  "update_executions sel upd s =
     (if list_all (\<lambda>e. sel e \<longrightarrow> validate_transition s e (upd e)) (st_executions s)
      then Inr (s\<lparr>st_executions := map (\<lambda>e. if sel e then upd e else e) (st_executions s)\<rparr>)
      else Inl db_error)"

text \<open>\<^verbatim>\<open>INSERT INTO execution_approvals .. ON CONFLICT DO NOTHING\<close>: whether a row was inserted.\<close>

definition insert_approval :: "approval_row \<Rightarrow> store \<Rightarrow> msg + bool \<times> store" where
  "insert_approval a s =
     (if \<not> validate_approval s a then Inl db_error
      else if list_ex (\<lambda>b. ap_execution b = ap_execution a \<and> ap_approver b = ap_approver a) (st_approvals s)
      then Inr (False, s)
      else Inr (True, s\<lparr>st_approvals := st_approvals s @ [a]\<rparr>))"

section \<open>Creating a request\<close>

definition DEFAULT_EXECUTION_MAX_RETRIES :: int where "DEFAULT_EXECUTION_MAX_RETRIES = 3"
definition DEFAULT_EXECUTION_TIMEOUT_SECONDS :: int where "DEFAULT_EXECUTION_TIMEOUT_SECONDS = 60"

record execution_input =
  xi_action :: uuid
  xi_workflow :: "uuid option"
  xi_decision :: "uuid option"
  xi_requested_by :: string
  xi_requester :: "uuid option"
  xi_idempotency_key :: "string option"
  xi_target :: "json option"

definition quarantine_action :: "string \<Rightarrow> bool" where
  "quarantine_action name =
     (name = ''docker.quarantine_container'' \<or> name = ''proxmox.quarantine_vm'' \<or> name = ''tailscale.quarantine_device'')"

definition normalized_key :: "string option \<Rightarrow> string option" where
  "normalized_key key =
     (case key of
        None \<Rightarrow> None
      | Some v \<Rightarrow> if trim v = [] then None else Some (take_chars 160 (trim v)))"

definition json_opt :: "('a \<Rightarrow> json) \<Rightarrow> 'a option \<Rightarrow> json" where
  "json_opt f x = (case x of None \<Rightarrow> JNull | Some v \<Rightarrow> f v)"

definition json_uuid :: "uuid \<Rightarrow> json" where
  "json_uuid u = JStr (uuid_text u)"

text \<open>The hashed context of a request: \<open>lowered\<close> is the operator and the policy's count of a request that the
  single-operator profile covers.\<close>

definition approval_context ::
  "execution_input \<Rightarrow> action_row \<Rightarrow> int \<Rightarrow> int option \<Rightarrow> string option \<Rightarrow> (uuid option \<times> int) option \<Rightarrow> json" where
  "approval_context input a required timeout key lowered = jobj (
     [(''version'', JInt 1),
      (''action_id'', json_uuid (xi_action input)),
      (''action_name'', JStr (ac_name a)),
      (''risk_level'', JStr (ac_risk_level a)),
      (''requires_approval'', JBool (ac_requires_approval a)),
      (''required_approvals'', JInt required),
      (''approval_timeout_seconds'', json_opt JInt timeout),
      (''max_retries'', JInt DEFAULT_EXECUTION_MAX_RETRIES),
      (''execution_timeout_seconds'', JInt DEFAULT_EXECUTION_TIMEOUT_SECONDS),
      (''workflow_run_id'', json_opt json_uuid (xi_workflow input)),
      (''decision_id'', json_opt json_uuid (xi_decision input)),
      (''requested_by'', JStr (trim (xi_requested_by input))),
      (''requested_by_id'', json_opt json_uuid (xi_requester input)),
      (''idempotency_key'', json_opt JStr key),
      (''target'', json_opt (\<lambda>v. v) (xi_target input))] @
     (case lowered of
        None \<Rightarrow> []
      | Some (operator, policy_required) \<Rightarrow>
          [(''approval_profile'', jobj
             [(''mode'', JStr ''single_operator''),
              (''operator_user_id'', json_opt json_uuid operator),
              (''policy_required_approvals'', JInt policy_required)])]))"

text \<open>The action's checks: the policy's count of approvals (0 when none are needed) and its timeout.\<close>

definition approval_requirements :: "action_row \<Rightarrow> policy_row option \<Rightarrow> msg + int" where
  "approval_requirements a p =
     (if \<not> ac_enabled a then Inl [Lit ''action is disabled'']
      else if quarantine_action (ac_name a) \<and>
        (\<not> ac_requires_approval a \<or> ac_risk_level a \<noteq> ''critical''
         \<or> (case p of Some q \<Rightarrow> po_required_approvals q | None \<Rightarrow> 0) < 2)
      then Inl [Lit ''quarantine requires a critical action and a two-person approval policy'']
      else if ac_requires_approval a
      then (case p of Some q \<Rightarrow> Inr (max (po_required_approvals q) 1) | None \<Rightarrow> Inl [Lit ''approval policy not found''])
      else Inr 0)"

definition new_execution_body ::
  "execution_input \<Rightarrow> action_row \<Rightarrow> int \<Rightarrow> int option \<Rightarrow> string option \<Rightarrow> json \<Rightarrow> string \<Rightarrow> store \<Rightarrow> msg + uuid \<times> store" where
  "new_execution_body input a required timeout key context h s =
     (let (i, s) = fresh s in
      and_then (insert_execution
        \<lparr> ex_id = i, ex_action = xi_action input, ex_workflow = xi_workflow input, ex_decision = xi_decision input,
          ex_requested_by = trim (xi_requested_by input), ex_requester = xi_requester input,
          ex_status = (if ac_requires_approval a then ExWaitingApproval else ExPending),
          ex_idempotency_key = key, ex_required_approvals = required,
          ex_approval_expires = map_option (\<lambda>t. st_now s + t) timeout,
          ex_context = context, ex_context_hash = Some h, ex_started = None,
          ex_timeout = DEFAULT_EXECUTION_TIMEOUT_SECONDS, ex_retry_count = 0,
          ex_max_retries = DEFAULT_EXECUTION_MAX_RETRIES, ex_next_retry = None \<rparr> s) (\<lambda>s.
      Inr (i, audit (xi_requested_by input) ''execution_request_created'' i s)))"

definition create_execution_request :: "(json \<Rightarrow> string) \<Rightarrow> execution_input \<Rightarrow> (store, msg, uuid) io" where
  "create_execution_request context_hash input =
     io_bind (query (\<lambda>s. map_option (\<lambda>a. (a, find_policy s (ac_risk_level a))) (find_action s (xi_action input)))) (\<lambda>row.
     case row of None \<Rightarrow> io_fail [Lit ''action not found''] | Some (a, p) \<Rightarrow>
     io_bind (io_lift (approval_requirements a p)) (\<lambda>policy_required.
     io_bind (if ac_requires_approval a \<and> policy_required > 1 then approval_profile else io_return multi_person) (\<lambda>prof.
     let lowered = (if ac_requires_approval a \<and> policy_required > 1 \<and> pr_mode prof = Single_Operator
                       \<and> ac_name a \<in> set (pr_allowed_actions prof)
                    then Some (pr_operator prof, policy_required) else None);
         required = (if lowered = None then policy_required else 1);
         timeout = (if ac_requires_approval a then map_option po_timeout p else None);
         key = normalized_key (xi_idempotency_key input);
         context = approval_context input a required timeout key lowered;
         h = context_hash context
     in
     if ac_requires_approval a \<and> xi_requester input = None
     then io_fail [Lit ''approval-gated execution requires a requester identity'']
     else
       io_bind (case key of
                  None \<Rightarrow> io_return None
                | Some k \<Rightarrow> query (\<lambda>s. List.find (\<lambda>e. ex_idempotency_key e = Some k) (st_executions s))) (\<lambda>existing.
       case existing of
         Some e \<Rightarrow>
           if ex_context_hash e = Some h then io_return (ex_id e)
           else io_fail [Lit ''idempotency key is already bound to another execution request'']
       | None \<Rightarrow> transaction (new_execution_body input a required timeout key context h)))))"

section \<open>Requests of the policy engine\<close>

text \<open>
  The other two ways into the table of requests, SQL functions the policy engine may call.  A challenge decision asks
  for a simulated Go-Away challenge (migration 0061); the policy bridge (\<^verbatim>\<open>storage/src/policy_bridge.rs\<close>, migration 0064)
  turns a decision into a simulated, proposed or automatic request.  Decisions, policies and assessments are tables
  of their own: the pseudonym of a challenge decision and the plan of a bridge request are arguments, and so are which
  rows were created within the window and whether the executor's heartbeat is recent.
\<close>

definition context_pseudonym :: "json \<Rightarrow> string option" where
  "context_pseudonym context = Option.bind (jget context ''target'') (\<lambda>t. get_str t ''pseudonym'')"

definition context_simulated :: "json \<Rightarrow> bool" where
  "context_simulated context = (Option.bind (jget context ''target'') (\<lambda>t. jget t ''simulation_only'') = Some (JBool True))"

definition find_key :: "store \<Rightarrow> string \<Rightarrow> execution_row option" where
  "find_key s key = List.find (\<lambda>e. ex_idempotency_key e = Some key) (st_executions s)"

definition policy_row_for :: "uuid \<Rightarrow> uuid \<Rightarrow> string \<Rightarrow> json \<Rightarrow> execution_row" where
  "policy_row_for i action key context = \<lparr> ex_id = i, ex_action = action, ex_workflow = None, ex_decision = None,
     ex_requested_by = ''policy-engine'', ex_requester = None, ex_status = ExPending, ex_idempotency_key = Some key,
     ex_required_approvals = 0, ex_approval_expires = None, ex_context = context, ex_context_hash = None, ex_started = None,
     ex_timeout = DEFAULT_EXECUTION_TIMEOUT_SECONDS, ex_retry_count = 0, ex_max_retries = 0, ex_next_retry = None \<rparr>"

definition shadow_context :: "uuid \<Rightarrow> string \<Rightarrow> json" where
  "shadow_context decision p = jobj
     [(''version'', JInt 1), (''security_policy_decision_id'', json_uuid decision), (''simulation_only'', JBool True),
      (''target'', jobj [(''kind'', JStr ''incident_source''), (''pseudonym'', JStr p), (''ttl_seconds'', JInt 3600),
         (''simulation_only'', JBool True)])]"

definition goaway_shadow_body ::
  "(execution_row \<Rightarrow> bool) \<Rightarrow> uuid \<Rightarrow> string option \<Rightarrow> store \<Rightarrow> msg + uuid option \<times> store" where
  "goaway_shadow_body recent decision resource s =
     (case (resource, List.find (\<lambda>a. ac_name a = ''goaway.challenge_incident_source'') (st_actions s)) of
        (Some p, Some a) \<Rightarrow>
          if \<not> prefix ''ip-pseudonym:'' p \<or> p = ''ip-pseudonym:'' \<or> ac_enabled a then Inr (None, s)
          else
            (case find_key s (''shadow-goaway:'' @ uuid_text decision) of
               Some e \<Rightarrow> Inr (Some (ex_id e), s)
             | None \<Rightarrow>
                 (case List.find (\<lambda>e. ex_action e = ac_id a \<and> context_pseudonym (ex_context e) = Some p \<and> recent e) (st_executions s) of
                    Some e \<Rightarrow> Inr (Some (ex_id e), s)
                  | None \<Rightarrow>
                      (let (i, s) = fresh s in
                       and_then (insert_execution (policy_row_for i (ac_id a) (''shadow-goaway:'' @ uuid_text decision)
                         (shadow_context decision p)) s) (\<lambda>s. Inr (Some i, s)))))
      | _ \<Rightarrow> Inr (None, s))"

definition enqueue_goaway_shadow_challenge ::
  "(execution_row \<Rightarrow> bool) \<Rightarrow> uuid \<Rightarrow> string option \<Rightarrow> (store, msg, uuid option) io" where
  "enqueue_goaway_shadow_challenge recent decision resource = transaction (goaway_shadow_body recent decision resource)"

datatype bridge_mode = Simulate | Propose | Automatic

datatype bridge_outcome = Enqueued uuid | Duplicate uuid | Rejected string

text \<open>What \<^verbatim>\<open>clawforge_policy_bridge_plan\<close> derives for a decision: the action, the key, the count of approvals and the
  timeout that its context states, and the requester; or the reason why there is no plan.\<close>

record bridge_plan =
  bp_action :: uuid
  bp_key :: string
  bp_required :: int
  bp_timeout :: "int option"
  bp_requester :: "uuid option"
  bp_context :: json

definition bridge_row :: "bridge_mode \<Rightarrow> bridge_plan \<Rightarrow> string \<Rightarrow> int \<Rightarrow> uuid \<Rightarrow> execution_row" where
  "bridge_row mode p h now i = (policy_row_for i (bp_action p) (bp_key p) (bp_context p))\<lparr>
     ex_requested_by := ''policy-bridge'', ex_requester := bp_requester p,
     ex_status := (if mode = Propose then ExWaitingApproval else ExPending), ex_required_approvals := bp_required p,
     ex_approval_expires := (if mode = Propose then map_option (\<lambda>t. now + t) (bp_timeout p) else None),
     ex_context_hash := Some h\<rparr>"

text \<open>Something on the same target that has not ended; a simulation counts for simulations only.\<close>

definition target_active :: "bridge_plan \<Rightarrow> bool \<Rightarrow> execution_row \<Rightarrow> bool" where
  "target_active p simulated e =
     (ex_action e = bp_action p \<and> context_pseudonym (bp_context p) \<noteq> None \<and>
      context_pseudonym (ex_context e) = context_pseudonym (bp_context p) \<and>
      ex_status e \<in> {ExWaitingApproval, ExApproved, ExPending, ExQueued, ExStarting, ExRunning, ExRollbackRequired} \<and>
      context_simulated (ex_context e) = simulated)"

definition unresolved_firewall_state :: "store \<Rightarrow> bool" where
  "unresolved_firewall_state s =
     (list_ex (\<lambda>r. ri_status r = Prepared \<or> ri_status r = RecoveryRequired) (st_intents s) \<or>
      list_ex (\<lambda>e. ex_status e = ExRollbackRequired) (st_executions s))"

definition bridge_body :: "(store \<Rightarrow> string + bridge_plan) \<Rightarrow> (execution_row \<Rightarrow> bool) \<Rightarrow> bool \<Rightarrow> bridge_mode \<Rightarrow> int \<Rightarrow>
    json \<Rightarrow> string \<Rightarrow> store \<Rightarrow> msg + bridge_outcome \<times> store" where
  "bridge_body plan recent healthy mode max_per_window context h s =
     (let simulated = (mode = Simulate) in
      if max_per_window < 1 \<or> max_per_window > 100 \<or> \<not> (length h = 64 \<and> list_all (\<lambda>c. c \<in> set ''0123456789abcdef'') h)
      then Inr (Rejected ''parameters_invalid'', s)
      else (case plan s of
        Inl why \<Rightarrow> Inr (Rejected why, s)
      | Inr p \<Rightarrow>
          if bp_context p \<noteq> context then Inr (Rejected ''context_changed'', s)
          else (case find_key s (bp_key p) of
            Some e \<Rightarrow> Inr (Duplicate (ex_id e), s)
          | None \<Rightarrow>
              if list_ex (target_active p simulated) (st_executions s) then Inr (Rejected ''target_already_active'', s)
              else if int (length (filter (\<lambda>e. ex_requested_by e = ''policy-bridge'' \<and> recent e \<and>
                  context_simulated (ex_context e) = simulated) (st_executions s))) \<ge> max_per_window
              then Inr (Rejected ''budget_exhausted'', s)
              else if mode = Automatic \<and> unresolved_firewall_state s then Inr (Rejected ''unresolved_firewall_state'', s)
              else if mode = Automatic \<and> \<not> healthy then Inr (Rejected ''executor_not_healthy'', s)
              else
                (let (i, s) = fresh s in
                 and_then (insert_execution (bridge_row mode p h (st_now s) i) s) (\<lambda>s.
                 Inr (Enqueued i, audit ''policy-engine'' ''policy_bridge_request_enqueued'' i s))))))"

definition enqueue_policy_bridge_request :: "(json \<Rightarrow> string) \<Rightarrow> (store \<Rightarrow> string + bridge_plan) \<Rightarrow> (execution_row \<Rightarrow> bool) \<Rightarrow>
    bool \<Rightarrow> bridge_mode \<Rightarrow> int \<Rightarrow> (store, msg, bridge_outcome) io" where
  "enqueue_policy_bridge_request context_hash plan recent healthy mode max_per_window =
     io_bind (query (\<lambda>s. map_sum (\<lambda>why. why) (\<lambda>p. (p, find_key s (bp_key p))) (plan s))) (\<lambda>planned.
     case planned of
       Inl why \<Rightarrow> io_return (Rejected why)
     | Inr (p, Some e) \<Rightarrow> io_return (Duplicate (ex_id e))
     | Inr (p, None) \<Rightarrow>
         transaction (bridge_body plan recent healthy mode max_per_window (bp_context p) (context_hash (bp_context p))))"

section \<open>Approving\<close>

definition set_execution_status :: "uuid \<Rightarrow> exec_status \<Rightarrow> store \<Rightarrow> msg + store" where
  "set_execution_status i st = update_executions (\<lambda>e. ex_id e = i) (\<lambda>e. e\<lparr>ex_status := st\<rparr>)"

definition context_bound :: "(json \<Rightarrow> string) \<Rightarrow> execution_row \<Rightarrow> msg + string" where
  "context_bound context_hash e =
     (case ex_context_hash e of
        None \<Rightarrow> Inl [Lit ''execution approval context missing'']
      | Some stored \<Rightarrow>
          if context_hash (ex_context e) = stored then Inr stored else Inl [Lit ''execution approval context mismatch''])"

text \<open>The request's new status, its count of approvals and the count it requires.\<close>

definition approve_body ::
  "(json \<Rightarrow> string) \<Rightarrow> uuid \<Rightarrow> uuid \<Rightarrow> string \<Rightarrow> store \<Rightarrow> msg + (exec_status \<times> int \<times> int) \<times> store" where
  "approve_body context_hash i approver actor s =
     (case find_execution s i of
        None \<Rightarrow> Inl [Lit ''execution request not found'']
      | Some e \<Rightarrow>
          if ex_status e \<noteq> ExWaitingApproval then Inl [Lit ''execution request is not waiting for approval'']
          else if ex_requester e = Some approver then Inl [Lit ''execution requester cannot approve the request'']
          else
            (case ex_approval_expires e of
               None \<Rightarrow> Inl [Lit ''execution approval window missing'']
             | Some t \<Rightarrow>
                 if t \<le> st_now s then Inl [Lit ''execution approval window expired'']
                 else
                   and_then (context_bound context_hash e) (\<lambda>stored.
                   and_then (insert_approval \<lparr> ap_execution = i, ap_approver = approver, ap_name = actor,
                     ap_hash = stored, ap_mode = Distinct_Person \<rparr> s) (\<lambda>(inserted, s).
                   if \<not> inserted then Inl [Lit ''identity has already approved this execution request'']
                   else
                     let count = int (length (matching_approvals s i stored));
                         required = ex_required_approvals e;
                         finish = (\<lambda>st s. Inr ((st, count, required), audit actor ''execution_approval_recorded'' i s))
                     in if count \<ge> required
                        then and_then (set_execution_status i ExApproved s) (finish ExApproved)
                        else finish ExWaitingApproval s))))"

definition approve_execution_request ::
  "(json \<Rightarrow> string) \<Rightarrow> uuid \<Rightarrow> uuid \<Rightarrow> string \<Rightarrow> (store, msg, exec_status \<times> int \<times> int) io" where
  "approve_execution_request context_hash i approver actor = transaction (approve_body context_hash i approver actor)"

definition confirmation_unavailable :: msg where
  "confirmation_unavailable = [Lit ''single-operator confirmation is not available'']"

definition confirm_body ::
  "(json \<Rightarrow> string) \<Rightarrow> uuid \<Rightarrow> uuid \<Rightarrow> string \<Rightarrow> string \<Rightarrow> store \<Rightarrow> msg + unit \<times> store" where
  "confirm_body context_hash i approver actor expected s =
     (case find_execution s i of
        None \<Rightarrow> Inl [Lit ''execution request not found'']
      | Some e \<Rightarrow>
          if ex_status e \<noteq> ExWaitingApproval then Inl [Lit ''execution request is not waiting for approval'']
          else
            (case ex_context_hash e of
               None \<Rightarrow> Inl [Lit ''execution approval context missing'']
             | Some stored \<Rightarrow>
                 if context_hash (ex_context e) \<noteq> stored \<or> stored \<noteq> expected
                 then Inl [Lit ''execution approval context mismatch'']
                 else
                   and_then (map_err (\<lambda>_. confirmation_unavailable)
                     (insert_approval \<lparr> ap_execution = i, ap_approver = approver, ap_name = actor,
                        ap_hash = stored, ap_mode = Single_Operator_Confirmation \<rparr> s)) (\<lambda>(inserted, s).
                   if \<not> inserted then Inl confirmation_unavailable
                   else
                     and_then (map_err (\<lambda>_. confirmation_unavailable) (set_execution_status i ExApproved s)) (\<lambda>s.
                     Inr ((), audit actor ''execution_single_operator_confirmed'' i s)))))"

definition confirm_single_operator_execution ::
  "(json \<Rightarrow> string) \<Rightarrow> uuid \<Rightarrow> uuid \<Rightarrow> string \<Rightarrow> string \<Rightarrow> (store, msg, unit) io" where
  "confirm_single_operator_execution context_hash i approver actor expected =
     transaction (confirm_body context_hash i approver actor expected)"

section \<open>Running\<close>

definition update_status_body :: "uuid \<Rightarrow> exec_status \<Rightarrow> string \<Rightarrow> store \<Rightarrow> msg + unit \<times> store" where
  "update_status_body i st actor s =
     (case find_execution s i of
        None \<Rightarrow> Inl [Lit ''execution request is not available'']
      | Some e \<Rightarrow>
          if \<not> execution_status_transition_allowed (ex_status e) st
          then Inl [Lit ''execution status transition is not allowed'']
          else
            and_then (update_executions (\<lambda>e. ex_id e = i)
              (\<lambda>e. e\<lparr>ex_status := st, ex_started := (if st \<in> {ExStarting, ExRunning} then Some (st_now s) else ex_started e)\<rparr>) s) (\<lambda>s.
            Inr ((), audit actor (''execution_request_'' @ exec_status_name st) i s)))"

definition update_execution_status :: "uuid \<Rightarrow> string \<Rightarrow> string \<Rightarrow> (store, msg, unit) io" where
  "update_execution_status i status actor =
     (case settable_status status of
        None \<Rightarrow> io_fail [Lit ''invalid execution status'']
      | Some st \<Rightarrow> transaction (update_status_body i st actor))"

text \<open>A generation owns the external effect of this request.\<close>

definition owned :: "store \<Rightarrow> uuid \<Rightarrow> bool" where
  "owned s i =
     (list_ex (\<lambda>r. ri_execution r = i \<and> active (ri_status r)) (st_intents s) \<or>
      list_ex (\<lambda>q. qi_execution q = i \<and> active (qi_status q)) (st_quarantines s))"

text \<open>One \<^verbatim>\<open>UPDATE .. RETURNING id\<close> of the maintenance, with the audit event of each row.\<close>

definition sweep_executions ::
  "(store \<Rightarrow> execution_row \<Rightarrow> bool) \<Rightarrow> (execution_row \<Rightarrow> execution_row) \<Rightarrow> string \<Rightarrow> store \<Rightarrow> msg + store" where
  "sweep_executions sel upd event s =
     and_then (update_executions (sel s) upd s) (\<lambda>s'.
     Inr (fold (\<lambda>e. audit ''executor'' event (ex_id e)) (filter (sel s) (st_executions s)) s'))"

definition reclaimable :: "store \<Rightarrow> execution_row \<Rightarrow> bool" where
  "reclaimable s e =
     (list_ex (\<lambda>l. le_execution l = ex_id e \<and> le_status l = LExpired) (st_leases s) \<and>
      ex_status e \<in> {ExStarting, ExRunning} \<and> \<not> owned s (ex_id e))"

definition timed_out :: "store \<Rightarrow> execution_row \<Rightarrow> bool" where
  "timed_out s e =
     (ex_status e \<in> {ExStarting, ExRunning} \<and>
      (case ex_started e of Some t \<Rightarrow> t < st_now s - ex_timeout e | None \<Rightarrow> False) \<and> \<not> owned s (ex_id e))"

definition retryable :: "store \<Rightarrow> execution_row \<Rightarrow> bool" where
  "retryable s e =
     (ex_status e = ExFailed \<and> ex_retry_count e < ex_max_retries e \<and>
      (case ex_next_retry e of Some t \<Rightarrow> t \<le> st_now s | None \<Rightarrow> True) \<and> \<not> owned s (ex_id e))"

definition expire_leases :: "store \<Rightarrow> store" where
  "expire_leases s = s\<lparr>st_leases := map (\<lambda>l. if le_status l = LActive \<and> le_expires l \<le> st_now s
     then l\<lparr>le_status := LExpired\<rparr> else l) (st_leases s)\<rparr>"

definition maintenance_body :: "store \<Rightarrow> msg + unit \<times> store" where
  "maintenance_body s =
     and_then (sweep_executions reclaimable (\<lambda>e. e\<lparr>ex_status := ExQueued, ex_started := None, ex_next_retry := None\<rparr>)
       ''execution_request_reclaimed'' (expire_leases s)) (\<lambda>s.
     and_then (sweep_executions timed_out (\<lambda>e. e\<lparr>ex_status := ExTimeout\<rparr>) ''execution_request_timeout'' s) (\<lambda>s.
     and_then (sweep_executions retryable
       (\<lambda>e. e\<lparr>ex_status := ExQueued, ex_retry_count := ex_retry_count e + 1, ex_next_retry := None\<rparr>)
       ''execution_request_requeued'' s) (\<lambda>s.
     Inr ((), s))))"

definition run_execution_maintenance :: "(store, msg, unit) io" where
  "run_execution_maintenance = transaction maintenance_body"

text \<open>The distinct people other than the requester who approved exactly this context.\<close>

definition independent_approvers :: "store \<Rightarrow> execution_row \<Rightarrow> uuid list" where
  "independent_approvers s e =
     remdups (map ap_approver (filter (\<lambda>a. ap_execution a = ex_id e \<and> Some (ap_hash a) = ex_context_hash e
       \<and> ex_requester e \<noteq> None \<and> ex_requester e \<noteq> Some (ap_approver a)) (st_approvals s)))"

definition unexpired :: "store \<Rightarrow> execution_row \<Rightarrow> bool" where
  "unexpired s e = (case ex_approval_expires e of Some t \<Rightarrow> t > st_now s | None \<Rightarrow> False)"

definition dual_approved :: "store \<Rightarrow> execution_row \<Rightarrow> action_row \<Rightarrow> bool" where
  "dual_approved s e a =
     (ac_enabled a \<and> ac_requires_approval a \<and> ac_risk_level a = ''critical'' \<and>
      (case find_policy s (ac_risk_level a) of
         None \<Rightarrow> False
       | Some p \<Rightarrow>
           po_required_approvals p \<ge> 2 \<and> ex_required_approvals e \<ge> 2 \<and> ex_requester e \<noteq> None \<and> unexpired s e \<and>
           int (length (independent_approvers s e)) \<ge> max (ex_required_approvals e) (po_required_approvals p)))"

definition claimable :: "store \<Rightarrow> execution_row \<Rightarrow> bool" where
  "claimable s e =
     (ex_status e \<in> {ExApproved, ExPending, ExQueued} \<and> \<not> owned s (ex_id e) \<and>
      (case find_action s (ex_action e) of
         None \<Rightarrow> False
       | Some a \<Rightarrow> \<not> quarantine_action (ac_name a) \<or> dual_approved s e a))"

text \<open>\<^verbatim>\<open>INSERT INTO execution_leases .. ON CONFLICT (execution_id) DO UPDATE\<close>\<close>

definition take_lease :: "uuid \<Rightarrow> uuid \<Rightarrow> store \<Rightarrow> store" where
  "take_lease i w s =
     (let lease = \<lparr> le_execution = i, le_worker = w, le_status = LActive, le_expires = st_now s + 120 \<rparr> in
      s\<lparr>st_leases := (if list_ex (\<lambda>l. le_execution l = i) (st_leases s)
          then map (\<lambda>l. if le_execution l = i then lease else l) (st_leases s)
          else st_leases s @ [lease])\<rparr>)"

definition release_lease :: "uuid \<Rightarrow> store \<Rightarrow> store" where
  "release_lease i s = s\<lparr>st_leases := map (\<lambda>l. if le_execution l = i then l\<lparr>le_status := LReleased\<rparr> else l) (st_leases s)\<rparr>"

text \<open>The first request in the order of creation that may run becomes \<^verbatim>\<open>starting\<close>.\<close>

definition claim_row :: "store \<Rightarrow> msg + (execution_row option) \<times> store" where
  "claim_row s =
     (case List.find (claimable s) (st_executions s) of
        None \<Rightarrow> Inr (None, s)
      | Some e \<Rightarrow>
          and_then (update_executions (\<lambda>r. ex_id r = ex_id e) (\<lambda>r. r\<lparr>ex_status := ExStarting, ex_started := Some (st_now s)\<rparr>) s)
            (\<lambda>s. Inr (Some e, s)))"

definition lease_for :: "uuid option \<Rightarrow> uuid \<Rightarrow> store \<Rightarrow> store" where
  "lease_for worker i s = (case worker of None \<Rightarrow> s | Some w \<Rightarrow> take_lease i w s)"

definition claim_body :: "uuid option \<Rightarrow> store \<Rightarrow> msg + claimed_request option \<times> store" where
  "claim_body worker s =
     and_then (claim_row s) (\<lambda>(row, s).
     case row of
       None \<Rightarrow> Inr (None, s)
     | Some e \<Rightarrow>
         let s = lease_for worker (ex_id e) s in
         (case find_action s (ex_action e) of
            None \<Rightarrow> Inl db_error
          | Some a \<Rightarrow>
              Inr (Some \<lparr> cl_id = ex_id e, cl_action_name = ac_name a, cl_target = jget (ex_context e) ''target'' \<rparr>,
                audit ''executor'' ''execution_request_starting'' (ex_id e) s)))"

definition claim_execution_request_for_dispatch ::
  "uuid option \<Rightarrow> (store, msg, claimed_request option) io" where
  "claim_execution_request_for_dispatch worker =
     io_bind run_execution_maintenance (\<lambda>_. transaction (claim_body worker))"

text \<open>The metrics table is not modelled: writing a metric is a statement that changes nothing here.\<close>

definition record_execution_metric :: "(store, msg, unit) io" where
  "record_execution_metric = execute (\<lambda>s. s)"

definition finish_worker :: "uuid \<Rightarrow> uuid option \<Rightarrow> (store, msg, unit) io" where
  "finish_worker i worker =
     (case worker of
        None \<Rightarrow> io_return ()
      | Some w \<Rightarrow> io_bind (execute (release_lease i)) (\<lambda>_. record_execution_metric))"

definition complete_execution_dispatch_with_status :: "uuid \<Rightarrow> uuid option \<Rightarrow> string \<Rightarrow> (store, msg, unit) io" where
  "complete_execution_dispatch_with_status i worker terminal_status =
     io_bind (update_execution_status i ''running'' ''executor'') (\<lambda>_.
     io_bind (update_execution_status i terminal_status ''executor'') (\<lambda>_.
     finish_worker i worker))"

definition complete_execution_dispatch :: "uuid \<Rightarrow> uuid option \<Rightarrow> bool \<Rightarrow> (store, msg, unit) io" where
  "complete_execution_dispatch i worker success =
     complete_execution_dispatch_with_status i worker (if success then ''success'' else ''failed'')"

definition complete_execution_dispatch_for_recovery :: "uuid \<Rightarrow> uuid option \<Rightarrow> (store, msg, unit) io" where
  "complete_execution_dispatch_for_recovery i worker =
     complete_execution_dispatch_with_status i worker ''rollback_required''"

definition dry_run_body :: "uuid option \<Rightarrow> store \<Rightarrow> msg + uuid option \<times> store" where
  "dry_run_body worker s =
     and_then (claim_row s) (\<lambda>(row, s).
     case row of
       None \<Rightarrow> Inr (None, s)
     | Some e \<Rightarrow> Inr (Some (ex_id e), audit ''executor'' ''execution_request_starting'' (ex_id e) (lease_for worker (ex_id e) s)))"

definition process_one_dry_run_for_worker :: "uuid option \<Rightarrow> (store, msg, unit) io" where
  "process_one_dry_run_for_worker worker =
     io_bind run_execution_maintenance (\<lambda>_.
     io_bind (transaction (dry_run_body worker)) (\<lambda>row.
     case row of
       None \<Rightarrow> io_return ()
     | Some i \<Rightarrow>
         io_bind (update_execution_status i ''running'' ''executor'') (\<lambda>_.
         io_bind (update_execution_status i ''success'' ''executor'') (\<lambda>_.
         finish_worker i worker))))"

text \<open>The check before a live firewall apply.\<close>

definition operator_confirmed :: "store \<Rightarrow> execution_row \<Rightarrow> action_row \<Rightarrow> bool" where
  "operator_confirmed s e a =
     (let prof = clawforge_approval_profile s in
      list_ex (\<lambda>ap. Some (ap_approver ap) = pr_operator prof \<and> pr_mode prof = Single_Operator \<and>
          ac_name a \<in> set (pr_allowed_actions prof) \<and> ap_execution ap = ex_id e \<and>
          ap_mode ap = Single_Operator_Confirmation \<and> Some (ap_hash ap) = ex_context_hash e \<and>
          ex_required_approvals e = 1 \<and> profile_marked (ex_context e) \<and> names_operator (ex_context e) (pr_operator prof))
        (st_approvals s))"

definition live_authorized :: "store \<Rightarrow> uuid \<Rightarrow> bool" where
  "live_authorized s i =
     (case find_execution s i of
        None \<Rightarrow> False
      | Some e \<Rightarrow>
          (case find_action s (ex_action e) of
             None \<Rightarrow> False
           | Some a \<Rightarrow>
               ac_requires_approval a \<and> ex_requester e \<noteq> None \<and> unexpired s e \<and>
               (int (length (independent_approvers s e)) \<ge>
                  max (ex_required_approvals e)
                    (case find_policy s (ac_risk_level a) of Some p \<Rightarrow> po_required_approvals p | None \<Rightarrow> 1)
                \<or> operator_confirmed s e a)))"

definition firewall_request_live_authorized :: "uuid \<Rightarrow> (store, msg, bool) io" where
  "firewall_request_live_authorized i = query (\<lambda>s. live_authorized s i)"

section \<open>The invariant of the requests\<close>

definition awaiting :: "exec_status \<Rightarrow> bool" where
  "awaiting st = (st \<in> {ExWaitingApproval, ExPending, ExCancelled})"

definition execution_ok :: "approval_row list \<Rightarrow> execution_row \<Rightarrow> bool" where
  "execution_ok as e \<longleftrightarrow>
     0 \<le> ex_retry_count e \<and> ex_retry_count e \<le> ex_max_retries e \<and>
     (ex_status e = ExWaitingApproval \<longrightarrow> ex_required_approvals e \<ge> 1) \<and>
     (ex_status e = ExPending \<longrightarrow> ex_required_approvals e = 0) \<and>
     (\<not> awaiting (ex_status e) \<and> ex_required_approvals e \<ge> 1 \<longrightarrow>
        (\<exists>h. ex_context_hash e = Some h \<and>
           int (length (filter (\<lambda>a. ap_execution a = ex_id e \<and> ap_hash a = h) as)) \<ge> ex_required_approvals e))"

definition approval_ok :: "execution_row list \<Rightarrow> approval_row \<Rightarrow> bool" where
  "approval_ok es a \<longleftrightarrow>
     (\<exists>e \<in> set es. ex_id e = ap_execution a \<and> ex_context_hash e = Some (ap_hash a) \<and> ex_requester e \<noteq> None \<and>
        (if ap_mode a = Single_Operator_Confirmation
         then ex_required_approvals e = 1 \<and> profile_marked (ex_context e) \<and> names_operator (ex_context e) (Some (ap_approver a))
         else \<not> profile_marked (ex_context e) \<and> ex_requester e \<noteq> Some (ap_approver a)))"

definition requests_inv :: "store \<Rightarrow> bool" where
  "requests_inv s \<longleftrightarrow>
     distinct (map ex_id (st_executions s)) \<and> (\<forall>e \<in> set (st_executions s). ex_id e < st_next s) \<and>
     distinct (map (\<lambda>a. (ap_execution a, ap_approver a)) (st_approvals s)) \<and>
     (\<forall>e \<in> set (st_executions s). execution_ok (st_approvals s) e) \<and>
     (\<forall>a \<in> set (st_approvals s). approval_ok (st_executions s) a) \<and>
     (\<forall>e \<in> set (st_executions s). \<forall>f \<in> set (st_executions s).
        ex_idempotency_key e \<noteq> None \<and> ex_idempotency_key e = ex_idempotency_key f \<longrightarrow> e = f)"

text \<open>What has become of the rows of \<open>s\<close> in \<open>t\<close>: the same snapshots, statuses further along the state machine,
  and every approval still there.\<close>

definition row_path :: "execution_row \<Rightarrow> execution_row \<Rightarrow> bool" where
  "row_path e f \<longleftrightarrow> same_snapshot e f \<and> execution_status_transition_allowed\<^sup>*\<^sup>* (ex_status e) (ex_status f) \<and>
     ex_retry_count e \<le> ex_retry_count f"

definition requests_follow :: "store \<Rightarrow> store \<Rightarrow> bool" where
  "requests_follow s t \<longleftrightarrow>
     (\<forall>e \<in> set (st_executions s). \<exists>f \<in> set (st_executions t). row_path e f) \<and>
     (\<exists>as. st_approvals t = st_approvals s @ as)"

lemma same_snapshot_refl [simp]: "same_snapshot e e"
  by (simp add: same_snapshot_def)

lemma same_snapshotD:
  assumes "same_snapshot e f"
  shows "ex_id f = ex_id e" "ex_action f = ex_action e" "ex_requester f = ex_requester e"
    "ex_idempotency_key f = ex_idempotency_key e" "ex_required_approvals f = ex_required_approvals e"
    "ex_approval_expires f = ex_approval_expires e" "ex_context f = ex_context e" "ex_context_hash f = ex_context_hash e"
    "ex_max_retries f = ex_max_retries e" "ex_timeout f = ex_timeout e" "ex_requested_by f = ex_requested_by e"
    "ex_workflow f = ex_workflow e" "ex_decision f = ex_decision e"
  by (subst assms [unfolded same_snapshot_def], simp)+

lemma same_snapshot_trans: "same_snapshot e f \<Longrightarrow> same_snapshot f g \<Longrightarrow> same_snapshot e g"
  by (cases e; cases f; cases g) (auto simp: same_snapshot_def)

lemma row_path_refl [simp]: "row_path e e"
  by (simp add: row_path_def)

lemma row_path_trans: "row_path e f \<Longrightarrow> row_path f g \<Longrightarrow> row_path e g"
  unfolding row_path_def using same_snapshot_trans by (meson order_trans rtranclp_trans)

lemma requests_follow_refl [simp]: "requests_follow s s"
  unfolding requests_follow_def using row_path_refl by blast

lemma requests_follow_trans:
  assumes "requests_follow s t" "requests_follow t u"
  shows "requests_follow s u"
proof -
  have "\<exists>g \<in> set (st_executions u). row_path e g" if "e \<in> set (st_executions s)" for e
    using that assms row_path_trans unfolding requests_follow_def by metis
  moreover have "\<exists>as. st_approvals u = st_approvals s @ as"
    using assms unfolding requests_follow_def by (metis append.assoc)
  ultimately show ?thesis unfolding requests_follow_def by blast
qed

text \<open>The two together, seen from a fixed earlier state.\<close>

definition requests_since :: "store \<Rightarrow> store \<Rightarrow> bool" where
  "requests_since s0 s \<longleftrightarrow> requests_inv s \<and> requests_follow s0 s"

lemma requests_since_refl: "requests_inv s \<Longrightarrow> requests_since s s"
  by (simp add: requests_since_def)

lemma requests_since_step:
  assumes "requests_since s0 s" "requests_inv t" "requests_follow s t"
  shows "requests_since s0 t"
  using assms requests_follow_trans unfolding requests_since_def by blast

text \<open>Changes that leave the three tables alone.\<close>

lemma requests_since_frame:
  assumes "requests_since s0 s" "st_executions t = st_executions s" "st_approvals t = st_approvals s" "st_next s \<le> st_next t"
  shows "requests_since s0 t"
proof (rule requests_since_step [OF assms(1)])
  have inv: "requests_inv s" using assms(1) by (simp add: requests_since_def)
  have "\<forall>e \<in> set (st_executions s). ex_id e < st_next t"
    using inv assms(4) unfolding requests_inv_def by (meson less_le_trans)
  then show "requests_inv t" using inv unfolding requests_inv_def assms(2,3) by blast
  show "requests_follow s t" unfolding requests_follow_def assms(2,3) using row_path_refl by blast
qed

lemma row_property_since [simp]: "row_property (requests_since s0)"
  unfolding row_property_def by (intro allI impI, erule requests_since_frame) simp_all

lemma transition_ok:
  assumes "validate_transition s e f" "execution_ok (st_approvals s) e"
    and "ex_retry_count e \<le> ex_retry_count f" "ex_retry_count f \<le> ex_max_retries e"
  shows "execution_ok (st_approvals s) f" "row_path e f"
proof -
  have snap: "same_snapshot e f" using assms(1) by (simp add: validate_transition_def)
  note same = same_snapshotD [OF snap]
  show "row_path e f"
    using assms(1,3) snap by (auto simp: validate_transition_def row_path_def)
  show "execution_ok (st_approvals s) f"
  proof (cases "ex_status f = ex_status e")
    case True
    then show ?thesis using assms(2-4) unfolding execution_ok_def same by auto
  next
    case False
    then have tr: "execution_status_transition_allowed (ex_status e) (ex_status f)"
      and ap: "ex_status f = ExApproved \<Longrightarrow> (case ex_context_hash e of
              Some h \<Rightarrow> int (length (matching_approvals s (ex_id e) h)) \<ge> ex_required_approvals e | None \<Rightarrow> False)"
      using assms(1) by (auto simp: validate_transition_def)
    have nw: "ex_status f \<noteq> ExWaitingApproval" "ex_status f \<noteq> ExPending"
      using tr by (auto simp: execution_status_transition_allowed_def split: exec_status.splits)
    have "\<exists>h. ex_context_hash e = Some h \<and>
        int (length (filter (\<lambda>a. ap_execution a = ex_id e \<and> ap_hash a = h) (st_approvals s))) \<ge> ex_required_approvals e"
      if f: "\<not> awaiting (ex_status f)" "ex_required_approvals e \<ge> 1"
    proof (cases "ex_status f = ExApproved")
      case True
      then show ?thesis using ap by (auto simp: matching_approvals_def split: option.splits)
    next
      case False
      then have "\<not> awaiting (ex_status e)"
        using tr f assms(2) by (cases "ex_status e") (auto simp: execution_status_transition_allowed_def awaiting_def execution_ok_def)
      then show ?thesis using assms(2) f(2) by (simp add: execution_ok_def)
    qed
    then show ?thesis using nw assms(2-4) unfolding execution_ok_def same by auto
  qed
qed

lemma ball_set_map: "(\<forall>x \<in> set (map f xs). P x) \<longleftrightarrow> (\<forall>x \<in> set xs. P (f x))"
  by simp

lemma approval_ok_iff: "approval_ok es a \<longleftrightarrow> (\<exists>e \<in> set es. approval_ok [e] a)"
  unfolding approval_ok_def by simp

lemma approval_ok_snapshot: "same_snapshot e f \<Longrightarrow> approval_ok [e] a \<Longrightarrow> approval_ok [f] a"
  using same_snapshotD [of e f] unfolding approval_ok_def by (auto split: if_split_asm)

lemma requests_follow_extend:
  "set (st_executions s) \<subseteq> set (st_executions t) \<Longrightarrow> st_approvals t = st_approvals s @ as \<Longrightarrow> requests_follow s t"
  unfolding requests_follow_def using row_path_refl by blast

lemma update_executions_since:
  assumes u: "update_executions sel upd s = Inr t" and since: "requests_since s0 s"
    and retry: "\<And>e. sel e \<Longrightarrow> ex_retry_count e \<le> ex_max_retries e \<Longrightarrow>
      ex_retry_count e \<le> ex_retry_count (upd e) \<and> ex_retry_count (upd e) \<le> ex_max_retries e"
  shows "requests_since s0 t"
proof -
  let ?f = "\<lambda>e. if sel e then upd e else e"
  have inv: "requests_inv s" using since by (simp add: requests_since_def)
  have val: "\<forall>e \<in> set (st_executions s). sel e \<longrightarrow> validate_transition s e (upd e)"
    and t: "t = s\<lparr>st_executions := map ?f (st_executions s)\<rparr>"
    using u by (auto simp: update_executions_def list_all_iff split: if_split_asm)
  have tf: "st_executions t = map ?f (st_executions s)" "st_approvals t = st_approvals s" "st_next t = st_next s"
    by (simp_all add: t)
  have row: "execution_ok (st_approvals s) (?f e) \<and> row_path e (?f e)" if "e \<in> set (st_executions s)" for e
  proof (cases "sel e")
    case True
    have ok: "execution_ok (st_approvals s) e" using inv that by (simp add: requests_inv_def)
    then have "ex_retry_count e \<le> ex_max_retries e" by (simp add: execution_ok_def)
    then show ?thesis using transition_ok [OF _ ok, of "upd e"] val that True retry by simp
  next
    case False
    then show ?thesis using inv that by (simp add: requests_inv_def)
  qed
  have snap: "same_snapshot e (?f e)" if "e \<in> set (st_executions s)" for e
    using row [OF that] by (simp add: row_path_def)
  have ids: "map ex_id (map ?f (st_executions s)) = map ex_id (st_executions s)"
    using same_snapshotD(1) [OF snap] by simp
  show ?thesis
  proof (rule requests_since_step [OF since])
    have "\<exists>x \<in> set (map ?f (st_executions s)). row_path e x" if "e \<in> set (st_executions s)" for e
    proof (rule bexI)
      show "row_path e (?f e)" using row [OF that] by blast
      show "?f e \<in> set (map ?f (st_executions s))" unfolding set_map by (rule imageI) (rule that)
    qed
    then show "requests_follow s t" unfolding requests_follow_def t by simp
    show "requests_inv t"
      unfolding requests_inv_def tf ids
    proof (intro conjI)
      show "distinct (map ex_id (st_executions s))" using inv by (simp add: requests_inv_def)
      show "\<forall>e \<in> set (map ?f (st_executions s)). ex_id e < st_next s"
        unfolding ball_set_map using inv same_snapshotD(1) [OF snap] unfolding requests_inv_def by metis
      show "distinct (map (\<lambda>a. (ap_execution a, ap_approver a)) (st_approvals s))" using inv by (simp add: requests_inv_def)
      show "\<forall>e \<in> set (map ?f (st_executions s)). execution_ok (st_approvals s) e" unfolding ball_set_map using row by blast
      show "\<forall>a \<in> set (st_approvals s). approval_ok (map ?f (st_executions s)) a"
      proof
        fix a assume "a \<in> set (st_approvals s)"
        then obtain e where e: "e \<in> set (st_executions s)" "approval_ok [e] a"
          using inv approval_ok_iff unfolding requests_inv_def by blast
        then have "approval_ok [?f e] a"
          using approval_ok_snapshot [OF snap [OF e(1)]] by blast
        moreover have "?f e \<in> set (map ?f (st_executions s))" unfolding set_map by (rule imageI) (rule e(1))
        ultimately show "approval_ok (map ?f (st_executions s)) a" using approval_ok_iff by blast
      qed
      show "\<forall>e \<in> set (map ?f (st_executions s)). \<forall>f \<in> set (map ?f (st_executions s)).
        ex_idempotency_key e \<noteq> None \<and> ex_idempotency_key e = ex_idempotency_key f \<longrightarrow> e = f"
        unfolding ball_set_map using inv same_snapshotD(4) [OF snap] unfolding requests_inv_def by metis
    qed
  qed
qed

lemma insert_execution_since:
  assumes i: "insert_execution e s = Inr t" and since: "requests_since s0 s"
    and new: "\<forall>f \<in> set (st_executions s). ex_id f < ex_id e" "ex_id e < st_next s" "ex_retry_count e = 0" "0 \<le> ex_max_retries e"
  shows "requests_since s0 t"
proof -
  have inv: "requests_inv s" using since by (simp add: requests_since_def)
  have t: "t = s\<lparr>st_executions := st_executions s @ [e]\<rparr>" and val: "validate_insert s e"
    and key: "ex_idempotency_key e \<noteq> None \<Longrightarrow> \<forall>f \<in> set (st_executions s). ex_idempotency_key f \<noteq> ex_idempotency_key e"
    using i by (auto simp: insert_execution_def list_ex_iff split: if_split_asm)
  have ok: "execution_ok (st_approvals s) e"
    using val new(3,4) by (auto simp: validate_insert_def execution_ok_def awaiting_def)
  show ?thesis
  proof (rule requests_since_step [OF since])
    show "requests_follow s t" by (rule requests_follow_extend) (auto simp: t)
    have "\<forall>a \<in> set (st_approvals s). approval_ok (st_executions s @ [e]) a"
      using inv unfolding requests_inv_def approval_ok_def by auto
    moreover have "ex_id e \<notin> set (map ex_id (st_executions s))" using new(1) by auto
    ultimately show "requests_inv t"
      using inv ok key new(2) unfolding requests_inv_def t by (simp add: ball_Un) metis
  qed
qed

lemma insert_approval_since:
  assumes i: "insert_approval a s = Inr (b, t)" and since: "requests_since s0 s"
  shows "requests_since s0 t"
proof (cases b)
  case False
  then show ?thesis using i since by (auto simp: insert_approval_def split: if_splits)
next
  case True
  have inv: "requests_inv s" using since by (simp add: requests_since_def)
  have t: "t = s\<lparr>st_approvals := st_approvals s @ [a]\<rparr>" and val: "validate_approval s a"
    and new: "\<forall>b \<in> set (st_approvals s). \<not> (ap_execution b = ap_execution a \<and> ap_approver b = ap_approver a)"
    using i True by (auto simp: insert_approval_def list_ex_iff split: if_splits)
  obtain e where e: "find_execution s (ap_execution a) = Some e" using val by (auto simp: validate_approval_def split: option.splits)
  then have mem: "e \<in> set (st_executions s)" "ex_id e = ap_execution a" by (auto simp: find_execution_def find_Some_iff)
  have "approval_ok [e] a"
    using val e mem(2) by (auto simp: validate_approval_def approval_ok_def profile_covers_def Let_def split: option.splits if_splits)
  then have ok: "approval_ok (st_executions s) a" using mem(1) by (auto simp: approval_ok_def)
  have rows: "execution_ok (st_approvals s @ [a]) f" if "execution_ok (st_approvals s) f" for f
    using that unfolding execution_ok_def by fastforce
  show ?thesis
  proof (rule requests_since_step [OF since])
    show "requests_follow s t" by (rule requests_follow_extend) (auto simp: t)
    show "requests_inv t" using inv ok new rows unfolding requests_inv_def t by auto
  qed
qed

section \<open>Every operation keeps it\<close>

lemma audit_since [simp]: "requests_since s0 (audit a b c s) \<longleftrightarrow> requests_since s0 s"
  by (auto simp: audit_def elim: requests_since_frame)

lemma fold_audit_since [simp]: "requests_since s0 (fold (\<lambda>e. audit a b (f e)) xs s) \<longleftrightarrow> requests_since s0 s"
  by (induction xs arbitrary: s) simp_all

lemma leases_since [simp]: "requests_since s0 (s\<lparr>st_leases := ls\<rparr>) \<longleftrightarrow> requests_since s0 s"
  by (auto elim: requests_since_frame)

lemma same_status_since:
  assumes "update_executions sel upd s = Inr t" "requests_since s0 s" "\<And>e. ex_retry_count (upd e) = ex_retry_count e"
  shows "requests_since s0 t"
  by (rule update_executions_since [OF assms(1,2)]) (simp add: assms(3))

lemma find_execution_id: "find_execution s i = Some e \<Longrightarrow> e \<in> set (st_executions s) \<and> ex_id e = i"
  by (auto simp: find_execution_def find_Some_iff)

lemma insert_fresh_since:
  assumes "requests_since s0 u" "insert_execution e (u\<lparr>st_next := st_next u + 1\<rparr>) = Inr t" "ex_id e = st_next u"
    "ex_retry_count e = 0" "0 \<le> ex_max_retries e"
  shows "requests_since s0 t"
proof -
  have "requests_since s0 (u\<lparr>st_next := st_next u + 1\<rparr>)" using assms(1) by (auto elim: requests_since_frame)
  moreover have "\<forall>f \<in> set (st_executions u). ex_id f < st_next u"
    using assms(1) by (simp add: requests_since_def requests_inv_def)
  ultimately show ?thesis using assms(3-5) by (intro insert_execution_since [OF assms(2)]) simp_all
qed

lemma new_execution_since: "body_keeps (requests_since s0) (new_execution_body input a required timeout key context h)"
  unfolding body_keeps_def
proof (intro allI impI, elim conjE)
  fix u x v
  assume u: "requests_since s0 u" and b: "new_execution_body input a required timeout key context h u = Inr (x, v)"
  then obtain e t where e: "insert_execution e (u\<lparr>st_next := st_next u + 1\<rparr>) = Inr t" "ex_id e = st_next u"
    "ex_retry_count e = 0" "ex_max_retries e = DEFAULT_EXECUTION_MAX_RETRIES"
    "v = audit (xi_requested_by input) ''execution_request_created'' (st_next u) t"
    by (auto simp: new_execution_body_def fresh_def and_then_Inr_iff)
  then have "requests_since s0 t" using insert_fresh_since [OF u e(1,2,3)] by (simp add: DEFAULT_EXECUTION_MAX_RETRIES_def)
  then show "requests_since s0 v" using e(5) by simp
qed

lemma shadow_since: "body_keeps (requests_since s0) (goaway_shadow_body recent decision resource)"
  unfolding body_keeps_def
proof (intro allI impI, elim conjE)
  fix u x v
  assume u: "requests_since s0 u" and "goaway_shadow_body recent decision resource u = Inr (x, v)"
  then consider "v = u" | e where "insert_execution e (u\<lparr>st_next := st_next u + 1\<rparr>) = Inr v" "ex_id e = st_next u"
      "ex_retry_count e = 0" "ex_max_retries e = 0"
    by (auto simp: goaway_shadow_body_def fresh_def and_then_Inr_iff policy_row_for_def split: option.split_asm if_split_asm)
  then show "requests_since s0 v" by cases (use u insert_fresh_since in auto)
qed

lemma bridge_since: "body_keeps (requests_since s0) (bridge_body plan recent healthy mode n context h)"
  unfolding body_keeps_def
proof (intro allI impI, elim conjE)
  fix u x v
  assume u: "requests_since s0 u" and "bridge_body plan recent healthy mode n context h u = Inr (x, v)"
  then have "v = u \<or> (\<exists>p t. insert_execution (bridge_row mode p h (st_now u) (st_next u)) (u\<lparr>st_next := st_next u + 1\<rparr>) = Inr t \<and>
      v = audit ''policy-engine'' ''policy_bridge_request_enqueued'' (st_next u) t)"
    unfolding bridge_body_def Let_def fresh_def
    by (simp add: and_then_Inr_iff split: option.split_asm sum.split_asm if_split_asm) blast?
  then show "requests_since s0 v"
  proof (elim disjE exE conjE)
    fix p t
    assume t: "insert_execution (bridge_row mode p h (st_now u) (st_next u)) (u\<lparr>st_next := st_next u + 1\<rparr>) = Inr t"
      and v: "v = audit ''policy-engine'' ''policy_bridge_request_enqueued'' (st_next u) t"
    show "requests_since s0 v"
      unfolding v audit_since by (rule insert_fresh_since [OF u t]) (simp_all add: bridge_row_def policy_row_for_def)
  qed (use u in simp)
qed

lemma approve_since: "body_keeps (requests_since s0) (approve_body context_hash i approver actor)"
  unfolding body_keeps_def
proof (intro allI impI, elim conjE)
  fix u x v
  assume u: "requests_since s0 u" and b: "approve_body context_hash i approver actor u = Inr (x, v)"
  then obtain a t where a: "insert_approval a u = Inr (True, t)"
    and c: "v = audit actor ''execution_approval_recorded'' i t \<or>
      (\<exists>t'. set_execution_status i ExApproved t = Inr t' \<and> v = audit actor ''execution_approval_recorded'' i t')"
    by (auto simp: approve_body_def Let_def and_then_Inr_iff split: option.splits if_splits)
  have t: "requests_since s0 t" using insert_approval_since [OF a u] .
  then show "requests_since s0 v"
    using c same_status_since [OF _ t] by (auto simp: set_execution_status_def)
qed

lemma confirm_since: "body_keeps (requests_since s0) (confirm_body context_hash i approver actor expected)"
  unfolding body_keeps_def
proof (intro allI impI, elim conjE)
  fix u x v
  assume u: "requests_since s0 u" and b: "confirm_body context_hash i approver actor expected u = Inr (x, v)"
  then obtain a t t' where a: "insert_approval a u = Inr (True, t)" "set_execution_status i ExApproved t = Inr t'"
    "v = audit actor ''execution_single_operator_confirmed'' i t'"
    by (auto simp: confirm_body_def and_then_Inr_iff split: option.splits if_splits)
  then show "requests_since s0 v"
    using same_status_since [OF _ insert_approval_since [OF a(1) u]] by (auto simp: set_execution_status_def)
qed

lemma update_status_since: "body_keeps (requests_since s0) (update_status_body i st actor)"
  unfolding body_keeps_def
proof (intro allI impI, elim conjE)
  fix u x v
  assume u: "requests_since s0 u" and "update_status_body i st actor u = Inr (x, v)"
  then obtain t upd where t: "update_executions (\<lambda>e. ex_id e = i) upd u = Inr t" "\<And>e. ex_retry_count (upd e) = ex_retry_count e"
    "v = audit actor (''execution_request_'' @ exec_status_name st) i t"
    by (auto simp: update_status_body_def and_then_Inr_iff simp del: if_split split: option.splits if_split_asm)
  then show "requests_since s0 v" using same_status_since [OF t(1) u t(2)] by simp
qed

lemma sweep_since:
  assumes "sweep_executions sel upd event s = Inr t" "requests_since s0 s"
    and "\<And>e. sel s e \<Longrightarrow> ex_retry_count e \<le> ex_max_retries e \<Longrightarrow>
      ex_retry_count e \<le> ex_retry_count (upd e) \<and> ex_retry_count (upd e) \<le> ex_max_retries e"
  shows "requests_since s0 t"
  using assms update_executions_since [of "sel s" upd s _ s0] by (auto simp: sweep_executions_def and_then_Inr_iff)

lemma maintenance_since: "body_keeps (requests_since s0) maintenance_body"
  unfolding body_keeps_def
proof (intro allI impI, elim conjE)
  fix u x v
  assume u: "requests_since s0 u" and "maintenance_body u = Inr (x, v)"
  then obtain u1 u2 where r:
    "sweep_executions reclaimable (\<lambda>e. e\<lparr>ex_status := ExQueued, ex_started := None, ex_next_retry := None\<rparr>)
       ''execution_request_reclaimed'' (expire_leases u) = Inr u1"
    "sweep_executions timed_out (\<lambda>e. e\<lparr>ex_status := ExTimeout\<rparr>) ''execution_request_timeout'' u1 = Inr u2"
    "sweep_executions retryable
       (\<lambda>e. e\<lparr>ex_status := ExQueued, ex_retry_count := ex_retry_count e + 1, ex_next_retry := None\<rparr>)
       ''execution_request_requeued'' u2 = Inr v"
    by (auto simp: maintenance_body_def and_then_Inr_iff)
  have "requests_since s0 (expire_leases u)" using u by (simp add: expire_leases_def)
  from sweep_since [OF r(1) this] have "requests_since s0 u1" by simp
  from sweep_since [OF r(2) this] have "requests_since s0 u2" by simp
  from sweep_since [OF r(3) this] show "requests_since s0 v" by (simp add: retryable_def)
qed

lemma claim_row_since: "claim_row s = Inr (x, t) \<Longrightarrow> requests_since s0 s \<Longrightarrow> requests_since s0 t"
  by (auto simp: claim_row_def and_then_Inr_iff split: option.splits intro: same_status_since)

lemma lease_for_since [simp]: "requests_since s0 (lease_for w i s) \<longleftrightarrow> requests_since s0 s"
  by (simp add: lease_for_def take_lease_def Let_def split: option.split)

lemma claim_since: "body_keeps (requests_since s0) (claim_body worker)"
  unfolding body_keeps_def
proof (intro allI impI, elim conjE)
  fix u x v
  assume u: "requests_since s0 u" and b: "claim_body worker u = Inr (x, v)"
  then obtain row t where t: "claim_row u = Inr (row, t)" by (auto simp: claim_body_def and_then_Inr_iff)
  have "requests_since s0 t" using claim_row_since [OF t u] .
  then show "requests_since s0 v" using b by (auto simp: claim_body_def t Let_def split: option.split_asm)
qed

lemma dry_run_since: "body_keeps (requests_since s0) (dry_run_body worker)"
  unfolding body_keeps_def
proof (intro allI impI, elim conjE)
  fix u x v
  assume u: "requests_since s0 u" and b: "dry_run_body worker u = Inr (x, v)"
  then obtain row t where t: "claim_row u = Inr (row, t)" by (auto simp: dry_run_body_def and_then_Inr_iff)
  have "requests_since s0 t" using claim_row_since [OF t u] .
  then show "requests_since s0 v" using b by (auto simp: dry_run_body_def t split: option.split_asm)
qed

lemma keeps_update_status [keeps_intros]: "keeps (requests_since s0) (update_execution_status i st actor)"
  unfolding update_execution_status_def
  by (intro keeps_intros keeps_transaction update_status_since row_property_since)

lemma keeps_maintenance [keeps_intros]: "keeps (requests_since s0) run_execution_maintenance"
  unfolding run_execution_maintenance_def by (intro keeps_transaction maintenance_since row_property_since)

lemma keeps_finish_worker [keeps_intros]: "keeps (requests_since s0) (finish_worker i worker)"
  unfolding finish_worker_def record_execution_metric_def
  by (intro keeps_intros keeps_execute row_property_since) (simp_all add: release_lease_def)

lemmas request_bodies = new_execution_since shadow_since bridge_since approve_since confirm_since claim_since dry_run_since row_property_since

lemma keeps_create: "keeps (requests_since s0) (create_execution_request context_hash input)"
  unfolding create_execution_request_def Let_def approval_profile_def
  by (intro keeps_intros keeps_query keeps_transaction request_bodies)

lemma keeps_shadow: "keeps (requests_since s0) (enqueue_goaway_shadow_challenge recent decision resource)"
  unfolding enqueue_goaway_shadow_challenge_def by (intro keeps_transaction request_bodies)

lemma keeps_bridge: "keeps (requests_since s0) (enqueue_policy_bridge_request context_hash plan recent healthy mode n)"
  unfolding enqueue_policy_bridge_request_def
proof (intro keeps_intros keeps_query request_bodies)
  fix planned
  show "keeps (requests_since s0) (case planned of Inl why \<Rightarrow> io_return (Rejected why)
     | Inr (p, Some e) \<Rightarrow> io_return (Duplicate (ex_id e))
     | Inr (p, None) \<Rightarrow>
         transaction (bridge_body plan recent healthy mode n (bp_context p) (context_hash (bp_context p))))"
    by (auto split: sum.split option.split intro!: keeps_intros keeps_transaction request_bodies)
qed

lemma keeps_approve: "keeps (requests_since s0) (approve_execution_request context_hash i approver actor)"
  unfolding approve_execution_request_def by (intro keeps_transaction request_bodies)

lemma keeps_confirm: "keeps (requests_since s0) (confirm_single_operator_execution context_hash i approver actor expected)"
  unfolding confirm_single_operator_execution_def by (intro keeps_transaction request_bodies)

lemma keeps_claim: "keeps (requests_since s0) (claim_execution_request_for_dispatch worker)"
  unfolding claim_execution_request_for_dispatch_def by (intro keeps_intros keeps_transaction request_bodies)

lemma keeps_complete: "keeps (requests_since s0) (complete_execution_dispatch_with_status i worker st)"
  unfolding complete_execution_dispatch_with_status_def by (intro keeps_intros)

lemma keeps_dry_run: "keeps (requests_since s0) (process_one_dry_run_for_worker worker)"
  unfolding process_one_dry_run_for_worker_def by (intro keeps_intros keeps_transaction request_bodies)

lemma find_append_None: "List.find P xs = None \<Longrightarrow> List.find P (xs @ ys) = List.find P ys"
  by (induction xs) (auto split: if_split_asm)

lemma find_unique:
  "distinct (map f xs) \<Longrightarrow> x \<in> set xs \<Longrightarrow> List.find (\<lambda>y. f y = f x) xs = Some x"
  by (induction xs) (auto simp: image_iff)

section \<open>Histories of requests\<close>

text \<open>The operations in any order and on any arguments, under any outcomes; the environment changes everything
  but the requests and their approvals.  \<open>context_hash\<close> is the same throughout.\<close>

inductive request_step :: "(json \<Rightarrow> string) \<Rightarrow> store \<Rightarrow> store \<Rightarrow> bool" for context_hash where
  create: "request_step context_hash s (snd (create_execution_request context_hash input s))"
| shadow: "request_step context_hash s (snd (enqueue_goaway_shadow_challenge recent decision resource s))"
| bridge: "request_step context_hash s (snd (enqueue_policy_bridge_request context_hash plan recent healthy mode n s))"
| approve: "request_step context_hash s (snd (approve_execution_request context_hash i approver actor s))"
| confirm: "request_step context_hash s (snd (confirm_single_operator_execution context_hash i approver actor expected s))"
| update: "request_step context_hash s (snd (update_execution_status i status actor s))"
| maintenance: "request_step context_hash s (snd (run_execution_maintenance s))"
| claim: "request_step context_hash s (snd (claim_execution_request_for_dispatch worker s))"
| complete: "request_step context_hash s (snd (complete_execution_dispatch i worker success s))"
| recovery: "request_step context_hash s (snd (complete_execution_dispatch_for_recovery i worker s))"
| dry_run: "request_step context_hash s (snd (process_one_dry_run_for_worker worker s))"
| environment: "st_executions t = st_executions s \<Longrightarrow> st_approvals t = st_approvals s \<Longrightarrow> st_next s \<le> st_next t \<Longrightarrow>
    request_step context_hash s t"

inductive request_run :: "(json \<Rightarrow> string) \<Rightarrow> store \<Rightarrow> store \<Rightarrow> bool" for context_hash where
  refl: "request_run context_hash s s"
| step: "request_run context_hash s t \<Longrightarrow> request_step context_hash t u \<Longrightarrow> request_run context_hash s u"

definition requests_reachable :: "(json \<Rightarrow> string) \<Rightarrow> store \<Rightarrow> bool" where
  "requests_reachable context_hash s \<longleftrightarrow>
     (\<exists>s0. st_executions s0 = [] \<and> st_approvals s0 = [] \<and> request_run context_hash s0 s)"

lemma request_step_since:
  assumes "request_step H s t" "requests_since s0 s"
  shows "requests_since s0 t"
  using assms
proof (induction rule: request_step.induct)
  case (environment t s)
  then show ?case by (auto elim: requests_since_frame)
qed (use keeps_create keeps_shadow keeps_bridge keeps_approve keeps_confirm keeps_update_status keeps_maintenance keeps_claim keeps_complete keeps_dry_run
     in \<open>simp_all add: keeps_def complete_execution_dispatch_def complete_execution_dispatch_for_recovery_def\<close>)

lemma request_run_since: "request_run H s t \<Longrightarrow> requests_since s0 s \<Longrightarrow> requests_since s0 t"
  by (induction rule: request_run.induct) (auto intro: request_step_since)

lemma requests_reachable_inv: "requests_reachable H s \<Longrightarrow> requests_inv s"
proof -
  assume "requests_reachable H s"
  then obtain s0 where s0: "st_executions s0 = []" "st_approvals s0 = []" "request_run H s0 s"
    by (auto simp: requests_reachable_def)
  then have "requests_inv s0" by (simp add: requests_inv_def)
  then show ?thesis using request_run_since [OF s0(3) requests_since_refl] by (simp add: requests_since_def)
qed

text \<open>Where a status can lead.\<close>

fun later_statuses :: "exec_status \<Rightarrow> exec_status set" where
  "later_statuses ExRollbackRequired = {ExRollbackRequired, ExCancelled}"
| "later_statuses ExSuccess = {ExSuccess}"
| "later_statuses ExCompleted = {ExCompleted}"
| "later_statuses ExTimeout = {ExTimeout}"
| "later_statuses ExCancelled = {ExCancelled}"
| "later_statuses _ = UNIV"

lemma later_statuses_run: "execution_status_transition_allowed\<^sup>*\<^sup>* a b \<Longrightarrow> b \<in> later_statuses a"
proof (induction rule: rtranclp_induct)
  case base
  then show ?case by (cases a) simp_all
next
  case (step b c)
  then show ?case by (cases a; cases b) (simp_all add: execution_status_transition_allowed_def)
qed

lemma approval_ok_row:
  "approval_ok [e] a \<longleftrightarrow> ex_id e = ap_execution a \<and> ex_context_hash e = Some (ap_hash a) \<and> ex_requester e \<noteq> None \<and>
        (if ap_mode a = Single_Operator_Confirmation
         then ex_required_approvals e = 1 \<and> profile_marked (ex_context e) \<and> names_operator (ex_context e) (Some (ap_approver a))
         else \<not> profile_marked (ex_context e) \<and> ex_requester e \<noteq> Some (ap_approver a))"
  by (simp add: approval_ok_def)

lemma find_updated:
  assumes "ts = map (\<lambda>r. if ex_id r = i then upd r else r) rs" "\<And>r. ex_id (upd r) = ex_id r"
  shows "List.find (\<lambda>r. ex_id r = i) ts = map_option upd (List.find (\<lambda>r. ex_id r = i) rs)"
  unfolding assms(1) by (induction rs) (simp_all add: assms(2))

lemma authority:
  assumes inv: "requests_inv s" and e: "e \<in> set (st_executions s)" "\<not> awaiting (ex_status e)" "ex_required_approvals e \<ge> 1"
  shows "int (length (independent_approvers s e)) \<ge> ex_required_approvals e \<or>
    (ex_required_approvals e = 1 \<and> profile_marked (ex_context e) \<and>
     (\<exists>a \<in> set (st_approvals s). ap_execution a = ex_id e \<and> ap_mode a = Single_Operator_Confirmation \<and>
        Some (ap_hash a) = ex_context_hash e \<and> names_operator (ex_context e) (Some (ap_approver a))))"
proof -
  obtain h where h: "ex_context_hash e = Some h"
    "int (length (filter (\<lambda>a. ap_execution a = ex_id e \<and> ap_hash a = h) (st_approvals s))) \<ge> ex_required_approvals e"
    using inv e by (auto simp: requests_inv_def execution_ok_def)
  let ?as = "filter (\<lambda>a. ap_execution a = ex_id e \<and> ap_hash a = h) (st_approvals s)"
  have ok: "approval_ok [e] a" if a: "a \<in> set ?as" for a
  proof -
    have "a \<in> set (st_approvals s)" using a by simp
    then have "approval_ok (st_executions s) a" using inv by (simp add: requests_inv_def)
    then obtain f where "f \<in> set (st_executions s)" "approval_ok [f] a" using approval_ok_iff by blast
    moreover have "ex_id f = ex_id e" using calculation a by (auto simp: approval_ok_def)
    moreover have "inj_on ex_id (set (st_executions s))" using inv by (simp add: requests_inv_def distinct_map)
    ultimately show ?thesis using e(1) by (metis inj_onD)
  qed
  show ?thesis
  proof (cases "profile_marked (ex_context e)")
    case True
    have "?as \<noteq> []" using h(2) e(3) by auto
    then obtain a where a: "a \<in> set ?as" by (meson last_in_set)
    then show ?thesis using ok [OF a] True h(1) by (auto simp: approval_ok_def split: if_splits)
  next
    case False
    have "filter (\<lambda>a. ap_execution a = ex_id e \<and> Some (ap_hash a) = ex_context_hash e
       \<and> ex_requester e \<noteq> None \<and> ex_requester e \<noteq> Some (ap_approver a)) (st_approvals s) = ?as"
    proof (rule filter_cong [OF HOL.refl])
      fix x assume x: "x \<in> set (st_approvals s)"
      show "(ap_execution x = ex_id e \<and> Some (ap_hash x) = ex_context_hash e \<and> ex_requester e \<noteq> None \<and>
          ex_requester e \<noteq> Some (ap_approver x)) = (ap_execution x = ex_id e \<and> ap_hash x = h)"
        using ok [of x] x False h(1) by (auto simp: approval_ok_row split: if_splits)
    qed
    moreover have "distinct (map ap_approver ?as)"
    proof -
      have "distinct (map (\<lambda>a. (ap_execution a, ap_approver a)) ?as)"
        using inv by (auto simp: requests_inv_def distinct_map inj_on_def)
      then show ?thesis by (auto simp: distinct_map inj_on_def)
    qed
    ultimately show ?thesis using h(2) by (simp add: independent_approvers_def distinct_remdups_id)
  qed
qed

lemma claim_row_claimed:
  assumes "claim_row s = Inr (Some e, t)"
  shows "e \<in> set (st_executions s)" "claimable s e"
    "t = s\<lparr>st_executions := map (\<lambda>r. if ex_id r = ex_id e then r\<lparr>ex_status := ExStarting, ex_started := Some (st_now s)\<rparr> else r)
       (st_executions s)\<rparr>"
proof -
  have f: "List.find (claimable s) (st_executions s) = Some e"
    and u: "update_executions (\<lambda>r. ex_id r = ex_id e) (\<lambda>r. r\<lparr>ex_status := ExStarting, ex_started := Some (st_now s)\<rparr>) s = Inr t"
    using assms by (auto simp: claim_row_def and_then_Inr_iff split: option.split_asm)
  show "e \<in> set (st_executions s)" "claimable s e" using f by (auto simp: find_Some_iff)
  show "t = s\<lparr>st_executions := map (\<lambda>r. if ex_id r = ex_id e then r\<lparr>ex_status := ExStarting, ex_started := Some (st_now s)\<rparr> else r)
       (st_executions s)\<rparr>" using u by (simp add: update_executions_def split: if_split_asm)
qed

section \<open>Properties\<close>

text \<open>C37 Nobody acts alone.  Whatever is done to the requests, whoever created them (a person, the policy bridge or a
  simulated challenge), in any order and with any failed or lost commits, a
  request that needs approvals and has left the waiting state, other than by being cancelled, has them: at least as many different people as
  it requires, all other than its requester, approved exactly its context; or it is a single-operator
  request, whose context names the operator, and that operator confirmed it.\<close>

theorem execution_authority:
  assumes "requests_reachable H s" "e \<in> set (st_executions s)" "ex_required_approvals e \<ge> 1"
    and "ex_status e \<notin> {ExWaitingApproval, ExCancelled}"
  shows "int (length (independent_approvers s e)) \<ge> ex_required_approvals e \<or>
    (ex_required_approvals e = 1 \<and> profile_marked (ex_context e) \<and>
     (\<exists>a \<in> set (st_approvals s). ap_execution a = ex_id e \<and> ap_mode a = Single_Operator_Confirmation \<and>
        Some (ap_hash a) = ex_context_hash e \<and> names_operator (ex_context e) (Some (ap_approver a))))"
proof -
  have inv: "requests_inv s" using assms(1) by (rule requests_reachable_inv)
  then have "ex_status e \<noteq> ExPending" using assms(2,3) by (auto simp: requests_inv_def execution_ok_def)
  then show ?thesis using authority [OF inv assms(2) _ assms(3)] assms(4) by (simp add: awaiting_def)
qed

text \<open>C38 A request is bound to what was approved.  After any further operations it still exists with the same
  action, requester, context, hash, window and count; its approvals are still there; its status has moved
  along the state machine only: an uncertain effect (\<^verbatim>\<open>rollback_required\<close>) can only be cancelled,
  and never runs again, finished requests stay finished, and it is retried at most \<^verbatim>\<open>max_retries\<close> times.\<close>

theorem execution_history:
  assumes "requests_reachable H s" "request_run H s t" "e \<in> set (st_executions s)"
  shows "\<exists>f \<in> set (st_executions t). same_snapshot e f \<and> ex_status f \<in> later_statuses (ex_status e) \<and>
      execution_status_transition_allowed\<^sup>*\<^sup>* (ex_status e) (ex_status f) \<and>
      ex_retry_count e \<le> ex_retry_count f \<and> ex_retry_count f \<le> ex_max_retries e \<and>
      set (matching_approvals s (ex_id e) h) \<subseteq> set (matching_approvals t (ex_id f) h)"
proof -
  have "requests_since s t"
    using request_run_since [OF assms(2) requests_since_refl] requests_reachable_inv [OF assms(1)] by blast
  then have t: "requests_inv t" "requests_follow s t" by (simp_all add: requests_since_def)
  then obtain f where f: "f \<in> set (st_executions t)" "row_path e f" using assms(3) unfolding requests_follow_def by blast
  obtain as where "st_approvals t = st_approvals s @ as" using t(2) by (auto simp: requests_follow_def)
  moreover have "same_snapshot e f" using f(2) by (simp add: row_path_def)
  moreover have "ex_retry_count f \<le> ex_max_retries e"
    using t(1) f(1) same_snapshotD(9) [OF \<open>same_snapshot e f\<close>] by (auto simp: requests_inv_def execution_ok_def)
  ultimately show ?thesis
    using f later_statuses_run same_snapshotD(1) [OF \<open>same_snapshot e f\<close>]
    by (intro bexI [of _ f]) (auto simp: row_path_def matching_approvals_def)
qed

text \<open>C39 What a worker is given may run.  The claimed request was approved, pending or
  queued after the maintenance, is now \<^verbatim>\<open>starting\<close>,
  has the name and the target of its action and context, and owns no active generation, so an external effect
  is never replayed.  If it needs approvals it has them: at least as many different people as it requires, all other
  than its requester, approved exactly its context, or it is a single-operator request which the operator its context
  names confirmed.  If it is a quarantine, its window is open and at least two people other than its requester
  approved exactly this context.\<close>

theorem claim_safe:
  assumes "requests_reachable H s" "claim_execution_request_for_dispatch worker s = (Inr (Some c), t)"
  shows "\<exists>e a. e \<in> set (st_executions (snd (run_execution_maintenance s))) \<and> ex_id e = cl_id c \<and> ex_status e \<in> {ExApproved, ExPending, ExQueued} \<and>
      find_execution t (cl_id c) = Some (e\<lparr>ex_status := ExStarting, ex_started := Some (st_now t)\<rparr>) \<and>
      \<not> owned t (cl_id c) \<and> find_action t (ex_action e) = Some a \<and> cl_action_name c = ac_name a \<and>
      cl_target c = jget (ex_context e) ''target'' \<and>
      (ex_required_approvals e \<ge> 1 \<longrightarrow>
         int (length (independent_approvers t e)) \<ge> ex_required_approvals e \<or>
         ex_required_approvals e = 1 \<and> profile_marked (ex_context e) \<and>
           (\<exists>ap \<in> set (st_approvals t). ap_execution ap = ex_id e \<and> ap_mode ap = Single_Operator_Confirmation \<and>
              Some (ap_hash ap) = ex_context_hash e \<and> names_operator (ex_context e) (Some (ap_approver ap)))) \<and>
      (quarantine_action (cl_action_name c) \<longrightarrow> unexpired t e \<and> length (independent_approvers t e) \<ge> 2)"
proof -
  obtain r1 s1 where m: "run_execution_maintenance s = (r1, s1)" by (rule prod.exhaust)
  have c: "transaction (claim_body worker) s1 = (Inr (Some c), t)" and r1: "r1 = Inr ()"
    using assms(2) by (auto simp: claim_execution_request_for_dispatch_def io_bind_Inr_iff m)
  let ?u = "snd (next_outcome s1)"
  have "requests_since s s1"
    using keeps_maintenance m requests_since_refl [OF requests_reachable_inv [OF assms(1)]]
    by (metis keeps_def snd_conv)
  then have inv: "requests_inv ?u"
    using requests_since_frame [of s s1 ?u] by (simp add: requests_since_def)
  have "claim_body worker ?u = Inr (Some c, t)" using transaction_Inr [OF c] .
  then obtain e u2 a where e: "claim_row ?u = Inr (Some e, u2)"
    and a: "find_action (lease_for worker (ex_id e) u2) (ex_action e) = Some a"
    and cc: "c = \<lparr> cl_id = ex_id e, cl_action_name = ac_name a, cl_target = jget (ex_context e) ''target'' \<rparr>"
    and t: "t = audit ''executor'' ''execution_request_starting'' (ex_id e) (lease_for worker (ex_id e) u2)"
    by (auto simp: claim_body_def and_then_Inr_iff Let_def split: option.split_asm)
  note cl = claim_row_claimed [OF e]
  have tf: "st_executions t = st_executions u2" "st_intents t = st_intents ?u" "st_quarantines t = st_quarantines ?u"
    "st_actions t = st_actions ?u" "st_policies t = st_policies ?u" "st_approvals t = st_approvals ?u" "st_now t = st_now ?u"
    by (simp_all add: t audit_def lease_for_def take_lease_def Let_def cl(3) split: option.split)
  have a': "find_action t (ex_action e) = Some a" "find_action ?u (ex_action e) = Some a"
    using a tf(4) by (simp_all add: find_action_def lease_for_def take_lease_def Let_def cl(3) split: option.split_asm)
  have fe: "find_execution t (ex_id e) = Some (e\<lparr>ex_status := ExStarting, ex_started := Some (st_now t)\<rparr>)"
  proof -
    have "st_executions t = map (\<lambda>r. if ex_id r = ex_id e
        then r\<lparr>ex_status := ExStarting, ex_started := Some (st_now t)\<rparr> else r) (st_executions ?u)"
      unfolding tf(1) cl(3) tf(7) by simp
    from find_updated [OF this] have "find_execution t (ex_id e) = map_option
        (\<lambda>r. r\<lparr>ex_status := ExStarting, ex_started := Some (st_now t)\<rparr>) (List.find (\<lambda>r. ex_id r = ex_id e) (st_executions ?u))"
      by (simp add: find_execution_def)
    moreover have "List.find (\<lambda>r. ex_id r = ex_id e) (st_executions ?u) = Some e"
      using inv cl(1) by (intro find_unique) (simp_all add: requests_inv_def)
    ultimately show ?thesis by (simp only: option.map)
  qed
  have ind: "independent_approvers t f = independent_approvers ?u f" for f
    by (simp add: independent_approvers_def tf)
  have un: "unexpired t f = unexpired ?u f" for f unfolding unexpired_def tf(7) ..
  have ow: "owned t i = owned ?u i" for i by (simp add: owned_def tf)
  have cb: "ex_status e \<in> {ExApproved, ExPending, ExQueued}" "\<not> owned ?u (ex_id e)"
    "quarantine_action (ac_name a) \<Longrightarrow> dual_approved ?u e a"
    using cl(2) a'(2) by (simp_all add: claimable_def)
  have q: "unexpired t e \<and> length (independent_approvers t e) \<ge> 2" if "quarantine_action (ac_name a)"
    using cb(3) [OF that] by (auto simp: dual_approved_def ind un split: option.split_asm)
  have au: "int (length (independent_approvers t e)) \<ge> ex_required_approvals e \<or>
         ex_required_approvals e = 1 \<and> profile_marked (ex_context e) \<and>
           (\<exists>ap \<in> set (st_approvals t). ap_execution ap = ex_id e \<and> ap_mode ap = Single_Operator_Confirmation \<and>
              Some (ap_hash ap) = ex_context_hash e \<and> names_operator (ex_context e) (Some (ap_approver ap)))"
    if r: "ex_required_approvals e \<ge> 1"
  proof -
    have "ex_status e \<noteq> ExPending" using r inv cl(1) by (auto simp: requests_inv_def execution_ok_def)
    then have "\<not> awaiting (ex_status e)" using cb(1) by (auto simp: awaiting_def)
    then show ?thesis using authority [OF inv cl(1) _ r] unfolding ind tf(6) by blast
  qed
  show ?thesis
    using cl(1) fe cb a'(1) q au by (intro exI [of _ e] exI [of _ a]) (simp add: cc ow m)
qed

text \<open>Creation while the database is well: what is computed from the request, then the key, then the row.\<close>

definition creation_plan :: "execution_input \<Rightarrow> store \<Rightarrow> msg + action_row \<times> int \<times> int option \<times> json" where
  "creation_plan input s =
     (case map_option (\<lambda>a. (a, find_policy s (ac_risk_level a))) (find_action s (xi_action input)) of
        None \<Rightarrow> Inl [Lit ''action not found'']
      | Some (a, p) \<Rightarrow>
          and_then (approval_requirements a p) (\<lambda>n.
          let prof = (if ac_requires_approval a \<and> n > 1 then clawforge_approval_profile s else multi_person);
              lowered = (if ac_requires_approval a \<and> n > 1 \<and> pr_mode prof = Single_Operator
                       \<and> ac_name a \<in> set (pr_allowed_actions prof) then Some (pr_operator prof, n) else None);
              required = (if lowered = None then n else 1);
              timeout = (if ac_requires_approval a then map_option po_timeout p else None)
          in if ac_requires_approval a \<and> xi_requester input = None
             then Inl [Lit ''approval-gated execution requires a requester identity'']
             else Inr (a, required, timeout,
               approval_context input a required timeout (normalized_key (xi_idempotency_key input)) lowered)))"

lemma create_quiet:
  assumes "st_outcomes s = []"
  shows "create_execution_request H input s =
    (case creation_plan input s of
       Inl e \<Rightarrow> (Inl e, s)
     | Inr (a, required, timeout, ctx) \<Rightarrow>
         (let key = normalized_key (xi_idempotency_key input) in
          case (case key of None \<Rightarrow> None | Some k \<Rightarrow> List.find (\<lambda>e. ex_idempotency_key e = Some k) (st_executions s)) of
            Some e \<Rightarrow>
              if ex_context_hash e = Some (H ctx) then (Inr (ex_id e), s)
              else (Inl [Lit ''idempotency key is already bound to another execution request''], s)
          | None \<Rightarrow>
              (case new_execution_body input a required timeout key ctx (H ctx) s of
                 Inl e \<Rightarrow> (Inl e, s) | Inr (x, v) \<Rightarrow> (Inr x, v))))"
proof (cases "find_action s (xi_action input)")
  case None
  then show ?thesis
    by (simp add: create_execution_request_def creation_plan_def io_bind_def query_quiet [OF assms])
next
  case (Some a)
  let ?p = "find_policy s (ac_risk_level a)"
  show ?thesis
  proof (cases "approval_requirements a ?p")
    case (Inl e)
    then show ?thesis using Some
      by (simp add: create_execution_request_def creation_plan_def io_bind_def query_quiet [OF assms])
  next
    case (Inr n)
    let ?g = "ac_requires_approval a \<and> n > 1"
    have prof: "(if ?g then approval_profile else io_return multi_person) s =
        (Inr (if ?g then clawforge_approval_profile s else multi_person), s)"
      by (simp add: approval_profile_def query_quiet [OF assms])
    show ?thesis
    proof (cases "normalized_key (xi_idempotency_key input)")
      case None
      then show ?thesis using Some Inr
        by (simp add: create_execution_request_def creation_plan_def io_bind_def query_quiet [OF assms] prof
            transaction_quiet [OF assms] Let_def)
    next
      case key: (Some k)
      show ?thesis using Some Inr key
        by (cases "List.find (\<lambda>e. ex_idempotency_key e = Some k) (st_executions s)")
          (simp_all add: create_execution_request_def creation_plan_def io_bind_def query_quiet [OF assms] prof
            transaction_quiet [OF assms] Let_def)
    qed
  qed
qed

lemma creation_plan_cong:
  assumes "st_actions t = st_actions s" "st_policies t = st_policies s" "st_profile t = st_profile s" "st_users t = st_users s"
  shows "creation_plan input t = creation_plan input s"
proof -
  have "find_action t = find_action s" "find_policy t = find_policy s" "clawforge_approval_profile t = clawforge_approval_profile s"
    unfolding fun_eq_iff find_action_def find_policy_def clawforge_approval_profile_def assms by simp_all
  then show ?thesis unfolding creation_plan_def by (simp only:)
qed

text \<open>Retrying is safe.  Submitting a request with an idempotency key again, after the first submission took
  effect, creates nothing and returns the same request.\<close>

theorem create_idempotent:
  assumes "create_execution_request H input s = (Inr i, t)" "normalized_key (xi_idempotency_key input) \<noteq> None"
    and "st_outcomes s = []"
  shows "create_execution_request H input t = (Inr i, t)"
proof -
  obtain k where k: "normalized_key (xi_idempotency_key input) = Some k" using assms(2) by blast
  obtain a required timeout ctx where plan: "creation_plan input s = Inr (a, required, timeout, ctx)"
    using assms(1) by (auto simp: create_quiet [OF assms(3)] split: sum.split_asm)
  show ?thesis
  proof (cases "List.find (\<lambda>e. ex_idempotency_key e = Some k) (st_executions s)")
    case (Some e)
    then have "t = s" using assms(1) by (auto simp: create_quiet [OF assms(3)] plan k split: if_split_asm)
    then show ?thesis using assms(1) by simp
  next
    case None
    then have b: "new_execution_body input a required timeout (Some k) ctx (H ctx) s = Inr (i, t)"
      using assms(1) by (auto simp: create_quiet [OF assms(3)] plan k split: sum.split_asm)
    then obtain e where e: "st_executions t = st_executions s @ [e]" "ex_id e = i" "ex_idempotency_key e = Some k"
      "ex_context_hash e = Some (H ctx)" and t: "st_outcomes t = []" "st_actions t = st_actions s"
      "st_policies t = st_policies s" "st_profile t = st_profile s" "st_users t = st_users s"
      using assms(3) by (auto simp: new_execution_body_def fresh_def insert_execution_def audit_def and_then_Inr_iff
          simp del: ex_simps split: if_split_asm)
    have "List.find (\<lambda>e. ex_idempotency_key e = Some k) (st_executions t) = Some e"
      using e(3) unfolding e(1) by (simp add: find_append_None [OF None])
    then show ?thesis
      using e by (simp add: create_quiet [OF t(1)] creation_plan_cong [OF t(2-5)] plan k)
  qed
qed

text \<open>C40 The two state machines disagree on one edge.  The code's table lets a failed request be queued by a
  status update, but the trigger wants its retry count raised with it, which that update never does: queueing a
  failed request by hand always fails, whatever the database does, and leaves every table as it was (the audit trail
  too; only the outcome of that one transaction is used up).\<close>

theorem manual_requeue_refused:
  assumes "find_execution s i = Some e" "ex_status e = ExFailed"
  shows "execution_status_transition_allowed ExFailed ExQueued \<and>
    (\<exists>m. update_execution_status i ''queued'' actor s = (Inl m, s\<lparr>st_outcomes := tl (st_outcomes s)\<rparr>))"
proof -
  let ?u = "snd (next_outcome s)"
  have q: "settable_status ''queued'' = Some ExQueued" by code_simp
  have mem: "e \<in> set (st_executions s)" "ex_id e = i" using find_execution_id [OF assms(1)] by simp_all
  have find: "find_execution ?u i = Some e" using assms(1) by (simp add: find_execution_def)
  have upd: "update_executions (\<lambda>e. ex_id e = i) (\<lambda>e. e\<lparr>ex_status := ExQueued, ex_started := ex_started e\<rparr>) ?u = Inl db_error"
    using mem assms(2) by (auto simp: update_executions_def list_all_iff validate_transition_def intro!: bexI [of _ e])
  have "update_status_body i ExQueued actor ?u = Inl db_error"
    using find assms(2) upd by (simp add: update_status_body_def execution_status_transition_allowed_def)
  moreover have "?u = s\<lparr>st_outcomes := tl (st_outcomes s)\<rparr>" by (simp add: next_outcome_def split: list.split)
  ultimately show ?thesis
    by (cases "next_outcome s")
      (auto simp: update_execution_status_def q transaction_def execution_status_transition_allowed_def)
qed

section \<open>Witnesses\<close>

text \<open>An organisation with one critical action, a two-person policy, a requester and two approvers.\<close>

definition example_hash :: "json \<Rightarrow> string" where
  "example_hash v = ''5f''"

definition example_org :: store where
  "example_org = example_store\<lparr>st_next := 10,
     st_actions := [\<lparr> ac_id = 1, ac_name = ''docker.quarantine_container'', ac_risk_level = ''critical'', ac_enabled = True,
       ac_requires_approval = True \<rparr>],
     st_policies := [\<lparr> po_risk_level = ''critical'', po_required_approvals = 2, po_timeout = 3600 \<rparr>],
     st_users := [\<lparr> us_id = 2, us_name = ''ann'', us_enabled = True, us_role = ''Approver'' \<rparr>,
       \<lparr> us_id = 3, us_name = ''bob'', us_enabled = True, us_role = ''Administrator'' \<rparr>]\<rparr>"

definition example_input :: execution_input where
  "example_input = \<lparr> xi_action = 1, xi_workflow = None, xi_decision = None, xi_requested_by = ''eve'', xi_requester = Some 4,
     xi_idempotency_key = Some ''key'', xi_target = Some (JObj []) \<rparr>"

definition example_requested :: store where
  "example_requested = snd (create_execution_request example_hash example_input example_org)"

definition example_approved :: store where
  "example_approved = snd (approve_execution_request example_hash 10 3 ''bob''
     (snd (approve_execution_request example_hash 10 2 ''ann'' example_requested)))"

lemma example_approved_reachable: "requests_reachable example_hash example_approved"
proof -
  have "request_run example_hash example_org example_approved"
    unfolding example_approved_def example_requested_def
    by (rule request_run.step [OF request_run.step [OF request_run.step [OF request_run.refl]]])
      (rule request_step.create request_step.approve)+
  then show ?thesis unfolding requests_reachable_def
    by (intro exI [of _ example_org]) (simp add: example_org_def example_store_def)
qed

lemma example_approved_row:
  "map (\<lambda>e. (ex_id e, ex_status e, ex_required_approvals e, ex_context_hash e, profile_marked (ex_context e)))
     (st_executions example_approved) = [(10, ExApproved, 2, Some ''5f'', False)]"
  by code_simp

lemma example_approved_member:
  obtains e where "st_executions example_approved = [e]" "ex_id e = 10" "ex_status e = ExApproved" "ex_required_approvals e = 2"
    "\<not> profile_marked (ex_context e)"
  using example_approved_row by (cases "st_executions example_approved") auto

lemma execution_authority_witness:
  "\<exists>e. st_executions example_approved = [e] \<and> int (length (independent_approvers example_approved e)) \<ge> 2"
proof -
  obtain e where e: "st_executions example_approved = [e]" "ex_id e = 10" "ex_status e = ExApproved" "ex_required_approvals e = 2"
    "\<not> profile_marked (ex_context e)" by (rule example_approved_member)
  then show ?thesis using execution_authority [OF example_approved_reachable, of e] by auto
qed

lemma execution_history_witness:
  "\<exists>e f. st_executions example_approved = [e] \<and> f \<in> set (st_executions (snd (run_execution_maintenance example_approved))) \<and>
     same_snapshot e f"
proof -
  obtain e where e: "st_executions example_approved = [e]" by (rule example_approved_member)
  moreover have "request_run example_hash example_approved (snd (run_execution_maintenance example_approved))"
    by (rule request_run.step [OF request_run.refl]) (rule request_step.maintenance)
  ultimately show ?thesis using execution_history [OF example_approved_reachable, of _ e] by (simp, blast)
qed

lemma example_claim:
  "fst (claim_execution_request_for_dispatch (Some 9) example_approved) =
     Inr (Some \<lparr> cl_id = 10, cl_action_name = ''docker.quarantine_container'', cl_target = Some (JObj []) \<rparr>)"
  by code_simp

lemma claim_safe_witness:
  "\<exists>t e. claim_execution_request_for_dispatch (Some 9) example_approved =
       (Inr (Some \<lparr> cl_id = 10, cl_action_name = ''docker.quarantine_container'', cl_target = Some (JObj []) \<rparr>), t) \<and>
     find_execution t 10 = Some e \<and> ex_status e = ExStarting \<and> \<not> owned t 10 \<and> unexpired t e \<and>
     length (independent_approvers t e) \<ge> 2"
proof -
  let ?c = "\<lparr> cl_id = 10, cl_action_name = ''docker.quarantine_container'', cl_target = Some (JObj []) \<rparr>"
  let ?t = "snd (claim_execution_request_for_dispatch (Some 9) example_approved)"
  have c: "claim_execution_request_for_dispatch (Some 9) example_approved = (Inr (Some ?c), ?t)"
    using example_claim by (cases "claim_execution_request_for_dispatch (Some 9) example_approved") simp
  obtain e where e: "find_execution ?t 10 = Some (e\<lparr>ex_status := ExStarting, ex_started := Some (st_now ?t)\<rparr>)"
    "\<not> owned ?t 10" "unexpired ?t e" "length (independent_approvers ?t e) \<ge> 2"
    using claim_safe [OF example_approved_reachable c] by (auto simp: quarantine_action_def)
  have "unexpired ?t (e\<lparr>ex_status := ExStarting, ex_started := Some (st_now ?t)\<rparr>)" using e(3) by (simp add: unexpired_def)
  moreover have "independent_approvers ?t (e\<lparr>ex_status := ExStarting, ex_started := Some (st_now ?t)\<rparr>) = independent_approvers ?t e"
    by (simp add: independent_approvers_def)
  ultimately show ?thesis using c e by (intro exI [of _ ?t] exI [of _ "e\<lparr>ex_status := ExStarting, ex_started := Some (st_now ?t)\<rparr>"]) simp
qed

lemma create_idempotent_witness:
  "create_execution_request example_hash example_input example_requested = (Inr 10, example_requested)"
proof -
  have "fst (create_execution_request example_hash example_input example_org) = Inr 10" by code_simp
  then have "create_execution_request example_hash example_input example_org = (Inr 10, example_requested)"
    unfolding example_requested_def by (cases "create_execution_request example_hash example_input example_org") simp
  moreover have "normalized_key (xi_idempotency_key example_input) \<noteq> None" by code_simp
  ultimately show ?thesis using create_idempotent by (simp add: example_org_def example_store_def)
qed

definition example_failed :: store where
  "example_failed = example_requested\<lparr>st_executions := map (\<lambda>e. e\<lparr>ex_status := ExFailed\<rparr>) (st_executions example_requested)\<rparr>"

lemma manual_requeue_refused_witness:
  "\<exists>m. update_execution_status 10 ''queued'' ''ann'' example_failed = (Inl m, example_failed)"
proof -
  have "map_option ex_status (find_execution example_failed 10) = Some ExFailed" by code_simp
  then obtain e where "find_execution example_failed 10 = Some e" "ex_status e = ExFailed" by auto
  moreover have "example_failed\<lparr>st_outcomes := tl (st_outcomes example_failed)\<rparr> = example_failed" by code_simp
  ultimately show ?thesis using manual_requeue_refused [of example_failed 10 e "''ann''"] by simp
qed

text \<open>A request the bridge proposes waits like any other, for the one it names.\<close>

definition example_plan :: "store \<Rightarrow> string + bridge_plan" where
  "example_plan s = Inr \<lparr> bp_action = 1, bp_key = ''policy-bridge:propose:7'', bp_required = 2, bp_timeout = Some 3600,
     bp_requester = Some 4, bp_context = JObj [] \<rparr>"

lemma bridge_proposes:
  "(let (r, t) = enqueue_policy_bridge_request (\<lambda>_. replicate 64 CHR ''0'') example_plan (\<lambda>_. True) True Propose 5 example_org in
    (r, map (\<lambda>e. (ex_id e, ex_status e, ex_required_approvals e, ex_max_retries e)) (st_executions t))) =
   (Inr (Enqueued 10), [(10, ExWaitingApproval, 2, 0)])"
  by code_simp

end
