(* ===== verification/Incident_Source.thy ===== *)
theory Incident_Source
  imports Approvals
begin

text \<open>
  \<^verbatim>\<open>storage/src/incident_source_resolution.rs\<close> and the function of migration 0064 it calls: the address of a
  pseudonymised incident source is released to the executor only for a request that is being dispatched and, where the
  policy bridge made the request on the strength of a reputation, only while that still holds.
\<close>

definition RESOLVING_ACTIONS :: "string list" where
  "RESOLVING_ACTIONS =
     [''nftables.block_incident_source'', ''haproxy.block_incident_source'',
      ''haproxy_ratelimit.block_incident_source'', ''firewall.block_incident_source'']"

text \<open>\<^verbatim>\<open>approval_context -> 'target'\<close> and \<^verbatim>\<open>->> key\<close> on a string member.\<close>

definition context_target :: "execution_row \<Rightarrow> json" where
  "context_target e = (case jget (ex_context e) ''target'' of Some t \<Rightarrow> t | None \<Rightarrow> JNull)"

text \<open>The current view of a source (\<^verbatim>\<open>clawforge_current_source_intel\<close>): there is one while the pseudonym has an
  unexpired resolution to a single host.\<close>

definition current_source_intel :: "store \<Rightarrow> string \<Rightarrow> (listing option \<times> listing option) option" where
  "current_source_intel s p =
     map_option (\<lambda>r. (map_of (st_ip_listing s) (rs_raw_ip r), map_of (st_asn_listing s) p))
       (List.find (\<lambda>r. rs_pseudonym r = p \<and> rs_expires r > st_now s \<and> rs_single_host r) (st_resolutions s))"

definition listing_counts :: "int \<Rightarrow> int \<Rightarrow> int option \<Rightarrow> listing option \<Rightarrow> bool" where
  "listing_counts now min_confidence max_age l =
     (case (l, max_age) of
        (Some l, Some age) \<Rightarrow> li_confidence l \<ge> min_confidence \<and> li_last_seen l \<ge> now - age
      | _ \<Rightarrow> False)"

text \<open>
  The context of a bridge request holds what its plan wrote: a boolean and two integers.  A missing or null member makes
  the comparison unknown, which releases nothing; a member of another type, which is never written, would fail the
  query and releases nothing here either.
\<close>

definition int_member :: "json \<Rightarrow> string \<Rightarrow> int option" where
  "int_member v k = (case jget v k of Some (JInt n) \<Rightarrow> Some n | _ \<Rightarrow> None)"

definition evidence_still_holds :: "store \<Rightarrow> execution_row \<Rightarrow> string \<Rightarrow> bool" where
  "evidence_still_holds s e p =
     (case jget (ex_context e) ''policy_bridge'' of
        None \<Rightarrow> True
      | Some b \<Rightarrow> jget b ''intel_required'' = Some (JBool False) \<or>
          (case (current_source_intel s p, int_member b ''min_intel_confidence'') of
             (Some (ip, asn), Some c) \<Rightarrow>
               listing_counts (st_now s) c (int_member b ''max_evidence_age_seconds'') ip \<or>
               listing_counts (st_now s) c (int_member b ''max_evidence_age_seconds'') asn
           | _ \<Rightarrow> False))"

definition resolves :: "store \<Rightarrow> execution_row \<Rightarrow> resolution_row \<Rightarrow> bool" where
  "resolves s e r =
     (ex_status e = ExStarting \<and>
      (case find_action s (ex_action e) of Some a \<Rightarrow> ac_name a \<in> set RESOLVING_ACTIONS | None \<Rightarrow> False) \<and>
      get_str (context_target e) ''kind'' = Some ''incident_source'' \<and>
      get_str (context_target e) ''pseudonym'' = Some (rs_pseudonym r) \<and>
      jget (context_target e) ''simulation_only'' \<noteq> Some (JBool True) \<and>
      rs_expires r > st_now s \<and> rs_single_host r \<and> evidence_still_holds s e (rs_pseudonym r))"

definition clawforge_resolve_incident_source_for_apply :: "store \<Rightarrow> uuid \<Rightarrow> (string \<times> string) option" where
  "clawforge_resolve_incident_source_for_apply s i =
     (case find_execution s i of
        None \<Rightarrow> None
      | Some e \<Rightarrow> map_option (\<lambda>r. (rs_pseudonym r, rs_raw_ip r)) (List.find (resolves s e) (st_resolutions s)))"

record resolved_address =
  ra_pseudonym :: string
  ra_raw_ip :: string

definition resolve_incident_source_for_apply :: "uuid \<Rightarrow> (store, msg, resolved_address option) io" where
  "resolve_incident_source_for_apply i =
     transaction (\<lambda>s. Inr (
       map_option (\<lambda>(p, ip). \<lparr> ra_pseudonym = p, ra_raw_ip = ip \<rparr>) (clawforge_resolve_incident_source_for_apply s i),
       audit ''executor'' ''incident_source_resolved_for_apply'' i s))"

text \<open>What has to hold of a request and a resolution for the address to be released, spelled out.\<close>

definition listed_now :: "store \<Rightarrow> string \<Rightarrow> string \<Rightarrow> int \<Rightarrow> int \<Rightarrow> bool" where
  "listed_now s ip p min_confidence max_age \<longleftrightarrow>
     (\<exists>l. (map_of (st_ip_listing s) ip = Some l \<or> map_of (st_asn_listing s) p = Some l) \<and> min_confidence \<le> li_confidence l \<and>
        st_now s \<le> li_last_seen l + max_age)"

definition released_to :: "store \<Rightarrow> execution_row \<Rightarrow> string \<Rightarrow> string \<Rightarrow> bool" where
  "released_to s e p ip \<longleftrightarrow> ex_status e = ExStarting \<and> get_str (context_target e) ''pseudonym'' = Some p \<and>
     jget (context_target e) ''simulation_only'' \<noteq> Some (JBool True) \<and>
     (\<exists>r \<in> set (st_resolutions s). rs_pseudonym r = p \<and> rs_raw_ip r = ip \<and> st_now s < rs_expires r \<and> rs_single_host r) \<and>
     (\<forall>b. jget (ex_context e) ''policy_bridge'' = Some b \<and> jget b ''intel_required'' \<noteq> Some (JBool False) \<longrightarrow>
        (\<exists>r \<in> set (st_resolutions s). rs_pseudonym r = p \<and> st_now s < rs_expires r \<and> rs_single_host r \<and>
          (\<exists>c age. jget b ''min_intel_confidence'' = Some (JInt c) \<and> jget b ''max_evidence_age_seconds'' = Some (JInt age) \<and>
             listed_now s (rs_raw_ip r) p c age)))"

lemma int_member_Some: "int_member v k = Some n \<longleftrightarrow> jget v k = Some (JInt n)"
  by (auto simp: int_member_def split: option.split json.split)

lemma listing_counts_iff:
  "listing_counts now c age l \<longleftrightarrow> (\<exists>x a. l = Some x \<and> age = Some a \<and> c \<le> li_confidence x \<and> now \<le> li_last_seen x + a)"
  by (auto simp: listing_counts_def split: option.split)

lemma current_source_intel_Some:
  assumes "current_source_intel s p = Some (x, y)"
  shows "\<exists>r \<in> set (st_resolutions s). rs_pseudonym r = p \<and> st_now s < rs_expires r \<and> rs_single_host r \<and>
    x = map_of (st_ip_listing s) (rs_raw_ip r) \<and> y = map_of (st_asn_listing s) p"
  using assms unfolding current_source_intel_def by (auto simp: find_Some_iff)

lemma resolves_released:
  assumes "resolves s e r" "r \<in> set (st_resolutions s)"
  shows "released_to s e (rs_pseudonym r) (rs_raw_ip r)"
proof -
  have "\<exists>q \<in> set (st_resolutions s). rs_pseudonym q = rs_pseudonym r \<and> st_now s < rs_expires q \<and> rs_single_host q \<and>
      (\<exists>c age. jget b ''min_intel_confidence'' = Some (JInt c) \<and> jget b ''max_evidence_age_seconds'' = Some (JInt age) \<and>
         listed_now s (rs_raw_ip q) (rs_pseudonym r) c age)"
    if b: "jget (ex_context e) ''policy_bridge'' = Some b" "jget b ''intel_required'' \<noteq> Some (JBool False)" for b
  proof -
    have "evidence_still_holds s e (rs_pseudonym r)" using assms(1) by (simp add: resolves_def)
    then obtain x y c where view: "current_source_intel s (rs_pseudonym r) = Some (x, y)" "jget b ''min_intel_confidence'' = Some (JInt c)"
      and counts: "listing_counts (st_now s) c (int_member b ''max_evidence_age_seconds'') x \<or>
        listing_counts (st_now s) c (int_member b ''max_evidence_age_seconds'') y"
      using b by (auto simp: evidence_still_holds_def int_member_Some split: option.split_asm prod.split_asm)
    obtain q where q: "q \<in> set (st_resolutions s)" "rs_pseudonym q = rs_pseudonym r" "st_now s < rs_expires q" "rs_single_host q"
      "x = map_of (st_ip_listing s) (rs_raw_ip q)" "y = map_of (st_asn_listing s) (rs_pseudonym r)"
      using current_source_intel_Some [OF view(1)] by blast
    from counts obtain age l where "jget b ''max_evidence_age_seconds'' = Some (JInt age)" "x = Some l \<or> y = Some l"
      "c \<le> li_confidence l" "st_now s \<le> li_last_seen l + age"
      by (auto simp: listing_counts_iff int_member_Some)
    then have "listed_now s (rs_raw_ip q) (rs_pseudonym r) c age" using q(5,6) by (auto simp: listed_now_def)
    then show ?thesis using q(1-4) view(2) \<open>jget b ''max_evidence_age_seconds'' = Some (JInt age)\<close> by blast
  qed
  moreover have "\<exists>q \<in> set (st_resolutions s). rs_pseudonym q = rs_pseudonym r \<and> rs_raw_ip q = rs_raw_ip r \<and>
      st_now s < rs_expires q \<and> rs_single_host q" using assms by (auto simp: resolves_def)
  ultimately show ?thesis using assms(1) unfolding released_to_def by (simp add: resolves_def)
qed

text \<open>An address that is released belongs to an unexpired resolution of the pseudonym in the approved context
  of a request in dispatch; the journal, the requests and the receipts are untouched.\<close>

lemma resolve_for_apply:
  assumes "resolve_incident_source_for_apply i s = (Inr (Some a), s')"
  shows "\<exists>e. find_execution s i = Some e \<and> released_to s e (ra_pseudonym a) (ra_raw_ip a)"
proof -
  let ?u = "snd (next_outcome s)"
  have u: "find_execution ?u i = find_execution s i" "resolves ?u = resolves s"
    by (simp_all add: find_execution_def resolves_def find_action_def evidence_still_holds_def current_source_intel_def fun_eq_iff
        cong: option.case_cong)
  have "map_option (\<lambda>(p, ip). \<lparr> ra_pseudonym = p, ra_raw_ip = ip \<rparr>)
      (clawforge_resolve_incident_source_for_apply ?u i) = Some a"
    using transaction_Inr [OF assms [unfolded resolve_incident_source_for_apply_def]] by simp
  then obtain e r where "find_execution s i = Some e" "List.find (resolves s e) (st_resolutions s) = Some r"
    "ra_pseudonym a = rs_pseudonym r" "ra_raw_ip a = rs_raw_ip r"
    by (auto simp: clawforge_resolve_incident_source_for_apply_def u split: option.split_asm)
  moreover from this have "r \<in> set (st_resolutions s) \<and> resolves s e r" by (auto simp: find_Some_iff)
  ultimately show ?thesis using resolves_released [of s e r] by auto
qed

lemma resolve_for_apply_frame:
  assumes "resolve_incident_source_for_apply i s = (r, s')"
  shows "st_intents s' = st_intents s \<and> st_receipts s' = st_receipts s \<and> st_next s' = st_next s \<and>
    st_locked s' = st_locked s \<and> st_quarantines s' = st_quarantines s"
  using assms unfolding resolve_incident_source_for_apply_def
  by (elim transaction_cases) (auto simp: audit_def)

end
