(* ===== verification/Receipts.thy ===== *)
theory Receipts
  imports Rule_Journal
begin

text \<open>
  The receipts, kill switches and in-flight slots of firewall actions (\<^verbatim>\<open>storage/src/lib.rs\<close>).  A slot is
  reserved under the adapter's advisory lock, so a reservation's count and insertion are one step of the
  database.
\<close>

section \<open>Receipts\<close>

definition record_firewall_action_receipt :: "receipt_input \<Rightarrow> (store, msg, uuid) io" where
  "record_firewall_action_receipt input =
     (if (case in_verification input of
            None \<Rightarrow> False
          | Some r \<Rightarrow> \<not> (r = ''pending'' \<or> r = ''verified'' \<or> r = ''mismatch'' \<or> r = ''failed''))
      then io_fail [Lit ''invalid verification result'']
      else if in_ttl input = 0 then io_fail [Lit ''ttl_seconds must be greater than zero'']
      else if \<not> (in_kind input = ''apply'' \<or> in_kind input = ''rollback'') then io_fail [Lit ''invalid receipt kind'']
      else transaction (\<lambda>s.
        let (i, s) = fresh s;
            ttl = (if uint (in_ttl input) < 2 ^ 31 then uint (in_ttl input) else 2 ^ 31 - 1)
        in and_then (insert_receipt
          \<lparr> rr_id = i, rr_intent = None, rr_execution = in_execution input, rr_adapter = in_adapter input,
            rr_action_name = in_action_name input, rr_preflight = in_preflight input, rr_commands = in_commands input,
            rr_observed = in_observed input, rr_verification = in_verification input, rr_ttl = ttl,
            rr_plan = in_plan input, rr_dry_run = in_dry_run input, rr_expires = st_now s + ttl, rr_kind = in_kind input,
            rr_fingerprint = in_fingerprint input, rr_target_json = in_target_json input, rr_created = st_now s \<rparr> s)
          (\<lambda>s. Inr (i, s))))"

record expired_target =
  xt_receipt :: uuid
  xt_adapter :: string
  xt_fingerprint :: string
  xt_target_json :: json

definition rolled_back_later :: "store \<Rightarrow> receipt_row \<Rightarrow> bool" where
  "rolled_back_later s a =
     list_ex (\<lambda>r. rr_kind r = ''rollback'' \<and> rr_adapter r = rr_adapter a \<and> rr_fingerprint r = rr_fingerprint a
       \<and> rr_created r > rr_created a) (st_receipts s)"

definition expired_row :: "store \<Rightarrow> receipt_row \<Rightarrow> expired_target option" where
  "expired_row s a =
     (if rr_kind a = ''apply'' \<and> \<not> rr_dry_run a \<and> rr_intent a = None \<and> rr_expires a < st_now s \<and> \<not> rolled_back_later s a
      then
        (case (rr_fingerprint a, rr_target_json a) of
           (Some f, Some t) \<Rightarrow>
             Some \<lparr> xt_receipt = rr_id a, xt_adapter = rr_adapter a, xt_fingerprint = f, xt_target_json = t \<rparr>
         | _ \<Rightarrow> None)
      else None)"

definition expired_unrolled_back_firewall_targets :: "(store, msg, expired_target list) io" where
  "expired_unrolled_back_firewall_targets =
     query (\<lambda>s. List.map_filter (expired_row s) (sort_key rr_expires (st_receipts s)))"

definition recent_real_firewall_apply_count :: "int \<Rightarrow> (store, msg, int) io" where
  "recent_real_firewall_apply_count window =
     (if window \<le> 0 then io_fail [Lit ''window_seconds must be positive'']
      else query (\<lambda>s. int (length (filter (\<lambda>r. \<not> rr_dry_run r \<and> rr_kind r = ''apply'' \<and> rr_created r > st_now s - window)
        (st_receipts s)))))"

section \<open>Kill switches\<close>

definition create_firewall_kill_switch_request ::
  "string \<Rightarrow> string \<Rightarrow> json \<Rightarrow> string option \<Rightarrow> (store, msg, uuid) io" where
  "create_firewall_kill_switch_request adapter fingerprint target_json reason_text =
     (if trim adapter = [] then io_fail [Lit ''adapter must not be empty'']
      else if trim fingerprint = [] then io_fail [Lit ''target_fingerprint must not be empty'']
      else transaction (\<lambda>s.
        let (i, s) = fresh s;
            native = (adapter = ''docker'' \<or> adapter = ''proxmox'' \<or> adapter = ''tailscale'');
            generation = (if native
              then List.find (\<lambda>q. qi_adapter q = adapter \<and> qi_fingerprint q = fingerprint \<and> active (qi_status q)) (st_quarantines s)
              else None)
        in if native \<and> generation = None then Inl [Lit ''no active quarantine generation for kill switch'']
           else Inr (i, s\<lparr>st_kill_switches := st_kill_switches s @
             [\<lparr> ks_id = i, ks_adapter = adapter, ks_fingerprint = fingerprint,
                ks_target_json = (case generation of Some q \<Rightarrow> qi_target_json q | None \<Rightarrow> target_json),
                ks_reason = reason_text, ks_intent = map_option qi_id generation, ks_processed = None \<rparr>]\<rparr>)))"

definition pending_firewall_kill_switch_requests :: "(store, msg, kill_switch_row list) io" where
  "pending_firewall_kill_switch_requests = query (\<lambda>s. filter (\<lambda>k. ks_processed k = None) (st_kill_switches s))"

definition mark_firewall_kill_switch_request_processed :: "uuid \<Rightarrow> (store, msg, unit) io" where
  "mark_firewall_kill_switch_request_processed i =
     execute (\<lambda>s. s\<lparr>st_kill_switches :=
       map (\<lambda>k. if ks_id k = i \<and> ks_processed k = None then k\<lparr>ks_processed := Some (st_now s)\<rparr> else k) (st_kill_switches s)\<rparr>)"

section \<open>In-flight slots\<close>

definition live_slots :: "store \<Rightarrow> string \<Rightarrow> int \<Rightarrow> inflight_row list" where
  "live_slots s adapter stale_after = filter (\<lambda>r. if_adapter r = adapter \<and> if_started r > st_now s - stale_after) (st_inflight s)"

definition add_slot :: "string \<Rightarrow> store \<Rightarrow> uuid \<times> store" where
  "add_slot adapter s =
     (let (i, s) = fresh s in
      (i, s\<lparr>st_inflight := st_inflight s @ [\<lparr> if_id = i, if_adapter = adapter, if_started = st_now s \<rparr>]\<rparr>))"

definition begin_firewall_inflight_operation :: "string \<Rightarrow> (store, msg, uuid) io" where
  "begin_firewall_inflight_operation adapter = transaction (\<lambda>s. Inr (add_slot adapter s))"

definition end_firewall_inflight_operation :: "uuid \<Rightarrow> (store, msg, unit) io" where
  "end_firewall_inflight_operation i = execute (\<lambda>s. s\<lparr>st_inflight := filter (\<lambda>r. if_id r \<noteq> i) (st_inflight s)\<rparr>)"

definition firewall_inflight_operation_count :: "string \<Rightarrow> int \<Rightarrow> (store, msg, int) io" where
  "firewall_inflight_operation_count adapter stale_after =
     (if stale_after \<le> 0 then io_fail [Lit ''stale_after_seconds must be positive'']
      else query (\<lambda>s. int (length (live_slots s adapter stale_after))))"

definition try_reserve_firewall_inflight :: "string \<Rightarrow> int \<Rightarrow> int \<Rightarrow> (store, msg, uuid option) io" where
  "try_reserve_firewall_inflight adapter max_slots stale_after =
     (if max_slots \<le> 0 \<or> stale_after \<le> 0 then io_fail [Lit ''max and stale_after_seconds must be positive'']
      else transaction (\<lambda>s.
        if int (length (live_slots s adapter stale_after)) \<ge> max_slots then Inr (None, s)
        else (case add_slot adapter s of (i, s) \<Rightarrow> Inr (Some i, s))))"

section \<open>The bound\<close>

text \<open>The executors' slots: reserved and released in any order by any number of workers, while time passes.\<close>

inductive slot_step :: "int \<Rightarrow> int \<Rightarrow> store \<Rightarrow> store \<Rightarrow> bool" for max_slots stale_after where
  reserve: "slot_step max_slots stale_after s (snd (try_reserve_firewall_inflight adapter max_slots stale_after s))"
| release: "slot_step max_slots stale_after s (snd (end_firewall_inflight_operation i s))"
| environment: "st_inflight t = st_inflight s \<Longrightarrow> st_now s \<le> st_now t \<Longrightarrow> slot_step max_slots stale_after s t"

inductive slot_run :: "int \<Rightarrow> int \<Rightarrow> store \<Rightarrow> store \<Rightarrow> bool" for max_slots stale_after where
  refl: "slot_run max_slots stale_after s s"
| step: "slot_run max_slots stale_after s t \<Longrightarrow> slot_step max_slots stale_after t u \<Longrightarrow> slot_run max_slots stale_after s u"

definition slots_bounded :: "int \<Rightarrow> int \<Rightarrow> store \<Rightarrow> bool" where
  "slots_bounded max_slots stale_after s \<longleftrightarrow> (\<forall>adapter. int (length (live_slots s adapter stale_after)) \<le> max_slots)"

lemma length_filter_mono: "(\<And>x. x \<in> set xs \<Longrightarrow> P x \<Longrightarrow> Q x) \<Longrightarrow> length (filter P xs) \<le> length (filter Q xs)"
  by (induction xs) (auto simp: le_SucI)

lemma live_slots_older: "st_inflight t = st_inflight s \<Longrightarrow> st_now s \<le> st_now t \<Longrightarrow>
    length (live_slots t adapter d) \<le> length (live_slots s adapter d)"
  unfolding live_slots_def by (simp, rule length_filter_mono) simp

lemma row_property_slots: "row_property (slots_bounded m d)"
  by (simp add: row_property_def slots_bounded_def live_slots_def)

lemma slot_step_bounded:
  assumes "slot_step m d s t" "slots_bounded m d s"
  shows "slots_bounded m d t"
  using assms
proof (induction rule: slot_step.induct)
  case (reserve s adapter)
  have "body_keeps (slots_bounded m d) (\<lambda>s. if int (length (live_slots s adapter d)) \<ge> m then Inr (None, s)
        else (case add_slot adapter s of (i, s) \<Rightarrow> Inr (Some i, s)))"
    by (auto simp: body_keeps_def slots_bounded_def live_slots_def add_slot_def fresh_def split: if_split_asm)
  then have "keeps (slots_bounded m d) (try_reserve_firewall_inflight adapter m d)"
    unfolding try_reserve_firewall_inflight_def by (intro keeps_intros keeps_transaction row_property_slots)
  then show ?case using reserve by (simp add: keeps_def)
next
  case (release s i)
  have "slots_bounded m d (u\<lparr>st_inflight := filter (\<lambda>r. if_id r \<noteq> i) (st_inflight u)\<rparr>)" if "slots_bounded m d u" for u
    unfolding slots_bounded_def
  proof
    fix adapter
    have "length (live_slots (u\<lparr>st_inflight := filter (\<lambda>r. if_id r \<noteq> i) (st_inflight u)\<rparr>) adapter d)
        \<le> length (live_slots u adapter d)"
      by (simp add: live_slots_def, rule length_filter_mono) simp
    then show "int (length (live_slots (u\<lparr>st_inflight := filter (\<lambda>r. if_id r \<noteq> i) (st_inflight u)\<rparr>) adapter d)) \<le> m"
      using that unfolding slots_bounded_def by (meson of_nat_mono order_trans)
  qed
  then have "keeps (slots_bounded m d) (end_firewall_inflight_operation i)"
    unfolding end_firewall_inflight_operation_def by (intro keeps_execute row_property_slots)
  then show ?case using release by (simp add: keeps_def)
next
  case (environment t s)
  then show ?case
    unfolding slots_bounded_def using live_slots_older [of t s] by (meson of_nat_mono order_trans)
qed



end
