(* ===== verification/Rule_Apply.thy ===== *)
theory Rule_Apply
  imports Incident_Source Receipts Routing
begin

text \<open>
  The application of firewall rules in \<^verbatim>\<open>executor/src/main.rs\<close>: one adapter with the write-ahead journal around
  it, the fan-out over several adapters, and the dispatch of a claimed request to them.  The state of the
  executor's world is the database together with everything outside: \<^typ>\<open>store \<times> 'w\<close>.
\<close>

section \<open>Outcomes\<close>

datatype dispatch_completion = Dispatch_Success | Dispatch_Failed | Dispatch_Recovery

datatype firewall_effect = NoMutation | VerifiedOwned uuid | UncertainOwned uuid | NonJournaled

fun is_owned :: "firewall_effect \<Rightarrow> bool" where
  "is_owned (VerifiedOwned _) = True"
| "is_owned (UncertainOwned _) = True"
| "is_owned _ = False"

record dispatch_receipt =
  dr_adapter :: string
  dr_preflight :: json
  dr_commands :: json
  dr_observed :: "json option"
  dr_verification :: "string option"
  dr_ttl :: "32 word"
  dr_plan :: json
  dr_dry_run :: bool
  dr_fingerprint :: string

record dispatch_outcome =
  do_completion :: dispatch_completion
  do_effect :: firewall_effect
  do_result :: "msg option"
  do_error :: "msg option"
  do_receipts :: "dispatch_receipt list"

definition dispatch_failed :: "msg \<Rightarrow> dispatch_outcome" where
  "dispatch_failed reason_text =
     \<lparr> do_completion = Dispatch_Failed, do_effect = NoMutation, do_result = None, do_error = Some reason_text, do_receipts = [] \<rparr>"

definition receipt_persistence_failed :: "bool \<Rightarrow> dispatch_outcome \<Rightarrow> dispatch_outcome" where
  "receipt_persistence_failed dry o' = o'\<lparr>
     do_completion := (if dry then Dispatch_Failed else Dispatch_Recovery),
     do_error := Some [Lit ''firewall receipt persistence failed; reconciliation required'']\<rparr>"

type_synonym legacy_outcome = "bool \<times> msg option \<times> msg option \<times> dispatch_receipt list"

definition into_legacy :: "dispatch_outcome \<Rightarrow> legacy_outcome" where
  "into_legacy o' = (do_completion o' = Dispatch_Success, do_result o', do_error o', do_receipts o')"

definition from_legacy :: "legacy_outcome \<Rightarrow> dispatch_outcome" where
  "from_legacy v = (case v of (ok, result, error, receipts) \<Rightarrow>
     \<lparr> do_completion = (if ok then Dispatch_Success else Dispatch_Failed), do_effect = NonJournaled,
       do_result = result, do_error = error, do_receipts = receipts \<rparr>)"

section \<open>The two halves of the world\<close>

definition on_store :: "(store, 'e, 'a) io \<Rightarrow> (store \<times> 'w, 'e, 'a) io" where
  "on_store f m = (case m of (s, w) \<Rightarrow> case f s of (r, s') \<Rightarrow> (r, (s', w)))"

definition on_world :: "('w, 'e, 'a) io \<Rightarrow> (store \<times> 'w, 'e, 'a) io" where
  "on_world f m = (case m of (s, w) \<Rightarrow> case f w of (r, w') \<Rightarrow> (r, (s, w')))"

text \<open>\<^verbatim>\<open>let _ = call.await\<close>: the result is ignored.\<close>

definition ignoring :: "('m, 'e, 'a) io \<Rightarrow> ('m, 'f, unit) io" where
  "ignoring f m = (case f m of (_, m') \<Rightarrow> (Inr (), m'))"

text \<open>A function whose early returns are \<open>Inl\<close>.\<close>

definition returning :: "('m, 'a, 'a) io \<Rightarrow> 'm \<Rightarrow> 'a \<times> 'm" where
  "returning f m = (case f m of (Inl x, m') \<Rightarrow> (x, m') | (Inr x, m') \<Rightarrow> (x, m'))"

text \<open>\<^verbatim>\<open>match call.await { Ok(v) => .., Err(e) => .. }\<close> on a call of either kind.\<close>

definition attempt :: "('m, 'e, 'a) io \<Rightarrow> ('m, 'f, 'e + 'a) io" where
  "attempt f m = (case f m of (r, m') \<Rightarrow> (Inr r, m'))"

section \<open>Actions\<close>

definition adapter_state_json :: "(string \<Rightarrow> json option) \<Rightarrow> string \<Rightarrow> json" where
  "adapter_state_json parse raw =
     (if raw = [] then JObj []
      else case parse raw of Some v \<Rightarrow> v | None \<Rightarrow> JObj [(''raw'', JStr raw)])"

definition parse_firewall_action :: "uuid \<Rightarrow> json \<Rightarrow> msg + fw_action" where
  "parse_firewall_action request v =
     and_then (map_err (\<lambda>e. Lit ''invalid firewall target: '' # show_adapter_error e) (target_of_json v)) (\<lambda>t.
     Inr \<lparr> target = t,
           ttl_seconds = (case Option.bind (jget v ''ttl_seconds'') as_u64 of
              Some n \<Rightarrow> (if 0 < n \<and> n < 2 ^ 32 then of_nat n else DEFAULT_FIREWALL_ACTION_TTL_SECONDS)
            | None \<Rightarrow> DEFAULT_FIREWALL_ACTION_TTL_SECONDS),
           reason = ''execution_request '' @ uuid_text request \<rparr>)"

definition receipt_safe_action :: "fw_action \<Rightarrow> fw_action" where
  "receipt_safe_action a =
     (case target a of ResolvedIncidentSource _ p \<Rightarrow> a\<lparr>target := IncidentSource p\<rparr> | _ \<Rightarrow> a)"

definition commands_json :: "string list list \<Rightarrow> json" where
  "commands_json cs = JArr (map (\<lambda>c. JArr (map JStr c)) cs)"

section \<open>One adapter\<close>

text \<open>\<^verbatim>\<open>RuleJournal\<close>, without the store it points to.\<close>

record journal_ref =
  jo_execution :: uuid
  jo_action_name :: string

record prepared_rule =
  pg_id :: uuid
  pg_fingerprint :: string
  pg_target_json :: json
  pg_plan :: json
  pg_ttl :: "32 word"

definition preflight_step ::
  "(string \<Rightarrow> json option) \<Rightarrow> 'w adapter \<Rightarrow> fw_action \<Rightarrow> bool \<Rightarrow> (store \<times> 'w, dispatch_outcome, json \<times> bool) io" where
  "preflight_step parse A a dry =
     io_case (on_world (ad_preflight A (target a)))
       (\<lambda>_. if \<not> dry then io_fail (dispatch_failed [Lit ''adapter preflight failed; apply refused''])
            else io_return (JObj [(''mode'', JStr ''dry_run''), (''status'', JStr ''preflight_unavailable'')], False))
       (\<lambda>p. io_return (adapter_state_json parse (raw_set_json p), already_blocked p))"

definition write_ahead ::
  "(json \<Rightarrow> nat) \<Rightarrow> 'w adapter \<Rightarrow> fw_action \<Rightarrow> journal_ref \<Rightarrow> json \<Rightarrow> bool \<Rightarrow> (store \<times> 'w, dispatch_outcome, prepared_rule) io" where
  "write_ahead json_len A a j preflight_state already =
     (if already then
        io_fail (dispatch_failed [Lit ''rule already present at preflight; refusing to adopt pre-existing (possibly operator-owned) state - no apply, no ownership''])
      else case ad_render A (receipt_safe_action a) of
        Inl _ \<Rightarrow> io_fail (dispatch_failed [Lit ''adapter render failed; apply refused''])
      | Inr rendered \<Rightarrow>
          (let fingerprint = target_fingerprint rendered;
               target_json = recovery_to_json \<lparr> scope = ad_name A, rt_target = target a \<rparr>;
               rollback_plan = JObj [(''commands'', commands_json (rollback_commands rendered))]
           in io_case (on_store (prepare_firewall_rule_intent json_len (jo_execution j) (ad_name A) (jo_action_name j)
                  (ad_rule_scope A (target a)) fingerprint target_json preflight_state rollback_plan (rc_ttl_seconds rendered)))
                (\<lambda>_. io_fail (dispatch_failed [Lit ''firewall rule already owned by an active generation; reconcile before reapply'']))
                (\<lambda>i. io_return \<lparr> pg_id = i, pg_fingerprint = fingerprint, pg_target_json = target_json,
                       pg_plan = rollback_plan, pg_ttl = rc_ttl_seconds rendered \<rparr>)))"

definition prepare_step ::
  "(json \<Rightarrow> nat) \<Rightarrow> 'w adapter \<Rightarrow> fw_action \<Rightarrow> bool \<Rightarrow> journal_ref option \<Rightarrow> json \<Rightarrow> bool \<Rightarrow>
   (store \<times> 'w, dispatch_outcome, prepared_rule option) io" where
  "prepare_step json_len A a dry journal preflight_state already =
     (case journal of
        Some j \<Rightarrow> (if \<not> dry then io_bind (write_ahead json_len A a j preflight_state already) (\<lambda>p. io_return (Some p))
                   else io_return None)
      | None \<Rightarrow> io_return None)"

text \<open>\<^verbatim>\<open>let _ = store.mark_firewall_rule_recovery_required(id)\<close>, when there is a generation.\<close>

definition retain :: "prepared_rule option \<Rightarrow> (store \<times> 'w, dispatch_outcome, unit) io" where
  "retain prepared =
     (case prepared of
        Some p \<Rightarrow> ignoring (on_store (mark_firewall_rule_recovery_required (pg_id p)))
      | None \<Rightarrow> io_return ())"

text \<open>The verification's result after an apply that failed, and after one that succeeded.\<close>

definition presence_after :: "adapter_error + verification_result \<Rightarrow> string" where
  "presence_after r = (case r of Inr Verified \<Rightarrow> ''present'' | Inr NotPresent \<Rightarrow> ''absent'' | Inl _ \<Rightarrow> ''unknown'')"

definition verification_after :: "adapter_error + verification_result \<Rightarrow> string" where
  "verification_after r = (case r of Inr Verified \<Rightarrow> ''verified'' | Inr NotPresent \<Rightarrow> ''mismatch'' | Inl _ \<Rightarrow> ''failed'')"

definition uncertain_effect :: "prepared_rule option \<Rightarrow> firewall_effect" where
  "uncertain_effect prepared = (case prepared of Some p \<Rightarrow> UncertainOwned (pg_id p) | None \<Rightarrow> NonJournaled)"

definition apply_step ::
  "'w adapter \<Rightarrow> fw_action \<Rightarrow> bool \<Rightarrow> prepared_rule option \<Rightarrow> (store \<times> 'w, dispatch_outcome, apply_result) io" where
  "apply_step A a dry prepared =
     io_case
       (if dry \<and> is_incident_source (target a)
        then io_lift (and_then (ad_render A a) (\<lambda>r. Inr \<lparr> ar_receipt = r, observed_state = None \<rparr>))
        else on_world (ad_apply A a dry))
       (\<lambda>_. if dry then io_fail (dispatch_failed [Lit ''adapter dry-run planning failed''])
            else
              io_bind (retain prepared) (\<lambda>_.
              io_bind (attempt (on_world (ad_verify A (target a)))) (\<lambda>presence.
              io_fail \<lparr> do_completion = Dispatch_Recovery, do_effect = uncertain_effect prepared,
                do_result = Some [Lit ''adapter='', Lit (ad_name A), Lit '' apply outcome uncertain; observed_presence='',
                  Lit (presence_after presence)],
                do_error = Some [Lit ''real apply failed; manual reconciliation required; presence does not prove ownership''],
                do_receipts = [] \<rparr>)))
       io_return"

definition verify_step :: "'w adapter \<Rightarrow> fw_action \<Rightarrow> bool \<Rightarrow> (store \<times> 'w, dispatch_outcome, string option) io" where
  "verify_step A a dry =
     (if dry then io_return None
      else io_bind (attempt (on_world (ad_verify A (target a)))) (\<lambda>r. io_return (Some (verification_after r))))"

text \<open>The end of a journaled apply: finished with its receipt when verified, retained otherwise.\<close>

definition finish_step ::
  "(string \<Rightarrow> json option) \<Rightarrow> 'w adapter \<Rightarrow> journal_ref \<Rightarrow> json \<Rightarrow> prepared_rule \<Rightarrow> apply_result \<Rightarrow> string option \<Rightarrow>
   (store \<times> 'w, dispatch_outcome, dispatch_outcome) io" where
  "finish_step parse A j preflight_state p result verification =
     (if verification = Some ''verified'' then
        io_case (on_store (finish_firewall_rule_intent (pg_id p)
            \<lparr> in_execution = Some (jo_execution j), in_adapter = rc_adapter (ar_receipt result),
              in_action_name = jo_action_name j, in_preflight = preflight_state,
              in_commands = commands_json (rendered_commands (ar_receipt result)),
              in_observed = map_option (adapter_state_json parse) (observed_state result),
              in_verification = Some ''verified'', in_ttl = pg_ttl p, in_plan = pg_plan p, in_dry_run = False,
              in_kind = ''apply'', in_fingerprint = Some (pg_fingerprint p), in_target_json = Some (pg_target_json p) \<rparr>))
          (\<lambda>_. io_bind (retain (Some p)) (\<lambda>_.
             io_return \<lparr> do_completion = Dispatch_Recovery, do_effect = UncertainOwned (pg_id p),
               do_result = Some [Lit ''adapter='', Lit (ad_name A), Lit '' applied but receipt persistence failed''],
               do_error = Some [Lit ''firewall receipt persistence failed; reconciliation required''], do_receipts = [] \<rparr>))
          (\<lambda>_. io_return \<lparr> do_completion = Dispatch_Success, do_effect = VerifiedOwned (pg_id p),
               do_result = Some [Lit ''adapter='', Lit (ad_name A), Lit '' dry_run=false verification=verified journaled''],
               do_error = None, do_receipts = [] \<rparr>)
      else
        io_bind (retain (Some p)) (\<lambda>_.
        io_return \<lparr> do_completion = Dispatch_Recovery, do_effect = UncertainOwned (pg_id p),
          do_result = Some [Lit ''adapter='', Lit (ad_name A), Lit '' verification='',
            Lit (case verification of Some v \<Rightarrow> v | None \<Rightarrow> ''not_attempted'')],
          do_error = Some [Lit ''real apply could not be verified; manual reconciliation required''], do_receipts = [] \<rparr>))"

text \<open>The end of a dry run, and of an apply without a journal.\<close>

definition unjournaled_outcome ::
  "(string \<Rightarrow> json option) \<Rightarrow> 'w adapter \<Rightarrow> bool \<Rightarrow> json \<Rightarrow> apply_result \<Rightarrow> string option \<Rightarrow> dispatch_outcome" where
  "unjournaled_outcome parse A dry preflight_state result verification =
     (let ok = (dry \<or> verification = Some ''verified'');
          r = ar_receipt result in
      \<lparr> do_completion = (if ok then Dispatch_Success else Dispatch_Recovery), do_effect = NonJournaled,
        do_result = Some [Lit ''adapter='', Lit (ad_name A), Lit '' dry_run='', Lit (if dry then ''true'' else ''false''),
          Lit '' verification='', Lit (case verification of Some v \<Rightarrow> v | None \<Rightarrow> ''not_attempted'')],
        do_error = (if ok then None else Some [Lit ''real apply could not be verified; manual reconciliation required'']),
        do_receipts = [\<lparr> dr_adapter = rc_adapter r, dr_preflight = preflight_state,
          dr_commands = commands_json (rendered_commands r),
          dr_observed = map_option (adapter_state_json parse) (observed_state result),
          dr_verification = verification, dr_ttl = rc_ttl_seconds r,
          dr_plan = JObj [(''commands'', commands_json (rollback_commands r))],
          dr_dry_run = is_dry_run r, dr_fingerprint = target_fingerprint r \<rparr>] \<rparr>)"

definition apply_single_adapter ::
  "(string \<Rightarrow> json option) \<Rightarrow> (json \<Rightarrow> nat) \<Rightarrow> 'w adapter \<Rightarrow> fw_action \<Rightarrow> bool \<Rightarrow> journal_ref option \<Rightarrow>
   store \<times> 'w \<Rightarrow> dispatch_outcome \<times> store \<times> 'w" where
  "apply_single_adapter parse json_len A a dry journal = returning (
     io_bind (preflight_step parse A a dry) (\<lambda>(preflight_state, already).
     io_bind (prepare_step json_len A a dry journal preflight_state already) (\<lambda>prepared.
     io_bind (apply_step A a dry prepared) (\<lambda>result.
     io_bind (verify_step A a dry) (\<lambda>verification.
     case (prepared, journal) of
       (Some p, Some j) \<Rightarrow> finish_step parse A j preflight_state p result verification
     | _ \<Rightarrow> io_return (unjournaled_outcome parse A dry preflight_state result verification))))))"

section \<open>The fan-out\<close>

text \<open>What the loop over the adapters has gathered.\<close>

record fan_out =
  fo_mandatory_seen :: bool
  fo_mandatory_success :: bool
  fo_uncertain :: bool
  fo_effect :: firewall_effect
  fo_summaries :: "msg list"
  fo_errors :: "msg list"
  fo_receipts :: "dispatch_receipt list"

fun merge_effect :: "firewall_effect \<Rightarrow> firewall_effect \<Rightarrow> firewall_effect" where
  "merge_effect _ (UncertainOwned i) = UncertainOwned i"
| "merge_effect NoMutation (VerifiedOwned i) = VerifiedOwned i"
| "merge_effect NonJournaled (VerifiedOwned i) = VerifiedOwned i"
| "merge_effect e _ = e"

definition gather :: "string \<Rightarrow> dispatch_outcome \<Rightarrow> fan_out \<Rightarrow> fan_out" where
  "gather name r g =
     \<lparr> fo_mandatory_seen = (fo_mandatory_seen g \<or> name = MANDATORY_MULTI_ADAPTER),
       fo_mandatory_success = (if name = MANDATORY_MULTI_ADAPTER then do_completion r = Dispatch_Success
         else fo_mandatory_success g),
       fo_uncertain = (fo_uncertain g \<or> do_completion r = Dispatch_Recovery),
       fo_effect = merge_effect (fo_effect g) (do_effect r),
       fo_summaries = fo_summaries g @ (case do_result r of Some m \<Rightarrow> [m] | None \<Rightarrow> []),
       fo_errors = fo_errors g @ (case do_error r of Some m \<Rightarrow> [Lit name # Lit '': '' # m] | None \<Rightarrow> []),
       fo_receipts = fo_receipts g @ do_receipts r \<rparr>"

fun fan_out_adapters ::
  "(string \<Rightarrow> json option) \<Rightarrow> (json \<Rightarrow> nat) \<Rightarrow> fw_action \<Rightarrow> bool \<Rightarrow> journal_ref option \<Rightarrow> 'w adapter list \<Rightarrow> fan_out \<Rightarrow>
   store \<times> 'w \<Rightarrow> fan_out \<times> store \<times> 'w" where
  "fan_out_adapters parse json_len a dry journal [] g m = (g, m)"
| "fan_out_adapters parse json_len a dry journal (A # As) g m =
     (case apply_single_adapter parse json_len A a dry journal m of (r, m') \<Rightarrow>
        fan_out_adapters parse json_len a dry journal As (gather (ad_name A) r g) m')"

definition join_msgs :: "msg list \<Rightarrow> msg" where
  "join_msgs ms = concat (case ms of [] \<Rightarrow> [] | y # ys \<Rightarrow> y # map (\<lambda>z. Lit ''; '' # z) ys)"

definition fan_out_completion :: "bool \<Rightarrow> fan_out \<Rightarrow> dispatch_completion" where
  "fan_out_completion dry g =
     (if fo_uncertain g then Dispatch_Recovery
      else if fo_mandatory_seen g \<and> fo_mandatory_success g then Dispatch_Success
      else if \<not> dry \<and> (list_ex (\<lambda>r. \<not> dr_dry_run r) (fo_receipts g) \<or> is_owned (fo_effect g)) then Dispatch_Recovery
      else Dispatch_Failed)"

definition dispatch_multi_with_adapters ::
  "(string \<Rightarrow> json option) \<Rightarrow> (json \<Rightarrow> nat) \<Rightarrow> fw_action \<Rightarrow> bool \<Rightarrow> 'w adapter list \<Rightarrow> journal_ref option \<Rightarrow>
   store \<times> 'w \<Rightarrow> dispatch_outcome \<times> store \<times> 'w" where
  "dispatch_multi_with_adapters parse json_len a dry As journal m =
     (case fan_out_adapters parse json_len a dry journal As
        \<lparr> fo_mandatory_seen = False, fo_mandatory_success = False, fo_uncertain = False, fo_effect = NoMutation,
          fo_summaries = [], fo_errors = [], fo_receipts = [] \<rparr> m of
      (g, m') \<Rightarrow>
        (let errors = fo_errors g @ (if fo_mandatory_seen g then [] else [[Lit ''mandatory nftables adapter missing'']]) in
         (\<lparr> do_completion = fan_out_completion dry g, do_effect = fo_effect g, do_result = Some (join_msgs (fo_summaries g)),
            do_error = (if errors = [] then None else Some (join_msgs errors)), do_receipts = fo_receipts g \<rparr>, m')))"

section \<open>The dispatch of a rule\<close>

text \<open>The incident source of a live apply is resolved just before it; \<open>with_store\<close> says whether there is a store.\<close>

definition resolve_step :: "bool \<Rightarrow> uuid \<Rightarrow> fw_action \<Rightarrow> bool \<Rightarrow> (store \<times> 'w, dispatch_outcome, fw_action) io" where
  "resolve_step with_store i a dry =
     (case target a of
        IncidentSource p \<Rightarrow>
          (if dry then io_return a
           else if \<not> with_store then
             io_fail (dispatch_failed [Lit ''incident source cannot be resolved without a store; apply refused''])
           else io_case (on_store (resolve_incident_source_for_apply i))
             (\<lambda>_. io_fail (dispatch_failed [Lit ''incident source resolution failed; apply refused'']))
             (\<lambda>found. case found of
                Some r \<Rightarrow> (if ra_pseudonym r = p
                  then io_return (a\<lparr>target := ResolvedIncidentSource (ra_raw_ip r) (ra_pseudonym r)\<rparr>)
                  else io_fail (dispatch_failed [Lit ''incident source resolution missing or expired; apply refused'']))
              | None \<Rightarrow> io_fail (dispatch_failed [Lit ''incident source resolution missing or expired; apply refused''])))
      | _ \<Rightarrow> io_return a)"

definition try_dispatch_generic_with_mode ::
  "'w agent_env \<Rightarrow> (json \<Rightarrow> nat) \<Rightarrow> bool \<Rightarrow> claimed_request \<Rightarrow> bool \<Rightarrow> store \<times> 'w \<Rightarrow> dispatch_outcome option \<times> store \<times> 'w" where
  "try_dispatch_generic_with_mode E json_len with_store c dry m =
     (let env = ae_env E;
          multi = prefix FIREWALL_MULTI_ADAPTER_PREFIX (cl_action_name c);
          single = (if multi then None else adapter_for_action E (cl_action_name c));
          journal = (if with_store then Some \<lparr> jo_execution = cl_id c, jo_action_name = cl_action_name c \<rparr> else None)
      in
      if \<not> multi \<and> single = None then (None, m)
      else case cl_target c of
        None \<Rightarrow> (Some (dispatch_failed [Lit ''firewall action has no target'']), m)
      | Some t \<Rightarrow>
          (case parse_firewall_action (cl_id c) t of
             Inl _ \<Rightarrow> (Some (dispatch_failed [Lit ''invalid firewall action target'']), m)
           | Inr a \<Rightarrow>
               (case ttl_over_live_ceiling (ttl_seconds a) (firewall_max_ttl_seconds env) dry of
                  Some reason_text \<Rightarrow> (Some (dispatch_failed reason_text), m)
                | None \<Rightarrow>
                    (case resolve_step with_store (cl_id c) a dry m of
                       (Inl o', m') \<Rightarrow> (Some o', m')
                     | (Inr a', m') \<Rightarrow>
                         (case (if multi
                                then dispatch_multi_with_adapters (ae_parse_json E) json_len a' dry
                                  (List.map_filter (adapter_for_action E) (configured_multi_adapters env)) journal m'
                                else apply_single_adapter (ae_parse_json E) json_len (the single) a' dry journal m') of
                            (o', m'') \<Rightarrow> (Some o', m''))))))"

definition try_dispatch_generic ::
  "'w agent_env \<Rightarrow> (json \<Rightarrow> nat) \<Rightarrow> bool \<Rightarrow> claimed_request \<Rightarrow> store \<times> 'w \<Rightarrow> dispatch_outcome option \<times> store \<times> 'w" where
  "try_dispatch_generic E json_len with_store c =
     try_dispatch_generic_with_mode E json_len with_store c (dispatch_dry_run (ae_parse_json E) (ae_env E) c)"

section \<open>The journal around an apply\<close>

definition journal_good :: "store \<Rightarrow> bool" where
  "journal_good s = journal_ok (st_intents s) (st_receipts s) (st_next s)"

lemma journal_good_row:
  assumes "journal_good s" "find_intent s i = Some g"
  shows "g \<in> set (st_intents s)" "ri_id g = i" "row_ok (st_receipts s) g" "i < st_next s"
  using assms find_intent_Some [OF assms(2)] by (auto simp: journal_good_def journal_ok_def)

lemma find_intent_cong: "st_intents s' = st_intents s \<Longrightarrow> find_intent s' = find_intent s"
  by (simp add: find_intent_def fun_eq_iff)

lemma journal_good_cong:
  "st_intents s' = st_intents s \<Longrightarrow> st_receipts s' = st_receipts s \<Longrightarrow> st_next s' = st_next s \<Longrightarrow> journal_good s' = journal_good s"
  by (simp add: journal_good_def)

lemma find_update_row:
  assumes "distinct (map ri_id rs)" "g \<in> set rs"
  shows "List.find (\<lambda>r. ri_id r = j) (update_row (ri_id g) new rs) =
    (if j = ri_id g then Some (g\<lparr>ri_status := new\<rparr>) else List.find (\<lambda>r. ri_id r = j) rs)"
  using assms
proof (induction rs)
  case (Cons a rs)
  have rest: "update_row (ri_id g) new rs = rs" if "ri_id a = ri_id g"
  proof -
    have "ri_id r \<noteq> ri_id g" if "r \<in> set rs" for r
      using Cons.prems(1) \<open>ri_id a = ri_id g\<close> that by (metis distinct.simps(2) image_eqI list.simps(9) set_map)
    then show ?thesis unfolding update_row_def by (intro map_idI) simp
  qed
  show ?case
  proof (cases "ri_id a = ri_id g")
    case True
    then have "a = g" using Cons.prems by (auto simp: image_iff)
    then show ?thesis using rest True by (auto simp: update_row_def)
  next
    case False
    then show ?thesis using Cons by (auto simp: update_row_def)
  qed
qed simp

text \<open>A guarded change keeps every other row, and its own up to the status.\<close>

lemma guard_change_find:
  assumes "guard_change g s s'" "journal_good s" "find_intent s (ri_id g) = Some g" "active (ri_status g)"
  shows "journal_good s'" "j \<noteq> ri_id g \<Longrightarrow> find_intent s' j = find_intent s j"
    "find_intent s' (ri_id g) = Some g \<or>
     (\<exists>new. generation_transition (ri_status g) new \<and> find_intent s' (ri_id g) = Some (g\<lparr>ri_status := new\<rparr>))"
proof -
  have g: "g \<in> set (st_intents s)" and d: "distinct (map ri_id (st_intents s))"
    using journal_good_row [OF assms(2,3)] assms(2) by (auto simp: journal_good_def journal_ok_def)
  show "journal_good s'"
    using guard_change_journal_ok [OF assms(1) _ g assms(4)] assms(2) by (simp add: journal_good_def)
  show "j \<noteq> ri_id g \<Longrightarrow> find_intent s' j = find_intent s j"
    using assms(1) find_update_row [OF d g, of j] by (auto simp: guard_change_def find_intent_def)
  show "find_intent s' (ri_id g) = Some g \<or>
     (\<exists>new. generation_transition (ri_status g) new \<and> find_intent s' (ri_id g) = Some (g\<lparr>ri_status := new\<rparr>))"
    using assms(1,3) find_update_row [OF d g, of "ri_id g"] by (auto simp: guard_change_def find_intent_def)
qed

lemma guard_commit_intents:
  assumes "guard_commit g body s = (x, s')"
    and "\<And>u y v. st_intents u = st_intents s \<Longrightarrow> st_receipts u = st_receipts s \<Longrightarrow> body u = Inr (y, v) \<Longrightarrow>
      st_intents v = update_row (ri_id g) st (st_intents s) \<and> Q (st_receipts v)"
  shows "(\<forall>z. x \<noteq> Inr z) \<and> st_intents s' = st_intents s \<or>
    st_intents s' = update_row (ri_id g) st (st_intents s) \<and> Q (st_receipts s')"
proof -
  obtain y t where t: "transaction body s = (y, t)" by (rule prod.exhaust)
  then have xs: "x = y" "s' = release (ri_id g) t" using assms(1) by (simp_all add: guard_commit_def)
  from t show ?thesis
  proof (rule transaction_cases)
    fix u e assume "u = snd (next_outcome s)" "t = u" "y = Inl e"
    then show ?thesis using xs by simp
  next
    fix u z assume "u = snd (next_outcome s)" "body u = Inr (z, t)"
    then show ?thesis using xs assms(2) [of u z t] by simp
  qed
qed

text \<open>Retaining a generation for recovery never loses it.\<close>

definition retained :: "rule_intent \<Rightarrow> rule_intent \<Rightarrow> bool" where
  "retained r r' \<longleftrightarrow> r' = r\<lparr>ri_status := ri_status r'\<rparr> \<and> active (ri_status r')"

definition others_kept :: "uuid \<Rightarrow> store \<Rightarrow> store \<Rightarrow> bool" where
  "others_kept i s s' \<longleftrightarrow> (\<forall>j. j \<noteq> i \<longrightarrow> find_intent s' j = find_intent s j)"

lemma retained_refl [simp]: "retained r r \<longleftrightarrow> active (ri_status r)"
  by (simp add: retained_def)

lemma guard_recovery_keeps:
  assumes t: "guard_recovery_required g s = (x, s')" and s: "journal_good s"
    and g: "find_intent s (ri_id g) = Some g" "active (ri_status g)"
  shows "journal_good s' \<and> others_kept (ri_id g) s s' \<and> (\<exists>r'. find_intent s' (ri_id g) = Some r' \<and> retained g r')"
proof -
  have mem: "g \<in> set (st_intents s)" and ok: "row_ok (st_receipts s) g" using journal_good_row [OF s g(1)] by simp_all
  have t: "guard_transition g RecoveryRequired s = (x, s')" using t by (simp add: guard_recovery_required_def)
  have c: "guard_change g s s'" using guard_transition_change [OF t ok mem g(2)] by simp
  have "st_intents s' = st_intents s \<or> st_intents s' = update_row (ri_id g) RecoveryRequired (st_intents s)"
    using guard_commit_intents [OF t [unfolded guard_transition_def], of RecoveryRequired "\<lambda>_. True"] set_status_Inr
    by (fastforce elim: guard_transition_body_Inr)
  moreover have "find_intent s' (ri_id g) = Some (g\<lparr>ri_status := RecoveryRequired\<rparr>)"
    if "st_intents s' = update_row (ri_id g) RecoveryRequired (st_intents s)"
    using find_update_row [of "st_intents s" g "ri_id g" RecoveryRequired] s mem that
    by (simp add: find_intent_def journal_good_def journal_ok_def)
  moreover have "find_intent s' (ri_id g) = Some g" if "st_intents s' = st_intents s"
    using find_intent_cong [OF that] g(1) by simp
  ultimately have "\<exists>r'. find_intent s' (ri_id g) = Some r' \<and> retained g r'"
    using g(2) by (auto simp: retained_def active_def)
  then show ?thesis using guard_change_find(1,2) [OF c s g] by (auto simp: others_kept_def)
qed

lemma mark_recovery:
  assumes m: "mark_firewall_rule_recovery_required i s = (x, s')" and s: "journal_good s"
    and r: "find_intent s i = Some r" "active (ri_status r)"
  shows "journal_good s' \<and> others_kept i s s' \<and> (\<exists>r'. find_intent s' i = Some r' \<and> retained r r')"
proof -
  obtain y u where a: "acquire_firewall_rule_guard i s = (y, u)" by (rule prod.exhaust)
  from a show ?thesis
  proof (cases rule: acquire_cases)
    case refused
    then have "s' = u" using m a
      by (auto simp: mark_firewall_rule_recovery_required_def transition_firewall_rule_intent_def with_guard_def
          io_bind_def split: sum.split_asm option.split_asm)
    then show ?thesis using s r refused find_intent_cong [of u s] journal_good_cong [of u s] by (auto simp: others_kept_def)
  next
    case (granted g)
    then have g: "g = r" using r(1) by simp
    have u: "journal_good u" "find_intent u = find_intent s"
      using granted s find_intent_cong [of u s] journal_good_cong [of u s] by simp_all
    have i: "ri_id r = i" using journal_good_row [OF u(1), of i r] u(2) r(1) by auto
    have "ri_status r \<in> {Prepared, Completed, RecoveryRequired}" using r(2) by (auto simp: active_def)
    then have t: "guard_recovery_required r u = (x, s')"
      using m a granted(1) g
      by (auto simp: mark_firewall_rule_recovery_required_def transition_firewall_rule_intent_def with_guard_def io_bind_def
          guard_recovery_required_def)
    have f: "find_intent u (ri_id r) = Some r" using u(2) r(1) i by simp
    show ?thesis using guard_recovery_keeps [OF t u(1) f r(2)] u(2) i by (auto simp: others_kept_def)
  qed
qed

lemma finish_intent:
  assumes m: "finish_firewall_rule_intent i input s = (x, s')" and s: "journal_good s"
    and r: "find_intent s i = Some r" "active (ri_status r)"
  shows "journal_good s' \<and> others_kept i s s' \<and>
    (case x of
       Inr _ \<Rightarrow> find_intent s' i = Some (r\<lparr>ri_status := Completed\<rparr>) \<and>
         (\<exists>q \<in> set (st_receipts s'). rr_intent q = Some i \<and> rr_kind q = ''apply'' \<and> rr_verification q = Some ''verified'')
     | Inl _ \<Rightarrow> \<exists>r'. find_intent s' i = Some r' \<and> retained r r')"
proof -
  obtain y u where a: "acquire_firewall_rule_guard i s = (y, u)" by (rule prod.exhaust)
  from a show ?thesis
  proof (cases rule: acquire_cases)
    case refused
    then have "s' = u" "\<exists>e. x = Inl e" using m a
      by (auto simp: finish_firewall_rule_intent_def with_guard_def io_bind_def split: sum.split_asm option.split_asm)
    then show ?thesis using s r refused find_intent_cong [of u s] journal_good_cong [of u s] by (auto simp: others_kept_def)
  next
    case (granted g)
    then have g: "g = r" using r(1) by simp
    have u: "journal_good u" "find_intent u = find_intent s"
      using granted s find_intent_cong [of u s] journal_good_cong [of u s] by simp_all
    have i: "ri_id r = i" and ok: "row_ok (st_receipts u) r" and mem: "r \<in> set (st_intents u)"
      using journal_good_row [OF u(1), of i r] u(2) r(1) by auto
    have t: "guard_finish r input u = (x, s')"
      using m a granted(1) g by (simp add: finish_firewall_rule_intent_def with_guard_def io_bind_def)
    then have c: "guard_change r u s'" using ok by (rule guard_finish_change)
    have f: "find_intent u (ri_id r) = Some r" using u(2) r(1) i by simp
    define Q where "Q qs \<longleftrightarrow> (\<exists>q \<in> set qs. rr_intent q = Some i \<and> rr_kind q = ''apply'' \<and> rr_verification q = Some ''verified'')"
      for qs :: "receipt_row list"
    have "(\<forall>z. x \<noteq> Inr z) \<and> st_intents s' = st_intents u \<or>
      st_intents s' = update_row (ri_id r) Completed (st_intents u) \<and> Q (st_receipts s')"
    proof (cases "finish_mismatched r input")
      case True
      then show ?thesis using t by (auto simp: guard_finish_def guard_abort_def)
    next
      case False
      then have v: "in_verification input = Some ''verified''" by (simp add: finish_mismatched_def)
      have "guard_commit r (guard_finish_body r input) u = (x, s')" using t False by (simp add: guard_finish_def)
      then show ?thesis
      proof (rule guard_commit_intents)
        fix w z v'
        assume "st_intents w = st_intents u" "st_receipts w = st_receipts u" "guard_finish_body r input w = Inr (z, v')"
        then show "st_intents v' = update_row (ri_id r) Completed (st_intents u) \<and> Q (st_receipts v')"
          using v i by (fastforce simp: guard_finish_body_def fresh_def and_then_Inr_iff Q_def
              dest!: insert_receipt_Inr set_status_Inr)
      qed
    qed
    moreover have "find_intent s' i = Some (r\<lparr>ri_status := Completed\<rparr>)"
      if "st_intents s' = update_row (ri_id r) Completed (st_intents u)"
      using find_update_row [of "st_intents u" r i Completed] u(1) mem i that
      by (simp add: find_intent_def journal_good_def journal_ok_def)
    moreover have "find_intent s' i = Some r" if "st_intents s' = st_intents u"
      using find_intent_cong [OF that] u(2) r(1) by simp
    ultimately have "case x of Inr _ \<Rightarrow> find_intent s' i = Some (r\<lparr>ri_status := Completed\<rparr>) \<and> Q (st_receipts s')
       | Inl _ \<Rightarrow> \<exists>r'. find_intent s' i = Some r' \<and> retained r r'"
      using r(2) by (cases x) (auto simp: retained_def active_def)
    then show ?thesis using guard_change_find(1,2) [OF c u(1) f r(2)] u(2) i unfolding others_kept_def Q_def by simp
  qed
qed

lemma prepared_intent:
  assumes m: "prepare_firewall_rule_intent json_len ex a n sc fp t pf pl ttl s = (x, s')" and s: "journal_good s"
  shows "journal_good s' \<and> others_kept (st_next s) s s' \<and> find_intent s (st_next s) = None \<and>
    (\<forall>i. x = Inr i \<longrightarrow> i = st_next s \<and> (\<exists>r. find_intent s' i = Some r \<and> ri_status r = Prepared \<and> ri_execution r = ex \<and>
       ri_adapter r = a \<and> ri_action_name r = n \<and> ri_fingerprint r = fp \<and> ri_target_json r = t \<and> ri_ttl r = sint ttl))"
proof -
  have none: "find_intent s (st_next s) = None"
    using journal_good_row(4) [OF s] by (cases "find_intent s (st_next s)") auto
  from m show ?thesis
  proof (cases rule: prepare_cases)
    case unchanged
    then show ?thesis using s none find_intent_cong [of s' s] journal_good_cong [of s' s] by (auto simp: others_kept_def)
  next
    case (prepared p)
    have "find_intent s' j = (if j = st_next s then Some p else find_intent s j)" for j
      using prepared(1,5) none by (auto simp: find_intent_def find_snoc split: option.split)
    moreover have "journal_good s'"
      using prepared journal_ok_prepare [of "st_intents s" "st_receipts s" "st_next s" p] s by (auto simp: journal_good_def)
    ultimately show ?thesis using none prepared(10) unfolding prepared(11) by (auto simp: others_kept_def db_error_def)
  qed
qed

section \<open>The steps of a live apply\<close>

lemma others_kept_refl [simp]: "others_kept i s s"
  by (simp add: others_kept_def)

lemma others_kept_trans: "others_kept i s t \<Longrightarrow> others_kept i t u \<Longrightarrow> others_kept i s u"
  by (simp add: others_kept_def)

lemma retained_trans: "retained r q \<Longrightarrow> retained q p \<Longrightarrow> retained r p"
  unfolding retained_def by (cases r; cases q; cases p) auto

text \<open>The generation a journaled apply prepares.\<close>

definition generation_of :: "string \<Rightarrow> fw_target \<Rightarrow> journal_ref \<Rightarrow> rule_intent \<Rightarrow> bool" where
  "generation_of name t j r \<longleftrightarrow> ri_execution r = jo_execution j \<and> ri_action_name r = jo_action_name j \<and>
     ri_adapter r = name \<and> ri_target_json r = recovery_to_json \<lparr> scope = name, rt_target = t \<rparr>"

lemma generation_of_status [simp]: "generation_of n t j (r\<lparr>ri_status := st\<rparr>) = generation_of n t j r"
  by (simp add: generation_of_def)

lemma generation_of_retained: "retained r r' \<Longrightarrow> generation_of n t j r' = generation_of n t j r"
  unfolding retained_def by (metis generation_of_status)

lemma preflight_live:
  assumes "preflight_step parse A a False (s, w) = (x, m)"
  shows "m = (s, snd (ad_preflight A (target a) w)) \<and> (\<forall>o'. x = Inl o' \<longrightarrow> (\<exists>e. o' = dispatch_failed e))"
  using assms by (auto simp: preflight_step_def io_case_def on_world_def split: prod.splits sum.splits)

lemma prepare_live:
  assumes p: "prepare_step json_len A a False (Some j) st al (s, w) = (x, m)" and s: "journal_good s"
  shows "\<exists>s1. m = (s1, w) \<and> journal_good s1 \<and> others_kept (st_next s) s s1 \<and> find_intent s (st_next s) = None \<and>
    (case x of
       Inl o' \<Rightarrow> \<exists>e. o' = dispatch_failed e
     | Inr q \<Rightarrow> \<exists>q' r. q = Some q' \<and> pg_id q' = st_next s \<and> find_intent s1 (st_next s) = Some r \<and>
         ri_status r = Prepared \<and> generation_of (ad_name A) (target a) j r)"
proof -
  have none: "find_intent s (st_next s) = None"
    using journal_good_row(4) [OF s] by (cases "find_intent s (st_next s)") auto
  have p: "io_bind (write_ahead json_len A a j st al) (\<lambda>p. io_return (Some p)) (s, w) = (x, m)"
    using p by (simp add: prepare_step_def)
  show ?thesis
  proof (cases "al \<or> (\<exists>e. ad_render A (receipt_safe_action a) = Inl e)")
    case True
    then have "m = (s, w) \<and> (\<exists>e. x = Inl (dispatch_failed e))"
      using p by (auto simp: write_ahead_def io_bind_def split: if_split_asm)
    then show ?thesis using s none by auto
  next
    case False
    then obtain rd where al: "\<not> al" and rd: "ad_render A (receipt_safe_action a) = Inr rd"
      by (cases "ad_render A (receipt_safe_action a)") auto
    obtain y s1 where y: "prepare_firewall_rule_intent json_len (jo_execution j) (ad_name A) (jo_action_name j)
        (ad_rule_scope A (target a)) (target_fingerprint rd) (recovery_to_json \<lparr> scope = ad_name A, rt_target = target a \<rparr>) st
        (JObj [(''commands'', commands_json (rollback_commands rd))]) (rc_ttl_seconds rd) s = (y, s1)" by (rule prod.exhaust)
    have m: "m = (s1, w)" and x: "case y of Inl _ \<Rightarrow> \<exists>e. x = Inl (dispatch_failed e) | Inr i \<Rightarrow> \<exists>q. x = Inr (Some q) \<and> pg_id q = i"
      using p al rd y by (auto simp: write_ahead_def Let_def io_case_def io_bind_def on_store_def split: sum.splits)
    show ?thesis using prepared_intent [OF y s] m x by (cases y) (auto simp: generation_of_def)
  qed
qed

lemma retain_keeps:
  assumes "retain (Some p) (s, w) = (x, m)" "journal_good s" "find_intent s (pg_id p) = Some r" "active (ri_status r)"
  shows "\<exists>s1. x = Inr () \<and> m = (s1, w) \<and> journal_good s1 \<and> others_kept (pg_id p) s s1 \<and>
    (\<exists>r'. find_intent s1 (pg_id p) = Some r' \<and> retained r r')"
proof -
  obtain y s1 where "mark_firewall_rule_recovery_required (pg_id p) s = (y, s1)" by (rule prod.exhaust)
  then show ?thesis using assms(1) mark_recovery [OF _ assms(2-4)] by (auto simp: retain_def ignoring_def on_store_def)
qed

lemma apply_live:
  assumes p: "apply_step A a False (Some p) (s, w) = (x, m)" and s: "journal_good s"
    and r: "find_intent s (pg_id p) = Some r" "active (ri_status r)"
  shows "\<exists>s1 w1. m = (s1, w1) \<and> journal_good s1 \<and> others_kept (pg_id p) s s1 \<and>
    (case x of
       Inl o' \<Rightarrow> do_completion o' = Dispatch_Recovery \<and> do_effect o' = UncertainOwned (pg_id p) \<and> do_receipts o' = [] \<and>
         (\<exists>r'. find_intent s1 (pg_id p) = Some r' \<and> retained r r')
     | Inr res \<Rightarrow> s1 = s \<and> ad_apply A a False w = (Inr res, w1))"
proof -
  obtain y w1 where y: "ad_apply A a False w = (y, w1)" by (rule prod.exhaust)
  show ?thesis
  proof (cases y)
    case (Inr res)
    then show ?thesis using p y s by (auto simp: apply_step_def io_case_def on_world_def)
  next
    case (Inl e)
    obtain z m1 where z: "retain (Some p) (s, w1) = (z, m1)" by (rule prod.exhaust)
    then obtain s1 where s1: "z = Inr ()" "m1 = (s1, w1)" "journal_good s1" "others_kept (pg_id p) s s1"
      "\<exists>r'. find_intent s1 (pg_id p) = Some r' \<and> retained r r'" using retain_keeps [OF _ s r] by (metis (no_types, lifting))
    obtain v w2 where v: "ad_verify A (target a) w1 = (v, w2)" by (rule prod.exhaust)
    have "m = (s1, w2)" "\<exists>o'. x = Inl o' \<and> do_completion o' = Dispatch_Recovery \<and> do_effect o' = UncertainOwned (pg_id p) \<and> do_receipts o' = []"
      using p y Inl z s1(1,2) v
      by (auto simp: apply_step_def io_case_def on_world_def io_bind_def attempt_def uncertain_effect_def)
    then show ?thesis using s1 by auto
  qed
qed

lemma finish_live:
  assumes p: "finish_step parse A j st p res v (s, w) = (x, m)" and s: "journal_good s"
    and r: "find_intent s (pg_id p) = Some r" "active (ri_status r)"
  shows "\<exists>o' s1. x = Inr o' \<and> m = (s1, w) \<and> journal_good s1 \<and> others_kept (pg_id p) s s1 \<and> do_receipts o' = [] \<and>
    (do_effect o' = VerifiedOwned (pg_id p) \<and> do_completion o' = Dispatch_Success \<and> v = Some ''verified'' \<and>
       find_intent s1 (pg_id p) = Some (r\<lparr>ri_status := Completed\<rparr>) \<and>
       (\<exists>q \<in> set (st_receipts s1). rr_intent q = Some (pg_id p) \<and> rr_kind q = ''apply'' \<and> rr_verification q = Some ''verified'')
     \<or> do_effect o' = UncertainOwned (pg_id p) \<and> do_completion o' = Dispatch_Recovery \<and>
       (\<exists>r'. find_intent s1 (pg_id p) = Some r' \<and> retained r r'))"
proof (cases "v = Some ''verified''")
  case False
  obtain z m1 where z: "retain (Some p) (s, w) = (z, m1)" by (rule prod.exhaust)
  then show ?thesis using retain_keeps [OF z s r] p False by (auto simp: finish_step_def io_bind_def)
next
  case True
  define input where "input = \<lparr> in_execution = Some (jo_execution j), in_adapter = rc_adapter (ar_receipt res),
              in_action_name = jo_action_name j, in_preflight = st,
              in_commands = commands_json (rendered_commands (ar_receipt res)),
              in_observed = map_option (adapter_state_json parse) (observed_state res),
              in_verification = Some ''verified'', in_ttl = pg_ttl p, in_plan = pg_plan p, in_dry_run = False,
              in_kind = ''apply'', in_fingerprint = Some (pg_fingerprint p), in_target_json = Some (pg_target_json p) \<rparr>"
  obtain y t where y: "finish_firewall_rule_intent (pg_id p) input s = (y, t)" by (rule prod.exhaust)
  note f = finish_intent [OF y s r]
  show ?thesis
  proof (cases y)
    case (Inr rid)
    then show ?thesis using p True y f by (auto simp: finish_step_def io_case_def on_store_def input_def [symmetric])
  next
    case (Inl e)
    then obtain r1 where r1: "find_intent t (pg_id p) = Some r1" "retained r r1" and t: "journal_good t" "others_kept (pg_id p) s t"
      using f by auto
    obtain z m1 where z: "retain (Some p) (t, w) = (z, m1)" by (rule prod.exhaust)
    have "active (ri_status r1)" using r1(2) by (simp add: retained_def)
    note k = retain_keeps [OF z t(1) r1(1) this]
    show ?thesis using p True y Inl z k t(2) others_kept_trans retained_trans [OF r1(2)]
      by (auto simp: finish_step_def io_case_def io_bind_def on_store_def input_def [symmetric])
  qed
qed

text \<open>What the outcome of a live, journaled apply says about the generation \<open>i\<close> it may have taken.\<close>

definition owned_outcome :: "never_block_list \<Rightarrow> string \<Rightarrow> fw_target \<Rightarrow> journal_ref \<Rightarrow> uuid \<Rightarrow> store \<Rightarrow> dispatch_outcome \<Rightarrow> bool" where
  "owned_outcome nb name t j i s o' \<longleftrightarrow> do_receipts o' = [] \<and>
     (case do_effect o' of
        NoMutation \<Rightarrow> do_completion o' = Dispatch_Failed
      | NonJournaled \<Rightarrow> False
      | VerifiedOwned k \<Rightarrow> k = i \<and> do_completion o' = Dispatch_Success \<and> admitted nb t \<and>
          (\<exists>r. find_intent s k = Some r \<and> generation_of name t j r \<and> ri_status r = Completed) \<and>
          (\<exists>q \<in> set (st_receipts s). rr_intent q = Some k \<and> rr_kind q = ''apply'' \<and> rr_verification q = Some ''verified'')
      | UncertainOwned k \<Rightarrow> k = i \<and> do_completion o' = Dispatch_Recovery \<and>
          (\<exists>r. find_intent s k = Some r \<and> generation_of name t j r \<and> active (ri_status r)))"

lemma live_apply:
  assumes C: "fw_contract A nb" and s: "journal_good s"
    and run: "apply_single_adapter parse json_len A a False (Some j) (s, w) = (o', (s', w'))"
  shows "journal_good s' \<and> others_kept (st_next s) s s' \<and> find_intent s (st_next s) = None \<and>
    owned_outcome nb (ad_name A) (target a) j (st_next s) s' o' \<and>
    (do_effect o' = NoMutation \<longrightarrow> w' = snd (ad_preflight A (target a) w))"
proof -
  let ?w1 = "snd (ad_preflight A (target a) w)"
  obtain x1 m1 where x1: "preflight_step parse A a False (s, w) = (x1, m1)" by (rule prod.exhaust)
  note p1 = preflight_live [OF x1]
  have none: "find_intent s (st_next s) = None"
    using journal_good_row(4) [OF s] by (cases "find_intent s (st_next s)") auto
  show ?thesis
  proof (cases x1)
    case (Inl e)
    then have "(o', (s', w')) = (e, (s, ?w1))"
      using run x1 p1 by (simp add: apply_single_adapter_def returning_def io_bind_def)
    then show ?thesis using p1 Inl s none by (auto simp: owned_outcome_def dispatch_failed_def)
  next
    case 1: (Inr y1)
    obtain st al where y1: "y1 = (st, al)" by (rule prod.exhaust)
    obtain x2 m2 where x2: "prepare_step json_len A a False (Some j) st al (s, ?w1) = (x2, m2)" by (rule prod.exhaust)
    then obtain s1 where s1: "m2 = (s1, ?w1)" "journal_good s1" "others_kept (st_next s) s s1"
      and c2: "case x2 of
       Inl o' \<Rightarrow> \<exists>e. o' = dispatch_failed e
     | Inr q \<Rightarrow> \<exists>q' r. q = Some q' \<and> pg_id q' = st_next s \<and> find_intent s1 (st_next s) = Some r \<and>
         ri_status r = Prepared \<and> generation_of (ad_name A) (target a) j r"
      using prepare_live [OF x2 s] by blast
    show ?thesis
    proof (cases x2)
      case (Inl e)
      then have "(o', (s', w')) = (e, (s1, ?w1))"
        using run x1 p1 1 y1 x2 s1(1) by (simp add: apply_single_adapter_def returning_def io_bind_def)
      then show ?thesis using Inl c2 s1 none by (auto simp: owned_outcome_def dispatch_failed_def)
    next
      case 2: (Inr q)
      then obtain p r where q: "q = Some p" "pg_id p = st_next s" and r: "find_intent s1 (pg_id p) = Some r"
        "ri_status r = Prepared" "generation_of (ad_name A) (target a) j r" using c2 by auto
      have ac: "active (ri_status r)" using r(2) by (simp add: active_def)
      obtain x3 m3 where x3: "apply_step A a False (Some p) (s1, ?w1) = (x3, m3)" by (rule prod.exhaust)
      note c3 = apply_live [OF x3 s1(2) r(1) ac]
      show ?thesis
      proof (cases x3)
        case (Inl e)
        then have "(o', (s', w')) = (e, m3)"
          using run x1 p1 1 y1 x2 s1(1) 2 q(1) x3 by (simp add: apply_single_adapter_def returning_def io_bind_def)
        then show ?thesis using Inl c3 q s1(3) none r(3) generation_of_retained others_kept_trans
          by (fastforce simp: owned_outcome_def retained_def)
      next
        case 3: (Inr res)
        then obtain w2 where w2: "m3 = (s1, w2)" "ad_apply A a False ?w1 = (Inr res, w2)" using c3 by auto
        have adm: "admitted nb (target a)" using fw_contract.apply_ok [OF C w2(2)] by blast
        obtain x4 w3 where x4: "verify_step A a False (s1, w2) = (Inr x4, (s1, w3))"
          by (cases "ad_verify A (target a) w2") (auto simp: verify_step_def io_bind_def attempt_def on_world_def)
        obtain x5 m5 where x5: "finish_step parse A j st p res x4 (s1, w3) = (x5, m5)" by (rule prod.exhaust)
        obtain o2 s2 where c5: "x5 = Inr o2" "m5 = (s2, w3)" "journal_good s2" "others_kept (pg_id p) s1 s2" "do_receipts o2 = []"
          "do_effect o2 = VerifiedOwned (pg_id p) \<and> do_completion o2 = Dispatch_Success \<and>
             find_intent s2 (pg_id p) = Some (r\<lparr>ri_status := Completed\<rparr>) \<and>
             (\<exists>q \<in> set (st_receipts s2). rr_intent q = Some (pg_id p) \<and> rr_kind q = ''apply'' \<and> rr_verification q = Some ''verified'')
           \<or> do_effect o2 = UncertainOwned (pg_id p) \<and> do_completion o2 = Dispatch_Recovery \<and>
             (\<exists>r'. find_intent s2 (pg_id p) = Some r' \<and> retained r r')"
          using finish_live [OF x5 s1(2) r(1) ac] by blast
        have "(o', (s', w')) = (o2, (s2, w3))"
          using run x1 p1 1 y1 x2 s1(1) 2 q(1) x3 3 w2(1) x4 x5 c5(1,2)
          by (simp add: apply_single_adapter_def returning_def io_bind_def)
        moreover have "owned_outcome nb (ad_name A) (target a) j (st_next s) s2 o2"
          using c5(5,6) adm q(2) r(3) generation_of_retained [of r] by (auto simp: owned_outcome_def retained_def)
        ultimately show ?thesis using c5 s1(3) q(2) none others_kept_trans by auto
      qed
    qed
  qed
qed

section \<open>The fan-out\<close>

definition rows_kept :: "store \<Rightarrow> store \<Rightarrow> bool" where
  "rows_kept s s' \<longleftrightarrow> (\<forall>k r. find_intent s k = Some r \<longrightarrow> find_intent s' k = Some r)"

lemma rows_kept_refl [simp]: "rows_kept s s"
  by (simp add: rows_kept_def)

lemma rows_kept_trans: "rows_kept s t \<Longrightarrow> rows_kept t u \<Longrightarrow> rows_kept s u"
  by (simp add: rows_kept_def)

lemma live_apply_rows:
  assumes "fw_contract A nb" "journal_good s"
    and "apply_single_adapter parse json_len A a False (Some j) (s, w) = (o', (s', w'))"
  shows "rows_kept s s'"
  using live_apply [OF assms] unfolding rows_kept_def others_kept_def by (metis option.distinct(1))

definition owned_row :: "string \<Rightarrow> fw_target \<Rightarrow> journal_ref \<Rightarrow> store \<Rightarrow> uuid \<Rightarrow> generation_status set \<Rightarrow> bool" where
  "owned_row name t j s k S \<longleftrightarrow> (\<exists>r. find_intent s k = Some r \<and> generation_of name t j r \<and> ri_status r \<in> S)"

lemma owned_row_kept: "rows_kept s s' \<Longrightarrow> owned_row name t j s k S \<Longrightarrow> owned_row name t j s' k S"
  by (auto simp: owned_row_def rows_kept_def)

text \<open>What the loop knows after the adapters it has visited.\<close>

definition fan_ok :: "never_block_list \<Rightarrow> fw_target \<Rightarrow> journal_ref \<Rightarrow> store \<Rightarrow> fan_out \<Rightarrow> bool" where
  "fan_ok nb t j s g \<longleftrightarrow> fo_receipts g = [] \<and>
     (case fo_effect g of
        NoMutation \<Rightarrow> \<not> fo_uncertain g \<and> \<not> fo_mandatory_success g
      | NonJournaled \<Rightarrow> False
      | VerifiedOwned k \<Rightarrow> \<not> fo_uncertain g \<and> admitted nb t \<and> (\<exists>n. owned_row n t j s k {Completed})
      | UncertainOwned k \<Rightarrow> fo_uncertain g \<and> (\<exists>n. owned_row n t j s k {Prepared, Completed, RecoveryRequired})) \<and>
     (fo_mandatory_success g \<longrightarrow> admitted nb t \<and> (\<exists>k. owned_row MANDATORY_MULTI_ADAPTER t j s k {Completed}))"

lemma fan_ok_kept:
  assumes "fan_ok nb t j s g" "rows_kept s s'"
  shows "fan_ok nb t j s' g"
  using assms(1) owned_row_kept [OF assms(2)] unfolding fan_ok_def
  by (cases "fo_effect g") (simp_all, blast+)

lemma fan_ok_gather:
  assumes "fan_ok nb t j s g" "owned_outcome nb name t j i s o'"
  shows "fan_ok nb t j s (gather name o' g)"
proof -
  have own: "do_receipts o' = []" "do_effect o' \<noteq> NonJournaled" using assms(2) by (auto simp: owned_outcome_def)
  show ?thesis
  proof (cases "do_effect o'")
    case NoMutation
    then have "do_completion o' = Dispatch_Failed" using assms(2) by (simp add: owned_outcome_def)
    then show ?thesis using assms(1) own NoMutation
      by (cases "fo_effect g") (auto simp: fan_ok_def gather_def)
  next
    case (VerifiedOwned k)
    then have "do_completion o' = Dispatch_Success" "admitted nb t" "owned_row name t j s k {Completed}"
      using assms(2) by (auto simp: owned_outcome_def owned_row_def)
    then show ?thesis using assms(1) own VerifiedOwned
      by (cases "fo_effect g") (auto simp: fan_ok_def gather_def)
  next
    case (UncertainOwned k)
    then have "do_completion o' = Dispatch_Recovery" "owned_row name t j s k {Prepared, Completed, RecoveryRequired}"
      using assms(2) by (auto simp: owned_outcome_def owned_row_def active_def)
    then show ?thesis using assms(1) own UncertainOwned
      by (cases "fo_effect g") (auto simp: fan_ok_def gather_def)
  qed (use own in simp)
qed

lemma fan_out_live:
  assumes "fan_out_adapters parse json_len a False (Some j) As g (s, w) = (g', (s', w'))"
    and "\<forall>A \<in> set As. fw_contract A nb" "journal_good s" "fan_ok nb (target a) j s g"
  shows "journal_good s' \<and> rows_kept s s' \<and> fan_ok nb (target a) j s' g'"
  using assms
proof (induction As arbitrary: g s w)
  case (Cons A As)
  obtain o1 s1 w1 where r: "apply_single_adapter parse json_len A a False (Some j) (s, w) = (o1, (s1, w1))"
    by (metis surj_pair)
  have C: "fw_contract A nb" using Cons.prems(2) by simp
  note l = live_apply [OF C Cons.prems(3) r]
  have k: "rows_kept s s1" using live_apply_rows [OF C Cons.prems(3) r] .
  have "fan_ok nb (target a) j s1 (gather (ad_name A) o1 g)" using fan_ok_gather [OF fan_ok_kept [OF Cons.prems(4) k]] l by blast
  then have "journal_good s' \<and> rows_kept s1 s' \<and> fan_ok nb (target a) j s' g'"
    using Cons.IH [of "gather (ad_name A) o1 g" s1 w1] Cons.prems(1,2) r l by simp
  then show ?case using k rows_kept_trans by blast
qed simp

text \<open>What the outcome of a dispatch says about the generations of the request.\<close>

definition dispatch_owned :: "never_block_list \<Rightarrow> fw_target \<Rightarrow> journal_ref \<Rightarrow> store \<Rightarrow> dispatch_outcome \<Rightarrow> bool" where
  "dispatch_owned nb t j s o' \<longleftrightarrow> do_receipts o' = [] \<and>
     (case do_completion o' of
        Dispatch_Success \<Rightarrow> admitted nb t \<and> (\<exists>k. do_effect o' = VerifiedOwned k \<and> (\<exists>n. owned_row n t j s k {Completed}))
      | Dispatch_Failed \<Rightarrow> do_effect o' = NoMutation
      | Dispatch_Recovery \<Rightarrow> (\<exists>k. do_effect o' \<in> {VerifiedOwned k, UncertainOwned k} \<and>
          (\<exists>n. owned_row n t j s k {Prepared, Completed, RecoveryRequired})))"

lemma multi_live:
  assumes "dispatch_multi_with_adapters parse json_len a False As (Some j) (s, w) = (o', (s', w'))"
    and "\<forall>A \<in> set As. fw_contract A nb" "journal_good s"
  shows "journal_good s' \<and> rows_kept s s' \<and> dispatch_owned nb (target a) j s' o' \<and>
    (do_completion o' = Dispatch_Success \<longrightarrow> (\<exists>k. owned_row MANDATORY_MULTI_ADAPTER (target a) j s' k {Completed}))"
proof -
  let ?g = "\<lparr> fo_mandatory_seen = False, fo_mandatory_success = False, fo_uncertain = False, fo_effect = NoMutation,
          fo_summaries = [], fo_errors = [], fo_receipts = [] \<rparr>"
  obtain g where g: "fan_out_adapters parse json_len a False (Some j) As ?g (s, w) = (g, (s', w'))"
    and o': "do_completion o' = fan_out_completion False g" "do_effect o' = fo_effect g" "do_receipts o' = fo_receipts g"
    using assms(1) by (auto simp: dispatch_multi_with_adapters_def Let_def split: prod.split_asm)
  have f: "journal_good s' \<and> rows_kept s s' \<and> fan_ok nb (target a) j s' g"
    using fan_out_live [OF g assms(2,3)] by (simp add: fan_ok_def)
  have weaken: "owned_row n t j s' k {Completed} \<Longrightarrow> owned_row n t j s' k {Prepared, Completed, RecoveryRequired}" for n t k
    by (auto simp: owned_row_def)
  from f have "dispatch_owned nb (target a) j s' o'"
    using o' weaken by (cases "fo_effect g") (auto simp: fan_ok_def dispatch_owned_def fan_out_completion_def)
  then show ?thesis using f o' by (auto simp: fan_ok_def fan_out_completion_def split: if_splits)
qed

lemma single_live:
  assumes "apply_single_adapter parse json_len A a False (Some j) (s, w) = (o', (s', w'))" "fw_contract A nb" "journal_good s"
  shows "journal_good s' \<and> rows_kept s s' \<and> dispatch_owned nb (target a) j s' o'"
  using live_apply [OF assms(2,3,1)] live_apply_rows [OF assms(2,3,1)]
  by (auto simp: owned_outcome_def dispatch_owned_def owned_row_def active_def split: firewall_effect.split_asm)

section \<open>Properties\<close>

text \<open>The target a request may act on: its own, or the address its pseudonym is resolved to.\<close>

definition released_target :: "'w agent_env \<Rightarrow> claimed_request \<Rightarrow> store \<Rightarrow> fw_target \<Rightarrow> bool" where
  "released_target E c s t \<longleftrightarrow>
     (\<exists>v a. cl_target c = Some v \<and> parse_firewall_action (cl_id c) v = Inr a \<and>
        ttl_seconds a \<le> firewall_max_ttl_seconds (ae_env E) \<and>
        (t = target a \<and> \<not> is_incident_source t \<or>
         (\<exists>e p ip. find_execution s (cl_id c) = Some e \<and> released_to s e p ip \<and>
            target a = IncidentSource p \<and> t = ResolvedIncidentSource ip p)))"

lemma resolve_step_live:
  assumes "resolve_step True i a False (s, w) = (x, m)" "journal_good s"
  shows "\<exists>s1. m = (s1, w) \<and> journal_good s1 \<and> rows_kept s s1 \<and>
    (case x of
       Inl o' \<Rightarrow> \<exists>e. o' = dispatch_failed e
     | Inr a' \<Rightarrow> target a' = target a \<and> \<not> is_incident_source (target a) \<or>
         (\<exists>e p ip. find_execution s i = Some e \<and> released_to s e p ip \<and>
            target a = IncidentSource p \<and> target a' = ResolvedIncidentSource ip p))"
proof (cases "target a")
  case (IncidentSource p)
  obtain y s1 where y: "resolve_incident_source_for_apply i s = (y, s1)" by (rule prod.exhaust)
  note f = resolve_for_apply_frame [OF y]
  have s1: "journal_good s1 \<and> rows_kept s s1"
    using assms(2) f find_intent_cong [of s1 s] journal_good_cong [of s1 s] by (simp add: rows_kept_def)
  have r: "resolve_step True i a False (s, w) = (case y of Inr (Some r) \<Rightarrow>
      if ra_pseudonym r = p then (Inr (a\<lparr>target := ResolvedIncidentSource (ra_raw_ip r) (ra_pseudonym r)\<rparr>), (s1, w))
      else (Inl (dispatch_failed [Lit ''incident source resolution missing or expired; apply refused'']), (s1, w))
    | Inr None \<Rightarrow> (Inl (dispatch_failed [Lit ''incident source resolution missing or expired; apply refused'']), (s1, w))
    | Inl _ \<Rightarrow> (Inl (dispatch_failed [Lit ''incident source resolution failed; apply refused'']), (s1, w)))"
    using IncidentSource y by (simp add: resolve_step_def io_case_def on_store_def split: sum.split option.split)
  show ?thesis
  proof (cases "\<exists>r. y = Inr (Some r) \<and> ra_pseudonym r = p")
    case True
    then obtain q where q: "y = Inr (Some q)" "ra_pseudonym q = p" by blast
    then obtain e where "find_execution s i = Some e" "released_to s e p (ra_raw_ip q)" using resolve_for_apply y by blast
    then show ?thesis using assms(1) r q s1 IncidentSource by auto
  next
    case False
    then have "m = (s1, w) \<and> (\<exists>e. x = Inl (dispatch_failed e))"
      using assms(1) r by (auto split: sum.split_asm option.split_asm)
    then show ?thesis using s1 by auto
  qed
qed (use assms in \<open>auto simp: resolve_step_def\<close>)

lemma generic_live:
  assumes run: "try_dispatch_generic_with_mode E json_len True c False (s, w) = (Some o', (s', w'))" and s: "journal_good s"
  defines "j \<equiv> \<lparr> jo_execution = cl_id c, jo_action_name = cl_action_name c \<rparr>"
  shows "journal_good s' \<and> rows_kept s s' \<and>
    (\<exists>t. (do_completion o' \<noteq> Dispatch_Failed \<longrightarrow> released_target E c s t) \<and>
      dispatch_owned (never_block_list_from_env (ae_env E)) t j s' o' \<and>
      (do_completion o' = Dispatch_Success \<and> prefix FIREWALL_MULTI_ADAPTER_PREFIX (cl_action_name c) \<longrightarrow>
         (\<exists>k. owned_row MANDATORY_MULTI_ADAPTER t j s' k {Completed})))"
proof -
  let ?multi = "prefix FIREWALL_MULTI_ADAPTER_PREFIX (cl_action_name c)"
  let ?nb = "never_block_list_from_env (ae_env E)"
  have refused: ?thesis if "o' = dispatch_failed e" "journal_good s'" "rows_kept s s'" for e
    using that by (simp add: dispatch_owned_def dispatch_failed_def)
  show ?thesis
  proof (cases "\<exists>v a. cl_target c = Some v \<and> parse_firewall_action (cl_id c) v = Inr a \<and>
      ttl_over_live_ceiling (ttl_seconds a) (firewall_max_ttl_seconds (ae_env E)) False = None")
    case False
    then have "s' = s \<and> (\<exists>e. o' = dispatch_failed e)"
      using run by (auto simp: try_dispatch_generic_with_mode_def Let_def split: if_split_asm option.split_asm sum.split_asm)
    then show ?thesis using refused s by auto
  next
    case True
    then obtain v a where v: "cl_target c = Some v" "parse_firewall_action (cl_id c) v = Inr a"
      "ttl_over_live_ceiling (ttl_seconds a) (firewall_max_ttl_seconds (ae_env E)) False = None" by blast
    then have ttl: "ttl_seconds a \<le> firewall_max_ttl_seconds (ae_env E)"
      by (auto simp: ttl_over_live_ceiling_def split: if_split_asm)
    obtain x m where x: "resolve_step True (cl_id c) a False (s, w) = (x, m)" by (rule prod.exhaust)
    then obtain s1 where s1: "m = (s1, w)" "journal_good s1" "rows_kept s s1"
      and cx: "case x of Inl o' \<Rightarrow> \<exists>e. o' = dispatch_failed e
       | Inr a' \<Rightarrow> target a' = target a \<and> \<not> is_incident_source (target a) \<or>
         (\<exists>e p ip. find_execution s (cl_id c) = Some e \<and> released_to s e p ip \<and>
            target a = IncidentSource p \<and> target a' = ResolvedIncidentSource ip p)"
      using resolve_step_live [OF x s] by blast
    show ?thesis
    proof (cases x)
      case (Inl e)
      then have "o' = e \<and> s' = s1" using run v x s1(1)
        by (auto simp: try_dispatch_generic_with_mode_def Let_def split: if_split_asm)
      then show ?thesis using refused cx Inl s1 by auto
    next
      case (Inr a')
      have t: "released_target E c s (target a')"
        unfolding released_target_def using cx Inr v ttl by auto
      show ?thesis
      proof (cases ?multi)
        case True
        have As: "\<forall>A \<in> set (List.map_filter (adapter_for_action E) (configured_multi_adapters (ae_env E))). fw_contract A ?nb"
          using routed_contract by (auto simp: map_filter_def)
        have "dispatch_multi_with_adapters (ae_parse_json E) json_len a' False
            (List.map_filter (adapter_for_action E) (configured_multi_adapters (ae_env E))) (Some j) (s1, w) = (o', (s', w'))"
          using run v x s1(1) Inr True by (simp add: try_dispatch_generic_with_mode_def Let_def j_def split: prod.split_asm)
        then show ?thesis using multi_live [OF _ As s1(2)] t rows_kept_trans [OF s1(3)] by blast
      next
        case False
        then obtain A where A: "adapter_for_action E (cl_action_name c) = Some A"
          using run by (auto simp: try_dispatch_generic_with_mode_def Let_def split: if_split_asm)
        have "apply_single_adapter (ae_parse_json E) json_len A a' False (Some j) (s1, w) = (o', (s', w'))"
          using run v x s1(1) Inr False A by (simp add: try_dispatch_generic_with_mode_def Let_def j_def split: prod.split_asm)
        then show ?thesis using single_live [OF _ routed_contract [OF A] s1(2)] t False rows_kept_trans [OF s1(3)] by blast
      qed
    qed
  qed
qed

text \<open>A dry run.\<close>

definition planned_only :: "dispatch_outcome \<Rightarrow> bool" where
  "planned_only o' \<longleftrightarrow> do_completion o' \<noteq> Dispatch_Recovery \<and> \<not> is_owned (do_effect o') \<and>
     (\<forall>r \<in> set (do_receipts o'). dr_dry_run r \<and> dr_verification r = None)"

lemma dry_single:
  assumes C: "fw_contract A nb" and reads: "\<And>t w. snd (ad_preflight A t w) = w"
    and run: "apply_single_adapter parse json_len A a True journal (s, w) = (o', m)"
  shows "m = (s, w) \<and> planned_only o'"
proof -
  obtain st al where p: "preflight_step parse A a True (s, w) = (Inr (st, al), (s, w))"
    using reads [of "target a" w]
    by (cases "ad_preflight A (target a) w"; cases "fst (ad_preflight A (target a) w)")
       (auto simp: preflight_step_def io_case_def on_world_def)
  have q: "prepare_step json_len A a True journal st al (s, w) = (Inr None, (s, w))"
    by (cases journal) (simp_all add: prepare_step_def)
  obtain x w1 where x: "apply_step A a True None (s, w) = (x, (s, w1))" "w1 = w"
    and cx: "case x of Inl e \<Rightarrow> e = dispatch_failed [Lit ''adapter dry-run planning failed''] | Inr res \<Rightarrow> is_dry_run (ar_receipt res)"
  proof (cases "is_incident_source (target a)")
    case True
    have dr: "is_dry_run r" if "ad_render A a = Inr r" for r using fw_contract.render_ok [OF C that] by blast
    show ?thesis
    proof (cases "ad_render A a")
      case (Inl e)
      then show ?thesis using True
        by (intro that [of "Inl (dispatch_failed [Lit ''adapter dry-run planning failed''])" w])
          (auto simp: apply_step_def io_case_def)
    next
      case (Inr r)
      then show ?thesis using True dr
        by (intro that [of "Inr \<lparr> ar_receipt = r, observed_state = None \<rparr>" w]) (simp_all add: apply_step_def io_case_def)
    qed
  next
    case False
    obtain y w1 where y: "ad_apply A a True w = (y, w1)" by (rule prod.exhaust)
    then have "w1 = w" using fw_contract.apply_dry [OF C, of a w] by simp
    then show ?thesis using that y False fw_contract.apply_ok [OF C, of a True w]
      by (cases y) (auto simp: apply_step_def io_case_def on_world_def)
  qed
  show ?thesis
  proof (cases x)
    case (Inl e)
    then have "(o', m) = (e, (s, w))"
      using run p q x by (cases journal) (simp_all add: apply_single_adapter_def returning_def io_bind_def)
    then show ?thesis using cx Inl by (auto simp: planned_only_def dispatch_failed_def)
  next
    case (Inr res)
    then have "(o', m) = (unjournaled_outcome parse A True st res None, (s, w))"
      using run p q x by (cases journal) (simp_all add: apply_single_adapter_def returning_def io_bind_def verify_step_def)
    then show ?thesis using cx Inr by (auto simp: planned_only_def unjournaled_outcome_def Let_def)
  qed
qed

lemma dry_fan_out:
  assumes "\<forall>A \<in> set As. fw_contract A nb \<and> (\<forall>t w. snd (ad_preflight A t w) = w)"
    and "fan_out_adapters parse json_len a True journal As g (s, w) = (g', m)"
    and "\<not> fo_uncertain g \<and> \<not> is_owned (fo_effect g) \<and> (\<forall>r \<in> set (fo_receipts g). dr_dry_run r \<and> dr_verification r = None)"
  shows "m = (s, w) \<and> \<not> fo_uncertain g' \<and> \<not> is_owned (fo_effect g') \<and>
    (\<forall>r \<in> set (fo_receipts g'). dr_dry_run r \<and> dr_verification r = None)"
  using assms
proof (induction As arbitrary: g)
  case (Cons A As)
  obtain o1 m1 where r: "apply_single_adapter parse json_len A a True journal (s, w) = (o1, m1)" by (rule prod.exhaust)
  have o1: "m1 = (s, w) \<and> planned_only o1" using dry_single [OF _ _ r] Cons.prems(1) by auto
  have merge: "\<not> is_owned e \<Longrightarrow> \<not> is_owned f \<Longrightarrow> \<not> is_owned (merge_effect e f)" for e f
    by (cases e; cases f) simp_all
  show ?case
  proof (rule Cons.IH)
    show "fan_out_adapters parse json_len a True journal As (gather (ad_name A) o1 g) (s, w) = (g', m)"
      using Cons.prems(2) r o1 by simp
  qed (use Cons.prems o1 merge in \<open>auto simp: gather_def planned_only_def\<close>)
qed simp

lemma dry_multi:
  assumes "\<forall>A \<in> set As. fw_contract A nb \<and> (\<forall>t w. snd (ad_preflight A t w) = w)"
    and "dispatch_multi_with_adapters parse json_len a True As journal (s, w) = (o', m)"
  shows "m = (s, w) \<and> planned_only o'"
proof -
  let ?g = "\<lparr> fo_mandatory_seen = False, fo_mandatory_success = False, fo_uncertain = False, fo_effect = NoMutation,
            fo_summaries = [], fo_errors = [], fo_receipts = [] \<rparr>"
  obtain g m1 where g: "fan_out_adapters parse json_len a True journal As ?g (s, w) = (g, m1)" by (rule prod.exhaust)
  then have "m = m1" "do_completion o' = fan_out_completion True g" "do_effect o' = fo_effect g" "do_receipts o' = fo_receipts g"
    using assms(2) by (auto simp: dispatch_multi_with_adapters_def Let_def)
  moreover have "m1 = (s, w) \<and> \<not> fo_uncertain g \<and> \<not> is_owned (fo_effect g) \<and>
    (\<forall>r \<in> set (fo_receipts g). dr_dry_run r \<and> dr_verification r = None)"
    using assms(1) g by (rule dry_fan_out) simp
  ultimately show ?thesis unfolding planned_only_def fan_out_completion_def by simp
qed

text \<open>A live dispatch of a rule through the journal, by one adapter or as a fan-out.  Success means that a
  generation of this request was verified and completed with its receipt, for a target the request was allowed to act
  on, inside the TTL ceiling and outside every excluded network; in a fan-out the mandatory \<^verbatim>\<open>nftables\<close>
  generation is one of them.  The target is the request's own, or the address its own pseudonym is resolved to by an
  unexpired resolution while the request is being started, and for a request the policy bridge made on the strength of a
  reputation, only while the address or its network is still listed as confidently and recently as that request
  recorded.  An uncertain outcome always leaves an unresolved generation that holds the exact target.  A failure is
  reported as owning nothing and without a receipt (a generation whose preparation was committed but reported lost may
  be left prepared, for the sweep to find).  No earlier generation is changed.\<close>

theorem rule_dispatch_owned:
  assumes "try_dispatch_generic E json_len True c (s, w) = (Some o', (s', w'))"
    and "\<not> dispatch_dry_run (ae_parse_json E) (ae_env E) c"
    and "journal_ok (st_intents s) (st_receipts s) (st_next s)"
  shows "(\<forall>k r. find_intent s k = Some r \<longrightarrow> find_intent s' k = Some r) \<and> do_receipts o' = [] \<and>
    (case do_completion o' of
       Dispatch_Failed \<Rightarrow> do_effect o' = NoMutation
     | Dispatch_Recovery \<Rightarrow> \<exists>k t n r. do_effect o' \<in> {VerifiedOwned k, UncertainOwned k} \<and> released_target E c s t \<and>
         find_intent s' k = Some r \<and> active (ri_status r) \<and> ri_execution r = cl_id c \<and>
         ri_target_json r = recovery_to_json \<lparr> scope = n, rt_target = t \<rparr>
     | Dispatch_Success \<Rightarrow> \<exists>k t n r. do_effect o' = VerifiedOwned k \<and> released_target E c s t \<and>
         admitted (never_block_list_from_env (ae_env E)) t \<and>
         find_intent s' k = Some r \<and> ri_status r = Completed \<and> ri_execution r = cl_id c \<and>
         ri_target_json r = recovery_to_json \<lparr> scope = n, rt_target = t \<rparr> \<and>
         length (intent_receipts (st_receipts s') k ''apply'') = 1 \<and>
         (prefix FIREWALL_MULTI_ADAPTER_PREFIX (cl_action_name c) \<longrightarrow>
            (\<exists>q \<in> set (st_intents s'). ri_adapter q = MANDATORY_MULTI_ADAPTER \<and> ri_execution q = cl_id c \<and>
               ri_status q = Completed)))"
proof -
  let ?j = "\<lparr> jo_execution = cl_id c, jo_action_name = cl_action_name c \<rparr>"
  have run: "try_dispatch_generic_with_mode E json_len True c False (s, w) = (Some o', (s', w'))"
    using assms(1,2) by (simp add: try_dispatch_generic_def)
  obtain t where t: "journal_good s'" "rows_kept s s'" "do_completion o' \<noteq> Dispatch_Failed \<longrightarrow> released_target E c s t"
      "dispatch_owned (never_block_list_from_env (ae_env E)) t ?j s' o'"
      "do_completion o' = Dispatch_Success \<and> prefix FIREWALL_MULTI_ADAPTER_PREFIX (cl_action_name c) \<longrightarrow>
         (\<exists>k. owned_row MANDATORY_MULTI_ADAPTER t ?j s' k {Completed})"
    using generic_live [OF run] assms(3) by (auto simp: journal_good_def)
  have one: "length (intent_receipts (st_receipts s') k ''apply'') = 1"
    if "find_intent s' k = Some r" "ri_status r = Completed" for k r
    using journal_good_row(2,3) [OF t(1) that(1)] that(2) by (auto simp: row_ok_def)
  show ?thesis
  proof (cases "do_completion o'")
    case Dispatch_Success
    then obtain k n r where k: "do_effect o' = VerifiedOwned k" "find_intent s' k = Some r" "generation_of n t ?j r"
      "ri_status r = Completed" "admitted (never_block_list_from_env (ae_env E)) t" "do_receipts o' = []"
      using t(4) by (auto simp: dispatch_owned_def owned_row_def)
    have "\<exists>q \<in> set (st_intents s'). ri_adapter q = MANDATORY_MULTI_ADAPTER \<and> ri_execution q = cl_id c \<and> ri_status q = Completed"
      if "prefix FIREWALL_MULTI_ADAPTER_PREFIX (cl_action_name c)"
      using t(5) that Dispatch_Success find_intent_Some by (fastforce simp: owned_row_def generation_of_def)
    then show ?thesis using Dispatch_Success k t(2,3) one [OF k(2,4)] by (auto simp: rows_kept_def generation_of_def)
  next
    case Dispatch_Failed
    then show ?thesis using t by (simp add: dispatch_owned_def rows_kept_def)
  next
    case Dispatch_Recovery
    then obtain k n r where k: "do_effect o' \<in> {VerifiedOwned k, UncertainOwned k}" "find_intent s' k = Some r"
      "generation_of n t ?j r" "active (ri_status r)" "do_receipts o' = []"
      using t(4) by (auto simp: dispatch_owned_def owned_row_def active_def)
    then show ?thesis using Dispatch_Recovery t(2,3) by (fastforce simp: rows_kept_def generation_of_def)
  qed
qed

lemma dry_dispatch:
  assumes "try_dispatch_generic E json_len with_store c (s, w) = (Some o', (s', w'))"
    and "dispatch_dry_run (ae_parse_json E) (ae_env E) c"
    and "\<forall>name A t w. adapter_for_action E name = Some A \<longrightarrow> snd (ad_preflight A t w) = w"
  shows "(s', w') = (s, w) \<and> planned_only o'"
proof -
  let ?journal = "if with_store then Some \<lparr> jo_execution = cl_id c, jo_action_name = cl_action_name c \<rparr> else None"
  let ?As = "List.map_filter (adapter_for_action E) (configured_multi_adapters (ae_env E))"
  have run: "try_dispatch_generic_with_mode E json_len with_store c True (s, w) = (Some o', (s', w'))"
    using assms(1,2) by (simp add: try_dispatch_generic_def)
  have ttl: "ttl_over_live_ceiling t u True = None" for t u by (simp add: ttl_over_live_ceiling_def)
  have res: "resolve_step with_store i a True m = (Inr a, m)" for i a and m :: "store \<times> 'a"
    by (cases "target a") (simp_all add: resolve_step_def)
  show ?thesis
  proof (cases "\<exists>v a. cl_target c = Some v \<and> parse_firewall_action (cl_id c) v = Inr a")
    case False
    then show ?thesis using run
      by (auto simp: try_dispatch_generic_with_mode_def Let_def planned_only_def dispatch_failed_def
          split: if_split_asm option.split_asm sum.split_asm)
  next
    case True
    then obtain v a where v: "cl_target c = Some v" "parse_firewall_action (cl_id c) v = Inr a" by blast
    have eq: "try_dispatch_generic_with_mode E json_len with_store c True (s, w) =
       (let multi = prefix FIREWALL_MULTI_ADAPTER_PREFIX (cl_action_name c);
            single = (if multi then None else adapter_for_action E (cl_action_name c)) in
        if \<not> multi \<and> single = None then (None, (s, w))
        else case (if multi then dispatch_multi_with_adapters (ae_parse_json E) json_len a True ?As ?journal (s, w)
             else apply_single_adapter (ae_parse_json E) json_len (the single) a True ?journal (s, w)) of
          (o', m) \<Rightarrow> (Some o', m))"
      unfolding try_dispatch_generic_with_mode_def Let_def v option.case sum.case ttl res prod.case ..
    show ?thesis
    proof (cases "prefix FIREWALL_MULTI_ADAPTER_PREFIX (cl_action_name c)")
      case True
      have As: "\<forall>A \<in> set ?As. fw_contract A (never_block_list_from_env (ae_env E)) \<and> (\<forall>t w. snd (ad_preflight A t w) = w)"
        using routed_contract assms(3) by (fastforce simp: map_filter_def)
      have "dispatch_multi_with_adapters (ae_parse_json E) json_len a True ?As ?journal (s, w) = (o', (s', w'))"
        using run unfolding eq by (cases with_store) (simp_all add: True split: prod.split_asm)
      then show ?thesis by (rule dry_multi [OF As])
    next
      case False
      then obtain A where A: "adapter_for_action E (cl_action_name c) = Some A"
        using run by (auto simp: try_dispatch_generic_with_mode_def Let_def split: if_split_asm)
      have r: "apply_single_adapter (ae_parse_json E) json_len A a True ?journal (s, w) = (o', (s', w'))"
        using run unfolding eq by (cases with_store) (simp_all add: False A split: prod.split_asm)
      have "\<And>t w. snd (ad_preflight A t w) = w" using assms(3) A by blast
      from dry_single [OF routed_contract [OF A] this r] show ?thesis .
    qed
  qed
qed

text \<open>C8 A dry run plans and changes nothing: whatever the request, no transaction is made, the outside world is
  as before (when reading it, in the preflight, leaves it so), the request is never left for recovery,
  and every receipt says it is a dry run that verified nothing.\<close>

theorem dry_run_changes_nothing:
  assumes "try_dispatch_generic E json_len with_store c (s, w) = (Some o', (s', w'))"
    and "dispatch_dry_run (ae_parse_json E) (ae_env E) c"
    and "\<forall>name A t w. adapter_for_action E name = Some A \<longrightarrow> snd (ad_preflight A t w) = w"
  shows "s' = s \<and> w' = w \<and> do_completion o' \<noteq> Dispatch_Recovery \<and> \<not> is_owned (do_effect o') \<and>
    (\<forall>r \<in> set (do_receipts o'). dr_dry_run r \<and> dr_verification r = None)"
  using dry_dispatch [OF assms] by (simp add: planned_only_def)

section \<open>Witnesses\<close>

definition live_agent_json :: "string \<Rightarrow> json option" where
  "live_agent_json s = (if s = ''auth'' then live_json s else one_host_json s)"

definition live_agent :: "bool agent_env" where
  "live_agent = example_agent\<lparr>ae_env := live_env, ae_parse_json := live_agent_json\<rparr>"

definition live_rule_request :: claimed_request where
  "live_rule_request = \<lparr> cl_id = 7, cl_action_name = ''nftables.block_indicator'',
     cl_target = Some (JObj [(''cidr'', JStr ''203.0.113.7''), (''kind'', JStr ''threat_intel_indicator''), (''source'', JStr ''feed'')]) \<rparr>"

text \<open>The run does not read the tables of the approvals: it is the same for every store that has these rules.\<close>

lemma live_rule_run:
  "case try_dispatch_generic live_agent (\<lambda>_. 2) True live_rule_request
       (example_store\<lparr>st_next := 12, st_inflight := slots, st_executions := es, st_actions := acts, st_policies := pols,
          st_approvals := aps\<rparr>, False) of
     (Some o', (s', w')) \<Rightarrow> do_completion o' = Dispatch_Success \<and> w' | _ \<Rightarrow> False"
  by code_simp

definition rule_store :: store where
  "rule_store = example_store\<lparr>st_next := 12\<rparr>"

lemma rule_store_run:
  "case try_dispatch_generic live_agent (\<lambda>_. 2) True live_rule_request (rule_store, False) of
     (Some o', (s', w')) \<Rightarrow> do_completion o' = Dispatch_Success \<and> w' | _ \<Rightarrow> False"
proof -
  have "rule_store = example_store\<lparr>st_next := 12, st_inflight := st_inflight example_store, st_executions := st_executions example_store,
      st_actions := st_actions example_store, st_policies := st_policies example_store, st_approvals := st_approvals example_store\<rparr>"
    by (simp add: rule_store_def)
  then show ?thesis using live_rule_run by metis
qed

lemma live_rule_live: "\<not> dispatch_dry_run (ae_parse_json live_agent) (ae_env live_agent) live_rule_request"
  by code_simp

lemma keeps_map_err: "keeps P m \<Longrightarrow> keeps P (io_map_err g m)"
  by (simp add: keeps_def)

lemma example_agent_reads:
  assumes "adapter_for_action example_agent name = Some A"
  shows "snd (ad_preflight A t w) = w"
proof -
  have nft: "keeps (\<lambda>u. u = w) (one_host_nft (preflight_command n))" for n
    by (simp add: keeps_def one_host_nft_def preflight_command_def)
  have sock: "keeps (\<lambda>u. u = w) (haproxy_run_command (ae_socket example_agent) p c)" for p c
    by (simp add: keeps_def haproxy_run_command_def example_agent_def)
  have policy: "keeps (\<lambda>u. u = w) (goaway_read_policy (ae_fs example_agent) y c)" for y c
    by (simp add: keeps_def goaway_read_policy_def example_agent_def)
  have "keeps (\<lambda>u. u = w) (ad_preflight A t)"
    using assms
    by (auto simp: adapter_for_action_def nftables_new_def nftables_adapter_def haproxy_new_def haproxy_adapter_def
        runtime_adapter_def haproxy_rate_limit_new_def haproxy_rate_limit_adapter_def goaway_new_def goaway_adapter_def
        nft_preflight_def runtime_preflight_def goaway_preflight_def example_agent_def split: if_split_asm
        intro!: keeps_intros keeps_map_err nft sock [unfolded example_agent_def, simplified] policy [unfolded example_agent_def, simplified])
  then show ?thesis by (simp add: keeps_def)
qed

lemma rule_dispatch_owned_witness:
  "\<exists>o' s' w' k t r. try_dispatch_generic live_agent (\<lambda>_. 2) True live_rule_request (rule_store, False) = (Some o', (s', w')) \<and>
     do_completion o' = Dispatch_Success \<and> released_target live_agent live_rule_request rule_store t \<and>
     find_intent s' k = Some r \<and> ri_status r = Completed \<and> ri_execution r = 7"
proof -
  have j: "journal_ok (st_intents rule_store) (st_receipts rule_store) (st_next rule_store)"
    by (simp add: rule_store_def example_store_def journal_ok_def)
  obtain o' s' w' where run: "try_dispatch_generic live_agent (\<lambda>_. 2) True live_rule_request (rule_store, False) = (Some o', (s', w'))"
    and "do_completion o' = Dispatch_Success"
    using rule_store_run by (auto split: prod.split_asm option.split_asm)
  then show ?thesis using rule_dispatch_owned [OF run live_rule_live j] by (fastforce simp: live_rule_request_def)
qed

lemma dry_run_changes_nothing_witness:
  "\<exists>o' m. try_dispatch_generic example_agent (\<lambda>_. 2) True live_rule_request (example_store, False) = (Some o', m) \<and>
     m = (example_store, False) \<and> do_completion o' \<noteq> Dispatch_Recovery"
proof -
  have dry: "dispatch_dry_run (ae_parse_json example_agent) (ae_env example_agent) live_rule_request" by code_simp
  have "fst (try_dispatch_generic example_agent (\<lambda>_. 2) True live_rule_request (example_store, False)) \<noteq> None" by code_simp
  then obtain o' s' w' where run: "try_dispatch_generic example_agent (\<lambda>_. 2) True live_rule_request (example_store, False) = (Some o', (s', w'))"
    by (metis not_None_eq prod.collapse)
  show ?thesis using dry_run_changes_nothing [OF run dry] example_agent_reads run by blast
qed

end
