(* ===== verification/Quarantine_Journal.thy ===== *)
theory Quarantine_Journal
  imports Approvals
begin

text \<open>
  \<^verbatim>\<open>storage/src/quarantine_intents.rs\<close>: the journal of quarantine generations.  Preparing one needs the
  current approvals of the claimed request and binds the generation to the approved context.  A guard holds
  the row's lock; a task identifier recorded on a guard is written with the guard's own transaction.  The
  database's wall clock and its transaction time are the same instant here, since a transaction is one step.
\<close>

section \<open>Rows\<close>

definition find_quarantine :: "store \<Rightarrow> uuid \<Rightarrow> quarantine_row option" where
  "find_quarantine s i = List.find (\<lambda>q. qi_id q = i) (st_quarantines s)"

definition same_target :: "quarantine_row \<Rightarrow> quarantine_row \<Rightarrow> bool" where
  "same_target a b = (qi_adapter a = qi_adapter b \<and> qi_fingerprint a = qi_fingerprint b)"

record quarantine_guard =
  qg_row :: quarantine_row
  qg_upid :: "string option"

definition text_or_empty :: "json \<Rightarrow> string" where
  "text_or_empty v = (case as_str v of Some t \<Rightarrow> t | None \<Rightarrow> [])"

section \<open>Preparation\<close>

definition quarantine_action_of :: "string \<Rightarrow> string" where
  "quarantine_action_of adapter =
     (if adapter = ''docker'' then ''docker.quarantine_container''
      else if adapter = ''proxmox'' then ''proxmox.quarantine_vm''
      else ''tailscale.quarantine_device'')"

definition hex_lower :: "char \<Rightarrow> bool" where
  "hex_lower c = (ascii_digit c \<or> (97 \<le> ord_of c \<and> ord_of c \<le> 102))"

definition canonical_identity :: "string \<Rightarrow> json \<Rightarrow> msg + string" where
  "canonical_identity adapter target_json =
     (if adapter = ''docker'' then
        (let i = text_or_empty (jindex target_json ''container_id'') in
         if length i \<noteq> 64 \<or> \<not> list_all hex_lower i then Inl [Lit ''invalid canonical Docker identity''] else Inr i)
      else if adapter = ''proxmox'' then
        (let node = text_or_empty (jindex target_json ''node'');
             vmid = (case as_u64 (jindex target_json ''vmid'') of Some n \<Rightarrow> n | None \<Rightarrow> 0) in
         if node = [] \<or> length node > 63 \<or> \<not> list_all (\<lambda>c. ascii_alphanumeric c \<or> c = CHR ''-'') node
            \<or> \<not> ascii_alphanumeric (hd node) \<or> \<not> ascii_alphanumeric (last node) \<or> vmid = 0 \<or> vmid > 2 ^ 32 - 1
         then Inl [Lit ''invalid canonical Proxmox identity''] else Inr (node @ ''/'' @ show_nat vmid))
      else
        (let i = text_or_empty (jindex target_json ''device_id'') in
         if i = [] \<or> length i > 128 \<or> \<not> list_all (\<lambda>c. ascii_alphanumeric c \<or> c = CHR ''-'' \<or> c = CHR ''_'') i
         then Inl [Lit ''invalid canonical Tailscale identity''] else Inr i))"

text \<open>\<^verbatim>\<open>clawforge_lock_quarantine_approval\<close>: the rows it locks exist.\<close>

definition approval_lockable :: "store \<Rightarrow> uuid \<Rightarrow> bool" where
  "approval_lockable s i =
     (case find_execution s i of
        None \<Rightarrow> False
      | Some e \<Rightarrow>
          (case find_action s (ex_action e) of
             None \<Rightarrow> False
           | Some a \<Rightarrow>
               (quarantine_action (ac_name a) \<or> ac_name a = ''docker.reconcile_quarantine''
                \<or> ac_name a = ''proxmox.reconcile_quarantine'') \<and> find_policy s (ac_risk_level a) \<noteq> None))"

text \<open>The claimed request with current approvals by two people, and its action.\<close>

definition claimed_approved :: "store \<Rightarrow> uuid \<Rightarrow> (execution_row \<times> action_row) option" where
  "claimed_approved s i =
     (case find_execution s i of
        None \<Rightarrow> None
      | Some e \<Rightarrow>
          (case find_action s (ex_action e) of
             None \<Rightarrow> None
           | Some a \<Rightarrow> if ex_status e \<in> {ExStarting, ExRunning} \<and> dual_approved s e a then Some (e, a) else None))"

definition approved_ttl :: "json \<Rightarrow> msg + nat" where
  "approved_ttl target_json =
     (case jget target_json ''ttl_seconds'' of
        None \<Rightarrow> Inr 3600
      | Some v \<Rightarrow> ok_or [Lit ''quarantine ttl_seconds must be an integer''] (as_u64 v))"

definition context_matches ::
  "(json \<Rightarrow> string) \<Rightarrow> string \<Rightarrow> json \<Rightarrow> execution_row \<Rightarrow> action_row \<Rightarrow> nat \<Rightarrow> 32 word \<Rightarrow> bool" where
  "context_matches context_hash adapter target_json e a approved ttl =
     (let c = ex_context e in
      ac_name a = quarantine_action_of adapter \<and> jindex c ''version'' = JInt 1 \<and>
      jindex c ''action_id'' = json_uuid (ac_id a) \<and> jindex c ''action_name'' = JStr (ac_name a) \<and>
      jindex c ''required_approvals'' = JInt (ex_required_approvals e) \<and> jindex target_json ''kind'' = JStr adapter \<and>
      jindex c ''target'' = target_json \<and> ex_context_hash e = Some (context_hash c) \<and>
      jindex c ''risk_level'' = JStr ''critical'' \<and> jindex c ''requires_approval'' = JBool True \<and> approved = unat ttl)"

definition prepare_quarantine_body ::
  "(json \<Rightarrow> string) \<Rightarrow> uuid \<Rightarrow> string \<Rightarrow> string \<Rightarrow> json \<Rightarrow> json \<Rightarrow> json \<Rightarrow> 32 word \<Rightarrow> store \<Rightarrow> msg + uuid \<times> store" where
  "prepare_quarantine_body context_hash execution adapter fingerprint target_json preflight plan ttl s =
     (let (i, s) = fresh s in
      if \<not> approval_lockable s execution then Inl db_error
      else
        (case claimed_approved s execution of
           None \<Rightarrow> Inl [Lit ''quarantine intent requires current critical dual approval and claimed execution'']
         | Some (e, a) \<Rightarrow>
             and_then (approved_ttl target_json) (\<lambda>approved.
             if \<not> context_matches context_hash adapter target_json e a approved ttl
             then Inl [Lit ''quarantine target or action differs from approved context'']
             else
               and_then (canonical_identity adapter target_json) (\<lambda>canonical.
               if fingerprint \<noteq> canonical then Inl [Lit ''quarantine fingerprint differs from canonical approved target'']
               else if \<not> unexpired s e then Inl [Lit ''quarantine approval expired before intent preparation'']
               else
                 let q = \<lparr> qi_id = i, qi_execution = execution, qi_adapter = adapter, qi_action_name = ac_name a,
                           qi_fingerprint = fingerprint, qi_target_json = target_json, qi_preflight = preflight,
                           qi_plan = plan, qi_ttl = sint ttl, qi_expires = st_now s + sint ttl, qi_status = Prepared,
                           qi_upid = None \<rparr>
                 in if list_ex (\<lambda>o'. same_target o' q \<and> active (qi_status o')) (st_quarantines s) then Inl db_error
                    else Inr (i, audit ''executor'' ''quarantine_intent_prepared'' i
                      (s\<lparr>st_quarantines := st_quarantines s @ [q]\<rparr>))))))"

definition prepare_quarantine_intent ::
  "(json \<Rightarrow> nat) \<Rightarrow> (json \<Rightarrow> string) \<Rightarrow> uuid \<Rightarrow> string \<Rightarrow> string \<Rightarrow> json \<Rightarrow> json \<Rightarrow> json \<Rightarrow> 32 word \<Rightarrow>
   (store, msg, uuid) io" where
  "prepare_quarantine_intent json_len context_hash execution adapter fingerprint target_json preflight plan ttl =
     (if \<not> (adapter = ''docker'' \<or> adapter = ''proxmox'' \<or> adapter = ''tailscale'')
         \<or> \<not> bounded fingerprint \<or> \<not> is_object target_json \<or> \<not> is_object preflight \<or> \<not> is_object plan
         \<or> \<not> (60 \<le> ttl \<and> ttl \<le> 86400)
         \<or> list_ex (\<lambda>v. json_len v > 65536) [target_json, preflight, plan]
      then io_fail [Lit ''invalid bounded quarantine intent metadata'']
      else transaction (prepare_quarantine_body context_hash execution adapter fingerprint target_json preflight plan ttl))"

section \<open>The guard\<close>

definition acquire_quarantine_guard :: "uuid \<Rightarrow> (store, msg, quarantine_guard option) io" where
  "acquire_quarantine_guard i s =
     (case next_outcome s of (outcome, s) \<Rightarrow>
        if outcome \<noteq> Db_Ok then (Inl db_error, s)
        else
          (case find_quarantine s i of
             Some q \<Rightarrow>
               if active (qi_status q) \<and> i \<notin> set (st_locked s)
               then (Inr (Some \<lparr> qg_row = q, qg_upid = None \<rparr>), s\<lparr>st_locked := i # st_locked s\<rparr>)
               else (Inr None, s)
           | None \<Rightarrow> (Inr None, s)))"

definition q_release :: "quarantine_guard \<Rightarrow> store \<Rightarrow> store" where
  "q_release g = release (qi_id (qg_row g))"

definition q_abort :: "quarantine_guard \<Rightarrow> store \<Rightarrow> store" where
  "q_abort g = q_release g"

definition q_commit :: "quarantine_guard \<Rightarrow> (store \<Rightarrow> msg + 'a \<times> store) \<Rightarrow> (store, msg, 'a) io" where
  "q_commit g body s = (case transaction body s of (r, s') \<Rightarrow> (r, q_release g s'))"

definition set_upid :: "string \<Rightarrow> quarantine_guard \<Rightarrow> quarantine_guard" where
  "set_upid upid g = g\<lparr>qg_upid := Some upid\<rparr>"

definition guard_set_upid :: "string \<Rightarrow> quarantine_guard \<Rightarrow> (store, msg, quarantine_guard) io" where
  "guard_set_upid upid g = query (\<lambda>_. set_upid upid g)"

text \<open>\<^verbatim>\<open>UPDATE .. SET status\<close> after the guard's \<^verbatim>\<open>SET proxmox_upid\<close>, with the trigger.\<close>

definition q_updated :: "quarantine_guard \<Rightarrow> generation_status \<Rightarrow> quarantine_row \<Rightarrow> quarantine_row" where
  "q_updated g new q = q\<lparr>qi_status := new, qi_upid := (case qg_upid g of Some u \<Rightarrow> Some u | None \<Rightarrow> qi_upid q)\<rparr>"

definition q_set_status :: "quarantine_guard \<Rightarrow> generation_status \<Rightarrow> store \<Rightarrow> msg + store" where
  "q_set_status g new s =
     (if list_all (\<lambda>q. qi_id q = qi_id (qg_row g) \<longrightarrow> generation_transition (qi_status q) new) (st_quarantines s)
      then Inr (s\<lparr>st_quarantines := map (\<lambda>q. if qi_id q = qi_id (qg_row g) then q_updated g new q else q) (st_quarantines s)\<rparr>)
      else Inl db_error)"

definition dual_request :: "store \<Rightarrow> uuid \<Rightarrow> string \<Rightarrow> json \<Rightarrow> bool" where
  "dual_request s execution name target_json =
     (case claimed_approved s execution of
        None \<Rightarrow> False
      | Some (e, a) \<Rightarrow> ac_name a = name \<and> jget (ex_context e) ''target'' = Some target_json)"

definition approval_check :: "uuid \<Rightarrow> string \<Rightarrow> json \<Rightarrow> (store, msg, bool) io" where
  "approval_check execution name target_json =
     transaction (\<lambda>s. if \<not> approval_lockable s execution then Inl db_error else Inr (dual_request s execution name target_json, s))"

definition validate_approval_guard :: "quarantine_guard \<Rightarrow> (store, msg, unit) io" where
  "validate_approval_guard g =
     io_bind (approval_check (qi_execution (qg_row g)) (qi_action_name (qg_row g)) (qi_target_json (qg_row g))) (\<lambda>current.
     if qi_status (qg_row g) \<noteq> Prepared \<or> \<not> current
     then io_fail [Lit ''quarantine approval no longer valid before mutation''] else io_return ())"

definition validate_reconcile_approval :: "quarantine_guard \<Rightarrow> uuid \<Rightarrow> string \<Rightarrow> json \<Rightarrow> (store, msg, unit) io" where
  "validate_reconcile_approval g execution name target_json =
     io_bind (approval_check execution name target_json) (\<lambda>authorized.
     if qi_status (qg_row g) \<noteq> RecoveryRequired \<or> \<not> authorized
     then io_fail [Lit ''reconcile approval invalid or generation not awaiting reconciliation''] else io_return ())"

definition q_mismatched :: "quarantine_row \<Rightarrow> receipt_input \<Rightarrow> bool" where
  "q_mismatched q input =
     (qi_status q \<noteq> Prepared \<or> in_execution input \<noteq> Some (qi_execution q) \<or> in_adapter input \<noteq> qi_adapter q
      \<or> in_action_name input \<noteq> qi_action_name q \<or> in_fingerprint input \<noteq> Some (qi_fingerprint q)
      \<or> in_target_json input \<noteq> Some (qi_target_json q) \<or> in_preflight input \<noteq> qi_preflight q
      \<or> in_plan input \<noteq> qi_plan q \<or> in_ttl input \<noteq> word_of_int (qi_ttl q) \<or> in_dry_run input
      \<or> in_kind input \<noteq> ''apply'' \<or> in_verification input \<noteq> Some ''verified'')"

definition q_receipt ::
  "quarantine_row \<Rightarrow> uuid \<Rightarrow> int \<Rightarrow> string \<Rightarrow> json \<Rightarrow> json option \<Rightarrow> string option \<Rightarrow> receipt_row" where
  "q_receipt q rid now kind commands observed verification =
     \<lparr> rr_id = rid, rr_intent = Some (qi_id q), rr_execution = Some (qi_execution q),
       rr_adapter = qi_adapter q, rr_action_name = qi_action_name q, rr_preflight = qi_preflight q,
       rr_commands = commands, rr_observed = observed, rr_verification = verification,
       rr_ttl = qi_ttl q, rr_plan = qi_plan q, rr_dry_run = False, rr_expires = qi_expires q, rr_kind = kind,
       rr_fingerprint = Some (qi_fingerprint q), rr_target_json = Some (qi_target_json q), rr_created = now \<rparr>"

definition q_finish_body :: "quarantine_guard \<Rightarrow> receipt_input \<Rightarrow> store \<Rightarrow> msg + uuid \<times> store" where
  "q_finish_body g input s =
     (let (rid, s) = fresh s in
      and_then (insert_receipt (q_receipt (qg_row g) rid (st_now s) ''apply'' (in_commands input) (in_observed input)
        (in_verification input)) s) (\<lambda>s.
      and_then (q_set_status g Completed s) (\<lambda>s.
      Inr (rid, audit ''executor'' ''quarantine_intent_completed'' (qi_id (qg_row g)) s))))"

definition q_finish :: "quarantine_guard \<Rightarrow> receipt_input \<Rightarrow> (store, msg, uuid) io" where
  "q_finish g input s =
     (if q_mismatched (qg_row g) input
      then (Inl [Lit ''receipt does not match prepared verified quarantine generation''], q_abort g s)
      else q_commit g (q_finish_body g input) s)"

definition q_transition_body :: "quarantine_guard \<Rightarrow> generation_status \<Rightarrow> store \<Rightarrow> msg + unit \<times> store" where
  "q_transition_body g st s =
     and_then (q_set_status g st s) (\<lambda>s.
     Inr ((), audit ''executor'' (''quarantine_intent_'' @ status_name st) (qi_id (qg_row g)) s))"

definition q_transition :: "quarantine_guard \<Rightarrow> generation_status \<Rightarrow> (store, msg, unit) io" where
  "q_transition g st = q_commit g (q_transition_body g st)"

definition q_rollback_body :: "quarantine_guard \<Rightarrow> store \<Rightarrow> msg + unit \<times> store" where
  "q_rollback_body g s =
     (let (rid, s) = fresh s in
      and_then (insert_receipt (q_receipt (qg_row g) rid (st_now s) ''rollback'' (JArr [])
        (Some (JObj [(''restored_snapshot'', JBool True)])) (Some ''verified'')) s) (q_transition_body g RolledBack))"

definition q_resolve_rollback :: "quarantine_guard \<Rightarrow> (store, msg, unit) io" where
  "q_resolve_rollback g = q_commit g (q_rollback_body g)"

definition q_recovery_required :: "quarantine_guard \<Rightarrow> (store, msg, unit) io" where
  "q_recovery_required g = q_transition g RecoveryRequired"

definition q_not_applied :: "quarantine_guard \<Rightarrow> (store, msg, unit) io" where
  "q_not_applied g s =
     (if qi_status (qg_row g) \<noteq> Prepared
      then (Inl [Lit ''ambiguous mutation cannot be declared unapplied''], q_abort g s)
      else q_transition g NotApplied s)"

section \<open>Operations by identifier and reads\<close>

definition with_quarantine_guard :: "uuid \<Rightarrow> (quarantine_guard \<Rightarrow> (store, msg, 'a) io) \<Rightarrow> (store, msg, 'a) io" where
  "with_quarantine_guard i f =
     io_bind (acquire_quarantine_guard i) (\<lambda>g. case g of
       None \<Rightarrow> io_fail [Lit ''quarantine generation is resolved or busy''] | Some h \<Rightarrow> f h)"

definition finish_quarantine_intent :: "uuid \<Rightarrow> receipt_input \<Rightarrow> (store, msg, uuid) io" where
  "finish_quarantine_intent i input = with_quarantine_guard i (\<lambda>g. q_finish g input)"

definition transition_quarantine_intent ::
  "uuid \<Rightarrow> generation_status \<Rightarrow> generation_status list \<Rightarrow> (store, msg, unit) io" where
  "transition_quarantine_intent i st allowed =
     with_quarantine_guard i (\<lambda>g s.
       if qi_status (qg_row g) \<notin> set allowed
       then (Inl [Lit ''quarantine intent transition refused''], q_abort g s)
       else q_transition g st s)"

definition mark_quarantine_not_applied :: "uuid \<Rightarrow> (store, msg, unit) io" where
  "mark_quarantine_not_applied i = transition_quarantine_intent i NotApplied [Prepared]"

definition mark_quarantine_recovery_required :: "uuid \<Rightarrow> (store, msg, unit) io" where
  "mark_quarantine_recovery_required i =
     transition_quarantine_intent i RecoveryRequired [Prepared, Completed, RecoveryRequired]"

definition resolve_quarantine_rollback :: "uuid \<Rightarrow> (store, msg, unit) io" where
  "resolve_quarantine_rollback i = with_quarantine_guard i q_resolve_rollback"

definition quarantine_intent :: "uuid \<Rightarrow> (store, msg, quarantine_row option) io" where
  "quarantine_intent i = query (\<lambda>s. find_quarantine s i)"

definition active_quarantine_intent_for :: "string \<Rightarrow> string \<Rightarrow> (store, msg, quarantine_row option) io" where
  "active_quarantine_intent_for adapter fingerprint = query (\<lambda>s.
     List.find (\<lambda>q. qi_adapter q = adapter \<and> qi_fingerprint q = fingerprint \<and> active (qi_status q)) (st_quarantines s))"

definition unresolved_quarantine_intents :: "(store, msg, quarantine_row list) io" where
  "unresolved_quarantine_intents = query (\<lambda>s.
     take 100 (filter (\<lambda>q. qi_status q \<in> {Prepared, RecoveryRequired} \<or> (qi_status q = Completed \<and> qi_expires q \<le> st_now s))
       (st_quarantines s)))"

definition recoverable_quarantine_intents :: "(store, msg, quarantine_row list) io" where
  "recoverable_quarantine_intents = query (\<lambda>s.
     take 100 (filter (\<lambda>q. qi_status q = Prepared \<or> (qi_status q = Completed \<and> qi_expires q \<le> st_now s)) (st_quarantines s)))"

section \<open>The operator's view\<close>

definition quarantine_lifecycle :: "string \<Rightarrow> bool \<Rightarrow> string" where
  "quarantine_lifecycle status is_expired =
     (if status = ''prepared'' then ''prepared''
      else if status = ''completed'' \<and> is_expired then ''expired_pending_recovery''
      else if status = ''completed'' then ''active''
      else if status = ''recovery_required'' then ''recovery_required''
      else if status = ''not_applied'' then ''not_applied''
      else if status = ''rolled_back'' then ''verified_restored''
      else ''unknown'')"

definition owns_quarantine_target :: "string \<Rightarrow> bool" where
  "owns_quarantine_target status = (status = ''prepared'' \<or> status = ''completed'' \<or> status = ''recovery_required'')"

definition quarantine_recovery_open :: "string \<Rightarrow> bool \<Rightarrow> bool" where
  "quarantine_recovery_open status is_expired =
     (status = ''recovery_required'' \<or> (status = ''completed'' \<and> is_expired))"

section \<open>What a guard does\<close>

definition q_key :: "quarantine_row \<Rightarrow> string \<times> string" where
  "q_key q = (qi_adapter q, qi_fingerprint q)"

abbreviation q_ok :: "quarantine_row list \<Rightarrow> bool" where
  "q_ok \<equiv> rows_ok q_key qi_id qi_status"

definition q_owners :: "quarantine_row list \<Rightarrow> (string \<times> string) owners" where
  "q_owners = row_owners q_key qi_id qi_status"

lemma same_target_key: "same_target a b \<longleftrightarrow> q_key a = q_key b"
  by (simp add: same_target_def q_key_def)

lemma q_updated_simps [simp]:
  "q_key (q_updated g new q) = q_key q" "qi_id (q_updated g new q) = qi_id q" "qi_status (q_updated g new q) = new"
  by (simp_all add: q_updated_def q_key_def)

definition q_change :: "quarantine_guard \<Rightarrow> store \<Rightarrow> store \<Rightarrow> bool" where
  "q_change g s s' \<longleftrightarrow>
     st_locked s' = removeAll (qi_id (qg_row g)) (st_locked s) \<and> st_next s \<le> st_next s' \<and>
     (st_quarantines s' = st_quarantines s \<or>
      (\<exists>new. st_quarantines s' = update_rows qi_id (qi_id (qg_row g)) (q_updated g new) (st_quarantines s) \<and>
         (qg_row g \<in> set (st_quarantines s) \<longrightarrow> generation_transition (qi_status (qg_row g)) new)))"

lemma quarantine_frame [simp]:
  "st_quarantines (release i s) = st_quarantines s" "st_quarantines (audit a b c s) = st_quarantines s"
  by (simp_all add: release_def audit_def)

lemma q_abort_change: "q_change g s (q_abort g s)"
  by (simp add: q_change_def q_abort_def q_release_def)

lemma q_commit_change:
  assumes "q_commit g body s = (r, s')"
    and "\<And>u x v. body u = Inr (x, v) \<Longrightarrow>
      \<exists>new. q_set_status g new u = Inr (v\<lparr>st_audit := st_audit u, st_receipts := st_receipts u, st_next := st_next u\<rparr>) \<and>
        st_next u \<le> st_next v"
  shows "q_change g s s'"
proof -
  obtain r1 s1 where t: "transaction body s = (r1, s1)" by (rule prod.exhaust)
  then have s': "s' = q_release g s1" using assms(1) by (simp add: q_commit_def)
  from t show ?thesis
  proof (rule transaction_cases)
    fix u e assume "u = snd (next_outcome s)" "s1 = u"
    then show ?thesis using s' by (simp add: q_change_def q_release_def)
  next
    fix u x assume u: "u = snd (next_outcome s)" "body u = Inr (x, s1)"
    from assms(2) [OF u(2)] obtain new where new:
      "q_set_status g new u = Inr (s1\<lparr>st_audit := st_audit u, st_receipts := st_receipts u, st_next := st_next u\<rparr>)"
      "st_next u \<le> st_next s1" by blast
    let ?w = "s1\<lparr>st_audit := st_audit u, st_receipts := st_receipts u, st_next := st_next u\<rparr>"
    have tr: "list_all (\<lambda>q. qi_id q = qi_id (qg_row g) \<longrightarrow> generation_transition (qi_status q) new) (st_quarantines u)"
      and w: "u\<lparr>st_quarantines := map (\<lambda>q. if qi_id q = qi_id (qg_row g) then q_updated g new q else q) (st_quarantines u)\<rparr> = ?w"
      using new(1) by (simp_all add: q_set_status_def split: if_split_asm)
    have "st_quarantines s1 = update_rows qi_id (qi_id (qg_row g)) (q_updated g new) (st_quarantines u)"
      "st_locked s1 = st_locked u"
      using arg_cong [OF w, of st_quarantines] arg_cong [OF w, of st_locked] by (simp_all add: update_rows_def)
    moreover have "st_quarantines u = st_quarantines s" "st_locked u = st_locked s" "st_next u = st_next s" using u(1) by simp_all
    ultimately show ?thesis using tr new(2) s' unfolding q_change_def
      by (intro conjI disjI2 exI [of _ new]) (simp_all add: q_release_def list_all_iff)
  qed
qed

lemma q_set_status_frame:
  assumes "q_set_status g new (u\<lparr>st_next := n, st_receipts := rs\<rparr>) = Inr v"
  shows "q_set_status g new u = Inr (v\<lparr>st_receipts := st_receipts u, st_next := st_next u\<rparr>) \<and> st_audit v = st_audit u \<and>
    st_next v = n"
  using assms by (auto simp: q_set_status_def split: if_split_asm)

lemma q_transition_body_change:
  assumes "q_transition_body g st u = Inr (x, v)"
  shows "q_set_status g st u = Inr (v\<lparr>st_audit := st_audit u\<rparr>) \<and> st_receipts v = st_receipts u \<and> st_next v = st_next u"
  using assms by (auto simp: q_transition_body_def and_then_Inr_iff audit_def q_set_status_def split: if_split_asm)

lemma q_transition_change:
  assumes "q_transition g st s = (r, s')"
  shows "q_change g s s'"
proof (rule q_commit_change)
  show "q_commit g (q_transition_body g st) s = (r, s')" using assms by (simp add: q_transition_def)
  fix u x v assume "q_transition_body g st u = Inr (x, v)"
  from q_transition_body_change [OF this]
  have "q_set_status g st u = Inr (v\<lparr>st_audit := st_audit u, st_receipts := st_receipts u, st_next := st_next u\<rparr>) \<and>
      st_next u \<le> st_next v" by (cases v) simp
  then show "\<exists>new. q_set_status g new u = Inr (v\<lparr>st_audit := st_audit u, st_receipts := st_receipts u, st_next := st_next u\<rparr>) \<and>
      st_next u \<le> st_next v" by blast
qed

lemma insert_receipt_frame:
  "insert_receipt q u = Inr v \<Longrightarrow> v = u\<lparr>st_receipts := st_receipts u @ [q]\<rparr>"
  by (simp add: insert_receipt_def split: if_split_asm)

lemma q_finish_change:
  assumes "q_finish g input s = (r, s')"
  shows "q_change g s s'"
proof (cases "q_mismatched (qg_row g) input")
  case True
  then show ?thesis using assms q_abort_change by (auto simp: q_finish_def)
next
  case False
  show ?thesis
  proof (rule q_commit_change)
    show "q_commit g (q_finish_body g input) s = (r, s')" using assms False by (simp add: q_finish_def)
    fix u x v assume "q_finish_body g input u = Inr (x, v)"
    then obtain q s1 s2 where q: "insert_receipt q (u\<lparr>st_next := st_next u + 1\<rparr>) = Inr s1" "q_set_status g Completed s1 = Inr s2"
      "v = audit ''executor'' ''quarantine_intent_completed'' (qi_id (qg_row g)) s2"
      by (auto simp: q_finish_body_def fresh_def and_then_Inr_iff)
    have "q_set_status g Completed (u\<lparr>st_next := st_next u + 1, st_receipts := st_receipts u @ [q]\<rparr>) = Inr s2"
      using q(2) insert_receipt_frame [OF q(1)] by simp
    from q_set_status_frame [OF this] show "\<exists>new. q_set_status g new u =
        Inr (v\<lparr>st_audit := st_audit u, st_receipts := st_receipts u, st_next := st_next u\<rparr>) \<and> st_next u \<le> st_next v"
      by (intro exI [of _ Completed]) (simp add: q(3) audit_def)
  qed
qed

lemma q_rollback_change:
  assumes "q_resolve_rollback g s = (r, s')"
  shows "q_change g s s'"
proof (rule q_commit_change)
  show "q_commit g (q_rollback_body g) s = (r, s')" using assms by (simp add: q_resolve_rollback_def)
  fix u x v assume "q_rollback_body g u = Inr (x, v)"
  then obtain q s1 where q: "insert_receipt q (u\<lparr>st_next := st_next u + 1\<rparr>) = Inr s1" "q_transition_body g RolledBack s1 = Inr (x, v)"
    by (auto simp: q_rollback_body_def fresh_def and_then_Inr_iff)
  then obtain s2 where s2: "q_set_status g RolledBack s1 = Inr s2"
    "v = audit ''executor'' (''quarantine_intent_'' @ status_name RolledBack) (qi_id (qg_row g)) s2"
    by (auto simp: q_transition_body_def and_then_Inr_iff)
  have "q_set_status g RolledBack (u\<lparr>st_next := st_next u + 1, st_receipts := st_receipts u @ [q]\<rparr>) = Inr s2"
    using s2(1) insert_receipt_frame [OF q(1)] by simp
  from q_set_status_frame [OF this] show "\<exists>new. q_set_status g new u =
      Inr (v\<lparr>st_audit := st_audit u, st_receipts := st_receipts u, st_next := st_next u\<rparr>) \<and> st_next u \<le> st_next v"
    by (intro exI [of _ RolledBack]) (simp add: s2(2) audit_def)
qed

lemma q_not_applied_change: "q_not_applied g s = (r, s') \<Longrightarrow> q_change g s s'"
  using q_abort_change q_transition_change [of g NotApplied] by (auto simp: q_not_applied_def split: if_split_asm)

lemma acquire_quarantine_cases:
  assumes "acquire_quarantine_guard i s = (r, s')"
  obtains (granted) q where "r = Inr (Some \<lparr> qg_row = q, qg_upid = None \<rparr>)" "find_quarantine s i = Some q" "active (qi_status q)"
      "i \<notin> set (st_locked s)" "st_quarantines s' = st_quarantines s" "st_next s' = st_next s" "st_locked s' = i # st_locked s"
  | (refused) "\<forall>g. r \<noteq> Inr (Some g)" "st_quarantines s' = st_quarantines s" "st_next s' = st_next s" "st_locked s' = st_locked s"
proof -
  obtain oc u where u: "next_outcome s = (oc, u)" by (rule prod.exhaust)
  have us: "st_quarantines u = st_quarantines s" "st_next u = st_next s" "st_locked u = st_locked s"
    using u next_outcome_simps [of s] by simp_all
  show ?thesis
  proof (cases "oc = Db_Ok \<and> (\<exists>q. find_quarantine u i = Some q \<and> active (qi_status q) \<and> i \<notin> set (st_locked u))")
    case True
    then obtain q where "find_quarantine u i = Some q" "active (qi_status q)" "i \<notin> set (st_locked u)" "oc = Db_Ok" by blast
    then show ?thesis using assms us
      by (intro granted [of q]) (auto simp: acquire_quarantine_guard_def u find_quarantine_def)
  next
    case False
    have "s' = u \<and> (\<forall>g. r \<noteq> Inr (Some g))"
    proof (cases "oc = Db_Ok")
      case True
      then show ?thesis using False assms
        by (cases "find_quarantine u i") (auto simp: acquire_quarantine_guard_def u split: if_split_asm)
    qed (use assms in \<open>auto simp: acquire_quarantine_guard_def u\<close>)
    then show ?thesis using us by (intro refused) simp_all
  qed
qed

lemma prepare_quarantine_cases:
  assumes "prepare_quarantine_intent json_len H ex a fp t pf pl ttl s = (r, s')"
  obtains (unchanged) "st_quarantines s' = st_quarantines s" "st_next s' = st_next s" "st_locked s' = st_locked s"
      "st_executions s' = st_executions s" "\<nexists>i. r = Inr i"
  | (prepared) p e ac where "st_quarantines s' = st_quarantines s @ [p]" "st_next s' = st_next s + 1"
      "st_locked s' = st_locked s" "qi_id p = st_next s" "qi_status p = Prepared" "r = Inr (st_next s) \<or> r = Inl db_error"
      "\<forall>q \<in> set (st_quarantines s). \<not> (q_key q = q_key p \<and> active (qi_status q))"
      "claimed_approved s ex = Some (e, ac)" "unexpired s e" "ac_name ac = quarantine_action_of a" "qi_action_name p = ac_name ac"
      "jget (ex_context e) ''target'' = Some t" "ex_context_hash e = Some (H (ex_context e))" "qi_target_json p = t"
      "canonical_identity a t = Inr fp" "qi_fingerprint p = fp" "qi_adapter p = a" "qi_execution p = ex"
      "60 \<le> ttl" "ttl \<le> 86400" "qi_ttl p = sint ttl" "approved_ttl t = Inr (unat ttl)" "qi_plan p = pl" "qi_preflight p = pf"
proof (cases "\<not> (a = ''docker'' \<or> a = ''proxmox'' \<or> a = ''tailscale'')
         \<or> \<not> bounded fp \<or> \<not> is_object t \<or> \<not> is_object pf \<or> \<not> is_object pl
         \<or> \<not> (60 \<le> ttl \<and> ttl \<le> 86400) \<or> list_ex (\<lambda>v. json_len v > 65536) [t, pf, pl]")
  case True
  then have "(r, s') = (Inl [Lit ''invalid bounded quarantine intent metadata''], s)"
    using assms unfolding prepare_quarantine_intent_def by (simp only: if_True io_fail_def)
  then show ?thesis using unchanged by simp
next
  case False
  then have ttl: "60 \<le> ttl" "ttl \<le> 86400" and obj: "is_object t" by blast+
  have "transaction (prepare_quarantine_body H ex a fp t pf pl ttl) s = (r, s')"
    using assms False unfolding prepare_quarantine_intent_def by (simp only: if_False)
  then show ?thesis
  proof (elim transaction_cases)
    fix u e assume "u = snd (next_outcome s)" "s' = u" "r = Inl e"
    then show ?thesis using unchanged by simp
  next
    fix u x assume u: "u = snd (next_outcome s)" "prepare_quarantine_body H ex a fp t pf pl ttl u = Inr (x, s')"
      "r = Inr x \<or> r = Inl db_error"
    have f: "st_next u = st_next s" "st_now u = st_now s" "st_quarantines u = st_quarantines s" "st_locked u = st_locked s"
      "st_executions u = st_executions s" "st_actions u = st_actions s" "st_policies u = st_policies s"
      "st_approvals u = st_approvals s" using u(1) by simp_all
    let ?u = "u\<lparr>st_next := st_next u + 1\<rparr>"
    have same: "claimed_approved ?u ex = claimed_approved s ex" "unexpired ?u e = unexpired s e" for e
      unfolding claimed_approved_def find_execution_def find_action_def dual_approved_def find_policy_def
        independent_approvers_def unexpired_def by (simp_all add: f cong: option.case_cong)
    from u(2) obtain e ac where c: "claimed_approved ?u ex = Some (e, ac)"
      by (auto simp: prepare_quarantine_body_def fresh_def Let_def split: if_split_asm option.split_asm)
    define p where "p = \<lparr> qi_id = st_next u, qi_execution = ex, qi_adapter = a, qi_action_name = ac_name ac,
                           qi_fingerprint = fp, qi_target_json = t, qi_preflight = pf,
                           qi_plan = pl, qi_ttl = sint ttl, qi_expires = st_now u + sint ttl, qi_status = Prepared,
                           qi_upid = None \<rparr>"
    from u(2) c obtain ap where ap: "approved_ttl t = Inr ap" "context_matches H a t e ac ap ttl" "canonical_identity a t = Inr fp"
      "unexpired ?u e" "\<not> list_ex (\<lambda>o'. same_target o' p \<and> active (qi_status o')) (st_quarantines u)"
      and x: "x = st_next u" "s' = audit ''executor'' ''quarantine_intent_prepared'' (st_next u)
        (?u\<lparr>st_quarantines := st_quarantines u @ [p]\<rparr>)"
      unfolding prepare_quarantine_body_def fresh_def Let_def p_def
      by (auto simp: and_then_Inr_iff simp del: list_ex_iff split: if_split_asm)
    have ctx: "ac_name ac = quarantine_action_of a" "jindex (ex_context e) ''target'' = t"
      "ex_context_hash e = Some (H (ex_context e))" "ap = unat ttl"
      using ap(2) by (simp_all add: context_matches_def Let_def)
    show ?thesis
    proof (rule prepared [of p e ac])
      show "jget (ex_context e) ''target'' = Some t"
        using ctx(2) obj by (auto simp: jindex_def is_object_def split: option.split_asm)
      show "\<forall>q \<in> set (st_quarantines s). \<not> (q_key q = q_key p \<and> active (qi_status q))"
        using ap(5) by (auto simp: list_ex_iff same_target_key f)
      show "r = Inr (st_next s) \<or> r = Inl db_error" using u(3) x(1) f by simp
    qed (use ap ctx c ttl same x(2) f in \<open>simp_all add: p_def audit_def\<close>)
  qed
qed

section \<open>Workers\<close>

record quarantine_system =
  qs_store :: store
  qs_held :: "nat \<Rightarrow> quarantine_guard option"

definition qs_settle :: "quarantine_system \<Rightarrow> nat \<Rightarrow> store \<Rightarrow> quarantine_system" where
  "qs_settle S w s' = S\<lparr>qs_store := s', qs_held := (qs_held S)(w := None)\<rparr>"

inductive quarantine_step :: "quarantine_system \<Rightarrow> quarantine_system \<Rightarrow> bool" where
  prepare: "prepare_quarantine_intent json_len H ex a fp t pf pl ttl (qs_store S) = (r, s') \<Longrightarrow>
     quarantine_step S (S\<lparr>qs_store := s'\<rparr>)"
| acquire: "qs_held S w = None \<Longrightarrow> acquire_quarantine_guard i (qs_store S) = (Inr (Some g), s') \<Longrightarrow>
     quarantine_step S (S\<lparr>qs_store := s', qs_held := (qs_held S)(w := Some g)\<rparr>)"
| acquire_nothing: "acquire_quarantine_guard i (qs_store S) = (r, s') \<Longrightarrow> \<forall>g. r \<noteq> Inr (Some g) \<Longrightarrow>
     quarantine_step S (S\<lparr>qs_store := s'\<rparr>)"
| upid: "qs_held S w = Some g \<Longrightarrow> quarantine_step S (S\<lparr>qs_held := (qs_held S)(w := Some (set_upid u g))\<rparr>)"
| finish: "qs_held S w = Some g \<Longrightarrow> q_finish g input (qs_store S) = (r, s') \<Longrightarrow> quarantine_step S (qs_settle S w s')"
| recovery_required: "qs_held S w = Some g \<Longrightarrow> q_recovery_required g (qs_store S) = (r, s') \<Longrightarrow>
     quarantine_step S (qs_settle S w s')"
| not_applied: "qs_held S w = Some g \<Longrightarrow> q_not_applied g (qs_store S) = (r, s') \<Longrightarrow> quarantine_step S (qs_settle S w s')"
| rolled_back: "qs_held S w = Some g \<Longrightarrow> q_resolve_rollback g (qs_store S) = (r, s') \<Longrightarrow>
     quarantine_step S (qs_settle S w s')"
| abandon: "qs_held S w = Some g \<Longrightarrow> quarantine_step S (qs_settle S w (q_abort g (qs_store S)))"
| environment: "st_quarantines s' = st_quarantines (qs_store S) \<Longrightarrow> st_locked s' = st_locked (qs_store S) \<Longrightarrow>
     st_next (qs_store S) \<le> st_next s' \<Longrightarrow> quarantine_step S (S\<lparr>qs_store := s'\<rparr>)"

definition q_inv :: "quarantine_system \<Rightarrow> bool" where
  "q_inv S \<longleftrightarrow>
     q_ok (st_quarantines (qs_store S)) \<and> (\<forall>q \<in> set (st_quarantines (qs_store S)). qi_id q < st_next (qs_store S)) \<and>
     (\<forall>w g. qs_held S w = Some g \<longrightarrow> qg_row g \<in> set (st_quarantines (qs_store S)) \<and> active (qi_status (qg_row g)) \<and>
        qi_id (qg_row g) \<in> set (st_locked (qs_store S))) \<and>
     (\<forall>v w g h. qs_held S v = Some g \<and> qs_held S w = Some h \<and> qi_id (qg_row g) = qi_id (qg_row h) \<longrightarrow> v = w)"

lemma guarded_step:
  assumes "q_inv S" "qs_held S w = Some g" "q_change g (qs_store S) s'"
  shows "q_inv (qs_settle S w s') \<and>
    ownership_step (q_owners (st_quarantines (qs_store S))) (q_owners (st_quarantines s'))"
proof -
  let ?s = "qs_store S"
  have ok: "q_ok (st_quarantines ?s)" and g: "qg_row g \<in> set (st_quarantines ?s)" "active (qi_status (qg_row g))"
    using assms(1,2) by (auto simp: q_inv_def)
  from assms(3) g(1) consider "st_quarantines s' = st_quarantines ?s"
    | new where "st_quarantines s' = update_rows qi_id (qi_id (qg_row g)) (q_updated g new) (st_quarantines ?s)"
      "generation_transition (qi_status (qg_row g)) new"
    unfolding q_change_def by blast
  then have rows: "q_ok (st_quarantines s') \<and>
      ownership_step (q_owners (st_quarantines ?s)) (q_owners (st_quarantines s')) \<and>
      map qi_id (st_quarantines s') = map qi_id (st_quarantines ?s) \<and>
      (\<forall>q \<in> set (st_quarantines ?s). qi_id q \<noteq> qi_id (qg_row g) \<longrightarrow> q \<in> set (st_quarantines s'))"
  proof cases
    case 1
    then show ?thesis using ok by (simp add: ownership_step.idle)
  next
    case (2 new)
    then show ?thesis
      using rows_ok_update [OF ok g, of "q_updated g new"] update_rows_step [OF ok g 2(2), of "q_updated g new"]
        set_update_rows [OF ok g(1), of "q_updated g new"]
      by (simp add: q_owners_def update_rows_def)
  qed
  have ids: "\<forall>q \<in> set (st_quarantines s'). qi_id q < st_next s'"
  proof
    fix q assume "q \<in> set (st_quarantines s')"
    then have "qi_id q \<in> set (map qi_id (st_quarantines ?s))" using rows by (metis image_eqI set_map)
    then have "qi_id q < st_next ?s" using assms(1) by (auto simp: q_inv_def)
    then show "qi_id q < st_next s'" using assms(3) by (auto simp: q_change_def)
  qed
  have others: "qg_row h \<in> set (st_quarantines s') \<and> qi_id (qg_row h) \<in> set (st_locked s')"
    if "qs_held S v = Some h" "v \<noteq> w" for v h
  proof -
    have "qi_id (qg_row h) \<noteq> qi_id (qg_row g)" "qg_row h \<in> set (st_quarantines ?s)" "qi_id (qg_row h) \<in> set (st_locked ?s)"
      using assms(1,2) that unfolding q_inv_def by blast+
    then show ?thesis using assms(3) rows by (simp add: q_change_def)
  qed
  show ?thesis
    using rows ids others assms(1) unfolding q_inv_def qs_settle_def by (auto split: if_split_asm)
qed

lemma quarantine_step_inv:
  assumes "quarantine_step S T" "q_inv S"
  shows "q_inv T \<and> ownership_step (q_owners (st_quarantines (qs_store S))) (q_owners (st_quarantines (qs_store T)))"
  using assms
proof (induction rule: quarantine_step.induct)
  case (prepare json_len H ex a fp t pf pl ttl S r s')
  from prepare.hyps show ?case
  proof (cases rule: prepare_quarantine_cases)
    case unchanged
    then show ?thesis using prepare.prems by (simp add: q_inv_def ownership_step.idle)
  next
    case (prepared p e ac)
    have "q_ok (st_quarantines s')"
      using prepared(1,4,7) prepare.prems by (auto simp: q_inv_def rows_ok_def)
    moreover have "ownership_step (q_owners (st_quarantines (qs_store S))) (q_owners (st_quarantines s'))"
      using snoc_row_step [where st = qi_status, OF prepared(7)] prepared(1,5) by (simp add: q_owners_def)
    moreover have "\<forall>q \<in> set (st_quarantines s'). qi_id q < st_next s'"
      using prepared(1,2,4) prepare.prems by (auto simp: q_inv_def)
    ultimately show ?thesis using prepared(1,3) prepare.prems by (simp add: q_inv_def)
  qed
next
  case (acquire S w i g s')
  from acquire.hyps(2) show ?case
  proof (cases rule: acquire_quarantine_cases)
    case (granted q)
    then have g: "qg_row g = q" by simp
    have q: "qi_id q = i" "q \<in> set (st_quarantines (qs_store S))"
      using granted(2) by (auto simp: find_quarantine_def find_Some_iff)
    moreover have "qi_id (qg_row f) \<noteq> i" if "qs_held S v = Some f" for v f
      using granted(4) acquire.prems that unfolding q_inv_def by metis
    ultimately show ?thesis using granted acquire.prems g by (auto simp: q_inv_def ownership_step.idle)
  qed simp
next
  case (acquire_nothing i S r s')
  from acquire_nothing.hyps(1) show ?case
    by (cases rule: acquire_quarantine_cases) (use acquire_nothing in \<open>simp_all add: q_inv_def ownership_step.idle\<close>)
next
  case (upid S w g u)
  have "((qs_held S)(w := Some (set_upid u g))) v = Some h \<Longrightarrow> \<exists>f. qs_held S v = Some f \<and> qg_row f = qg_row h" for v h
    using upid.hyps by (auto simp: set_upid_def split: if_split_asm)
  then show ?case using upid.prems unfolding q_inv_def by (simp add: ownership_step.idle) metis
next
  case (finish S w g input r s')
  then show ?case using guarded_step q_finish_change by (simp add: qs_settle_def)
next
  case (recovery_required S w g r s')
  then show ?case using guarded_step q_transition_change by (simp add: qs_settle_def q_recovery_required_def)
next
  case (not_applied S w g r s')
  then show ?case using guarded_step q_not_applied_change by (simp add: qs_settle_def)
next
  case (rolled_back S w g r s')
  then show ?case using guarded_step q_rollback_change by (simp add: qs_settle_def)
next
  case (abandon S w g)
  then show ?case using guarded_step q_abort_change by (simp add: qs_settle_def)
next
  case (environment s' S)
  then show ?case unfolding q_inv_def by (simp add: ownership_step.idle) (meson less_le_trans)
qed

interpretation quarantine_journal: ownership_journal quarantine_step q_inv "\<lambda>S. q_owners (st_quarantines (qs_store S))"
  by unfold_locales (use quarantine_step_inv in blast)+

lemma lifecycle_owner: "owns_quarantine_target (status_name st) = active st"
  by (cases st) (simp_all add: owns_quarantine_target_def active_def)

definition q_start :: "quarantine_system \<Rightarrow> bool" where
  "q_start S \<longleftrightarrow> st_quarantines (qs_store S) = [] \<and> (\<forall>w. qs_held S w = None)"

lemma q_start_inv: "q_start S \<Longrightarrow> q_inv S"
  by (simp add: q_start_def q_inv_def rows_ok_def)

section \<open>Properties\<close>

text \<open>No quarantine without two people.  A generation is only ever prepared for a request that is claimed and
  running, within its approval window, with at least two different people other than its requester having
  approved exactly its context; the generation is for the target in that context under its canonical identity,
  with the approved duration, for the action of its adapter, and no other generation owned that target.\<close>

theorem quarantine_prepare_approved:
  assumes "prepare_quarantine_intent json_len context_hash execution adapter fingerprint target_json preflight plan ttl s = (Inr i, t)"
  shows "\<exists>e a q. find_execution s execution = Some e \<and> ex_status e \<in> {ExStarting, ExRunning} \<and> unexpired s e \<and>
    find_action s (ex_action e) = Some a \<and> ac_name a = quarantine_action_of adapter \<and> ac_enabled a \<and>
    length (independent_approvers s e) \<ge> 2 \<and> ex_context_hash e = Some (context_hash (ex_context e)) \<and>
    jget (ex_context e) ''target'' = Some target_json \<and> canonical_identity adapter target_json = Inr fingerprint \<and>
    approved_ttl target_json = Inr (unat ttl) \<and> 60 \<le> ttl \<and> ttl \<le> 86400 \<and>
    st_quarantines t = st_quarantines s @ [q] \<and> qi_id q = i \<and> qi_status q = Prepared \<and> qi_target_json q = target_json \<and>
    qi_adapter q = adapter \<and> qi_fingerprint q = fingerprint \<and> qi_plan q = plan \<and>
    (\<forall>o' \<in> set (st_quarantines s). \<not> (same_target o' q \<and> active (qi_status o')))"
  using assms
proof (cases rule: prepare_quarantine_cases)
  case unchanged
  then show ?thesis by simp
next
  case (prepared p e a)
  have c: "find_execution s execution = Some e" "find_action s (ex_action e) = Some a" "ex_status e \<in> {ExStarting, ExRunning}"
    "dual_approved s e a"
    using prepared(8) by (auto simp: claimed_approved_def split: option.split_asm if_split_asm)
  then have "ac_enabled a" "length (independent_approvers s e) \<ge> 2"
    by (auto simp: dual_approved_def split: option.split_asm)
  then show ?thesis
    using c prepared by (intro exI [of _ e] exI [of _ a] exI [of _ p]) (auto simp: same_target_key db_error_def)
qed

text \<open>The quarantine journal implements the same ownership as the rule journal, by target instead of rule: every
  run of its workers is a run of the abstract machine, and an owner is only replaced after a state in which
  the target was free.\<close>

theorem quarantine_refines_ownership:
  assumes "q_start S0" "quarantine_step\<^sup>*\<^sup>* S0 S" "quarantine_step\<^sup>*\<^sup>* S T"
  shows "ownership_step\<^sup>*\<^sup>* (q_owners (st_quarantines (qs_store S))) (q_owners (st_quarantines (qs_store T))) \<and>
    (\<forall>k i st. q_owners (st_quarantines (qs_store S)) k = Some (i, st) \<longrightarrow>
      (\<exists>U. quarantine_step\<^sup>*\<^sup>* S U \<and> quarantine_step\<^sup>*\<^sup>* U T \<and> q_owners (st_quarantines (qs_store U)) k = None) \<or>
      (\<exists>st'. q_owners (st_quarantines (qs_store T)) k = Some (i, st') \<and> generation_transition st st'))"
  using quarantine_journal.refines [OF assms(3)] quarantine_journal.owner_kept [OF assms(3)]
    quarantine_journal.run_inv [OF assms(2) q_start_inv [OF assms(1)]] by blast

section \<open>Witnesses\<close>

text \<open>The approved example request, claimed, with a Docker target.\<close>

definition example_container_json :: json where
  "example_container_json = JObj [(''container_id'', JStr (replicate 64 CHR ''a'')), (''kind'', JStr ''docker'')]"

definition example_quarantine_input :: execution_input where
  "example_quarantine_input = example_input\<lparr>xi_target := Some example_container_json\<rparr>"

definition example_claimed :: store where
  "example_claimed = snd (claim_execution_request_for_dispatch (Some 9)
     (snd (approve_execution_request example_hash 10 3 ''bob''
       (snd (approve_execution_request example_hash 10 2 ''ann''
         (snd (create_execution_request example_hash example_quarantine_input example_org)))))))"

lemma example_quarantine_prepared:
  "\<exists>t. prepare_quarantine_intent (\<lambda>_. 2) example_hash 10 ''docker'' (replicate 64 CHR ''a'') example_container_json
      (JObj []) (JObj []) 3600 example_claimed = (Inr 11, t)"
proof -
  let ?p = "prepare_quarantine_intent (\<lambda>_. 2) example_hash 10 ''docker'' (replicate 64 CHR ''a'') example_container_json
      (JObj []) (JObj []) 3600 example_claimed"
  have "fst ?p = Inr 11" by code_simp
  then show ?thesis by (cases ?p) simp
qed

lemma quarantine_prepare_approved_witness:
  "\<exists>t q. prepare_quarantine_intent (\<lambda>_. 2) example_hash 10 ''docker'' (replicate 64 CHR ''a'') example_container_json
      (JObj []) (JObj []) 3600 example_claimed = (Inr 11, t) \<and> st_quarantines t = st_quarantines example_claimed @ [q] \<and>
    qi_status q = Prepared"
proof -
  obtain t where t: "prepare_quarantine_intent (\<lambda>_. 2) example_hash 10 ''docker'' (replicate 64 CHR ''a'') example_container_json
      (JObj []) (JObj []) 3600 example_claimed = (Inr 11, t)" using example_quarantine_prepared by blast
  then show ?thesis using quarantine_prepare_approved [OF t] by blast
qed

lemma quarantine_refines_ownership_witness:
  "\<exists>T :: quarantine_system. ownership_step\<^sup>*\<^sup>* (q_owners []) (q_owners (st_quarantines (qs_store T))) \<and> st_quarantines (qs_store T) \<noteq> []"
proof -
  obtain t where t: "prepare_quarantine_intent (\<lambda>_. 2) example_hash 10 ''docker'' (replicate 64 CHR ''a'') example_container_json
      (JObj []) (JObj []) 3600 example_claimed = (Inr 11, t)" using example_quarantine_prepared by blast
  then obtain q where q: "st_quarantines t = st_quarantines example_claimed @ [q]"
    by (cases rule: prepare_quarantine_cases) (auto simp: db_error_def)
  let ?S = "\<lparr> qs_store = example_claimed, qs_held = \<lambda>_. None \<rparr>"
  have none: "st_quarantines example_claimed = []" by code_simp
  have "quarantine_step ?S (?S\<lparr>qs_store := t\<rparr>)" using t by (intro quarantine_step.prepare) simp
  then have "quarantine_step\<^sup>*\<^sup>* ?S (?S\<lparr>qs_store := t\<rparr>)" by simp
  moreover have "q_start ?S" using none by (simp add: q_start_def)
  ultimately have "ownership_step\<^sup>*\<^sup>* (q_owners (st_quarantines (qs_store ?S)))
      (q_owners (st_quarantines (qs_store (?S\<lparr>qs_store := t\<rparr>))))"
    using quarantine_refines_ownership [of ?S ?S "?S\<lparr>qs_store := t\<rparr>"] by blast
  then show ?thesis using none q by (intro exI [of _ "?S\<lparr>qs_store := t\<rparr>"]) simp
qed

end
