(* ===== verification/Tailscale.thy ===== *)
theory Tailscale
  imports Fw_Adapter
begin

text \<open>
  \<^verbatim>\<open>TailscaleAdapter\<close> of \<^verbatim>\<open>firewall-agent/src/lib.rs\<close>: quarantine of a tailnet device by a tag.  It does
  not implement the firewall trait.  Parameters: \<open>send\<close> performs one HTTP request, \<open>parse_token\<close> and
  \<open>parse_device\<close> decode the answers' bodies (\<^verbatim>\<open>serde_json\<close>).
\<close>

definition TAILSCALE_API_BASE :: string where
  "TAILSCALE_API_BASE = ''https://api.tailscale.com/api/v2''"

definition TAILSCALE_DEFAULT_QUARANTINE_TAG :: string where
  "TAILSCALE_DEFAULT_QUARANTINE_TAG = ''tag:clawforge-quarantine''"

record tailscale_target =
  device_id :: string

record tailscale_action =
  ts_target :: tailscale_target
  ts_reason :: string

record tailscale_receipt =
  ts_adapter :: string
  described_call :: string

record tailscale_apply_result =
  ts_receipt :: tailscale_receipt
  ts_applied :: bool

record tailscale_preflight =
  already_quarantined :: bool
  current_tags :: "string list"
  rollback_requires_reauth :: bool
  protected :: bool

record tailscale_credentials =
  client_id :: string
  client_secret :: string

record tailscale_adapter =
  credentials :: "msg + tailscale_credentials"
  quarantine_tag :: string
  never_quarantine :: "string list"

datatype http_request =
    Post_Form string "(string \<times> string) list"
  | Get string string
  | Post_Tags string string "string list"

record http_response =
  http_success :: bool
  http_status :: string
  http_body :: string

type_synonym 'w http_send = "http_request \<Rightarrow> ('w, msg, http_response) io"

record tailscale_decoders =
  parse_token :: "string \<Rightarrow> msg + string"
  parse_device :: "string \<Rightarrow> msg + string list"

definition ts_validate :: "tailscale_target \<Rightarrow> adapter_error + unit" where
  "ts_validate t =
     (if trim (device_id t) = [] then Inl (invalid_lit ''tailscale device_id must not be empty'') else Inr ())"

definition quarantine_preflight :: "string list \<Rightarrow> string \<Rightarrow> bool \<Rightarrow> tailscale_preflight" where
  "quarantine_preflight tags qtag prot =
     (let already = qtag \<in> set tags; has_other = list_ex (\<lambda>t. t \<noteq> qtag) tags
      in \<lparr> already_quarantined = already, current_tags = tags,
           rollback_requires_reauth = \<not> has_other, protected = prot \<rparr>)"

definition never_quarantine_from_configured :: "string option \<Rightarrow> string list" where
  "never_quarantine_from_configured configured =
     filter (\<lambda>e. e \<noteq> []) (map trim (split_on CHR '','' (case configured of None \<Rightarrow> [] | Some s \<Rightarrow> s)))"

text \<open>\<^verbatim>\<open>TailscaleAdapter::new\<close>: the outcomes of loading the two secrets and the two environment variables.\<close>

definition tailscale_new ::
  "msg + string option \<Rightarrow> msg + string option \<Rightarrow> string option \<Rightarrow> string option \<Rightarrow> tailscale_adapter" where
  "tailscale_new cid secret tag never =
     \<lparr> credentials =
         (case (cid, secret) of
            (Inr (Some i), Inr (Some s)) \<Rightarrow> Inr \<lparr> client_id = i, client_secret = s \<rparr>
          | (Inr None, Inr None) \<Rightarrow>
              Inl [Lit ''CLAWFORGE_TAILSCALE_OAUTH_CLIENT_ID/_SECRET are not configured'']
          | (Inr _, Inr _) \<Rightarrow>
              Inl [Lit ''CLAWFORGE_TAILSCALE_OAUTH_CLIENT_ID and _SECRET must both be configured, or neither'']
          | (Inl e, _) \<Rightarrow> Inl e
          | (_, Inl e) \<Rightarrow> Inl e),
       quarantine_tag = (case tag of Some t \<Rightarrow> t | None \<Rightarrow> TAILSCALE_DEFAULT_QUARANTINE_TAG),
       never_quarantine = never_quarantine_from_configured never \<rparr>"

definition ts_render :: "tailscale_adapter \<Rightarrow> tailscale_action \<Rightarrow> adapter_error + tailscale_receipt" where
  "ts_render A a =
     and_then (ts_validate (ts_target a)) (\<lambda>_.
     Inr \<lparr> ts_adapter = ''tailscale'',
           described_call = ''POST '' @ TAILSCALE_API_BASE @ ''/device/'' @ device_id (ts_target a) @ ''/tags (add '' @
             quarantine_tag A @ '', preserving existing tags) (reason: '' @ ts_reason a @ '')'' \<rparr>)"

definition ts_credentials :: "tailscale_adapter \<Rightarrow> adapter_error + tailscale_credentials" where
  "ts_credentials A =
     map_err (\<lambda>e. InvalidTarget (Lit ''Tailscale credentials are not configured: '' # e)) (credentials A)"

definition access_token ::
  "'w http_send \<Rightarrow> tailscale_decoders \<Rightarrow> tailscale_adapter \<Rightarrow> ('w, adapter_error, string) io" where
  "access_token send dec A =
     io_bind (io_lift (ts_credentials A)) (\<lambda>c.
     io_bind (io_map_err (\<lambda>e. Apply (Lit ''tailscale oauth token request failed: '' # e))
       (send (Post_Form (TAILSCALE_API_BASE @ ''/oauth/token'')
                [(''client_id'', client_id c), (''client_secret'', client_secret c)]))) (\<lambda>response.
     if \<not> http_success response
     then io_fail (Apply [Lit ''tailscale oauth token request rejected: HTTP '', Lit (http_status response)])
     else io_lift (map_err (\<lambda>e. Apply (Lit ''tailscale oauth token response was not valid JSON: '' # e))
            (parse_token dec (http_body response)))))"

definition device_tags ::
  "'w http_send \<Rightarrow> tailscale_decoders \<Rightarrow> tailscale_adapter \<Rightarrow> string \<Rightarrow> ('w, adapter_error, string list) io" where
  "device_tags send dec A d =
     io_bind (access_token send dec A) (\<lambda>token.
     io_bind (io_map_err (\<lambda>e. Verify (Lit ''tailscale device lookup failed: '' # e))
       (send (Get (TAILSCALE_API_BASE @ ''/device/'' @ d @ ''?fields=all'') token))) (\<lambda>response.
     if \<not> http_success response
     then io_fail (Verify [Lit ''tailscale device lookup rejected: HTTP '', Lit (http_status response)])
     else io_lift (map_err (\<lambda>e. Verify (Lit ''tailscale device response was not valid JSON: '' # e))
            (parse_device dec (http_body response)))))"

definition set_device_tags ::
  "'w http_send \<Rightarrow> tailscale_decoders \<Rightarrow> tailscale_adapter \<Rightarrow> string \<Rightarrow> string list \<Rightarrow> ('w, adapter_error, unit) io" where
  "set_device_tags send dec A d tags =
     io_bind (access_token send dec A) (\<lambda>token.
     io_bind (io_map_err (\<lambda>e. Apply (Lit ''tailscale set-tags request failed: '' # e))
       (send (Post_Tags (TAILSCALE_API_BASE @ ''/device/'' @ d @ ''/tags'') token tags))) (\<lambda>response.
     if \<not> http_success response
     then io_fail (Apply [Lit ''tailscale set-tags rejected: HTTP '', Lit (http_status response)])
     else io_return ()))"

definition ts_is_protected :: "tailscale_adapter \<Rightarrow> string \<Rightarrow> bool" where
  "ts_is_protected A d = list_ex (\<lambda>i. i = d) (never_quarantine A)"

definition ts_preflight ::
  "'w http_send \<Rightarrow> tailscale_decoders \<Rightarrow> tailscale_adapter \<Rightarrow> tailscale_target \<Rightarrow> ('w, adapter_error, tailscale_preflight) io" where
  "ts_preflight send dec A t =
     io_bind (io_lift (ts_validate t)) (\<lambda>_.
     if ts_is_protected A (device_id t) then io_return (quarantine_preflight [] (quarantine_tag A) True)
     else io_bind (device_tags send dec A (device_id t)) (\<lambda>tags.
          io_return (quarantine_preflight tags (quarantine_tag A) False)))"

definition ts_apply ::
  "'w http_send \<Rightarrow> tailscale_decoders \<Rightarrow> tailscale_adapter \<Rightarrow> tailscale_action \<Rightarrow> bool \<Rightarrow>
   ('w, adapter_error, tailscale_apply_result) io" where
  "ts_apply send dec A a dry =
     io_bind (io_lift (ts_validate (ts_target a))) (\<lambda>_.
     let d = device_id (ts_target a) in
     if ts_is_protected A d then
       io_fail (InvalidTarget [Lit ''device '', Lit d, Lit '' is on the never-quarantine protection list ('',
         Lit ''CLAWFORGE_TAILSCALE_NEVER_QUARANTINE'', Lit ''); refusing to quarantine''])
     else
       io_bind (io_lift (ts_render A a)) (\<lambda>r.
       if dry then io_return \<lparr> ts_receipt = r, ts_applied = False \<rparr>
       else
         io_bind (device_tags send dec A d) (\<lambda>tags.
         io_bind (if quarantine_tag A \<in> set tags then io_return ()
                  else set_device_tags send dec A d (tags @ [quarantine_tag A])) (\<lambda>_.
         io_return \<lparr> ts_receipt = r, ts_applied = True \<rparr>))))"

definition ts_verify ::
  "'w http_send \<Rightarrow> tailscale_decoders \<Rightarrow> tailscale_adapter \<Rightarrow> tailscale_target \<Rightarrow> ('w, adapter_error, verification_result) io" where
  "ts_verify send dec A t =
     io_bind (io_lift (ts_validate t)) (\<lambda>_.
     io_bind (device_tags send dec A (device_id t)) (\<lambda>tags.
     io_return (if quarantine_tag A \<in> set tags then Verified else NotPresent)))"

definition ts_rollback ::
  "'w http_send \<Rightarrow> tailscale_decoders \<Rightarrow> tailscale_adapter \<Rightarrow> tailscale_action \<Rightarrow> ('w, adapter_error, unit) io" where
  "ts_rollback send dec A a =
     io_bind (io_lift (ts_validate (ts_target a))) (\<lambda>_.
     let d = device_id (ts_target a) in
     io_bind (device_tags send dec A d) (\<lambda>tags.
     if quarantine_tag A \<notin> set tags then io_return ()
     else
       let remaining = filter (\<lambda>t. t \<noteq> quarantine_tag A) tags in
       if remaining = [] then
         io_fail (Rollback [Lit ''cannot remove the last tag from device '', Lit d,
           Lit '' via the API - Tailscale requires the device itself to reauth (open the Tailscale app and log in again, or run `tailscale up`) to fully untag a node; this is a Tailscale platform constraint, not something this adapter can complete automatically''])
       else set_device_tags send dec A d remaining))"

section \<open>Properties\<close>

text \<open>Self-lockout guard.  For a protected device the Tailscale adapter never performs a request: a dry
  or live apply is refused and a preflight only reports the protection; a dry run never performs one
  for any device; and when any live apply succeeds its device was not protected.\<close>

theorem tailscale_protection:
  "(ts_is_protected A (device_id (ts_target a)) \<longrightarrow>
      (\<exists>e. ts_apply send dec A a dry w = (Inl e, w)) \<and>
      snd (ts_preflight send dec A (ts_target a) w) = w \<and>
      (\<forall>p. fst (ts_preflight send dec A (ts_target a) w) = Inr p \<longrightarrow> protected p)) \<and>
   snd (ts_apply send dec A a True w) = w"
proof -
  have "\<exists>e. ts_validate (ts_target a) = Inl e \<or> ts_validate (ts_target a) = Inr ()"
    by (cases "ts_validate (ts_target a)") auto
  then show ?thesis
    by (auto simp: ts_apply_def ts_preflight_def Let_def ts_render_def quarantine_preflight_def io_bind_lift
        split: if_splits sum.splits)
qed

text \<open>What the Admin API documents for one device, \<open>tags\<close> reading its tags off the world: the token
  request and the lookup change nothing, the lookup answers with the tags, setting them replaces the
  whole list, and an empty list is refused.\<close>

definition tailscale_documented ::
  "'w http_send \<Rightarrow> tailscale_decoders \<Rightarrow> string \<Rightarrow> ('w \<Rightarrow> string list) \<Rightarrow> bool" where
  "tailscale_documented send dec d tags \<longleftrightarrow>
     (\<forall>url form w. \<exists>resp token. send (Post_Form url form) w = (Inr resp, w) \<and> http_success resp \<and>
         parse_token dec (http_body resp) = Inr token) \<and>
     (\<forall>token w. \<exists>resp. send (Get (TAILSCALE_API_BASE @ ''/device/'' @ d @ ''?fields=all'') token) w = (Inr resp, w) \<and>
         http_success resp \<and> parse_device dec (http_body resp) = Inr (tags w)) \<and>
     (\<forall>token ts w. ts \<noteq> [] \<longrightarrow> (\<exists>resp w'. send (Post_Tags (TAILSCALE_API_BASE @ ''/device/'' @ d @ ''/tags'') token ts) w = (Inr resp, w') \<and>
         http_success resp \<and> tags w' = ts))"

lemma documented_device_tags:
  assumes "tailscale_documented send dec d tags" "credentials A = Inr c"
  shows "device_tags send dec A d w = (Inr (tags w), w)"
proof -
  obtain r1 tk where "send (Post_Form (TAILSCALE_API_BASE @ ''/oauth/token'')
      [(''client_id'', client_id c), (''client_secret'', client_secret c)]) w = (Inr r1, w)"
    "http_success r1" "parse_token dec (http_body r1) = Inr tk"
    using assms(1) unfolding tailscale_documented_def by blast
  then have t: "access_token send dec A w = (Inr tk, w)"
    using assms(2) by (simp add: access_token_def ts_credentials_def io_bind_def io_map_err_def io_lift_def)
  obtain r2 where "send (Get (TAILSCALE_API_BASE @ ''/device/'' @ d @ ''?fields=all'') tk) w = (Inr r2, w)"
    "http_success r2" "parse_device dec (http_body r2) = Inr (tags w)"
    using assms(1) unfolding tailscale_documented_def by blast
  then show ?thesis using t by (simp add: device_tags_def io_bind_def io_map_err_def io_lift_def)
qed

lemma documented_set_tags:
  assumes "tailscale_documented send dec d tags" "credentials A = Inr c" "ts \<noteq> []"
  shows "\<exists>w'. set_device_tags send dec A d ts w = (Inr (), w') \<and> tags w' = ts"
proof -
  obtain r1 tk where "send (Post_Form (TAILSCALE_API_BASE @ ''/oauth/token'')
      [(''client_id'', client_id c), (''client_secret'', client_secret c)]) w = (Inr r1, w)"
    "http_success r1" "parse_token dec (http_body r1) = Inr tk"
    using assms(1) unfolding tailscale_documented_def by blast
  then have t: "access_token send dec A w = (Inr tk, w)"
    using assms(2) by (simp add: access_token_def ts_credentials_def io_bind_def io_map_err_def io_lift_def)
  obtain r2 w' where "send (Post_Tags (TAILSCALE_API_BASE @ ''/device/'' @ d @ ''/tags'') tk ts) w = (Inr r2, w')"
    "http_success r2" "tags w' = ts"
    using assms(1,3) unfolding tailscale_documented_def by blast
  then show ?thesis using t by (simp add: set_device_tags_def io_bind_def io_map_err_def io_lift_def io_return_def)
qed

text \<open>With the documented Admin API, quarantining an unprotected device adds exactly the quarantine tag
  to its tags and is verified; the rollback then restores the tags the device had, unless it had none
  other, in which case it fails, changes nothing, and the preflight taken before had announced it.\<close>

theorem tailscale_quarantine_round_trip:
  assumes "tailscale_documented send dec (device_id (ts_target a)) tags" "credentials A = Inr c"
    and "ts_validate (ts_target a) = Inr ()" "\<not> ts_is_protected A (device_id (ts_target a))"
    and "quarantine_tag A \<notin> set (tags w)"
  shows "\<exists>p res w1. ts_preflight send dec A (ts_target a) w = (Inr p, w) \<and>
    ts_apply send dec A a False w = (Inr res, w1) \<and> tags w1 = tags w @ [quarantine_tag A] \<and>
    ts_verify send dec A (ts_target a) w1 = (Inr Verified, w1) \<and>
    (rollback_requires_reauth p \<longleftrightarrow> tags w = []) \<and>
    (if tags w = [] then \<exists>e. ts_rollback send dec A a w1 = (Inl e, w1)
     else \<exists>w2. ts_rollback send dec A a w1 = (Inr (), w2) \<and> tags w2 = tags w)"
proof -
  let ?d = "device_id (ts_target a)" and ?q = "quarantine_tag A"
  note dt = documented_device_tags [OF assms(1,2)]
  obtain w1 where w1: "set_device_tags send dec A ?d (tags w @ [?q]) w = (Inr (), w1)" "tags w1 = tags w @ [?q]"
    using documented_set_tags [OF assms(1,2), of "tags w @ [?q]" w] by auto
  obtain r where r: "ts_render A a = Inr r" using assms(3) by (simp add: ts_render_def)
  have "ts_apply send dec A a False w = (Inr \<lparr> ts_receipt = r, ts_applied = True \<rparr>, w1)"
    using assms(3-5) dt w1 r by (simp add: ts_apply_def Let_def io_bind_def io_lift_def io_return_def)
  moreover have "ts_preflight send dec A (ts_target a) w = (Inr (quarantine_preflight (tags w) ?q False), w)"
    using assms(3,4) dt by (simp add: ts_preflight_def io_bind_def io_lift_def io_return_def)
  moreover have "rollback_requires_reauth (quarantine_preflight (tags w) ?q False) \<longleftrightarrow> tags w = []"
    using assms(5) by (cases "tags w") (auto simp: quarantine_preflight_def list_ex_iff)
  moreover have "ts_verify send dec A (ts_target a) w1 = (Inr Verified, w1)"
    using assms(3) dt w1(2) by (simp add: ts_verify_def io_bind_def io_lift_def io_return_def)
  moreover have rem: "filter (\<lambda>t. t \<noteq> ?q) (tags w1) = tags w"
    using assms(5) w1(2) by (auto simp: filter_id_conv)
  moreover have "if tags w = [] then \<exists>e. ts_rollback send dec A a w1 = (Inl e, w1)
     else \<exists>w2. ts_rollback send dec A a w1 = (Inr (), w2) \<and> tags w2 = tags w"
    using assms(3) dt rem w1(2) documented_set_tags [OF assms(1,2), of "tags w" w1]
    by (auto simp: ts_rollback_def io_bind_def io_lift_def io_fail_def Let_def)
  ultimately show ?thesis using w1(2) by blast
qed

text \<open>A tailnet with one device, its tag list being the world, for the witness.\<close>

fun encode_tags :: "string list \<Rightarrow> string" where
  "encode_tags [] = []"
| "encode_tags ([] # ts) = CHR '','' # encode_tags ts"
| "encode_tags ((c # cs) # ts) = CHR ''.'' # c # encode_tags (cs # ts)"

fun decode_tags :: "string \<Rightarrow> string \<Rightarrow> string list" where
  "decode_tags cur [] = []"
| "decode_tags cur (a # r) =
     (if a = CHR '','' then cur # decode_tags [] r
      else case r of [] \<Rightarrow> [] | c # r' \<Rightarrow> decode_tags (cur @ [c]) r')"

lemma decode_encode_cons: "decode_tags cur (encode_tags (s # ts)) = (cur @ s) # decode_tags [] (encode_tags ts)"
  by (induction s arbitrary: cur) simp_all

lemma decode_encode: "decode_tags [] (encode_tags ts) = ts"
proof (induction ts)
  case (Cons s ts)
  then show ?case using decode_encode_cons [of "[]" s ts] by (cases s) simp_all
qed simp

definition example_decoders :: tailscale_decoders where
  "example_decoders =
     \<lparr> parse_token = (\<lambda>s. Inr s), parse_device = (\<lambda>s. Inr (decode_tags [] s)) \<rparr>"

definition example_send :: "string list http_send" where
  "example_send req w =
     (let ok = (\<lambda>body. Inr \<lparr> http_success = True, http_status = ''200'', http_body = body \<rparr>)
      in case req of
           Post_Form _ _ \<Rightarrow> (ok ''token'', w)
         | Get _ _ \<Rightarrow> (ok (encode_tags w), w)
         | Post_Tags _ _ ts \<Rightarrow> (ok [], ts))"

lemma example_documented: "tailscale_documented example_send example_decoders d id"
  by (simp add: tailscale_documented_def example_send_def example_decoders_def decode_encode)

lemma tailscale_quarantine_round_trip_witness:
  "\<exists>w1 w2. ts_rollback example_send example_decoders
       (tailscale_new (Inr (Some ''id'')) (Inr (Some ''secret'')) None (Some ''node-1''))
       \<lparr> ts_target = \<lparr> device_id = ''node-2'' \<rparr>, ts_reason = ''test'' \<rparr> w1 = (Inr (), w2) \<and> w2 = [''tag:server'']"
proof -
  let ?A = "tailscale_new (Inr (Some ''id'')) (Inr (Some ''secret'')) None (Some ''node-1'')"
  let ?a = "\<lparr> ts_target = \<lparr> device_id = ''node-2'' \<rparr>, ts_reason = ''test'' \<rparr>"
  have "ts_validate (ts_target ?a) = Inr ()" "\<not> ts_is_protected ?A (device_id (ts_target ?a))" by code_simp+
  then show ?thesis
    using tailscale_quarantine_round_trip [OF example_documented, of ?A "\<lparr> client_id = ''id'', client_secret = ''secret'' \<rparr>"
        ?a "[''tag:server'']"]
    by (auto simp: tailscale_new_def TAILSCALE_DEFAULT_QUARANTINE_TAG_def)
qed

lemma tailscale_protection_witness:
  "\<exists>e. ts_apply example_send example_decoders
     (tailscale_new (Inr (Some ''id'')) (Inr (Some ''secret'')) None (Some ''node-1, node-2''))
     \<lparr> ts_target = \<lparr> device_id = ''node-2'' \<rparr>, ts_reason = ''test'' \<rparr> False [''tag:a''] = (Inl e, [''tag:a''])"
proof -
  let ?A = "tailscale_new (Inr (Some ''id'')) (Inr (Some ''secret'')) None (Some ''node-1, node-2'')"
  let ?a = "\<lparr> ts_target = \<lparr> device_id = ''node-2'' \<rparr>, ts_reason = ''test'' \<rparr>"
  have "ts_is_protected ?A (device_id (ts_target ?a))" by code_simp
  then show ?thesis
    using tailscale_protection [of ?A ?a example_send example_decoders False "[''tag:a'']"] by blast
qed

end
