(* ===== verification/Docker_Quarantine.thy ===== *)
theory Docker_Quarantine
  imports Quarantine
begin

text \<open>
  \<^verbatim>\<open>firewall-agent/src/docker.rs\<close>: isolation of a container by disconnecting it from its networks, and
  its restoration.  Parameters: \<open>spawn\<close> runs the docker program once with an argument vector, with its
  15 second timeout (\<^verbatim>\<open>tokio::process::Command\<close>), \<open>parse_json\<close> is \<^verbatim>\<open>serde_json::from_str\<close>.
\<close>

section \<open>Network metadata\<close>

record network_attachment =
  na_name :: string
  network_id :: string
  aliases :: "string list"
  ipv4 :: "string option"
  ipv6 :: "string option"
  links :: "string list"
  link_local_ips :: "string list"
  driver_opts :: "(string \<times> string) list"
  gateway_priority :: int

definition INSPECT_FORMAT :: string where
  "INSPECT_FORMAT = ''{\"mode\":{{json .HostConfig.NetworkMode}},\"networks\":{{json .NetworkSettings.Networks}}}''"

definition verify_lit :: "string \<Rightarrow> adapter_error" where
  "verify_lit s = Verify [Lit s]"

definition json_strings :: "json option \<Rightarrow> adapter_error + string list" where
  "json_strings v =
     (case v of
        None \<Rightarrow> Inr []
      | Some JNull \<Rightarrow> Inr []
      | Some (JArr xs) \<Rightarrow> collect_results (\<lambda>x. ok_or (verify_lit ''invalid network metadata string array'') (as_str x)) xs
      | Some _ \<Rightarrow> Inl (verify_lit ''invalid network metadata array''))"

definition optional_ip :: "json \<Rightarrow> adapter_error + string option" where
  "optional_ip v =
     (case v of
        JNull \<Rightarrow> Inr None
      | JStr s \<Rightarrow> Inr (if s = [] then None else Some s)
      | _ \<Rightarrow> Inl (verify_lit ''invalid network IP metadata''))"

definition ascii_hexdigit :: "char \<Rightarrow> bool" where
  "ascii_hexdigit c =
     (ascii_digit c \<or> (65 \<le> ord_of c \<and> ord_of c \<le> 70) \<or> (97 \<le> ord_of c \<and> ord_of c \<le> 102))"

fun opt_list :: "'a option \<Rightarrow> 'a list" where
  "opt_list None = []"
| "opt_list (Some x) = [x]"

definition na_validate :: "network_attachment \<Rightarrow> adapter_error + unit" where
  "na_validate n =
     (let tokens = na_name n # aliases n @ links n in
      if length (network_id n) \<noteq> 64 \<or> \<not> list_all ascii_hexdigit (network_id n)
         \<or> length (aliases n) > 32 \<or> length (links n) > 32 \<or> length (link_local_ips n) > 16
         \<or> list_ex (\<lambda>v. v = [] \<or> length v > 256 \<or> has_control v) tokens
      then Inl (invalid_lit ''invalid network restoration metadata'')
      else if list_ex (\<lambda>ip. parse_ip ip = None) (opt_list (ipv4 n) @ opt_list (ipv6 n) @ link_local_ips n)
      then Inl (invalid_lit ''invalid restoration IP address'')
      else if list_ex (\<lambda>(k, v). k \<noteq> ''com.docker.network.endpoint.sysctls'' \<or> length v > 2048 \<or> has_control v) (driver_opts n)
      then Inl (invalid_lit ''unsupported network driver options; refusing lossy restoration'')
      else Inr ())"

definition flag_args :: "string \<Rightarrow> string list \<Rightarrow> string list" where
  "flag_args flag values = concat (map (\<lambda>v. [flag, v]) values)"

definition connect_args :: "network_attachment \<Rightarrow> string \<Rightarrow> adapter_error + string list" where
  "connect_args n i =
     and_then (na_validate n) (\<lambda>_.
     Inr ([''network'', ''connect'']
       @ flag_args ''--alias'' (aliases n) @ flag_args ''--link'' (links n)
       @ flag_args ''--link-local-ip'' (link_local_ips n)
       @ flag_args ''--ip'' (opt_list (ipv4 n)) @ flag_args ''--ip6'' (opt_list (ipv6 n))
       @ flag_args ''--driver-opt'' (map (\<lambda>(k, v). k @ ''='' @ v) (driver_opts n))
       @ (if gateway_priority n \<noteq> 0 then [''--gw-priority'', show_int (gateway_priority n)] else [])
       @ [network_id n, i]))"

definition restored_by :: "network_attachment \<Rightarrow> network_attachment \<Rightarrow> bool" where
  "restored_by old now =
     (network_id old = network_id now \<and> ipv4 old = ipv4 now \<and> ipv6 old = ipv6 now
      \<and> list_all (\<lambda>a. a \<in> set (aliases now)) (aliases old)
      \<and> links old = links now \<and> link_local_ips old = link_local_ips now
      \<and> driver_opts old = driver_opts now \<and> gateway_priority old = gateway_priority now)"

definition parse_attachment :: "string \<times> json \<Rightarrow> adapter_error + network_attachment" where
  "parse_attachment nv =
     (let name = fst nv; v = snd nv; ipam = jindex v ''IPAMConfig'' in
      if as_object v = None \<or> (ipam \<noteq> JNull \<and> as_object ipam = None)
      then Inl (verify_lit ''invalid network attachment metadata'')
      else
        and_then (case jindex v ''DriverOpts'' of
                    JNull \<Rightarrow> Inr []
                  | JObj opts \<Rightarrow> collect_results (\<lambda>(k, x).
                       and_then (ok_or (verify_lit ''invalid network driver option'') (as_str x)) (\<lambda>s. Inr (k, s))) opts
                  | _ \<Rightarrow> Inl (verify_lit ''invalid network driver options'')) (\<lambda>opts.
        and_then (case jindex v ''GwPriority'' of
                    JNull \<Rightarrow> Inr 0
                  | value \<Rightarrow> ok_or (verify_lit ''invalid network gateway priority'') (as_i64 value)) (\<lambda>gw.
        and_then (json_strings (jget v ''Aliases'')) (\<lambda>als.
        and_then (json_strings (jget v ''Links'')) (\<lambda>lks.
        and_then (optional_ip (jindex ipam ''IPv4Address'')) (\<lambda>i4.
        and_then (optional_ip (jindex ipam ''IPv6Address'')) (\<lambda>i6.
        and_then (json_strings (jget ipam ''LinkLocalIPs'')) (\<lambda>lls.
        let attachment = \<lparr> na_name = name,
              network_id = (case as_str (jindex v ''NetworkID'') of Some s \<Rightarrow> s | None \<Rightarrow> []),
              aliases = als, ipv4 = i4, ipv6 = i6, links = lks, link_local_ips = lls,
              driver_opts = opts, gateway_priority = gw \<rparr>
        in and_then (na_validate attachment) (\<lambda>_. Inr attachment)))))))))"

definition parse_networks :: "(string \<Rightarrow> json option) \<Rightarrow> string \<Rightarrow> adapter_error + network_attachment list" where
  "parse_networks parse_json raw =
     (if length raw > 65536 then Inl (verify_lit ''network inspection exceeds size limit'')
      else
        and_then (ok_or (verify_lit ''invalid Docker network inspection JSON'') (parse_json raw)) (\<lambda>doc.
        and_then (ok_or (verify_lit ''network mode missing'') (as_str (jindex doc ''mode''))) (\<lambda>mode.
        if mode = ''host'' \<or> prefix ''container:'' mode
        then Inl (invalid_lit ''shared/host networking cannot be safely quarantined'')
        else
          and_then (ok_or (verify_lit ''network attachments missing'') (as_object (jindex doc ''networks''))) (\<lambda>nets.
          if length nets > 16 then Inl (invalid_lit ''too many network attachments'')
          else collect_results parse_attachment nets))))"

text \<open>The attachments as \<^verbatim>\<open>serde\<close> writes them into a rollback plan and reads them back (\<^verbatim>\<open>derive(Serialize,
  Deserialize)\<close>: a member that is not named by a field is ignored, an absent optional one is \<^verbatim>\<open>None\<close>, and a
  sequence of all the fields in their order is read as well).\<close>

definition attachment_to_json :: "network_attachment \<Rightarrow> json" where
  "attachment_to_json n =
     (let strs = (\<lambda>xs. JArr (map JStr xs)); opt = (\<lambda>x. case x of Some v \<Rightarrow> JStr v | None \<Rightarrow> JNull) in
      JObj [(''aliases'', strs (aliases n)),
            (''driver_opts'', JObj (map (\<lambda>(k, v). (k, JStr v)) (driver_opts n))),
            (''gateway_priority'', JInt (gateway_priority n)), (''ipv4'', opt (ipv4 n)), (''ipv6'', opt (ipv6 n)),
            (''link_local_ips'', strs (link_local_ips n)), (''links'', strs (links n)),
            (''name'', JStr (na_name n)), (''network_id'', JStr (network_id n))])"

definition networks_to_json :: "network_attachment list \<Rightarrow> json" where
  "networks_to_json nets = JArr (map attachment_to_json nets)"

definition serde_strings :: "json \<Rightarrow> string list option" where
  "serde_strings v = Option.bind (as_array v) (\<lambda>xs. those (map as_str xs))"

definition serde_string_map :: "json \<Rightarrow> (string \<times> string) list option" where
  "serde_string_map v =
     Option.bind (as_object v) (\<lambda>kvs. those (map (\<lambda>(k, x). map_option (Pair k) (as_str x)) kvs))"

fun serde_optional :: "json option \<Rightarrow> string option option" where
  "serde_optional None = Some None"
| "serde_optional (Some JNull) = Some None"
| "serde_optional (Some v) = map_option Some (as_str v)"

definition read_attachment :: "(string \<Rightarrow> json option) \<Rightarrow> network_attachment option" where
  "read_attachment field =
     (case (Option.bind (field ''name'') as_str, Option.bind (field ''network_id'') as_str,
            Option.bind (field ''aliases'') serde_strings, serde_optional (field ''ipv4''), serde_optional (field ''ipv6''),
            Option.bind (field ''links'') serde_strings, Option.bind (field ''link_local_ips'') serde_strings,
            Option.bind (field ''driver_opts'') serde_string_map, Option.bind (field ''gateway_priority'') as_i64) of
        (Some name, Some nid, Some als, Some i4, Some i6, Some lks, Some lls, Some opts, Some gw) \<Rightarrow>
          Some \<lparr> na_name = name, network_id = nid, aliases = als, ipv4 = i4, ipv6 = i6, links = lks,
                 link_local_ips = lls, driver_opts = opts, gateway_priority = gw \<rparr>
      | _ \<Rightarrow> None)"

fun attachment_from_json :: "json \<Rightarrow> network_attachment option" where
  "attachment_from_json (JObj kvs) = read_attachment (map_of kvs)"
| "attachment_from_json (JArr vs) =
     (if length vs = 9 then
        read_attachment (map_of (zip [''name'', ''network_id'', ''aliases'', ''ipv4'', ''ipv6'', ''links'', ''link_local_ips'',
          ''driver_opts'', ''gateway_priority''] vs))
      else None)"
| "attachment_from_json _ = None"

definition networks_from_json :: "json \<Rightarrow> network_attachment list option" where
  "networks_from_json v = Option.bind (as_array v) (\<lambda>xs. those (map attachment_from_json xs))"

lemma those_map: "(\<And>x. x \<in> set xs \<Longrightarrow> f x = Some (g x)) \<Longrightarrow> those (map f xs) = Some (map g xs)"
  by (induction xs) simp_all

lemma attachment_round_trip:
  assumes "- (2 ^ 63) \<le> gateway_priority n" "gateway_priority n < 2 ^ 63"
  shows "attachment_from_json (attachment_to_json n) = Some n"
proof -
  have "serde_strings (JArr (map JStr xs)) = Some xs" for xs
    using those_map [of xs "as_str \<circ> JStr" id] by (simp add: serde_strings_def comp_def)
  moreover have "serde_string_map (JObj (map (\<lambda>(k, v). (k, JStr v)) kvs)) = Some kvs" for kvs
    using those_map [of kvs "(\<lambda>(k, x). map_option (Pair k) (as_str x)) \<circ> (\<lambda>(k, v). (k, JStr v))" id]
    by (auto simp: serde_string_map_def comp_def)
  ultimately show ?thesis using assms
    by (cases "ipv4 n"; cases "ipv6 n") (simp_all add: attachment_to_json_def read_attachment_def Let_def)
qed

lemma networks_round_trip:
  assumes "\<forall>n \<in> set nets. - (2 ^ 63) \<le> gateway_priority n \<and> gateway_priority n < 2 ^ 63"
  shows "networks_from_json (networks_to_json nets) = Some nets"
  using those_map [of nets "attachment_from_json \<circ> attachment_to_json" id] attachment_round_trip assms
  by (simp add: networks_from_json_def networks_to_json_def)

section \<open>The adapter\<close>

datatype spawn_outcome =
    Finished process_output
  | Timed_Out
  | Text_File_Busy msg
  | Spawn_Failed msg

type_synonym 'w docker_spawn = "string list \<Rightarrow> 'w \<Rightarrow> spawn_outcome \<times> 'w"

record docker_adapter =
  dk_never_quarantine :: "msg + quarantine_target list"

definition docker_new :: "string option \<Rightarrow> docker_adapter" where
  "docker_new configured =
     \<lparr> dk_never_quarantine =
         (case configured of
            Some raw \<Rightarrow> map_err (\<lambda>_. [Lit ''invalid CLAWFORGE_DOCKER_NEVER_QUARANTINE; quarantine disabled'']) (never_quarantine_list raw)
          | None \<Rightarrow> Inr []) \<rparr>"

definition protection_list :: "docker_adapter \<Rightarrow> adapter_error + quarantine_target list" where
  "protection_list A = map_err InvalidTarget (dk_never_quarantine A)"

definition docker_container_id :: "quarantine_target \<Rightarrow> adapter_error + string" where
  "docker_container_id t =
     and_then (map_err (\<lambda>_. invalid_lit ''invalid canonical quarantine target'') (qt_validate t)) (\<lambda>_.
     case t of
       Docker c \<Rightarrow> Inr c
     | Proxmox _ _ \<Rightarrow> Inl (invalid_lit ''the docker adapter requires a Docker target, not a Proxmox one''))"

text \<open>One command, started again (at most 20 times) while the program file is busy.\<close>

function docker_run_from :: "nat \<Rightarrow> 'w docker_spawn \<Rightarrow> string list \<Rightarrow> ('w, adapter_error, string) io" where
  "docker_run_from attempt spawn args w =
     (let first = (case args of a # _ \<Rightarrow> a | [] \<Rightarrow> []) in
      case spawn args w of
        (Timed_Out, w') \<Rightarrow> (Inl (Apply [Lit ''Docker command timed out'']), w')
      | (Text_File_Busy e, w') \<Rightarrow>
          if attempt < 20 then docker_run_from (attempt + 1) spawn args w'
          else (Inl (Apply (Lit ''docker '' # Lit first # Lit '' failed to start: '' # e)), w')
      | (Spawn_Failed e, w') \<Rightarrow> (Inl (Apply (Lit ''docker '' # Lit first # Lit '' failed to start: '' # e)), w')
      | (Finished out, w') \<Rightarrow>
          if \<not> exit_success out
          then (Inl (Apply [Lit ''docker '', Lit first, Lit '' failed: '', Lit (exit_status out)]), w')
          else (Inr (stdout out), w'))"
  by pat_completeness auto
termination by (relation "measure (\<lambda>(attempt, _). 20 - attempt)") auto

declare docker_run_from.simps [simp del]

definition docker_run :: "'w docker_spawn \<Rightarrow> string list \<Rightarrow> ('w, adapter_error, string) io" where
  "docker_run spawn args = docker_run_from 0 spawn args"

record 'w docker_env =
  dk_spawn :: "'w docker_spawn"
  dk_parse_json :: "string \<Rightarrow> json option"

definition docker_networks :: "'w docker_env \<Rightarrow> string \<Rightarrow> ('w, adapter_error, network_attachment list) io" where
  "docker_networks E cid =
     io_bind (io_map_err (\<lambda>e. Verify (Lit ''docker inspect: '' # show_adapter_error e))
       (docker_run (dk_spawn E) [''inspect'', ''-f'', INSPECT_FORMAT, cid])) (\<lambda>output.
     io_lift (parse_networks (dk_parse_json E) output))"

record docker_preflight =
  dp_container_id :: string
  dp_networks :: "network_attachment list"
  currently_quarantined :: bool
  dp_protected :: bool

definition docker_preflight_op ::
  "'w docker_env \<Rightarrow> docker_adapter \<Rightarrow> quarantine_target \<Rightarrow> ('w, adapter_error, docker_preflight) io" where
  "docker_preflight_op E A t =
     io_bind (io_lift (docker_container_id t)) (\<lambda>i.
     io_bind (io_lift (protection_list A)) (\<lambda>ps.
     io_bind (docker_networks E i) (\<lambda>nets.
     io_return \<lparr> dp_container_id = i, dp_networks = nets, currently_quarantined = (nets = []),
                 dp_protected = qt_is_protected t ps \<rparr>)))"

text \<open>The reconnection loop: whether anything failed so far.\<close>

fun reconnect_all ::
  "'w docker_env \<Rightarrow> string \<Rightarrow> network_attachment list \<Rightarrow> bool \<Rightarrow> network_attachment list \<Rightarrow> ('w, adapter_error, bool) io" where
  "reconnect_all E i current failed [] w = (Inr failed, w)"
| "reconnect_all E i current failed (n # ns) w =
     (case na_validate n of
        Inl e \<Rightarrow> (Inl e, w)
      | Inr _ \<Rightarrow>
          (case List.find (\<lambda>v. network_id v = network_id n) current of
             Some existing \<Rightarrow> reconnect_all E i current (failed \<or> \<not> restored_by n existing) ns w
           | None \<Rightarrow>
               (case connect_args n i of
                  Inl e \<Rightarrow> (Inl e, w)
                | Inr args \<Rightarrow>
                    (case docker_run (dk_spawn E) args w of
                       (Inl _, w') \<Rightarrow> reconnect_all E i current True ns w'
                     | (Inr _, w') \<Rightarrow> reconnect_all E i current failed ns w'))))"

definition docker_rollback ::
  "'w docker_env \<Rightarrow> quarantine_target \<Rightarrow> network_attachment list \<Rightarrow> ('w, adapter_error, unit) io" where
  "docker_rollback E t nets =
     io_bind (io_lift (docker_container_id t)) (\<lambda>i.
     if nets = [] then io_fail (Rollback [Lit ''missing original network snapshot''])
     else
       io_bind (docker_networks E i) (\<lambda>current.
       io_bind (reconnect_all E i current False nets) (\<lambda>failed.
       io_bind (docker_networks E i) (\<lambda>restored.
       if failed \<or> \<not> list_all (\<lambda>old. list_ex (\<lambda>now. restored_by old now) restored) nets
       then io_fail (Rollback [Lit ''original network configuration not fully restored''])
       else io_return ()))))"

text \<open>The disconnection loop over the remaining networks; a failure reconnects all of them.\<close>

fun disconnect_all ::
  "'w docker_env \<Rightarrow> quarantine_target \<Rightarrow> string \<Rightarrow> network_attachment list \<Rightarrow> network_attachment list \<Rightarrow>
   ('w, adapter_error, unit) io" where
  "disconnect_all E t i nets [] w = (Inr (), w)"
| "disconnect_all E t i nets (n # ns) w =
     (case docker_run (dk_spawn E) [''network'', ''disconnect'', network_id n, i] w of
        (Inr _, w') \<Rightarrow> disconnect_all E t i nets ns w'
      | (Inl e, w') \<Rightarrow>
          (case docker_rollback E t nets w' of
             (Inl _, w'') \<Rightarrow>
               (Inl (Rollback [Lit ''partial isolation needs recovery; compensating reconnect failed'']), w'')
           | (Inr _, w'') \<Rightarrow> (Inl e, w'')))"

definition docker_apply_checked ::
  "'w docker_env \<Rightarrow> docker_adapter \<Rightarrow> quarantine_target \<Rightarrow> bool \<Rightarrow> network_attachment list option \<Rightarrow>
   ('w, adapter_error, network_attachment list) io" where
  "docker_apply_checked E A t dry expected =
     io_bind (io_lift (docker_container_id t)) (\<lambda>i.
     io_bind (io_lift (if dry then Inr () else
        and_then (protection_list A) (\<lambda>ps. if ps = [] then
          Inl (InvalidTarget [Lit ''CLAWFORGE_DOCKER_NEVER_QUARANTINE must protect the management path before real quarantine''])
          else Inr ()))) (\<lambda>_.
     io_bind (io_lift (protection_list A)) (\<lambda>ps.
     if qt_is_protected t ps then
       io_fail (InvalidTarget [Lit ''docker container '', Lit i, Lit '' is on the never-quarantine protection list (CLAWFORGE_DOCKER_NEVER_QUARANTINE); refusing to quarantine''])
     else
       io_bind (docker_networks E i) (\<lambda>nets.
       if (case expected of Some snapshot \<Rightarrow> snapshot \<noteq> nets | None \<Rightarrow> False)
       then io_fail (Apply [Lit ''Docker network snapshot changed before isolation''])
       else if dry then io_return nets
       else if nets = [] then io_fail (Apply [Lit ''container was already isolated; refusing an unowned rollback''])
       else io_bind (disconnect_all E t i nets nets) (\<lambda>_. io_return nets)))))"

definition docker_apply :: "'w docker_env \<Rightarrow> docker_adapter \<Rightarrow> quarantine_target \<Rightarrow> bool \<Rightarrow> ('w, adapter_error, network_attachment list) io" where
  "docker_apply E A t dry = docker_apply_checked E A t dry None"

definition docker_apply_prepared ::
  "'w docker_env \<Rightarrow> docker_adapter \<Rightarrow> quarantine_target \<Rightarrow> network_attachment list \<Rightarrow> ('w, adapter_error, network_attachment list) io" where
  "docker_apply_prepared E A t expected = docker_apply_checked E A t False (Some expected)"

definition docker_verify :: "'w docker_env \<Rightarrow> quarantine_target \<Rightarrow> ('w, adapter_error, verification_result) io" where
  "docker_verify E t =
     io_bind (io_lift (docker_container_id t)) (\<lambda>i.
     io_bind (docker_networks E i) (\<lambda>nets.
     io_return (if nets = [] then Verified else NotPresent)))"

section \<open>Properties\<close>

lemma docker_container_id_Inr:
  "docker_container_id t = Inr i \<longleftrightarrow> t = Docker i \<and> validate_container_id i = Inr ()"
  by (cases t) (auto simp: docker_container_id_def and_then_Inr_iff)

text \<open>The container guard.  A live isolation is refused without running any command when the protection
  list is missing, malformed or empty, and so is any isolation, live or dry, of a protected container;
  a dry run runs the inspection at most.\<close>

theorem docker_guard:
  "(dk_never_quarantine A = Inr [] \<or> (\<exists>m. dk_never_quarantine A = Inl m) \<or>
     (\<exists>ps. dk_never_quarantine A = Inr ps \<and> qt_is_protected t ps) \<longrightarrow>
      (\<exists>e. docker_apply_checked E A t False expected w = (Inl e, w))) \<and>
   ((\<exists>ps. dk_never_quarantine A = Inr ps \<and> qt_is_protected t ps) \<longrightarrow>
      (\<exists>e. docker_apply_checked E A t True expected w = (Inl e, w))) \<and>
   (snd (docker_apply_checked E A t True expected w) = w \<or>
    (\<exists>i. snd (docker_apply_checked E A t True expected w) = snd (docker_networks E i w)))"
proof -
  have "(\<exists>i. docker_container_id t = Inr i) \<or> (\<exists>e. docker_container_id t = Inl e)"
    by (cases "docker_container_id t") auto
  then show ?thesis
  proof (elim disjE exE)
    fix e assume "docker_container_id t = Inl e"
    then show ?thesis by (simp add: docker_apply_checked_def)
  next
    fix i assume i: "docker_container_id t = Inr i"
    show ?thesis
    proof (cases "dk_never_quarantine A")
      case (Inl m)
      then show ?thesis using i by (simp add: docker_apply_checked_def protection_list_def)
    next
      case (Inr ps)
      have "snd (docker_apply_checked E A t True expected w) = w \<or>
          snd (docker_apply_checked E A t True expected w) = snd (docker_networks E i w)"
        using i Inr by (auto simp: docker_apply_checked_def protection_list_def io_bind_def io_lift_def io_fail_def
            io_return_def split: prod.splits sum.splits)
      then show ?thesis using i Inr
        by (cases "ps = []") (auto simp: docker_apply_checked_def protection_list_def)
    qed
  qed
qed

lemma docker_guard_witness:
  "\<forall>E w. \<exists>e. docker_apply_checked E (docker_new (Some ''proxmox:pve1/100,docker:short'')) (Docker example_container)
     False None w = (Inl e, w)"
proof (intro allI)
  fix E w
  have "\<not> is_ok (never_quarantine_list ''proxmox:pve1/100,docker:short'')" by code_simp
  then have "\<exists>m. dk_never_quarantine (docker_new (Some ''proxmox:pve1/100,docker:short'')) = Inl m"
    by (cases "never_quarantine_list ''proxmox:pve1/100,docker:short''") (auto simp: docker_new_def)
  then show "\<exists>e. docker_apply_checked E (docker_new (Some ''proxmox:pve1/100,docker:short'')) (Docker example_container)
     False None w = (Inl e, w)"
    using docker_guard [of "docker_new (Some ''proxmox:pve1/100,docker:short'')" "Docker example_container" E None w] by blast
qed

lemma docker_rollback_ok:
  assumes "docker_rollback E t nets w = (Inr (), w')"
  shows "\<exists>i u restored. t = Docker i \<and> docker_networks E i u = (Inr restored, w') \<and>
           (\<forall>old \<in> set nets. \<exists>now \<in> set restored. restored_by old now)"
  using assms
  by (auto simp: docker_rollback_def io_bind_Inr_iff docker_container_id_Inr list_all_iff list_ex_iff
      split: if_splits)

lemma disconnect_all_err:
  assumes "disconnect_all E (Docker i) i nets ns w = (Inl e, w')"
  shows "e = Rollback [Lit ''partial isolation needs recovery; compensating reconnect failed''] \<or>
    (\<exists>u restored. docker_networks E i u = (Inr restored, w') \<and>
      (\<forall>old \<in> set nets. \<exists>now \<in> set restored. restored_by old now))"
  using assms
proof (induction ns arbitrary: w)
  case (Cons n ns)
  show ?case
  proof (cases "docker_run (dk_spawn E) [''network'', ''disconnect'', network_id n, i] w")
    case (Pair r w1)
    show ?thesis
    proof (cases r)
      case (Inr x)
      then show ?thesis using Cons Pair by simp
    next
      case (Inl e1)
      then show ?thesis using Cons.prems Pair
        by (auto split: prod.splits sum.splits dest!: docker_rollback_ok)
    qed
  qed
qed simp

text \<open>No silent partial isolation.  When a live isolation fails, either nothing but an inspection ran,
  or the last inspection showed every original network attached again with its configuration, or the
  error is the one that asks for recovery.\<close>

theorem docker_failed_isolation_compensated:
  assumes "docker_apply_checked E A (Docker i) False expected w = (Inl e, w')"
  shows "w' = w \<or> w' = snd (docker_networks E i w) \<or>
    e = Rollback [Lit ''partial isolation needs recovery; compensating reconnect failed''] \<or>
    (\<exists>nets u restored. fst (docker_networks E i w) = Inr nets \<and> docker_networks E i u = (Inr restored, w') \<and>
      (\<forall>old \<in> set nets. \<exists>now \<in> set restored. restored_by old now))"
proof (cases "docker_container_id (Docker i)")
  case (Inl e)
  then show ?thesis using assms by (simp add: docker_apply_checked_def)
next
  case (Inr j)
  then have j: "docker_container_id (Docker i) = Inr i" by (simp add: docker_container_id_Inr)
  obtain r w1 where n: "docker_networks E i w = (r, w1)" by fastforce
  have "w' = w \<or> w' = w1 \<or> (\<exists>nets. r = Inr nets \<and> disconnect_all E (Docker i) i nets nets w1 = (Inl e, w'))"
    using assms j n
    by (auto simp: docker_apply_checked_def io_bind_def io_lift_def io_fail_def io_return_def
        split: prod.splits sum.splits if_splits option.splits)
  then show ?thesis using n disconnect_all_err [of E i _ _ w1 e w'] by fastforce
qed

text \<open>What docker documents for one container, \<open>nets\<close> reading its attachments off the world: inspecting
  shows them, disconnecting removes one, and connecting one of the known networks \<open>K\<close> adds it as asked.\<close>

definition docker_documented ::
  "'w docker_env \<Rightarrow> string \<Rightarrow> ('w \<Rightarrow> network_attachment list) \<Rightarrow> network_attachment set \<Rightarrow> bool" where
  "docker_documented E i nets K \<longleftrightarrow>
     (\<forall>w. \<exists>out. dk_spawn E [''inspect'', ''-f'', INSPECT_FORMAT, i] w = (Finished out, w) \<and> exit_success out \<and>
        parse_networks (dk_parse_json E) (stdout out) = Inr (nets w)) \<and>
     (\<forall>w nid. nid \<in> network_id ` set (nets w) \<longrightarrow>
        (\<exists>out w'. dk_spawn E [''network'', ''disconnect'', nid, i] w = (Finished out, w') \<and> exit_success out \<and>
           nets w' = filter (\<lambda>m. network_id m \<noteq> nid) (nets w))) \<and>
     (\<forall>w n args. n \<in> K \<and> connect_args n i = Inr args \<and> network_id n \<notin> network_id ` set (nets w) \<longrightarrow>
        (\<exists>out w'. dk_spawn E args w = (Finished out, w') \<and> exit_success out \<and> nets w' = nets w @ [n]))"

lemma docker_run_finished:
  "dk_spawn E args w = (Finished out, w') \<Longrightarrow> exit_success out \<Longrightarrow>
   docker_run (dk_spawn E) args w = (Inr (stdout out), w')"
  by (simp add: docker_run_def docker_run_from.simps)

lemma documented_networks:
  assumes "docker_documented E i nets K"
  shows "docker_networks E i w = (Inr (nets w), w)"
proof -
  obtain out where "dk_spawn E [''inspect'', ''-f'', INSPECT_FORMAT, i] w = (Finished out, w)" "exit_success out"
    "parse_networks (dk_parse_json E) (stdout out) = Inr (nets w)"
    using assms unfolding docker_documented_def by blast
  then show ?thesis
    by (simp add: docker_networks_def docker_run_finished io_bind_def io_map_err_def io_lift_def)
qed

lemma documented_disconnect:
  assumes "docker_documented E i nets K" "nid \<in> network_id ` set (nets w)"
  shows "\<exists>out w'. dk_spawn E [''network'', ''disconnect'', nid, i] w = (Finished out, w') \<and> exit_success out \<and>
           nets w' = filter (\<lambda>m. network_id m \<noteq> nid) (nets w)"
  using assms unfolding docker_documented_def by blast

lemma documented_connect:
  assumes "docker_documented E i nets K" "n \<in> K" "connect_args n i = Inr args" "network_id n \<notin> network_id ` set (nets w)"
  shows "\<exists>out w'. dk_spawn E args w = (Finished out, w') \<and> exit_success out \<and> nets w' = nets w @ [n]"
  using assms unfolding docker_documented_def by blast

lemma documented_disconnect_all:
  assumes "docker_documented E i nets K" "distinct (map network_id ns)" "nets w = ns"
  shows "\<exists>w'. disconnect_all E t i all ns w = (Inr (), w') \<and> nets w' = []"
  using assms(2,3)
proof (induction ns arbitrary: w)
  case (Cons n ns)
  obtain out w1 where d: "dk_spawn E [''network'', ''disconnect'', network_id n, i] w = (Finished out, w1)"
    "exit_success out" "nets w1 = filter (\<lambda>m. network_id m \<noteq> network_id n) (nets w)"
    using documented_disconnect [OF assms(1), of "network_id n" w] Cons.prems by auto
  have "filter (\<lambda>m. network_id m \<noteq> network_id n) ns = ns"
    using Cons.prems(1) by (intro filter_True) (metis distinct.simps(2) image_eqI image_set list.simps(9))
  then have "nets w1 = ns" using Cons.prems d(3) by simp
  then show ?case using Cons d by (simp add: docker_run_finished)
qed simp

lemma restored_by_refl [simp]: "restored_by n n"
  by (simp add: restored_by_def list_all_iff)

lemma documented_reconnect_all:
  assumes "docker_documented E i nets K" "distinct (map network_id (nets w @ ns))"
    and "\<forall>n \<in> set ns. na_validate n = Inr () \<and> n \<in> K"
  shows "\<exists>w'. reconnect_all E i [] failed ns w = (Inr failed, w') \<and> nets w' = nets w @ ns"
  using assms(2,3)
proof (induction ns arbitrary: w)
  case (Cons n ns)
  obtain args where args: "connect_args n i = Inr args" using Cons.prems by (auto simp: connect_args_def)
  obtain out w1 where d: "dk_spawn E args w = (Finished out, w1)" "exit_success out" "nets w1 = nets w @ [n]"
    using documented_connect [OF assms(1) _ args, of w] Cons.prems by auto
  then show ?case using Cons.IH [of w1] Cons.prems args by (simp add: docker_run_finished)
qed simp

text \<open>With documented docker behaviour, isolating an unprotected container disconnects it from every
  network and is verified, returns the attachments it had, and a rollback with exactly that list
  restores all of them with their addresses, aliases and options.\<close>

theorem docker_quarantine_round_trip:
  assumes "docker_documented E i nets (set (nets w))" "validate_container_id i = Inr ()"
    and "dk_never_quarantine A = Inr ps" "ps \<noteq> []" "\<not> qt_is_protected (Docker i) ps"
    and "nets w \<noteq> []" "distinct (map network_id (nets w))" "\<forall>n \<in> set (nets w). na_validate n = Inr ()"
  shows "\<exists>w1 w2. docker_apply E A (Docker i) False w = (Inr (nets w), w1) \<and> nets w1 = [] \<and>
    docker_verify E (Docker i) w1 = (Inr Verified, w1) \<and>
    docker_rollback E (Docker i) (nets w) w1 = (Inr (), w2) \<and> nets w2 = nets w"
proof -
  note dn = documented_networks [OF assms(1)]
  have i: "docker_container_id (Docker i) = Inr i" using assms(2) by (simp add: docker_container_id_Inr)
  obtain w1 where w1: "disconnect_all E (Docker i) i (nets w) (nets w) w = (Inr (), w1)" "nets w1 = []"
    using documented_disconnect_all [OF assms(1,7) refl] by blast
  obtain w2 where w2: "reconnect_all E i [] False (nets w) w1 = (Inr False, w2)" "nets w2 = nets w"
    using documented_reconnect_all [OF assms(1), of w1 "nets w" False] assms(7,8) w1(2) by auto
  have "docker_apply E A (Docker i) False w = (Inr (nets w), w1)"
    using i assms(3-6) dn w1
    by (simp add: docker_apply_def docker_apply_checked_def protection_list_def io_bind_def io_lift_def io_return_def)
  moreover have "docker_verify E (Docker i) w1 = (Inr Verified, w1)"
    using i dn w1(2) by (simp add: docker_verify_def io_bind_def io_lift_def io_return_def)
  moreover have "list_all (\<lambda>old. list_ex (restored_by old) (nets w)) (nets w)"
    by (auto simp: list_all_iff list_ex_iff intro: restored_by_refl)
  then have "docker_rollback E (Docker i) (nets w) w1 = (Inr (), w2)"
    using i assms(6) dn w1(2) w2
    by (simp add: docker_rollback_def io_bind_def io_lift_def io_return_def)
  ultimately show ?thesis using w1(2) w2(2) by blast
qed

text \<open>A container on one network, for the witnesses: the world says whether it is attached.\<close>

definition example_network :: network_attachment where
  "example_network = \<lparr> na_name = ''web'', network_id = example_container, aliases = [''shop''], ipv4 = None, ipv6 = None,
     links = [], link_local_ips = [], driver_opts = [], gateway_priority = 0 \<rparr>"

definition example_nets :: "bool \<Rightarrow> network_attachment list" where
  "example_nets b = (if b then [example_network] else [])"

definition example_docker :: "bool docker_env" where
  "example_docker = \<lparr>
     dk_spawn = (\<lambda>args b.
       (Finished \<lparr> exit_success = True, exit_status = ''0'', stdout = (if b then ''attached'' else ''isolated''), stderr = [] \<rparr>,
        if args ! 0 = ''inspect'' then b else args ! 1 = ''connect'')),
     dk_parse_json = (\<lambda>s. Some (JObj [(''mode'', JStr ''bridge''), (''networks'', JObj (if s = ''attached''
        then [(''web'', JObj [(''NetworkID'', JStr example_container), (''Aliases'', JArr [JStr ''shop''])])] else []))])) \<rparr>"

lemma example_docker_documented: "docker_documented example_docker example_container example_nets {example_network}"
proof -
  have "parse_networks (dk_parse_json example_docker) (if b then ''attached'' else ''isolated'') = Inr (example_nets b)" for b
    by (induct b) code_simp+
  moreover have "args ! 0 = ''network'' \<and> args ! 1 = ''connect''" if "connect_args n i = Inr args" for n i args
    using that by (auto simp: connect_args_def and_then_Inr_iff)
  ultimately show ?thesis
    unfolding docker_documented_def by (auto simp: example_docker_def example_nets_def)
qed

definition example_docker_adapter :: docker_adapter where
  "example_docker_adapter = docker_new (Some ''proxmox:pve1/100'')"

lemma example_docker_protection: "dk_never_quarantine example_docker_adapter = Inr [Proxmox ''pve1'' 100]"
  by code_simp

lemma docker_quarantine_round_trip_witness:
  "\<exists>w1 w2. docker_apply example_docker example_docker_adapter (Docker example_container) False True = (Inr [example_network], w1) \<and>
     docker_rollback example_docker (Docker example_container) [example_network] w1 = (Inr (), w2)"
proof -
  have "na_validate example_network = Inr ()" by code_simp
  then show ?thesis
    using docker_quarantine_round_trip [of example_docker example_container example_nets True example_docker_adapter
        "[Proxmox ''pve1'' 100]"] example_docker_documented example_docker_protection example_container_valid
    by (auto simp: example_nets_def qt_is_protected_def)
qed

text \<open>A container whose attachment cannot be disconnected.\<close>

definition stubborn_docker :: "bool docker_env" where
  "stubborn_docker = example_docker \<lparr> dk_spawn := (\<lambda>args b.
     if args ! 1 = ''disconnect'' then (Spawn_Failed [Lit ''refused''], b) else dk_spawn example_docker args b) \<rparr>"

lemma docker_failed_isolation_compensated_witness:
  "\<exists>e w'. docker_apply_checked stubborn_docker example_docker_adapter (Docker example_container) False None True = (Inl e, w') \<and>
    (w' = True \<or> w' = snd (docker_networks stubborn_docker example_container True) \<or>
    e = Rollback [Lit ''partial isolation needs recovery; compensating reconnect failed''] \<or>
    (\<exists>nets u restored. fst (docker_networks stubborn_docker example_container True) = Inr nets \<and>
      docker_networks stubborn_docker example_container u = (Inr restored, w') \<and>
      (\<forall>old \<in> set nets. \<exists>now \<in> set restored. restored_by old now)))"
proof -
  have "\<not> is_ok (fst (docker_apply_checked stubborn_docker example_docker_adapter (Docker example_container) False None True))"
    by code_simp
  then obtain e w' where
    "docker_apply_checked stubborn_docker example_docker_adapter (Docker example_container) False None True = (Inl e, w')"
    by (cases "docker_apply_checked stubborn_docker example_docker_adapter (Docker example_container) False None True";
        cases "fst (docker_apply_checked stubborn_docker example_docker_adapter (Docker example_container) False None True)") auto
  then show ?thesis
    using docker_failed_isolation_compensated [of stubborn_docker example_docker_adapter example_container None True e w'] by blast
qed

end
