(* ===== verification/Proxmox_Quarantine.thy ===== *)
theory Proxmox_Quarantine
  imports Docker_Quarantine Secret
begin

text \<open>
  \<^verbatim>\<open>firewall-agent/src/proxmox.rs\<close>: isolation of a virtual machine by \<open>link_down=1\<close> on its NIC through
  the Proxmox API, and its restoration.  Parameters (\<open>px_env\<close>): \<open>send\<close> performs one HTTP request,
  \<open>url_parse\<close> and \<open>url_extend\<close> are \<^verbatim>\<open>reqwest::Url::parse\<close> and \<^verbatim>\<open>path_segments_mut().extend\<close>, and \<open>polls\<close>
  is the number of status polls that fit into \<^verbatim>\<open>TASK_TIMEOUT\<close> (at most 60: 30 s at one poll every 500 ms);
  the properties hold for every value of it.
\<close>

section \<open>The NIC value\<close>

definition strip_link_down :: "string \<Rightarrow> string" where
  "strip_link_down net0 =
     join_with '','' (filter (\<lambda>tok. tok \<noteq> [] \<and> \<not> prefix ''link_down='' tok) (map trim (split_on CHR '','' net0)))"

definition net0_is_quarantined :: "string \<Rightarrow> bool" where
  "net0_is_quarantined net0 = list_ex (\<lambda>tok. tok = ''link_down=1'') (map trim (split_on CHR '','' net0))"

definition quarantine_net0 :: "string \<Rightarrow> string" where
  "quarantine_net0 net0 = strip_link_down net0 @ '',link_down=1''"

record nic_state =
  nic_net0 :: string
  nic_digest :: string

text \<open>The filters of \<open>parse_nic_state\<close>, with their limit.\<close>

definition config_text_ok :: "nat \<Rightarrow> string \<Rightarrow> bool" where
  "config_text_ok limit s = (trim s \<noteq> [] \<and> length s \<le> limit \<and> \<not> has_control s)"

definition extra_nic_key :: "string \<Rightarrow> bool" where
  "extra_nic_key key = (prefix ''net'' key \<and> key \<noteq> ''net0'' \<and> length key > 3 \<and> list_all ascii_digit (drop 3 key))"

fun opt_filter :: "('a \<Rightarrow> bool) \<Rightarrow> 'a option \<Rightarrow> 'a option" where
  "opt_filter P (Some x) = (if P x then Some x else None)"
| "opt_filter P None = None"

definition parse_nic_state :: "json \<Rightarrow> adapter_error + nic_state" where
  "parse_nic_state body =
     and_then (ok_or (verify_lit ''VM config data missing'') (Option.bind (jget body ''data'') as_object)) (\<lambda>data.
     if list_ex (\<lambda>(key, _). extra_nic_key key) data
     then Inl (InvalidTarget [Lit ''multi-NIC VM needs a reviewed full-network isolation plan''])
     else
       and_then (ok_or (verify_lit ''VM has no valid net0 NIC'')
         (opt_filter (config_text_ok 4096) (Option.bind (obj_get data ''net0'') as_str))) (\<lambda>net0.
       and_then (ok_or (verify_lit ''VM config digest missing or invalid; refusing non-atomic mutation'')
         (opt_filter (config_text_ok 256) (Option.bind (obj_get data ''digest'') as_str))) (\<lambda>digest.
       Inr \<lparr> nic_net0 = net0, nic_digest = digest \<rparr>)))"

definition rollback_needed :: "string \<Rightarrow> string \<Rightarrow> adapter_error + bool" where
  "rollback_needed current original =
     (if current = original then Inr False
      else if current \<noteq> quarantine_net0 original
      then Inl (Rollback [Lit ''VM NIC changed after quarantine; refusing to overwrite operator configuration''])
      else Inr True)"

section \<open>Task identifiers and task status\<close>

datatype task_completion = SucceededOk | Failed | Running

definition upid_byte :: "char \<Rightarrow> bool" where
  "upid_byte b = (ascii_alphanumeric b \<or> b \<in> set ''_:@.!+-'')"

definition validate_qmconfig_upid :: "string \<Rightarrow> 32 word \<Rightarrow> string \<Rightarrow> adapter_error + unit" where
  "validate_qmconfig_upid n v upid =
     (let parts = split_on CHR '':'' upid in
      if length upid > 1024 \<or> length parts \<noteq> 9
         \<or> parts ! 0 \<noteq> ''UPID'' \<or> parts ! 1 \<noteq> n \<or> parts ! 5 \<noteq> ''qmconfig'' \<or> parts ! 6 \<noteq> show_nat (unat v)
         \<or> parts ! 7 = [] \<or> parts ! 8 \<noteq> []
         \<or> list_ex (\<lambda>part. part = [] \<or> \<not> list_all ascii_hexdigit part) (take 3 (drop 2 parts))
         \<or> list_ex (\<lambda>b. \<not> upid_byte b) upid
      then Inl (Apply [Lit ''invalid Proxmox config task ID''])
      else Inr ())"

definition task_unknown :: adapter_error where
  "task_unknown = Apply [Lit ''invalid Proxmox task status; completion unknown'']"

definition interpret_task_status :: "json \<Rightarrow> adapter_error + task_completion" where
  "interpret_task_status body =
     (let data = jindex body ''data'' in
      case as_str (jindex data ''status'') of
        Some s \<Rightarrow>
          if s = ''stopped'' then Inr (if as_str (jindex data ''exitstatus'') = Some ''OK'' then SucceededOk else Failed)
          else if s = ''running'' then Inr Running
          else Inl task_unknown
      | None \<Rightarrow> Inl task_unknown)"

section \<open>The adapter\<close>

record url =
  host_str :: "string option"
  username :: string
  url_password :: "string option"
  url_path :: string
  url_query :: "string option"
  url_fragment :: "string option"

datatype http_request =
    HttpGet string "(string \<times> string) list"
  | HttpPost string "(string \<times> string) list" "(string \<times> string) list"

text \<open>A response: its status, and its body read as JSON or the error of reading it.\<close>

record http_response =
  http_success :: bool
  http_status :: string
  http_json :: "msg + json"

record 'w px_env =
  send :: "http_request \<Rightarrow> ('w, msg, http_response) io"
  url_parse :: "string \<Rightarrow> url option"
  url_extend :: "url \<Rightarrow> string list \<Rightarrow> string option"
  polls :: nat

record px_credentials =
  px_host :: string
  px_user :: string
  px_password :: string

record proxmox_adapter =
  px_creds :: "msg + px_credentials"
  px_never_quarantine :: "msg + quarantine_target list"
  px_http :: "msg + unit"

record proxmox_preflight =
  pp_node :: string
  pp_vmid :: "32 word"
  pp_net0 :: string
  pp_currently_quarantined :: bool
  pp_protected :: bool

record proxmox_applied =
  pa_summary :: msg
  original_net0 :: string

definition validate_host :: "(string \<Rightarrow> url option) \<Rightarrow> string \<Rightarrow> msg + unit" where
  "validate_host parse host =
     (if host = [] \<or> has_control host \<or> has_whitespace host \<or> list_ex (\<lambda>c. c \<in> set ''/?#@'') host
      then Inl [Lit ''Proxmox host must be an HTTPS authority without userinfo or path'']
      else
        and_then (ok_or [Lit ''invalid Proxmox host''] (parse (''https://'' @ host))) (\<lambda>u.
        if host_str u = None \<or> username u \<noteq> [] \<or> url_password u \<noteq> None \<or> url_path u \<noteq> ''/''
           \<or> url_query u \<noteq> None \<or> url_fragment u \<noteq> None
        then Inl [Lit ''invalid Proxmox HTTPS authority'']
        else Inr ()))"

definition load_credentials :: "(string \<Rightarrow> url option) \<Rightarrow> env \<Rightarrow> files \<Rightarrow> msg + px_credentials" where
  "load_credentials parse env fs =
     (let host = opt_filter (\<lambda>v. v \<noteq> []) (env_ok env ''CLAWFORGE_PROXMOX_HOST'');
          user = opt_filter (\<lambda>v. v \<noteq> []) (env_ok env ''CLAWFORGE_PROXMOX_USER'') in
      and_then (load_optional env fs ''CLAWFORGE_PROXMOX_PASSWORD_FILE'' ''CLAWFORGE_PROXMOX_PASSWORD'') (\<lambda>password.
      case (host, user, password) of
        (Some h, Some u, Some p) \<Rightarrow>
          and_then (validate_host parse h) (\<lambda>_. Inr \<lparr> px_host = h, px_user = u, px_password = p \<rparr>)
      | _ \<Rightarrow> Inl [Lit ''CLAWFORGE_PROXMOX_HOST, CLAWFORGE_PROXMOX_USER and CLAWFORGE_PROXMOX_PASSWORD/_FILE must all be configured'']))"

text \<open>The TLS client: a configured CA file must be readable and a certificate (\<open>pem_ok\<close>); \<open>build_ok\<close> is the
  outcome of the library's \<^verbatim>\<open>build\<close>.\<close>

definition http_client :: "env \<Rightarrow> files \<Rightarrow> (string \<Rightarrow> bool) \<Rightarrow> bool \<Rightarrow> msg + unit" where
  "http_client env fs pem_ok build_ok =
     and_then
       (case env_ok env ''CLAWFORGE_PROXMOX_CA_FILE'' of
          None \<Rightarrow> Inr ()
        | Some path \<Rightarrow>
            and_then (ok_or [Lit ''cannot read Proxmox CA file''] (fs path)) (\<lambda>pem.
            if pem_ok pem then Inr () else Inl [Lit ''invalid Proxmox CA certificate''])) (\<lambda>_.
     if build_ok then Inr () else Inl [Lit ''cannot build verified Proxmox TLS client''])"

definition proxmox_new ::
  "(string \<Rightarrow> url option) \<Rightarrow> env \<Rightarrow> files \<Rightarrow> (string \<Rightarrow> bool) \<Rightarrow> bool \<Rightarrow> proxmox_adapter" where
  "proxmox_new parse env fs pem_ok build_ok =
     \<lparr> px_creds = load_credentials parse env fs,
       px_never_quarantine =
         (case env_ok env ''CLAWFORGE_PROXMOX_NEVER_QUARANTINE'' of
            Some raw \<Rightarrow> map_err (\<lambda>_. [Lit ''invalid CLAWFORGE_PROXMOX_NEVER_QUARANTINE; quarantine disabled''])
                          (never_quarantine_list raw)
          | None \<Rightarrow> Inr []),
       px_http = http_client env fs pem_ok build_ok \<rparr>"

definition px_protection_list :: "proxmox_adapter \<Rightarrow> adapter_error + quarantine_target list" where
  "px_protection_list A = map_err InvalidTarget (px_never_quarantine A)"

definition credentials :: "proxmox_adapter \<Rightarrow> adapter_error + px_credentials" where
  "credentials A = map_err Apply (px_creds A)"

definition http :: "proxmox_adapter \<Rightarrow> adapter_error + unit" where
  "http A = map_err Apply (px_http A)"

definition node_vmid :: "quarantine_target \<Rightarrow> adapter_error + (string \<times> 32 word)" where
  "node_vmid t =
     and_then (map_err (\<lambda>_. InvalidTarget [Lit ''invalid canonical quarantine target'']) (qt_validate t)) (\<lambda>_.
     case t of
       Proxmox n v \<Rightarrow> Inr (n, v)
     | Docker _ \<Rightarrow> Inl (InvalidTarget [Lit ''the proxmox adapter requires a Proxmox target, not a Docker one'']))"

definition config_url :: "px_credentials \<Rightarrow> string \<Rightarrow> 32 word \<Rightarrow> string" where
  "config_url c n v = ''https://'' @ px_host c @ ''/api2/json/nodes/'' @ n @ ''/qemu/'' @ show_nat (unat v) @ ''/config''"

definition auth_cookie :: "string \<Rightarrow> string \<times> string" where
  "auth_cookie tk = (''Cookie'', ''PVEAuthCookie='' @ tk)"

definition ticket :: "'w px_env \<Rightarrow> proxmox_adapter \<Rightarrow> ('w, adapter_error, string \<times> string) io" where
  "ticket E A =
     io_bind (io_lift (credentials A)) (\<lambda>c.
     io_bind (io_lift (http A)) (\<lambda>_.
     io_bind (io_map_err (\<lambda>e. Apply (Lit ''proxmox login failed: '' # e))
       (send E (HttpPost (''https://'' @ px_host c @ ''/api2/json/access/ticket'') []
                  [(''username'', px_user c), (''password'', px_password c)]))) (\<lambda>r.
     if \<not> http_success r then io_fail (Apply [Lit ''proxmox login rejected: HTTP '', Lit (http_status r)])
     else
       io_bind (io_lift (map_err (\<lambda>e. Apply (Lit ''proxmox login response was not JSON: '' # e)) (http_json r))) (\<lambda>body.
       let data = jindex body ''data'' in
       io_bind (io_lift (ok_or (Apply [Lit ''proxmox login response had no ticket'']) (as_str (jindex data ''ticket'')))) (\<lambda>tk.
       io_return (tk, case as_str (jindex data ''CSRFPreventionToken'') of Some s \<Rightarrow> s | None \<Rightarrow> []))))))"

definition read_net0 ::
  "'w px_env \<Rightarrow> proxmox_adapter \<Rightarrow> string \<Rightarrow> 32 word \<Rightarrow> string \<Rightarrow> ('w, adapter_error, nic_state) io" where
  "read_net0 E A n v tk =
     io_bind (io_lift (credentials A)) (\<lambda>c.
     io_bind (io_lift (http A)) (\<lambda>_.
     io_bind (io_map_err (\<lambda>e. Verify (Lit ''proxmox config read failed: '' # e))
       (send E (HttpGet (config_url c n v) [auth_cookie tk]))) (\<lambda>r.
     if \<not> http_success r then io_fail (Verify [Lit ''proxmox config read rejected: HTTP '', Lit (http_status r)])
     else
       io_bind (io_lift (map_err (\<lambda>e. Verify (Lit ''proxmox config response was not JSON: '' # e)) (http_json r))) (\<lambda>body.
       io_lift (parse_nic_state body)))))"

definition task_url :: "'w px_env \<Rightarrow> px_credentials \<Rightarrow> string \<Rightarrow> string \<Rightarrow> adapter_error + string" where
  "task_url E c n upid =
     and_then (ok_or (Apply [Lit ''invalid Proxmox host'']) (url_parse E (''https://'' @ px_host c))) (\<lambda>u.
     ok_or (Apply [Lit ''invalid Proxmox task endpoint'']) (url_extend E u [''api2'', ''json'', ''nodes'', n, ''tasks'', upid, ''status'']))"

text \<open>One status request, up to the JSON body.\<close>

definition task_request :: "'w px_env \<Rightarrow> proxmox_adapter \<Rightarrow> string \<Rightarrow> string \<Rightarrow> ('w, adapter_error, json) io" where
  "task_request E A url tk =
     io_bind (io_lift (http A)) (\<lambda>_.
     io_bind (io_map_err (\<lambda>_. Apply [Lit ''Proxmox task status unavailable; completion unknown''])
       (send E (HttpGet url [auth_cookie tk]))) (\<lambda>r.
     if \<not> http_success r then io_fail (Apply [Lit ''Proxmox task status rejected; completion unknown''])
     else io_lift (map_err (\<lambda>_. task_unknown) (http_json r))))"

text \<open>The poll loop under the timeout: with no poll left, the timeout has expired.\<close>

fun poll_task :: "nat \<Rightarrow> 'w px_env \<Rightarrow> proxmox_adapter \<Rightarrow> string \<Rightarrow> string \<Rightarrow> ('w, adapter_error, unit) io" where
  "poll_task 0 E A url tk w =
     (Inl (Apply [Lit ''Proxmox config task timed out; completion unknown, review required'']), w)"
| "poll_task (Suc k) E A url tk w =
     (case task_request E A url tk w of
        (Inl e, w') \<Rightarrow> (Inl e, w')
      | (Inr body, w') \<Rightarrow>
          (case interpret_task_status body of
             Inl e \<Rightarrow> (Inl e, w')
           | Inr SucceededOk \<Rightarrow> (Inr (), w')
           | Inr Failed \<Rightarrow> (Inl (Apply [Lit ''Proxmox config task failed'']), w')
           | Inr Running \<Rightarrow> poll_task k E A url tk w'))"

definition wait_for_config_task ::
  "'w px_env \<Rightarrow> proxmox_adapter \<Rightarrow> string \<Rightarrow> 32 word \<Rightarrow> string \<Rightarrow> string \<Rightarrow> ('w, adapter_error, unit) io" where
  "wait_for_config_task E A n v upid tk =
     io_bind (io_lift (validate_qmconfig_upid n v upid)) (\<lambda>_.
     io_bind (io_lift (credentials A)) (\<lambda>c.
     io_bind (io_lift (task_url E c n upid)) (\<lambda>url.
     poll_task (polls E) E A url tk)))"

definition write_net0 ::
  "'w px_env \<Rightarrow> proxmox_adapter \<Rightarrow> string \<Rightarrow> 32 word \<Rightarrow> string \<Rightarrow> string \<Rightarrow> string \<Rightarrow> string \<Rightarrow> ('w, adapter_error, string) io" where
  "write_net0 E A n v val digest tk csrf =
     io_bind (io_lift (credentials A)) (\<lambda>c.
     io_bind (io_lift (http A)) (\<lambda>_.
     io_bind (io_map_err (\<lambda>e. Apply (Lit ''proxmox config write failed: '' # e))
       (send E (HttpPost (config_url c n v) [auth_cookie tk, (''CSRFPreventionToken'', csrf)]
                  [(''net0'', val), (''digest'', digest)]))) (\<lambda>r.
     if \<not> http_success r then io_fail (Apply [Lit ''proxmox config write rejected: HTTP '', Lit (http_status r)])
     else
       io_bind (io_lift (map_err (\<lambda>_. Apply [Lit ''proxmox config write returned invalid JSON'']) (http_json r))) (\<lambda>body.
       io_bind (io_lift (ok_or (Apply [Lit ''proxmox config write returned no asynchronous task ID''])
         (as_str (jindex body ''data'')))) (\<lambda>upid.
       io_bind (wait_for_config_task E A n v upid tk) (\<lambda>_. io_return upid))))))"

definition task_status ::
  "'w px_env \<Rightarrow> proxmox_adapter \<Rightarrow> string \<Rightarrow> 32 word \<Rightarrow> string \<Rightarrow> ('w, adapter_error, task_completion) io" where
  "task_status E A n v upid =
     io_bind (io_lift (validate_qmconfig_upid n v upid)) (\<lambda>_.
     io_bind (io_lift (credentials A)) (\<lambda>c.
     io_bind (ticket E A) (\<lambda>(tk, _).
     io_bind (io_lift (task_url E c n upid)) (\<lambda>url.
     io_bind (task_request E A url tk) (\<lambda>body.
     io_lift (interpret_task_status body))))))"

definition proxmox_preflight_op ::
  "'w px_env \<Rightarrow> proxmox_adapter \<Rightarrow> quarantine_target \<Rightarrow> ('w, adapter_error, proxmox_preflight) io" where
  "proxmox_preflight_op E A t =
     io_bind (io_lift (node_vmid t)) (\<lambda>(n, v).
     io_bind (io_lift (px_protection_list A)) (\<lambda>ps.
     io_bind (ticket E A) (\<lambda>(tk, _).
     io_bind (read_net0 E A n v tk) (\<lambda>nic.
     io_return \<lparr> pp_node = n, pp_vmid = v, pp_net0 = nic_net0 nic,
                 pp_currently_quarantined = net0_is_quarantined (nic_net0 nic),
                 pp_protected = qt_is_protected t ps \<rparr>))))"

definition show_bool :: "bool \<Rightarrow> string" where
  "show_bool b = (if b then ''true'' else ''false'')"

definition proxmox_apply_checked ::
  "'w px_env \<Rightarrow> proxmox_adapter \<Rightarrow> quarantine_target \<Rightarrow> bool \<Rightarrow> string option \<Rightarrow>
   ('w, adapter_error, proxmox_applied \<times> string) io" where
  "proxmox_apply_checked E A t dry expected =
     io_bind (io_lift (node_vmid t)) (\<lambda>(n, v).
     io_bind (io_lift (if dry then Inr () else
        and_then (px_protection_list A) (\<lambda>ps. if ps = [] then
          Inl (InvalidTarget [Lit ''CLAWFORGE_PROXMOX_NEVER_QUARANTINE must protect the management path before real quarantine''])
          else Inr ()))) (\<lambda>_.
     io_bind (io_lift (px_protection_list A)) (\<lambda>ps.
     if qt_is_protected t ps then
       io_fail (InvalidTarget [Lit ''proxmox target '', Lit n, Lit ''/'', Lit (show_nat (unat v)),
         Lit '' is on the never-quarantine protection list (CLAWFORGE_PROXMOX_NEVER_QUARANTINE); refusing to quarantine''])
     else
       io_bind (ticket E A) (\<lambda>(tk, csrf).
       io_bind (read_net0 E A n v tk) (\<lambda>current.
       if (case expected of Some snapshot \<Rightarrow> snapshot \<noteq> nic_net0 current | None \<Rightarrow> False)
       then io_fail (Apply [Lit ''Proxmox NIC snapshot changed before isolation''])
       else if net0_is_quarantined (nic_net0 current) \<and> \<not> dry
       then io_fail (Apply [Lit ''VM NIC was already isolated; refusing an unowned rollback''])
       else
         io_bind (if \<not> dry then write_net0 E A n v (quarantine_net0 (nic_net0 current)) (nic_digest current) tk csrf
                  else io_return []) (\<lambda>upid.
         io_return
           (\<lparr> pa_summary = [Lit ''proxmox quarantine '', Lit n, Lit ''/'', Lit (show_nat (unat v)), Lit '' dry_run='', Lit (show_bool dry)],
              original_net0 = nic_net0 current \<rparr>, upid)))))))"

definition proxmox_apply ::
  "'w px_env \<Rightarrow> proxmox_adapter \<Rightarrow> quarantine_target \<Rightarrow> bool \<Rightarrow> ('w, adapter_error, proxmox_applied) io" where
  "proxmox_apply E A t dry =
     io_bind (proxmox_apply_checked E A t dry None) (\<lambda>(applied, _). io_return applied)"

definition proxmox_apply_prepared ::
  "'w px_env \<Rightarrow> proxmox_adapter \<Rightarrow> quarantine_target \<Rightarrow> string \<Rightarrow> ('w, adapter_error, proxmox_applied \<times> string) io" where
  "proxmox_apply_prepared E A t original = proxmox_apply_checked E A t False (Some original)"

definition proxmox_verify ::
  "'w px_env \<Rightarrow> proxmox_adapter \<Rightarrow> quarantine_target \<Rightarrow> ('w, adapter_error, verification_result) io" where
  "proxmox_verify E A t =
     io_bind (io_lift (node_vmid t)) (\<lambda>(n, v).
     io_bind (ticket E A) (\<lambda>(tk, _).
     io_bind (read_net0 E A n v tk) (\<lambda>nic.
     io_return (if net0_is_quarantined (nic_net0 nic) then Verified else NotPresent))))"

definition proxmox_rollback ::
  "'w px_env \<Rightarrow> proxmox_adapter \<Rightarrow> quarantine_target \<Rightarrow> string \<Rightarrow> ('w, adapter_error, unit) io" where
  "proxmox_rollback E A t original =
     io_bind (io_lift (node_vmid t)) (\<lambda>(n, v).
     if original = [] \<or> length original > 4096 \<or> has_control original \<or> net0_is_quarantined original
     then io_fail (Rollback [Lit ''invalid original NIC snapshot''])
     else
       io_bind (ticket E A) (\<lambda>(tk, csrf).
       io_bind (read_net0 E A n v tk) (\<lambda>current.
       io_bind (io_lift (rollback_needed (nic_net0 current) original)) (\<lambda>needed.
       if \<not> needed then io_return ()
       else
         io_bind (write_net0 E A n v original (nic_digest current) tk csrf) (\<lambda>_.
         io_bind (read_net0 E A n v tk) (\<lambda>restored.
         if nic_net0 restored \<noteq> original
         then io_fail (Rollback [Lit ''VM NIC readback did not confirm exact original configuration''])
         else io_return ()))))))"

section \<open>The NIC value\<close>

definition nic_options :: "string \<Rightarrow> string list" where
  "nic_options net0 = filter (\<lambda>tok. tok \<noteq> [] \<and> \<not> prefix ''link_down='' tok) (map trim (split_on CHR '','' net0))"

lemma nic_options_ok:
  assumes "t \<in> set (nic_options n)"
  shows "CHR '','' \<notin> set t" "trim t = t" "t \<noteq> []" "\<not> prefix ''link_down='' t"
  using assms set_trim split_on_no_sep [of _ "CHR '',''" n] by (auto simp: nic_options_def)

lemma trim_link_down: "trim ''link_down=1'' = ''link_down=1''" by code_simp

lemma split_stripped:
  "split_on CHR '','' (strip_link_down n) = (if nic_options n = [] then [[]] else nic_options n)"
  using split_on_joined [of "nic_options n" "CHR '',''"] nic_options_ok(1) [of _ n]
  by (simp add: strip_link_down_def flip: nic_options_def)

lemma split_quarantined:
  "split_on CHR '','' (quarantine_net0 n) = (if nic_options n = [] then [[]] else nic_options n) @ [''link_down=1'']"
  using split_on_join [of "CHR '',''" "strip_link_down n" "''link_down=1''"]
  by (simp add: quarantine_net0_def split_stripped)

lemma trim_options: "map trim (nic_options n) = nic_options n"
  by (rule map_idI) (rule nic_options_ok(2))

lemma filter_options: "filter (\<lambda>tok. tok \<noteq> [] \<and> \<not> prefix ''link_down='' tok) (nic_options n) = nic_options n"
  by (rule filter_True) (use nic_options_ok in blast)

lemma nic_options_quarantine: "nic_options (quarantine_net0 n) = nic_options n"
proof -
  have "nic_options (quarantine_net0 n) = filter (\<lambda>tok. tok \<noteq> [] \<and> \<not> prefix ''link_down='' tok)
      (map trim ((if nic_options n = [] then [[]] else nic_options n) @ [''link_down=1'']))"
    unfolding nic_options_def [of "quarantine_net0 n"] split_quarantined ..
  also have "\<dots> = nic_options n"
    by (simp add: trim_options filter_options trim_Nil trim_link_down)
  finally show ?thesis .
qed

lemma quarantined_iff: "net0_is_quarantined n \<longleftrightarrow> ''link_down=1'' \<in> trim ` set (split_on CHR '','' n)"
  by (auto simp: net0_is_quarantined_def list_ex_iff)

lemma quarantine_net0_isolated: "net0_is_quarantined (quarantine_net0 n)"
  unfolding quarantined_iff split_quarantined using trim_link_down by (simp add: image_iff)

lemma strip_not_isolated: "\<not> net0_is_quarantined (strip_link_down n)"
proof
  assume "net0_is_quarantined (strip_link_down n)"
  then obtain t where t: "t \<in> set (split_on CHR '','' (strip_link_down n))" "trim t = ''link_down=1''"
    unfolding quarantined_iff by force
  then have "t \<noteq> []" using trim_Nil by auto
  then have "t \<in> set (nic_options n)" using t(1) by (auto simp: split_stripped split: if_splits)
  then show False using nic_options_ok(2,4) [of t n] t(2) by auto
qed

text \<open>The isolated form of a NIC value is recognised as isolated, isolating twice changes nothing more,
  it keeps exactly the other options of the NIC, and removing the flag gives a NIC that is not isolated.\<close>

theorem nic_isolation:
  "net0_is_quarantined (quarantine_net0 n) \<and> quarantine_net0 (quarantine_net0 n) = quarantine_net0 n \<and>
   strip_link_down (quarantine_net0 n) = strip_link_down n \<and> \<not> net0_is_quarantined (strip_link_down n)"
proof -
  have "strip_link_down (quarantine_net0 n) = strip_link_down n"
    using nic_options_quarantine [of n] unfolding strip_link_down_def nic_options_def by simp
  then show ?thesis
    using quarantine_net0_isolated strip_not_isolated by (simp add: quarantine_net0_def [of "quarantine_net0 n"])
      (simp add: quarantine_net0_def)
qed

section \<open>Task identifiers\<close>

text \<open>A configuration task identifier is accepted for one virtual machine only.\<close>

theorem upid_binds_one_vm:
  assumes "validate_qmconfig_upid n v upid = Inr ()" "validate_qmconfig_upid n' v' upid = Inr ()"
  shows "n = n' \<and> v = v'"
proof -
  have n: "n = split_on CHR '':'' upid ! 1" "n' = split_on CHR '':'' upid ! 1"
    and v: "show_nat (unat v) = split_on CHR '':'' upid ! 6" "show_nat (unat v') = split_on CHR '':'' upid ! 6"
    using assms by (simp_all add: validate_qmconfig_upid_def Let_def split: if_splits)
  have "parse_unsigned (2 ^ 32) (show_nat (unat u)) = Some (unat u)" for u :: "32 word"
  proof (rule parse_unsigned_show_nat)
    have "unat u < 2 ^ LENGTH(32)" by (rule unsigned_less)
    then show "unat u \<le> 2 ^ 32" by simp
  qed
  then have "unat v = unat v'" using v by (metis option.inject)
  then show ?thesis using n by (metis unsigned_word_eqI)
qed

definition example_upid :: string where
  "example_upid = ''UPID:pve1:0000ABCD:00001234:60000000:qmconfig:100:root@pam:''"

lemma example_upid_valid: "validate_qmconfig_upid ''pve1'' 100 example_upid = Inr ()" by code_simp

lemma upid_binds_one_vm_witness: "validate_qmconfig_upid ''pve1'' 101 example_upid \<noteq> Inr ()"
  using upid_binds_one_vm [OF example_upid_valid, of "''pve1''" 101] by auto

section \<open>Isolation and restoration\<close>

text \<open>The virtual machine guard.  A live isolation is refused without any request when the protection
  list is missing, malformed or empty, and any isolation, live or dry, of a protected machine is.\<close>

theorem proxmox_guard:
  "(px_never_quarantine A = Inr [] \<or> (\<exists>m. px_never_quarantine A = Inl m) \<or>
     (\<exists>ps. px_never_quarantine A = Inr ps \<and> qt_is_protected t ps) \<longrightarrow>
      (\<exists>e. proxmox_apply_checked E A t False expected w = (Inl e, w))) \<and>
   ((\<exists>ps. px_never_quarantine A = Inr ps \<and> qt_is_protected t ps) \<longrightarrow>
      (\<exists>e. proxmox_apply_checked E A t True expected w = (Inl e, w)))"
proof -
  consider (bad) e where "node_vmid t = Inl e" | (ok) n v where "node_vmid t = Inr (n, v)"
    by (cases "node_vmid t") auto
  then show ?thesis
  proof cases
    case bad
    then show ?thesis by (simp add: proxmox_apply_checked_def)
  next
    case ok
    show ?thesis
    proof (cases "px_never_quarantine A")
      case (Inl m)
      then show ?thesis using ok by (simp add: proxmox_apply_checked_def px_protection_list_def)
    next
      case (Inr ps)
      then show ?thesis using ok
        by (cases "ps = []") (auto simp: proxmox_apply_checked_def px_protection_list_def)
    qed
  qed
qed

lemma proxmox_guard_witness:
  "\<forall>E w. \<exists>e. proxmox_apply_checked E \<lparr> px_creds = Inl [], px_never_quarantine = Inr [Proxmox ''pve1'' 100], px_http = Inr () \<rparr>
     (Proxmox ''pve1'' 100) True None w = (Inl e, w)"
proof (intro allI)
  fix E w
  show "\<exists>e. proxmox_apply_checked E \<lparr> px_creds = Inl [], px_never_quarantine = Inr [Proxmox ''pve1'' 100], px_http = Inr () \<rparr>
     (Proxmox ''pve1'' 100) True None w = (Inl e, w)"
    using proxmox_guard [of "\<lparr> px_creds = Inl [], px_never_quarantine = Inr [Proxmox ''pve1'' 100], px_http = Inr () \<rparr>"
      "Proxmox ''pve1'' 100" E None w] by (simp add: qt_is_protected_def)
qed

lemma proxmox_rollback_read:
  assumes "proxmox_rollback E A t original w = (Inr (), w')"
  shows "\<exists>n v tk u nic. t = Proxmox n v \<and> read_net0 E A n v tk u = (Inr nic, w') \<and> nic_net0 nic = original"
  using assms
  by (auto simp: proxmox_rollback_def io_bind_Inr_iff node_vmid_def and_then_Inr_iff rollback_needed_def
      split: if_splits quarantine_target.splits) blast+

text \<open>C31 Only our own isolation is undone.  When the NIC read by a rollback is neither the original value nor
  exactly its isolated form, the rollback fails and makes no request after that read; and a rollback
  that succeeds has read back exactly the original value at its end.\<close>

theorem proxmox_rollback_exact:
  "(ticket E A w = (Inr (tk, csrf), w1) \<and> read_net0 E A n v tk w1 = (Inr nic, w2) \<and>
     nic_net0 nic \<noteq> original \<and> nic_net0 nic \<noteq> quarantine_net0 original \<longrightarrow>
       (\<exists>e. proxmox_rollback E A (Proxmox n v) original w \<in> {(Inl e, w), (Inl e, w2)})) \<and>
   (proxmox_rollback E A (Proxmox n v) original w = (Inr (), w') \<longrightarrow>
       (\<exists>tk u nic'. read_net0 E A n v tk u = (Inr nic', w') \<and> nic_net0 nic' = original))"
proof (intro conjI impI)
  assume r: "ticket E A w = (Inr (tk, csrf), w1) \<and> read_net0 E A n v tk w1 = (Inr nic, w2) \<and>
     nic_net0 nic \<noteq> original \<and> nic_net0 nic \<noteq> quarantine_net0 original"
  show "\<exists>e. proxmox_rollback E A (Proxmox n v) original w \<in> {(Inl e, w), (Inl e, w2)}"
  proof (cases "node_vmid (Proxmox n v)")
    case (Inl e)
    then show ?thesis by (auto simp: proxmox_rollback_def)
  next
    case (Inr x)
    then have "node_vmid (Proxmox n v) = Inr (n, v)" by (auto simp: node_vmid_def and_then_Inr_iff)
    then show ?thesis using r by (auto simp: proxmox_rollback_def io_bind_def rollback_needed_def io_lift_def io_fail_def)
  qed
qed (use proxmox_rollback_read in fastforce)

text \<open>What the API documents for one machine: the ticket \<open>tk\<close>, \<open>csrf\<close> is granted, reading the configuration
  shows the NIC and its digest, writing with the current digest starts a task that has set the NIC, and
  the task answers \<open>running\<close> as long as \<open>busy\<close> says.\<close>

definition api_ok :: "json \<Rightarrow> http_response" where
  "api_ok data = \<lparr> http_success = True, http_status = ''200 OK'', http_json = Inr (JObj [(''data'', data)]) \<rparr>"

definition px_documented ::
  "'w px_env \<Rightarrow> px_credentials \<Rightarrow> string \<Rightarrow> 32 word \<Rightarrow> string \<Rightarrow> string \<Rightarrow>
   ('w \<Rightarrow> string) \<Rightarrow> ('w \<Rightarrow> string) \<Rightarrow> ('w \<Rightarrow> nat) \<Rightarrow> bool" where
  "px_documented E c n v tk csrf nic digest busy \<longleftrightarrow>
     (\<forall>w. send E (HttpPost (''https://'' @ px_host c @ ''/api2/json/access/ticket'') []
                   [(''username'', px_user c), (''password'', px_password c)]) w =
          (Inr (api_ok (JObj [(''CSRFPreventionToken'', JStr csrf), (''ticket'', JStr tk)])), w)) \<and>
     (\<forall>w. send E (HttpGet (config_url c n v) [auth_cookie tk]) w =
          (Inr (api_ok (JObj [(''digest'', JStr (digest w)), (''net0'', JStr (nic w))])), w) \<and>
          config_text_ok 256 (digest w)) \<and>
     (\<forall>w val. config_text_ok 4096 val \<longrightarrow> (\<exists>w' upid. validate_qmconfig_upid n v upid = Inr () \<and>
          send E (HttpPost (config_url c n v) [auth_cookie tk, (''CSRFPreventionToken'', csrf)]
                   [(''net0'', val), (''digest'', digest w)]) w = (Inr (api_ok (JStr upid)), w') \<and>
          nic w' = val \<and> busy w' < polls E)) \<and>
     (\<forall>upid. validate_qmconfig_upid n v upid = Inr () \<longrightarrow> (\<exists>url. task_url E c n upid = Inr url \<and>
        (\<forall>w. if busy w = 0
             then send E (HttpGet url [auth_cookie tk]) w =
                  (Inr (api_ok (JObj [(''exitstatus'', JStr ''OK''), (''status'', JStr ''stopped'')])), w)
             else \<exists>w'. send E (HttpGet url [auth_cookie tk]) w = (Inr (api_ok (JObj [(''status'', JStr ''running'')])), w') \<and>
                  busy w' = busy w - 1 \<and> nic w' = nic w)))"

lemma px_ticket:
  assumes "px_documented E c n v tk csrf nic digest busy" "px_creds A = Inr c" "px_http A = Inr ()"
  shows "ticket E A w = (Inr (tk, csrf), w)"
  using assms unfolding px_documented_def
  by (simp add: ticket_def credentials_def http_def io_bind_def io_map_err_def io_lift_def io_return_def api_ok_def
      jindex_def obj_get_def)

lemma px_read:
  assumes "px_documented E c n v tk csrf nic digest busy" "px_creds A = Inr c" "px_http A = Inr ()"
    and "config_text_ok 4096 (nic w)"
  shows "read_net0 E A n v tk w = (Inr \<lparr> nic_net0 = nic w, nic_digest = digest w \<rparr>, w)"
  using assms unfolding px_documented_def
  by (simp add: read_net0_def credentials_def http_def io_bind_def io_map_err_def io_lift_def api_ok_def
      parse_nic_state_def obj_get_def extra_nic_key_def)

lemma px_poll:
  assumes "\<forall>w. if busy w = 0
             then send E (HttpGet url [auth_cookie tk]) w =
                  (Inr (api_ok (JObj [(''exitstatus'', JStr ''OK''), (''status'', JStr ''stopped'')])), w)
             else \<exists>w'. send E (HttpGet url [auth_cookie tk]) w = (Inr (api_ok (JObj [(''status'', JStr ''running'')])), w') \<and>
                  busy w' = busy w - 1 \<and> nic w' = nic w"
    and "px_http A = Inr ()" "busy w < k"
  shows "\<exists>w'. poll_task k E A url tk w = (Inr (), w') \<and> nic w' = nic w"
  using assms(3)
proof (induction k arbitrary: w)
  case (Suc k)
  show ?case
  proof (cases "busy w = 0")
    case True
    then have "send E (HttpGet url [auth_cookie tk]) w =
        (Inr (api_ok (JObj [(''exitstatus'', JStr ''OK''), (''status'', JStr ''stopped'')])), w)"
      using assms(1) by metis
    then show ?thesis using assms(2)
      by (simp add: task_request_def http_def io_bind_def io_map_err_def io_lift_def api_ok_def
          interpret_task_status_def jindex_def obj_get_def Let_def)
  next
    case False
    then obtain w1 where w1: "send E (HttpGet url [auth_cookie tk]) w = (Inr (api_ok (JObj [(''status'', JStr ''running'')])), w1)"
      "busy w1 = busy w - 1" "nic w1 = nic w"
      using assms(1) by metis
    then obtain w' where "poll_task k E A url tk w1 = (Inr (), w')" "nic w' = nic w"
      using Suc.IH [of w1] Suc.prems False by fastforce
    then show ?thesis using w1(1) assms(2)
      by (simp add: task_request_def http_def io_bind_def io_map_err_def io_lift_def api_ok_def
          interpret_task_status_def jindex_def obj_get_def Let_def)
  qed
qed simp

lemma px_write:
  assumes "px_documented E c n v tk csrf nic digest busy" "px_creds A = Inr c" "px_http A = Inr ()"
    and "config_text_ok 4096 val"
  shows "\<exists>upid w'. write_net0 E A n v val (digest w) tk csrf w = (Inr upid, w') \<and> nic w' = val \<and>
    validate_qmconfig_upid n v upid = Inr ()"
proof -
  obtain w1 upid where w1: "validate_qmconfig_upid n v upid = Inr ()"
    "send E (HttpPost (config_url c n v) [auth_cookie tk, (''CSRFPreventionToken'', csrf)]
       [(''net0'', val), (''digest'', digest w)]) w = (Inr (api_ok (JStr upid)), w1)" "nic w1 = val" "busy w1 < polls E"
    using assms(1,4) unfolding px_documented_def by meson
  obtain url where url: "task_url E c n upid = Inr url" "\<forall>w. if busy w = 0
             then send E (HttpGet url [auth_cookie tk]) w =
                  (Inr (api_ok (JObj [(''exitstatus'', JStr ''OK''), (''status'', JStr ''stopped'')])), w)
             else \<exists>w'. send E (HttpGet url [auth_cookie tk]) w = (Inr (api_ok (JObj [(''status'', JStr ''running'')])), w') \<and>
                  busy w' = busy w - 1 \<and> nic w' = nic w"
    using assms(1) w1(1) unfolding px_documented_def by meson
  obtain w' where "poll_task (polls E) E A url tk w1 = (Inr (), w')" "nic w' = nic w1"
    using px_poll [OF url(2) assms(3) w1(4)] by blast
  then show ?thesis using assms(2,3) w1 url(1)
    by (simp add: write_net0_def wait_for_config_task_def credentials_def http_def io_bind_def io_map_err_def io_lift_def
        io_return_def api_ok_def jindex_def obj_get_def)
qed

text \<open>With a documented API whose tasks end within the poll budget, isolating an unprotected machine sets
  the isolated form of its NIC and is verified, returns the original value, and a rollback with that value
  restores it.\<close>

theorem proxmox_quarantine_round_trip:
  assumes "px_documented E c n v tk csrf nic digest busy" "px_creds A = Inr c" "px_http A = Inr ()"
    and "qt_validate (Proxmox n v) = Inr ()"
    and "px_never_quarantine A = Inr ps" "ps \<noteq> []" "\<not> qt_is_protected (Proxmox n v) ps"
    and "config_text_ok 4096 (nic w)" "config_text_ok 4096 (quarantine_net0 (nic w))" "\<not> net0_is_quarantined (nic w)"
  shows "\<exists>applied w1 w2. proxmox_apply E A (Proxmox n v) False w = (Inr applied, w1) \<and>
    original_net0 applied = nic w \<and> nic w1 = quarantine_net0 (nic w) \<and>
    proxmox_verify E A (Proxmox n v) w1 = (Inr Verified, w1) \<and>
    proxmox_rollback E A (Proxmox n v) (nic w) w1 = (Inr (), w2) \<and> nic w2 = nic w"
proof -
  let ?q = "quarantine_net0 (nic w)"
  note D = assms(1-3)
  have nv: "node_vmid (Proxmox n v) = Inr (n, v)" using assms(4) by (simp add: node_vmid_def)
  obtain u1 w1 where w1: "write_net0 E A n v ?q (digest w) tk csrf w = (Inr u1, w1)" "nic w1 = ?q"
    using px_write [OF D assms(9)] by blast
  obtain u2 w2 where w2: "write_net0 E A n v (nic w) (digest w1) tk csrf w1 = (Inr u2, w2)" "nic w2 = nic w"
    using px_write [OF D assms(8)] by blast
  note rd = px_read [OF D assms(8)] px_read [OF D, of w1, unfolded w1(2), OF assms(9)]
    px_read [OF D, of w2, unfolded w2(2), OF assms(8)]
  have q: "?q \<noteq> nic w" "net0_is_quarantined ?q" using assms(10) quarantine_net0_isolated by metis+
  obtain applied where "proxmox_apply E A (Proxmox n v) False w = (Inr applied, w1)" "original_net0 applied = nic w"
    using nv assms(5-7,10) px_ticket [OF D] rd w1
    by (simp add: proxmox_apply_def proxmox_apply_checked_def px_protection_list_def io_bind_def io_lift_def io_return_def)
  moreover have "proxmox_verify E A (Proxmox n v) w1 = (Inr Verified, w1)"
    using nv px_ticket [OF D] rd q by (simp add: proxmox_verify_def io_bind_def io_lift_def io_return_def)
  moreover have "proxmox_rollback E A (Proxmox n v) (nic w) w1 = (Inr (), w2)"
    using nv px_ticket [OF D] rd q w2 assms(8,10) trim_Nil
    by (auto simp: proxmox_rollback_def io_bind_def io_lift_def io_return_def rollback_needed_def config_text_ok_def)
  ultimately show ?thesis using w1(2) w2(2) by blast
qed

text \<open>A machine for the witness: the world holds the NIC and the number of \<open>running\<close> answers left.\<close>

definition example_credentials :: px_credentials where
  "example_credentials = \<lparr> px_host = ''pve1:8006'', px_user = ''root@pam'', px_password = ''secret'' \<rparr>"

definition example_px :: "(string \<times> nat) px_env" where
  "example_px = \<lparr>
     send = (\<lambda>req (nic, busy).
       case req of
         HttpPost _ _ ((k, val) # _) \<Rightarrow>
           if k = ''net0'' then (Inr (api_ok (JStr example_upid)), (val, 2))
           else (Inr (api_ok (JObj [(''CSRFPreventionToken'', JStr ''c''), (''ticket'', JStr ''t'')])), (nic, busy))
       | HttpGet u _ \<Rightarrow>
           if u = config_url example_credentials ''pve1'' 100
           then (Inr (api_ok (JObj [(''digest'', JStr ''d1''), (''net0'', JStr nic)])), (nic, busy))
           else if busy = 0
           then (Inr (api_ok (JObj [(''exitstatus'', JStr ''OK''), (''status'', JStr ''stopped'')])), (nic, busy))
           else (Inr (api_ok (JObj [(''status'', JStr ''running'')])), (nic, busy - 1))
       | _ \<Rightarrow> (Inl [Lit ''unknown''], (nic, busy))),
     url_parse = (\<lambda>_. Some \<lparr> host_str = Some ''pve1'', username = [], url_password = None, url_path = ''/'',
                          url_query = None, url_fragment = None \<rparr>),
     url_extend = (\<lambda>_ _. Some ''status''), polls = 60 \<rparr>"

lemma example_px_documented:
  "px_documented example_px example_credentials ''pve1'' 100 ''t'' ''c'' fst (\<lambda>_. ''d1'') snd"
proof -
  have "config_text_ok 256 ''d1''" by code_simp
  moreover have "''status'' \<noteq> config_url example_credentials ''pve1'' 100" by (simp add: config_url_def)
  ultimately show ?thesis
    unfolding px_documented_def using example_upid_valid
    by (auto simp: example_px_def task_url_def example_credentials_def [symmetric])
qed

lemma proxmox_quarantine_round_trip_witness:
  "\<exists>applied w1 w2. proxmox_apply example_px
      \<lparr> px_creds = Inr example_credentials, px_never_quarantine = Inr [Proxmox ''pve1'' 1], px_http = Inr () \<rparr>
      (Proxmox ''pve1'' 100) False (''virtio=BC:24,bridge=vmbr0'', 0) = (Inr applied, w1) \<and>
    fst w1 = ''virtio=BC:24,bridge=vmbr0,link_down=1'' \<and>
    proxmox_rollback example_px
      \<lparr> px_creds = Inr example_credentials, px_never_quarantine = Inr [Proxmox ''pve1'' 1], px_http = Inr () \<rparr>
      (Proxmox ''pve1'' 100) ''virtio=BC:24,bridge=vmbr0'' w1 = (Inr (), w2) \<and> fst w2 = ''virtio=BC:24,bridge=vmbr0''"
proof -
  have q: "quarantine_net0 ''virtio=BC:24,bridge=vmbr0'' = ''virtio=BC:24,bridge=vmbr0,link_down=1''"
    "qt_validate (Proxmox ''pve1'' 100) = Inr ()"
    "config_text_ok 4096 ''virtio=BC:24,bridge=vmbr0''"
    "config_text_ok 4096 ''virtio=BC:24,bridge=vmbr0,link_down=1''"
    "\<not> net0_is_quarantined ''virtio=BC:24,bridge=vmbr0''" by code_simp+
  show ?thesis
    using proxmox_quarantine_round_trip [OF example_px_documented, of
        "\<lparr> px_creds = Inr example_credentials, px_never_quarantine = Inr [Proxmox ''pve1'' 1], px_http = Inr () \<rparr>"
        "[Proxmox ''pve1'' 1]" "(''virtio=BC:24,bridge=vmbr0'', 0)"] q
    by (auto simp: qt_is_protected_def)
qed

lemma proxmox_rollback_exact_witness:
  "\<exists>e. proxmox_rollback example_px
      \<lparr> px_creds = Inr example_credentials, px_never_quarantine = Inr [Proxmox ''pve1'' 1], px_http = Inr () \<rparr>
      (Proxmox ''pve1'' 100) ''virtio=BC:24,bridge=vmbr0'' (''virtio=BC:24,bridge=vmbr1'', 0) =
      (Inl e, (''virtio=BC:24,bridge=vmbr1'', 0))"
proof -
  let ?A = "\<lparr> px_creds = Inr example_credentials, px_never_quarantine = Inr [Proxmox ''pve1'' 1], px_http = Inr () \<rparr>"
  have c: "config_text_ok 4096 ''virtio=BC:24,bridge=vmbr1''"
    "''virtio=BC:24,bridge=vmbr1'' \<noteq> quarantine_net0 ''virtio=BC:24,bridge=vmbr0''" by code_simp+
  let ?w = "(''virtio=BC:24,bridge=vmbr1'', 0) :: string \<times> nat"
  have "ticket example_px ?A ?w = (Inr (''t'', ''c''), ?w)"
    by (rule px_ticket [OF example_px_documented]) simp_all
  moreover have "read_net0 example_px ?A ''pve1'' 100 ''t'' ?w =
      (Inr \<lparr> nic_net0 = ''virtio=BC:24,bridge=vmbr1'', nic_digest = ''d1'' \<rparr>, ?w)"
    using px_read [OF example_px_documented, of ?A ?w] c by simp
  ultimately show ?thesis
    using proxmox_rollback_exact [of example_px ?A ?w "''t''" "''c''" ?w "''pve1''" 100
        "\<lparr> nic_net0 = ''virtio=BC:24,bridge=vmbr1'', nic_digest = ''d1'' \<rparr>" ?w "''virtio=BC:24,bridge=vmbr0''" ?w] c
    by auto
qed

end
