(* ===== verification/Recovery.thy ===== *)
theory Recovery
  imports Rule_Apply Quarantine_Journal Tailscale Proxmox_Quarantine
begin

text \<open>
  How the executor takes rules back (\<^verbatim>\<open>executor/src/main.rs\<close>): the rollback of a target by any adapter, the
  recovery of one durable generation, the sweep over expired generations and over receipts without a
  generation, and the read-only drift check.
\<close>

section \<open>The executor's environment\<close>

text \<open>Everything a replica uses besides the database: what \<open>agent_env\<close> holds, the quarantine adapters as their
  \<^verbatim>\<open>new\<close> constructors return them, and the length of a JSON text.\<close>

record 'w executor_env =
  xe_agent :: "'w agent_env"
  xe_json_len :: "json \<Rightarrow> nat"
  xe_send :: "'w http_send"
  xe_decoders :: tailscale_decoders
  xe_tailscale :: tailscale_adapter
  xe_docker_env :: "'w docker_env"
  xe_docker :: docker_adapter
  xe_px_env :: "'w px_env"
  xe_proxmox :: proxmox_adapter

definition try_begin_inflight :: "'w executor_env \<Rightarrow> string \<Rightarrow> (store \<times> 'w, msg, uuid option) io" where
  "try_begin_inflight X adapter =
     (let env = ae_env (xe_agent X) in
      on_store (try_reserve_firewall_inflight adapter (firewall_max_concurrent_applies_per_adapter env)
        (firewall_inflight_stale_seconds env)))"

section \<open>Taking a target back\<close>

definition rollback_target :: "'w executor_env \<Rightarrow> string \<Rightarrow> json \<Rightarrow> string \<Rightarrow> ('w, msg, unit) io" where
  "rollback_target X adapter_name target_json why =
     (if adapter_name = ''tailscale'' then
        io_bind (io_lift (ok_or [Lit ''tailscale target_json is missing device_id''] (get_str target_json ''device_id''))) (\<lambda>d.
        io_map_err show_adapter_error (ts_rollback (xe_send X) (xe_decoders X) (xe_tailscale X)
          \<lparr> ts_target = \<lparr> device_id = d \<rparr>, ts_reason = why \<rparr>))
      else if adapter_name = ''proxmox'' then
        io_bind (io_lift (ok_or [Lit ''proxmox target_json is missing node''] (get_str target_json ''node''))) (\<lambda>n.
        io_bind (io_lift (ok_or [Lit ''proxmox target_json is missing vmid''] (Option.bind (jget target_json ''vmid'') as_u64))) (\<lambda>v.
        if v \<ge> 2 ^ 32 then io_fail [Lit ''proxmox vmid out of range'']
        else
          io_bind (io_lift (ok_or [Lit ''original Proxmox NIC snapshot missing''] (get_str target_json ''original_net0''))) (\<lambda>original.
          io_map_err show_adapter_error (proxmox_rollback (xe_px_env X) (xe_proxmox X) (Proxmox n (of_nat v)) original))))
      else if adapter_name = ''docker'' then
        io_bind (io_lift (ok_or [Lit ''docker target_json is missing container_id''] (get_str target_json ''container_id''))) (\<lambda>i.
        io_bind (io_lift (ok_or [Lit ''Docker rollback snapshot is missing''] (jget target_json ''networks''))) (\<lambda>snapshot.
        io_bind (io_lift (ok_or [Lit ''Docker rollback snapshot is invalid or legacy names-only; operator recovery required'']
            (networks_from_json snapshot))) (\<lambda>nets.
        io_map_err show_adapter_error (docker_rollback (xe_docker_env X) (Docker i) nets))))
      else case adapter_for_action (xe_agent X) adapter_name of
        None \<Rightarrow> io_fail [Lit ''unrecognized adapter '', Dbg adapter_name]
      | Some A \<Rightarrow>
          io_bind (io_lift (map_err show_adapter_error (target_of_json target_json))) (\<lambda>t.
          io_map_err show_adapter_error
            (ad_rollback A \<lparr> target = t, ttl_seconds = DEFAULT_FIREWALL_ACTION_TTL_SECONDS, reason = why \<rparr>)))"

definition firewall_rule_recovery_target :: "string \<Rightarrow> json \<Rightarrow> msg + fw_target" where
  "firewall_rule_recovery_target adapter_name target_json =
     and_then (ok_or [Lit ''invalid versioned firewall rule recovery target''] (recovery_from_json target_json)) (\<lambda>r.
     if scope r = adapter_name then Inr (rt_target r) else Inl [Lit ''firewall recovery adapter scope mismatch''])"

definition rollback_firewall_rule_generation_target ::
  "'w executor_env \<Rightarrow> string \<Rightarrow> json \<Rightarrow> string \<Rightarrow> ('w, msg, unit) io" where
  "rollback_firewall_rule_generation_target X adapter_name target_json why =
     io_bind (io_lift (firewall_rule_recovery_target adapter_name target_json)) (\<lambda>t.
     io_bind (io_lift (ok_or [Lit ''unrecognized firewall recovery adapter''] (adapter_for_action (xe_agent X) adapter_name))) (\<lambda>A.
     io_map_err show_adapter_error
       (ad_rollback A \<lparr> target = t, ttl_seconds = DEFAULT_FIREWALL_ACTION_TTL_SECONDS, reason = why \<rparr>)))"

definition verify_firewall_rule_generation_target ::
  "'w executor_env \<Rightarrow> string \<Rightarrow> json \<Rightarrow> ('w, msg, verification_result) io" where
  "verify_firewall_rule_generation_target X adapter_name target_json =
     io_bind (io_lift (firewall_rule_recovery_target adapter_name target_json)) (\<lambda>t.
     io_bind (io_lift (ok_or [Lit ''unrecognized firewall recovery adapter''] (adapter_for_action (xe_agent X) adapter_name))) (\<lambda>A.
     io_map_err show_adapter_error (ad_verify A t)))"

section \<open>One generation\<close>

datatype recovery_outcome = Restored | Resolved | Busy | ManualReview

definition execution_has_active_lease :: "uuid \<Rightarrow> (store, msg, bool) io" where
  "execution_has_active_lease i = query (\<lambda>s.
     list_ex (\<lambda>l. le_execution l = i \<and> le_status l = LActive \<and> le_expires l > st_now s) (st_leases s))"

text \<open>A guard that goes out of scope: its transaction is rolled back.\<close>

definition dropping :: "rule_intent \<Rightarrow> 'a \<Rightarrow> (store \<times> 'w, 'e, 'a) io" where
  "dropping g x m = (case m of (s, w) \<Rightarrow> (Inr x, (guard_abort g s, w)))"

definition recover_prepared :: "rule_intent \<Rightarrow> (store \<times> 'w, recovery_outcome, recovery_outcome) io" where
  "recover_prepared g =
     io_bind (attempt (on_store (execution_has_active_lease (ri_execution g)))) (\<lambda>leased.
     if leased = Inr False
     then io_bind (ignoring (on_store (guard_recovery_required g))) (\<lambda>_. io_return ManualReview)
     else dropping g Busy)"

definition ttl_rollback :: "'w executor_env \<Rightarrow> rule_intent \<Rightarrow> ('w, msg, unit) io" where
  "ttl_rollback X g = rollback_firewall_rule_generation_target X (ri_adapter g) (ri_target_json g)
     (''firewall rule generation '' @ uuid_text (ri_id g) @ '' ttl rollback'')"

definition recover_applied :: "'w executor_env \<Rightarrow> rule_intent \<Rightarrow> (store \<times> 'w, recovery_outcome, recovery_outcome) io" where
  "recover_applied X g =
     io_bind (attempt (try_begin_inflight X (ri_adapter g))) (\<lambda>slot.
     case slot of
       Inr (Some k) \<Rightarrow>
         io_bind (attempt (on_world (ttl_rollback X g))) (\<lambda>result.
         io_bind (ignoring (on_store (end_firewall_inflight_operation k))) (\<lambda>_.
         case result of
           Inl _ \<Rightarrow> io_bind (ignoring (on_store (guard_recovery_required g))) (\<lambda>_. io_return ManualReview)
         | Inr _ \<Rightarrow>
             io_bind (attempt (on_store (guard_resolve_rollback g))) (\<lambda>resolved.
             io_return (case resolved of Inl _ \<Rightarrow> ManualReview | Inr _ \<Rightarrow> Restored))))
     | _ \<Rightarrow> dropping g Busy)"

definition recover_firewall_rule_generation ::
  "'w executor_env \<Rightarrow> uuid \<Rightarrow> store \<times> 'w \<Rightarrow> recovery_outcome \<times> store \<times> 'w" where
  "recover_firewall_rule_generation X i = returning (
     io_bind (attempt (on_store (acquire_firewall_rule_guard i))) (\<lambda>acquired.
     case acquired of
       Inr (Some g) \<Rightarrow> (if ri_status g = Prepared then recover_prepared g else recover_applied X g)
     | Inr None \<Rightarrow>
         io_bind (attempt (on_store (firewall_rule_intent i))) (\<lambda>r.
         io_return (case r of
           Inr (Some q) \<Rightarrow> (if ri_status q = RolledBack \<or> ri_status q = NotApplied then Resolved else Busy)
         | _ \<Rightarrow> Busy))
     | Inl _ \<Rightarrow> io_return Busy))"

section \<open>The sweeps over generations\<close>

fun recover_each :: "'w executor_env \<Rightarrow> rule_intent list \<Rightarrow> store \<times> 'w \<Rightarrow> store \<times> 'w" where
  "recover_each X [] m = m"
| "recover_each X (r # rs) m =
     (if ri_status r = RecoveryRequired then recover_each X rs m
      else recover_each X rs (snd (recover_firewall_rule_generation X (ri_id r) m)))"

definition sweep_firewall_rule_generations :: "'w executor_env \<Rightarrow> store \<times> 'w \<Rightarrow> store \<times> 'w" where
  "sweep_firewall_rule_generations X m =
     (case on_store recoverable_firewall_rule_intents m of
        (Inl _, m') \<Rightarrow> m'
      | (Inr rs, m') \<Rightarrow> recover_each X rs m')"

datatype drift_state = InForce | Absent | Unreadable

definition drift_transition :: "drift_state option \<Rightarrow> drift_state \<Rightarrow> string option" where
  "drift_transition previous now =
     (case previous of
        Some before \<Rightarrow>
          (if before = now then None
           else case now of
             Absent \<Rightarrow> Some ''active firewall rule generation is no longer in the kernel/adapter state (drift)''
           | Unreadable \<Rightarrow> Some ''active firewall rule generation could not be read back (adapter unreadable)''
           | InForce \<Rightarrow> Some ''active firewall rule generation is in force again'')
      | None \<Rightarrow>
          (case now of
             InForce \<Rightarrow> None
           | Absent \<Rightarrow> Some ''active firewall rule generation is no longer in the kernel/adapter state (drift)''
           | Unreadable \<Rightarrow> Some ''active firewall rule generation could not be read back (adapter unreadable)''))"

definition drift_of :: "msg + verification_result \<Rightarrow> drift_state" where
  "drift_of r = (case r of Inr Verified \<Rightarrow> InForce | Inr NotPresent \<Rightarrow> Absent | Inl _ \<Rightarrow> Unreadable)"

type_synonym drift_seen = "uuid \<Rightarrow> drift_state option"

definition drift_step ::
  "'w executor_env \<Rightarrow> rule_intent \<Rightarrow> drift_seen \<times> store \<times> 'w \<Rightarrow> drift_seen \<times> store \<times> 'w" where
  "drift_step X r st =
     (case st of (seen, m) \<Rightarrow>
      case on_world (verify_firewall_rule_generation_target X (ri_adapter r) (ri_target_json r)) m of (v, m) \<Rightarrow>
        (let now = drift_of v; seen' = seen(ri_id r \<mapsto> now) in
         if drift_transition (seen (ri_id r)) now = None \<or> now = InForce then (seen', m)
         else
           (case on_store (record_firewall_rule_drift r (if now = Absent then ''absent'' else ''unreadable'')) m of
              (Inl _, m) \<Rightarrow> (seen'(ri_id r := None), m)
            | (Inr _, m) \<Rightarrow> (seen', m))))"

definition sweep_active_generation_drift ::
  "'w executor_env \<Rightarrow> drift_seen \<Rightarrow> store \<times> 'w \<Rightarrow> drift_seen \<times> store \<times> 'w" where
  "sweep_active_generation_drift X seen m =
     (case on_store active_completed_firewall_rule_intents m of
        (Inl _, m) \<Rightarrow> (seen, m)
      | (Inr rs, m) \<Rightarrow> fold (drift_step X) rs (\<lambda>i. if i \<in> ri_id ` set rs then seen i else None, m))"

section \<open>Receipts without a generation\<close>

definition native_adapter :: "string \<Rightarrow> bool" where
  "native_adapter a = (a = ''docker'' \<or> a = ''proxmox'' \<or> a = ''tailscale'')"

definition rollback_receipt :: "string \<Rightarrow> string \<Rightarrow> string \<Rightarrow> receipt_input" where
  "rollback_receipt adapter action_name fingerprint =
     \<lparr> in_execution = None, in_adapter = adapter, in_action_name = action_name, in_preflight = JObj [],
       in_commands = JArr [], in_observed = None, in_verification = None, in_ttl = DEFAULT_FIREWALL_ACTION_TTL_SECONDS,
       in_plan = JObj [], in_dry_run = False, in_kind = ''rollback'', in_fingerprint = Some fingerprint, in_target_json = None \<rparr>"

definition sweep_expired_target :: "'w executor_env \<Rightarrow> expired_target \<Rightarrow> store \<times> 'w \<Rightarrow> store \<times> 'w" where
  "sweep_expired_target X t m =
     (if native_adapter (xt_adapter t) then m
      else case try_begin_inflight X (xt_adapter t) m of
        (Inr (Some k), m) \<Rightarrow>
          (case on_world (rollback_target X (xt_adapter t) (xt_target_json t)
               (''ttl expired auto-rollback (receipt '' @ uuid_text (xt_receipt t) @ '')'')) m of (result, m) \<Rightarrow>
           case on_store (end_firewall_inflight_operation k) m of (_, m) \<Rightarrow>
             (if is_ok result
              then snd (on_store (record_firewall_action_receipt
                     (rollback_receipt (xt_adapter t) ''ttl-expired-auto-rollback'' (xt_fingerprint t))) m)
              else m))
      | (_, m) \<Rightarrow> m)"

definition sweep_expired_firewall_targets :: "'w executor_env \<Rightarrow> store \<times> 'w \<Rightarrow> store \<times> 'w" where
  "sweep_expired_firewall_targets X m =
     (case on_store expired_unrolled_back_firewall_targets m of
        (Inl _, m) \<Rightarrow> m
      | (Inr ts, m) \<Rightarrow> fold (sweep_expired_target X) ts m)"

section \<open>What leaves the journal alone\<close>

definition same_journal :: "store \<Rightarrow> store \<Rightarrow> bool" where
  "same_journal s s' \<longleftrightarrow> st_intents s' = st_intents s \<and> st_receipts s' = st_receipts s \<and> st_locked s' = st_locked s \<and>
     st_next s \<le> st_next s'"

lemma same_journal_refl [simp]: "same_journal s s"
  by (simp add: same_journal_def)

lemma same_journal_trans: "same_journal s t \<Longrightarrow> same_journal t u \<Longrightarrow> same_journal s u"
  by (auto simp: same_journal_def)

lemma journal_ok_mono: "journal_ok rs qs n \<Longrightarrow> n \<le> m \<Longrightarrow> journal_ok rs qs m"
  unfolding journal_ok_def by (meson order_less_le_trans)

lemma same_journal_good: "same_journal s s' \<Longrightarrow> journal_good s \<Longrightarrow> journal_good s'"
  using journal_ok_mono by (auto simp: same_journal_def journal_good_def)

lemma same_journal_find: "same_journal s s' \<Longrightarrow> find_intent s' = find_intent s"
  by (rule find_intent_cong) (simp add: same_journal_def)

lemma same_journal_transaction:
  assumes "transaction body s = (r, s')" "\<And>u x v. body u = Inr (x, v) \<Longrightarrow> same_journal u v"
  shows "same_journal s s'"
  using assms(1)
proof (rule transaction_cases)
  fix u e assume "u = snd (next_outcome s)" "s' = u"
  then show ?thesis by (simp add: same_journal_def)
next
  fix u x assume "u = snd (next_outcome s)" "body u = Inr (x, s')"
  then show ?thesis using assms(2) [of u x s'] by (simp add: same_journal_def)
qed

lemma same_journal_query: "query f s = (r, s') \<Longrightarrow> same_journal s s'"
  unfolding query_def by (erule same_journal_transaction) simp

lemma same_journal_execute: "execute f s = (r, s') \<Longrightarrow> (\<And>u. same_journal u (f u)) \<Longrightarrow> same_journal s s'"
  unfolding execute_def by (erule same_journal_transaction) auto

lemma same_journal_reserve:
  assumes "try_begin_inflight X a (s, w) = (r, m)"
  shows "\<exists>s'. m = (s', w) \<and> same_journal s s'"
proof -
  let ?max = "firewall_max_concurrent_applies_per_adapter (ae_env (xe_agent X))"
  let ?stale = "firewall_inflight_stale_seconds (ae_env (xe_agent X))"
  obtain q s' where q: "try_reserve_firewall_inflight a ?max ?stale s = (q, s')" by (rule prod.exhaust)
  have "same_journal s s'"
  proof (cases "?max \<le> 0 \<or> ?stale \<le> 0")
    case False
    then have "transaction (\<lambda>s. if int (length (live_slots s a ?stale)) \<ge> ?max then Inr (None, s)
        else (case add_slot a s of (i, s) \<Rightarrow> Inr (Some i, s))) s = (q, s')"
      using q by (simp add: try_reserve_firewall_inflight_def)
    then show ?thesis
      by (rule same_journal_transaction) (auto simp: same_journal_def add_slot_def fresh_def split: if_split_asm)
  qed (use q in \<open>auto simp: try_reserve_firewall_inflight_def\<close>)
  then show ?thesis using assms q by (auto simp: try_begin_inflight_def Let_def on_store_def)
qed

lemma same_journal_release_slot: "end_firewall_inflight_operation k s = (r, s') \<Longrightarrow> same_journal s s'"
  unfolding end_firewall_inflight_operation_def by (erule same_journal_execute) (simp add: same_journal_def)

section \<open>What a recovery does\<close>

lemma resolve_rollback_keeps:
  assumes t: "guard_resolve_rollback g s = (x, s')" and s: "journal_good s"
    and g: "find_intent s (ri_id g) = Some g" "active (ri_status g)"
  shows "journal_good s' \<and> others_kept (ri_id g) s s' \<and>
    (find_intent s' (ri_id g) = Some g \<and> (\<forall>u. x \<noteq> Inr u) \<or> find_intent s' (ri_id g) = Some (g\<lparr>ri_status := RolledBack\<rparr>))"
proof -
  have mem: "g \<in> set (st_intents s)" and ok: "row_ok (st_receipts s) g" using journal_good_row [OF s g(1)] by simp_all
  have c: "guard_change g s s'" using guard_rollback_change [OF t ok mem g(2)] .
  have "(\<forall>z. x \<noteq> Inr z) \<and> st_intents s' = st_intents s \<or> st_intents s' = update_row (ri_id g) RolledBack (st_intents s) \<and> True"
  proof (rule guard_commit_intents [OF t [unfolded guard_resolve_rollback_def], where Q = "\<lambda>_. True"])
    fix u y v
    assume "st_intents u = st_intents s" "guard_rollback_body g u = Inr (y, v)"
    then show "st_intents v = update_row (ri_id g) RolledBack (st_intents s) \<and> True"
      by (fastforce simp: guard_rollback_body_def fresh_def and_then_Inr_iff guard_transition_body_def
          dest!: insert_receipt_Inr set_status_Inr)
  qed
  moreover have "find_intent s' (ri_id g) = Some (g\<lparr>ri_status := RolledBack\<rparr>)"
    if "st_intents s' = update_row (ri_id g) RolledBack (st_intents s)"
    using find_update_row [of "st_intents s" g "ri_id g" RolledBack] s mem that
    by (simp add: find_intent_def journal_good_def journal_ok_def)
  moreover have "find_intent s' (ri_id g) = Some g" if "st_intents s' = st_intents s"
    using find_intent_cong [OF that] g(1) by simp
  ultimately show ?thesis using guard_change_find(1,2) [OF c s g] by (auto simp: others_kept_def)
qed

text \<open>The row \<open>r\<close> of generation \<open>i\<close> after its recovery ended with \<open>out\<close>; \<open>v\<close> is the world the rollback left.\<close>

definition recovery_done :: "'w executor_env \<Rightarrow> rule_intent \<Rightarrow> 'w \<Rightarrow> recovery_outcome \<Rightarrow> store \<Rightarrow> 'w \<Rightarrow> bool" where
  "recovery_done X r w out s' w' \<longleftrightarrow>
     (\<exists>r'. find_intent s' (ri_id r) = Some r' \<and>
        (case out of
           Restored \<Rightarrow> r' = r\<lparr>ri_status := RolledBack\<rparr> \<and> ri_status r \<noteq> Prepared \<and> ttl_rollback X r w = (Inr (), w')
         | ManualReview \<Rightarrow> retained r r' \<and> w' = w \<and> ri_status r = Prepared \<or>
             retained r r' \<and> w' = snd (ttl_rollback X r w) \<and> ri_status r \<noteq> Prepared \<or>
             r' = r\<lparr>ri_status := RolledBack\<rparr> \<and> ri_status r \<noteq> Prepared \<and> ttl_rollback X r w = (Inr (), w')
         | Busy \<Rightarrow> r' = r \<and> w' = w
         | Resolved \<Rightarrow> False))"

lemma recover_prepared_done:
  assumes run: "recover_prepared g (s, w) = (out, (s', w'))" and s: "journal_good s"
    and g: "find_intent s (ri_id g) = Some g" "active (ri_status g)" "ri_status g = Prepared"
  shows "\<exists>o'. out = Inr o' \<and> journal_good s' \<and> others_kept (ri_id g) s s' \<and> recovery_done X g w o' s' w' \<and>
    (list_ex (\<lambda>l. le_execution l = ri_execution g \<and> le_status l = LActive \<and> le_expires l > st_now s) (st_leases s) \<longrightarrow> o' = Busy)"
proof -
  obtain q s1 where q: "execution_has_active_lease (ri_execution g) s = (q, s1)" by (rule prod.exhaust)
  have s1: "same_journal s s1" using q unfolding execution_has_active_lease_def by (rule same_journal_query)
  have good: "journal_good s1" "find_intent s1 = find_intent s" using same_journal_good [OF s1 s] same_journal_find [OF s1] by simp_all
  have lease: "q \<noteq> Inr False"
    if "list_ex (\<lambda>l. le_execution l = ri_execution g \<and> le_status l = LActive \<and> le_expires l > st_now s) (st_leases s)"
  proof
    assume "q = Inr False"
    then have "list_ex (\<lambda>l. le_execution l = ri_execution g \<and> le_status l = LActive \<and> le_expires l > st_now s) (st_leases s) = False"
      using transaction_Inr [OF q [unfolded execution_has_active_lease_def query_def \<open>q = Inr False\<close>]] by simp
    then show False using that by simp
  qed
  show ?thesis
  proof (cases "q = Inr False")
    case True
    obtain x s2 where x: "guard_recovery_required g s1 = (x, s2)" by (rule prod.exhaust)
    have "out = Inr ManualReview \<and> s' = s2 \<and> w' = w"
      using run q True x by (simp add: recover_prepared_def io_bind_def attempt_def on_store_def ignoring_def)
    moreover note guard_recovery_keeps [OF x good(1)]
    ultimately show ?thesis using g good(2) lease True by (auto simp: recovery_done_def others_kept_def)
  next
    case False
    then have "out = Inr Busy \<and> s' = guard_abort g s1 \<and> w' = w"
      using run q by (auto simp: recover_prepared_def io_bind_def attempt_def on_store_def dropping_def)
    moreover have "journal_good (guard_abort g s1) \<and> find_intent (guard_abort g s1) = find_intent s"
      using good by (simp add: guard_abort_def journal_good_def find_intent_def fun_eq_iff)
    ultimately show ?thesis using g by (auto simp: recovery_done_def others_kept_def)
  qed
qed

lemma recover_applied_done:
  assumes run: "recover_applied X g (s, w) = (out, (s', w'))" and s: "journal_good s"
    and g: "find_intent s (ri_id g) = Some g" "active (ri_status g)" "ri_status g \<noteq> Prepared"
  shows "\<exists>o'. out = Inr o' \<and> journal_good s' \<and> others_kept (ri_id g) s s' \<and> recovery_done X g w o' s' w'"
proof -
  obtain q m where q: "try_begin_inflight X (ri_adapter g) (s, w) = (q, m)" by (rule prod.exhaust)
  then obtain s1 where s1: "m = (s1, w)" "same_journal s s1" using same_journal_reserve [OF q] by blast
  have good: "journal_good s1" "find_intent s1 = find_intent s" using same_journal_good [OF s1(2) s] same_journal_find [OF s1(2)] by simp_all
  show ?thesis
  proof (cases "\<exists>k. q = Inr (Some k)")
    case False
    then have "out = Inr Busy \<and> s' = guard_abort g s1 \<and> w' = w"
      using run q s1(1) by (auto simp: recover_applied_def io_bind_def attempt_def dropping_def split: sum.split_asm option.split_asm)
    moreover have "journal_good (guard_abort g s1) \<and> find_intent (guard_abort g s1) = find_intent s"
      using good by (simp add: guard_abort_def journal_good_def find_intent_def fun_eq_iff)
    ultimately show ?thesis using g by (auto simp: recovery_done_def others_kept_def)
  next
    case True
    then obtain k where k: "q = Inr (Some k)" by blast
    obtain v w1 where v: "ttl_rollback X g w = (v, w1)" by (rule prod.exhaust)
    obtain y s2 where y: "end_firewall_inflight_operation k s1 = (y, s2)" by (rule prod.exhaust)
    have s2: "same_journal s1 s2" using y by (rule same_journal_release_slot)
    have good2: "journal_good s2" "find_intent s2 = find_intent s"
      using same_journal_good [OF s2 good(1)] same_journal_find [OF s2] good(2) by simp_all
    have gs: "find_intent s2 (ri_id g) = Some g" using good2(2) g(1) by simp
    show ?thesis
    proof (cases v)
      case (Inl e)
      obtain x s3 where x: "guard_recovery_required g s2 = (x, s3)" by (rule prod.exhaust)
      have "out = Inr ManualReview \<and> s' = s3 \<and> w' = w1"
        using run q s1(1) k v y Inl x
        by (simp add: recover_applied_def io_bind_def attempt_def on_store_def on_world_def ignoring_def)
      then show ?thesis using guard_recovery_keeps [OF x good2(1) gs g(2)] g(3) v good2(2)
        by (auto simp: recovery_done_def others_kept_def)
    next
      case (Inr u)
      obtain x s3 where x: "guard_resolve_rollback g s2 = (x, s3)" by (rule prod.exhaust)
      have "out = Inr (case x of Inl _ \<Rightarrow> ManualReview | Inr _ \<Rightarrow> Restored) \<and> s' = s3 \<and> w' = w1"
        using run q s1(1) k v y Inr x
        by (simp add: recover_applied_def io_bind_def attempt_def on_store_def on_world_def ignoring_def)
      then show ?thesis using resolve_rollback_keeps [OF x good2(1) gs g(2)] g v good2(2) Inr
        by (cases x) (auto simp: recovery_done_def others_kept_def)
    qed
  qed
qed

lemma recover_generation:
  assumes run: "recover_firewall_rule_generation X i (s, w) = (out, (s', w'))" and s: "journal_good s"
  shows "journal_good s' \<and> others_kept i s s' \<and>
    (case find_intent s i of
       Some r \<Rightarrow> (if active (ri_status r) then recovery_done X r w out s' w'
         else find_intent s' i = Some r \<and> w' = w \<and> out \<in> {Resolved, Busy})
     | None \<Rightarrow> find_intent s' i = None \<and> w' = w \<and> out = Busy) \<and>
    (\<forall>r. find_intent s i = Some r \<and> ri_status r = Prepared \<and>
       list_ex (\<lambda>l. le_execution l = ri_execution r \<and> le_status l = LActive \<and> le_expires l > st_now s) (st_leases s)
       \<longrightarrow> out = Busy)"
proof -
  obtain q s1 where q: "acquire_firewall_rule_guard i s = (q, s1)" by (rule prod.exhaust)
  have env: "st_leases s1 = st_leases s \<and> st_now s1 = st_now s" 
    using q next_outcome_simps [of s] by (cases "next_outcome s") (auto simp: acquire_firewall_rule_guard_def split: if_split_asm option.split_asm)
  from q show ?thesis
  proof (cases rule: acquire_cases)
    case refused
    have good: "journal_good s1" "find_intent s1 = find_intent s"
      using refused s find_intent_cong [of s1 s] journal_good_cong [of s1 s] by simp_all
    obtain y s2 where y: "firewall_rule_intent i s1 = (y, s2)" by (rule prod.exhaust)
    have s2: "same_journal s1 s2" using y unfolding firewall_rule_intent_def by (rule same_journal_query)
    have good2: "journal_good s2" "find_intent s2 = find_intent s"
      using same_journal_good [OF s2 good(1)] same_journal_find [OF s2] good(2) by simp_all
    have ry: "p = find_intent s i" if "y = Inr p" for p
      using transaction_Inr [OF y [unfolded firewall_rule_intent_def query_def that]] good(2) find_intent_cong [of "snd (next_outcome s1)" s1]
      by simp
    have "out = (case (q, y) of
        (Inr None, Inr (Some p)) \<Rightarrow> if ri_status p = RolledBack \<or> ri_status p = NotApplied then Resolved else Busy | _ \<Rightarrow> Busy)
      \<and> (s' = s1 \<or> s' = s2) \<and> w' = w"
      using run q refused(1) y
      by (auto simp: recover_firewall_rule_generation_def returning_def io_bind_def attempt_def on_store_def
          split: sum.split_asm option.split_asm)
    then have o: "out = Busy \<or> (\<exists>p. find_intent s i = Some p \<and> out = Resolved \<and> \<not> active (ri_status p))"
      and w: "w' = w" and s': "journal_good s'" "find_intent s' = find_intent s"
      using good good2 ry by (auto simp: active_def split: sum.split_asm option.split_asm if_split_asm)
    have id: "ri_id r = i" if "find_intent s i = Some r" for r using find_intent_Some [OF that] by simp
    show ?thesis using o w s' id
      by (cases "find_intent s i") (auto simp: recovery_done_def others_kept_def active_def)
  next
    case (granted g)
    have good: "journal_good s1" "find_intent s1 = find_intent s"
      using granted s find_intent_cong [of s1 s] journal_good_cong [of s1 s] by simp_all
    have id: "ri_id g = i" using find_intent_Some granted(2) by blast
    have gs: "find_intent s1 (ri_id g) = Some g" using granted(2) good(2) id by simp
    have others: "others_kept i s s' \<longleftrightarrow> others_kept i s1 s'" using good(2) by (simp add: others_kept_def)
    show ?thesis
    proof (cases "ri_status g = Prepared")
      case True
      obtain z m where z: "recover_prepared g (s1, w) = (z, m)" by (rule prod.exhaust)
      obtain s2 w2 where m: "m = (s2, w2)" by (rule prod.exhaust)
      note d = recover_prepared_done [OF z [unfolded m] good(1) gs granted(3) True]
      then obtain o' where o': "z = Inr o'" by blast
      have "out = o' \<and> s' = s2 \<and> w' = w2" using run q granted(1) True z m o'
        by (simp add: recover_firewall_rule_generation_def returning_def io_bind_def attempt_def on_store_def)
      then show ?thesis using d o' granted(2,3) others id env by auto
    next
      case False
      obtain z m where z: "recover_applied X g (s1, w) = (z, m)" by (rule prod.exhaust)
      obtain s2 w2 where m: "m = (s2, w2)" by (rule prod.exhaust)
      note d = recover_applied_done [OF z [unfolded m] good(1) gs granted(3) False]
      then obtain o' where o': "z = Inr o'" by blast
      have "out = o' \<and> s' = s2 \<and> w' = w2" using run q granted(1) False z m o'
        by (simp add: recover_firewall_rule_generation_def returning_def io_bind_def attempt_def on_store_def)
      then show ?thesis using d o' granted(2,3) others id False by auto
    qed
  qed
qed

section \<open>The sweep\<close>

text \<open>Leases and the clock are not the recovery's to change.\<close>

definition leases_at :: "lease_row list \<Rightarrow> int \<Rightarrow> store \<Rightarrow> bool" where
  "leases_at ls now s \<longleftrightarrow> st_leases s = ls \<and> st_now s = now"

lemma row_property_leases [simp]: "row_property (leases_at ls now)"
  by (simp add: row_property_def leases_at_def)

lemma keepsD: "keeps P m \<Longrightarrow> P w \<Longrightarrow> m w = (r, w') \<Longrightarrow> P w'"
  unfolding keeps_def by (metis snd_conv)

lemma keeps_on_store: "keeps P f \<Longrightarrow> keeps (\<lambda>(s, w). P s) (on_store f)"
  by (auto simp: keeps_def on_store_def split: prod.splits)

lemma keeps_on_world: "keeps (\<lambda>(s, w). P s) (on_world f)"
  by (auto simp: keeps_def on_world_def split: prod.splits)

lemma keeps_attempt: "keeps P f \<Longrightarrow> keeps P (attempt f)"
  by (simp add: keeps_def attempt_def case_prod_beta)

lemma keeps_returning:
  assumes "keeps P f" "P m"
  shows "P (snd (returning f m))"
proof -
  have "snd (returning f m) = snd (f m)" by (cases "f m"; cases "fst (f m)") (auto simp: returning_def)
  then show ?thesis using assms by (simp add: keeps_def)
qed

lemma keeps_ignoring: "keeps P f \<Longrightarrow> keeps P (ignoring f)"
  by (simp add: keeps_def ignoring_def case_prod_beta)

lemma keeps_sum: "(\<And>x. keeps P (f x)) \<Longrightarrow> (\<And>y. keeps P (g y)) \<Longrightarrow> keeps P (case v of Inl x \<Rightarrow> f x | Inr y \<Rightarrow> g y)"
  by (cases v) simp_all

lemma keeps_guard_commit:
  assumes "row_property P" "body_keeps P body" "\<And>i s. P s \<Longrightarrow> P (release i s)"
  shows "keeps P (guard_commit g body)"
  using keeps_transaction [OF assms(1,2)] assms(3) by (auto simp: keeps_def guard_commit_def split: prod.split)

lemma leases_release [simp]: "leases_at ls now (release i s) = leases_at ls now s"
  by (simp add: leases_at_def release_def)

lemma leases_bodies:
  "body_keeps (leases_at ls now) (guard_transition_body g st)"
  "body_keeps (leases_at ls now) (guard_rollback_body g)"
  by (auto simp: body_keeps_def guard_rollback_body_def guard_transition_body_def and_then_Inr_iff fresh_def insert_receipt_def
      set_status_def audit_def leases_at_def split: if_split_asm)

lemma leases_acquire: "keeps (leases_at ls now) (acquire_firewall_rule_guard i)"
  unfolding keeps_def acquire_firewall_rule_guard_def
proof (intro allI impI)
  fix s assume "leases_at ls now s"
  then show "leases_at ls now (snd (case next_outcome s of (outcome, s) \<Rightarrow>
        if outcome \<noteq> Db_Ok then (Inl db_error, s)
        else
          (case find_intent s i of
             Some r \<Rightarrow>
               if active (ri_status r) \<and> i \<notin> set (st_locked s)
               then (Inr (Some r), s\<lparr>st_locked := i # st_locked s\<rparr>)
               else (Inr None, s)
           | None \<Rightarrow> (Inr None, s))))"
    using next_outcome_simps [of s] by (cases "next_outcome s") (auto simp: leases_at_def split: option.split)
qed

lemma leases_reserve: "keeps (\<lambda>(s, w). leases_at ls now s) (try_begin_inflight X a)"
proof -
  have "keeps (leases_at ls now) (try_reserve_firewall_inflight a mx stale)" for mx stale
    unfolding try_reserve_firewall_inflight_def
    by (auto intro!: keeps_intros keeps_transaction simp: body_keeps_def add_slot_def fresh_def leases_at_def)
  then show ?thesis unfolding try_begin_inflight_def Let_def by (rule keeps_on_store)
qed

lemma leases_dropping: "keeps (\<lambda>(s, w). leases_at ls now s) (dropping g x)"
  by (auto simp: keeps_def dropping_def guard_abort_def)

lemma leases_recover:
  assumes "recover_firewall_rule_generation X i (s, w) = (out, (s', w'))" "leases_at ls now s"
  shows "leases_at ls now s'"
proof -
  let ?P = "\<lambda>(s :: store, w :: 'a). leases_at ls now s"
  have ops: "keeps (leases_at ls now) (guard_recovery_required g)" "keeps (leases_at ls now) (guard_resolve_rollback g)"
    "keeps (leases_at ls now) (end_firewall_inflight_operation k)" "keeps (leases_at ls now) (query f)" for g k and f :: "store \<Rightarrow> 'z"
    unfolding guard_recovery_required_def guard_transition_def guard_resolve_rollback_def end_firewall_inflight_operation_def
    by (auto intro!: keeps_guard_commit keeps_execute keeps_query leases_bodies) (auto simp: leases_at_def)
  have "keeps ?P (recover_prepared g)" "keeps ?P (recover_applied X g)" for g
    unfolding recover_prepared_def recover_applied_def execution_has_active_lease_def
    by (intro keeps_intros keeps_attempt keeps_ignoring keeps_on_store keeps_on_world keeps_sum ops leases_reserve leases_dropping)+
  then have "keeps ?P (io_bind (attempt (on_store (acquire_firewall_rule_guard i))) (\<lambda>acquired.
     case acquired of
       Inr (Some g) \<Rightarrow> (if ri_status g = Prepared then recover_prepared g else recover_applied X g)
     | Inr None \<Rightarrow>
         io_bind (attempt (on_store (firewall_rule_intent i))) (\<lambda>r.
         io_return (case r of
           Inr (Some q) \<Rightarrow> (if ri_status q = RolledBack \<or> ri_status q = NotApplied then Resolved else Busy)
         | _ \<Rightarrow> Busy))
     | Inl _ \<Rightarrow> io_return Busy))"
    unfolding firewall_rule_intent_def
    by (intro keeps_intros keeps_attempt keeps_on_store keeps_sum ops leases_acquire) auto
  from keeps_returning [OF this, of "(s, w)"] show ?thesis
    using assms by (simp add: recover_firewall_rule_generation_def)
qed

text \<open>What a sweep may have done to the generation \<open>r\<close>.\<close>

definition swept :: "'w executor_env \<Rightarrow> bool \<Rightarrow> rule_intent \<Rightarrow> rule_intent \<Rightarrow> bool" where
  "swept X leased r r' \<longleftrightarrow> r' = r \<or>
     active (ri_status r) \<and> \<not> (ri_status r = Prepared \<and> leased) \<and>
     (retained r r' \<or>
      r' = r\<lparr>ri_status := RolledBack\<rparr> \<and> ri_status r \<noteq> Prepared \<and> (\<exists>u u'. ttl_rollback X r u = (Inr (), u')))"

definition leased_now :: "lease_row list \<Rightarrow> int \<Rightarrow> rule_intent \<Rightarrow> bool" where
  "leased_now ls now r = list_ex (\<lambda>l. le_execution l = ri_execution r \<and> le_status l = LActive \<and> le_expires l > now) ls"

text \<open>The rollbacks of a sweep that begins in the world \<open>w\<close> and ends in \<open>w'\<close>, with the journal \<open>t\<close> as it leaves
  it: each row is passed over or its target rolled back in the world the rows before it left, and a row
  is given up only when that very rollback succeeded.\<close>

fun chained :: "'w executor_env \<Rightarrow> store \<Rightarrow> rule_intent list \<Rightarrow> 'w \<Rightarrow> 'w \<Rightarrow> bool" where
  "chained X t [] w w' \<longleftrightarrow> w' = w"
| "chained X t (r # rs) w w' \<longleftrightarrow>
     (\<exists>v. (v = w \<or> ri_status r = Completed \<and> v = snd (ttl_rollback X r w)) \<and>
        (map_option ri_status (find_intent t (ri_id r)) = Some RolledBack \<longrightarrow>
           ri_status r = Completed \<and> ttl_rollback X r w = (Inr (), v)) \<and>
        chained X t rs v w')"

lemma recover_chained:
  assumes run: "recover_firewall_rule_generation X (ri_id r) (s, w) = (out, (s', w'))" and s: "journal_good s"
    and r: "find_intent s (ri_id r) = Some r" "ri_status r = Prepared \<or> ri_status r = Completed"
  shows "(w' = w \<or> ri_status r = Completed \<and> w' = snd (ttl_rollback X r w)) \<and>
    (map_option ri_status (find_intent s' (ri_id r)) = Some RolledBack \<longrightarrow>
       ri_status r = Completed \<and> ttl_rollback X r w = (Inr (), w'))"
proof -
  have "active (ri_status r)" using r(2) by (auto simp: active_def)
  then have "recovery_done X r w out s' w'" using recover_generation [OF run s] r(1) by auto
  then show ?thesis using r(2) by (cases out) (auto simp: recovery_done_def retained_def active_def)
qed

lemma recover_swept:
  assumes run: "recover_firewall_rule_generation X (ri_id r) (s, w) = (out, (s', w'))" and s: "journal_good s" "leases_at ls now s"
    and r: "find_intent s (ri_id r) = Some r"
  shows "\<exists>r'. find_intent s' (ri_id r) = Some r' \<and> swept X (leased_now ls now r) r r'"
proof -
  have L: "leased_now ls now r = list_ex (\<lambda>l. le_execution l = ri_execution r \<and> le_status l = LActive \<and> le_expires l > st_now s) (st_leases s)"
    using s(2) by (simp add: leased_now_def leases_at_def)
  note d = recover_generation [OF run s(1)]
  show ?thesis
  proof (cases "active (ri_status r)")
    case False
    then show ?thesis using d r by (auto simp: swept_def)
  next
    case True
    then obtain r' where r': "find_intent s' (ri_id r) = Some r'" and c: "case out of
           Restored \<Rightarrow> r' = r\<lparr>ri_status := RolledBack\<rparr> \<and> ri_status r \<noteq> Prepared \<and> ttl_rollback X r w = (Inr (), w')
         | ManualReview \<Rightarrow> retained r r' \<and> w' = w \<and> ri_status r = Prepared \<or>
             retained r r' \<and> w' = snd (ttl_rollback X r w) \<and> ri_status r \<noteq> Prepared \<or>
             r' = r\<lparr>ri_status := RolledBack\<rparr> \<and> ri_status r \<noteq> Prepared \<and> ttl_rollback X r w = (Inr (), w')
         | Busy \<Rightarrow> r' = r \<and> w' = w
         | Resolved \<Rightarrow> False"
      using d r by (auto simp: recovery_done_def)
    have "ri_status r = Prepared \<and> leased_now ls now r \<longrightarrow> out = Busy" using d r L by auto
    then have "swept X (leased_now ls now r) r r'" using c True by (cases out) (auto simp: swept_def)
    then show ?thesis using r' by blast
  qed
qed

lemma recover_each_swept:
  assumes "recover_each X rs (s, w) = (s', w')" "journal_good s" "leases_at ls now s" "distinct (map ri_id rs)"
    and "\<forall>r \<in> set rs. find_intent s (ri_id r) = Some r"
  shows "journal_good s' \<and> leases_at ls now s' \<and> (\<forall>i. i \<notin> ri_id ` set rs \<longrightarrow> find_intent s' i = find_intent s i) \<and>
    (\<forall>r \<in> set rs. \<exists>r'. find_intent s' (ri_id r) = Some r' \<and> swept X (leased_now ls now r) r r' \<and>
       (ri_status r = RecoveryRequired \<longrightarrow> r' = r))"
  using assms
proof (induction rs arbitrary: s w)
  case (Cons a rs)
  show ?case
  proof (cases "ri_status a = RecoveryRequired")
    case True
    then have "recover_each X rs (s, w) = (s', w')" using Cons.prems(1) by simp
    note IH = Cons.IH [OF this Cons.prems(2,3)]
    have "find_intent s' (ri_id a) = Some a" using IH Cons.prems(4,5) by auto
    then show ?thesis using IH Cons.prems(4,5) True by (auto simp: swept_def)
  next
    case False
    obtain out m where run: "recover_firewall_rule_generation X (ri_id a) (s, w) = (out, m)" by (rule prod.exhaust)
    obtain s1 w1 where m: "m = (s1, w1)" by (rule prod.exhaust)
    have run: "recover_firewall_rule_generation X (ri_id a) (s, w) = (out, (s1, w1))" using run m by simp
    have a: "find_intent s (ri_id a) = Some a" using Cons.prems(5) by simp
    obtain a' where a': "find_intent s1 (ri_id a) = Some a'" "swept X (leased_now ls now a) a a'"
      using recover_swept [OF run Cons.prems(2,3) a] by blast
    have keep: "journal_good s1" "others_kept (ri_id a) s s1" using recover_generation [OF run Cons.prems(2)] by blast+
    have "recover_each X rs (s1, w1) = (s', w')" using Cons.prems(1) False run by simp
    moreover have "\<forall>r \<in> set rs. find_intent s1 (ri_id r) = Some r"
      using Cons.prems(4,5) keep(2) unfolding others_kept_def by (auto simp: image_iff)
    ultimately have IH: "journal_good s' \<and> leases_at ls now s' \<and> (\<forall>i. i \<notin> ri_id ` set rs \<longrightarrow> find_intent s' i = find_intent s1 i) \<and>
      (\<forall>r \<in> set rs. \<exists>r'. find_intent s' (ri_id r) = Some r' \<and> swept X (leased_now ls now r) r r' \<and>
         (ri_status r = RecoveryRequired \<longrightarrow> r' = r))"
      using Cons.IH [of s1 w1] keep(1) leases_recover [OF run Cons.prems(3)] Cons.prems(4) by simp
    then have "find_intent s' (ri_id a) = Some a'" using a'(1) Cons.prems(4) by simp
    then show ?thesis using IH a'(2) False keep(2) by (auto simp: others_kept_def)
  qed
qed simp

section \<open>A working database\<close>

text \<open>No transaction fails, no other worker holds a guard, and every adapter has a free slot.\<close>

definition slot_free :: "'w executor_env \<Rightarrow> store \<Rightarrow> string \<Rightarrow> bool" where
  "slot_free X s adapter \<longleftrightarrow>
     int (length (live_slots s adapter (firewall_inflight_stale_seconds (ae_env (xe_agent X)))))
       < firewall_max_concurrent_applies_per_adapter (ae_env (xe_agent X))"

definition undisturbed :: "'w executor_env \<Rightarrow> store \<Rightarrow> store \<Rightarrow> bool" where
  "undisturbed X s s' \<longleftrightarrow> st_outcomes s' = st_outcomes s \<and> st_locked s' = st_locked s \<and> st_now s' = st_now s \<and>
     st_leases s' = st_leases s \<and> (\<forall>a. slot_free X s a \<longrightarrow> slot_free X s' a)"

lemma undisturbed_trans: "undisturbed X s t \<Longrightarrow> undisturbed X t u \<Longrightarrow> undisturbed X s u"
  by (simp add: undisturbed_def)

lemma undisturbed_cong:
  "st_outcomes s' = st_outcomes s \<Longrightarrow> st_locked s' = st_locked s \<Longrightarrow> st_now s' = st_now s \<Longrightarrow>
   st_leases s' = st_leases s \<Longrightarrow> st_inflight s' = st_inflight s \<Longrightarrow> undisturbed X s s'"
  by (simp add: undisturbed_def slot_free_def live_slots_def)

lemma set_status_working:
  assumes "distinct (map ri_id (st_intents s))" "g \<in> set (st_intents s)" "generation_transition (ri_status g) new"
  shows "set_status (ri_id g) new s = Inr (s\<lparr>st_intents := update_row (ri_id g) new (st_intents s)\<rparr>)"
proof -
  have "r = g" if "r \<in> set (st_intents s)" "ri_id r = ri_id g" for r
    using assms(1,2) that by (auto simp: distinct_map inj_on_def)
  then show ?thesis using assms(3) by (auto simp: set_status_def update_row_def list_all_iff)
qed

lemma guard_transition_working:
  assumes "st_outcomes s = []" "journal_good s" "find_intent s (ri_id g) = Some g" "generation_transition (ri_status g) new"
  shows "\<exists>s'. guard_transition g new s = (Inr (), s') \<and> st_intents s' = update_row (ri_id g) new (st_intents s) \<and>
    undisturbed X (release (ri_id g) s) s'"
proof -
  have "distinct (map ri_id (st_intents s))" "g \<in> set (st_intents s)"
    using assms(2) find_intent_Some [OF assms(3)] by (simp_all add: journal_good_def journal_ok_def)
  then show ?thesis using assms(4)
    by (simp add: guard_transition_def guard_commit_def transaction_quiet [OF assms(1)] guard_transition_body_def
        set_status_working audit_def release_def undisturbed_cong)
qed

lemma guard_rollback_working:
  assumes "st_outcomes s = []" "journal_good s" "find_intent s (ri_id g) = Some g" "ri_status g = Completed"
  shows "\<exists>s'. guard_resolve_rollback g s = (Inr (), s') \<and> st_intents s' = update_row (ri_id g) RolledBack (st_intents s) \<and>
    undisturbed X (release (ri_id g) s) s'"
proof -
  have mem: "distinct (map ri_id (st_intents s))" "g \<in> set (st_intents s)"
    using assms(2) find_intent_Some [OF assms(3)] by (simp_all add: journal_good_def journal_ok_def)
  have "intent_receipts (st_receipts s) (ri_id g) ''rollback'' = []"
    using journal_good_row(3) [OF assms(2,3)] assms(4) by (simp add: row_ok_def)
  then have "\<not> list_ex (\<lambda>q. rr_intent q = Some (ri_id g) \<and> rr_kind q = ''rollback'') (st_receipts s)"
    by (simp add: intent_receipts_def filter_empty_conv list_ex_iff)
  then have rc: "insert_receipt (generation_receipt g k n ''rollback'' c ob ve) u =
      Inr (u\<lparr>st_receipts := st_receipts u @ [generation_receipt g k n ''rollback'' c ob ve]\<rparr>)"
    if "st_receipts u = st_receipts s" for u k n c ob ve
    using that by (simp add: insert_receipt_def generation_receipt_def)
  have "set_status (ri_id g) RolledBack u = Inr (u\<lparr>st_intents := update_row (ri_id g) RolledBack (st_intents u)\<rparr>)"
    if "st_intents u = st_intents s" for u
    using set_status_working [of u g RolledBack] mem assms(4) that by (simp add: generation_transition_def)
  then show ?thesis
    by (simp add: guard_resolve_rollback_def guard_commit_def transaction_quiet [OF assms(1)] guard_rollback_body_def
        fresh_def rc guard_transition_body_def audit_def release_def undisturbed_cong)
qed

lemma find_after_update:
  assumes "journal_good s" "find_intent s (ri_id g) = Some g" "st_intents s' = update_row (ri_id g) new (st_intents s)"
  shows "find_intent s' (ri_id g) = Some (g\<lparr>ri_status := new\<rparr>)"
  using find_update_row [of "st_intents s" g "ri_id g" new] assms find_intent_Some [OF assms(2)]
  by (simp add: find_intent_def journal_good_def journal_ok_def)

lemma reserve_working:
  assumes "st_outcomes s = []" "slot_free X s a"
  shows "\<exists>k s1. try_begin_inflight X a (s, w) = (Inr (Some k), (s1, w)) \<and>
    (\<exists>s2. end_firewall_inflight_operation k s1 = (Inr (), s2) \<and> undisturbed X s s2 \<and> same_journal s s2)"
proof -
  let ?max = "firewall_max_concurrent_applies_per_adapter (ae_env (xe_agent X))"
  let ?stale = "firewall_inflight_stale_seconds (ae_env (xe_agent X))"
  have pos: "0 < ?max" "0 < ?stale"
    by (auto simp: firewall_max_concurrent_applies_per_adapter_def firewall_inflight_stale_seconds_def positive_i64_def
        DEFAULT_FIREWALL_MAX_CONCURRENT_APPLIES_PER_ADAPTER_def DEFAULT_FIREWALL_INFLIGHT_STALE_SECONDS_def split: option.split)
  let ?s1 = "snd (add_slot a s)"
  let ?s2 = "?s1\<lparr>st_inflight := filter (\<lambda>r. if_id r \<noteq> st_next s) (st_inflight s)\<rparr>"
  have r: "try_begin_inflight X a (s, w) = (Inr (Some (st_next s)), (?s1, w))"
    using pos assms
    by (simp add: try_begin_inflight_def Let_def on_store_def try_reserve_firewall_inflight_def transaction_quiet slot_free_def
        add_slot_def fresh_def not_le)
  have e: "end_firewall_inflight_operation (st_next s) ?s1 = (Inr (), ?s2)"
    using assms(1) by (simp add: end_firewall_inflight_operation_def execute_def transaction_quiet add_slot_def fresh_def)
  have len: "length (live_slots ?s2 b d) \<le> length (live_slots s b d)" for b d
  proof -
    let ?P = "\<lambda>r. if_adapter r = b \<and> if_started r > st_now s - d"
    have "live_slots ?s2 b d = filter ?P (filter (\<lambda>r. if_id r \<noteq> st_next s) (st_inflight s))"
      by (simp add: live_slots_def add_slot_def fresh_def del: filter_filter)
    also have "\<dots> = filter (\<lambda>r. if_id r \<noteq> st_next s) (live_slots s b d)" by (simp add: live_slots_def conj_ac)
    finally show ?thesis by (simp only: length_filter_le)
  qed
  have "slot_free X ?s2 b" if "slot_free X s b" for b
    using that len [of b ?stale] unfolding slot_free_def by linarith
  then have "undisturbed X s ?s2" by (simp add: undisturbed_def add_slot_def fresh_def)
  moreover have "same_journal s ?s2" by (simp add: same_journal_def add_slot_def fresh_def)
  ultimately show ?thesis using r e by blast
qed

text \<open>The turn of one due generation, in the world it meets: its new status and the world it leaves.\<close>

definition sweep_turn :: "'w executor_env \<Rightarrow> store \<Rightarrow> rule_intent \<Rightarrow> 'w \<Rightarrow> generation_status \<times> 'w" where
  "sweep_turn X s r w =
     (if ri_status r = Prepared
      then (if list_ex (\<lambda>l. le_execution l = ri_execution r \<and> le_status l = LActive \<and> le_expires l > st_now s) (st_leases s)
            then Prepared else RecoveryRequired, w)
      else case ttl_rollback X r w of (Inr _, v) \<Rightarrow> (RolledBack, v) | (Inl _, v) \<Rightarrow> (RecoveryRequired, v))"

fun sweep_turns :: "'w executor_env \<Rightarrow> store \<Rightarrow> rule_intent list \<Rightarrow> 'w \<Rightarrow> generation_status list \<times> 'w" where
  "sweep_turns X s [] w = ([], w)"
| "sweep_turns X s (r # rs) w =
     (case sweep_turn X s r w of (st, v) \<Rightarrow> case sweep_turns X s rs v of (sts, u) \<Rightarrow> (st # sts, u))"

lemma sweep_turn_cong: "st_now t = st_now s \<Longrightarrow> st_leases t = st_leases s \<Longrightarrow> sweep_turn X t = sweep_turn X s"
  by (simp add: sweep_turn_def fun_eq_iff)

lemma sweep_turns_cong:
  "st_now t = st_now s \<Longrightarrow> st_leases t = st_leases s \<Longrightarrow> sweep_turns X t rs w = sweep_turns X s rs w"
  by (induction rs arbitrary: w) (simp_all add: sweep_turn_cong [of t s] split: prod.split)

lemma recover_working:
  assumes s: "st_outcomes s = []" "st_locked s = []" "journal_good s"
    and r: "find_intent s (ri_id r) = Some r" "ri_status r = Prepared \<or> ri_status r = Completed" "slot_free X s (ri_adapter r)"
  shows "\<exists>out s' w'. recover_firewall_rule_generation X (ri_id r) (s, w) = (out, (s', w')) \<and> undisturbed X s s' \<and>
    sweep_turn X s r w = (ri_status (the (find_intent s' (ri_id r))), w')"
proof -
  let ?t = "s\<lparr>st_locked := [ri_id r]\<rparr>"
  have acq: "acquire_firewall_rule_guard (ri_id r) s = (Inr (Some r), ?t)"
    using s r(1,2) by (auto simp: acquire_firewall_rule_guard_def next_outcome_def active_def)
  have t: "st_outcomes ?t = []" "journal_good ?t" "find_intent ?t (ri_id r) = Some r" "slot_free X ?t (ri_adapter r)"
    using s(1,3) r(1,3) by (simp_all add: journal_good_def find_intent_def slot_free_def live_slots_def)
  have rel: "undisturbed X s (release (ri_id r) u)" if "undisturbed X ?t u" for u
    using that s(2) by (auto simp: undisturbed_def release_def slot_free_def live_slots_def)
  show ?thesis
  proof (cases "ri_status r = Prepared")
    case True
    let ?l = "list_ex (\<lambda>l. le_execution l = ri_execution r \<and> le_status l = LActive \<and> le_expires l > st_now s) (st_leases s)"
    have q: "execution_has_active_lease (ri_execution r) ?t = (Inr ?l, ?t)"
      using t(1) by (simp add: execution_has_active_lease_def query_quiet)
    show ?thesis
    proof (cases ?l)
      case l: True
      have "recover_firewall_rule_generation X (ri_id r) (s, w) = (Busy, (release (ri_id r) ?t, w))"
        using acq True q l by (simp add: recover_firewall_rule_generation_def returning_def io_bind_def attempt_def on_store_def
            recover_prepared_def dropping_def guard_abort_def)
      moreover have "undisturbed X s (release (ri_id r) ?t)" by (rule rel) (simp add: undisturbed_cong)
      moreover have "find_intent (release (ri_id r) ?t) (ri_id r) = Some r"
        using r(1) by (simp add: release_def find_intent_def)
      ultimately show ?thesis using True l by (simp add: sweep_turn_def)
    next
      case l: False
      have "generation_transition (ri_status r) RecoveryRequired" using True by (simp add: generation_transition_def)
      then obtain v where v: "guard_transition r RecoveryRequired ?t = (Inr (), v)"
        "st_intents v = update_row (ri_id r) RecoveryRequired (st_intents ?t)" "undisturbed X (release (ri_id r) ?t) v"
        using guard_transition_working [OF t(1-3)] by blast
      have "recover_firewall_rule_generation X (ri_id r) (s, w) = (ManualReview, (v, w))"
        using acq True q l v(1) by (simp add: recover_firewall_rule_generation_def returning_def io_bind_def attempt_def on_store_def
            recover_prepared_def ignoring_def guard_recovery_required_def io_return_def)
      moreover have "undisturbed X s v" using undisturbed_trans [OF rel v(3)] by (simp add: undisturbed_cong)
      moreover have "find_intent v (ri_id r) = Some (r\<lparr>ri_status := RecoveryRequired\<rparr>)"
        using find_after_update [OF t(2,3) v(2)] .
      ultimately show ?thesis using True l by (simp add: sweep_turn_def)
    qed
  next
    case False
    then have c: "ri_status r = Completed" using r(2) by simp
    obtain k s1 s2 where k: "try_begin_inflight X (ri_adapter r) (?t, w) = (Inr (Some k), (s1, w))"
      "end_firewall_inflight_operation k s1 = (Inr (), s2)" "undisturbed X ?t s2" "same_journal ?t s2"
      using reserve_working [OF t(1,4)] by blast
    have u: "st_outcomes s2 = []" "journal_good s2" "find_intent s2 (ri_id r) = Some r"
      using k(3,4) t same_journal_good [OF k(4) t(2)] same_journal_find [OF k(4)] by (simp_all add: undisturbed_def)
    obtain res w1 where res: "ttl_rollback X r w = (res, w1)" by (rule prod.exhaust)
    show ?thesis
    proof (cases res)
      case (Inl e)
      have "generation_transition (ri_status r) RecoveryRequired" using c by (simp add: generation_transition_def)
      then obtain v where v: "guard_transition r RecoveryRequired s2 = (Inr (), v)"
        "st_intents v = update_row (ri_id r) RecoveryRequired (st_intents s2)" "undisturbed X (release (ri_id r) s2) v"
        using guard_transition_working [OF u] by blast
      have "recover_firewall_rule_generation X (ri_id r) (s, w) = (ManualReview, (v, w1))"
        using acq c k(1,2) res Inl v(1) by (simp add: recover_firewall_rule_generation_def returning_def io_bind_def attempt_def
            on_store_def on_world_def recover_applied_def ignoring_def guard_recovery_required_def io_return_def)
      moreover have "undisturbed X s v" using undisturbed_trans [OF rel [OF k(3)] v(3)] .
      moreover have "find_intent v (ri_id r) = Some (r\<lparr>ri_status := RecoveryRequired\<rparr>)"
        using find_after_update [OF u(2,3) v(2)] .
      ultimately show ?thesis using c res Inl by (simp add: sweep_turn_def)
    next
      case (Inr y)
      obtain v where v: "guard_resolve_rollback r s2 = (Inr (), v)"
        "st_intents v = update_row (ri_id r) RolledBack (st_intents s2)" "undisturbed X (release (ri_id r) s2) v"
        using guard_rollback_working [OF u c] by blast
      have "recover_firewall_rule_generation X (ri_id r) (s, w) = (Restored, (v, w1))"
        using acq c k(1,2) res Inr v(1) by (simp add: recover_firewall_rule_generation_def returning_def io_bind_def attempt_def
            on_store_def on_world_def recover_applied_def ignoring_def io_return_def)
      moreover have "undisturbed X s v" using undisturbed_trans [OF rel [OF k(3)] v(3)] .
      moreover have "find_intent v (ri_id r) = Some (r\<lparr>ri_status := RolledBack\<rparr>)"
        using find_after_update [OF u(2,3) v(2)] .
      ultimately show ?thesis using c res Inr by (simp add: sweep_turn_def)
    qed
  qed
qed

lemma recover_each_working:
  assumes "recover_each X rs (s, w) = (s', w')" "journal_good s" "st_outcomes s = []" "st_locked s = []"
    and "distinct (map ri_id rs)"
    and "\<forall>r \<in> set rs. find_intent s (ri_id r) = Some r \<and> (ri_status r = Prepared \<or> ri_status r = Completed) \<and>
      slot_free X s (ri_adapter r)"
  shows "sweep_turns X s rs w = (map (\<lambda>r. ri_status (the (find_intent s' (ri_id r)))) rs, w')"
  using assms
proof (induction rs arbitrary: s w)
  case (Cons a rs)
  obtain out s1 w1 where run: "recover_firewall_rule_generation X (ri_id a) (s, w) = (out, (s1, w1))"
    and u: "undisturbed X s s1" and turn: "sweep_turn X s a w = (ri_status (the (find_intent s1 (ri_id a))), w1)"
    using recover_working [OF Cons.prems(3,4,2), of a X w] Cons.prems(6) by auto
  have keep: "journal_good s1" "others_kept (ri_id a) s s1" using recover_generation [OF run Cons.prems(2)] by blast+
  have "ri_status a \<noteq> RecoveryRequired" using Cons.prems(6) by auto
  then have rest: "recover_each X rs (s1, w1) = (s', w')" using Cons.prems(1) run by simp
  have cur: "\<forall>r \<in> set rs. find_intent s1 (ri_id r) = Some r \<and> (ri_status r = Prepared \<or> ri_status r = Completed) \<and>
      slot_free X s1 (ri_adapter r)"
    using Cons.prems(5,6) keep(2) u unfolding others_kept_def undisturbed_def by (auto simp: image_iff)
  have cur': "\<forall>r \<in> set rs. find_intent s1 (ri_id r) = Some r" "distinct (map ri_id rs)" using cur Cons.prems(5) by auto
  have IH: "sweep_turns X s1 rs w1 = (map (\<lambda>r. ri_status (the (find_intent s' (ri_id r)))) rs, w')"
    using Cons.IH [OF rest keep(1) _ _ cur'(2) cur] u Cons.prems(3,4) by (simp add: undisturbed_def)
  have "leases_at (st_leases s1) (st_now s1) s1" by (simp add: leases_at_def)
  then have "find_intent s' (ri_id a) = find_intent s1 (ri_id a)"
    using recover_each_swept [OF rest keep(1) _ cur'(2,1)] Cons.prems(5) by auto
  moreover have "sweep_turns X s rs w1 = sweep_turns X s1 rs w1"
    using u by (intro sweep_turns_cong) (simp_all add: undisturbed_def)
  ultimately show ?case using turn IH by simp
qed simp

lemma recover_each_chained:
  assumes "recover_each X rs (s, w) = (s', w')" "journal_good s" "distinct (map ri_id rs)"
    and "\<forall>r \<in> set rs. find_intent s (ri_id r) = Some r \<and> (ri_status r = Prepared \<or> ri_status r = Completed)"
  shows "chained X s' rs w w'"
  using assms
proof (induction rs arbitrary: s w)
  case (Cons a rs)
  obtain out m where run: "recover_firewall_rule_generation X (ri_id a) (s, w) = (out, m)" by (rule prod.exhaust)
  obtain s1 w1 where m: "m = (s1, w1)" by (rule prod.exhaust)
  have a: "find_intent s (ri_id a) = Some a" "ri_status a = Prepared \<or> ri_status a = Completed" using Cons.prems(4) by simp_all
  have keep: "journal_good s1" "others_kept (ri_id a) s s1"
    using recover_generation [OF run [unfolded m] Cons.prems(2)] by blast+
  have rest: "recover_each X rs (s1, w1) = (s', w')" using Cons.prems(1) a(2) run m by auto
  have cur: "\<forall>r \<in> set rs. find_intent s1 (ri_id r) = Some r \<and> (ri_status r = Prepared \<or> ri_status r = Completed)"
    using Cons.prems(3,4) keep(2) unfolding others_kept_def by (auto simp: image_iff)
  then have cur': "\<forall>r \<in> set rs. find_intent s1 (ri_id r) = Some r" by simp
  have d: "distinct (map ri_id rs)" "ri_id a \<notin> ri_id ` set rs" using Cons.prems(3) by simp_all
  have "chained X s' rs w1 w'" by (rule Cons.IH [OF rest keep(1) d(1) cur])
  moreover have "leases_at (st_leases s1) (st_now s1) s1" by (simp add: leases_at_def)
  then have "find_intent s' (ri_id a) = find_intent s1 (ri_id a)"
    using recover_each_swept [OF rest keep(1) _ d(1) cur'] d(2) by blast
  ultimately show ?case
    using recover_chained [OF run [unfolded m] Cons.prems(2) a] by (intro chained.simps(2) [THEN iffD2] exI [of _ w1]) simp
qed simp

text \<open>The generations a sweep is due to look at: the first hundred prepared or expired completed ones.\<close>

definition due_rows :: "store \<Rightarrow> rule_intent list" where
  "due_rows s = take 100 (filter (\<lambda>r. ri_status r = Prepared \<or> (ri_status r = Completed \<and> ri_expires r \<le> st_now s)) (st_intents s))"

lemma due_row:
  "r \<in> set (due_rows s) \<Longrightarrow> r \<in> set (st_intents s) \<and> (ri_status r = Prepared \<or> ri_status r = Completed \<and> ri_expires r \<le> st_now s)"
  by (auto simp: due_rows_def dest!: in_set_takeD)

lemma recoverable_query: "recoverable_firewall_rule_intents = query due_rows"
  by (simp add: recoverable_firewall_rule_intents_def due_rows_def [abs_def])

text \<open>The rows the sweep went through: none when they could not be read.\<close>

lemma sweep_runs:
  assumes run: "sweep_firewall_rule_generations X (s, w) = (s', w')" and good: "journal_good s"
  obtains rs s1 where "rs = [] \<or> rs = due_rows s" "recover_each X rs (s1, w) = (s', w')" "journal_good s1"
    "find_intent s1 = find_intent s" "leases_at (st_leases s) (st_now s) s1" "distinct (map ri_id rs)"
    "\<forall>r \<in> set rs. find_intent s1 (ri_id r) = Some r"
    "st_outcomes s = [] \<Longrightarrow> rs = due_rows s \<and> s1 = s"
proof -
  have d: "distinct (map ri_id (st_intents s))" using good by (simp add: journal_good_def journal_ok_def)
  obtain q s1 where q: "query due_rows s = (q, s1)" by (rule prod.exhaust)
  have s1: "same_journal s s1" using q by (rule same_journal_query)
  have good1: "journal_good s1" "find_intent s1 = find_intent s" using same_journal_good [OF s1 good] same_journal_find [OF s1] by simp_all
  have ls: "leases_at (st_leases s) (st_now s) s1"
    using keepsD [OF keeps_query [OF row_property_leases] _ q] by (simp add: leases_at_def)
  have dr: "distinct (map ri_id (due_rows s))"
    unfolding due_rows_def take_map [symmetric] by (rule distinct_take) (rule distinct_map_filter [OF d])
  have cur: "\<forall>r \<in> set (due_rows s). find_intent s1 (ri_id r) = Some r"
    using due_row d find_intent_row good1(2) by metis
  show thesis
  proof (cases q)
    case (Inl e)
    then have "recover_each X [] (s1, w) = (s', w')"
      using run q by (simp add: sweep_firewall_rule_generations_def on_store_def recoverable_query)
    moreover have "st_outcomes s \<noteq> []" using q Inl query_quiet [of s due_rows] by auto
    ultimately show thesis using that [of "[]" s1] good1 ls by simp
  next
    case (Inr rs)
    have "due_rows (snd (next_outcome s)) = due_rows s" by (simp add: due_rows_def)
    then have rs: "rs = due_rows s" using transaction_Inr [OF q [unfolded query_def Inr]] by simp
    have "recover_each X rs (s1, w) = (s', w')"
      using run q Inr by (simp add: sweep_firewall_rule_generations_def on_store_def recoverable_query)
    moreover have "s1 = s" if "st_outcomes s = []" using q query_quiet [OF that, of due_rows] by simp
    ultimately show thesis using that [of rs s1] good1 ls dr cur rs by blast
  qed
qed

lemma sweep_rows:
  assumes run: "sweep_firewall_rule_generations X (s, w) = (s', w')" and good: "journal_good s"
  shows "journal_good s' \<and>
    (\<exists>rs. (rs = [] \<or> rs = due_rows s) \<and> chained X s' rs w w' \<and>
       (\<forall>i r. find_intent s i = Some r \<longrightarrow>
          (\<exists>r'. find_intent s' i = Some r' \<and> swept X (leased_now (st_leases s) (st_now s) r) r r' \<and> (r \<notin> set rs \<longrightarrow> r' = r))))"
  using sweep_runs [OF run good]
proof cases
  case (1 rs s1)
  note E = recover_each_swept [OF 1(2,3,5,6,7)]
  have st: "\<forall>r \<in> set rs. find_intent s1 (ri_id r) = Some r \<and> (ri_status r = Prepared \<or> ri_status r = Completed)"
    using 1(1,7) due_row by fastforce
  have "\<exists>r'. find_intent s' i = Some r' \<and> swept X (leased_now (st_leases s) (st_now s) r) r r' \<and> (r \<notin> set rs \<longrightarrow> r' = r)"
    if r: "find_intent s i = Some r" for i r
  proof (cases "r \<in> set rs")
    case True
    then show ?thesis using E find_intent_Some [OF r] by auto
  next
    case False
    have "i \<notin> ri_id ` set rs"
    proof
      assume "i \<in> ri_id ` set rs"
      then obtain q where "q \<in> set rs" "i = ri_id q" by blast
      then show False using 1(4,7) r False by auto
    qed
    then have "find_intent s' i = Some r" using E 1(4) r by simp
    then show ?thesis by (simp add: swept_def)
  qed
  then show ?thesis using E recover_each_chained [OF 1(2,3,6) st] 1(1) by blast
qed

lemma sweep_works:
  assumes run: "sweep_firewall_rule_generations X (s, w) = (s', w')" and good: "journal_good s"
    and s: "st_outcomes s = []" "st_locked s = []" "\<forall>r \<in> set (due_rows s). slot_free X s (ri_adapter r)"
  shows "sweep_turns X s (due_rows s) w = (map (\<lambda>r. ri_status (the (find_intent s' (ri_id r)))) (due_rows s), w')"
  using sweep_runs [OF run good]
proof cases
  case (1 rs s1)
  have eq: "rs = due_rows s" "s1 = s" using 1(8) [OF s(1)] by simp_all
  have st: "\<forall>r \<in> set (due_rows s). find_intent s (ri_id r) = Some r \<and> (ri_status r = Prepared \<or> ri_status r = Completed) \<and>
      slot_free X s (ri_adapter r)"
    using 1(7) eq s(3) due_row by auto
  show ?thesis
    by (rule recover_each_working [OF 1(2) [unfolded eq] good s(1,2) 1(6) [unfolded eq] st])
qed

text \<open>C6 The sweep over the durable generations, with its adapters' rollbacks.

  Whatever transactions fail on the way: the journal stays consistent; only the first hundred prepared or
  expired completed generations are looked at, one after the other, and every other row stays exactly as
  it is; a row is given up only when it was completed and expired and the rollback of its recorded target,
  run in the world the rows before it left, succeeded; a row that was active otherwise stays active, with at most its status
  changed, and a prepared one whose execution still holds a lease, one already waiting for an operator
  and an unexpired one do not change at all.

  With a working database, no guard held elsewhere and a free slot for every adapter of a due generation,
  the sweep does exactly this for each of them, in order: a prepared generation is left alone when its
  execution holds a lease and handed to an operator when it does not; an expired one has its target
  rolled back, and is \<open>RolledBack\<close> when that succeeds and handed to an operator when it fails.  The world
  afterwards is the one those rollbacks leave.\<close>

theorem rule_sweep_safe:
  assumes "sweep_firewall_rule_generations X (s, w) = (s', w')"
    and "journal_ok (st_intents s) (st_receipts s) (st_next s)"
    and "find_intent s i = Some r"
  shows "journal_ok (st_intents s') (st_receipts s') (st_next s') \<and>
    (\<exists>rs. (rs = [] \<or> rs = due_rows s) \<and> chained X s' rs w w' \<and>
      (\<exists>r'. find_intent s' i = Some r' \<and> r' = r\<lparr>ri_status := ri_status r'\<rparr> \<and> (r \<notin> set rs \<longrightarrow> r' = r) \<and>
         (ri_status r' = RolledBack \<and> ri_status r \<noteq> RolledBack \<longrightarrow> ri_status r = Completed \<and> ri_expires r \<le> st_now s) \<and>
         (active (ri_status r) \<longrightarrow> active (ri_status r') \<or> ri_status r' = RolledBack) \<and>
         (\<not> active (ri_status r) \<or> ri_status r = RecoveryRequired \<or> ri_status r = Completed \<and> st_now s < ri_expires r \<or>
          ri_status r = Prepared \<and> list_ex (\<lambda>l. le_execution l = ri_execution r \<and> le_status l = LActive \<and> le_expires l > st_now s)
            (st_leases s) \<longrightarrow> r' = r))) \<and>
    (st_outcomes s = [] \<and> st_locked s = [] \<and> (\<forall>q \<in> set (due_rows s). slot_free X s (ri_adapter q)) \<longrightarrow>
      sweep_turns X s (due_rows s) w = (map (\<lambda>q. ri_status (the (find_intent s' (ri_id q)))) (due_rows s), w'))"
proof -
  have good: "journal_good s" using assms(2) by (simp add: journal_good_def)
  obtain rs r' where rs: "journal_good s'" "rs = [] \<or> rs = due_rows s" "chained X s' rs w w'"
    and r': "find_intent s' i = Some r'" "swept X (leased_now (st_leases s) (st_now s) r) r r'" "r \<notin> set rs \<longrightarrow> r' = r"
    using sweep_rows [OF assms(1) good] assms(3) by blast
  have due: "r' = r \<or> ri_status r = Prepared \<or> ri_status r = Completed \<and> ri_expires r \<le> st_now s"
    using r'(3) rs(2) due_row by auto
  have eq: "r' = r\<lparr>ri_status := ri_status r'\<rparr>" using r'(2) by (auto simp: swept_def retained_def)
  have over: "ri_status r = Completed \<and> ri_expires r \<le> st_now s" if "ri_status r' = RolledBack" "ri_status r \<noteq> RolledBack"
  proof -
    have "r' \<noteq> r" "\<not> retained r r'" using that by (auto simp: retained_def active_def)
    then show ?thesis using due r'(2) by (auto simp: swept_def)
  qed
  have held: "active (ri_status r') \<or> ri_status r' = RolledBack" if "active (ri_status r)"
    using r'(2) that by (auto simp: swept_def retained_def)
  have still: "r' = r" if "\<not> active (ri_status r) \<or> ri_status r = RecoveryRequired \<or> ri_status r = Completed \<and> st_now s < ri_expires r \<or>
      ri_status r = Prepared \<and> leased_now (st_leases s) (st_now s) r"
    using that due r'(2) by (elim disjE) (auto simp: swept_def)
  have row: "\<exists>r'. find_intent s' i = Some r' \<and> r' = r\<lparr>ri_status := ri_status r'\<rparr> \<and> (r \<notin> set rs \<longrightarrow> r' = r) \<and>
         (ri_status r' = RolledBack \<and> ri_status r \<noteq> RolledBack \<longrightarrow> ri_status r = Completed \<and> ri_expires r \<le> st_now s) \<and>
         (active (ri_status r) \<longrightarrow> active (ri_status r') \<or> ri_status r' = RolledBack) \<and>
         (\<not> active (ri_status r) \<or> ri_status r = RecoveryRequired \<or> ri_status r = Completed \<and> st_now s < ri_expires r \<or>
          ri_status r = Prepared \<and> leased_now (st_leases s) (st_now s) r \<longrightarrow> r' = r)"
    by (rule exI [of _ r']) (use r'(1,3) eq over held still in blast)
  show ?thesis
    by (intro conjI impI exI [of _ rs] rs(2,3) row [unfolded leased_now_def] sweep_works [OF assms(1) good])
      (use rs(1) in \<open>auto simp: journal_good_def\<close>)
qed

section \<open>Witness\<close>

definition example_executor :: "bool executor_env" where
  "example_executor = \<lparr> xe_agent = live_agent, xe_json_len = (\<lambda>_. 2), xe_send = (\<lambda>_ w. (Inl [], w)),
     xe_decoders = \<lparr> parse_token = (\<lambda>_. Inl []), parse_device = (\<lambda>_. Inl []) \<rparr>,
     xe_tailscale = tailscale_new (Inr None) (Inr None) None None,
     xe_docker_env = \<lparr> dk_spawn = (\<lambda>_ w. (Timed_Out, w)), dk_parse_json = (\<lambda>_. None) \<rparr>, xe_docker = docker_new None,
     xe_px_env = \<lparr> send = (\<lambda>_ w. (Inl [], w)), url_parse = (\<lambda>_. None), url_extend = (\<lambda>_ _. None), polls = 0 \<rparr>,
     xe_proxmox = \<lparr> px_creds = Inl [], px_never_quarantine = Inr [], px_http = Inl [] \<rparr> \<rparr>"

definition expired_rule :: rule_intent where
  "expired_rule = example_rule\<lparr>ri_status := Completed, ri_expires := 900, ri_target_json :=
     recovery_to_json \<lparr> scope = ''nftables'', rt_target = ThreatIntelIndicator ''203.0.113.7'' ''feed'' \<rparr>\<rparr>"

definition expired_store :: store where
  "expired_store = example_store\<lparr>st_next := 2, st_intents := [expired_rule],
     st_receipts := [generation_receipt expired_rule 1 600 ''apply'' (JArr []) None (Some ''verified'')]\<rparr>"

lemma rule_sweep_safe_witness:
  "\<exists>s' r'. sweep_firewall_rule_generations example_executor (expired_store, True) = (s', False) \<and>
     find_intent s' 0 = Some r' \<and> ri_status r' = RolledBack \<and>
     sweep_turns example_executor expired_store [expired_rule] True = ([RolledBack], False)"
proof -
  have j: "journal_ok (st_intents expired_store) (st_receipts expired_store) (st_next expired_store)"
    by (simp add: expired_store_def journal_ok_def row_ok_def intent_receipts_def expired_rule_def example_rule_def
        generation_receipt_def example_store_def)
  have i: "find_intent expired_store 0 = Some expired_rule"
    by (simp add: expired_store_def find_intent_def expired_rule_def example_rule_def)
  have due: "due_rows expired_store = [expired_rule]" "ri_id expired_rule = 0"
    by (simp_all add: due_rows_def expired_store_def expired_rule_def example_store_def example_rule_def)
  have quiet: "st_outcomes expired_store = []" "st_locked expired_store = []"
    by (simp_all add: expired_store_def example_store_def)
  have free: "slot_free example_executor expired_store (ri_adapter expired_rule)" by code_simp
  have run: "case sweep_firewall_rule_generations example_executor (expired_store, True) of
      (s', w') \<Rightarrow> \<not> w' \<and> map_option ri_status (find_intent s' 0) = Some RolledBack"
    by code_simp
  obtain s' w' where sw: "sweep_firewall_rule_generations example_executor (expired_store, True) = (s', w')"
    by (rule prod.exhaust)
  then obtain r' where r': "\<not> w'" "find_intent s' 0 = Some r'" "ri_status r' = RolledBack" using run by auto
  have "sweep_turns example_executor expired_store [expired_rule] True = ([RolledBack], w')"
    using rule_sweep_safe [OF sw j i] quiet free due r' by simp
  then show ?thesis using sw r' by auto
qed

end
