(* ===== verification/Quarantine_Runtime.thy ===== *)
theory Quarantine_Runtime
  imports Recovery
begin

text \<open>
  Native quarantine in the executor (\<^verbatim>\<open>executor/src/quarantine_runtime.rs\<close> and the three dispatch functions
  of \<^verbatim>\<open>main.rs\<close>): recovery of one generation from its committed snapshot, the sweep over them, the dispatch
  of a claimed quarantine request, its reconciliation by an operator, and the write-ahead apply behind the
  closed gate.
\<close>

section \<open>Guards that go out of scope\<close>

text \<open>An early return with \<^verbatim>\<open>?\<close> while a guard is held drops it: its transaction is rolled back.\<close>

definition holding :: "quarantine_guard \<Rightarrow> (store \<times> 'w, 'e, 'a) io \<Rightarrow> (store \<times> 'w, 'e, 'a) io" where
  "holding g f m = (case f m of (Inl e, (s, w)) \<Rightarrow> (Inl e, (q_abort g s, w)) | (Inr x, m') \<Rightarrow> (Inr x, m'))"

definition q_dropping :: "quarantine_guard \<Rightarrow> 'a \<Rightarrow> (store \<times> 'w, 'e, 'a) io" where
  "q_dropping g x m = (case m of (s, w) \<Rightarrow> (Inr x, (q_abort g s, w)))"

section \<open>Recovery of one generation\<close>

definition vm_fingerprint :: "string \<Rightarrow> 32 word \<Rightarrow> string" where
  "vm_fingerprint n v = n @ ''/'' @ show_nat (unat v)"

definition restore_target :: "quarantine_row \<Rightarrow> msg + json" where
  "restore_target q =
     and_then (validate_context (qi_action_name q) (qi_target_json q) True) (\<lambda>ctx.
     and_then
       (case qc_target ctx of
          QDocker i \<Rightarrow> Inr (''docker'', i, ''networks'')
        | QProxmox n v \<Rightarrow> Inr (''proxmox'', vm_fingerprint n v, ''original_net0'')
        | QTailscale _ \<Rightarrow> Inl [Lit ''Tailscale exact reversible snapshot and policy evidence require manual review'']) (\<lambda>(adapter, fingerprint, field).
     if adapter \<noteq> qi_adapter q \<or> fingerprint \<noteq> qi_fingerprint q
     then Inl [Lit ''quarantine generation identity mismatch'']
     else
       and_then (ok_or [Lit ''quarantine restore snapshot missing''] (jget (qi_plan q) field)) (\<lambda>snapshot.
       and_then (ok_or [Lit ''invalid quarantine target''] (as_object (qi_target_json q))) (\<lambda>object.
       Inr (JObj (obj_insert field snapshot object))))))"

text \<open>The restore itself, under the in-flight limit of the adapter, with the guard held.\<close>

definition restore_rollback :: "'w executor_env \<Rightarrow> quarantine_row \<Rightarrow> json \<Rightarrow> ('w, msg, unit) io" where
  "restore_rollback X q t =
     rollback_target X (qi_adapter q) t (''quarantine generation '' @ uuid_text (qi_id q) @ '' rollback'')"

definition restore_generation ::
  "'w executor_env \<Rightarrow> quarantine_guard \<Rightarrow> json \<Rightarrow> (store \<times> 'w, msg, recovery_outcome) io" where
  "restore_generation X g t =
     io_bind (attempt (try_begin_inflight X (qi_adapter (qg_row g)))) (\<lambda>slot.
     case slot of
       Inl _ \<Rightarrow> holding g (io_fail [Lit ''quarantine recovery concurrency lease unavailable''])
     | Inr None \<Rightarrow> q_dropping g Busy
     | Inr (Some k) \<Rightarrow>
         io_bind (attempt (on_world (restore_rollback X (qg_row g) t))) (\<lambda>result.
         io_bind (ignoring (on_store (end_firewall_inflight_operation k))) (\<lambda>_.
         case result of
           Inl _ \<Rightarrow> io_bind (on_store (q_recovery_required g)) (\<lambda>_. io_return ManualReview)
         | Inr _ \<Rightarrow> io_bind (on_store (q_resolve_rollback g)) (\<lambda>_. io_return Restored))))"

definition recover_quarantine :: "'w executor_env \<Rightarrow> uuid \<Rightarrow> (store \<times> 'w, msg, recovery_outcome) io" where
  "recover_quarantine X i =
     io_bind (on_store (acquire_quarantine_guard i)) (\<lambda>acquired.
     case acquired of
       None \<Rightarrow>
         io_bind (on_store (quarantine_intent i)) (\<lambda>r.
         case r of
           Some q \<Rightarrow> io_return (if qi_status q = RolledBack \<or> qi_status q = NotApplied then Resolved else Busy)
         | None \<Rightarrow> io_fail [Lit ''quarantine generation not found''])
     | Some g \<Rightarrow>
         if qi_status (qg_row g) \<noteq> Completed then
           (if qi_status (qg_row g) = Prepared
            then io_bind (on_store (q_recovery_required g)) (\<lambda>_. io_return ManualReview)
            else q_dropping g ManualReview)
         else case restore_target (qg_row g) of
           Inl _ \<Rightarrow> io_bind (on_store (q_recovery_required g)) (\<lambda>_. io_return ManualReview)
         | Inr t \<Rightarrow> restore_generation X g t)"

fun recover_quarantines :: "'w executor_env \<Rightarrow> quarantine_row list \<Rightarrow> store \<times> 'w \<Rightarrow> store \<times> 'w" where
  "recover_quarantines X [] m = m"
| "recover_quarantines X (q # qs) m =
     (if qi_status q = RecoveryRequired then recover_quarantines X qs m
      else recover_quarantines X qs (snd (recover_quarantine X (qi_id q) m)))"

definition sweep_quarantines :: "'w executor_env \<Rightarrow> store \<times> 'w \<Rightarrow> store \<times> 'w" where
  "sweep_quarantines X m =
     (case on_store recoverable_quarantine_intents m of
        (Inl _, m') \<Rightarrow> m'
      | (Inr qs, m') \<Rightarrow> recover_quarantines X qs m')"

section \<open>Dispatch of a claimed quarantine request\<close>

text \<open>The text of a message without debug-printed parts, as the adapters' summaries are.\<close>

definition lit_text :: "msg \<Rightarrow> string" where
  "lit_text m = concat (map (\<lambda>f. case f of Lit s \<Rightarrow> s | Dbg s \<Rightarrow> s) m)"

definition request_dry_run :: "'w executor_env \<Rightarrow> claimed_request \<Rightarrow> bool" where
  "request_dry_run X c = dispatch_dry_run (ae_parse_json (xe_agent X)) (ae_env (xe_agent X)) c"

definition checked_context :: "'w executor_env \<Rightarrow> claimed_request \<Rightarrow> msg + quarantine_context" where
  "checked_context X c = checked_quarantine_context (ae_parse_json (xe_agent X)) (ae_env (xe_agent X)) c"

definition refused :: "msg \<Rightarrow> legacy_outcome" where
  "refused e = (False, None, Some e, [])"

text \<open>A preflight that fails is recorded as the empty object.\<close>

definition preflight_or_empty :: "('p \<Rightarrow> json) \<Rightarrow> 'e + 'p \<Rightarrow> json" where
  "preflight_or_empty f r = (case r of Inl _ \<Rightarrow> JObj [] | Inr p \<Rightarrow> f p)"

definition verification_word :: "'e + verification_result \<Rightarrow> string" where
  "verification_word r = (case r of Inr Verified \<Rightarrow> ''verified'' | Inr NotPresent \<Rightarrow> ''mismatch'' | Inl _ \<Rightarrow> ''failed'')"

definition verification_unless_dry :: "bool \<Rightarrow> ('w, 'e, verification_result) io \<Rightarrow> ('w, msg, string option) io" where
  "verification_unless_dry dry f =
     (if dry then io_return None else io_bind (attempt f) (\<lambda>r. io_return (Some (verification_word r))))"

definition verification_error :: "string option \<Rightarrow> msg option" where
  "verification_error v =
     (if v \<noteq> None \<and> v \<noteq> Some ''verified'' then Some [Lit ''quarantine verification failed; recovery required''] else None)"

definition legacy :: "('w, msg, legacy_outcome) io \<Rightarrow> 'w \<Rightarrow> legacy_outcome \<times> 'w" where
  "legacy f w = (case f w of (Inl e, w') \<Rightarrow> (refused e, w') | (Inr v, w') \<Rightarrow> (v, w'))"

definition tailscale_preflight_json :: "tailscale_preflight \<Rightarrow> json" where
  "tailscale_preflight_json p =
     JObj [(''already_quarantined'', JBool (already_quarantined p)), (''current_tags'', JArr (map JStr (current_tags p))),
           (''protected'', JBool (protected p)), (''rollback_requires_reauth'', JBool (rollback_requires_reauth p))]"

definition dispatch_tailscale :: "'w executor_env \<Rightarrow> claimed_request \<Rightarrow> 'w \<Rightarrow> legacy_outcome \<times> 'w" where
  "dispatch_tailscale X c = legacy (
     io_bind (io_lift (checked_context X c)) (\<lambda>ctx.
     case qc_target ctx of
       QTailscale d \<Rightarrow>
         (let a = \<lparr> ts_target = \<lparr> device_id = d \<rparr>, ts_reason = ''execution_request '' @ uuid_text (cl_id c) \<rparr>;
              dry = request_dry_run X c
          in
          io_bind (attempt (ts_preflight (xe_send X) (xe_decoders X) (xe_tailscale X) (ts_target a))) (\<lambda>pf.
          io_bind (io_map_err show_adapter_error (ts_apply (xe_send X) (xe_decoders X) (xe_tailscale X) a dry)) (\<lambda>applied.
          io_bind (verification_unless_dry dry (ts_verify (xe_send X) (xe_decoders X) (xe_tailscale X) (ts_target a))) (\<lambda>v.
          let ok = (dry \<or> v = Some ''verified'') in
          io_return (ok,
            Some [Lit (''adapter=tailscale dry_run='' @ show_bool (\<not> ts_applied applied) @ '' call=''), Dbg (described_call (ts_receipt applied))],
            if ok then None else Some [Lit ''quarantine verification failed; recovery required''],
            [\<lparr> dr_adapter = ts_adapter (ts_receipt applied), dr_preflight = preflight_or_empty tailscale_preflight_json pf,
               dr_commands = JArr [JStr (described_call (ts_receipt applied))], dr_observed = None, dr_verification = v,
               dr_ttl = qc_ttl_seconds ctx,
               dr_plan = JObj [(''note'', JStr ''removes the quarantine tag - may require device-side reauth if it is the device's only tag, see TailscaleAdapter::rollback'')],
               dr_dry_run = (\<not> ts_applied applied), dr_fingerprint = d \<rparr>])))))
     | _ \<Rightarrow> io_fail [Lit ''incorrect Tailscale target kind'']))"

definition proxmox_preflight_json :: "proxmox_preflight \<Rightarrow> json" where
  "proxmox_preflight_json p =
     JObj [(''currently_quarantined'', JBool (pp_currently_quarantined p)), (''net0'', JStr (pp_net0 p)), (''node'', JStr (pp_node p)),
           (''protected'', JBool (pp_protected p)), (''vmid'', JInt (uint (pp_vmid p)))]"

definition dispatch_proxmox :: "'w executor_env \<Rightarrow> claimed_request \<Rightarrow> 'w \<Rightarrow> legacy_outcome \<times> 'w" where
  "dispatch_proxmox X c = legacy (
     io_bind (io_lift (checked_context X c)) (\<lambda>ctx.
     case qc_target ctx of
       QProxmox n v' \<Rightarrow>
         (let t = Proxmox n v'; dry = request_dry_run X c in
          io_bind (attempt (proxmox_preflight_op (xe_px_env X) (xe_proxmox X) t)) (\<lambda>pf.
          io_bind (io_map_err show_adapter_error (proxmox_apply (xe_px_env X) (xe_proxmox X) t dry)) (\<lambda>applied.
          io_bind (verification_unless_dry dry (proxmox_verify (xe_px_env X) (xe_proxmox X) t)) (\<lambda>v.
          io_return (dry \<or> v = Some ''verified'',
            Some [Lit (''adapter=proxmox dry_run='' @ show_bool dry @ '' target='' @ vm_fingerprint n v')],
            verification_error v,
            [\<lparr> dr_adapter = ''proxmox'', dr_preflight = preflight_or_empty proxmox_preflight_json pf,
               dr_commands = JArr [JStr (lit_text (pa_summary applied))], dr_observed = None, dr_verification = v,
               dr_ttl = qc_ttl_seconds ctx,
               dr_plan = JObj [(''note'', JStr ''restore the exact original net0 using the current config digest''),
                               (''original_net0'', JStr (original_net0 applied))],
               dr_dry_run = dry, dr_fingerprint = vm_fingerprint n v' \<rparr>])))))
     | _ \<Rightarrow> io_fail [Lit ''incorrect Proxmox target kind'']))"

definition docker_preflight_json :: "docker_preflight \<Rightarrow> json" where
  "docker_preflight_json p =
     JObj [(''container_id'', JStr (dp_container_id p)), (''currently_quarantined'', JBool (currently_quarantined p)),
           (''networks'', networks_to_json (dp_networks p)), (''protected'', JBool (dp_protected p))]"

definition dispatch_docker :: "'w executor_env \<Rightarrow> claimed_request \<Rightarrow> 'w \<Rightarrow> legacy_outcome \<times> 'w" where
  "dispatch_docker X c = legacy (
     io_bind (io_lift (checked_context X c)) (\<lambda>ctx.
     case qc_target ctx of
       QDocker i \<Rightarrow>
         (let t = Docker i; dry = request_dry_run X c in
          io_bind (attempt (docker_preflight_op (xe_docker_env X) (xe_docker X) t)) (\<lambda>pf.
          io_bind (io_map_err show_adapter_error (docker_apply (xe_docker_env X) (xe_docker X) t dry)) (\<lambda>nets.
          io_bind (verification_unless_dry dry (docker_verify (xe_docker_env X) t)) (\<lambda>v.
          io_return (dry \<or> v = Some ''verified'',
            Some [Lit (''adapter=docker dry_run='' @ show_bool dry @ '' container='' @ i @ '' networks='' @ show_nat (length nets))],
            verification_error v,
            [\<lparr> dr_adapter = ''docker'', dr_preflight = preflight_or_empty docker_preflight_json pf,
               dr_commands = JArr (map (\<lambda>n. JStr (''docker network disconnect '' @ network_id n @ '' '' @ i)) nets),
               dr_observed = Some (JObj [(''disconnected_networks'', networks_to_json nets)]), dr_verification = v,
               dr_ttl = qc_ttl_seconds ctx,
               dr_plan = JObj [(''networks'', networks_to_json nets),
                 (''note'', JStr ''reconnect the container to disconnected_networks - see DockerAdapter::rollback'')],
               dr_dry_run = dry, dr_fingerprint = i \<rparr>])))))
     | _ \<Rightarrow> io_fail [Lit ''incorrect Docker target kind'']))"

definition on_world_value :: "('w \<Rightarrow> 'a \<times> 'w) \<Rightarrow> store \<times> 'w \<Rightarrow> 'a \<times> store \<times> 'w" where
  "on_world_value f m = (case m of (s, w) \<Rightarrow> case f w of (r, w') \<Rightarrow> (r, (s, w')))"

definition dispatch :: "'w executor_env \<Rightarrow> claimed_request \<Rightarrow> store \<times> 'w \<Rightarrow> legacy_outcome \<times> store \<times> 'w" where
  "dispatch X c m =
     (case try_dispatch_generic (xe_agent X) (xe_json_len X) True c m of
        (Some o', m') \<Rightarrow> (into_legacy o', m')
      | (None, m') \<Rightarrow>
          if cl_action_name c = TAILSCALE_ACTION_PREFIX then on_world_value (dispatch_tailscale X c) m'
          else if cl_action_name c = PROXMOX_QUARANTINE_ACTION then on_world_value (dispatch_proxmox X c) m'
          else if cl_action_name c = DOCKER_QUARANTINE_ACTION then on_world_value (dispatch_docker X c) m'
          else ((True, Some [Lit ''dry_run: no external operation executed''], None, []), m'))"

section \<open>The write-ahead apply\<close>

record native_plan =
  np_adapter :: string
  np_fingerprint :: string
  np_preflight :: json
  np_plan :: json
  np_target :: quarantine_target

definition native_preflight :: "'w executor_env \<Rightarrow> quarantine_identity \<Rightarrow> ('w, msg, native_plan) io" where
  "native_preflight X identity =
     (case identity of
        QDocker i \<Rightarrow>
          io_bind (io_map_err show_adapter_error (docker_preflight_op (xe_docker_env X) (xe_docker X) (Docker i))) (\<lambda>pf.
          if dp_protected pf \<or> currently_quarantined pf \<or> dp_networks pf = []
          then io_fail [Lit ''Docker preflight refused'']
          else io_return
            \<lparr> np_adapter = ''docker'', np_fingerprint = i,
              np_preflight = JObj [(''container_id'', JStr (dp_container_id pf)), (''currently_quarantined'', JBool False),
                (''networks'', networks_to_json (dp_networks pf)), (''protected'', JBool False)],
              np_plan = JObj [(''networks'', networks_to_json (dp_networks pf))], np_target = Docker i \<rparr>)
      | QProxmox n v \<Rightarrow>
          io_bind (io_map_err show_adapter_error (proxmox_preflight_op (xe_px_env X) (xe_proxmox X) (Proxmox n v))) (\<lambda>pf.
          if pp_protected pf \<or> pp_currently_quarantined pf
          then io_fail [Lit ''Proxmox preflight refused'']
          else io_return
            \<lparr> np_adapter = ''proxmox'', np_fingerprint = vm_fingerprint n v,
              np_preflight = JObj [(''currently_quarantined'', JBool False), (''net0'', JStr (pp_net0 pf)),
                (''node'', JStr (pp_node pf)), (''protected'', JBool False), (''vmid'', JInt (uint (pp_vmid pf)))],
              np_plan = JObj [(''original_net0'', JStr (pp_net0 pf))], np_target = Proxmox n v \<rparr>)
      | QTailscale _ \<Rightarrow> io_fail [Lit ''Tailscale reversible snapshot and policy proof unavailable''])"

definition docker_mutate :: "'w executor_env \<Rightarrow> native_plan \<Rightarrow> ('w, msg, json) io" where
  "docker_mutate X p =
     io_bind (io_lift (ok_or [Lit ''invalid network snapshot''] (networks_from_json (jindex (np_plan p) ''networks'')))) (\<lambda>nets.
     io_bind (io_map_err show_adapter_error (docker_apply_prepared (xe_docker_env X) (xe_docker X) (np_target p) nets)) (\<lambda>applied.
     io_bind (io_map_err show_adapter_error (docker_verify (xe_docker_env X) (np_target p))) (\<lambda>v.
     if v \<noteq> Verified then io_fail [Lit ''Docker verification failed'']
     else io_return (JObj [(''disconnected_networks'', networks_to_json applied)]))))"

definition proxmox_submit :: "'w executor_env \<Rightarrow> native_plan \<Rightarrow> ('w, msg, string) io" where
  "proxmox_submit X p =
     io_bind (io_lift (ok_or [Lit ''NIC snapshot missing''] (as_str (jindex (np_plan p) ''original_net0'')))) (\<lambda>original.
     io_bind (io_map_err show_adapter_error (proxmox_apply_prepared (xe_px_env X) (xe_proxmox X) (np_target p) original)) (\<lambda>(_, upid).
     io_return upid))"

definition proxmox_confirm :: "'w executor_env \<Rightarrow> native_plan \<Rightarrow> ('w, msg, json) io" where
  "proxmox_confirm X p =
     io_bind (io_map_err show_adapter_error (proxmox_verify (xe_px_env X) (xe_proxmox X) (np_target p))) (\<lambda>v.
     if v \<noteq> Verified then io_fail [Lit ''Proxmox verification failed''] else io_return (JObj [(''isolated'', JBool True)]))"

text \<open>The mutation under the guard: what it observed or the error, and the guard with the recorded task.\<close>

definition native_mutate ::
  "'w executor_env \<Rightarrow> native_plan \<Rightarrow> quarantine_guard \<Rightarrow> (store \<times> 'w, msg, quarantine_guard \<times> (msg + json)) io" where
  "native_mutate X p g =
     (if np_adapter p = ''docker'' then
        io_bind (attempt (on_world (docker_mutate X p))) (\<lambda>r. io_return (g, r))
      else
        io_bind (attempt (on_world (proxmox_submit X p))) (\<lambda>submitted.
        case submitted of
          Inl e \<Rightarrow> io_return (g, Inl e)
        | Inr upid \<Rightarrow>
            io_bind (if upid = [] then io_return (Inr g) else attempt (on_store (guard_set_upid upid g))) (\<lambda>recorded.
            case recorded of
              Inl e \<Rightarrow> io_return (g, Inl e)
            | Inr g' \<Rightarrow> io_bind (attempt (on_world (proxmox_confirm X p))) (\<lambda>r. io_return (g', r)))))"

definition native_receipt :: "claimed_request \<Rightarrow> native_plan \<Rightarrow> json \<Rightarrow> 32 word \<Rightarrow> json \<Rightarrow> receipt_input" where
  "native_receipt c p t ttl observed =
     \<lparr> in_execution = Some (cl_id c), in_adapter = np_adapter p, in_action_name = cl_action_name c,
       in_preflight = np_preflight p, in_commands = JArr [], in_observed = Some observed,
       in_verification = Some ''verified'', in_ttl = ttl, in_plan = np_plan p, in_dry_run = False,
       in_kind = ''apply'', in_fingerprint = Some (np_fingerprint p), in_target_json = Some t \<rparr>"

text \<open>The apply once its generation is guarded: \<open>clock\<close> is the executor's clock at that moment, \<open>observer\<close> the
  hook of the tests, which does nothing in production.\<close>

definition apply_under_guard ::
  "'w executor_env \<Rightarrow> int \<Rightarrow> (store \<times> 'w, msg, unit) io \<Rightarrow> native_plan \<Rightarrow> (json \<Rightarrow> receipt_input) \<Rightarrow> quarantine_guard \<Rightarrow>
   (store \<times> 'w, msg, unit) io" where
  "apply_under_guard X clock observer p receipt g = holding g (
     if qi_status (qg_row g) \<noteq> Prepared
     then io_fail [Lit ''prepared generation was already assigned to recovery; mutation refused'']
     else if qi_expires (qg_row g) \<le> clock
     then io_fail [Lit ''prepared generation expired before mutation; recovery required'']
     else
       io_bind (on_store (validate_approval_guard g)) (\<lambda>_.
       io_bind observer (\<lambda>_.
       io_bind (native_mutate X p g) (\<lambda>(g', outcome).
       case outcome of
         Inl _ \<Rightarrow>
           io_bind (on_store (q_recovery_required g')) (\<lambda>_.
           io_fail [Lit ''quarantine mutation or verification uncertain; recovery required''])
       | Inr observed \<Rightarrow>
           io_bind (on_store (q_finish g' (receipt observed))) (\<lambda>_. io_return ())))))"

definition apply_prepared_observed ::
  "'w executor_env \<Rightarrow> (json \<Rightarrow> string) \<Rightarrow> int \<Rightarrow> (uuid \<Rightarrow> (store \<times> 'w, msg, unit) io) \<Rightarrow> claimed_request \<Rightarrow>
   (store \<times> 'w, msg, unit) io" where
  "apply_prepared_observed X context_hash clock observer c =
     io_bind (io_lift (ok_or [Lit ''quarantine target missing''] (cl_target c))) (\<lambda>t.
     io_bind (io_lift (validate_context (cl_action_name c) t False)) (\<lambda>ctx.
     io_bind (on_world (native_preflight X (qc_target ctx))) (\<lambda>p.
     io_bind (on_store (prepare_quarantine_intent (xe_json_len X) context_hash (cl_id c) (np_adapter p) (np_fingerprint p) t
       (np_preflight p) (np_plan p) (qc_ttl_seconds ctx))) (\<lambda>i.
     io_bind (on_store (acquire_quarantine_guard i)) (\<lambda>acquired.
     case acquired of
       None \<Rightarrow> io_fail [Lit ''prepared generation busy'']
     | Some g \<Rightarrow> apply_under_guard X clock (observer i) p (native_receipt c p t (qc_ttl_seconds ctx)) g)))))"

definition apply_prepared ::
  "'w executor_env \<Rightarrow> (json \<Rightarrow> string) \<Rightarrow> int \<Rightarrow> claimed_request \<Rightarrow> (store \<times> 'w, msg, unit) io" where
  "apply_prepared X context_hash clock c = apply_prepared_observed X context_hash clock (\<lambda>_. io_return ()) c"

section \<open>Reconciliation by an operator\<close>

definition prove_remote_completion :: "'w executor_env \<Rightarrow> quarantine_row \<Rightarrow> ('w, msg, unit) io" where
  "prove_remote_completion X q =
     io_bind (io_lift (validate_context (qi_action_name q) (qi_target_json q) True)) (\<lambda>ctx.
     case qc_target ctx of
       QProxmox n v \<Rightarrow>
         io_bind (io_lift (ok_or [Lit ''no recorded Proxmox task UPID; remote completion cannot be proven''] (qi_upid q))) (\<lambda>upid.
         io_bind (io_map_err show_adapter_error (task_status (xe_px_env X) (xe_proxmox X) n v upid)) (\<lambda>completion.
         if completion = Running then io_fail [Lit ''Proxmox config task still running; completion not yet decided'']
         else io_return ()))
     | QDocker i \<Rightarrow>
         io_bind (io_map_err show_adapter_error (docker_preflight_op (xe_docker_env X) (xe_docker X) (Docker i))) (\<lambda>_. io_return ())
     | QTailscale _ \<Rightarrow> io_fail [Lit ''Tailscale reconciliation requires manual review''])"

definition reconcile_rollback :: "'w executor_env \<Rightarrow> quarantine_row \<Rightarrow> string \<Rightarrow> json \<Rightarrow> ('w, msg, unit) io" where
  "reconcile_rollback X q adapter restore =
     rollback_target X adapter restore (''operator reconcile of quarantine generation '' @ uuid_text (qi_id q))"

definition reconcile_under_guard ::
  "'w executor_env \<Rightarrow> claimed_request \<Rightarrow> json \<Rightarrow> quarantine_row \<Rightarrow> string \<Rightarrow> quarantine_guard \<Rightarrow> (store \<times> 'w, msg, unit) io" where
  "reconcile_under_guard X c t q adapter g = holding g (
     io_bind (on_store (validate_reconcile_approval g (cl_id c) (cl_action_name c) t)) (\<lambda>_.
     io_bind (on_world (prove_remote_completion X (qg_row g))) (\<lambda>_.
     io_bind (io_lift (restore_target (qg_row g))) (\<lambda>restore.
     io_bind (io_map_err (\<lambda>_. [Lit ''reconcile concurrency lease unavailable'']) (try_begin_inflight X adapter)) (\<lambda>slot.
     case slot of
       None \<Rightarrow> io_fail [Lit ''reconcile concurrency lease busy'']
     | Some k \<Rightarrow>
         io_bind (attempt (on_world (reconcile_rollback X q adapter restore))) (\<lambda>result.
         io_bind (ignoring (on_store (end_firewall_inflight_operation k))) (\<lambda>_.
         io_bind (io_lift result) (\<lambda>_.
         on_store (q_resolve_rollback g)))))))))"

definition reconcile :: "'w executor_env \<Rightarrow> claimed_request \<Rightarrow> (store \<times> 'w, msg, unit) io" where
  "reconcile X c =
     io_bind (io_lift (ok_or [Lit ''reconcile target missing''] (cl_target c))) (\<lambda>t.
     io_bind (io_lift (ok_or [Lit ''unrecognized reconcile action''] (from_reconcile_action_name (cl_action_name c)))) (\<lambda>kind.
     io_bind (io_lift (validate_context (quarantine_action_name kind) t False)) (\<lambda>ctx.
     io_bind (io_lift
       (case qc_target ctx of
          QDocker i \<Rightarrow> Inr (''docker'', i)
        | QProxmox n v \<Rightarrow> Inr (''proxmox'', vm_fingerprint n v)
        | QTailscale _ \<Rightarrow> Inl [Lit ''Tailscale reconciliation requires manual review''])) (\<lambda>(adapter, fingerprint).
     io_bind (on_store (active_quarantine_intent_for adapter fingerprint)) (\<lambda>found.
     io_bind (io_lift (ok_or [Lit ''no active quarantine generation for reconcile target''] found)) (\<lambda>q.
     io_bind (on_store (acquire_quarantine_guard (qi_id q))) (\<lambda>acquired.
     case acquired of
       None \<Rightarrow> io_fail [Lit ''quarantine generation busy'']
     | Some g \<Rightarrow> reconcile_under_guard X c t q adapter g)))))))"

section \<open>The production entry\<close>

definition gated :: "(store \<times> 'w, msg, unit) io \<Rightarrow> msg \<Rightarrow> msg \<Rightarrow> store \<times> 'w \<Rightarrow> legacy_outcome \<times> store \<times> 'w" where
  "gated f success failure m =
     (case io_bind (io_lift (ensure_live_dispatch_disabled False)) (\<lambda>_. f) m of
        (Inr _, m') \<Rightarrow> ((True, Some success, None, []), m')
      | (Inl _, m') \<Rightarrow> ((False, None, Some failure, []), m'))"

definition dispatch_quarantine ::
  "'w executor_env \<Rightarrow> (json \<Rightarrow> string) \<Rightarrow> int \<Rightarrow> claimed_request \<Rightarrow> store \<times> 'w \<Rightarrow> legacy_outcome \<times> store \<times> 'w" where
  "dispatch_quarantine X context_hash clock c m =
     (if from_reconcile_action_name (cl_action_name c) \<noteq> None then
        (if request_dry_run X c then dispatch X c m
         else gated (reconcile X c) [Lit ''verified operator quarantine reconciliation completed'']
                [Lit ''operator quarantine reconciliation refused or incomplete''] m)
      else if from_action_name (cl_action_name c) = None \<or> request_dry_run X c then dispatch X c m
      else gated (apply_prepared X context_hash clock c) [Lit ''verified native quarantine generation committed'']
             [Lit ''live quarantine refused or requires verified recovery''] m)"

section \<open>What a restore establishes\<close>

text \<open>The last thing read from the outside world was that the snapshot in the generation's plan is back in
  place on the target of the generation: for a container, every network of the snapshot is attached again with
  its addresses, aliases and options; for a machine, its network device has exactly the recorded value.\<close>

definition snapshot_restored :: "'w executor_env \<Rightarrow> quarantine_row \<Rightarrow> 'w \<Rightarrow> bool" where
  "snapshot_restored X q w \<longleftrightarrow>
     qi_adapter q = ''docker'' \<and>
       (\<exists>nets u now. Option.bind (jget (qi_plan q) ''networks'') networks_from_json = Some nets \<and>
          docker_networks (xe_docker_env X) (qi_fingerprint q) u = (Inr now, w) \<and>
          (\<forall>a \<in> set nets. \<exists>b \<in> set now. restored_by a b)) \<or>
     qi_adapter q = ''proxmox'' \<and>
       (\<exists>n v tk u nic. qi_fingerprint q = vm_fingerprint n v \<and> read_net0 (xe_px_env X) (xe_proxmox X) n v tk u = (Inr nic, w) \<and>
          get_str (qi_plan q) ''original_net0'' = Some (nic_net0 nic))"

lemma map_of_insert [simp]: "map_of (obj_insert k v kvs) j = (if j = k then Some v else map_of kvs j)"
  by (induction k v kvs rule: obj_insert.induct) auto

lemma context_identity:
  assumes "validate_context name t dry = Inr ctx"
  shows "case qc_target ctx of
      QDocker i \<Rightarrow> get_str t ''container_id'' = Some i
    | QProxmox n v \<Rightarrow> get_str t ''node'' = Some n \<and> (\<exists>k. Option.bind (jget t ''vmid'') as_u64 = Some k \<and> k < 2 ^ 32 \<and> v = of_nat k)
    | QTailscale d \<Rightarrow> get_str t ''device_id'' = Some d"
  using assms
  by (auto simp: validate_context_def and_then_Inr_iff bounded_string_def get_str_def bind_eq_Some_conv
      split: if_split_asm quarantine_kind.split_asm)

lemma restore_target_cases:
  assumes "restore_target q = Inr t"
  obtains (docker) "qi_adapter q = ''docker''" "get_str t ''container_id'' = Some (qi_fingerprint q)"
      "jget t ''networks'' = jget (qi_plan q) ''networks''"
  | (proxmox) n v k where "qi_adapter q = ''proxmox''" "qi_fingerprint q = vm_fingerprint n v" "get_str t ''node'' = Some n"
      "Option.bind (jget t ''vmid'') as_u64 = Some k" "v = of_nat k" "jget t ''original_net0'' = jget (qi_plan q) ''original_net0''"
proof -
  obtain ctx adapter fp field snap object where x:
    "validate_context (qi_action_name q) (qi_target_json q) True = Inr ctx"
    "(case qc_target ctx of
          QDocker i \<Rightarrow> Inr (''docker'', i, ''networks'')
        | QProxmox n v \<Rightarrow> Inr (''proxmox'', vm_fingerprint n v, ''original_net0'')
        | QTailscale _ \<Rightarrow> Inl [Lit ''Tailscale exact reversible snapshot and policy evidence require manual review''])
      = Inr (adapter, fp, field)"
    "adapter = qi_adapter q" "fp = qi_fingerprint q" "jget (qi_plan q) field = Some snap"
    "as_object (qi_target_json q) = Some object" "t = JObj (obj_insert field snap object)"
    using assms by (auto simp: restore_target_def and_then_Inr_iff split: if_split_asm)
  have t: "qi_target_json q = JObj object" using x(6) by (cases "qi_target_json q") auto
  have g: "jget t j = (if j = field then Some snap else jget (qi_target_json q) j)" for j
    by (simp add: x(7) t obj_get_def)
  note c = context_identity [OF x(1)]
  show ?thesis
  proof (cases "qc_target ctx")
    case (QDocker i)
    show ?thesis by (rule docker) (use QDocker x(2-5) c g in \<open>auto simp: get_str_def\<close>)
  next
    case (QProxmox n v)
    then obtain k where k: "Option.bind (jget (qi_target_json q) ''vmid'') as_u64 = Some k" "v = of_nat k" using c by auto
    show ?thesis by (rule proxmox [OF _ _ _ _ k(2)]) (use QProxmox x(2-5) c g k(1) in \<open>auto simp: get_str_def\<close>)
  next
    case (QTailscale d)
    then show ?thesis using x(2) by simp
  qed
qed

lemma rollback_target_restores:
  assumes t: "restore_target q = Inr t" and run: "rollback_target X (qi_adapter q) t why w = (Inr u, w')"
  shows "snapshot_restored X q w'"
  using t
proof (cases rule: restore_target_cases)
  case docker
  obtain nets where n: "Option.bind (jget (qi_plan q) ''networks'') networks_from_json = Some nets"
    and r: "docker_rollback (xe_docker_env X) (Docker (qi_fingerprint q)) nets w = (Inr (), w')"
    using run docker by (auto simp: rollback_target_def io_bind_Inr_iff)
  from docker_rollback_ok [OF r] show ?thesis using n docker(1) by (auto simp: snapshot_restored_def)
next
  case (proxmox n v k)
  obtain original where o': "get_str (qi_plan q) ''original_net0'' = Some original"
    and r: "proxmox_rollback (xe_px_env X) (xe_proxmox X) (Proxmox n v) original w = (Inr (), w')"
    using run proxmox by (auto simp: rollback_target_def io_bind_Inr_iff get_str_def split: if_split_asm)
  from proxmox_rollback_read [OF r] obtain tk u nic where
    "read_net0 (xe_px_env X) (xe_proxmox X) n v tk u = (Inr nic, w')" "nic_net0 nic = original" by auto
  then show ?thesis using o' proxmox(1,2) unfolding snapshot_restored_def by blast
qed

section \<open>What an operation does to the generations\<close>

lemma find_map_id:
  assumes "\<And>q. qi_id (f q) = qi_id q"
  shows "List.find (\<lambda>q. qi_id q = j) (map f qs) = map_option f (List.find (\<lambda>q. qi_id q = j) qs)"
  by (induction qs) (simp_all add: assms)

lemma find_quarantine_update:
  assumes "st_quarantines s' = update_rows qi_id k f (st_quarantines s)" "\<And>q. qi_id (f q) = qi_id q"
  shows "find_quarantine s' j = map_option (\<lambda>q. if j = k then f q else q) (find_quarantine s j)"
proof -
  have "find_quarantine s' j = map_option (\<lambda>q. if qi_id q = k then f q else q) (find_quarantine s j)"
    unfolding find_quarantine_def assms(1) update_rows_def by (rule find_map_id) (simp add: assms(2))
  moreover have "qi_id q = j" if "find_quarantine s j = Some q" for q
    using that by (auto simp: find_quarantine_def find_Some_iff)
  ultimately show ?thesis by (cases "find_quarantine s j") auto
qed

lemma find_quarantine_cong: "st_quarantines s' = st_quarantines s \<Longrightarrow> find_quarantine s' = find_quarantine s"
  by (simp add: find_quarantine_def fun_eq_iff)

lemma find_quarantine_id: "find_quarantine s i = Some q \<Longrightarrow> qi_id q = i \<and> q \<in> set (st_quarantines s)"
  by (auto simp: find_quarantine_def find_Some_iff)

text \<open>After an operation on the guard \<open>g\<close>: its row has the new status, if the operation took effect, and every
  other row is as it was.\<close>

definition q_result :: "quarantine_guard \<Rightarrow> generation_status \<Rightarrow> msg + 'a \<Rightarrow> store \<Rightarrow> store \<Rightarrow> bool" where
  "q_result g new r s s' \<longleftrightarrow>
     find_quarantine s' = find_quarantine s \<and> (\<exists>e. r = Inl e) \<or>
     find_quarantine s' = (find_quarantine s)(qi_id (qg_row g) := Some (q_updated g new (qg_row g)))"

lemma q_commit_result:
  assumes "q_commit g body s = (r, s')" "find_quarantine s (qi_id (qg_row g)) = Some (qg_row g)"
    and "\<And>u x v. body u = Inr (x, v) \<Longrightarrow>
      st_quarantines v = update_rows qi_id (qi_id (qg_row g)) (q_updated g new) (st_quarantines u)"
  shows "q_result g new r s s'"
proof -
  obtain r1 s1 where t: "transaction body s = (r1, s1)" by (rule prod.exhaust)
  then have rs: "r = r1" "find_quarantine s' = find_quarantine s1"
    using assms(1) by (auto simp: q_commit_def q_release_def intro!: find_quarantine_cong)
  from t show ?thesis
  proof (rule transaction_cases)
    fix u e assume "u = snd (next_outcome s)" "s1 = u" "r1 = Inl e"
    then show ?thesis using rs find_quarantine_cong [of s1 s] by (simp add: q_result_def)
  next
    fix u x assume u: "u = snd (next_outcome s)" "body u = Inr (x, s1)"
    then have "st_quarantines s1 = update_rows qi_id (qi_id (qg_row g)) (q_updated g new) (st_quarantines s)"
      using assms(3) [OF u(2)] by simp
    from find_quarantine_update [OF this] show ?thesis
      using assms(2) rs(2) by (auto simp: q_result_def fun_eq_iff option.map_ident)
  qed
qed

lemma q_set_status_rows:
  "q_set_status g new u = Inr v \<Longrightarrow>
     st_quarantines v = update_rows qi_id (qi_id (qg_row g)) (q_updated g new) (st_quarantines u)"
  by (auto simp: q_set_status_def update_rows_def split: if_split_asm)

lemma q_transition_result:
  assumes "q_transition g new s = (r, s')" "find_quarantine s (qi_id (qg_row g)) = Some (qg_row g)"
  shows "q_result g new r s s'"
  using assms unfolding q_transition_def
  by (rule q_commit_result) (auto simp: q_transition_body_def and_then_Inr_iff dest: q_set_status_rows)

lemma q_rollback_result:
  assumes "q_resolve_rollback g s = (r, s')" "find_quarantine s (qi_id (qg_row g)) = Some (qg_row g)"
  shows "q_result g RolledBack r s s'"
  using assms unfolding q_resolve_rollback_def
  by (rule q_commit_result)
    (auto simp: q_rollback_body_def q_transition_body_def fresh_def and_then_Inr_iff dest!: insert_receipt_frame q_set_status_rows)

lemma q_finish_result:
  assumes "q_finish g input s = (r, s')" "find_quarantine s (qi_id (qg_row g)) = Some (qg_row g)"
  shows "q_result g Completed r s s' \<and> (is_ok r \<longrightarrow> \<not> q_mismatched (qg_row g) input)"
proof (cases "q_mismatched (qg_row g) input")
  case True
  then show ?thesis using assms
    by (auto simp: q_finish_def q_result_def q_abort_def q_release_def intro!: find_quarantine_cong)
next
  case False
  then have "q_commit g (q_finish_body g input) s = (r, s')" using assms(1) by (simp add: q_finish_def)
  then have "q_result g Completed r s s'" using assms(2)
    by (rule q_commit_result)
      (auto simp: q_finish_body_def fresh_def and_then_Inr_iff dest!: insert_receipt_frame q_set_status_rows)
  then show ?thesis using False by simp
qed

section \<open>What a recovery does\<close>

definition quarantines_at :: "(uuid \<Rightarrow> quarantine_row option) \<Rightarrow> store \<Rightarrow> bool" where
  "quarantines_at F s \<longleftrightarrow> find_quarantine s = F"

lemma row_property_quarantines [simp]: "row_property (quarantines_at F)"
  by (simp add: row_property_def quarantines_at_def find_quarantine_def fun_eq_iff)

lemma quarantines_reserve:
  assumes "try_begin_inflight X a (s, w) = (r, (s', w'))"
  shows "find_quarantine s' = find_quarantine s \<and> w' = w"
proof -
  have "keeps (quarantines_at F) (try_reserve_firewall_inflight a mx stale)" for F mx stale
    unfolding try_reserve_firewall_inflight_def
    by (auto intro!: keeps_intros keeps_transaction
        simp: body_keeps_def add_slot_def fresh_def quarantines_at_def find_quarantine_def fun_eq_iff)
  then have "keeps (\<lambda>(s, v). quarantines_at (find_quarantine s0) s) (try_begin_inflight X a)" for s0 :: store
    unfolding try_begin_inflight_def Let_def by (rule keeps_on_store)
  from keepsD [OF this [of s] _ assms] have "find_quarantine s' = find_quarantine s" by (simp add: quarantines_at_def)
  then show ?thesis using assms by (auto simp: try_begin_inflight_def Let_def on_store_def split: prod.split_asm)
qed

lemma quarantines_release_slot: "end_firewall_inflight_operation k s = (r, s') \<Longrightarrow> find_quarantine s' = find_quarantine s"
  unfolding end_firewall_inflight_operation_def execute_def
  by (erule transaction_cases) (auto simp: find_quarantine_def fun_eq_iff)

lemma quarantines_query: "query f s = (r, s') \<Longrightarrow> find_quarantine s' = find_quarantine s \<and> (is_ok r \<longrightarrow> r = Inr (f (snd (next_outcome s))))"
  unfolding query_def by (erule transaction_cases) (auto simp: find_quarantine_def fun_eq_iff db_error_def)

lemma quarantines_abort [simp]: "find_quarantine (q_abort g s) = find_quarantine s"
  by (rule find_quarantine_cong) (simp add: q_abort_def q_release_def)

text \<open>The end of a recovery of the generation \<open>q\<close>: nothing happened; or the row moved to an operator, without a
  mutation for a generation that was only prepared; or the snapshot was restored.\<close>

definition quarantine_recovered ::
  "'w executor_env \<Rightarrow> quarantine_row \<Rightarrow> 'w \<Rightarrow> msg + recovery_outcome \<Rightarrow> store \<Rightarrow> store \<Rightarrow> 'w \<Rightarrow> bool" where
  "quarantine_recovered X q w r s s' w' \<longleftrightarrow>
     find_quarantine s' = find_quarantine s \<and> w' = w \<and> r \<noteq> Inr Restored \<and> (r = Inr Resolved \<longrightarrow> \<not> active (qi_status q)) \<or>
     find_quarantine s' = (find_quarantine s)(qi_id q \<mapsto> q\<lparr>qi_status := RecoveryRequired\<rparr>) \<and>
       (qi_status q = Prepared \<and> w' = w \<or> qi_status q = Completed) \<and> r \<noteq> Inr Restored \<and> r \<noteq> Inr Resolved \<or>
     find_quarantine s' = find_quarantine s \<and> qi_status q = Completed \<and> (\<exists>e. r = Inl e) \<or>
     find_quarantine s' = (find_quarantine s)(qi_id q \<mapsto> q\<lparr>qi_status := RolledBack\<rparr>) \<and> qi_status q = Completed \<and>
       (\<exists>t. restore_target q = Inr t \<and> restore_rollback X q t w = (Inr (), w')) \<and> r \<noteq> Inr Resolved"

lemma restore_generation_done:
  assumes run: "restore_generation X g t (s, w) = (r, (s', w'))" and g: "find_quarantine s (qi_id q) = Some q"
    "qg_row g = q" "qg_upid g = None" "qi_status q = Completed" "restore_target q = Inr t"
  shows "quarantine_recovered X q w r s s' w'"
proof -
  have upd: "q_updated g new q = q\<lparr>qi_status := new\<rparr>" for new by (simp add: q_updated_def g(3))
  obtain slot s1 w1 where slot: "try_begin_inflight X (qi_adapter q) (s, w) = (slot, (s1, w1))"
    by (cases "try_begin_inflight X (qi_adapter q) (s, w)") auto
  have s1: "find_quarantine s1 = find_quarantine s" "w1 = w" using quarantines_reserve [OF slot] by simp_all
  show ?thesis
  proof (cases "\<exists>k. slot = Inr (Some k)")
    case False
    then have "find_quarantine s' = find_quarantine s \<and> w' = w \<and> r \<noteq> Inr Restored \<and> r \<noteq> Inr Resolved"
      using run slot s1 g(2)
      by (auto simp: restore_generation_def io_bind_def attempt_def holding_def q_dropping_def io_fail_def
          split: sum.split_asm option.split_asm)
    then show ?thesis by (simp add: quarantine_recovered_def)
  next
    case True
    then obtain k where k: "slot = Inr (Some k)" by blast
    obtain v w2 where v: "restore_rollback X q t w = (v, w2)" by (rule prod.exhaust)
    obtain y s2 where y: "end_firewall_inflight_operation k s1 = (y, s2)" by (rule prod.exhaust)
    have s2: "find_quarantine s2 = find_quarantine s" using quarantines_release_slot [OF y] s1 by simp
    have gs: "find_quarantine s2 (qi_id (qg_row g)) = Some (qg_row g)" using g s2 by simp
    show ?thesis
    proof (cases v)
      case (Inl e)
      obtain x s3 where x: "q_recovery_required g s2 = (x, s3)" by (rule prod.exhaust)
      have "s' = s3 \<and> w' = w2 \<and> r = (case x of Inl e \<Rightarrow> Inl e | Inr _ \<Rightarrow> Inr ManualReview)"
        using run slot s1 k v y Inl x g(2)
        by (cases x) (simp_all add: restore_generation_def io_bind_def attempt_def ignoring_def on_store_def on_world_def io_return_def)
      moreover have "q_result g RecoveryRequired x s2 s3"
        using q_transition_result [OF x [unfolded q_recovery_required_def] gs] .
      ultimately show ?thesis using g(2,4) s2 upd
        by (cases x) (auto simp: quarantine_recovered_def q_result_def)
    next
      case (Inr u)
      obtain x s3 where x: "q_resolve_rollback g s2 = (x, s3)" by (rule prod.exhaust)
      have "s' = s3 \<and> w' = w2 \<and> r = (case x of Inl e \<Rightarrow> Inl e | Inr _ \<Rightarrow> Inr Restored)"
        using run slot s1 k v y Inr x g(2)
        by (cases x) (simp_all add: restore_generation_def io_bind_def attempt_def ignoring_def on_store_def on_world_def io_return_def)
      moreover note q_rollback_result [OF x gs]
      ultimately show ?thesis using g(2,4,5) s2 upd v Inr
        by (cases x) (auto simp: quarantine_recovered_def q_result_def)
    qed
  qed
qed

lemma recover_quarantine_done:
  assumes run: "recover_quarantine X i (s, w) = (r, (s', w'))"
  shows "case find_quarantine s i of
      None \<Rightarrow> find_quarantine s' = find_quarantine s \<and> w' = w \<and> (\<exists>e. r = Inl e)
    | Some q \<Rightarrow> quarantine_recovered X q w r s s' w'"
proof -
  obtain a s1 where a: "acquire_quarantine_guard i s = (a, s1)" by (rule prod.exhaust)
  from a show ?thesis
  proof (cases rule: acquire_quarantine_cases)
    case refused
    have s1: "find_quarantine s1 = find_quarantine s" using refused(2) by (rule find_quarantine_cong)
    obtain y s2 where y: "quarantine_intent i s1 = (y, s2)" by (rule prod.exhaust)
    have s2: "find_quarantine s2 = find_quarantine s" and ry: "is_ok y \<longrightarrow> y = Inr (find_quarantine s i)"
      using quarantines_query [OF y [unfolded quarantine_intent_def]] s1 find_quarantine_cong [of "snd (next_outcome s1)" s1]
      by simp_all
    have "w' = w \<and> find_quarantine s' = find_quarantine s \<and>
      ((\<exists>e. r = Inl e) \<or> (\<exists>q. find_quarantine s i = Some q \<and>
        r = Inr (if qi_status q = RolledBack \<or> qi_status q = NotApplied then Resolved else Busy)))"
      using run a refused(1) y s1 s2 ry
      by (auto simp: recover_quarantine_def io_bind_def on_store_def io_return_def io_fail_def
          split: sum.split_asm option.split_asm)
    moreover have "qi_status q = RolledBack \<or> qi_status q = NotApplied \<longleftrightarrow> \<not> active (qi_status q)" for q
      by (cases "qi_status q") (simp_all add: active_def)
    moreover have "r \<noteq> Inr Restored" if "r = Inr (if b then Resolved else Busy)" for b using that by (cases b) simp_all
    ultimately show ?thesis
      by (cases "find_quarantine s i") (auto simp: quarantine_recovered_def split: if_split_asm)
  next
    case (granted q)
    have s1: "find_quarantine s1 = find_quarantine s" using granted(5) by (rule find_quarantine_cong)
    have id: "qi_id q = i" using find_quarantine_id [OF granted(2)] by simp
    let ?g = "\<lparr> qg_row = q, qg_upid = None \<rparr>"
    have upd: "q_updated ?g new q = q\<lparr>qi_status := new\<rparr>" for new by (simp add: q_updated_def)
    have gs: "find_quarantine s1 (qi_id (qg_row ?g)) = Some (qg_row ?g)" using granted(2) s1 id by simp
    have review: "quarantine_recovered X q w r s s' w'"
      if "io_bind (on_store (q_recovery_required ?g)) (\<lambda>_. io_return ManualReview) (s1, w) = (r, (s', w'))"
        "qi_status q = Prepared \<or> qi_status q = Completed"
    proof -
      obtain x s3 where x: "q_recovery_required ?g s1 = (x, s3)" by (rule prod.exhaust)
      have "s' = s3 \<and> w' = w \<and> r = (case x of Inl e \<Rightarrow> Inl e | Inr _ \<Rightarrow> Inr ManualReview)"
        using that(1) x by (cases x) (simp_all add: io_bind_def on_store_def io_return_def)
      moreover have "q_result ?g RecoveryRequired x s1 s3"
        using q_transition_result [OF x [unfolded q_recovery_required_def] gs] .
      ultimately show ?thesis using that(2) s1 upd
        by (cases x) (auto simp: quarantine_recovered_def q_result_def)
    qed
    have "quarantine_recovered X q w r s s' w'"
    proof (cases "qi_status q = Completed")
      case False
      show ?thesis
      proof (cases "qi_status q = Prepared")
        case True
        have "io_bind (on_store (q_recovery_required ?g)) (\<lambda>_. io_return ManualReview) (s1, w) = (r, (s', w'))"
          using run a granted(1) True False by (simp add: recover_quarantine_def io_bind_def [of "on_store (acquire_quarantine_guard i)"] on_store_def [of "acquire_quarantine_guard i"])
        then show ?thesis using review True by blast
      next
        case not_prepared: False
        then have "find_quarantine s' = find_quarantine s \<and> w' = w \<and> r = Inr ManualReview"
          using run a granted(1) False s1 by (auto simp: recover_quarantine_def io_bind_def on_store_def q_dropping_def)
        then show ?thesis by (simp add: quarantine_recovered_def)
      qed
    next
      case True
      show ?thesis
      proof (cases "restore_target q")
        case (Inl e)
        have "io_bind (on_store (q_recovery_required ?g)) (\<lambda>_. io_return ManualReview) (s1, w) = (r, (s', w'))"
          using run a granted(1) True Inl by (simp add: recover_quarantine_def io_bind_def [of "on_store (acquire_quarantine_guard i)"] on_store_def [of "acquire_quarantine_guard i"])
        then show ?thesis using review True by blast
      next
        case (Inr t)
        have "restore_generation X ?g t (s1, w) = (r, (s', w'))"
          using run a granted(1) True Inr by (simp add: recover_quarantine_def io_bind_def [of "on_store (acquire_quarantine_guard i)"] on_store_def [of "acquire_quarantine_guard i"])
        then have "quarantine_recovered X q w r s1 s' w'"
          using restore_generation_done [of X ?g t s1 w r s' w' q] gs True Inr by simp
        then show ?thesis using s1 by (simp add: quarantine_recovered_def)
      qed
    qed
    then show ?thesis using granted(2) by simp
  qed
qed

section \<open>Properties\<close>

text \<open>C4 The recovery of a quarantine generation is exact.  Only a completed generation is ever acted on in the
  outside world: a generation that was merely prepared, whose mutation may or may not have happened, is
  handed to an operator without any request, and one that is already waiting for an operator is left alone.
  A generation is given up only after the snapshot committed in its plan has been restored and read back on
  the very target the generation is recorded for; no other generation is touched, and a restore that failed
  keeps the ownership.\<close>

theorem quarantine_recovery_exact:
  assumes "recover_quarantine X i (s, w) = (r, (s', w'))"
  shows "(\<forall>j. j \<noteq> i \<longrightarrow> find_quarantine s' j = find_quarantine s j) \<and>
    (find_quarantine s i = None \<longrightarrow> find_quarantine s' i = None \<and> w' = w \<and> (\<exists>e. r = Inl e)) \<and>
    (\<forall>q. find_quarantine s i = Some q \<longrightarrow> (\<exists>q'. find_quarantine s' i = Some q' \<and> q' = q\<lparr>qi_status := qi_status q'\<rparr> \<and>
       (w' \<noteq> w \<longrightarrow> qi_status q = Completed) \<and>
       (qi_status q' = qi_status q \<or> active (qi_status q) \<and> qi_status q' = RecoveryRequired \<or>
        qi_status q = Completed \<and> qi_status q' = RolledBack) \<and>
       (r = Inr Restored \<longrightarrow> qi_status q = Completed \<and> qi_status q' = RolledBack) \<and>
       (r = Inr Resolved \<longrightarrow> \<not> active (qi_status q) \<and> q' = q \<and> w' = w) \<and>
       (qi_status q = Completed \<and> qi_status q' = RolledBack \<longrightarrow>
          (\<exists>t. restore_target q = Inr t \<and> restore_rollback X q t w = (Inr (), w')) \<and> snapshot_restored X q w')))"
proof (cases "find_quarantine s i")
  case None
  then show ?thesis using recover_quarantine_done [OF assms] by auto
next
  case (Some q)
  then have d: "quarantine_recovered X q w r s s' w'" and id: "qi_id q = i"
    using recover_quarantine_done [OF assms] find_quarantine_id by auto
  have snap: "snapshot_restored X q w'" if "restore_target q = Inr t" "restore_rollback X q t w = (Inr (), w')" for t
    using rollback_target_restores [OF that(1) that(2) [unfolded restore_rollback_def]] .
  let ?P = "\<lambda>q'. q' = q\<lparr>qi_status := qi_status q'\<rparr> \<and>
       (w' \<noteq> w \<longrightarrow> qi_status q = Completed) \<and>
       (qi_status q' = qi_status q \<or> active (qi_status q) \<and> qi_status q' = RecoveryRequired \<or>
        qi_status q = Completed \<and> qi_status q' = RolledBack) \<and>
       (r = Inr Restored \<longrightarrow> qi_status q = Completed \<and> qi_status q' = RolledBack) \<and>
       (r = Inr Resolved \<longrightarrow> \<not> active (qi_status q) \<and> q' = q \<and> w' = w) \<and>
       (qi_status q = Completed \<and> qi_status q' = RolledBack \<longrightarrow>
          (\<exists>t. restore_target q = Inr t \<and> restore_rollback X q t w = (Inr (), w')) \<and> snapshot_restored X q w')"
  have "\<exists>q'. find_quarantine s' = (find_quarantine s)(i \<mapsto> q') \<and> ?P q'"
    using d [unfolded quarantine_recovered_def]
  proof (elim disjE)
    assume c: "find_quarantine s' = find_quarantine s \<and> w' = w \<and> r \<noteq> Inr Restored \<and> (r = Inr Resolved \<longrightarrow> \<not> active (qi_status q))"
    then have "?P q" by auto
    then show ?thesis using c Some by (intro exI [of _ q]) (simp add: fun_upd_idem)
  next
    assume c: "find_quarantine s' = (find_quarantine s)(qi_id q \<mapsto> q\<lparr>qi_status := RecoveryRequired\<rparr>) \<and>
       (qi_status q = Prepared \<and> w' = w \<or> qi_status q = Completed) \<and> r \<noteq> Inr Restored \<and> r \<noteq> Inr Resolved"
    then have "?P (q\<lparr>qi_status := RecoveryRequired\<rparr>)" by (auto simp: active_def)
    then show ?thesis using c id by blast
  next
    assume c: "find_quarantine s' = find_quarantine s \<and> qi_status q = Completed \<and> (\<exists>e. r = Inl e)"
    then have "?P q" by auto
    then show ?thesis using c Some by (intro exI [of _ q]) (simp add: fun_upd_idem)
  next
    assume c: "find_quarantine s' = (find_quarantine s)(qi_id q \<mapsto> q\<lparr>qi_status := RolledBack\<rparr>) \<and> qi_status q = Completed \<and>
       (\<exists>t. restore_target q = Inr t \<and> restore_rollback X q t w = (Inr (), w')) \<and> r \<noteq> Inr Resolved"
    then have "?P (q\<lparr>qi_status := RolledBack\<rparr>)" using snap by auto
    then show ?thesis using c id by blast
  qed
  then show ?thesis using Some by auto
qed

text \<open>The whole sweep, generation by generation.\<close>

definition restored_once :: "'w executor_env \<Rightarrow> quarantine_row \<Rightarrow> bool" where
  "restored_once X q \<longleftrightarrow>
     (\<exists>t u u'. restore_target q = Inr t \<and> restore_rollback X q t u = (Inr (), u') \<and> snapshot_restored X q u')"

definition q_swept :: "'w executor_env \<Rightarrow> quarantine_row \<Rightarrow> quarantine_row \<Rightarrow> bool" where
  "q_swept X q q' \<longleftrightarrow> q' = q \<or> active (qi_status q) \<and> q' = q\<lparr>qi_status := RecoveryRequired\<rparr> \<or>
     qi_status q = Completed \<and> q' = q\<lparr>qi_status := RolledBack\<rparr> \<and> restored_once X q"

lemma q_swept_trans: "q_swept X a b \<Longrightarrow> q_swept X b c \<Longrightarrow> q_swept X a c"
  unfolding q_swept_def by (elim disjE) (auto simp: active_def)

lemma recover_quarantine_step:
  assumes "recover_quarantine X i (s, w) = (r, (s', w'))" "find_quarantine s j = Some q"
  shows "\<exists>q'. find_quarantine s' j = Some q' \<and> q_swept X q q' \<and> (j \<noteq> i \<longrightarrow> q' = q)"
proof (cases "find_quarantine s i")
  case None
  then show ?thesis using recover_quarantine_done [OF assms(1)] assms(2) by (auto simp: q_swept_def)
next
  case (Some p)
  then have d: "quarantine_recovered X p w r s s' w'" and id: "qi_id p = i"
    using recover_quarantine_done [OF assms(1)] find_quarantine_id by auto
  have snap: "restored_once X p" if "restore_target p = Inr t" "restore_rollback X p t w = (Inr (), w')" for t
    using rollback_target_restores [OF that(1) that(2) [unfolded restore_rollback_def]] that unfolding restored_once_def by blast
  have "find_quarantine s' = find_quarantine s \<or>
      (\<exists>p'. q_swept X p p' \<and> find_quarantine s' = (find_quarantine s)(i \<mapsto> p'))"
    using d snap id unfolding quarantine_recovered_def q_swept_def active_def by auto
  then show ?thesis
  proof (elim disjE exE conjE)
    fix p' assume "q_swept X p p'" "find_quarantine s' = (find_quarantine s)(i \<mapsto> p')"
    then show ?thesis using Some assms(2) by (cases "j = i") (auto simp: q_swept_def)
  qed (use assms(2) in \<open>auto simp: q_swept_def\<close>)
qed

lemma recover_quarantines_step:
  assumes "recover_quarantines X qs (s, w) = (s', w')" "find_quarantine s j = Some q"
  shows "\<exists>q'. find_quarantine s' j = Some q' \<and> q_swept X q q' \<and>
    (j \<notin> qi_id ` {p \<in> set qs. qi_status p \<noteq> RecoveryRequired} \<longrightarrow> q' = q)"
  using assms
proof (induction qs arbitrary: s w q)
  case (Cons p qs)
  show ?case
  proof (cases "qi_status p = RecoveryRequired")
    case True
    then show ?thesis using Cons.IH [of s w q] Cons.prems by auto
  next
    case False
    obtain r s1 w1 where run: "recover_quarantine X (qi_id p) (s, w) = (r, (s1, w1))"
      by (cases "recover_quarantine X (qi_id p) (s, w)") auto
    have rest: "recover_quarantines X qs (s1, w1) = (s', w')" using Cons.prems(1) False run by simp
    obtain q1 where q1: "find_quarantine s1 j = Some q1" "q_swept X q q1" "j \<noteq> qi_id p \<longrightarrow> q1 = q"
      using recover_quarantine_step [OF run Cons.prems(2)] by blast
    obtain q2 where q2: "find_quarantine s' j = Some q2" "q_swept X q1 q2"
      "j \<notin> qi_id ` {p \<in> set qs. qi_status p \<noteq> RecoveryRequired} \<longrightarrow> q2 = q1"
      using Cons.IH [OF rest q1(1)] by blast
    have "j \<notin> qi_id ` {a \<in> set (p # qs). qi_status a \<noteq> RecoveryRequired} \<longrightarrow> q2 = q" using q1(3) q2(3) False by auto
    then show ?thesis using q2(1) q_swept_trans [OF q1(2) q2(2)] by blast
  qed
qed (auto simp: q_swept_def)

text \<open>C5 The quarantine sweep.  When the sweep ends, every generation is where it was or one step further: one is
  rolled back only if it was completed, its time was over and its snapshot has been restored and read
  back; one handed to an operator was completed and expired or only prepared; every unexpired, already
  waiting or resolved generation is exactly as it was, whatever transactions and requests fail on the way.\<close>

theorem quarantine_sweep_safe:
  assumes "sweep_quarantines X (s, w) = (s', w')"
    and "distinct (map qi_id (st_quarantines s))" "find_quarantine s i = Some q"
  shows "\<exists>q'. find_quarantine s' i = Some q' \<and>
    (q' = q \<or>
     q' = q\<lparr>qi_status := RecoveryRequired\<rparr> \<and> (qi_status q = Prepared \<or> qi_status q = Completed \<and> qi_expires q \<le> st_now s) \<or>
     q' = q\<lparr>qi_status := RolledBack\<rparr> \<and> qi_status q = Completed \<and> qi_expires q \<le> st_now s \<and>
       (\<exists>t u u'. restore_target q = Inr t \<and> restore_rollback X q t u = (Inr (), u') \<and> snapshot_restored X q u'))"
proof -
  let ?due = "\<lambda>q. qi_status q = Prepared \<or> (qi_status q = Completed \<and> qi_expires q \<le> st_now s)"
  obtain r s1 where r: "recoverable_quarantine_intents s = (r, s1)" by (rule prod.exhaust)
  have s1: "find_quarantine s1 = find_quarantine s" and
    rs: "is_ok r \<longrightarrow> r = Inr (take 100 (filter ?due (st_quarantines s)))"
    using quarantines_query [OF r [unfolded recoverable_quarantine_intents_def]] by simp_all
  have i: "qi_id q = i" "q \<in> set (st_quarantines s)" using find_quarantine_id [OF assms(3)] by simp_all
  show ?thesis
  proof (cases r)
    case (Inl e)
    then have "s' = s1" using assms(1) r by (simp add: sweep_quarantines_def on_store_def)
    then show ?thesis using s1 assms(3) by simp
  next
    case (Inr qs)
    have qs: "qs = take 100 (filter ?due (st_quarantines s))" using rs Inr by simp
    have run: "recover_quarantines X qs (s1, w) = (s', w')"
      using assms(1) r Inr by (simp add: sweep_quarantines_def on_store_def)
    obtain q' where q': "find_quarantine s' i = Some q'" "q_swept X q q'"
      "i \<notin> qi_id ` {p \<in> set qs. qi_status p \<noteq> RecoveryRequired} \<longrightarrow> q' = q"
      using recover_quarantines_step [OF run] s1 assms(3) by metis
    have "?due q" if "q' \<noteq> q"
    proof -
      obtain p where p: "p \<in> set qs" "qi_id p = i" using q'(3) \<open>q' \<noteq> q\<close> by blast
      have "p \<in> set (filter ?due (st_quarantines s))" using p(1) unfolding qs by (rule in_set_takeD)
      moreover from this have "p = q" using i p(2) assms(2) by (auto simp: distinct_map inj_on_def)
      ultimately show ?thesis by simp
    qed
    then show ?thesis using q'(1,2) unfolding q_swept_def restored_once_def active_def by auto
  qed
qed

section \<open>A quarantine request changes nothing\<close>

definition reads_only :: "('w, 'e, 'a) io \<Rightarrow> bool" where
  "reads_only m \<longleftrightarrow> (\<forall>v. snd (m v) = v)"

lemma reads_only_keeps: "reads_only m \<longleftrightarrow> (\<forall>w. keeps (\<lambda>v. v = w) m)"
  by (auto simp: reads_only_def keeps_def)

lemma reads_only_intros:
  "reads_only (io_return x)" "reads_only (io_fail e)" "reads_only (io_lift r)"
  "reads_only m \<Longrightarrow> (\<And>x. reads_only (f x)) \<Longrightarrow> reads_only (io_bind m f)"
  "reads_only m \<Longrightarrow> reads_only m' \<Longrightarrow> reads_only (if b then m else m')"
  "(\<And>x y. reads_only (h x y)) \<Longrightarrow> reads_only (case p of (x, y) \<Rightarrow> h x y)"
  "reads_only m \<Longrightarrow> reads_only (io_map_err g m)" "reads_only m \<Longrightarrow> reads_only (attempt m)"
  unfolding reads_only_keeps
  by (auto intro!: keeps_intros keeps_attempt simp: keeps_def [of _ "io_map_err _ _"]) (auto simp: keeps_def)

text \<open>What the three platforms document of their queries: none of them changes anything.\<close>

definition queries_read_only :: "'w executor_env \<Rightarrow> bool" where
  "queries_read_only X \<longleftrightarrow>
     (\<forall>i. reads_only (docker_networks (xe_docker_env X) i)) \<and>
     reads_only (ticket (xe_px_env X) (xe_proxmox X)) \<and>
     (\<forall>n v tk. reads_only (read_net0 (xe_px_env X) (xe_proxmox X) n v tk)) \<and>
     (\<forall>d. reads_only (device_tags (xe_send X) (xe_decoders X) (xe_tailscale X) d))"

lemma native_dry_reads:
  assumes "queries_read_only X"
  shows "reads_only (docker_preflight_op (xe_docker_env X) (xe_docker X) t)"
    "reads_only (docker_apply (xe_docker_env X) (xe_docker X) t True)"
    "reads_only (proxmox_preflight_op (xe_px_env X) (xe_proxmox X) t)"
    "reads_only (proxmox_apply (xe_px_env X) (xe_proxmox X) t True)"
    "reads_only (ts_preflight (xe_send X) (xe_decoders X) (xe_tailscale X) d)"
    "reads_only (ts_apply (xe_send X) (xe_decoders X) (xe_tailscale X) a True)"
  using assms
  unfolding queries_read_only_def docker_preflight_op_def docker_apply_def docker_apply_checked_def proxmox_preflight_op_def
    proxmox_apply_def proxmox_apply_checked_def ts_preflight_def ts_apply_def Let_def
  by (simp_all only: if_True not_True_eq_False if_False) (auto intro!: reads_only_intros split: option.split)

lemma legacy_planned:
  assumes "reads_only f" "\<And>v u. f w = (Inr v, u) \<Longrightarrow> \<forall>r \<in> set (snd (snd (snd v))). dr_dry_run r \<and> dr_verification r = None"
  shows "snd (legacy f w) = w \<and> (\<forall>r \<in> set (snd (snd (snd (fst (legacy f w))))). dr_dry_run r \<and> dr_verification r = None)"
proof -
  obtain r u where r: "f w = (r, u)" by (rule prod.exhaust)
  then have "u = w" using assms(1) by (auto simp: reads_only_def dest: spec [of _ w])
  then show ?thesis using r assms(2) by (cases r) (simp_all add: legacy_def refused_def)
qed

lemma io_bindE: "io_bind m f w = (Inr y, w') \<Longrightarrow> (\<And>x u. m w = (Inr x, u) \<Longrightarrow> f x u = (Inr y, w') \<Longrightarrow> thesis) \<Longrightarrow> thesis"
  by (auto simp: io_bind_Inr_iff)

lemma dispatch_native_planned:
  assumes "queries_read_only X" "request_dry_run X c"
    and f: "f = dispatch_docker X c \<or> f = dispatch_proxmox X c \<or> f = dispatch_tailscale X c"
  shows "snd (f w) = w \<and> (\<forall>r \<in> set (snd (snd (snd (fst (f w))))). dr_dry_run r \<and> dr_verification r = None)"
proof -
  note reads = native_dry_reads [OF assms(1)] verification_unless_dry_def Let_def assms(2)
  have planned: "\<not> ts_applied v" if "ts_apply a b d e True u = (Inr v, u')" for a b d e u v u'
    using that by (auto simp: ts_apply_def io_bind_Inr_iff Let_def split: if_split_asm)
  have "snd (dispatch_docker X c w) = w \<and>
      (\<forall>r \<in> set (snd (snd (snd (fst (dispatch_docker X c w))))). dr_dry_run r \<and> dr_verification r = None)"
    unfolding dispatch_docker_def
    by (rule legacy_planned, auto simp: reads intro!: reads_only_intros split: quarantine_identity.split)
      (elim io_bindE, auto simp: reads elim!: io_bindE split: quarantine_identity.split_asm)
  moreover have "snd (dispatch_proxmox X c w) = w \<and>
      (\<forall>r \<in> set (snd (snd (snd (fst (dispatch_proxmox X c w))))). dr_dry_run r \<and> dr_verification r = None)"
    unfolding dispatch_proxmox_def
    by (rule legacy_planned, auto simp: reads intro!: reads_only_intros split: quarantine_identity.split)
      (elim io_bindE, auto simp: reads elim!: io_bindE split: quarantine_identity.split_asm)
  moreover have "snd (dispatch_tailscale X c w) = w \<and>
      (\<forall>r \<in> set (snd (snd (snd (fst (dispatch_tailscale X c w))))). dr_dry_run r \<and> dr_verification r = None)"
    unfolding dispatch_tailscale_def
    by (rule legacy_planned, auto simp: reads intro!: reads_only_intros split: quarantine_identity.split)
      (elim io_bindE, auto simp: reads dest: planned elim!: io_bindE split: quarantine_identity.split_asm)
  ultimately show ?thesis using f by blast
qed

text \<open>Production never quarantines.  Dispatching a claimed request for a native quarantine, or for the
  reconciliation of one, leaves the database and the outside world exactly as they were, whatever the
  configuration, and every receipt it returns is that of a dry run, never verified.\<close>

theorem quarantine_dispatch_read_only:
  assumes "queries_read_only X"
    and "from_action_name (cl_action_name c) \<noteq> None \<or> from_reconcile_action_name (cl_action_name c) \<noteq> None"
    and "dispatch_quarantine X context_hash clock c (s, w) = ((ok, result, error, receipts), m)"
  shows "m = (s, w) \<and> (\<forall>r \<in> set receipts. dr_dry_run r \<and> dr_verification r = None)"
proof (cases "request_dry_run X c")
  case False
  have "gated f a b (s, w) = ((False, None, Some b, []), (s, w))" for f :: "(store \<times> 'a, msg, unit) io" and a b
    by (simp add: gated_def ensure_live_dispatch_disabled_def)
  then have "\<exists>b. dispatch_quarantine X context_hash clock c (s, w) = ((False, None, Some b, []), (s, w))"
    using False assms(2) by (auto simp: dispatch_quarantine_def simp del: split_paired_Ex)
  then show ?thesis using assms(3) by auto
next
  case True
  have name: "cl_action_name c \<in> {''docker.quarantine_container'', ''proxmox.quarantine_vm'', ''tailscale.quarantine_device'',
      ''docker.reconcile_quarantine'', ''proxmox.reconcile_quarantine''}"
    using assms(2) by (auto simp: from_action_name_def from_reconcile_action_name_def split: if_split_asm)
  have "try_dispatch_generic (xe_agent X) (xe_json_len X) True c (s, w) = (None, (s, w))"
    using name by (auto simp: try_dispatch_generic_def try_dispatch_generic_with_mode_def FIREWALL_MULTI_ADAPTER_PREFIX_def
        adapter_for_action_def Let_def)
  moreover have "dispatch X c (s, w) = ((ok, result, error, receipts), m)"
    using assms(3) True by (auto simp: dispatch_quarantine_def split: if_split_asm)
  ultimately have eq: "((ok, result, error, receipts), m) =
     (if cl_action_name c = TAILSCALE_ACTION_PREFIX then on_world_value (dispatch_tailscale X c) (s, w)
          else if cl_action_name c = PROXMOX_QUARANTINE_ACTION then on_world_value (dispatch_proxmox X c) (s, w)
          else if cl_action_name c = DOCKER_QUARANTINE_ACTION then on_world_value (dispatch_docker X c) (s, w)
          else ((True, Some [Lit ''dry_run: no external operation executed''], None, []), (s, w)))"
    by (simp add: dispatch_def)
  have native: ?thesis if "on_world_value f (s, w) = ((ok, result, error, receipts), m)"
    "f = dispatch_docker X c \<or> f = dispatch_proxmox X c \<or> f = dispatch_tailscale X c" for f
    using dispatch_native_planned [OF assms(1) True that(2), of w] that(1)
    by (cases "f w") (simp add: on_world_value_def)
  show ?thesis using eq native by (auto split: if_split_asm)
qed

section \<open>The write-ahead apply owns what it mutates\<close>

text \<open>The last thing read was that the target is isolated.\<close>

definition isolated :: "'w executor_env \<Rightarrow> quarantine_target \<Rightarrow> 'w \<Rightarrow> bool" where
  "isolated X t w \<longleftrightarrow>
     (case t of
        Docker i \<Rightarrow> \<exists>u. docker_networks (xe_docker_env X) i u = (Inr [], w)
      | Proxmox n v \<Rightarrow> \<exists>tk u nic. read_net0 (xe_px_env X) (xe_proxmox X) n v tk u = (Inr nic, w) \<and> net0_is_quarantined (nic_net0 nic))"

lemma native_preflight_cases:
  assumes "native_preflight X identity w = (Inr p, w')"
  obtains (docker) i where "identity = QDocker i" "np_adapter p = ''docker''" "np_fingerprint p = i" "np_target p = Docker i"
      "jget (np_plan p) ''networks'' \<noteq> None"
  | (proxmox) n v where "identity = QProxmox n v" "np_adapter p = ''proxmox''" "np_fingerprint p = vm_fingerprint n v"
      "np_target p = Proxmox n v" "jget (np_plan p) ''original_net0'' \<noteq> None"
  using assms unfolding native_preflight_def
  by (auto simp: obj_get_def elim!: io_bindE split: quarantine_identity.split_asm if_split_asm)

lemma docker_mutate_isolated:
  assumes "docker_mutate X p w = (Inr v, w')" "np_target p = Docker i"
  shows "isolated X (Docker i) w'"
  using assms unfolding docker_mutate_def isolated_def
  by (auto simp: docker_verify_def docker_container_id_Inr elim!: io_bindE split: if_split_asm) blast

lemma proxmox_confirm_isolated:
  assumes "proxmox_confirm X p w = (Inr v, w')" "np_target p = Proxmox n k"
  shows "isolated X (Proxmox n k) w'"
  using assms unfolding proxmox_confirm_def isolated_def
  by (auto simp: proxmox_verify_def node_vmid_def and_then_Inr_iff elim!: io_bindE split: if_split_asm) blast

lemma native_mutate_result:
  assumes run: "native_mutate X p g (s, w) = (r, (s', w'))"
    and t: "np_adapter p = ''docker'' \<and> (\<exists>i. np_target p = Docker i) \<or> np_adapter p = ''proxmox'' \<and> (\<exists>n v. np_target p = Proxmox n v)"
  shows "\<exists>g' outcome. r = Inr (g', outcome) \<and> qg_row g' = qg_row g \<and> find_quarantine s' = find_quarantine s \<and>
    (is_ok outcome \<longrightarrow> isolated X (np_target p) w')"
  using t
proof (elim disjE conjE exE)
  fix i assume d: "np_adapter p = ''docker''" "np_target p = Docker i"
  obtain v w1 where v: "docker_mutate X p w = (v, w1)" by (rule prod.exhaust)
  then have "r = Inr (g, v) \<and> s' = s \<and> w' = w1"
    using run d by (auto simp: native_mutate_def io_bind_def attempt_def on_world_def io_return_def)
  then show ?thesis using docker_mutate_isolated [OF _ d(2)] v d(2) by (cases v) auto
next
  fix n k assume d: "np_adapter p = ''proxmox''" "np_target p = Proxmox n k"
  obtain v w1 where v: "proxmox_submit X p w = (v, w1)" by (rule prod.exhaust)
  show ?thesis
  proof (cases v)
    case (Inl e)
    then have "r = Inr (g, Inl e) \<and> s' = s"
      using run d v by (auto simp: native_mutate_def io_bind_def attempt_def on_world_def io_return_def)
    then show ?thesis by simp
  next
    case (Inr upid)
    obtain q s1 where q: "(if upid = [] then io_return (Inr g) else attempt (on_store (guard_set_upid upid g))) (s, w1) = (Inr q, (s1, w1))"
      and s1: "find_quarantine s1 = find_quarantine s" and qr: "\<forall>g'. q = Inr g' \<longrightarrow> qg_row g' = qg_row g"
    proof (cases "upid = []")
      case True
      then show ?thesis using that by simp
    next
      case False
      obtain z s2 where z: "guard_set_upid upid g s = (z, s2)" by (rule prod.exhaust)
      have "find_quarantine s2 = find_quarantine s" "is_ok z \<longrightarrow> z = Inr (set_upid upid g)"
        using quarantines_query [OF z [unfolded guard_set_upid_def]] by simp_all
      then show ?thesis using that [of z s2] z False by (cases z) (auto simp: attempt_def on_store_def set_upid_def)
    qed
    show ?thesis
    proof (cases q)
      case (Inl e)
      then have "r = Inr (g, Inl e) \<and> s' = s1"
        using run d v Inr q
        by (cases "upid = []") (auto simp: native_mutate_def io_bind_def attempt_def on_world_def on_store_def io_return_def
          split: prod.split_asm)
      then show ?thesis using s1 by simp
    next
      case q': (Inr g')
      obtain y w2 where y: "proxmox_confirm X p w1 = (y, w2)" by (rule prod.exhaust)
      then have "r = Inr (g', y) \<and> s' = s1 \<and> w' = w2"
        using run d v Inr q q'
        by (cases "upid = []") (auto simp: native_mutate_def io_bind_def attempt_def on_world_def on_store_def io_return_def
          split: prod.split_asm)
      then show ?thesis using s1 qr q' proxmox_confirm_isolated [OF _ d(2)] y d(2) by (cases y) auto
    qed
  qed
qed

lemma validated_identity:
  assumes "validate_context name t dry = Inr ctx"
  shows "\<exists>k. from_action_name name = Some k \<and> (case qc_target ctx of
      QDocker _ \<Rightarrow> k = KDocker | QProxmox _ _ \<Rightarrow> k = KProxmox | QTailscale _ \<Rightarrow> k = KTailscale)"
proof -
  obtain k where k: "from_action_name name = Some k" using assms by (auto simp: validate_context_def and_then_Inr_iff)
  then show ?thesis using assms
    by (cases k) (auto simp: validate_context_def and_then_Inr_iff split: if_split_asm)
qed

text \<open>A context that was accepted for a live request is accepted again for the restore.\<close>

lemma validate_context_dry:
  assumes "validate_context name t False = Inr ctx"
  shows "\<exists>ctx'. validate_context name t True = Inr ctx' \<and> qc_target ctx' = qc_target ctx"
proof -
  have m: "validate_metadata ''dry-run only'' ''data_owner'' OWNER_LIMIT = Inr ()"
    "validate_metadata ''dry-run only'' ''snapshot_restore_reference'' REFERENCE_LIMIT = Inr ()"
    "validate_metadata ''dry-run only'' ''management_network_plan'' REFERENCE_LIMIT = Inr ()"
    by code_simp+
  obtain k where k: "from_action_name name = Some k" using assms by (auto simp: validate_context_def and_then_Inr_iff)
  then have "validate_context name t True = Inr \<lparr> qc_target = qc_target ctx, qc_preflight = None,
      qc_ttl_seconds = qc_ttl_seconds ctx, ready_for_live = False \<rparr>" using assms
    by (cases k; clarsimp simp: validate_context_def and_then_Inr_iff new_docker_def new_proxmox_def plan_from_target_def
        bind_eq_Some_conv m split: if_split_asm) auto
  then show ?thesis by simp
qed

text \<open>What is known of a prepared row before anything is mutated.\<close>

definition prepared_for :: "claimed_request \<Rightarrow> native_plan \<Rightarrow> store \<Rightarrow> quarantine_row \<Rightarrow> bool" where
  "prepared_for c p s q \<longleftrightarrow>
     qi_execution q = cl_id c \<and> cl_target c = Some (qi_target_json q) \<and> qi_adapter q = np_adapter p \<and>
     qi_fingerprint q = np_fingerprint p \<and> qi_plan q = np_plan p \<and>
     qi_action_name q = quarantine_action_of (np_adapter p) \<and>
     (\<exists>e ac. claimed_approved s (cl_id c) = Some (e, ac) \<and> unexpired s e \<and> ac_name ac = qi_action_name q \<and>
        jget (ex_context e) ''target'' = cl_target c)"

lemma prepare_quarantine_row:
  assumes "prepare_quarantine_intent json_len H (cl_id c) (np_adapter p) (np_fingerprint p) t pf (np_plan p) ttl s = (r, s')"
    and "cl_target c = Some t" "\<forall>q \<in> set (st_quarantines s). qi_id q < st_next s"
  shows "find_quarantine s' = find_quarantine s \<and> (\<exists>e. r = Inl e) \<or>
    (\<exists>q. find_quarantine s' = (find_quarantine s)(st_next s \<mapsto> q) \<and> qi_id q = st_next s \<and> qi_status q = Prepared \<and>
       prepared_for c p s q \<and> (r = Inr (st_next s) \<or> (\<exists>e. r = Inl e)))"
  using assms(1)
proof (cases rule: prepare_quarantine_cases)
  case unchanged
  then show ?thesis using find_quarantine_cong [OF unchanged(1)] by (cases r) auto
next
  case (prepared q e ac)
  have "List.find (\<lambda>q. qi_id q = j) (qs @ [q]) = (case List.find (\<lambda>q. qi_id q = j) qs of Some x \<Rightarrow> Some x
      | None \<Rightarrow> if qi_id q = j then Some q else None)" for j qs by (induction qs) auto
  moreover have "find_quarantine s (st_next s) = None"
    using assms(3) by (auto simp: find_quarantine_def find_None_iff)
  ultimately have "find_quarantine s' = (find_quarantine s)(st_next s \<mapsto> q)"
    using prepared(1,4) by (auto simp: find_quarantine_def fun_eq_iff split: option.split)
  moreover have "prepared_for c p s q" using prepared assms(2) by (auto simp: prepared_for_def)
  ultimately show ?thesis using prepared(4,5,6) by (auto simp: db_error_def)
qed

lemma prepared_restorable:
  assumes v: "validate_context (cl_action_name c) t False = Inr ctx" and p: "native_preflight X (qc_target ctx) w = (Inr p, w1)"
    and q: "prepared_for c p s q" "cl_target c = Some t"
  shows "is_ok (restore_target q)"
proof -
  obtain ctx' where c: "validate_context (cl_action_name c) t True = Inr ctx'" "qc_target ctx' = qc_target ctx"
    using validate_context_dry [OF v] by blast
  have t: "qi_target_json q = t" using q by (simp add: prepared_for_def)
  obtain object where o': "as_object t = Some object" using v by (auto simp: validate_context_def and_then_Inr_iff split: if_split_asm)
  have name: "qi_action_name q = cl_action_name c"
    using p validated_identity [OF v] q(1)
    by (cases rule: native_preflight_cases) (auto simp: prepared_for_def quarantine_action_of_def from_action_name_def split: if_split_asm)
  from p show ?thesis
    by (cases rule: native_preflight_cases)
      (use c o' q(1) t name in \<open>auto simp: restore_target_def prepared_for_def\<close>)
qed

text \<open>The part of the apply that runs under the guard.\<close>

lemma guarded_apply:
  assumes run: "apply_under_guard X clock (io_return ()) p receipt g (s, w) = (r, (s', w'))"
    and g: "find_quarantine s (qi_id (qg_row g)) = Some (qg_row g)" "active (qi_status (qg_row g))"
    and t: "np_adapter p = ''docker'' \<and> (\<exists>i. np_target p = Docker i) \<or> np_adapter p = ''proxmox'' \<and> (\<exists>n v. np_target p = Proxmox n v)"
  shows "(w' = w \<and> find_quarantine s' = find_quarantine s \<and> (\<exists>e. r = Inl e)) \<or>
    (\<exists>q. find_quarantine s' = (find_quarantine s)(qi_id (qg_row g) \<mapsto> q) \<and> active (qi_status q) \<and>
       q = (qg_row g)\<lparr>qi_status := qi_status q, qi_upid := qi_upid q\<rparr> \<and> clock < qi_expires q \<and>
       (r = Inr () \<longrightarrow> qi_status q = Completed \<and> isolated X (np_target p) w'))"
proof -
  have quiet: ?thesis if "w' = w \<and> find_quarantine s' = find_quarantine s \<and> (\<exists>e. r = Inl e)" using that by blast
  show ?thesis
  proof (cases "qi_status (qg_row g) \<noteq> Prepared \<or> qi_expires (qg_row g) \<le> clock")
    case True
    then show ?thesis using run by (intro quiet) (auto simp: apply_under_guard_def holding_def io_fail_def split: if_split_asm)
  next
    case False
    obtain a s1 where a: "validate_approval_guard g s = (a, s1)" by (rule prod.exhaust)
    have s1: "find_quarantine s1 = find_quarantine s"
    proof -
      have "body_keeps (quarantines_at F) (\<lambda>s. if \<not> approval_lockable s ex then Inl db_error else Inr (dual_request s ex nm tj, s))" for F ex nm tj
        by (auto simp: body_keeps_def split: if_split_asm)
      then have "keeps (quarantines_at (find_quarantine s)) (validate_approval_guard g)"
        unfolding validate_approval_guard_def approval_check_def
        by (intro keeps_intros keeps_transaction row_property_quarantines)
      from keepsD [OF this _ a] show ?thesis by (simp add: quarantines_at_def)
    qed
    show ?thesis
    proof (cases a)
      case (Inl e)
      then show ?thesis using run False a s1 by (intro quiet) (auto simp: apply_under_guard_def holding_def io_bind_def on_store_def)
    next
      case (Inr u)
      obtain z s2 w2 where z: "native_mutate X p g (s1, w) = (z, (s2, w2))" by (cases "native_mutate X p g (s1, w)") auto
      obtain g' outcome where n: "z = Inr (g', outcome)" "qg_row g' = qg_row g" "find_quarantine s2 = find_quarantine s1"
        "is_ok outcome \<longrightarrow> isolated X (np_target p) w2"
        using native_mutate_result [OF z t] by blast
      have gs: "find_quarantine s2 (qi_id (qg_row g')) = Some (qg_row g')" using n(2,3) s1 g(1) by simp
      have upd: "q_updated g' new (qg_row g') = (qg_row g)\<lparr>qi_status := new, qi_upid := qi_upid (q_updated g' new (qg_row g'))\<rparr>" for new
        by (simp add: q_updated_def n(2))
      have result: "\<exists>q. find_quarantine s' = (find_quarantine s)(qi_id (qg_row g) \<mapsto> q) \<and> active (qi_status q) \<and>
          q = (qg_row g)\<lparr>qi_status := qi_status q, qi_upid := qi_upid q\<rparr> \<and> clock < qi_expires q \<and>
          (is_ok x \<longrightarrow> qi_status q = new)"
        if "q_result g' new x s2 s3" "find_quarantine s' = find_quarantine s3" "active new" for x :: "msg + 'z" and s3 new
        using that(1) [unfolded q_result_def]
      proof
        assume "find_quarantine s3 = find_quarantine s2 \<and> (\<exists>e. x = Inl e)"
        then show ?thesis using that(2) n(3) s1 g False by (intro exI [of _ "qg_row g"]) (auto simp: fun_upd_idem)
      next
        assume "find_quarantine s3 = (find_quarantine s2)(qi_id (qg_row g') := Some (q_updated g' new (qg_row g')))"
        then show ?thesis using that(2,3) n(2,3) s1 False
          by (intro exI [of _ "q_updated g' new (qg_row g)"]) (simp add: q_updated_def)
      qed
      show ?thesis
      proof (cases outcome)
        case (Inl e)
        obtain x s3 where x: "q_recovery_required g' s2 = (x, s3)" by (rule prod.exhaust)
        have "find_quarantine s' = find_quarantine s3 \<and> (\<exists>e. r = Inl e)"
          using run False a Inr z n(1) Inl x
          by (cases x) (auto simp: apply_under_guard_def holding_def io_bind_def on_store_def io_fail_def)
        then show ?thesis using result [OF q_transition_result [OF x [unfolded q_recovery_required_def] gs]]
          by (auto simp: active_def)
      next
        case o': (Inr observed)
        obtain x s3 where x: "q_finish g' (receipt observed) s2 = (x, s3)" by (rule prod.exhaust)
        have "find_quarantine s' = find_quarantine s3 \<and> w' = w2 \<and> (r = Inr () \<longrightarrow> is_ok x)"
          using run False a Inr z n(1) o' x
          by (cases x) (auto simp: apply_under_guard_def holding_def io_bind_def on_store_def io_return_def)
        then show ?thesis using result [of Completed x s3] q_finish_result [OF x gs] n(4) o' by (auto simp: active_def)
      qed
    qed
  qed
qed

text \<open>C3 No isolation without a committed owner.  Whatever fails, a native apply that has done more than look at
  its target leaves exactly one new generation behind, active, recorded for the claimed request and its
  dual-approved target, with the snapshot that was read before the mutation; no other generation changes.
  When it reports success the generation is completed, the last thing read was the isolation of the target,
  and the generation holds all that its restore needs.\<close>

theorem quarantine_apply_owned:
  assumes "apply_prepared X context_hash clock c (s, w) = (r, (s', w'))"
    and "\<forall>q \<in> set (st_quarantines s). qi_id q < st_next s"
  shows "(\<forall>j. j \<noteq> st_next s \<longrightarrow> find_quarantine s' j = find_quarantine s j) \<and>
    (w' = w \<and> (\<exists>e. r = Inl e) \<or> (\<exists>identity. w' = snd (native_preflight X identity w)) \<and> (\<exists>e. r = Inl e) \<or>
     (\<exists>identity p q. fst (native_preflight X identity w) = Inr p \<and> find_quarantine s' (st_next s) = Some q \<and>
        active (qi_status q) \<and> prepared_for c p s q \<and> clock < qi_expires q \<and>
        (r = Inr () \<longrightarrow> qi_status q = Completed \<and> isolated X (np_target p) w' \<and> is_ok (restore_target q))))"
proof -
  have refused: ?thesis if "find_quarantine s' = find_quarantine s" "\<exists>e. r = Inl e"
    "w' = w \<or> (\<exists>identity. w' = snd (native_preflight X identity w))" using that by auto
  show ?thesis
  proof (cases "\<exists>t ctx. cl_target c = Some t \<and> validate_context (cl_action_name c) t False = Inr ctx")
    case False
    then have "s' = s \<and> w' = w \<and> (\<exists>e. r = Inl e)" using assms(1)
      by (cases "cl_target c"; cases "validate_context (cl_action_name c) (the (cl_target c)) False")
        (auto simp: apply_prepared_def apply_prepared_observed_def)
    then show ?thesis by (intro refused) simp_all
  next
    case True
    then obtain t ctx where v: "cl_target c = Some t" "validate_context (cl_action_name c) t False = Inr ctx" by blast
    obtain pr w1 where pr: "native_preflight X (qc_target ctx) w = (pr, w1)" by (rule prod.exhaust)
    then have w1: "w1 = snd (native_preflight X (qc_target ctx) w)" by simp
    show ?thesis
    proof (cases pr)
      case (Inl e)
      then have "s' = s \<and> w' = w1 \<and> (\<exists>e. r = Inl e)" using assms(1) v pr
        by (auto simp: apply_prepared_def apply_prepared_observed_def io_bind_def on_world_def)
      then show ?thesis using w1 by (intro refused) blast+
    next
      case (Inr p)
      note pf = pr [unfolded Inr]
      obtain i s1 where i: "prepare_quarantine_intent (xe_json_len X) context_hash (cl_id c) (np_adapter p) (np_fingerprint p) t
          (np_preflight p) (np_plan p) (qc_ttl_seconds ctx) s = (i, s1)" by (rule prod.exhaust)
      let ?row = "\<lambda>q. find_quarantine s1 = (find_quarantine s)(st_next s \<mapsto> q) \<and> qi_id q = st_next s \<and> qi_status q = Prepared \<and>
         prepared_for c p s q"
      note row = prepare_quarantine_row [OF i v(1) assms(2)]
      show ?thesis
      proof (cases "is_ok i")
        case False
        then have "s' = s1 \<and> w' = w1 \<and> (\<exists>e. r = Inl e)" using assms(1) v pf i
          by (cases i) (auto simp: apply_prepared_def apply_prepared_observed_def io_bind_def on_world_def on_store_def)
        then show ?thesis using row w1 by auto
      next
        case True
        then obtain q where q: "?row q" "i = Inr (st_next s)" using row by auto
        obtain a s2 where a: "acquire_quarantine_guard (st_next s) s1 = (a, s2)" by (rule prod.exhaust)
        from a show ?thesis
        proof (cases rule: acquire_quarantine_cases)
          case refused
          then have "s' = s2 \<and> w' = w1 \<and> (\<exists>e. r = Inl e) \<and> find_quarantine s2 = find_quarantine s1"
            using assms(1) v pf i q(2) a find_quarantine_cong [of s2 s1]
            by (cases a; cases "to_option a")
              (auto simp: apply_prepared_def apply_prepared_observed_def io_bind_def on_world_def on_store_def io_fail_def
                split: option.split_asm)
          then show ?thesis using q(1) w1 by auto
        next
          case (granted q')
          have "q' = q" using granted(2) q(1) by simp
          let ?g = "\<lparr> qg_row = q, qg_upid = None \<rparr>"
          have eq: "find_quarantine s2 = find_quarantine s1" using granted(5) by (rule find_quarantine_cong)
          have target: "np_adapter p = ''docker'' \<and> (\<exists>i. np_target p = Docker i) \<or>
              np_adapter p = ''proxmox'' \<and> (\<exists>n v. np_target p = Proxmox n v)"
            using pf by (cases rule: native_preflight_cases) auto
          have step: "(w' = w1 \<and> find_quarantine s' = find_quarantine s2 \<and> (\<exists>e. r = Inl e)) \<or>
              (\<exists>q2. find_quarantine s' = (find_quarantine s2)(qi_id (qg_row ?g) \<mapsto> q2) \<and> active (qi_status q2) \<and>
                 q2 = (qg_row ?g)\<lparr>qi_status := qi_status q2, qi_upid := qi_upid q2\<rparr> \<and> clock < qi_expires q2 \<and>
                 (r = Inr () \<longrightarrow> qi_status q2 = Completed \<and> isolated X (np_target p) w'))"
          proof (rule guarded_apply [OF _ _ _ target])
            show "find_quarantine s2 (qi_id (qg_row ?g)) = Some (qg_row ?g)" "active (qi_status (qg_row ?g))"
              using eq q(1) by (simp_all add: active_def)
            show "apply_under_guard X clock (io_return ()) p (native_receipt c p t (qc_ttl_seconds ctx)) ?g (s2, w1) = (r, (s', w'))"
              using assms(1) v pf i q(2) a granted(1) \<open>q' = q\<close>
              by (simp add: apply_prepared_def apply_prepared_observed_def io_bind_def on_world_def on_store_def)
          qed
          then show ?thesis
          proof
            assume "w' = w1 \<and> find_quarantine s' = find_quarantine s2 \<and> (\<exists>e. r = Inl e)"
            then show ?thesis using eq q(1) w1 by auto
          next
            assume "\<exists>q2. find_quarantine s' = (find_quarantine s2)(qi_id (qg_row ?g) \<mapsto> q2) \<and> active (qi_status q2) \<and>
                 q2 = (qg_row ?g)\<lparr>qi_status := qi_status q2, qi_upid := qi_upid q2\<rparr> \<and> clock < qi_expires q2 \<and>
                 (r = Inr () \<longrightarrow> qi_status q2 = Completed \<and> isolated X (np_target p) w')"
            then obtain q2 where q2: "find_quarantine s' = (find_quarantine s2)(st_next s \<mapsto> q2)" "active (qi_status q2)"
              "q2 = q\<lparr>qi_status := qi_status q2, qi_upid := qi_upid q2\<rparr>" "clock < qi_expires q2"
              "r = Inr () \<longrightarrow> qi_status q2 = Completed \<and> isolated X (np_target p) w'" using q(1) by auto
            have "prepared_for c p s (q\<lparr>qi_status := x, qi_upid := y\<rparr>)" for x y using q(1) by (auto simp: prepared_for_def)
            then have "prepared_for c p s q2" using q2(3) by metis
            then have "prepared_for c p s q2 \<and> is_ok (restore_target q2)" using prepared_restorable [OF v(2) pf _ v(1)] by blast
            moreover have "fst (native_preflight X (qc_target ctx) w) = Inr p" by (simp add: pf)
            moreover have "find_quarantine s' = (find_quarantine s)(st_next s \<mapsto> q2)" using q2(1) eq q(1) by simp
            ultimately show ?thesis using q2(2,4,5) by auto
          qed
        qed
      qed
    qed
  qed
qed

section \<open>Reconciliation resolves exactly what was approved\<close>

lemma dual_request_frame:
  "st_executions u = st_executions s \<Longrightarrow> st_actions u = st_actions s \<Longrightarrow> st_policies u = st_policies s \<Longrightarrow>
   st_approvals u = st_approvals s \<Longrightarrow> st_now u = st_now s \<Longrightarrow> dual_request u = dual_request s"
  unfolding dual_request_def claimed_approved_def find_execution_def find_action_def dual_approved_def find_policy_def
    independent_approvers_def unexpired_def by (simp add: fun_eq_iff cong: option.case_cong)

definition same_authority :: "store \<Rightarrow> store \<Rightarrow> bool" where
  "same_authority s u \<longleftrightarrow> find_quarantine u = find_quarantine s \<and> dual_request u = dual_request s"

lemma same_authority_trans: "same_authority s t \<Longrightarrow> same_authority t u \<Longrightarrow> same_authority s u"
  by (simp add: same_authority_def)

lemma authority_query: "query f s = (r, s') \<Longrightarrow> same_authority s s'"
  unfolding query_def same_authority_def
  by (erule transaction_cases) (auto intro!: dual_request_frame find_quarantine_cong)

lemma authority_acquire: "acquire_quarantine_guard i s = (r, s') \<Longrightarrow> same_authority s s'"
  using next_outcome_simps [of s] unfolding same_authority_def
  by (cases "next_outcome s")
    (auto simp: acquire_quarantine_guard_def intro!: dual_request_frame find_quarantine_cong split: if_split_asm option.split_asm)

lemma reconcile_approval:
  assumes "validate_reconcile_approval g i name t s = (r, s')"
  shows "find_quarantine s' = find_quarantine s \<and>
    (is_ok r \<longrightarrow> dual_request s i name t \<and> qi_status (qg_row g) = RecoveryRequired)"
proof -
  obtain a s1 where a: "approval_check i name t s = (a, s1)" by (rule prod.exhaust)
  have "find_quarantine s1 = find_quarantine s \<and> (is_ok a \<longrightarrow> a = Inr (dual_request s i name t))"
    using a unfolding approval_check_def
  proof (rule transaction_cases)
    fix u x assume u: "u = snd (next_outcome s)" "(if \<not> approval_lockable u i then Inl db_error else Inr (dual_request u i name t, u)) = Inr (x, s1)"
      "a = Inr x \<or> a = Inl db_error"
    have "dual_request u = dual_request s" "find_quarantine u = find_quarantine s"
      using u(1) by (auto intro!: dual_request_frame find_quarantine_cong)
    then show ?thesis using u by (auto split: if_split_asm)
  qed (auto intro!: find_quarantine_cong)
  then show ?thesis using assms a
    by (cases a) (auto simp: validate_reconcile_approval_def io_bind_def io_return_def io_fail_def split: if_split_asm)
qed

lemma reconcile_guarded:
  assumes run: "reconcile_under_guard X c t q (qi_adapter q) g (s, w) = (r, (s', w'))"
    and g: "qg_row g = q" "qg_upid g = None" "find_quarantine s (qi_id q) = Some q"
  shows "(w' = w \<or> dual_request s (cl_id c) (cl_action_name c) t \<and> qi_status q = RecoveryRequired) \<and>
    (find_quarantine s' = find_quarantine s \<and> (\<exists>e. r = Inl e) \<or>
     find_quarantine s' = (find_quarantine s)(qi_id q \<mapsto> q\<lparr>qi_status := RolledBack\<rparr>) \<and> qi_status q = RecoveryRequired \<and>
       dual_request s (cl_id c) (cl_action_name c) t \<and> fst (prove_remote_completion X q w) = Inr () \<and> snapshot_restored X q w')"
proof -
  obtain a s1 where a: "validate_reconcile_approval g (cl_id c) (cl_action_name c) t s = (a, s1)" by (rule prod.exhaust)
  note ok = reconcile_approval [OF a]
  show ?thesis
  proof (cases a)
    case (Inl e)
    then show ?thesis using run a ok by (auto simp: reconcile_under_guard_def holding_def io_bind_def on_store_def)
  next
    case (Inr u)
    have dual: "dual_request s (cl_id c) (cl_action_name c) t" "qi_status q = RecoveryRequired" using ok Inr g by simp_all
    obtain v w1 where v: "prove_remote_completion X q w = (v, w1)" by (rule prod.exhaust)
    show ?thesis
    proof (cases "is_ok v \<and> is_ok (restore_target q)")
      case False
      then have "find_quarantine s' = find_quarantine s1 \<and> (\<exists>e. r = Inl e)"
        using run a Inr v g
        by (cases v; cases "restore_target q") (auto simp: reconcile_under_guard_def holding_def io_bind_def on_store_def on_world_def)
      then show ?thesis using ok dual by simp
    next
      case True
      then obtain restore where vr: "v = Inr ()" "restore_target q = Inr restore" by (auto simp: is_ok_iff)
      obtain slot s2 w2 where slot: "try_begin_inflight X (qi_adapter q) (s1, w1) = (slot, (s2, w2))"
        by (cases "try_begin_inflight X (qi_adapter q) (s1, w1)") auto
      have s2: "find_quarantine s2 = find_quarantine s1" "w2 = w1" using quarantines_reserve [OF slot] by simp_all
      show ?thesis
      proof (cases "\<exists>k. slot = Inr (Some k)")
        case False
        then have "find_quarantine s' = find_quarantine s2 \<and> (\<exists>e. r = Inl e)"
          using run a Inr v g vr slot
          by (cases slot; cases "to_option slot")
            (auto simp: reconcile_under_guard_def holding_def io_bind_def on_store_def on_world_def io_map_err_def io_fail_def split: option.split_asm)
        then show ?thesis using ok dual s2 by simp
      next
        case True
        then obtain k where k: "slot = Inr (Some k)" by blast
        obtain z w3 where z: "reconcile_rollback X q (qi_adapter q) restore w1 = (z, w3)" by (rule prod.exhaust)
        obtain y s3 where y: "end_firewall_inflight_operation k s2 = (y, s3)" by (rule prod.exhaust)
        have s3: "find_quarantine s3 = find_quarantine s" using quarantines_release_slot [OF y] s2 ok by simp
        show ?thesis
        proof (cases z)
          case (Inl e)
          then have "find_quarantine s' = find_quarantine s3 \<and> (\<exists>e. r = Inl e)"
            using run a Inr v g vr slot s2 k z y
            by (auto simp: reconcile_under_guard_def holding_def io_bind_def on_store_def on_world_def io_map_err_def attempt_def ignoring_def)
          then show ?thesis using s3 dual by simp
        next
          case z': (Inr u')
          obtain x s4 where x: "q_resolve_rollback g s3 = (x, s4)" by (rule prod.exhaust)
          have "find_quarantine s' = find_quarantine s4 \<and> w' = w3 \<and> r = x"
            using run a Inr v g vr slot s2 k z y z' x
            by (cases x) (auto simp: reconcile_under_guard_def holding_def io_bind_def on_store_def on_world_def io_map_err_def attempt_def ignoring_def)
          moreover have "q_result g RolledBack x s3 s4" using q_rollback_result [OF x] g s3 by simp
          moreover have "snapshot_restored X q w3"
            using rollback_target_restores [OF vr(2) z [unfolded reconcile_rollback_def z']] .
          ultimately show ?thesis using s3 dual v vr(1) g(1,2) by (auto simp: q_result_def q_updated_def)
        qed
      qed
    qed
  qed
qed

text \<open>An operator's reconciliation resolves what was approved and nothing else.  A generation changes only when
  it was awaiting reconciliation, this very request is dual-approved for the same target, the outcome of
  its remote task has been proven decided, and its recorded snapshot has been restored and read back; then
  it is rolled back.  Without that approval the outside world is not even asked.\<close>

theorem quarantine_reconcile_exact:
  assumes "reconcile X c (s, w) = (r, (s', w'))" and "distinct (map qi_id (st_quarantines s))"
  shows "(w' \<noteq> w \<longrightarrow> (\<exists>t. cl_target c = Some t \<and> dual_request s (cl_id c) (cl_action_name c) t)) \<and>
    (find_quarantine s' = find_quarantine s \<and> (\<exists>e. r = Inl e) \<or>
     (\<exists>i q t. find_quarantine s i = Some q \<and> find_quarantine s' = (find_quarantine s)(i \<mapsto> q\<lparr>qi_status := RolledBack\<rparr>) \<and>
        qi_status q = RecoveryRequired \<and> cl_target c = Some t \<and> dual_request s (cl_id c) (cl_action_name c) t \<and>
        fst (prove_remote_completion X q w) = Inr () \<and> snapshot_restored X q w'))"
proof -
  have quiet: ?thesis if "w' = w" "find_quarantine s' = find_quarantine s" "\<exists>e. r = Inl e" using that by simp
  show ?thesis
  proof (cases "\<exists>t kind ctx adapter fp. cl_target c = Some t \<and> from_reconcile_action_name (cl_action_name c) = Some kind \<and>
      validate_context (quarantine_action_name kind) t False = Inr ctx \<and>
      (case qc_target ctx of
          QDocker i \<Rightarrow> Inr (''docker'', i)
        | QProxmox n v \<Rightarrow> Inr (''proxmox'', vm_fingerprint n v)
        | QTailscale _ \<Rightarrow> Inl [Lit ''Tailscale reconciliation requires manual review'']) = Inr (adapter, fp)")
    case False
    then have "s' = s \<and> w' = w \<and> (\<exists>e. r = Inl e)"
      using assms(1) by (auto simp: reconcile_def io_bind_lift ok_or_Inl_iff split: sum.split_asm)
    then show ?thesis by (intro quiet) simp_all
  next
    case True
    then obtain t kind ctx adapter fp where c: "cl_target c = Some t" "from_reconcile_action_name (cl_action_name c) = Some kind"
      "validate_context (quarantine_action_name kind) t False = Inr ctx"
      "(case qc_target ctx of
          QDocker i \<Rightarrow> Inr (''docker'', i)
        | QProxmox n v \<Rightarrow> Inr (''proxmox'', vm_fingerprint n v)
        | QTailscale _ \<Rightarrow> Inl [Lit ''Tailscale reconciliation requires manual review'']) = Inr (adapter, fp)" by blast
    obtain f s1 where f: "active_quarantine_intent_for adapter fp s = (f, s1)" by (rule prod.exhaust)
    have s1: "same_authority s s1" and found: "is_ok f \<longrightarrow> f = Inr (List.find (\<lambda>q. qi_adapter q = adapter \<and>
        qi_fingerprint q = fp \<and> active (qi_status q)) (st_quarantines s))"
      using authority_query [OF f [unfolded active_quarantine_intent_for_def]] quarantines_query [OF f [unfolded active_quarantine_intent_for_def]]
      by simp_all
    show ?thesis
    proof (cases "\<exists>q. f = Inr (Some q)")
      case False
      then have "s' = s1 \<and> w' = w \<and> (\<exists>e. r = Inl e)" using assms(1) c f
        by (cases f; cases "to_option f") (auto simp: reconcile_def io_bind_def [of "on_store _"] on_store_def split: option.split_asm)
      then show ?thesis using s1 by (intro quiet) (simp_all add: same_authority_def)
    next
      case True
      then obtain q where q: "f = Inr (Some q)" by blast
      then have "List.find (\<lambda>q. qi_adapter q = adapter \<and> qi_fingerprint q = fp \<and> active (qi_status q)) (st_quarantines s) = Some q"
        using found by simp
      then have qs: "q \<in> set (st_quarantines s)" "qi_adapter q = adapter" by (auto simp: find_Some_iff)
      have fq: "find_quarantine s (qi_id q) = Some q"
      proof -
        obtain p where p: "find_quarantine s (qi_id q) = Some p"
          using qs(1) by (cases "find_quarantine s (qi_id q)") (auto simp: find_quarantine_def find_None_iff)
        then have "p = q" using find_quarantine_id [OF p] qs(1) assms(2) by (auto simp: distinct_map inj_on_def)
        then show ?thesis using p by simp
      qed
      obtain a s2 where a: "acquire_quarantine_guard (qi_id q) s1 = (a, s2)" by (rule prod.exhaust)
      have s2: "same_authority s s2" using same_authority_trans [OF s1 authority_acquire [OF a]] .
      show ?thesis
      proof (cases "\<exists>g. a = Inr (Some g)")
        case False
        then have "s' = s2 \<and> w' = w \<and> (\<exists>e. r = Inl e)" using assms(1) c f q a
          by (cases a; cases "to_option a") (auto simp: reconcile_def io_bind_def on_store_def io_fail_def split: option.split_asm)
        then show ?thesis using s2 by (intro quiet) (simp_all add: same_authority_def)
      next
        case True
        then obtain g where g: "a = Inr (Some g)" by blast
        have gq: "qg_row g = q \<and> qg_upid g = None"
          using a g s1 fq by (cases rule: acquire_quarantine_cases) (auto simp: same_authority_def)
        have "reconcile_under_guard X c t q (qi_adapter q) g (s2, w) = (r, (s', w'))"
          using assms(1) c f q a g qs(2) by (auto simp: reconcile_def io_bind_def on_store_def)
        from reconcile_guarded [OF this] have "(w' = w \<or> dual_request s (cl_id c) (cl_action_name c) t) \<and>
            (find_quarantine s' = find_quarantine s \<and> (\<exists>e. r = Inl e) \<or>
             find_quarantine s' = (find_quarantine s)(qi_id q \<mapsto> q\<lparr>qi_status := RolledBack\<rparr>) \<and> qi_status q = RecoveryRequired \<and>
             dual_request s (cl_id c) (cl_action_name c) t \<and> fst (prove_remote_completion X q w) = Inr () \<and> snapshot_restored X q w')"
          using gq s2 fq by (simp add: same_authority_def) blast
        then show ?thesis using c(1) fq by blast
      qed
    qed
  qed
qed

section \<open>Witnesses\<close>

text \<open>A container that can be isolated, and a claimed request for it that two people have approved.\<close>

definition native_executor :: "bool executor_env" where
  "native_executor = example_executor\<lparr>xe_docker_env := example_docker, xe_docker := example_docker_adapter\<rparr>"

definition native_target :: json where
  "native_target = JObj [(''container_id'', JStr example_container), (''data_owner'', JStr ''team''), (''kind'', JStr ''docker''),
     (''management_network_plan'', JStr ''console''), (''snapshot_restore_reference'', JStr ''networks'')]"

definition native_execution :: "string \<Rightarrow> execution_row" where
  "native_execution name = \<lparr> ex_id = 10, ex_action = 1, ex_workflow = None, ex_decision = None, ex_requested_by = ''eve'',
     ex_requester = Some 4, ex_status = ExStarting, ex_idempotency_key = None, ex_required_approvals = 2,
     ex_approval_expires = Some 4600,
     ex_context = JObj [(''action_id'', JStr ''1''), (''action_name'', JStr name), (''required_approvals'', JInt 2),
       (''requires_approval'', JBool True), (''risk_level'', JStr ''critical''), (''target'', native_target), (''version'', JInt 1)],
     ex_context_hash = Some ''5f'', ex_started = Some 1000, ex_timeout = 60, ex_retry_count = 0, ex_max_retries = 3,
     ex_next_retry = None \<rparr>"

definition approved_store :: "string \<Rightarrow> store" where
  "approved_store name = example_store\<lparr>st_next := 11, st_executions := [native_execution name],
     st_actions := [\<lparr> ac_id = 1, ac_name = name, ac_risk_level = ''critical'', ac_enabled = True, ac_requires_approval = True \<rparr>],
     st_policies := [\<lparr> po_risk_level = ''critical'', po_required_approvals = 2, po_timeout = 3600 \<rparr>],
     st_approvals := map (\<lambda>(i, n). \<lparr> ap_execution = 10, ap_approver = i, ap_name = n, ap_hash = ''5f'', ap_mode = Distinct_Person \<rparr>)
       [(2, ''ann''), (3, ''bob'')]\<rparr>"

definition native_claimed :: store where
  "native_claimed = approved_store ''docker.quarantine_container''"

definition native_request :: claimed_request where
  "native_request = \<lparr> cl_id = 10, cl_action_name = ''docker.quarantine_container'', cl_target = Some native_target \<rparr>"

definition native_run :: "(msg + unit) \<times> store \<times> bool" where
  "native_run = apply_prepared native_executor example_hash 0 native_request (native_claimed, True)"

lemma native_run_ok: "case native_run of (r, (s, w)) \<Rightarrow> r = Inr () \<and> \<not> w \<and>
    map (\<lambda>q. (qi_id q, qi_status q)) (st_quarantines s) = [(11, Completed)]"
  by code_simp

lemma quarantine_apply_owned_witness:
  "\<exists>s w q. native_run = (Inr (), (s, w)) \<and> \<not> w \<and> find_quarantine s (st_next native_claimed) = Some q \<and> qi_status q = Completed \<and>
     is_ok (restore_target q)"
proof -
  obtain r s w where run: "native_run = (r, (s, w))" by (cases native_run) auto
  then have ok: "r = Inr ()" "\<not> w" using native_run_ok unfolding run by simp_all
  have "st_quarantines native_claimed = []" by (simp add: native_claimed_def approved_store_def example_store_def)
  then show ?thesis
    using quarantine_apply_owned [OF run [unfolded native_run_def]] run ok by fastforce
qed

text \<open>The completed generation of that container.\<close>

definition native_row :: "generation_status \<Rightarrow> quarantine_row" where
  "native_row st = \<lparr> qi_id = 3, qi_execution = 5, qi_adapter = ''docker'', qi_action_name = ''docker.quarantine_container'',
     qi_fingerprint = example_container, qi_target_json = native_target, qi_preflight = JObj [],
     qi_plan = JObj [(''networks'', networks_to_json [example_network])], qi_ttl = 60, qi_expires = 900, qi_status = st, qi_upid = None \<rparr>"

definition native_store :: "generation_status \<Rightarrow> store" where
  "native_store st = example_store\<lparr>st_next := 12, st_quarantines := [native_row st]\<rparr>"

lemma native_store_row: "find_quarantine (native_store st) 3 = Some (native_row st)"
  by (simp add: find_quarantine_def native_store_def native_row_def)

lemma native_recovered:
  "case recover_quarantine native_executor 3 (native_store Completed, False) of
     (r, (s, w)) \<Rightarrow> r = Inr Restored \<and> w \<and> map_option qi_status (find_quarantine s 3) = Some RolledBack"
  by code_simp

lemma quarantine_recovery_exact_witness:
  "\<exists>s' q'. recover_quarantine native_executor 3 (native_store Completed, False) = (Inr Restored, (s', True)) \<and>
     find_quarantine s' 3 = Some q' \<and> qi_status q' = RolledBack \<and> snapshot_restored native_executor (native_row Completed) True"
proof -
  obtain s' where r: "recover_quarantine native_executor 3 (native_store Completed, False) = (Inr Restored, (s', True))"
    using native_recovered by (cases "recover_quarantine native_executor 3 (native_store Completed, False)") auto
  show ?thesis using quarantine_recovery_exact [OF r] native_store_row [of Completed] r by auto
qed

lemma quarantine_sweep_safe_witness:
  "\<exists>s' q'. sweep_quarantines native_executor (native_store Completed, False) = (s', True) \<and> find_quarantine s' 3 = Some q' \<and>
     q' = (native_row Completed)\<lparr>qi_status := RolledBack\<rparr> \<and>
     (\<exists>t u u'. restore_target (native_row Completed) = Inr t \<and>
        restore_rollback native_executor (native_row Completed) t u = (Inr (), u') \<and>
        snapshot_restored native_executor (native_row Completed) u')"
proof -
  have listed: "on_store recoverable_quarantine_intents (native_store Completed, False) = (Inr [native_row Completed], (native_store Completed, False))"
    by code_simp
  have "qi_status (native_row Completed) = Completed" "qi_id (native_row Completed) = 3" by (simp_all add: native_row_def)
  then have run: "case sweep_quarantines native_executor (native_store Completed, False) of
      (s, w) \<Rightarrow> w \<and> map_option qi_status (find_quarantine s 3) = Some RolledBack"
    using native_recovered by (auto simp: sweep_quarantines_def listed split: prod.splits)
  obtain s' where r: "sweep_quarantines native_executor (native_store Completed, False) = (s', True)"
    "map_option qi_status (find_quarantine s' 3) = Some RolledBack"
    using run by (cases "sweep_quarantines native_executor (native_store Completed, False)") auto
  have "distinct (map qi_id (st_quarantines (native_store Completed)))" by (simp add: native_store_def)
  moreover have "qi_status (native_row Completed) = Completed" by (simp add: native_row_def)
  ultimately show ?thesis
    using quarantine_sweep_safe [OF r(1) _ native_store_row] r by fastforce
qed

lemma native_queries: "queries_read_only native_executor"
proof -
  have "reads_only (docker_networks example_docker i)" for i
    by (simp add: reads_only_def docker_networks_def docker_run_def docker_run_from.simps example_docker_def io_bind_def
        io_map_err_def io_lift_def)
  then show ?thesis
    by (simp add: queries_read_only_def native_executor_def example_executor_def reads_only_def ticket_def read_net0_def
        device_tags_def access_token_def ts_credentials_def tailscale_new_def Proxmox_Quarantine.credentials_def io_bind_def io_lift_def)
qed

lemma quarantine_dispatch_read_only_witness:
  "\<exists>ok result error receipts. dispatch_quarantine native_executor example_hash 0 native_request (native_store Completed, True) =
     ((ok, result, error, receipts), (native_store Completed, True)) \<and> (\<forall>r \<in> set receipts. dr_dry_run r)"
proof -
  obtain ok result error receipts m where run: "dispatch_quarantine native_executor example_hash 0 native_request
      (native_store Completed, True) = ((ok, result, error, receipts), m)"
    by (cases "dispatch_quarantine native_executor example_hash 0 native_request (native_store Completed, True)") auto
  have "from_action_name (cl_action_name native_request) \<noteq> None" by code_simp
  then show ?thesis using quarantine_dispatch_read_only [OF native_queries _ run] run by auto
qed

text \<open>A generation that waits for an operator, and the approved request to reconcile it.\<close>

definition reconcile_claimed :: store where
  "reconcile_claimed = (approved_store ''docker.reconcile_quarantine'')\<lparr>st_quarantines := [native_row RecoveryRequired]\<rparr>"

definition reconcile_request :: claimed_request where
  "reconcile_request = native_request\<lparr>cl_action_name := ''docker.reconcile_quarantine''\<rparr>"

lemma quarantine_reconcile_exact_witness:
  "\<exists>s' i q. reconcile native_executor reconcile_request (reconcile_claimed, False) = (Inr (), (s', True)) \<and>
     find_quarantine reconcile_claimed i = Some q \<and> find_quarantine s' i = Some (q\<lparr>qi_status := RolledBack\<rparr>) \<and>
     snapshot_restored native_executor q True"
proof -
  have run: "case reconcile native_executor reconcile_request (reconcile_claimed, False) of (r, (s, w)) \<Rightarrow> r = Inr () \<and> w"
    by code_simp
  obtain s' where r: "reconcile native_executor reconcile_request (reconcile_claimed, False) = (Inr (), (s', True))"
    using run by (cases "reconcile native_executor reconcile_request (reconcile_claimed, False)") auto
  have "map qi_id (st_quarantines reconcile_claimed) = [3]" by (simp add: reconcile_claimed_def native_row_def)
  then show ?thesis using quarantine_reconcile_exact [OF r] r by fastforce
qed

end
