(* ===== verification/Executor.thy ===== *)
theory Executor
  imports Quarantine_Runtime
begin

text \<open>
  The executor's main loop (\<^verbatim>\<open>executor/src/main.rs\<close>): the kill switches, the refusals before a dispatch, the
  reservation of in-flight slots, the dispatch of one claimed request with its receipts and its completion,
  and one tick of the loop.  The heartbeats, the status row and logging are left out: they touch tables
  nothing else reads.
\<close>

section \<open>Kill switches\<close>

definition kill_switch_why :: "kill_switch_row \<Rightarrow> string" where
  "kill_switch_why k =
     ''kill-switch request '' @ uuid_text (ks_id k) @ '' ('' @
       (case ks_reason k of Some r \<Rightarrow> r | None \<Rightarrow> ''no reason given'') @ '')''"

definition mark_processed :: "kill_switch_row \<Rightarrow> store \<times> 'w \<Rightarrow> store \<times> 'w" where
  "mark_processed k m = snd (on_store (mark_firewall_kill_switch_request_processed (ks_id k)) m)"

definition resolved_outcome :: "recovery_outcome \<Rightarrow> bool" where
  "resolved_outcome x = (x = Restored \<or> x = Resolved)"

text \<open>The path for a target without a generation.\<close>

definition legacy_kill_switch :: "'w executor_env \<Rightarrow> kill_switch_row \<Rightarrow> store \<times> 'w \<Rightarrow> store \<times> 'w" where
  "legacy_kill_switch X k m =
     (case try_begin_inflight X (ks_adapter k) m of
        (Inr (Some slot), m) \<Rightarrow>
          (case on_world (rollback_target X (ks_adapter k) (ks_target_json k) (kill_switch_why k)) m of (result, m) \<Rightarrow>
           case on_store (end_firewall_inflight_operation slot) m of (_, m) \<Rightarrow>
             (case result of
                Inl _ \<Rightarrow> m
              | Inr _ \<Rightarrow>
                  (case on_store (record_firewall_action_receipt
                       (rollback_receipt (ks_adapter k) ''kill-switch-rollback'' (ks_fingerprint k))) m of
                     (Inl _, m) \<Rightarrow> m
                   | (Inr _, m) \<Rightarrow> mark_processed k m)))
      | (_, m) \<Rightarrow> m)"

definition process_kill_switch :: "'w executor_env \<Rightarrow> kill_switch_row \<Rightarrow> store \<times> 'w \<Rightarrow> store \<times> 'w" where
  "process_kill_switch X k m =
     (case ks_intent k of
        Some i \<Rightarrow>
          (case recover_quarantine X i m of
             (Inr x, m) \<Rightarrow> if resolved_outcome x then mark_processed k m else m
           | (Inl _, m) \<Rightarrow> m)
      | None \<Rightarrow>
          if native_adapter (ks_adapter k) then m
          else
            (case on_store (active_firewall_rule_generation_for (ks_adapter k) (ks_fingerprint k)) m of
               (Inr (Some i), m) \<Rightarrow>
                 (case recover_firewall_rule_generation X i m of (x, m) \<Rightarrow>
                    if resolved_outcome x then mark_processed k m else m)
             | (Inr None, m) \<Rightarrow> legacy_kill_switch X k m
             | (Inl _, m) \<Rightarrow> m))"

definition sweep_kill_switch_requests :: "'w executor_env \<Rightarrow> store \<times> 'w \<Rightarrow> store \<times> 'w" where
  "sweep_kill_switch_requests X m =
     (case on_store pending_firewall_kill_switch_requests m of
        (Inl _, m) \<Rightarrow> m
      | (Inr ks, m) \<Rightarrow> fold (process_kill_switch X) ks m)"

section \<open>Refusals before a dispatch\<close>

definition executor_var :: "'w executor_env \<Rightarrow> env" where
  "executor_var X = ae_env (xe_agent X)"

definition firewall_mass_block_budget_exceeded :: "'w executor_env \<Rightarrow> string \<Rightarrow> bool \<Rightarrow> (store, msg, msg option) io" where
  "firewall_mass_block_budget_exceeded X name dry =
     (if \<not> firewall_budget_applies name dry then io_return None
      else
        (let window = firewall_rate_window_seconds (executor_var X); mx = firewall_max_applies_per_window (executor_var X) in
         io_bind (recent_real_firewall_apply_count window) (\<lambda>count.
         io_return (if count \<ge> mx
           then Some [Lit (''mass-block budget exceeded: '' @ show_int count @ '' real applies already recorded in the last '' @
             show_int window @ ''s (max '' @ show_int mx @
             '', see CLAWFORGE_FIREWALL_MAX_APPLIES_PER_WINDOW/CLAWFORGE_FIREWALL_RATE_WINDOW_SECONDS)'')]
           else None))))"

definition budget_refusal :: "'w executor_env \<Rightarrow> claimed_request \<Rightarrow> store \<times> 'w \<Rightarrow> msg option \<times> store \<times> 'w" where
  "budget_refusal X c m =
     (case on_store (firewall_mass_block_budget_exceeded X (cl_action_name c) (request_dry_run X c)) m of
        (Inr x, m) \<Rightarrow> (x, m)
      | (Inl e, m) \<Rightarrow> (Some (Lit ''could not check mass-block budget: '' # e), m))"

definition approval_refusal :: "'w executor_env \<Rightarrow> claimed_request \<Rightarrow> msg option \<Rightarrow> store \<times> 'w \<Rightarrow> msg option \<times> store \<times> 'w" where
  "approval_refusal X c refusal m =
     (if refusal = None \<and> firewall_budget_applies (cl_action_name c) (request_dry_run X c) then
        (case on_store (firewall_request_live_authorized (cl_id c)) m of
           (Inr True, m) \<Rightarrow> (None, m)
         | (Inr False, m) \<Rightarrow>
             (Some [Lit (''refused live firewall apply: execution '' @ uuid_text (cl_id c) @
                '' is not backed by a genuine approval (a firewall action must be approval-gated and approved to apply for real)'')], m)
         | (Inl e, m) \<Rightarrow> (Some (Lit ''could not check firewall live authorization: '' # e), m))
      else (refusal, m))"

fun reserve_slots :: "'w executor_env \<Rightarrow> string list \<Rightarrow> store \<times> 'w \<Rightarrow> (uuid list \<times> msg option) \<times> store \<times> 'w" where
  "reserve_slots X [] m = (([], None), m)"
| "reserve_slots X (a # as) m =
     (case try_begin_inflight X a m of
        (Inr (Some k), m) \<Rightarrow> (case reserve_slots X as m of ((ks, refusal), m) \<Rightarrow> ((k # ks, refusal), m))
      | (Inr None, m) \<Rightarrow>
          (([], Some [Lit ''concurrency budget exceeded for adapter '', Dbg a,
             Lit '' (see CLAWFORGE_FIREWALL_MAX_CONCURRENT_APPLIES_PER_ADAPTER)'']), m)
      | (Inl e, m) \<Rightarrow> (([], Some (Lit ''could not check concurrency budget: '' # e)), m))"

definition slot_refusal ::
  "'w executor_env \<Rightarrow> claimed_request \<Rightarrow> msg option \<Rightarrow> store \<times> 'w \<Rightarrow> (uuid list \<times> msg option) \<times> store \<times> 'w" where
  "slot_refusal X c refusal m =
     (if refusal = None \<and> firewall_budget_applies (cl_action_name c) (request_dry_run X c)
      then reserve_slots X (adapters_touched_by (executor_var X) (cl_action_name c)) m
      else (([], None), m))"

section \<open>The dispatch of a claimed request\<close>

definition dispatch_claimed ::
  "'w executor_env \<Rightarrow> (json \<Rightarrow> string) \<Rightarrow> int \<Rightarrow> claimed_request \<Rightarrow> msg option \<Rightarrow> store \<times> 'w \<Rightarrow> dispatch_outcome \<times> store \<times> 'w" where
  "dispatch_claimed X context_hash clock c refusal m =
     (case refusal of
        Some e \<Rightarrow> (dispatch_failed e, m)
      | None \<Rightarrow>
          (case try_dispatch_generic (xe_agent X) (xe_json_len X) True c m of
             (Some o', m) \<Rightarrow> (o', m)
           | (None, m) \<Rightarrow> (case dispatch_quarantine X context_hash clock c m of (v, m) \<Rightarrow> (from_legacy v, m))))"

definition release_slots :: "uuid list \<Rightarrow> store \<times> 'w \<Rightarrow> store \<times> 'w" where
  "release_slots ks m = fold (\<lambda>k m. snd (on_store (end_firewall_inflight_operation k) m)) ks m"

definition with_field :: "string \<Rightarrow> json \<Rightarrow> json \<Rightarrow> json" where
  "with_field field plan t =
     (case (t, jget plan field) of (JObj kvs, Some v) \<Rightarrow> JObj (obj_insert field v kvs) | _ \<Rightarrow> t)"

definition receipt_target :: "claimed_request \<Rightarrow> dispatch_receipt \<Rightarrow> json option" where
  "receipt_target c r =
     (let t = (case cl_target c of Some t \<Rightarrow> t | None \<Rightarrow> JObj []) in
      if dr_adapter r = ''docker'' then Some (with_field ''networks'' (dr_plan r) t)
      else if dr_adapter r = ''proxmox'' then Some (with_field ''original_net0'' (dr_plan r) t)
      else cl_target c)"

definition apply_receipt :: "claimed_request \<Rightarrow> dispatch_receipt \<Rightarrow> receipt_input" where
  "apply_receipt c r =
     \<lparr> in_execution = Some (cl_id c), in_adapter = dr_adapter r, in_action_name = cl_action_name c,
       in_preflight = dr_preflight r, in_commands = dr_commands r, in_observed = dr_observed r,
       in_verification = dr_verification r, in_ttl = dr_ttl r, in_plan = dr_plan r, in_dry_run = dr_dry_run r,
       in_kind = ''apply'', in_fingerprint = Some (dr_fingerprint r), in_target_json = receipt_target c r \<rparr>"

fun record_receipts ::
  "'w executor_env \<Rightarrow> claimed_request \<Rightarrow> dispatch_receipt list \<Rightarrow> dispatch_outcome \<Rightarrow> store \<times> 'w \<Rightarrow> dispatch_outcome \<times> store \<times> 'w" where
  "record_receipts X c [] o' m = (o', m)"
| "record_receipts X c (r # rs) o' m =
     (case on_store (record_firewall_action_receipt (apply_receipt c r)) m of
        (Inl _, m) \<Rightarrow> record_receipts X c rs (receipt_persistence_failed (request_dry_run X c) o') m
      | (Inr _, m) \<Rightarrow> record_receipts X c rs o' m)"

definition complete_claimed :: "uuid \<Rightarrow> claimed_request \<Rightarrow> dispatch_outcome \<Rightarrow> (store, msg, unit) io" where
  "complete_claimed worker c o' =
     (if do_completion o' = Dispatch_Recovery
      then complete_execution_dispatch_for_recovery (cl_id c) (Some worker)
      else complete_execution_dispatch (cl_id c) (Some worker) (do_completion o' = Dispatch_Success))"

definition process_claimed ::
  "'w executor_env \<Rightarrow> (json \<Rightarrow> string) \<Rightarrow> int \<Rightarrow> uuid \<Rightarrow> claimed_request \<Rightarrow> store \<times> 'w \<Rightarrow> dispatch_outcome \<times> store \<times> 'w" where
  "process_claimed X context_hash clock worker c m =
     (case budget_refusal X c m of (budget, m) \<Rightarrow>
      case approval_refusal X c budget m of (refusal, m) \<Rightarrow>
      case slot_refusal X c refusal m of ((slots, concurrency), m) \<Rightarrow>
      case dispatch_claimed X context_hash clock c (case refusal of Some e \<Rightarrow> Some e | None \<Rightarrow> concurrency) m of (o', m) \<Rightarrow>
      case record_receipts X c (do_receipts o') (o'\<lparr>do_receipts := []\<rparr>) (release_slots slots m) of (o', m) \<Rightarrow>
        (o', snd (on_store (complete_claimed worker c o') m)))"

section \<open>One tick\<close>

definition sweeps :: "'w executor_env \<Rightarrow> drift_seen \<Rightarrow> store \<times> 'w \<Rightarrow> drift_seen \<times> store \<times> 'w" where
  "sweeps X seen m =
     sweep_active_generation_drift X seen
       (sweep_firewall_rule_generations X (sweep_kill_switch_requests X (sweep_expired_firewall_targets X (sweep_quarantines X m))))"

definition tick ::
  "'w executor_env \<Rightarrow> (json \<Rightarrow> string) \<Rightarrow> int \<Rightarrow> uuid \<Rightarrow> drift_seen \<times> store \<times> 'w \<Rightarrow> drift_seen \<times> store \<times> 'w" where
  "tick X context_hash clock worker st =
     (case st of (seen, m) \<Rightarrow>
      case sweeps X seen m of (seen, m) \<Rightarrow>
      case on_store (claim_execution_request_for_dispatch (Some worker)) m of
        (Inr (Some c), m) \<Rightarrow> (seen, snd (process_claimed X context_hash clock worker c m))
      | (_, m) \<Rightarrow> (seen, m))"

section \<open>What recovery leaves alone\<close>

text \<open>Two states that differ only in the journals, the receipts, the slots, the audit trail and the locks.\<close>

definition same_rest :: "store \<Rightarrow> store \<Rightarrow> bool" where
  "same_rest s t \<longleftrightarrow>
     st_now t = st_now s \<and> st_kill_switches t = st_kill_switches s \<and> st_leases t = st_leases s \<and>
     st_executions t = st_executions s \<and> st_actions t = st_actions s \<and> st_policies t = st_policies s \<and>
     st_approvals t = st_approvals s \<and> st_profile t = st_profile s \<and> st_users t = st_users s \<and>
     st_resolutions t = st_resolutions s \<and> st_ip_listing t = st_ip_listing s \<and> st_asn_listing t = st_asn_listing s"

lemma same_rest_refl [simp]: "same_rest s s"
  by (simp add: same_rest_def)

lemma same_rest_simps [simp]:
  "same_rest s0 (s\<lparr>st_outcomes := a\<rparr>) = same_rest s0 s" "same_rest s0 (s\<lparr>st_locked := b\<rparr>) = same_rest s0 s"
  "same_rest s0 (s\<lparr>st_next := n\<rparr>) = same_rest s0 s" "same_rest s0 (s\<lparr>st_receipts := c\<rparr>) = same_rest s0 s"
  "same_rest s0 (s\<lparr>st_intents := d\<rparr>) = same_rest s0 s" "same_rest s0 (s\<lparr>st_quarantines := e\<rparr>) = same_rest s0 s"
  "same_rest s0 (s\<lparr>st_inflight := f\<rparr>) = same_rest s0 s" "same_rest s0 (s\<lparr>st_audit := g\<rparr>) = same_rest s0 s"
  by (simp_all add: same_rest_def)

lemma row_property_rest [simp]: "row_property (same_rest s0)"
  by (simp add: row_property_def)

lemma rest_bodies:
  "body_keeps (same_rest s0) (guard_transition_body g st)" "body_keeps (same_rest s0) (guard_rollback_body g)"
  "body_keeps (same_rest s0) (q_transition_body h st)" "body_keeps (same_rest s0) (q_rollback_body h)"
  by (auto simp: body_keeps_def guard_rollback_body_def guard_transition_body_def q_rollback_body_def q_transition_body_def
      and_then_Inr_iff fresh_def insert_receipt_def set_status_def q_set_status_def audit_def split: if_split_asm)

lemma rest_outcome [simp]: "same_rest s0 (snd (next_outcome s)) = same_rest s0 s"
  by (cases "st_outcomes s") (simp_all add: next_outcome_def)

lemma rest_outcomeD: "next_outcome s = (x, u) \<Longrightarrow> same_rest s0 s \<Longrightarrow> same_rest s0 u"
  using rest_outcome [of s0 s] by simp

lemma keeps_q_commit:
  assumes "row_property P" "body_keeps P body" "\<And>i s. P s \<Longrightarrow> P (release i s)"
  shows "keeps P (q_commit g body)"
  using keeps_transaction [OF assms(1,2)] assms(3) by (auto simp: keeps_def q_commit_def q_release_def split: prod.split)

lemma rest_commits:
  "keeps (same_rest s0) (guard_recovery_required g)" "keeps (same_rest s0) (guard_resolve_rollback g)"
  "keeps (same_rest s0) (q_recovery_required h)" "keeps (same_rest s0) (q_resolve_rollback h)"
  unfolding guard_recovery_required_def guard_transition_def guard_resolve_rollback_def q_recovery_required_def q_transition_def
    q_resolve_rollback_def
  by (auto intro!: keeps_guard_commit keeps_q_commit rest_bodies simp: release_def)

lemma rest_acquire:
  "keeps (same_rest s0) (acquire_firewall_rule_guard i)" "keeps (same_rest s0) (acquire_quarantine_guard i)"
  unfolding keeps_def acquire_firewall_rule_guard_def acquire_quarantine_guard_def
  by (auto dest: rest_outcomeD split: prod.split option.split)

lemma rest_slots:
  "keeps (\<lambda>(s, w). same_rest s0 s) (try_begin_inflight X a)" "keeps (same_rest s0) (end_firewall_inflight_operation k)"
proof -
  have "keeps (same_rest s0) (try_reserve_firewall_inflight a mx stale)" for mx stale
    unfolding try_reserve_firewall_inflight_def
    by (auto intro!: keeps_intros keeps_transaction simp: body_keeps_def add_slot_def fresh_def)
  then show "keeps (\<lambda>(s, w). same_rest s0 s) (try_begin_inflight X a)" 
    unfolding try_begin_inflight_def Let_def by (rule keeps_on_store)
  show "keeps (same_rest s0) (end_firewall_inflight_operation k)"
    unfolding end_firewall_inflight_operation_def by (rule keeps_execute) simp_all
qed

lemma rest_receipt: "keeps (same_rest s0) (record_firewall_action_receipt input)"
  unfolding record_firewall_action_receipt_def
  by (auto intro!: keeps_intros keeps_transaction simp: body_keeps_def fresh_def Let_def and_then_Inr_iff dest!: insert_receipt_frame)

lemma rest_holding:
  assumes "keeps (\<lambda>(s, w). same_rest s0 s) f"
  shows "keeps (\<lambda>(s, w). same_rest s0 s) (holding g f)"
  unfolding keeps_def
proof (intro allI impI)
  fix m :: "store \<times> 'a" assume m: "case m of (s, w) \<Rightarrow> same_rest s0 s"
  obtain r s w where f: "f m = (r, (s, w))" by (cases "f m") auto
  have "same_rest s0 s" using keepsD [OF assms m f] by simp
  then show "case snd (holding g f m) of (s, w) \<Rightarrow> same_rest s0 s" using f
    by (cases r) (simp_all add: holding_def q_abort_def q_release_def release_def)
qed

lemma rest_guards:
  "keeps (\<lambda>(s, w). same_rest s0 s) (q_dropping g x)" "keeps (\<lambda>(s, w). same_rest s0 s) (dropping r x)"
  by (auto simp: keeps_def q_dropping_def dropping_def q_abort_def q_release_def guard_abort_def release_def)

lemmas rest_intros = keeps_intros keeps_attempt keeps_ignoring keeps_on_store keeps_on_world keeps_sum keeps_query
  rest_commits rest_acquire rest_slots rest_holding rest_guards row_property_rest

lemma rest_recover_quarantine: "keeps (\<lambda>(s, w). same_rest s0 s) (recover_quarantine X i)"
  unfolding recover_quarantine_def restore_generation_def quarantine_intent_def
  by (intro rest_intros)

lemma rest_recover_rule:
  assumes "recover_firewall_rule_generation X i (s, w) = (out, (s', w'))"
  shows "same_rest s s'"
proof -
  have "keeps (\<lambda>(t, w). same_rest s t) (io_bind (attempt (on_store (acquire_firewall_rule_guard i))) (\<lambda>acquired.
     case acquired of
       Inr (Some g) \<Rightarrow> (if ri_status g = Prepared then recover_prepared g else recover_applied X g)
     | Inr None \<Rightarrow>
         io_bind (attempt (on_store (firewall_rule_intent i))) (\<lambda>r.
         io_return (case r of
           Inr (Some q) \<Rightarrow> (if ri_status q = RolledBack \<or> ri_status q = NotApplied then Resolved else Busy)
         | _ \<Rightarrow> Busy))
     | Inl _ \<Rightarrow> io_return Busy))"
    unfolding recover_prepared_def recover_applied_def execution_has_active_lease_def firewall_rule_intent_def
    by (intro rest_intros)
  from keeps_returning [OF this, of "(s, w)"] show ?thesis
    using assms by (simp add: recover_firewall_rule_generation_def)
qed

section \<open>A kill switch is processed only when its target is off\<close>

definition processed_rows :: "kill_switch_row \<Rightarrow> store \<Rightarrow> kill_switch_row list" where
  "processed_rows k s = map (\<lambda>r. if ks_id r = ks_id k \<and> ks_processed r = None then r\<lparr>ks_processed := Some (st_now s)\<rparr> else r)
     (st_kill_switches s)"

lemma mark_processed_done:
  assumes "mark_processed k (s, w) = (s', w')"
  shows "w' = w \<and> st_intents s' = st_intents s \<and> st_quarantines s' = st_quarantines s \<and> st_receipts s' = st_receipts s \<and>
    (st_kill_switches s' = st_kill_switches s \<or> st_kill_switches s' = processed_rows k s)"
proof -
  obtain r s1 where r: "mark_firewall_kill_switch_request_processed (ks_id k) s = (r, s1)" by (rule prod.exhaust)
  then have "s' = s1 \<and> w' = w" using assms by (simp add: mark_processed_def on_store_def)
  then show ?thesis using r unfolding mark_firewall_kill_switch_request_processed_def execute_def
    by (elim transaction_cases) (auto simp: processed_rows_def)
qed

lemma record_rollback_receipt:
  assumes "record_firewall_action_receipt (rollback_receipt a name f) s = (Inr i, s')"
  shows "\<exists>q \<in> set (st_receipts s'). rr_kind q = ''rollback'' \<and> rr_adapter q = a \<and> rr_fingerprint q = Some f"
  using assms unfolding record_firewall_action_receipt_def rollback_receipt_def
  by (auto simp: DEFAULT_FIREWALL_ACTION_TTL_SECONDS_def Let_def fresh_def and_then_Inr_iff insert_receipt_def
      dest!: transaction_Inr split: if_split_asm)

definition switched_off :: "'w executor_env \<Rightarrow> kill_switch_row \<Rightarrow> store \<Rightarrow> 'w \<Rightarrow> store \<Rightarrow> bool" where
  "switched_off X k s w s' \<longleftrightarrow>
     (case ks_intent k of
        Some i \<Rightarrow> \<exists>q. find_quarantine s' i = Some q \<and> \<not> active (qi_status q)
      | None \<Rightarrow>
          \<not> native_adapter (ks_adapter k) \<and>
          ((\<exists>r r'. r \<in> set (st_intents s) \<and> ri_adapter r = ks_adapter k \<and> ri_fingerprint r = ks_fingerprint k \<and>
              active (ri_status r) \<and> find_intent s' (ri_id r) = Some r' \<and> ri_status r' = RolledBack \<and>
              is_ok (fst (ttl_rollback X r w))) \<or>
           (\<forall>r \<in> set (st_intents s). ri_adapter r = ks_adapter k \<and> ri_fingerprint r = ks_fingerprint k \<longrightarrow> \<not> active (ri_status r)) \<and>
           is_ok (fst (rollback_target X (ks_adapter k) (ks_target_json k) (kill_switch_why k) w)) \<and>
           (\<exists>q \<in> set (st_receipts s'). rr_kind q = ''rollback'' \<and> rr_adapter q = ks_adapter k \<and> rr_fingerprint q = Some (ks_fingerprint k))))"

lemma legacy_kill_switch_done:
  assumes run: "legacy_kill_switch X k (s, w) = (s', w')" 
  shows "st_kill_switches s' = st_kill_switches s \<or>
    st_kill_switches s' = processed_rows k s \<and>
      is_ok (fst (rollback_target X (ks_adapter k) (ks_target_json k) (kill_switch_why k) w)) \<and>
      (\<exists>q \<in> set (st_receipts s'). rr_kind q = ''rollback'' \<and> rr_adapter q = ks_adapter k \<and> rr_fingerprint q = Some (ks_fingerprint k))"
proof -
  obtain slot s1 w1 where slot: "try_begin_inflight X (ks_adapter k) (s, w) = (slot, (s1, w1))"
    by (cases "try_begin_inflight X (ks_adapter k) (s, w)") auto
  have r1: "same_rest s s1" using keepsD [OF rest_slots(1) _ slot, of s] by simp
  have w1: "w1 = w" using quarantines_reserve [OF slot] by simp
  show ?thesis
  proof (cases "\<exists>i. slot = Inr (Some i)")
    case False
    then have "s' = s1" using run slot
      by (auto simp: legacy_kill_switch_def split: sum.split_asm option.split_asm)
    then show ?thesis using r1 by (simp add: same_rest_def)
  next
    case True
    then obtain i where i: "slot = Inr (Some i)" by blast
    obtain v w2 where v: "rollback_target X (ks_adapter k) (ks_target_json k) (kill_switch_why k) w = (v, w2)" by (rule prod.exhaust)
    obtain y s2 where y: "end_firewall_inflight_operation i s1 = (y, s2)" by (rule prod.exhaust)
    have r2: "same_rest s s2" using keepsD [OF rest_slots(2) r1 y] .
    obtain z s3 where z: "record_firewall_action_receipt (rollback_receipt (ks_adapter k) ''kill-switch-rollback'' (ks_fingerprint k)) s2
        = (z, s3)" by (rule prod.exhaust)
    have r3: "same_rest s s3" using keepsD [OF rest_receipt r2 z] .
    show ?thesis
    proof (cases "is_ok v \<and> is_ok z")
      case False
      then have "s' = s2 \<or> s' = s3" using run slot i w1 v y z
        by (cases v; cases z) (simp_all add: legacy_kill_switch_def on_world_def on_store_def)
      then show ?thesis using r2 r3 by (auto simp: same_rest_def)
    next
      case True
      then have "mark_processed k (s3, w2) = (s', w')" using run slot i w1 v y z
        by (cases v; cases z) (simp_all add: legacy_kill_switch_def on_world_def on_store_def)
      from mark_processed_done [OF this] show ?thesis
        using True v z record_rollback_receipt [of "ks_adapter k" "''kill-switch-rollback''" "ks_fingerprint k" s2 _ s3] r3
        by (cases z) (auto simp: same_rest_def processed_rows_def)
    qed
  qed
qed

text \<open>C2 An honest kill switch.  A request is marked processed only when what it names is off: the quarantine
  generation it is bound to is resolved; or the active generation of its rule has been rolled back by its
  own recovery; or no generation owns the rule, the adapter has reported the target rolled back and the
  receipt of that rollback is recorded.  A request for a native quarantine without a bound generation is
  never processed, and no other request changes.\<close>

theorem kill_switch_honest:
  assumes "process_kill_switch X k (s, w) = (s', w')"
    and "journal_ok (st_intents s) (st_receipts s) (st_next s)"
  shows "st_kill_switches s' = st_kill_switches s \<or> st_kill_switches s' = processed_rows k s \<and> switched_off X k s w s'"
proof (cases "ks_intent k")
  case (Some i)
  obtain r s1 w1 where r: "recover_quarantine X i (s, w) = (r, (s1, w1))" by (cases "recover_quarantine X i (s, w)") auto
  have r1: "same_rest s s1" using keepsD [OF rest_recover_quarantine _ r, of s] by simp
  show ?thesis
  proof (cases "\<exists>x. r = Inr x \<and> resolved_outcome x")
    case False
    then have "s' = s1" using assms(1) Some r by (auto simp: process_kill_switch_def split: sum.split_asm if_split_asm)
    then show ?thesis using r1 by (simp add: same_rest_def)
  next
    case True
    then have run: "mark_processed k (s1, w1) = (s', w')" using assms(1) Some r by (auto simp: process_kill_switch_def)
    have "\<exists>q. find_quarantine s1 i = Some q \<and> \<not> active (qi_status q)"
      using recover_quarantine_done [OF r] True find_quarantine_id [of s i]
      by (cases "find_quarantine s i") (auto simp: resolved_outcome_def quarantine_recovered_def active_def)
    then have "switched_off X k s w s'"
      using mark_processed_done [OF run] find_quarantine_cong [of s' s1] Some by (simp add: switched_off_def)
    then show ?thesis using mark_processed_done [OF run] r1 by (auto simp: same_rest_def processed_rows_def)
  qed
next
  case None
  show ?thesis
  proof (cases "native_adapter (ks_adapter k)")
    case True
    then show ?thesis using assms(1) None by (simp add: process_kill_switch_def)
  next
    case False
    obtain a s1 where a: "active_firewall_rule_generation_for (ks_adapter k) (ks_fingerprint k) s = (a, s1)" by (rule prod.exhaust)
    let ?find = "List.find (\<lambda>r. ri_adapter r = ks_adapter k \<and> ri_fingerprint r = ks_fingerprint k \<and> active (ri_status r)) (st_intents s)"
    have s1: "same_journal s s1" "same_rest s s1"
      using same_journal_query [OF a [unfolded active_firewall_rule_generation_for_def]]
        keepsD [OF keeps_query [OF row_property_rest] _ a [unfolded active_firewall_rule_generation_for_def], of s] by simp_all
    have found: "is_ok a \<longrightarrow> a = Inr (map_option ri_id ?find)"
      using quarantines_query [OF a [unfolded active_firewall_rule_generation_for_def]] by simp
    have good: "journal_good s" using assms(2) by (simp add: journal_good_def)
    then have good1: "journal_good s1" "find_intent s1 = find_intent s"
      using same_journal_good [OF s1(1)] same_journal_find [OF s1(1)] by simp_all
    consider (failed) "\<not> is_ok a" | (owned) r where "?find = Some r" "a = Inr (Some (ri_id r))" | (free) "?find = None" "a = Inr None"
    proof (cases "is_ok a")
      case True
      then have "a = Inr (map_option ri_id ?find)" using found by blast
      then show ?thesis using that(2,3) by (cases ?find) simp_all
    qed (rule that(1))
    then show ?thesis
    proof cases
      case failed
      then have "s' = s1" using assms(1) None False a by (cases a) (simp_all add: process_kill_switch_def on_store_def)
      then show ?thesis using s1(2) by (simp add: same_rest_def)
    next
      case (owned r)
      obtain x s2 w2 where x: "recover_firewall_rule_generation X (ri_id r) (s1, w) = (x, (s2, w2))"
        by (cases "recover_firewall_rule_generation X (ri_id r) (s1, w)") auto
      have r2: "same_rest s s2" using rest_recover_rule [OF x] s1(2) by (simp add: same_rest_def)
      show ?thesis
      proof (cases "resolved_outcome x")
        case nope: False
        then have "s' = s2" using assms(1) None False a owned(2) x by (simp add: process_kill_switch_def on_store_def)
        then show ?thesis using r2 by (simp add: same_rest_def)
      next
        case True
        then have run: "mark_processed k (s2, w2) = (s', w')"
          using assms(1) None False a owned(2) x by (simp add: process_kill_switch_def on_store_def)
        have r: "r \<in> set (st_intents s)" "ri_adapter r = ks_adapter k" "ri_fingerprint r = ks_fingerprint k" "active (ri_status r)"
          using owned(1) by (auto simp: find_Some_iff)
        have "find_intent s (ri_id r) = Some r"
          using r(1) good find_intent_row by (auto simp: journal_good_def journal_ok_def)
        then have "recovery_done X r w x s2 w2"
          using recover_generation [OF x good1(1)] good1(2) r(4) by simp
        then obtain r' where "find_intent s2 (ri_id r) = Some r'" "ri_status r' = RolledBack" "is_ok (fst (ttl_rollback X r w))"
          using True by (auto simp: recovery_done_def resolved_outcome_def)
        then have "switched_off X k s w s'"
          using mark_processed_done [OF run] find_intent_cong [of s' s2] None False r by (auto simp: switched_off_def)
        then show ?thesis using mark_processed_done [OF run] r2 by (auto simp: same_rest_def processed_rows_def)
      qed
    next
      case free
      then have run: "legacy_kill_switch X k (s1, w) = (s', w')"
        using assms(1) None False a by (simp add: process_kill_switch_def on_store_def)
      have "\<forall>r \<in> set (st_intents s). ri_adapter r = ks_adapter k \<and> ri_fingerprint r = ks_fingerprint k \<longrightarrow> \<not> active (ri_status r)"
        using free(1) by (auto simp: find_None_iff)
      then show ?thesis using legacy_kill_switch_done [OF run] None False s1(2)
        by (auto simp: switched_off_def same_rest_def processed_rows_def)
    qed
  qed
qed

section \<open>No live change without budget, approval and slot\<close>

lemma live_authorized_rest:
  assumes "same_rest s t"
  shows "live_authorized t = live_authorized s"
proof -
  have rows: "find_execution t = find_execution s" "find_action t = find_action s" "find_policy t = find_policy s"
    using assms by (simp_all add: fun_eq_iff find_execution_def find_action_def find_policy_def same_rest_def)
  have prof: "clawforge_approval_profile t = clawforge_approval_profile s"
    using assms by (simp add: clawforge_approval_profile_def same_rest_def split: option.split)
  have checks: "independent_approvers t = independent_approvers s" "unexpired t = unexpired s" "operator_confirmed t = operator_confirmed s"
    using assms by (simp_all split: option.split add: fun_eq_iff independent_approvers_def unexpired_def operator_confirmed_def prof same_rest_def)
  show ?thesis by (rule ext) (simp only: live_authorized_def rows checks)
qed

lemma unrouted_not_firewall:
  assumes "try_dispatch_generic E json_len b c m = (Some o', m')" "\<not> dispatch_dry_run (ae_parse_json E) (ae_env E) c"
  shows "firewall_budget_applies (cl_action_name c) False"
proof -
  obtain cl where "action_class (cl_action_name c) = Some cl" using live_dispatch_aux [OF assms(2)] by blast
  then show ?thesis
    by (auto simp: action_class_def firewall_budget_applies_def is_firewall_action_def action_name_defs split: if_split_asm)
qed

text \<open>A request that no rule adapter handles changes nothing.\<close>

lemma dispatch_quarantine_quiet:
  assumes "queries_read_only X" "fst (try_dispatch_generic (xe_agent X) (xe_json_len X) True c (s, w)) = None"
  shows "snd (dispatch_quarantine X context_hash clock c (s, w)) = (s, w)"
proof -
  have t: "try_dispatch_generic (xe_agent X) (xe_json_len X) True c (s, w) = (None, (s, w))"
    using assms(2)
    by (auto simp: try_dispatch_generic_def try_dispatch_generic_with_mode_def Let_def split: if_split_asm option.split_asm sum.split_asm prod.split_asm)
  have gate: "snd (gated f a b (s, w)) = (s, w)" for f :: "(store \<times> 'a, msg, unit) io" and a b
    by (simp add: gated_def ensure_live_dispatch_disabled_def)
  have native: "snd (on_world_value f (s, w)) = (s, w)"
    if "request_dry_run X c" "f = dispatch_docker X c \<or> f = dispatch_proxmox X c \<or> f = dispatch_tailscale X c" for f
    using dispatch_native_planned [OF assms(1) that, of w] by (cases "f w") (simp add: on_world_value_def)
  have "snd (dispatch X c (s, w)) = (s, w)"
    if "request_dry_run X c \<or> from_action_name (cl_action_name c) = None"
    using that native
    by (auto simp: dispatch_def t from_action_name_def TAILSCALE_ACTION_PREFIX_def PROXMOX_QUARANTINE_ACTION_def
        DOCKER_QUARANTINE_ACTION_def split: if_split_asm)
  then show ?thesis using gate by (auto simp: dispatch_quarantine_def)
qed

lemma dispatch_claimed_quiet:
  assumes "queries_read_only X" "\<forall>name A t v. adapter_for_action (xe_agent X) name = Some A \<longrightarrow> snd (ad_preflight A t v) = v"
    and run: "dispatch_claimed X context_hash clock c refusal (s, w) = (o', (s', w'))"
  shows "(s', w') = (s, w) \<or> refusal = None \<and> \<not> request_dry_run X c \<and> firewall_budget_applies (cl_action_name c) False"
proof (cases refusal)
  case (Some e)
  then show ?thesis using run by (simp add: dispatch_claimed_def)
next
  case None
  obtain p m where t: "try_dispatch_generic (xe_agent X) (xe_json_len X) True c (s, w) = (p, m)" by (rule prod.exhaust)
  show ?thesis
  proof (cases p)
    case None
    then have "m = (s, w)" using t
      by (auto simp: try_dispatch_generic_def try_dispatch_generic_with_mode_def Let_def split: if_split_asm option.split_asm sum.split_asm prod.split_asm)
    then show ?thesis using run \<open>refusal = None\<close> t None dispatch_quarantine_quiet [OF assms(1), of c s w context_hash clock]
      by (auto simp: dispatch_claimed_def split: prod.split_asm)
  next
    case (Some o2)
    then have m: "m = (s', w')" using run \<open>refusal = None\<close> t by (auto simp: dispatch_claimed_def)
    show ?thesis
    proof (cases "request_dry_run X c")
      case True
      then show ?thesis using dry_dispatch [OF t [unfolded Some m] _ assms(2)] by (simp add: request_dry_run_def)
    next
      case False
      then show ?thesis using unrouted_not_firewall [OF t [unfolded Some]] \<open>refusal = None\<close> by (simp add: request_dry_run_def)
    qed
  qed
qed

definition applies_below_budget :: "'w executor_env \<Rightarrow> store \<Rightarrow> bool" where
  "applies_below_budget X s \<longleftrightarrow>
     int (length (filter (\<lambda>r. \<not> rr_dry_run r \<and> rr_kind r = ''apply'' \<and>
       rr_created r > st_now s - firewall_rate_window_seconds (executor_var X)) (st_receipts s)))
     < firewall_max_applies_per_window (executor_var X)"

definition slot_free :: "'w executor_env \<Rightarrow> string \<Rightarrow> store \<Rightarrow> bool" where
  "slot_free X a s \<longleftrightarrow> int (length (live_slots s a (firewall_inflight_stale_seconds (executor_var X))))
     < firewall_max_concurrent_applies_per_adapter (executor_var X)"

lemma budget_refusal_none:
  assumes "budget_refusal X c (s, w) = (refusal, (s', w'))"
  shows "w' = w \<and> same_rest s s' \<and> st_inflight s' = st_inflight s \<and>
    (refusal = None \<and> firewall_budget_applies (cl_action_name c) (request_dry_run X c) \<longrightarrow> applies_below_budget X s)"
proof -
  obtain r s1 where r: "firewall_mass_block_budget_exceeded X (cl_action_name c) (request_dry_run X c) s = (r, s1)" by (rule prod.exhaust)
  then have out: "refusal = (case r of Inr x \<Rightarrow> x | Inl e \<Rightarrow> Some (Lit ''could not check mass-block budget: '' # e))" "s' = s1" "w' = w"
    using assms by (auto simp: budget_refusal_def on_store_def split: sum.split_asm)
  show ?thesis
  proof (cases "firewall_budget_applies (cl_action_name c) (request_dry_run X c)")
    case False
    then have "s1 = s" using r by (simp add: firewall_mass_block_budget_exceeded_def)
    then show ?thesis using out False by simp
  next
    case True
    let ?window = "firewall_rate_window_seconds (executor_var X)"
    let ?count = "\<lambda>u. int (length (filter (\<lambda>r. \<not> rr_dry_run r \<and> rr_kind r = ''apply'' \<and> rr_created r > st_now u - ?window) (st_receipts u)))"
    obtain q s2 where q: "recent_real_firewall_apply_count ?window s = (q, s2)" by (rule prod.exhaust)
    have "s2 = s \<and> (\<exists>e. q = Inl e) \<or> query ?count s = (q, s2)"
      using q by (auto simp: recent_real_firewall_apply_count_def split: if_split_asm)
    then have "same_rest s s2 \<and> st_inflight s2 = st_inflight s \<and> (is_ok q \<longrightarrow> q = Inr (?count s))"
    proof
      assume "query ?count s = (q, s2)"
      then show ?thesis unfolding query_def by (elim transaction_cases) (auto simp: db_error_def)
    qed auto
    moreover have "s1 = s2 \<and> (\<forall>z. r = Inr z \<longrightarrow> is_ok q \<and> (z = None \<longrightarrow> \<not> (\<forall>n. q = Inr n \<longrightarrow> n \<ge> firewall_max_applies_per_window (executor_var X))))"
      using r q True by (cases q) (auto simp: firewall_mass_block_budget_exceeded_def Let_def io_bind_def io_return_def split: if_split_asm)
    ultimately show ?thesis using out
      by (cases r) (auto simp: applies_below_budget_def is_ok_iff)
  qed
qed

lemma approval_refusal_none:
  assumes "approval_refusal X c refusal (s, w) = (refusal', (s', w'))"
  shows "w' = w \<and> same_rest s s' \<and> st_inflight s' = st_inflight s \<and>
    (refusal' = None \<longrightarrow> refusal = None \<and>
       (firewall_budget_applies (cl_action_name c) (request_dry_run X c) \<longrightarrow> live_authorized s (cl_id c)))"
proof (cases "refusal = None \<and> firewall_budget_applies (cl_action_name c) (request_dry_run X c)")
  case False
  then show ?thesis using assms by (auto simp: approval_refusal_def split: if_split_asm)
next
  case True
  obtain r s1 where r: "firewall_request_live_authorized (cl_id c) s = (r, s1)" by (rule prod.exhaust)
  have "same_rest s s1 \<and> st_inflight s1 = st_inflight s \<and> (is_ok r \<longrightarrow> r = Inr (live_authorized s (cl_id c)))"
    using r live_authorized_rest [of s "snd (next_outcome s)"] unfolding firewall_request_live_authorized_def query_def
    by (elim transaction_cases) (auto simp: db_error_def)
  moreover have "s' = s1 \<and> w' = w \<and> (refusal' = None \<longrightarrow> r = Inr True)"
    using assms True r by (auto simp: approval_refusal_def on_store_def split: sum.split_asm bool.split_asm)
  ultimately show ?thesis using True by (cases r) auto
qed

lemma reserve_one:
  assumes "try_begin_inflight X a (s, w) = (r, (s', w'))"
  shows "w' = w \<and> same_rest s s' \<and> set (st_inflight s) \<subseteq> set (st_inflight s') \<and>
    (\<forall>b d. length (live_slots s b d) \<le> length (live_slots s' b d)) \<and> (\<forall>k. r = Inr (Some k) \<longrightarrow> slot_free X a s)"
proof -
  let ?mx = "firewall_max_concurrent_applies_per_adapter (executor_var X)"
  let ?d = "firewall_inflight_stale_seconds (executor_var X)"
  obtain q s1 where q: "try_reserve_firewall_inflight a ?mx ?d s = (q, s1)" by (rule prod.exhaust)
  then have e: "r = q" "s' = s1" "w' = w" using assms by (simp_all add: try_begin_inflight_def executor_var_def Let_def on_store_def)
  have rest: "same_rest s s1" using keepsD [OF rest_slots(1) _ assms, of s] e by simp
  have "set (st_inflight s) \<subseteq> set (st_inflight s1) \<and> (\<forall>b d. length (live_slots s b d) \<le> length (live_slots s1 b d)) \<and>
      (\<forall>k. q = Inr (Some k) \<longrightarrow> slot_free X a s)"
  proof (cases "?mx \<le> 0 \<or> ?d \<le> 0")
    case True
    then show ?thesis using q by (auto simp: try_reserve_firewall_inflight_def)
  next
    case False
    then show ?thesis using q unfolding try_reserve_firewall_inflight_def
      by (simp, elim transaction_cases)
        (auto simp: add_slot_def fresh_def live_slots_def slot_free_def db_error_def split: if_split_asm)
  qed
  then show ?thesis using e rest by simp
qed

lemma reserve_slots_free:
  assumes "reserve_slots X as (s, w) = ((ks, refusal), (s', w'))"
  shows "w' = w \<and> same_rest s s' \<and> (refusal = None \<longrightarrow> (\<forall>a \<in> set as. slot_free X a s))"
  using assms
proof (induction as arbitrary: s ks)
  case (Cons a as)
  obtain r s1 w1 where r: "try_begin_inflight X a (s, w) = (r, (s1, w1))" by (cases "try_begin_inflight X a (s, w)") auto
  note one = reserve_one [OF r]
  show ?case
  proof (cases "\<exists>k. r = Inr (Some k)")
    case False
    then show ?thesis using Cons.prems r one by (auto split: sum.split_asm option.split_asm)
  next
    case True
    then obtain ks2 where rest: "reserve_slots X as (s1, w) = ((ks2, refusal), (s', w'))"
      using Cons.prems r one by (auto split: prod.split_asm)
    have "slot_free X b s" if "slot_free X b s1" for b
    proof -
      have "int (length (live_slots s b d)) \<le> int (length (live_slots s1 b d))" for d using one by simp
      then show ?thesis using that unfolding slot_free_def by (meson le_less_trans)
    qed
    then show ?thesis using Cons.IH [OF rest] one True by (auto simp: same_rest_def)
  qed
qed simp

lemma world_kept:
  "snd (release_slots ks (s, w)) = w" "snd (snd (record_receipts X c rs o' (s, w))) = w"
proof -
  show "snd (release_slots ks (s, w)) = w"
    unfolding release_slots_def by (induction ks arbitrary: s) (auto simp: on_store_def split: prod.split)
  show "snd (snd (record_receipts X c rs o' (s, w))) = w"
    by (induction rs arbitrary: o' s) (auto simp: on_store_def split: prod.split sum.split)
qed

lemma process_world:
  assumes "budget_refusal X c m = (budget, m1)" "approval_refusal X c budget m1 = (refusal, m2)"
    "slot_refusal X c refusal m2 = ((ks, conc), m3)"
    "dispatch_claimed X context_hash clock c (case refusal of Some e \<Rightarrow> Some e | None \<Rightarrow> conc) m3 = (o2, (s4, w4))"
  shows "snd (snd (process_claimed X context_hash clock worker c m)) = w4"
proof -
  obtain s5 where s5: "release_slots ks (s4, w4) = (s5, w4)" by (metis world_kept(1) prod.collapse)
  obtain o3 s6 where s6: "record_receipts X c (do_receipts o2) (o2\<lparr>do_receipts := []\<rparr>) (s5, w4) = (o3, (s6, w4))"
    by (metis world_kept(2) prod.collapse)
  show ?thesis using assms s5 s6 by (simp add: process_claimed_def on_store_def split: prod.split)
qed

text \<open>C1 Nothing changes outside without budget, approval and slot.  If processing a claimed request has changed
  the outside world at all, then the request was live and for a firewall action, fewer real applies than the
  window allows had been recorded, the request was backed by a genuine approval, and every adapter it
  touches had a free slot; whatever query fails, it is refused instead.\<close>

theorem live_change_authorized:
  assumes "process_claimed X context_hash clock worker c (s, w) = (o', (s', w'))"
    and "\<forall>name A t v. adapter_for_action (xe_agent X) name = Some A \<longrightarrow> snd (ad_preflight A t v) = v" "queries_read_only X"
    and "w' \<noteq> w"
  shows "\<not> request_dry_run X c \<and> firewall_budget_applies (cl_action_name c) False \<and> applies_below_budget X s \<and>
    live_authorized s (cl_id c) \<and> (\<forall>a \<in> set (adapters_touched_by (executor_var X) (cl_action_name c)). slot_free X a s)"
proof -
  obtain budget s1 w1 where b: "budget_refusal X c (s, w) = (budget, (s1, w1))" by (cases "budget_refusal X c (s, w)") auto
  obtain refusal s2 w2 where a: "approval_refusal X c budget (s1, w1) = (refusal, (s2, w2))"
    by (cases "approval_refusal X c budget (s1, w1)") auto
  obtain ks conc s3 w3 where r: "slot_refusal X c refusal (s2, w2) = ((ks, conc), (s3, w3))"
    by (cases "slot_refusal X c refusal (s2, w2)") auto
  let ?refusal = "case refusal of Some e \<Rightarrow> Some e | None \<Rightarrow> conc"
  obtain o2 s4 w4 where d: "dispatch_claimed X context_hash clock c ?refusal (s3, w3) = (o2, (s4, w4))"
    by (cases "dispatch_claimed X context_hash clock c ?refusal (s3, w3)") auto
  note B = budget_refusal_none [OF b] and A = approval_refusal_none [OF a]
  have w3: "w3 = w2" using r reserve_slots_free [of X _ s2 w2] by (auto simp: slot_refusal_def split: if_split_asm)
  have "w' = w4" using process_world [OF b a r d, of worker] assms(1) by simp
  then have "(s4, w4) \<noteq> (s3, w3)" using assms(4) A B w3 by auto
  then have live: "?refusal = None" "\<not> request_dry_run X c" "firewall_budget_applies (cl_action_name c) False"
    using dispatch_claimed_quiet [OF assms(3,2) d] by auto
  then have none: "refusal = None" "conc = None" by (auto split: option.split_asm)
  have "reserve_slots X (adapters_touched_by (executor_var X) (cl_action_name c)) (s2, w2) = ((ks, None), (s3, w3))"
    using r none live by (simp add: slot_refusal_def)
  from reserve_slots_free [OF this] have free: "\<forall>a \<in> set (adapters_touched_by (executor_var X) (cl_action_name c)). slot_free X a s2" by simp
  have slots: "slot_free X a s2 = slot_free X a s" for a using A B by (simp add: slot_free_def live_slots_def same_rest_def)
  have "live_authorized s (cl_id c)" using A B none live live_authorized_rest [of s s1] by simp
  then show ?thesis using free slots live A B none by simp
qed

section \<open>Witnesses\<close>

text \<open>A kill switch for a rule whose generation is still active.\<close>

definition switch_row :: kill_switch_row where
  "switch_row = \<lparr> ks_id = 6, ks_adapter = ''nftables'', ks_fingerprint = ri_fingerprint expired_rule, ks_target_json = JNull,
     ks_reason = None, ks_intent = None, ks_processed = None \<rparr>"

definition switch_store :: store where
  "switch_store = expired_store\<lparr>st_kill_switches := [switch_row]\<rparr>"

lemma kill_switch_honest_witness:
  "\<exists>s' w'. process_kill_switch example_executor switch_row (switch_store, True) = (s', w') \<and>
     st_kill_switches s' = [switch_row\<lparr>ks_processed := Some 1000\<rparr>] \<and> switched_off example_executor switch_row switch_store True s'"
proof -
  have j: "journal_ok (st_intents switch_store) (st_receipts switch_store) (st_next switch_store)"
    by (simp add: switch_store_def expired_store_def journal_ok_def row_ok_def intent_receipts_def expired_rule_def example_rule_def
        generation_receipt_def example_store_def)
  have run: "map ks_processed (st_kill_switches (fst (process_kill_switch example_executor switch_row (switch_store, True)))) = [Some 1000]"
    by code_simp
  obtain s' w' where r: "process_kill_switch example_executor switch_row (switch_store, True) = (s', w')" by (rule prod.exhaust)
  have rows: "st_kill_switches switch_store = [switch_row]" "ks_processed switch_row = None" "st_now switch_store = 1000"
    by (simp_all add: switch_store_def switch_row_def expired_store_def example_store_def)
  have "st_kill_switches s' \<noteq> st_kill_switches switch_store" using run r rows by auto
  then show ?thesis using kill_switch_honest [OF r j] r rows by (auto simp: processed_rows_def)
qed

lemma live_agent_reads:
  assumes "adapter_for_action live_agent name = Some A"
  shows "snd (ad_preflight A t w) = w"
proof -
  have nft: "keeps (\<lambda>u. u = w) (one_host_nft (preflight_command n))" for n
    by (simp add: keeps_def one_host_nft_def preflight_command_def)
  have sock: "keeps (\<lambda>u. u = w) (haproxy_run_command (ae_socket example_agent) p c)" for p c
    by (simp add: keeps_def haproxy_run_command_def example_agent_def)
  have policy: "keeps (\<lambda>u. u = w) (goaway_read_policy (ae_fs example_agent) y c)" for y c
    by (simp add: keeps_def goaway_read_policy_def example_agent_def)
  have "keeps (\<lambda>u. u = w) (ad_preflight A t)"
    using assms
    by (auto simp: adapter_for_action_def nftables_new_def nftables_adapter_def haproxy_new_def haproxy_adapter_def
        runtime_adapter_def haproxy_rate_limit_new_def haproxy_rate_limit_adapter_def goaway_new_def goaway_adapter_def
        nft_preflight_def runtime_preflight_def goaway_preflight_def example_agent_def live_agent_def split: if_split_asm
        intro!: keeps_intros keeps_map_err nft sock [unfolded example_agent_def, simplified] policy [unfolded example_agent_def, simplified])
  then show ?thesis by (simp add: keeps_def)
qed

text \<open>A block that two people have approved, claimed under its own id.\<close>

definition live_store :: store where
  "live_store = (approved_store ''nftables.block_indicator'')
     \<lparr>st_executions := [(native_execution ''nftables.block_indicator'')\<lparr>ex_id := 7\<rparr>],
      st_approvals := map (\<lambda>a. a\<lparr>ap_execution := 7\<rparr>) (st_approvals (approved_store ''nftables.block_indicator''))\<rparr>"

definition live_slot :: store where
  "live_slot = live_store\<lparr>st_next := 12, st_inflight := [\<lparr> if_id = 11, if_adapter = ''nftables'', if_started = 1000 \<rparr>]\<rparr>"

lemma live_store_run:
  "snd (snd (process_claimed native_executor example_hash 0 5 live_rule_request (live_store, False)))"
proof -
  let ?X = native_executor and ?c = live_rule_request
  let ?run = "try_dispatch_generic (xe_agent ?X) (xe_json_len ?X) True ?c (live_slot, False)"
  have b: "budget_refusal ?X ?c (live_store, False) = (None, (live_store, False))" by code_simp
  have a: "approval_refusal ?X ?c None (live_store, False) = (None, (live_store, False))" by code_simp
  have r: "slot_refusal ?X ?c None (live_store, False) = (([11], None), (live_slot, False))" by code_simp
  have "live_slot = example_store\<lparr>st_next := 12, st_inflight := st_inflight live_slot, st_executions := st_executions live_slot,
      st_actions := st_actions live_slot, st_policies := st_policies live_slot, st_approvals := st_approvals live_slot\<rparr>"
    by (simp add: live_slot_def live_store_def approved_store_def)
  moreover have "xe_agent ?X = live_agent" "xe_json_len ?X = (\<lambda>_. 2)" by (simp_all add: native_executor_def example_executor_def)
  ultimately have "case ?run of (Some o', (s', w')) \<Rightarrow> do_completion o' = Dispatch_Success \<and> w' | _ \<Rightarrow> False"
    using live_rule_run by metis
  then obtain o2 s4 where "?run = (Some o2, (s4, True))" by (auto split: prod.split_asm option.split_asm)
  then have "dispatch_claimed ?X example_hash 0 ?c (case None of Some e \<Rightarrow> Some e | None \<Rightarrow> None) (live_slot, False) = (o2, (s4, True))"
    by (simp add: dispatch_claimed_def)
  from process_world [OF b a r this] show ?thesis by simp
qed

lemma live_change_authorized_witness:
  "\<exists>o' s'. process_claimed native_executor example_hash 0 5 live_rule_request (live_store, False) = (o', (s', True)) \<and>
     live_authorized live_store 7 \<and> applies_below_budget native_executor live_store"
proof -
  obtain o' s' where r: "process_claimed native_executor example_hash 0 5 live_rule_request (live_store, False) = (o', (s', True))"
    using live_store_run by (cases "process_claimed native_executor example_hash 0 5 live_rule_request (live_store, False)") auto
  have agent: "xe_agent native_executor = live_agent" by (simp add: native_executor_def example_executor_def)
  have id: "cl_id live_rule_request = 7" by (simp add: live_rule_request_def)
  have "live_authorized live_store 7 \<and> applies_below_budget native_executor live_store"
    using live_change_authorized [OF r _ native_queries] live_agent_reads unfolding agent id by blast
  then show ?thesis using r by blast
qed

end
