(* ===== verification/Bus_Store.thy ===== *)
theory Bus_Store
  imports Store
begin

text \<open>
  The tables of the event pipeline (migrations 0011, 0013, 0014, 0031 and 0033): sensor events, the resolutions of
  their pseudonyms, the canonical events with their consumers and deliveries, the assessments of the security
  engine, the incident candidates and the incidents.  Rows stand in the order of their creation; a time is in
  microseconds, the precision of \<^verbatim>\<open>TIMESTAMPTZ\<close>.  A transaction is the sequence of its statements; the
  outcomes of the next transactions are given, so that each may fail, or commit with its answer lost.
\<close>

section \<open>Rows\<close>

record sensor_event_row =
  se_id :: uuid
  se_type :: string
  se_sensor :: uuid
  se_occurred :: int
  se_severity :: string
  se_resource :: string
  se_dedupe :: string
  se_evidence :: json

record ip_resolution_row =
  ir_pseudonym :: string
  ir_raw :: string
  ir_source :: string
  ir_expires :: int

record event_row =
  ev_id :: uuid
  ev_type :: string
  ev_source :: string
  ev_severity :: string
  ev_occurred :: int
  ev_correlation :: "string option"
  ev_payload :: json
  ev_metadata :: json
  ev_dedupe :: string

record consumer_row =
  cn_id :: uuid
  cn_name :: string
  cn_enabled :: bool

datatype delivery_status = D_Pending | D_Processing | D_Processed | D_Failed | D_Dead

record delivery_row =
  dl_id :: uuid
  dl_event :: uuid
  dl_consumer :: uuid
  dl_status :: delivery_status
  dl_attempts :: int
  dl_available :: int
  dl_started :: "int option"

record reputation =
  rp_source :: string
  rp_confidence :: int
  rp_last_seen :: int

record assessment_row =
  as_id :: uuid
  as_rule :: string
  as_version :: string
  as_engine :: string
  as_dedupe :: string
  as_resource :: string
  as_severity :: string
  as_confidence :: int
  as_summary :: msg
  as_count :: int
  as_window :: int
  as_bucket :: int
  as_first :: int
  as_last :: int
  as_incident :: "uuid option"
  as_intel :: "reputation option"
  as_events :: "uuid list"

datatype candidate_status = C_Open | C_Promoted | C_Dismissed

record candidate_row =
  ca_id :: uuid
  ca_status :: candidate_status
  ca_key :: string
  ca_confidence :: int
  ca_severity :: string
  ca_first :: int
  ca_last :: int
  ca_summary :: msg
  ca_events :: "uuid list"

datatype incident_status = I_Detected | I_Acknowledged | I_Investigating | I_Confirmed | I_Mitigated | I_Resolved | I_Closed

record incident_row =
  inc_id :: uuid
  inc_status :: incident_status
  inc_severity :: string
  inc_confidence :: int
  inc_summary :: msg
  inc_key :: string
  inc_candidate :: "uuid option"
  inc_detected :: int
  inc_confirmed_at :: "int option"
  inc_mitigated_at :: "int option"
  inc_resolved_at :: "int option"
  inc_closed_at :: "int option"

record history_row =
  hi_incident :: uuid
  hi_previous :: "incident_status option"
  hi_new :: incident_status
  hi_by :: string
  hi_reason :: string

record relationship_row =
  re_event :: uuid
  re_related :: uuid
  re_candidate :: "uuid option"
  re_type :: string
  re_confidence :: int
  re_reason :: string

record bus =
  b_now :: int
  b_next :: uuid
  b_sensor_events :: "sensor_event_row list"
  b_resolutions :: "ip_resolution_row list"
  b_events :: "event_row list"
  b_consumers :: "consumer_row list"
  b_deliveries :: "delivery_row list"
  b_assessments :: "assessment_row list"
  b_candidates :: "candidate_row list"
  b_relationships :: "relationship_row list"
  b_incidents :: "incident_row list"
  b_history :: "history_row list"
  b_links :: "(uuid \<times> uuid) list"
  b_locked :: "uuid list"

section \<open>Transactions\<close>

type_synonym 's db = "db_outcome list \<times> 's"

definition tx :: "('s \<Rightarrow> msg + 'a \<times> 's) \<Rightarrow> ('s db, msg, 'a) io" where
  "tx body d =
     (case d of (os, s) \<Rightarrow>
        (case body s of
           Inl e \<Rightarrow> (Inl (if os \<noteq> [] \<and> hd os = Db_Failed then db_error else e), (tl os, s))
         | Inr (x, t) \<Rightarrow>
             (if os = [] \<or> hd os = Db_Ok then (Inr x, (tl os, t))
              else (Inl db_error, (tl os, if hd os = Commit_Lost then t else s)))))"

definition tx_read :: "('s \<Rightarrow> 'a) \<Rightarrow> ('s db, msg, 'a) io" where
  "tx_read f = tx (\<lambda>s. Inr (f s, s))"

definition tx_run :: "('s \<Rightarrow> 's) \<Rightarrow> ('s db, msg, unit) io" where
  "tx_run f = tx (\<lambda>s. Inr ((), f s))"

definition b_fresh :: "bus \<Rightarrow> uuid \<times> bus" where
  "b_fresh s = (b_next s, s\<lparr>b_next := b_next s + 1\<rparr>)"

lemma tx_cases:
  assumes "tx body (os, s) = (r, (os', s'))"
  obtains (none) e where "s' = s" "r = Inl e"
  | (ran) x where "body s = Inr (x, s')" "r = Inr x \<or> r = Inl db_error"
proof (cases "body s")
  case (Inl e)
  then have "s' = s" "\<exists>e'. r = Inl e'" using assms by (auto simp: tx_def)
  then show ?thesis using none by blast
next
  case (Inr y)
  obtain x t where y: "y = (x, t)" by (rule prod.exhaust)
  then show ?thesis using assms Inr none ran [of x] by (auto simp: tx_def split: if_split_asm)
qed

lemma tx_Inr:
  assumes "tx body (os, s) = (Inr x, (os', s'))"
  shows "body s = Inr (x, s')"
  using assms by (rule tx_cases) (auto simp: db_error_def)

lemma tx_quiet [simp]: "tx body ([], s) = (case body s of Inl e \<Rightarrow> (Inl e, ([], s)) | Inr (x, t) \<Rightarrow> (Inr x, ([], t)))"
  by (auto simp: tx_def split: sum.split prod.split)

lemma tx_read_done:
  assumes "tx_read f (os, s) = (r, (os', s'))"
  shows "s' = s \<and> (r = Inr (f s) \<or> (\<exists>e. r = Inl e))"
  using assms unfolding tx_read_def by (rule tx_cases) auto

lemma tx_run_done:
  assumes "tx_run f (os, s) = (r, (os', s'))"
  shows "(s' = s \<and> (\<exists>e. r = Inl e)) \<or> s' = f s"
  using assms unfolding tx_run_def by (rule tx_cases) auto

text \<open>\<^verbatim>\<open>match .. { Err(error) => warn!(..), .. }\<close>: the outcome is only logged.\<close>

definition io_ignore :: "('w, 'e, 'a) io \<Rightarrow> ('w, 'e, unit) io" where
  "io_ignore m w = (case m w of (r, w') \<Rightarrow> (Inr (), w'))"

text \<open>A \<^verbatim>\<open>for\<close> loop that stops at the first \<^verbatim>\<open>?\<close> that fails.\<close>

fun each :: "('a \<Rightarrow> ('w, 'e, unit) io) \<Rightarrow> 'a list \<Rightarrow> ('w, 'e, unit) io" where
  "each f [] = io_return ()"
| "each f (x # xs) = io_bind (f x) (\<lambda>_. each f xs)"

text \<open>What every transaction of an operation keeps, the operation keeps.\<close>

definition kept :: "('s \<Rightarrow> bool) \<Rightarrow> ('s db, 'e, 'a) io \<Rightarrow> bool" where
  "kept P m \<longleftrightarrow> keeps (\<lambda>d. P (snd d)) m"

lemma kept_tx:
  assumes "\<And>s x t. P s \<Longrightarrow> body s = Inr (x, t) \<Longrightarrow> P t"
  shows "kept P (tx body)"
  unfolding kept_def keeps_def
proof (intro allI impI)
  fix d :: "'a db" assume d: "P (snd d)"
  obtain os s where e: "d = (os, s)" by (rule prod.exhaust)
  obtain r os' s' where r: "tx body (os, s) = (r, (os', s'))" by (cases "tx body (os, s)") auto
  then show "P (snd (snd (tx body d)))" using d assms unfolding e by (cases rule: tx_cases [OF r]) auto
qed

lemma kept_read [intro!, simp]: "kept P (tx_read f)"
  unfolding tx_read_def by (rule kept_tx) auto

lemma kept_run: "(\<And>s. P s \<Longrightarrow> P (f s)) \<Longrightarrow> kept P (tx_run f)"
  unfolding tx_run_def by (rule kept_tx) auto

lemma keptD: "kept P m \<Longrightarrow> P s \<Longrightarrow> m (os, s) = (r, (os', s')) \<Longrightarrow> P s'"
  by (auto simp: kept_def keeps_def) (metis snd_conv)

text \<open>
  The contract of the services that share the tables: whatever becomes of their transactions, an operation keeps
  the tables consistent and only lets them grow.
\<close>

definition sound_for :: "('s \<Rightarrow> bool) \<Rightarrow> ('s \<Rightarrow> 's \<Rightarrow> bool) \<Rightarrow> ('s db, 'e, 'a) io \<Rightarrow> bool" where
  "sound_for ok grows m \<longleftrightarrow> (\<forall>os s r os' s'. ok s \<and> m (os, s) = (r, (os', s')) \<longrightarrow> ok s' \<and> grows s s')"

text \<open>The same from one state on: what an operation reads first decides what it writes later.\<close>

definition sound_from :: "('s \<Rightarrow> bool) \<Rightarrow> ('s \<Rightarrow> 's \<Rightarrow> bool) \<Rightarrow> 's \<Rightarrow> ('s db, 'e, 'a) io \<Rightarrow> bool" where
  "sound_from ok grows s m \<longleftrightarrow> (\<forall>os r os' s'. m (os, s) = (r, (os', s')) \<longrightarrow> ok s' \<and> grows s s')"

locale evolving_tables =
  fixes ok :: "'s \<Rightarrow> bool" and grows :: "'s \<Rightarrow> 's \<Rightarrow> bool"
  assumes grows_refl: "grows s s"
    and grows_trans: "grows s t \<Longrightarrow> grows t u \<Longrightarrow> grows s u"
begin

lemma sound_run: "sound_for ok grows m \<Longrightarrow> ok s \<Longrightarrow> m (os, s) = (r, (os', s')) \<Longrightarrow> ok s' \<and> grows s s'"
  by (auto simp: sound_for_def)

lemma sound_of_tx:
  assumes "\<And>s x t. ok s \<Longrightarrow> body s = Inr (x, t) \<Longrightarrow> ok t \<and> grows s t"
  shows "sound_for ok grows (tx body)"
  unfolding sound_for_def using assms by (auto elim!: tx_cases intro: grows_refl)

lemma sound_leaf:
  "sound_for ok grows (io_return x)" "sound_for ok grows (io_fail e)" "sound_for ok grows (io_lift q)"
  by (auto simp: sound_for_def intro: grows_refl)

lemma sound_seq:
  assumes "sound_for ok grows m" "\<And>x. sound_for ok grows (f x)"
  shows "sound_for ok grows (io_bind m f)"
  unfolding sound_for_def
proof (intro allI impI)
  fix os s r os' s'
  assume run: "ok s \<and> io_bind m f (os, s) = (r, (os', s'))"
  obtain x os1 s1 where x: "m (os, s) = (x, (os1, s1))" by (cases "m (os, s)") auto
  have one: "ok s1 \<and> grows s s1" using sound_run [OF assms(1) _ x] run by blast
  show "ok s' \<and> grows s s'"
  proof (cases x)
    case (Inl e)
    then show ?thesis using run x one by (simp add: io_bind_def)
  next
    case (Inr y)
    then have "f y (os1, s1) = (r, (os', s'))" using run x by (simp add: io_bind_def)
    then show ?thesis using sound_run [OF assms(2)] one grows_trans by blast
  qed
qed

lemma sound_for_from: "sound_for ok grows m \<longleftrightarrow> (\<forall>s. ok s \<longrightarrow> sound_from ok grows s m)"
  by (auto simp: sound_for_def sound_from_def)

lemma from_leaf:
  assumes "ok s"
  shows "sound_from ok grows s (io_return x)" "sound_from ok grows s (io_fail e)"
  using assms by (auto simp: sound_from_def intro: grows_refl)

lemma from_tx:
  assumes "ok s" "\<And>x t. body s = Inr (x, t) \<Longrightarrow> ok t \<and> grows s t \<and> sound_from ok grows t (g x)"
  shows "sound_from ok grows s (io_bind (tx body) g)"
  unfolding sound_from_def
proof (intro allI impI)
  fix os r os' s'
  assume run: "io_bind (tx body) g (os, s) = (r, (os', s'))"
  obtain x os1 t where x: "tx body (os, s) = (x, (os1, t))" by (cases "tx body (os, s)") auto
  show "ok s' \<and> grows s s'"
  proof (cases x)
    case (Inl e)
    then have "s' = t" using run x by (simp add: io_bind_def)
    then show ?thesis using tx_cases [OF x] assms grows_refl by metis
  next
    case (Inr y)
    then have "g y (os1, t) = (r, (os', s'))" using run x by (simp add: io_bind_def)
    moreover have "ok t \<and> grows s t \<and> sound_from ok grows t (g y)" using assms(2) tx_Inr x Inr by metis
    ultimately show ?thesis using grows_trans unfolding sound_from_def by blast
  qed
qed

lemma from_read:
  assumes "ok s" "sound_from ok grows s (g (f s))"
  shows "sound_from ok grows s (io_bind (tx_read f) g)"
  unfolding tx_read_def by (rule from_tx) (use assms grows_refl in auto)

text \<open>A fold of sound steps, the shape of every loop over rows inside a transaction.\<close>

lemma fold_sound:
  assumes "ok s" "\<And>x s. x \<in> set xs \<Longrightarrow> ok s \<Longrightarrow> ok (f x s) \<and> grows s (f x s)"
  shows "ok (fold f xs s) \<and> grows s (fold f xs s)"
  using assms
proof (induction xs arbitrary: s)
  case (Cons x xs)
  have one: "ok (f x s) \<and> grows s (f x s)" using Cons.prems by simp
  then have "ok (fold f xs (f x s)) \<and> grows (f x s) (fold f xs (f x s))" using Cons.prems(2) by (intro Cons.IH) simp_all
  then show ?case using one by (auto intro: grows_trans)
qed (simp add: grows_refl)

end

lemma sound_ignore: "sound_for P R m \<Longrightarrow> sound_for P R (io_ignore m)"
  by (auto simp: sound_for_def io_ignore_def split: prod.splits)

end
