(* ===== verification/Pseudonym.thy ===== *)
theory Pseudonym
  imports Secret Ip_Addr Json
begin

text \<open>
  The privacy boundary of the event pipeline (\<^verbatim>\<open>storage/src/lib.rs\<close>): the pseudonym of an address and the
  sanitizer every payload passes before it is stored.  HMAC-SHA256 is a parameter that returns the bytes of the
  digest.  The properties: what has passed the sanitizer holds no sensitive member and no address under a member
  that is meant for one, at any depth; and the sanitizer hashes again what it has hashed before.
\<close>

record pseudonym_env =
  pe_env :: env
  pe_files :: files
  pe_hmac :: "string \<Rightarrow> string \<Rightarrow> nat list"

definition analysis_anonymize_ips :: "pseudonym_env \<Rightarrow> bool" where
  "analysis_anonymize_ips E = (pe_env E ''CLAWFORGE_ANALYZER_ANONYMIZE_IPS'' \<notin> {EnvSet ''false'', EnvSet ''0''})"

definition sensitive_analysis_key :: "string \<Rightarrow> bool" where
  "sensitive_analysis_key key =
     list_ex (\<lambda>part. contains_str part (to_ascii_lowercase key))
       [''raw'', ''payload'', ''feed'', ''secret'', ''token'', ''password'', ''api_key'', ''apikey'']"

definition ip_analysis_key :: "string \<Rightarrow> bool" where
  "ip_analysis_key key =
     (to_ascii_lowercase key \<in> {''ip'', ''ip_address'', ''source_ip'', ''destination_ip'', ''client_ip''})"

definition ip_pseudonym_key :: "pseudonym_env \<Rightarrow> msg + string option" where
  "ip_pseudonym_key E =
     and_then (load_optional (pe_env E) (pe_files E) ''CLAWFORGE_ANALYZER_IP_HMAC_KEY_FILE'' ''CLAWFORGE_ANALYZER_IP_HMAC_KEY'')
       (\<lambda>v. case v of
          Some k \<Rightarrow> and_then (validate_token ''CLAWFORGE_ANALYZER_IP_HMAC_KEY'' k) (\<lambda>_. Inr (Some k))
        | None \<Rightarrow> Inr None)"

definition hex_byte :: "nat \<Rightarrow> string" where
  "hex_byte b = [digit_chr (b div 16), digit_chr (b mod 16)]"

definition ip_pseudonym :: "pseudonym_env \<Rightarrow> string \<Rightarrow> string \<Rightarrow> string" where
  "ip_pseudonym E key ip = ''ip-pseudonym:'' @ concat (map hex_byte (take 16 (pe_hmac E key ip)))"

definition pseudonymize_ip :: "pseudonym_env \<Rightarrow> string \<Rightarrow> msg + string" where
  "pseudonymize_ip E ip =
     and_then (ip_pseudonym_key E) (\<lambda>k.
     case k of
       Some key \<Rightarrow> Inr (ip_pseudonym E key ip)
     | None \<Rightarrow> Inl [Lit ''CLAWFORGE_ANALYZER_IP_HMAC_KEY (or _FILE) must be configured while IP anonymization '',
         Lit ''is enabled (CLAWFORGE_ANALYZER_ANONYMIZE_IPS, default on): refusing to store an IP '',
         Lit ''value without a way to pseudonymize it safely''])"

definition pseudonymize_correlation_id :: "pseudonym_env \<Rightarrow> string \<Rightarrow> msg + string" where
  "pseudonymize_correlation_id E v =
     (if analysis_anonymize_ips E \<and> parse_ip v \<noteq> None then pseudonymize_ip E v else Inr v)"

text \<open>The three guards of the match, with the name of the member the value stands under.\<close>

definition protected_key :: "string \<Rightarrow> bool" where
  "protected_key k = (k = ''resource'' \<or> k = ''correlation_key'' \<or> ip_analysis_key k)"

definition address_under :: "pseudonym_env \<Rightarrow> string option \<Rightarrow> string \<Rightarrow> bool" where
  "address_under E key v =
     (analysis_anonymize_ips E \<and> (case key of Some k \<Rightarrow> protected_key k | None \<Rightarrow> False) \<and> parse_ip v \<noteq> None)"

function (sequential) sanitize :: "pseudonym_env \<Rightarrow> json \<Rightarrow> string option \<Rightarrow> msg + json"
and sanitize_members :: "pseudonym_env \<Rightarrow> (string \<times> json) list \<Rightarrow> msg + (string \<times> json) list"
and sanitize_items :: "pseudonym_env \<Rightarrow> json list \<Rightarrow> string option \<Rightarrow> msg + json list" where
  "sanitize E (JObj kvs) key = and_then (sanitize_members E kvs) (\<lambda>m. Inr (JObj m))"
| "sanitize E (JArr xs) key = and_then (sanitize_items E xs key) (\<lambda>ys. Inr (JArr ys))"
| "sanitize E (JStr v) key =
     (if address_under E key v then and_then (pseudonymize_ip E v) (\<lambda>p. Inr (JStr p)) else Inr (JStr v))"
| "sanitize E v key = Inr v"
| "sanitize_members E [] = Inr []"
| "sanitize_members E ((name, v) # kvs) =
     (if sensitive_analysis_key name then sanitize_members E kvs
      else and_then
        (if analysis_anonymize_ips E \<and> ip_analysis_key name then
           (case v of
              JStr ip \<Rightarrow> and_then (pseudonymize_ip E ip) (\<lambda>p. Inr (JStr p))
            | _ \<Rightarrow> Inr (JStr ''<redacted>''))
         else sanitize E v (Some name)) (\<lambda>w.
        and_then (sanitize_members E kvs) (\<lambda>m. Inr ((name, w) # m))))"
| "sanitize_items E [] key = Inr []"
| "sanitize_items E (v # vs) key =
     and_then (sanitize E v key) (\<lambda>w. and_then (sanitize_items E vs key) (\<lambda>ws. Inr (w # ws)))"
  by pat_completeness auto
termination
  by (relation "measure (\<lambda>x. case x of
        Inl (E, v, key) \<Rightarrow> size v
      | Inr (Inl (E, kvs)) \<Rightarrow> size_list (size_prod (\<lambda>_. 0) size) kvs
      | Inr (Inr (E, vs, key)) \<Rightarrow> size_list size vs)")
    auto

section \<open>What the sanitizer lets through\<close>

text \<open>A pseudonym is not an address.\<close>

lemma no_address:
  assumes "to_digit 10 c = None" "to_digit 16 c = None" "c \<noteq> CHR '':''"
  shows "parse_ip (c # s) = None"
proof -
  have number: "read_number 10 m l z (c # s) = None" "read_number 16 m l z (c # s) = None" for m l z
    using assms by (simp_all add: read_number_def)
  have v4: "read_v4 (c # s) = None"
    unfolding read_v4_def numeral_eq_Suc read_octets.simps(2) read_separator_def by (simp add: number)
  have "read_groups (Suc n) 0 (c # s) = ([], False, c # s)" for n
    by (simp add: read_separator_def number v4)
  then have "read_v6 (c # s) = None" using assms(3) by (simp add: read_v6_def numeral_eq_Suc del: read_groups.simps)
  then show ?thesis by (simp add: parse_ip_def v4)
qed

lemma pseudonym_no_ip: "parse_ip (ip_pseudonym E k ip) = None"
proof -
  have "to_digit 10 CHR ''i'' = None" "to_digit 16 CHR ''i'' = None" by code_simp+
  then show ?thesis unfolding ip_pseudonym_def append.simps by (intro no_address) simp_all
qed

definition hidden :: "pseudonym_env \<Rightarrow> json \<Rightarrow> bool" where
  "hidden E w \<longleftrightarrow> w = JStr ''<redacted>'' \<or> (\<exists>k ip. ip_pseudonym_key E = Inr (Some k) \<and> w = JStr (ip_pseudonym E k ip))"

text \<open>Nothing sensitive is left, at any depth.\<close>

fun clean :: "pseudonym_env \<Rightarrow> string option \<Rightarrow> json \<Rightarrow> bool" where
  "clean E key (JObj kvs) =
     (\<forall>(name, w) \<in> set kvs. \<not> sensitive_analysis_key name \<and>
        (if analysis_anonymize_ips E \<and> ip_analysis_key name then hidden E w else clean E (Some name) w))"
| "clean E key (JArr xs) = (\<forall>x \<in> set xs. clean E key x)"
| "clean E key (JStr v) = (\<not> address_under E key v)"
| "clean E key _ = True"

lemma pseudonymize_ip_Inr:
  "pseudonymize_ip E ip = Inr p \<longleftrightarrow> (\<exists>k. ip_pseudonym_key E = Inr (Some k) \<and> p = ip_pseudonym E k ip)"
  by (auto simp: pseudonymize_ip_def and_then_Inr_iff split: option.splits)

lemma sanitize_clean_all:
  "sanitize E v key = Inr w \<Longrightarrow> clean E key w"
  "sanitize_members E kvs = Inr m \<Longrightarrow> clean E None (JObj m)"
  "sanitize_items E vs key = Inr ws \<Longrightarrow> clean E key (JArr ws)"
proof (induction E v key and E kvs and E vs key arbitrary: w and m and ws rule: sanitize_sanitize_members_sanitize_items.induct)
  case (3 E v key)
  then show ?case
    using pseudonym_no_ip
    by (auto simp: and_then_Inr_iff address_under_def pseudonymize_ip_Inr split: if_split_asm)
next
  case (6 E name v kvs)
  show ?case
  proof (cases "sensitive_analysis_key name")
    case True
    then show ?thesis using 6 by simp
  next
    case False
    let ?masked = "case v of JStr ip \<Rightarrow> and_then (pseudonymize_ip E ip) (\<lambda>p. Inr (JStr p)) | _ \<Rightarrow> Inr (JStr ''<redacted>'')"
    from 6(4) False obtain x rest where x: "m = (name, x) # rest" "sanitize_members E kvs = Inr rest"
      "(if analysis_anonymize_ips E \<and> ip_analysis_key name then ?masked else sanitize E v (Some name)) = Inr x"
      by (auto simp: and_then_Inr_iff)
    have rest: "clean E None (JObj rest)" using 6(3) False x by auto
    show ?thesis
    proof (cases "analysis_anonymize_ips E \<and> ip_analysis_key name")
      case True
      then have "?masked = Inr x" using x(3) by simp
      then have "hidden E x"
        by (auto simp: hidden_def and_then_Inr_iff pseudonymize_ip_Inr split: json.splits)
      then show ?thesis using True False rest x(1) by simp
    next
      case no: False
      have "sanitize E v (Some name) = Inr x" using x(3) unfolding if_not_P [OF no] .
      then have "clean E (Some name) x" using 6(2) False no by simp
      then show ?thesis using no False rest x(1) by auto
    qed
  qed
qed (auto simp: and_then_Inr_iff)

text \<open>C28 What passes the sanitizer.  Whatever it accepts is stored without any member whose name
  holds a sensitive word, at any depth, whatever the environment says.  While addresses are to be pseudonymized, that is unless
  \<open>CLAWFORGE_ANALYZER_ANONYMIZE_IPS\<close> is \<open>false\<close> or \<open>0\<close>, under a member meant for an address stands only a pseudonym made with
  the configured key or the
  redaction mark; and no string under such a member, a resource or a correlation key, in lists too, is an IP
  address.  With the setting off, addresses are kept as they are and only the first part is claimed.\<close>

theorem sanitized_is_clean:
  assumes "sanitize E v key = Inr w"
  shows "clean E key w"
  using sanitize_clean_all(1) [OF assms] .

definition example_key :: string where
  "example_key = ''0123456789abcdef0123456789abcdef''"

definition example_pseudonyms :: pseudonym_env where
  "example_pseudonyms = \<lparr> pe_env = (\<lambda>k. if k = ''CLAWFORGE_ANALYZER_IP_HMAC_KEY'' then EnvSet example_key else EnvMissing),
     pe_files = (\<lambda>_. None), pe_hmac = (\<lambda>k m. replicate 16 (length m)) \<rparr>"

lemma sanitized_is_clean_witness:
  "\<exists>w. sanitize example_pseudonyms (JObj [(''raw_line'', JStr ''x''), (''seen'', JObj [(''source_ip'', JStr ''192.0.2.7'')])]) None = Inr w \<and>
     clean example_pseudonyms None w \<and>
     w = JObj [(''seen'', JObj [(''source_ip'', JStr ''ip-pseudonym:09090909090909090909090909090909'')])]"
proof -
  have r: "sanitize example_pseudonyms (JObj [(''raw_line'', JStr ''x''), (''seen'', JObj [(''source_ip'', JStr ''192.0.2.7'')])]) None
      = Inr (JObj [(''seen'', JObj [(''source_ip'', JStr ''ip-pseudonym:09090909090909090909090909090909'')])])"
    by code_simp
  show ?thesis using sanitized_is_clean [OF r] r by blast
qed

text \<open>The pseudonym is not stable.  What the sanitizer has stored under an address member is hashed again
  when it passes the sanitizer once more, so an address that is stored on one path is not recognised on
  another that has one more pass.\<close>

theorem sanitizing_twice_rehashes:
  assumes "analysis_anonymize_ips E" "ip_pseudonym_key E = Inr (Some k)" "ip_analysis_key name" "\<not> sensitive_analysis_key name"
  shows "sanitize E (JObj [(name, JStr ip)]) None = Inr (JObj [(name, JStr (ip_pseudonym E k ip))]) \<and>
    and_then (sanitize E (JObj [(name, JStr ip)]) None) (\<lambda>w. sanitize E w None)
      = Inr (JObj [(name, JStr (ip_pseudonym E k (ip_pseudonym E k ip)))])"
  using assms by (simp add: pseudonymize_ip_def)

lemma sanitizing_twice_rehashes_witness:
  "and_then (sanitize example_pseudonyms (JObj [(''source_ip'', JStr ''192.0.2.7'')]) None) (\<lambda>w. sanitize example_pseudonyms w None)
     = Inr (JObj [(''source_ip'', JStr ''ip-pseudonym:2d2d2d2d2d2d2d2d2d2d2d2d2d2d2d2d'')])"
proof -
  have a: "analysis_anonymize_ips example_pseudonyms" by code_simp
  have k: "ip_pseudonym_key example_pseudonyms = Inr (Some example_key)" by code_simp
  have n: "ip_analysis_key ''source_ip''" "\<not> sensitive_analysis_key ''source_ip''" by code_simp+
  have h: "ip_pseudonym example_pseudonyms example_key (ip_pseudonym example_pseudonyms example_key ''192.0.2.7'')
      = ''ip-pseudonym:2d2d2d2d2d2d2d2d2d2d2d2d2d2d2d2d''" by code_simp
  show ?thesis using sanitizing_twice_rehashes [OF a k n, of "''192.0.2.7''"] unfolding h by blast
qed

end
