(* ===== verification/Event_Bus.thy ===== *)
theory Event_Bus
  imports Bus_Store Pseudonym
begin

text \<open>
  The canonical event bus (\<^verbatim>\<open>storage/src/lib.rs\<close>): publishing an event to the consumers, claiming deliveries and
  completing them.  The properties: publishing is idempotent in its dedupe key, the deliveries stay consistent
  under every interleaving of the services and every outcome of their transactions, a claim takes exactly what
  may be taken, and a delivery whose last worker died is never seen again.
\<close>

section \<open>Publishing\<close>

definition ensure_event_consumer :: "string \<Rightarrow> (bus db, msg, uuid) io" where
  "ensure_event_consumer name = tx (\<lambda>s.
     case List.find (\<lambda>c. cn_name c = name) (b_consumers s) of
       Some c \<Rightarrow> Inr (cn_id c, s\<lparr>b_consumers := map (\<lambda>r. if cn_name r = name then r\<lparr>cn_enabled := True\<rparr> else r) (b_consumers s)\<rparr>)
     | None \<Rightarrow> (case b_fresh s of (i, s) \<Rightarrow>
         Inr (i, s\<lparr>b_consumers := b_consumers s @ [\<lparr> cn_id = i, cn_name = name, cn_enabled = True \<rparr>]\<rparr>)))"

text \<open>The heartbeat is a column nothing here reads.\<close>

definition heartbeat_event_consumer :: "string \<Rightarrow> (bus db, msg, unit) io" where
  "heartbeat_event_consumer name = tx_run (\<lambda>s. s)"

record new_event =
  ne_type :: string
  ne_source :: string
  ne_severity :: string
  ne_occurred :: int
  ne_correlation :: "string option"
  ne_payload :: json
  ne_metadata :: json
  ne_dedupe :: string

definition deliver :: "uuid \<Rightarrow> uuid \<Rightarrow> bus \<Rightarrow> bus" where
  "deliver event consumer s =
     (case b_fresh s of (i, s) \<Rightarrow>
        if list_ex (\<lambda>d. dl_event d = event \<and> dl_consumer d = consumer) (b_deliveries s) then s
        else s\<lparr>b_deliveries := b_deliveries s @
          [\<lparr> dl_id = i, dl_event = event, dl_consumer = consumer, dl_status = D_Pending, dl_attempts = 0,
             dl_available = b_now s, dl_started = None \<rparr>]\<rparr>)"

definition publish_body :: "new_event \<Rightarrow> bus \<Rightarrow> msg + uuid \<times> bus" where
  "publish_body n s =
     (case List.find (\<lambda>e. ev_dedupe e = ne_dedupe n) (b_events s) of
        Some e \<Rightarrow> Inr (ev_id e, s)
      | None \<Rightarrow>
          (case b_fresh s of (i, s) \<Rightarrow>
             let s = s\<lparr>b_events := b_events s @ [\<lparr> ev_id = i, ev_type = ne_type n, ev_source = ne_source n,
                   ev_severity = ne_severity n, ev_occurred = ne_occurred n, ev_correlation = ne_correlation n,
                   ev_payload = ne_payload n, ev_metadata = ne_metadata n, ev_dedupe = ne_dedupe n \<rparr>]\<rparr> in
             Inr (i, fold (\<lambda>c. deliver i (cn_id c)) (filter cn_enabled (b_consumers s)) s)))"

definition sanitized_event :: "pseudonym_env \<Rightarrow> new_event \<Rightarrow> msg + new_event" where
  "sanitized_event E n =
     and_then (sanitize E (ne_payload n) None) (\<lambda>payload.
     and_then (sanitize E (ne_metadata n) None) (\<lambda>metadata.
     and_then (case ne_correlation n of
         None \<Rightarrow> Inr None
       | Some c \<Rightarrow> and_then (pseudonymize_correlation_id E c) (\<lambda>p. Inr (Some p))) (\<lambda>correlation.
     Inr (n\<lparr>ne_payload := payload, ne_metadata := metadata, ne_correlation := correlation\<rparr>))))"

definition publish_event :: "pseudonym_env \<Rightarrow> new_event \<Rightarrow> (bus db, msg, uuid) io" where
  "publish_event E n = io_bind (io_lift (sanitized_event E n)) (\<lambda>m. tx (publish_body m))"

section \<open>Claiming and completing\<close>

definition TEN_MINUTES :: int where "TEN_MINUTES = 600 * 1000000"

definition stale :: "bus \<Rightarrow> uuid \<Rightarrow> delivery_row \<Rightarrow> bool" where
  "stale s consumer d =
     (dl_consumer d = consumer \<and> dl_status d = D_Processing \<and> dl_available d \<le> b_now s \<and> dl_attempts d < 5 \<and>
      (case dl_started d of Some t \<Rightarrow> t < b_now s - TEN_MINUTES | None \<Rightarrow> False))"

definition ready :: "bus \<Rightarrow> uuid \<Rightarrow> delivery_row \<Rightarrow> bool" where
  "ready s consumer d =
     (dl_consumer d = consumer \<and> dl_status d \<in> {D_Pending, D_Failed} \<and> dl_available d \<le> b_now s \<and> dl_attempts d < 5)"

definition unlocked :: "bus \<Rightarrow> delivery_row \<Rightarrow> bool" where
  "unlocked s d = (dl_id d \<notin> set (b_locked s))"

definition claim_ids :: "uuid \<Rightarrow> nat \<Rightarrow> bus \<Rightarrow> uuid list" where
  "claim_ids consumer limit s =
     (let old = map dl_id (take limit (filter (\<lambda>d. stale s consumer d \<and> unlocked s d) (b_deliveries s))) in
      old @ map dl_id (take (limit - length old) (filter (\<lambda>d. ready s consumer d \<and> unlocked s d) (b_deliveries s))))"

definition claimed :: "bus \<Rightarrow> delivery_row \<Rightarrow> delivery_row" where
  "claimed s d = d\<lparr>dl_status := D_Processing, dl_attempts := dl_attempts d + 1, dl_started := Some (b_now s)\<rparr>"

definition claim_deliveries_body :: "uuid \<Rightarrow> nat \<Rightarrow> bus \<Rightarrow> msg + (delivery_row \<times> event_row) list \<times> bus" where
  "claim_deliveries_body consumer limit s =
     (let ids = claim_ids consumer limit s;
          s' = s\<lparr>b_deliveries := map (\<lambda>d. if dl_id d \<in> set ids then claimed s d else d) (b_deliveries s)\<rparr> in
      Inr ([(d, e). d \<leftarrow> b_deliveries s', dl_id d \<in> set ids, e \<leftarrow> b_events s', ev_id e = dl_event d], s'))"

definition claim_event_deliveries :: "string \<Rightarrow> int \<Rightarrow> (bus db, msg, (delivery_row \<times> event_row) list) io" where
  "claim_event_deliveries consumer limit =
     io_bind (ensure_event_consumer consumer) (\<lambda>i.
     io_bind (tx (claim_deliveries_body i (nat (max 1 (min 100 limit))))) (\<lambda>rows.
     io_bind (heartbeat_event_consumer consumer) (\<lambda>_.
     io_return rows)))"

definition owned_by :: "bus \<Rightarrow> string \<Rightarrow> uuid \<Rightarrow> delivery_row \<Rightarrow> bool" where
  "owned_by s consumer i d =
     (dl_id d = i \<and> dl_status d = D_Processing \<and> list_ex (\<lambda>c. cn_id c = dl_consumer d \<and> cn_name c = consumer) (b_consumers s))"

definition completed :: "bus \<Rightarrow> bool \<Rightarrow> delivery_row \<Rightarrow> delivery_row" where
  "completed s success d =
     (if success then d\<lparr>dl_status := D_Processed\<rparr>
      else d\<lparr>dl_status := (if dl_attempts d \<ge> 5 then D_Dead else D_Failed),
             dl_available := b_now s + min 3600 (2 ^ nat (dl_attempts d)) * 1000000\<rparr>)"

text \<open>The statement is its own transaction: when it meets no row, nothing is left to undo.\<close>

definition complete_event_delivery :: "uuid \<Rightarrow> string \<Rightarrow> bool \<Rightarrow> (bus db, msg, unit) io" where
  "complete_event_delivery i consumer success =
     io_bind (tx (\<lambda>s. Inr (list_ex (owned_by s consumer i) (b_deliveries s),
         s\<lparr>b_deliveries := map (\<lambda>d. if owned_by s consumer i d then completed s success d else d) (b_deliveries s)\<rparr>)))
       (\<lambda>met. if met then io_return () else io_fail [Lit ''event delivery is not owned by the active consumer''])"

section \<open>Publishing is idempotent\<close>

lemma deliver_simps [simp]:
  "b_events (deliver e c s) = b_events s" "b_consumers (deliver e c s) = b_consumers s" "b_now (deliver e c s) = b_now s"
  "b_locked (deliver e c s) = b_locked s" "b_assessments (deliver e c s) = b_assessments s"
  "b_candidates (deliver e c s) = b_candidates s" "b_incidents (deliver e c s) = b_incidents s"
  by (simp_all add: deliver_def b_fresh_def)

lemma fold_deliver_simps [simp]:
  "b_events (fold (\<lambda>c. deliver e (cn_id c)) cs s) = b_events s"
  "b_consumers (fold (\<lambda>c. deliver e (cn_id c)) cs s) = b_consumers s"
  "b_now (fold (\<lambda>c. deliver e (cn_id c)) cs s) = b_now s"
  "b_locked (fold (\<lambda>c. deliver e (cn_id c)) cs s) = b_locked s"
  "b_assessments (fold (\<lambda>c. deliver e (cn_id c)) cs s) = b_assessments s"
  "b_candidates (fold (\<lambda>c. deliver e (cn_id c)) cs s) = b_candidates s"
  "b_incidents (fold (\<lambda>c. deliver e (cn_id c)) cs s) = b_incidents s"
  by (induction cs arbitrary: s) simp_all

section \<open>The deliveries stay consistent\<close>

fun delivery_ok :: "delivery_status \<Rightarrow> int \<Rightarrow> int option \<Rightarrow> bool" where
  "delivery_ok D_Pending a t = (a = 0)"
| "delivery_ok D_Processing a t = (1 \<le> a \<and> a \<le> 5 \<and> t \<noteq> None)"
| "delivery_ok D_Processed a t = (1 \<le> a \<and> a \<le> 5)"
| "delivery_ok D_Failed a t = (1 \<le> a \<and> a < 5)"
| "delivery_ok D_Dead a t = (a = 5)"

definition row_of :: "delivery_row \<Rightarrow> bool" where
  "row_of d \<longleftrightarrow> delivery_ok (dl_status d) (dl_attempts d) (dl_started d)"

definition bus_ok :: "bus \<Rightarrow> bool" where
  "bus_ok s \<longleftrightarrow>
     distinct (map dl_id (b_deliveries s)) \<and> distinct (map (\<lambda>d. (dl_event d, dl_consumer d)) (b_deliveries s)) \<and>
     distinct (map ev_id (b_events s)) \<and> distinct (map ev_dedupe (b_events s)) \<and>
     distinct (map cn_id (b_consumers s)) \<and> distinct (map cn_name (b_consumers s)) \<and>
     (\<forall>d \<in> set (b_deliveries s). row_of d \<and> dl_id d < b_next s \<and> dl_event d \<in> ev_id ` set (b_events s) \<and>
        dl_consumer d \<in> cn_id ` set (b_consumers s)) \<and>
     (\<forall>e \<in> set (b_events s). ev_id e < b_next s) \<and> (\<forall>c \<in> set (b_consumers s). cn_id c < b_next s)"

definition terminal :: "delivery_row \<Rightarrow> bool" where
  "terminal d \<longleftrightarrow> dl_status d = D_Processed \<or> dl_status d = D_Dead"

definition later :: "delivery_row \<Rightarrow> delivery_row \<Rightarrow> bool" where
  "later d d' \<longleftrightarrow> dl_id d' = dl_id d \<and> dl_event d' = dl_event d \<and> dl_consumer d' = dl_consumer d \<and>
     dl_attempts d \<le> dl_attempts d' \<and> (terminal d \<longrightarrow> d' = d)"

definition grows :: "bus \<Rightarrow> bus \<Rightarrow> bool" where
  "grows s t \<longleftrightarrow> (\<forall>d \<in> set (b_deliveries s). \<exists>d' \<in> set (b_deliveries t). later d d') \<and>
     set (b_events s) \<subseteq> set (b_events t)"

lemma later_refl [simp]: "later d d"
  by (simp add: later_def)

lemma later_trans: "later a b \<Longrightarrow> later b c \<Longrightarrow> later a c"
  by (auto simp: later_def)

lemma grows_refl [simp]: "grows s s"
  unfolding grows_def by (meson later_refl order_refl)

lemma grows_trans: "grows s t \<Longrightarrow> grows t u \<Longrightarrow> grows s u"
  unfolding grows_def by (meson later_trans order_trans)

lemma grows_more:
  "set (b_deliveries s) \<subseteq> set (b_deliveries t) \<Longrightarrow> set (b_events s) \<subseteq> set (b_events t) \<Longrightarrow> grows s t"
  unfolding grows_def by (meson later_refl subsetD)

lemma update_rows:
  assumes "bus_ok s" "\<And>d. d \<in> set (b_deliveries s) \<Longrightarrow> later d (f d) \<and> row_of (f d)"
  shows "bus_ok (s\<lparr>b_deliveries := map f (b_deliveries s)\<rparr>) \<and> grows s (s\<lparr>b_deliveries := map f (b_deliveries s)\<rparr>)"
proof -
  have ids: "map dl_id (map f (b_deliveries s)) = map dl_id (b_deliveries s)"
    "map (\<lambda>d. (dl_event d, dl_consumer d)) (map f (b_deliveries s)) = map (\<lambda>d. (dl_event d, dl_consumer d)) (b_deliveries s)"
    using assms(2) by (auto simp: later_def)
  have "dl_id (f d) < b_next s \<and> dl_event (f d) \<in> ev_id ` set (b_events s) \<and> dl_consumer (f d) \<in> cn_id ` set (b_consumers s)"
    if "d \<in> set (b_deliveries s)" for d
    using assms that by (auto simp: later_def bus_ok_def)
  then show ?thesis using assms ids unfolding bus_ok_def grows_def
    by (auto simp del: map_map)
qed

lemma deliver_ok:
  assumes "bus_ok s" "e \<in> ev_id ` set (b_events s)" "c \<in> cn_id ` set (b_consumers s)"
  shows "bus_ok (deliver e c s) \<and> grows s (deliver e c s)"
proof -
  let ?new = "\<lparr> dl_id = b_next s, dl_event = e, dl_consumer = c, dl_status = D_Pending, dl_attempts = 0,
             dl_available = b_now s, dl_started = None \<rparr>"
  have next_ok: "bus_ok (s\<lparr>b_next := b_next s + 1\<rparr>)"
    using assms(1) unfolding bus_ok_def by (auto simp: less_Suc_eq)
  have "bus_ok (s\<lparr>b_next := b_next s + 1, b_deliveries := b_deliveries s @ [?new]\<rparr>)"
    if fresh: "\<not> list_ex (\<lambda>d. dl_event d = e \<and> dl_consumer d = c) (b_deliveries s)"
  proof -
    have "b_next s \<notin> dl_id ` set (b_deliveries s)" "(e, c) \<notin> (\<lambda>d. (dl_event d, dl_consumer d)) ` set (b_deliveries s)"
      using assms(1) fresh by (auto simp: bus_ok_def list_ex_iff)
    moreover have "row_of ?new" by (simp add: row_of_def)
    ultimately show ?thesis using next_ok assms(2,3) unfolding bus_ok_def by simp
  qed
  then show ?thesis using next_ok by (auto simp: deliver_def b_fresh_def intro!: grows_more)
qed

lemma fold_deliver_ok:
  assumes "bus_ok s" "e \<in> ev_id ` set (b_events s)" "set cs \<subseteq> set (b_consumers s)"
  shows "bus_ok (fold (\<lambda>c. deliver e (cn_id c)) cs s) \<and> grows s (fold (\<lambda>c. deliver e (cn_id c)) cs s)"
  using assms
proof (induction cs arbitrary: s)
  case (Cons c cs)
  have one: "bus_ok (deliver e (cn_id c) s) \<and> grows s (deliver e (cn_id c) s)"
    by (rule deliver_ok) (use Cons.prems in auto)
  then have "bus_ok (fold (\<lambda>c. deliver e (cn_id c)) cs (deliver e (cn_id c) s)) \<and>
      grows (deliver e (cn_id c) s) (fold (\<lambda>c. deliver e (cn_id c)) cs (deliver e (cn_id c) s))"
    using Cons.prems by (intro Cons.IH) auto
  then show ?case using one by (auto intro: grows_trans)
qed simp

lemma publish_body_ok:
  assumes "bus_ok s" "publish_body n s = Inr (i, t)"
  shows "bus_ok t \<and> grows s t"
proof (cases "List.find (\<lambda>e. ev_dedupe e = ne_dedupe n) (b_events s)")
  case None
  let ?s = "s\<lparr>b_next := b_next s + 1, b_events := b_events s @ [\<lparr> ev_id = b_next s, ev_type = ne_type n, ev_source = ne_source n,
                   ev_severity = ne_severity n, ev_occurred = ne_occurred n, ev_correlation = ne_correlation n,
                   ev_payload = ne_payload n, ev_metadata = ne_metadata n, ev_dedupe = ne_dedupe n \<rparr>]\<rparr>"
  have ok: "bus_ok ?s" "grows s ?s"
    using assms(1) None by (auto simp: bus_ok_def find_None_iff less_Suc_eq intro!: grows_more)
  have t: "t = fold (\<lambda>c. deliver (b_next s) (cn_id c)) (filter cn_enabled (b_consumers ?s)) ?s"
    using assms(2) None by (auto simp: publish_body_def b_fresh_def)
  have "bus_ok t \<and> grows ?s t" unfolding t by (rule fold_deliver_ok [OF ok(1)]) auto
  then show ?thesis using ok(2) grows_trans by blast
qed (use assms in \<open>simp add: publish_body_def\<close>)

text \<open>What a transaction of the bus keeps, and what it lets grow.\<close>

interpretation bus_tables: evolving_tables bus_ok grows
  by unfold_locales (auto intro: grows_trans)

abbreviation sound :: "(bus db, msg, 'a) io \<Rightarrow> bool" where
  "sound \<equiv> sound_for bus_ok grows"

lemmas soundD = bus_tables.sound_run
lemmas sound_tx = bus_tables.sound_of_tx
lemmas sound_bind = bus_tables.sound_seq
lemmas sound_return [simp] = bus_tables.sound_leaf

lemma enable_rows:
  fixes name :: string
  defines "f \<equiv> \<lambda>r. if cn_name r = name then r\<lparr>cn_enabled := True\<rparr> else r"
  shows "map cn_id (map f cs) = map cn_id cs" "map cn_name (map f cs) = map cn_name cs"
    "cn_id ` set (map f cs) = cn_id ` set cs" "(\<forall>c \<in> set (map f cs). cn_id c < n) = (\<forall>c \<in> set cs. cn_id c < n)"
proof -
  show ids: "map cn_id (map f cs) = map cn_id cs" "map cn_name (map f cs) = map cn_name cs" by (auto simp: f_def)
  show "cn_id ` set (map f cs) = cn_id ` set cs" using arg_cong [OF ids(1), of set] by (simp only: set_map)
  have "cn_id (f c) = cn_id c" for c by (simp add: f_def)
  then show "(\<forall>c \<in> set (map f cs). cn_id c < n) = (\<forall>c \<in> set cs. cn_id c < n)" by simp
qed

lemma consumer_rows:
  assumes "bus_ok s" "distinct (map cn_id cs)" "distinct (map cn_name cs)" "cn_id ` set (b_consumers s) \<subseteq> cn_id ` set cs"
    "\<forall>c \<in> set cs. cn_id c < n" "b_next s \<le> n"
  shows "bus_ok (s\<lparr>b_next := n, b_consumers := cs\<rparr>)"
  using assms unfolding bus_ok_def by (auto dest: less_le_trans)

lemma sound_consumer: "sound (ensure_event_consumer name)"
  unfolding ensure_event_consumer_def
proof (rule sound_tx)
  fix s :: bus and x t
  let ?f = "\<lambda>r. if cn_name r = name then r\<lparr>cn_enabled := True\<rparr> else r"
  assume ok: "bus_ok s" and run: "(case List.find (\<lambda>c. cn_name c = name) (b_consumers s) of
       Some c \<Rightarrow> Inr (cn_id c, s\<lparr>b_consumers := map ?f (b_consumers s)\<rparr>)
     | None \<Rightarrow> (case b_fresh s of (i, s) \<Rightarrow>
         Inr (i, s\<lparr>b_consumers := b_consumers s @ [\<lparr> cn_id = i, cn_name = name, cn_enabled = True \<rparr>]\<rparr>))) = Inr (x, t)"
  show "bus_ok t \<and> grows s t"
  proof (cases "List.find (\<lambda>c. cn_name c = name) (b_consumers s)")
    case (Some c)
    have rows: "distinct (map cn_id (b_consumers s))" "distinct (map cn_name (b_consumers s))" "\<forall>c \<in> set (b_consumers s). cn_id c < b_next s"
      using ok by (simp_all add: bus_ok_def)
    then have "bus_ok (s\<lparr>b_next := b_next s, b_consumers := map ?f (b_consumers s)\<rparr>)"
      by (intro consumer_rows [OF ok]) (simp_all only: enable_rows order_refl)
    then show ?thesis using run Some by (auto intro!: grows_more)
  next
    case None
    have "bus_ok (s\<lparr>b_next := Suc (b_next s), b_consumers := b_consumers s @ [\<lparr> cn_id = b_next s, cn_name = name, cn_enabled = True \<rparr>]\<rparr>)"
      by (rule consumer_rows [OF ok]) (use ok None in \<open>auto simp: bus_ok_def find_None_iff\<close>)
    then show ?thesis using run None by (auto simp: b_fresh_def intro!: grows_more)
  qed
qed

lemma later_claimed:
  assumes "row_of d" "dl_attempts d < 5" "\<not> terminal d"
  shows "later d (claimed s d) \<and> row_of (claimed s d)"
  using assms by (cases "dl_status d") (auto simp: later_def claimed_def row_of_def terminal_def)

lemma claim_ids_ok:
  assumes "bus_ok s" "d \<in> set (b_deliveries s)" "dl_id d \<in> set (claim_ids c n s)"
  shows "(stale s c d \<or> ready s c d) \<and> unlocked s d"
proof -
  obtain d' where d': "d' \<in> set (b_deliveries s)" "dl_id d' = dl_id d" "(stale s c d' \<or> ready s c d') \<and> unlocked s d'"
    using assms(3) by (fastforce simp: claim_ids_def Let_def dest: in_set_takeD)
  then have "d' = d" using assms(1,2) by (auto simp: bus_ok_def dest: map_of_eq_Some_iff inj_onD [OF iffD1 [OF distinct_map, THEN conjunct2]])
  then show ?thesis using d'(3) by simp
qed

lemma claim_body_ok:
  assumes "bus_ok s" "claim_deliveries_body c n s = Inr (x, t)"
  shows "bus_ok t \<and> grows s t"
proof -
  let ?f = "\<lambda>d. if dl_id d \<in> set (claim_ids c n s) then claimed s d else d"
  have t: "t = s\<lparr>b_deliveries := map ?f (b_deliveries s)\<rparr>" using assms(2) by (simp add: claim_deliveries_body_def Let_def)
  show ?thesis unfolding t
  proof (rule update_rows [OF assms(1)])
    fix d assume d: "d \<in> set (b_deliveries s)"
    then have ok: "row_of d" using assms(1) by (simp add: bus_ok_def)
    have "dl_attempts d < 5 \<and> \<not> terminal d" if "dl_id d \<in> set (claim_ids c n s)"
      using claim_ids_ok [OF assms(1) d that] by (auto simp: stale_def ready_def terminal_def)
    then show "later d (?f d) \<and> row_of (?f d)" using later_claimed [OF ok] ok by simp
  qed
qed

lemma later_completed:
  assumes "row_of d" "dl_status d = D_Processing"
  shows "later d (completed s success d) \<and> row_of (completed s success d)"
  using assms by (auto simp: later_def completed_def row_of_def terminal_def)

lemma sound_complete:
  "sound (tx (\<lambda>s. Inr (list_ex (owned_by s name i) (b_deliveries s),
     s\<lparr>b_deliveries := map (\<lambda>d. if owned_by s name i d then completed s success d else d) (b_deliveries s)\<rparr>)))"
proof (rule sound_tx)
  fix s :: bus and x t
  assume ok: "bus_ok s" and run: "Inr (list_ex (owned_by s name i) (b_deliveries s),
       s\<lparr>b_deliveries := map (\<lambda>d. if owned_by s name i d then completed s success d else d) (b_deliveries s)\<rparr>) = Inr (x, t)"
  have t: "t = s\<lparr>b_deliveries := map (\<lambda>d. if owned_by s name i d then completed s success d else d) (b_deliveries s)\<rparr>"
    using run by simp
  show "bus_ok t \<and> grows s t" unfolding t
    by (rule update_rows [OF ok]) (use ok in \<open>auto simp: owned_by_def bus_ok_def later_completed\<close>)
qed

lemma sound_ops:
  "sound (publish_event E n)" "sound (claim_event_deliveries name limit)" "sound (complete_event_delivery i name success)"
proof -
  show "sound (publish_event E n)" unfolding publish_event_def
    by (intro sound_bind sound_tx sound_return) (auto dest: publish_body_ok)
  show "sound (claim_event_deliveries name limit)" unfolding claim_event_deliveries_def heartbeat_event_consumer_def tx_run_def
    by (intro sound_bind sound_consumer sound_tx sound_return) (auto dest: claim_body_ok)
  show "sound (complete_event_delivery i name success)" unfolding complete_event_delivery_def
    by (intro sound_bind sound_complete) (auto simp: sound_for_def)
qed

section \<open>Every interleaving of the services\<close>

datatype bus_op = Publish | Register | Claim | Complete uuid | Environment

inductive bus_step :: "bus_op \<Rightarrow> bus \<Rightarrow> bus \<Rightarrow> bool" where
  publish: "publish_event E n (os, s) = (r, (os', t)) \<Longrightarrow> bus_step Publish s t"
| register: "ensure_event_consumer name (os, s) = (r, (os', t)) \<Longrightarrow> bus_step Register s t"
| claim: "claim_event_deliveries name limit (os, s) = (r', (os', t)) \<Longrightarrow> bus_step Claim s t"
| complete: "complete_event_delivery i name success (os, s) = (r'', (os', t)) \<Longrightarrow> bus_step (Complete i) s t"
| environment: "b_now s \<le> now \<Longrightarrow> bus_step Environment s (s\<lparr>b_now := now, b_locked := ls\<rparr>)"

inductive bus_run :: "bus_op list \<Rightarrow> bus \<Rightarrow> bus \<Rightarrow> bool" where
  idle: "bus_run [] s s"
| step: "bus_step op s t \<Longrightarrow> bus_run ops t u \<Longrightarrow> bus_run (op # ops) s u"

lemma bus_step_ok: "bus_step op s t \<Longrightarrow> bus_ok s \<Longrightarrow> bus_ok t \<and> grows s t"
proof (induction rule: bus_step.induct)
  case (environment s now ls)
  then show ?case by (auto simp: bus_ok_def intro!: grows_more)
next
  case publish
  then show ?case using soundD [OF sound_ops(1)] by blast
next
  case register
  then show ?case using soundD [OF sound_consumer] by blast
next
  case claim
  then show ?case using soundD [OF sound_ops(2)] by blast
next
  case complete
  then show ?case using soundD [OF sound_ops(3)] by blast
qed

text \<open>C10 The deliveries are consistent whatever happens: under every interleaving of publishers, consumers and
  the passing of time, and whatever transactions fail, an event has at most one delivery to a consumer, no two
  events share a dedupe key, a delivery has been attempted at most five times and its count fits its status;
  no event and no delivery is lost, attempts are never taken back, and a processed or dead delivery stays as
  it is.\<close>

theorem deliveries_consistent:
  assumes "bus_run ops s t" "bus_ok s"
  shows "bus_ok t \<and> grows s t"
  using assms by (induction rule: bus_run.induct) (auto dest: bus_step_ok intro: grows_trans)

section \<open>Publishing is idempotent\<close>

definition pending_for :: "uuid \<Rightarrow> consumer_row \<Rightarrow> delivery_row \<Rightarrow> bool" where
  "pending_for i c d \<longleftrightarrow> dl_event d = i \<and> dl_consumer d = cn_id c \<and> dl_status d = D_Pending \<and> dl_attempts d = 0"

lemma fold_deliver_rows:
  assumes "\<forall>d \<in> set (b_deliveries s). dl_event d = i \<longrightarrow> dl_consumer d \<notin> cn_id ` set cs" "distinct (map cn_id cs)"
  shows "\<exists>rows. b_deliveries (fold (\<lambda>c. deliver i (cn_id c)) cs s) = b_deliveries s @ rows \<and> list_all2 (pending_for i) cs rows"
  using assms
proof (induction cs arbitrary: s)
  case (Cons c cs)
  let ?new = "\<lparr> dl_id = b_next s, dl_event = i, dl_consumer = cn_id c, dl_status = D_Pending, dl_attempts = 0,
             dl_available = b_now s, dl_started = None \<rparr>"
  have one: "b_deliveries (deliver i (cn_id c) s) = b_deliveries s @ [?new]"
    using Cons.prems(1) by (auto simp: deliver_def b_fresh_def list_ex_iff)
  have "\<exists>rows. b_deliveries (fold (\<lambda>c. deliver i (cn_id c)) cs (deliver i (cn_id c) s)) = b_deliveries (deliver i (cn_id c) s) @ rows \<and>
      list_all2 (pending_for i) cs rows"
    by (rule Cons.IH) (use Cons.prems in \<open>auto simp: one\<close>)
  then obtain rows where "b_deliveries (fold (\<lambda>c. deliver i (cn_id c)) (c # cs) s) = b_deliveries s @ ?new # rows"
    "list_all2 (pending_for i) (c # cs) (?new # rows)"
    using one by (auto simp: pending_for_def)
  then show ?case by blast
qed simp

text \<open>C21 Publishing once is enough.  A publish that succeeds either finds the dedupe key taken, returns the event
  that has it and changes nothing, or stores one new event whose payload and metadata are clean, with exactly one
  pending delivery for every enabled consumer; no other event and no other delivery is touched.\<close>

theorem publish_once:
  assumes "publish_event E n (os, s) = (Inr i, (os', t))" "bus_ok s"
  shows "(\<exists>e \<in> set (b_events s). ev_dedupe e = ne_dedupe n \<and> ev_id e = i \<and> t = s) \<or>
    ne_dedupe n \<notin> ev_dedupe ` set (b_events s) \<and>
    (\<exists>e rows. b_events t = b_events s @ [e] \<and> ev_id e = i \<and> ev_dedupe e = ne_dedupe n \<and>
       clean E None (ev_payload e) \<and> clean E None (ev_metadata e) \<and>
       b_deliveries t = b_deliveries s @ rows \<and> list_all2 (pending_for i) (filter cn_enabled (b_consumers s)) rows)"
proof -
  obtain m where m: "sanitized_event E n = Inr m" "publish_body m s = Inr (i, t)"
    using assms(1) by (cases "sanitized_event E n") (auto simp: publish_event_def dest: tx_Inr)
  have m': "ne_dedupe m = ne_dedupe n" "clean E None (ne_payload m)" "clean E None (ne_metadata m)"
    using m(1) by (auto simp: sanitized_event_def and_then_Inr_iff dest: sanitize_clean_all(1))
  show ?thesis
  proof (cases "List.find (\<lambda>e. ev_dedupe e = ne_dedupe m) (b_events s)")
    case (Some e)
    then have "ev_id e = i" "t = s" using m(2) by (simp_all add: publish_body_def)
    moreover have "e \<in> set (b_events s)" "ev_dedupe e = ne_dedupe n" using Some m'(1) by (auto simp: find_Some_iff)
    ultimately show ?thesis by blast
  next
    case None
    let ?e = "\<lparr> ev_id = b_next s, ev_type = ne_type m, ev_source = ne_source m, ev_severity = ne_severity m,
        ev_occurred = ne_occurred m, ev_correlation = ne_correlation m, ev_payload = ne_payload m,
        ev_metadata = ne_metadata m, ev_dedupe = ne_dedupe m \<rparr>"
    let ?s = "s\<lparr>b_next := Suc (b_next s), b_events := b_events s @ [?e]\<rparr>"
    have i: "i = b_next s" and t: "t = fold (\<lambda>c. deliver i (cn_id c)) (filter cn_enabled (b_consumers s)) ?s"
      using m(2) None by (auto simp: publish_body_def b_fresh_def)
    have "dl_event d \<noteq> i" if "d \<in> set (b_deliveries s)" for d
      using assms(2) that unfolding i bus_ok_def by (auto dest!: bspec)
    moreover have "distinct (map cn_id (filter cn_enabled (b_consumers s)))"
      using assms(2) by (simp add: bus_ok_def distinct_map_filter)
    ultimately obtain rows where rows: "b_deliveries t = b_deliveries s @ rows"
      "list_all2 (pending_for i) (filter cn_enabled (b_consumers s)) rows"
      using fold_deliver_rows [of ?s i "filter cn_enabled (b_consumers s)"] unfolding t by auto
    have "b_events t = b_events s @ [?e]" by (simp add: t)
    moreover have "ne_dedupe n \<notin> ev_dedupe ` set (b_events s)" using None m'(1) by (auto simp: find_None_iff)
    ultimately show ?thesis using rows m' i by auto
  qed
qed

section \<open>A claim takes exactly what may be taken\<close>

lemma ensure_done:
  assumes "ensure_event_consumer name (os, s) = (Inr c, (os', u))"
  shows "b_deliveries u = b_deliveries s \<and> b_events u = b_events s \<and> b_now u = b_now s \<and> b_locked u = b_locked s \<and>
    (\<exists>r \<in> set (b_consumers u). cn_name r = name \<and> cn_id r = c)"
proof (cases "List.find (\<lambda>c. cn_name c = name) (b_consumers s)")
  case (Some r)
  then have "c = cn_id r" "u = s\<lparr>b_consumers := map (\<lambda>r. if cn_name r = name then r\<lparr>cn_enabled := True\<rparr> else r) (b_consumers s)\<rparr>"
    using tx_Inr [OF assms [unfolded ensure_event_consumer_def]] by auto
  moreover have r: "r \<in> set (b_consumers s)" "cn_name r = name" using Some by (auto simp: find_Some_iff)
  moreover have "r\<lparr>cn_enabled := True\<rparr> \<in> (\<lambda>r. if cn_name r = name then r\<lparr>cn_enabled := True\<rparr> else r) ` set (b_consumers s)"
    using r by (intro rev_image_eqI [of r]) simp_all
  ultimately show ?thesis by (auto intro!: bexI [of _ "r\<lparr>cn_enabled := True\<rparr>"])
next
  case None
  then show ?thesis using tx_Inr [OF assms [unfolded ensure_event_consumer_def]] by (auto simp: b_fresh_def)
qed

lemma length_filter_ids:
  assumes "distinct (map f xs)" "distinct ids" "set ids \<subseteq> f ` set xs"
  shows "length (filter (\<lambda>x. f x \<in> set ids) xs) = length ids"
proof -
  have "distinct (map f (filter (\<lambda>x. f x \<in> set ids) xs))" using assms(1) by (rule distinct_map_filter)
  moreover have "set (map f (filter (\<lambda>x. f x \<in> set ids) xs)) = set ids" using assms(3) by auto
  ultimately show ?thesis using assms(2) by (metis distinct_card length_map)
qed

lemma same_key: "distinct (map f xs) \<Longrightarrow> x \<in> set xs \<Longrightarrow> y \<in> set xs \<Longrightarrow> f x = f y \<Longrightarrow> x = y"
  by (auto simp: distinct_map dest: inj_onD)

lemma one_match:
  assumes "distinct (map f xs)" "x \<in> set xs"
  shows "filter (\<lambda>y. f y = f x) xs = [x]"
  using assms by (induction xs) (auto simp: filter_empty_conv intro: rev_image_eqI)

lemma claim_ids_count:
  assumes "bus_ok s"
  shows "distinct (claim_ids c n s)" "set (claim_ids c n s) \<subseteq> dl_id ` set (b_deliveries s)"
    "length (claim_ids c n s) = min n (length (filter (\<lambda>d. (stale s c d \<or> ready s c d) \<and> unlocked s d) (b_deliveries s)))"
proof -
  let ?a = "filter (\<lambda>d. stale s c d \<and> unlocked s d) (b_deliveries s)"
  let ?b = "filter (\<lambda>d. ready s c d \<and> unlocked s d) (b_deliveries s)"
  have dist: "distinct (map dl_id (b_deliveries s))" using assms by (simp add: bus_ok_def)
  have "dl_id d \<noteq> dl_id d'" if "d \<in> set ?a" "d' \<in> set ?b" for d d'
  proof -
    have "d \<noteq> d'" using that by (auto simp: stale_def ready_def)
    then show ?thesis using dist that by (auto simp: distinct_map dest: inj_onD)
  qed
  moreover have "distinct (map dl_id (take k ?a))" "distinct (map dl_id (take k ?b))" for k
    using distinct_take [OF distinct_map_filter [OF dist]] by (auto simp: take_map)
  ultimately show "distinct (claim_ids c n s)"
    by (auto simp: claim_ids_def Let_def dest!: in_set_takeD)
  show "set (claim_ids c n s) \<subseteq> dl_id ` set (b_deliveries s)"
    by (auto simp: claim_ids_def Let_def dest!: in_set_takeD)
  have "length (filter (\<lambda>d. (stale s c d \<or> ready s c d) \<and> unlocked s d) ds)
      = length (filter (\<lambda>d. stale s c d \<and> unlocked s d) ds) + length (filter (\<lambda>d. ready s c d \<and> unlocked s d) ds)" for ds
    by (induction ds) (auto simp: stale_def ready_def)
  then show "length (claim_ids c n s) = min n (length (filter (\<lambda>d. (stale s c d \<or> ready s c d) \<and> unlocked s d) (b_deliveries s)))"
    by (auto simp: claim_ids_def Let_def min_def)
qed

lemma claim_rows:
  assumes "bus_ok s" "claim_deliveries_body c n s = Inr (rows, t)"
  shows "map fst rows = filter (\<lambda>d. dl_id d \<in> set (claim_ids c n s)) (b_deliveries t) \<and>
    (\<forall>(d, e) \<in> set rows. e \<in> set (b_events s) \<and> ev_id e = dl_event d)"
proof -
  have ok: "bus_ok t" "b_events t = b_events s"
    using claim_body_ok [OF assms] assms(2) by (auto simp: claim_deliveries_body_def Let_def)
  have rows: "rows = [(d, e). d \<leftarrow> b_deliveries t, dl_id d \<in> set (claim_ids c n s), e \<leftarrow> b_events t, ev_id e = dl_event d]"
    using assms(2) by (auto simp: claim_deliveries_body_def Let_def)
  have one: "[(d, e). e \<leftarrow> b_events t, ev_id e = dl_event d] = [(d, SOME e. e \<in> set (b_events t) \<and> ev_id e = dl_event d)]"
    if "d \<in> set (b_deliveries t)" for d
  proof -
    have "dl_event d \<in> ev_id ` set (b_events t)" using ok(1) that by (simp add: bus_ok_def)
    then obtain e where e: "e \<in> set (b_events t)" "ev_id e = dl_event d" by auto
    have "filter (\<lambda>x. ev_id x = dl_event d) (b_events t) = [e]"
      using one_match [of ev_id "b_events t" e] ok(1) e by (simp add: bus_ok_def)
    moreover have "[(d, e). e \<leftarrow> es, ev_id e = dl_event d] = map (Pair d) (filter (\<lambda>x. ev_id x = dl_event d) es)"
      for es :: "event_row list"
      by (induction es) auto
    moreover have "(SOME x. x \<in> set (b_events t) \<and> ev_id x = dl_event d) = e"
    proof (rule some_equality)
      fix x assume "x \<in> set (b_events t) \<and> ev_id x = dl_event d"
      then show "x = e" using e ok(1) by (intro same_key [of ev_id "b_events t"]) (simp_all add: bus_ok_def)
    qed (use e in simp)
    ultimately show ?thesis by simp
  qed
  have "map fst [(d, e). d \<leftarrow> ds, dl_id d \<in> set ids, e \<leftarrow> b_events t, ev_id e = dl_event d] = filter (\<lambda>d. dl_id d \<in> set ids) ds"
    if "set ds \<subseteq> set (b_deliveries t)" for ds ids
    using that by (induction ds) (auto simp: one)
  then show ?thesis unfolding rows ok(2) [symmetric] by auto
qed

text \<open>C22 A claim takes exactly what may be taken.  It answers at most as many deliveries as asked for, and fewer
  only when no more may be taken; each was waiting and due, or had been in the hands of a consumer for more
  than ten minutes, belongs to this consumer, is locked by nobody and comes with its event; it is now
  processing with one attempt more, and every other delivery is untouched.\<close>

theorem claim_exact:
  assumes "claim_event_deliveries name limit (os, s) = (Inr rows, (os', t))" "bus_ok s"
  shows "\<exists>c. (\<exists>r \<in> set (b_consumers t). cn_name r = name \<and> cn_id r = c) \<and>
    length rows = min (nat (max 1 (min 100 limit)))
      (length (filter (\<lambda>d. (stale s c d \<or> ready s c d) \<and> unlocked s d) (b_deliveries s))) \<and>
    (\<forall>(d, e) \<in> set rows. d \<in> set (b_deliveries t) \<and> e \<in> set (b_events t) \<and> ev_id e = dl_event d \<and>
       (\<exists>d0 \<in> set (b_deliveries s). d = claimed s d0 \<and> (stale s c d0 \<or> ready s c d0) \<and> unlocked s d0)) \<and>
    (\<forall>d0 \<in> set (b_deliveries s). d0 \<in> set (b_deliveries t) \<or> (\<exists>(d, e) \<in> set rows. d = claimed s d0))"
proof -
  obtain c os1 u where c: "ensure_event_consumer name (os, s) = (Inr c, (os1, u))"
    and rest: "io_bind (tx (claim_deliveries_body c (nat (max 1 (min 100 limit))))) (\<lambda>rows.
        io_bind (heartbeat_event_consumer name) (\<lambda>_. io_return rows)) (os1, u) = (Inr rows, (os', t))"
    using assms(1) by (auto simp: claim_event_deliveries_def io_bind_Inr_iff)
  let ?n = "nat (max 1 (min 100 limit))"
  obtain os2 where body: "tx (claim_deliveries_body c ?n) (os1, u) = (Inr rows, (os2, t))"
    using rest by (auto simp: io_bind_Inr_iff heartbeat_event_consumer_def dest!: tx_run_done)
  note same = ensure_done [OF c]
  have ok: "bus_ok u" using soundD [OF sound_consumer assms(2) c] by blast
  have run: "claim_deliveries_body c ?n u = Inr (rows, t)" using tx_Inr [OF body] .
  let ?ids = "claim_ids c ?n u"
  have t: "t = u\<lparr>b_deliveries := map (\<lambda>d. if dl_id d \<in> set ?ids then claimed u d else d) (b_deliveries u)\<rparr>"
    using run by (auto simp: claim_deliveries_body_def Let_def)
  note rows = claim_rows [OF ok run]
  have eqs: "stale u c d = stale s c d" "ready u c d = ready s c d" "unlocked u d = unlocked s d" "claimed u d = claimed s d" for d
    using same by (simp_all add: stale_def ready_def unlocked_def claimed_def split: option.split)
  have id: "dl_id (claimed u d) = dl_id d" for d by (simp add: claimed_def)
  have "filter (\<lambda>d. dl_id d \<in> set ?ids) (b_deliveries t) = map (claimed u) (filter (\<lambda>d. dl_id d \<in> set ?ids) (b_deliveries u))"
    unfolding t by (simp add: filter_map o_def id cong: map_cong filter_cong)
  then have fst_rows: "map fst rows = map (claimed u) (filter (\<lambda>d. dl_id d \<in> set ?ids) (b_deliveries u))" using rows by simp
  have "length rows = length (filter (\<lambda>d. dl_id d \<in> set ?ids) (b_deliveries u))"
    using fst_rows by (metis length_map)
  also have "\<dots> = length ?ids"
    by (rule length_filter_ids [OF _ claim_ids_count(1,2) [OF ok]]) (use ok in \<open>simp add: bus_ok_def\<close>)
  finally have len: "length rows = min ?n (length (filter (\<lambda>d. (stale s c d \<or> ready s c d) \<and> unlocked s d) (b_deliveries s)))"
    unfolding claim_ids_count(3) [OF ok] eqs using same by simp
  have taken: "\<exists>d0 \<in> set (b_deliveries s). d = claimed s d0 \<and> (stale s c d0 \<or> ready s c d0) \<and> unlocked s d0 \<and> d \<in> set (b_deliveries t)"
    if "d \<in> set (map fst rows)" for d
  proof -
    from that obtain d0 where d0: "d0 \<in> set (b_deliveries u)" "dl_id d0 \<in> set ?ids" "d = claimed u d0" unfolding fst_rows by auto
    then have "d \<in> set (b_deliveries t)" by (auto simp: t)
    then show ?thesis using claim_ids_ok [OF ok d0(1,2)] d0 same by (auto simp: eqs)
  qed
  have others: "d0 \<in> set (b_deliveries t) \<or> (\<exists>(d, e) \<in> set rows. d = claimed s d0)" if "d0 \<in> set (b_deliveries s)" for d0
  proof (cases "dl_id d0 \<in> set ?ids")
    case True
    then have "claimed u d0 \<in> set (map fst rows)" unfolding fst_rows using that same by auto
    then show ?thesis by (auto simp: eqs)
  qed (use that same in \<open>force simp: t\<close>)
  have mine: "d \<in> set (b_deliveries t) \<and> e \<in> set (b_events t) \<and> ev_id e = dl_event d \<and>
       (\<exists>d0 \<in> set (b_deliveries s). d = claimed s d0 \<and> (stale s c d0 \<or> ready s c d0) \<and> unlocked s d0)"
    if "(d, e) \<in> set rows" for d e
  proof -
    have "d \<in> set (map fst rows)" using that by force
    moreover have "e \<in> set (b_events t) \<and> ev_id e = dl_event d" using rows that same by (auto simp: t)
    ultimately show ?thesis using taken by blast
  qed
  have "\<exists>r \<in> set (b_consumers t). cn_name r = name \<and> cn_id r = c" using same by (simp add: t)
  then show ?thesis using len mine others by (intro exI [of _ c]) blast
qed

section \<open>A delivery whose fifth worker dies\<close>

definition exhausted :: "delivery_row \<Rightarrow> bool" where
  "exhausted d \<longleftrightarrow> dl_status d = D_Processing \<and> dl_attempts d \<ge> 5"

lemma kept_intros:
  "kept P (io_return x)" "kept P (io_fail e)" "kept P (io_lift r)"
  "kept P m \<Longrightarrow> (\<And>x. kept P (f x)) \<Longrightarrow> kept P (io_bind m f)"
  unfolding kept_def by (auto intro: keeps_intros)

lemma exhausted_kept:
  assumes "exhausted d"
  defines "P \<equiv> \<lambda>s. bus_ok s \<and> d \<in> set (b_deliveries s)"
  shows "kept P (publish_event E n)" "kept P (ensure_event_consumer name)" "kept P (claim_event_deliveries name limit)"
    "i \<noteq> dl_id d \<Longrightarrow> kept P (complete_event_delivery i name success)"
proof -
  have sub: "d \<in> set (b_deliveries (fold (\<lambda>c. deliver i (cn_id c)) cs s))" if "d \<in> set (b_deliveries s)" for i cs s
    using that by (induction cs arbitrary: s) (auto simp: deliver_def b_fresh_def)
  have publish: "kept P (tx (publish_body m))" for m
  proof (rule kept_tx)
    fix s x t assume *: "P s" "publish_body m s = Inr (x, t)"
    then have "bus_ok t" using publish_body_ok [of s m x t] by (simp add: P_def)
    moreover have "d \<in> set (b_deliveries t)"
    proof (cases "List.find (\<lambda>e. ev_dedupe e = ne_dedupe m) (b_events s)")
      case None
      then show ?thesis using * by (auto simp: publish_body_def b_fresh_def P_def intro!: sub)
    qed (use * in \<open>simp add: publish_body_def P_def\<close>)
    ultimately show "P t" by (simp add: P_def)
  qed
  then show "kept P (publish_event E n)" unfolding publish_event_def by (intro kept_intros)
  have consumer: "kept P (ensure_event_consumer name)" for name
    unfolding kept_def keeps_def
  proof (intro allI impI)
    fix w :: "bus db" assume w: "P (snd w)"
    obtain os s where e: "w = (os, s)" by (rule prod.exhaust)
    obtain r os' s' where r: "ensure_event_consumer name (os, s) = (r, (os', s'))" by (cases "ensure_event_consumer name (os, s)") auto
    have "bus_ok s'" using soundD [OF sound_consumer _ r] w e by (simp add: P_def)
    moreover have "b_deliveries s' = b_deliveries s" using r unfolding ensure_event_consumer_def
      by (rule tx_cases) (auto simp: b_fresh_def split: option.splits)
    ultimately show "P (snd (snd (ensure_event_consumer name w)))" using w r e by (simp add: P_def)
  qed
  then show "kept P (ensure_event_consumer name)" .
  have "kept P (tx (claim_deliveries_body c k))" for c k
  proof (rule kept_tx)
    fix s x t assume *: "P s" "claim_deliveries_body c k s = Inr (x, t)"
    have "dl_id d \<notin> set (claim_ids c k s)"
      using claim_ids_ok [of s d c k] * assms(1) by (auto simp: P_def exhausted_def stale_def ready_def)
    then have "d \<in> set (b_deliveries t)" using * by (force simp: claim_deliveries_body_def Let_def P_def)
    then show "P t" using claim_body_ok [of s c k x t] * by (simp add: P_def)
  qed
  then show "kept P (claim_event_deliveries name limit)"
    unfolding claim_event_deliveries_def heartbeat_event_consumer_def
    by (intro kept_intros consumer kept_run)
  assume other: "i \<noteq> dl_id d"
  have "P t" if "P s" "sound (tx (\<lambda>s. Inr (list_ex (owned_by s name i) (b_deliveries s),
         s\<lparr>b_deliveries := map (\<lambda>d. if owned_by s name i d then completed s success d else d) (b_deliveries s)\<rparr>)))"
    "t = s\<lparr>b_deliveries := map (\<lambda>d. if owned_by s name i d then completed s success d else d) (b_deliveries s)\<rparr>" for s t
  proof -
    have "bus_ok t" using soundD [OF that(2), of s "[]"] that(1,3) by (simp add: P_def)
    moreover have "\<not> owned_by s name i d" using other by (simp add: owned_by_def)
    ultimately show ?thesis using that by (force simp: P_def)
  qed
  moreover have "sound (tx (\<lambda>s. Inr (list_ex (owned_by s name i) (b_deliveries s),
         s\<lparr>b_deliveries := map (\<lambda>d. if owned_by s name i d then completed s success d else d) (b_deliveries s)\<rparr>)))"
    using sound_complete .
  ultimately show "kept P (complete_event_delivery i name success)"
    unfolding complete_event_delivery_def by (intro kept_intros kept_tx) (auto simp: kept_def keeps_def)
qed

text \<open>C23 A delivery whose fifth worker dies is lost.  Once a delivery has been claimed for the fifth time, it stays
  in processing until that very delivery is completed: no claim takes it again, however much time passes, and
  nothing turns it dead.\<close>

theorem exhausted_delivery_lost:
  assumes "bus_run ops s t" "bus_ok s" "d \<in> set (b_deliveries s)" "exhausted d" "Complete (dl_id d) \<notin> set ops"
  shows "d \<in> set (b_deliveries t)"
  using assms
proof (induction rule: bus_run.induct)
  case (step op s t ops u)
  have "bus_ok t \<and> d \<in> set (b_deliveries t)"
    using step.hyps(1)
  proof cases
    case (publish E n os r os')
    then show ?thesis using keptD [OF exhausted_kept(1) [OF step.prems(3)] _ publish(2)] step.prems by blast
  next
    case (register name os r os')
    then show ?thesis using keptD [OF exhausted_kept(2) [OF step.prems(3)] _ register(2)] step.prems by blast
  next
    case (claim name limit os r os')
    then show ?thesis using keptD [OF exhausted_kept(3) [OF step.prems(3)] _ claim(2)] step.prems by blast
  next
    case (complete i name success os r os')
    then have "i \<noteq> dl_id d" using step.prems(4) by auto
    then show ?thesis using keptD [OF exhausted_kept(4) [OF step.prems(3)] _ complete(2)] step.prems by blast
  next
    case environment
    then show ?thesis using step.prems by (auto simp: bus_ok_def)
  qed
  then show ?case using step by simp
qed

section \<open>Witnesses\<close>

definition empty_bus :: bus where
  "empty_bus = \<lparr> b_now = 0, b_next = 0, b_sensor_events = [], b_resolutions = [], b_events = [], b_consumers = [],
     b_deliveries = [], b_assessments = [], b_candidates = [], b_relationships = [], b_incidents = [], b_history = [],
     b_links = [], b_locked = [] \<rparr>"

definition example_event :: new_event where
  "example_event = \<lparr> ne_type = ''http_anomaly'', ne_source = ''sensor'', ne_severity = ''low'', ne_occurred = 5,
     ne_correlation = Some ''192.0.2.7'', ne_payload = JObj [(''source_ip'', JStr ''192.0.2.7'')], ne_metadata = JObj [],
     ne_dedupe = ''k'' \<rparr>"

definition one_consumer :: bus where
  "one_consumer = empty_bus\<lparr>b_next := 1, b_consumers := [\<lparr> cn_id = 0, cn_name = ''engine'', cn_enabled = True \<rparr>]\<rparr>"

definition published_bus :: bus where
  "published_bus = one_consumer\<lparr>b_next := 3,
     b_events := [\<lparr> ev_id = 1, ev_type = ''http_anomaly'', ev_source = ''sensor'', ev_severity = ''low'', ev_occurred = 5,
       ev_correlation = Some ''ip-pseudonym:09090909090909090909090909090909'',
       ev_payload = JObj [(''source_ip'', JStr ''ip-pseudonym:09090909090909090909090909090909'')], ev_metadata = JObj [],
       ev_dedupe = ''k'' \<rparr>],
     b_deliveries := [\<lparr> dl_id = 2, dl_event = 1, dl_consumer = 0, dl_status = D_Pending, dl_attempts = 0, dl_available = 0,
       dl_started = None \<rparr>]\<rparr>"

definition claimed_bus :: bus where
  "claimed_bus = published_bus\<lparr>b_deliveries := map (claimed published_bus) (b_deliveries published_bus)\<rparr>"

lemma one_consumer_ok: "bus_ok one_consumer"
  by (simp add: bus_ok_def one_consumer_def empty_bus_def)

lemma published_run: "publish_event example_pseudonyms example_event ([], one_consumer) = (Inr 1, ([], published_bus))"
  by code_simp

lemma claimed_run: "snd (claim_event_deliveries ''engine'' 10 ([], published_bus)) = ([], claimed_bus)"
  by (simp add: claim_event_deliveries_def ensure_event_consumer_def io_bind_def published_bus_def one_consumer_def empty_bus_def
      claim_deliveries_body_def claim_ids_def stale_def ready_def unlocked_def claimed_bus_def claimed_def Let_def
      heartbeat_event_consumer_def tx_run_def io_return_def)

lemma published_ok: "bus_ok published_bus"
  using soundD [OF sound_ops(1) one_consumer_ok published_run] by blast

lemma deliveries_consistent_witness:
  "\<exists>ops. bus_run ops one_consumer claimed_bus \<and> bus_ok claimed_bus \<and> map dl_attempts (b_deliveries claimed_bus) = [1]"
proof -
  have p: "bus_step Publish one_consumer published_bus" by (rule bus_step.publish [OF published_run])
  obtain r where "claim_event_deliveries ''engine'' 10 ([], published_bus) = (r, ([], claimed_bus))"
    using claimed_run by (metis prod.collapse)
  then have "bus_step Claim published_bus claimed_bus" by (rule bus_step.claim)
  then have run: "bus_run [Publish, Claim] one_consumer claimed_bus" by (rule bus_run.step [OF p bus_run.step [OF _ bus_run.idle]])
  have "map dl_attempts (b_deliveries claimed_bus) = [1]" by (simp add: claimed_bus_def claimed_def published_bus_def)
  moreover have "bus_ok claimed_bus" using deliveries_consistent [OF run one_consumer_ok] by (rule conjunct1)
  ultimately show ?thesis using run by (intro exI conjI)
qed

lemma publish_once_witness:
  "\<exists>e rows. b_events published_bus = [e] \<and> ev_id e = 1 \<and> clean example_pseudonyms None (ev_payload e) \<and>
     b_deliveries published_bus = rows \<and> length rows = 1"
proof -
  have "\<not> (\<exists>e \<in> set (b_events one_consumer). ev_dedupe e = ne_dedupe example_event \<and> ev_id e = 1 \<and> published_bus = one_consumer)"
    by (simp add: one_consumer_def empty_bus_def)
  moreover have "b_events one_consumer = []" "b_deliveries one_consumer = []" "length (filter cn_enabled (b_consumers one_consumer)) = 1"
    by (simp_all add: one_consumer_def empty_bus_def)
  ultimately show ?thesis using publish_once [OF published_run one_consumer_ok] by (auto dest: list_all2_lengthD)
qed

lemma claim_exact_witness:
  "\<exists>d e t. claim_event_deliveries ''engine'' 10 ([], published_bus) = (Inr [(d, e)], ([], t)) \<and>
     dl_attempts d = 1 \<and> ev_id e = dl_event d"
proof -
  have "is_ok (fst (claim_event_deliveries ''engine'' 10 ([], published_bus)))"
    by (simp add: claim_event_deliveries_def ensure_event_consumer_def io_bind_def published_bus_def one_consumer_def empty_bus_def
        claim_deliveries_body_def Let_def heartbeat_event_consumer_def tx_run_def io_return_def)
  then obtain rows where r: "claim_event_deliveries ''engine'' 10 ([], published_bus) = (Inr rows, ([], claimed_bus))"
    using claimed_run by (auto simp: is_ok_iff prod_eq_iff)
  have len: "length rows = length (filter (\<lambda>d. (stale published_bus 0 d \<or> ready published_bus 0 d) \<and> unlocked published_bus d) (b_deliveries published_bus))"
    using claim_exact [OF r published_ok] by (auto simp: claimed_bus_def published_bus_def one_consumer_def)
  have "\<forall>d \<in> set (b_deliveries published_bus). dl_attempts d = 0" by (simp add: published_bus_def)
  then have "\<forall>(d, e) \<in> set rows. dl_attempts d = 1 \<and> ev_id e = dl_event d"
    using claim_exact [OF r published_ok] by (fastforce simp: claimed_def)
  moreover have "length rows = 1"
    unfolding len by (simp add: published_bus_def one_consumer_def empty_bus_def stale_def ready_def unlocked_def)
  then obtain d e where "rows = [(d, e)]" by (auto simp: length_Suc_conv)
  ultimately show ?thesis using r by auto
qed

definition exhausted_bus :: bus where
  "exhausted_bus = published_bus\<lparr>b_deliveries := map (\<lambda>d. d\<lparr>dl_status := D_Processing, dl_attempts := 5, dl_started := Some 0\<rparr>)
     (b_deliveries published_bus)\<rparr>"

lemma exhausted_delivery_lost_witness:
  "\<exists>d. b_deliveries exhausted_bus = [d] \<and> exhausted d \<and>
     d \<in> set (b_deliveries (snd (snd (claim_event_deliveries ''engine'' 10 ([], exhausted_bus\<lparr>b_now := 10 ^ 15, b_locked := []\<rparr>)))))"
proof -
  have one: "length (b_deliveries exhausted_bus) = 1" "list_all exhausted (b_deliveries exhausted_bus)"
    by (simp_all add: exhausted_bus_def published_bus_def exhausted_def)
  then obtain d where d: "b_deliveries exhausted_bus = [d]" "exhausted d" by (auto simp: length_Suc_conv)
  have ids: "map dl_id (b_deliveries exhausted_bus) = map dl_id (b_deliveries published_bus)"
    "map (\<lambda>d. (dl_event d, dl_consumer d)) (b_deliveries exhausted_bus) = map (\<lambda>d. (dl_event d, dl_consumer d)) (b_deliveries published_bus)"
    by (simp_all add: exhausted_bus_def o_def)
  have ok: "bus_ok exhausted_bus"
    using published_ok ids unfolding bus_ok_def by (auto simp: exhausted_bus_def row_of_def simp del: map_map)
  let ?late = "exhausted_bus\<lparr>b_now := 10 ^ 15, b_locked := []\<rparr>"
  obtain r os t where r: "claim_event_deliveries ''engine'' 10 ([], ?late) = (r, (os, t))"
    by (cases "claim_event_deliveries ''engine'' 10 ([], ?late)") auto
  have "b_now exhausted_bus \<le> 10 ^ 15" by (simp add: exhausted_bus_def published_bus_def one_consumer_def empty_bus_def)
  then have "bus_step Environment exhausted_bus ?late" by (rule bus_step.environment)
  moreover have "bus_step Claim ?late t" using r by (rule bus_step.claim)
  ultimately have "bus_run [Environment, Claim] exhausted_bus t" by (intro bus_run.step [OF _ bus_run.step [OF _ bus_run.idle]])
  from exhausted_delivery_lost [OF this ok _ d(2)] show ?thesis using d r by auto
qed

end
