(* ===== verification/Incidents.thy ===== *)
theory Incidents
  imports Event_Bus
begin

text \<open>
  Incident candidates and incidents (\<^verbatim>\<open>storage/src/lib.rs\<close>): the candidate a correlation creates or extends, its
  promotion into a managed incident, and the status transitions of an incident.  Alerts, notifications, the
  timeline, the knowledge base and the relations of an incident to indicators and to event relationships are left
  out: nothing here reads them.  The properties: a candidate only ever
  escalates, an incident belongs to one candidate and is never promoted twice, its status only moves forward and
  the history records every move.
\<close>

section \<open>Severities\<close>

definition severity_order :: "string \<Rightarrow> nat" where
  "severity_order v =
     (if v = ''critical'' then 5 else if v = ''high'' then 4 else if v = ''medium'' then 3 else if v = ''low'' then 2 else 1)"

definition max_incident_severity :: "string \<Rightarrow> string \<Rightarrow> string" where
  "max_incident_severity current incoming = (if severity_order incoming > severity_order current then incoming else current)"

definition SEVERITIES :: "string list" where
  "SEVERITIES = [''info'', ''low'', ''medium'', ''high'', ''critical'']"

definition clamp :: "int \<Rightarrow> int \<Rightarrow> int \<Rightarrow> int" where
  "clamp lo hi x = max lo (min hi x)"

section \<open>Candidates\<close>

record event_relationship =
  er_event :: uuid
  er_related :: uuid
  er_type :: string
  er_confidence :: int
  er_reason :: string

record correlation_request =
  cq_key :: string
  cq_confidence :: int
  cq_severity :: string
  cq_summary :: msg
  cq_first :: int
  cq_last :: int
  cq_window :: int
  cq_events :: "uuid list"
  cq_relationships :: "event_relationship list"

text \<open>\<^verbatim>\<open>.. AND status IN ('open','promoted') AND last_seen >= $2 ORDER BY last_seen DESC LIMIT 1\<close>\<close>

definition extendable :: "correlation_request \<Rightarrow> candidate_row \<Rightarrow> bool" where
  "extendable q c = (ca_key c = cq_key q \<and> ca_status c \<noteq> C_Dismissed \<and> ca_last c \<ge> cq_first q - cq_window q)"

definition newest :: "candidate_row list \<Rightarrow> candidate_row option" where
  "newest cs = (case sort_key (\<lambda>c. - ca_last c) cs of [] \<Rightarrow> None | c # _ \<Rightarrow> Some c)"

definition add_missing :: "uuid list \<Rightarrow> uuid list \<Rightarrow> uuid list" where
  "add_missing es xs = xs @ remdups (filter (\<lambda>e. e \<notin> set xs) es)"

definition extended :: "correlation_request \<Rightarrow> candidate_row \<Rightarrow> candidate_row" where
  "extended q c = c\<lparr>ca_status := C_Open, ca_confidence := max (ca_confidence c) (clamp 0 100 (cq_confidence q)),
     ca_severity := max_incident_severity (ca_severity c) (cq_severity q), ca_first := min (ca_first c) (cq_first q),
     ca_last := max (ca_last c) (cq_last q), ca_summary := cq_summary q, ca_events := add_missing (cq_events q) (ca_events c)\<rparr>"

text \<open>A relationship is stored with its events in order; a known one keeps its candidate and its best confidence.\<close>

definition relate :: "uuid \<Rightarrow> event_relationship \<Rightarrow> relationship_row list \<Rightarrow> relationship_row list" where
  "relate i r rs =
     (let a = min (er_event r) (er_related r); b = max (er_event r) (er_related r);
          same = (\<lambda>x. re_event x = a \<and> re_related x = b \<and> re_type x = er_type r);
          conf = clamp 0 100 (er_confidence r) in
      if list_ex same rs
      then map (\<lambda>x. if same x then x\<lparr>re_candidate := (case re_candidate x of Some c \<Rightarrow> Some c | None \<Rightarrow> Some i),
             re_confidence := max (re_confidence x) conf, re_reason := er_reason r\<rparr> else x) rs
      else rs @ [\<lparr> re_event = a, re_related = b, re_candidate = Some i, re_type = er_type r, re_confidence = conf,
             re_reason = er_reason r \<rparr>])"

text \<open>The constraints of the tables: a known severity, events that exist, a relationship of two events.\<close>

definition correlation_valid :: "correlation_request \<Rightarrow> bus \<Rightarrow> bool" where
  "correlation_valid q s =
     (list_all (\<lambda>e. e \<in> ev_id ` set (b_events s)) (cq_events q) \<and>
      list_all (\<lambda>r. er_event r \<noteq> er_related r \<and> er_event r \<in> ev_id ` set (b_events s) \<and>
        er_related r \<in> ev_id ` set (b_events s)) (cq_relationships q))"

definition persist_body :: "correlation_request \<Rightarrow> bus \<Rightarrow> msg + uuid \<times> bus" where
  "persist_body q s =
     (if \<not> correlation_valid q s then Inl db_error
      else case newest (filter (extendable q) (b_candidates s)) of
        Some c \<Rightarrow>
          Inr (ca_id c, s\<lparr>b_candidates := map (\<lambda>x. if ca_id x = ca_id c then extended q x else x) (b_candidates s),
            b_relationships := fold (relate (ca_id c)) (cq_relationships q) (b_relationships s)\<rparr>)
      | None \<Rightarrow>
          if cq_severity q \<notin> set SEVERITIES then Inl db_error
          else (case b_fresh s of (i, s) \<Rightarrow>
            Inr (i, s\<lparr>b_candidates := b_candidates s @ [\<lparr> ca_id = i, ca_status = C_Open, ca_key = cq_key q,
                ca_confidence = clamp 0 100 (cq_confidence q), ca_severity = cq_severity q, ca_first = cq_first q,
                ca_last = cq_last q, ca_summary = cq_summary q, ca_events = remdups (cq_events q) \<rparr>],
              b_relationships := fold (relate i) (cq_relationships q) (b_relationships s)\<rparr>)))"

definition persist_correlation :: "correlation_request \<Rightarrow> (bus db, msg, uuid) io" where
  "persist_correlation q = tx (persist_body q)"

section \<open>Promotion\<close>

record promotion =
  pr_bus :: bus
  pr_promoted :: nat
  pr_created :: "incident_row list"
  pr_escalated :: "incident_row list"

definition promote_one :: "candidate_row \<Rightarrow> promotion \<Rightarrow> promotion" where
  "promote_one c p =
     (let s = pr_bus p; conf = clamp 0 100 (ca_confidence c) in
      let (i, q) = (case List.find (\<lambda>x. inc_candidate x = Some (ca_id c)) (b_incidents s) of
          Some x \<Rightarrow>
            (let x' = x\<lparr>inc_severity := ca_severity c, inc_confidence := conf, inc_summary := ca_summary c\<rparr> in
             (inc_id x,
              if inc_severity x \<noteq> ca_severity c \<or> inc_confidence x \<noteq> conf \<or> inc_summary x \<noteq> ca_summary c
              then p\<lparr>pr_bus := s\<lparr>b_incidents := map (\<lambda>y. if inc_id y = inc_id x then x' else y) (b_incidents s)\<rparr>,
                pr_escalated := pr_escalated p @ [x']\<rparr>
              else p))
        | None \<Rightarrow>
            (case b_fresh s of (i, s) \<Rightarrow>
              let x = \<lparr> inc_id = i, inc_status = I_Detected, inc_severity = ca_severity c, inc_confidence = conf,
                  inc_summary = ca_summary c, inc_key = ca_key c, inc_candidate = Some (ca_id c), inc_detected = ca_first c,
                  inc_confirmed_at = None, inc_mitigated_at = None, inc_resolved_at = None, inc_closed_at = None \<rparr> in
              (i, p\<lparr>pr_bus := s\<lparr>b_incidents := b_incidents s @ [x],
                  b_history := b_history s @ [\<lparr> hi_incident = i, hi_previous = None, hi_new = I_Detected,
                    hi_by = ''correlation'', hi_reason = ''promoted from incident candidate'' \<rparr>]\<rparr>,
                pr_promoted := pr_promoted p + 1, pr_created := pr_created p @ [x]\<rparr>))) in
      q\<lparr>pr_bus := (pr_bus q)\<lparr>
          b_links := b_links (pr_bus q) @ map (Pair i) (filter (\<lambda>e. (i, e) \<notin> set (b_links (pr_bus q))) (ca_events c)),
          b_candidates := map (\<lambda>y. if ca_id y = ca_id c then y\<lparr>ca_status := C_Promoted\<rparr> else y) (b_candidates (pr_bus q))\<rparr>\<rparr>)"

definition promotable :: "nat \<Rightarrow> bus \<Rightarrow> candidate_row list" where
  "promotable limit s =
     take limit (sort_key ca_last (filter (\<lambda>c. ca_status c = C_Open \<and> ca_id c \<notin> set (b_locked s)) (b_candidates s)))"

definition promote_body :: "nat \<Rightarrow> bus \<Rightarrow> msg + promotion \<times> bus" where
  "promote_body limit s =
     (let p = fold promote_one (promotable limit s) \<lparr> pr_bus = s, pr_promoted = 0, pr_created = [], pr_escalated = [] \<rparr> in
      Inr (p, pr_bus p))"

text \<open>The events published once the transaction is over; \<open>occurrence\<close> is the clock in nanoseconds.\<close>

definition incident_event :: "(msg \<Rightarrow> string) \<Rightarrow> string \<Rightarrow> int \<Rightarrow> string \<Rightarrow> incident_row \<Rightarrow> new_event" where
  "incident_event text_of kind clock key x =
     \<lparr> ne_type = kind, ne_source = ''incident-correlator'', ne_severity = inc_severity x, ne_occurred = clock,
       ne_correlation = Some (uuid_text (inc_id x)),
       ne_payload = jobj [(''incident_id'', JStr (uuid_text (inc_id x))), (''severity'', JStr (inc_severity x)),
         (''reason'', JStr (text_of (inc_summary x))), (''confidence'', JInt (inc_confidence x))],
       ne_metadata = JObj [], ne_dedupe = key \<rparr>"

text \<open>Nothing here reads the notifications: what is left of queueing one is that it may fail.\<close>

definition enqueue_notification_event :: "(bus db, msg, unit) io" where
  "enqueue_notification_event = tx_run (\<lambda>s. s)"

fun publish_all :: "pseudonym_env \<Rightarrow> new_event list \<Rightarrow> (bus db, msg, unit) io" where
  "publish_all E [] = io_return ()"
| "publish_all E (n # ns) =
     io_bind (publish_event E n) (\<lambda>_. io_bind enqueue_notification_event (\<lambda>_. publish_all E ns))"

definition promote_incident_candidates ::
  "pseudonym_env \<Rightarrow> (msg \<Rightarrow> string) \<Rightarrow> int \<Rightarrow> int \<Rightarrow> int \<Rightarrow> (bus db, msg, nat) io" where
  "promote_incident_candidates E text_of clock occurrence limit =
     io_bind (tx (promote_body (nat (clamp 1 100 limit)))) (\<lambda>p.
     io_bind (publish_all E
       (map (\<lambda>x. incident_event text_of ''incident.created'' clock (''incident.created:'' @ uuid_text (inc_id x)) x) (pr_created p) @
        map (\<lambda>x. incident_event text_of ''incident.escalated'' clock
            (''incident.escalated:'' @ uuid_text (inc_id x) @ '':'' @ show_int occurrence) x) (pr_escalated p))) (\<lambda>_.
     io_return (pr_promoted p)))"

section \<open>Status transitions\<close>

fun incident_status_str :: "incident_status \<Rightarrow> string" where
  "incident_status_str I_Detected = ''detected''"
| "incident_status_str I_Acknowledged = ''acknowledged''"
| "incident_status_str I_Investigating = ''investigating''"
| "incident_status_str I_Confirmed = ''confirmed''"
| "incident_status_str I_Mitigated = ''mitigated''"
| "incident_status_str I_Resolved = ''resolved''"
| "incident_status_str I_Closed = ''closed''"

definition canonical_incident_status :: "string \<Rightarrow> incident_status option" where
  "canonical_incident_status v =
     (let v = to_ascii_lowercase v in
      if v \<in> {''open'', ''detected''} then Some I_Detected
      else if v = ''acknowledged'' then Some I_Acknowledged
      else if v = ''investigating'' then Some I_Investigating
      else if v = ''confirmed'' then Some I_Confirmed
      else if v = ''mitigated'' then Some I_Mitigated
      else if v = ''resolved'' then Some I_Resolved
      else if v \<in> {''ignored'', ''closed''} then Some I_Closed
      else None)"

fun incident_status_transition_allowed :: "incident_status \<Rightarrow> incident_status \<Rightarrow> bool" where
  "incident_status_transition_allowed I_Detected n = (n \<in> {I_Acknowledged, I_Investigating, I_Confirmed, I_Closed})"
| "incident_status_transition_allowed I_Acknowledged n = (n \<in> {I_Investigating, I_Confirmed, I_Resolved, I_Closed})"
| "incident_status_transition_allowed I_Investigating n = (n \<in> {I_Confirmed, I_Mitigated, I_Resolved, I_Closed})"
| "incident_status_transition_allowed I_Confirmed n = (n \<in> {I_Mitigated, I_Resolved, I_Closed})"
| "incident_status_transition_allowed I_Mitigated n = (n \<in> {I_Resolved, I_Closed})"
| "incident_status_transition_allowed I_Resolved n = (n = I_Closed)"
| "incident_status_transition_allowed I_Closed n = False"

text \<open>\<^verbatim>\<open>CASE WHEN $2='..' THEN COALESCE(.._at,NOW()) ELSE .._at END\<close>\<close>

definition stamp :: "bool \<Rightarrow> int \<Rightarrow> int option \<Rightarrow> int option" where
  "stamp hit now t = (if hit then (case t of Some x \<Rightarrow> Some x | None \<Rightarrow> Some now) else t)"

definition moved :: "int \<Rightarrow> incident_status \<Rightarrow> incident_row \<Rightarrow> incident_row" where
  "moved now n x = x\<lparr>inc_status := n,
     inc_confirmed_at := stamp (n = I_Confirmed) now (inc_confirmed_at x),
     inc_mitigated_at := stamp (n = I_Mitigated) now (inc_mitigated_at x),
     inc_resolved_at := stamp (n = I_Resolved) now (inc_resolved_at x),
     inc_closed_at := stamp (n = I_Closed) now (inc_closed_at x)\<rparr>"

definition transition_body :: "uuid \<Rightarrow> incident_status \<Rightarrow> string \<Rightarrow> string \<Rightarrow> bus \<Rightarrow> msg + unit \<times> bus" where
  "transition_body i n by_whom reason s =
     (case List.find (\<lambda>x. inc_id x = i) (b_incidents s) of
        None \<Rightarrow> Inl [Lit ''incident not found'']
      | Some x \<Rightarrow>
          if inc_status x \<noteq> n \<and> \<not> incident_status_transition_allowed (inc_status x) n
          then Inl [Lit ''incident status transition is not allowed'']
          else if inc_status x = n then Inr ((), s)
          else Inr ((), s\<lparr>b_incidents := map (\<lambda>y. if inc_id y = i then moved (b_now s) n y else y) (b_incidents s),
            b_history := b_history s @ [\<lparr> hi_incident = i, hi_previous = Some (inc_status x), hi_new = n, hi_by = by_whom,
              hi_reason = reason \<rparr>]\<rparr>))"

definition transition_incident_status :: "uuid \<Rightarrow> string \<Rightarrow> string \<Rightarrow> string \<Rightarrow> (bus db, msg, unit) io" where
  "transition_incident_status i requested by_whom reason =
     (case canonical_incident_status requested of
        None \<Rightarrow> io_fail [Lit ''invalid incident status'']
      | Some n \<Rightarrow>
          (let reason = trim reason in
           if length reason > 1000 then io_fail [Lit ''incident status reason is too long'']
           else tx (transition_body i n by_whom reason)))"

definition update_incident_status :: "uuid \<Rightarrow> string \<Rightarrow> (bus db, msg, unit) io" where
  "update_incident_status i status = transition_incident_status i status ''system'' []"

section \<open>What the tables promise\<close>

text \<open>The life of an incident as its history tells it.\<close>

fun story :: "incident_status option \<Rightarrow> history_row list \<Rightarrow> incident_status option \<Rightarrow> bool" where
  "story p [] q = (p = q)"
| "story p (h # hs) q =
     (hi_previous h = p \<and>
      (case p of None \<Rightarrow> hi_new h = I_Detected | Some a \<Rightarrow> incident_status_transition_allowed a (hi_new h)) \<and>
      story (Some (hi_new h)) hs q)"

definition history_of :: "uuid \<Rightarrow> bus \<Rightarrow> history_row list" where
  "history_of i s = filter (\<lambda>h. hi_incident h = i) (b_history s)"

definition candidate_ok :: "candidate_row \<Rightarrow> bool" where
  "candidate_ok c \<longleftrightarrow> ca_severity c \<in> set SEVERITIES \<and> 0 \<le> ca_confidence c \<and> ca_confidence c \<le> 100 \<and> distinct (ca_events c)"

text \<open>An incident never runs ahead of the candidate it was promoted from.\<close>

definition backed_by :: "candidate_row \<Rightarrow> incident_row \<Rightarrow> bool" where
  "backed_by c x \<longleftrightarrow> inc_candidate x = Some (ca_id c) \<and> inc_key x = ca_key c \<and> ca_status c \<noteq> C_Dismissed \<and>
     severity_order (inc_severity x) \<le> severity_order (ca_severity c) \<and> inc_severity x \<in> set SEVERITIES \<and>
     0 \<le> inc_confidence x \<and> inc_confidence x \<le> ca_confidence c"

definition incidents_ok :: "bus \<Rightarrow> bool" where
  "incidents_ok s \<longleftrightarrow>
     distinct (map ca_id (b_candidates s)) \<and> distinct (map inc_id (b_incidents s)) \<and>
     distinct (map inc_candidate (b_incidents s)) \<and>
     (\<forall>c \<in> set (b_candidates s). candidate_ok c \<and> ca_id c < b_next s) \<and>
     (\<forall>x \<in> set (b_incidents s). inc_id x < b_next s \<and> (\<exists>c \<in> set (b_candidates s). backed_by c x) \<and>
        story None (history_of (inc_id x) s) (Some (inc_status x))) \<and>
     (\<forall>h \<in> set (b_history s). hi_incident h < b_next s)"

text \<open>How the rows evolve: a candidate escalates and extends, an incident moves forward.\<close>

definition escalates :: "candidate_row \<Rightarrow> candidate_row \<Rightarrow> bool" where
  "escalates c c' \<longleftrightarrow> ca_id c' = ca_id c \<and> ca_key c' = ca_key c \<and>
     severity_order (ca_severity c) \<le> severity_order (ca_severity c') \<and> ca_confidence c \<le> ca_confidence c' \<and>
     ca_first c' \<le> ca_first c \<and> ca_last c \<le> ca_last c' \<and> set (ca_events c) \<subseteq> set (ca_events c')"

fun status_rank :: "incident_status \<Rightarrow> nat" where
  "status_rank I_Detected = 0"
| "status_rank I_Acknowledged = 1"
| "status_rank I_Investigating = 2"
| "status_rank I_Confirmed = 3"
| "status_rank I_Mitigated = 4"
| "status_rank I_Resolved = 5"
| "status_rank I_Closed = 6"

definition set_once :: "int option \<Rightarrow> int option \<Rightarrow> bool" where
  "set_once a b \<longleftrightarrow> a = None \<or> b = a"

definition advances :: "incident_row \<Rightarrow> incident_row \<Rightarrow> bool" where
  "advances x y \<longleftrightarrow> inc_id y = inc_id x \<and> inc_candidate y = inc_candidate x \<and> inc_key y = inc_key x \<and>
     inc_detected y = inc_detected x \<and> status_rank (inc_status x) \<le> status_rank (inc_status y) \<and>
     set_once (inc_confirmed_at x) (inc_confirmed_at y) \<and> set_once (inc_mitigated_at x) (inc_mitigated_at y) \<and>
     set_once (inc_resolved_at x) (inc_resolved_at y) \<and> set_once (inc_closed_at x) (inc_closed_at y)"

definition incidents_grow :: "bus \<Rightarrow> bus \<Rightarrow> bool" where
  "incidents_grow s t \<longleftrightarrow>
     (\<forall>c \<in> set (b_candidates s). \<exists>c' \<in> set (b_candidates t). escalates c c') \<and>
     (\<forall>x \<in> set (b_incidents s). \<exists>y \<in> set (b_incidents t). advances x y) \<and>
     (\<exists>hs. b_history t = b_history s @ hs) \<and> set (b_links s) \<subseteq> set (b_links t)"

lemma escalates_refl [simp]: "escalates c c"
  by (simp add: escalates_def)

lemma escalates_trans: "escalates a b \<Longrightarrow> escalates b c \<Longrightarrow> escalates a c"
  by (auto simp: escalates_def)

lemma advances_refl [simp]: "advances x x"
  by (simp add: advances_def set_once_def)

lemma set_once_trans: "set_once a b \<Longrightarrow> set_once b c \<Longrightarrow> set_once a c"
  by (cases a) (auto simp: set_once_def)

lemma advances_trans: "advances x y \<Longrightarrow> advances y z \<Longrightarrow> advances x z"
  unfolding advances_def by (elim conjE, intro conjI) (assumption | erule (1) set_once_trans order_trans | simp)+

lemma more_rows:
  "set cs \<subseteq> set cs' \<Longrightarrow> \<forall>c \<in> set cs. \<exists>c' \<in> set cs'. escalates c c'"
  "set xs \<subseteq> set ys \<Longrightarrow> \<forall>x \<in> set xs. \<exists>y \<in> set ys. advances x y"
  by (meson escalates_refl subsetD) (meson advances_refl subsetD)

lemma incidents_grow_refl: "incidents_grow s s"
proof -
  have "\<exists>hs. b_history s = b_history s @ hs" by (rule exI [of _ "[]"]) simp
  then show ?thesis unfolding incidents_grow_def by (meson advances_refl escalates_refl order_refl)
qed

lemma incidents_grow_trans:
  assumes "incidents_grow s t" "incidents_grow t u"
  shows "incidents_grow s u"
proof -
  have "\<exists>c' \<in> set (b_candidates u). escalates c c'" if "c \<in> set (b_candidates s)" for c
    using assms that unfolding incidents_grow_def by (meson escalates_trans)
  moreover have "\<exists>y \<in> set (b_incidents u). advances x y" if "x \<in> set (b_incidents s)" for x
    using assms that unfolding incidents_grow_def by (meson advances_trans)
  moreover have "\<exists>hs. b_history u = b_history s @ hs" "set (b_links s) \<subseteq> set (b_links u)"
    using assms unfolding incidents_grow_def by auto
  ultimately show ?thesis unfolding incidents_grow_def by blast
qed

interpretation incident_tables: evolving_tables incidents_ok incidents_grow
  by unfold_locales (auto intro: incidents_grow_refl incidents_grow_trans)

section \<open>The operations keep it\<close>

lemma severity_order_max: "severity_order (max_incident_severity a b) = max (severity_order a) (severity_order b)"
  by (simp add: max_incident_severity_def)

lemma max_severity_known:
  "a \<in> set SEVERITIES \<Longrightarrow> max_incident_severity a b \<in> set SEVERITIES"
  by (auto simp: max_incident_severity_def severity_order_def SEVERITIES_def split: if_splits)

lemma clamp_bounds: "lo \<le> hi \<Longrightarrow> lo \<le> clamp lo hi x \<and> clamp lo hi x \<le> hi"
  by (simp add: clamp_def)

lemma clamp_within: "lo \<le> x \<Longrightarrow> x \<le> hi \<Longrightarrow> clamp lo hi x = x"
  by (simp add: clamp_def)

lemma extended_escalates:
  assumes "candidate_ok c"
  shows "escalates c (extended q c) \<and> candidate_ok (extended q c)"
  using assms clamp_bounds [of 0 100 "cq_confidence q"]
  by (auto simp: escalates_def candidate_ok_def extended_def severity_order_max max_severity_known add_missing_def)

lemma escalated_backing: "backed_by c x \<Longrightarrow> escalates c c' \<Longrightarrow> ca_status c' \<noteq> C_Dismissed \<Longrightarrow> backed_by c' x"
  by (auto simp: backed_by_def escalates_def)

text \<open>Replacing candidates by later versions of themselves.\<close>

lemma update_candidates:
  assumes ok: "incidents_ok s"
    and f: "\<And>c. c \<in> set (b_candidates s) \<Longrightarrow> escalates c (f c) \<and> candidate_ok (f c) \<and>
      (ca_status c \<noteq> C_Dismissed \<longrightarrow> ca_status (f c) \<noteq> C_Dismissed)"
    and t: "b_candidates t = map f (b_candidates s)" "b_incidents t = b_incidents s" "b_history t = b_history s"
      "set (b_links s) \<subseteq> set (b_links t)" "b_next s \<le> b_next t"
  shows "incidents_ok t \<and> incidents_grow s t"
proof
  have ids: "map ca_id (map f (b_candidates s)) = map ca_id (b_candidates s)" using f by (auto simp: escalates_def)
  have "\<exists>c \<in> set (b_candidates t). backed_by c x" if x: "x \<in> set (b_incidents s)" for x
  proof -
    obtain c where c: "c \<in> set (b_candidates s)" "backed_by c x" using ok x by (auto simp: incidents_ok_def)
    then have "backed_by (f c) x" using escalated_backing [OF c(2), of "f c"] f [OF c(1)] by (auto simp: backed_by_def)
    then show ?thesis using c(1) t(1) by auto
  qed
  moreover have "candidate_ok (f c) \<and> ca_id (f c) < b_next t" if "c \<in> set (b_candidates s)" for c
    using f [OF that] ok t(5) that by (auto simp: incidents_ok_def escalates_def)
  moreover have "inc_id x < b_next t" if "x \<in> set (b_incidents s)" for x using ok t(5) that by (auto simp: incidents_ok_def)
  moreover have "hi_incident h < b_next t" if "h \<in> set (b_history s)" for h using ok t(5) that by (auto simp: incidents_ok_def)
  ultimately show "incidents_ok t" using ok ids t unfolding incidents_ok_def history_of_def by (auto simp del: map_map)
  show "incidents_grow s t" using f t more_rows(2) [of "b_incidents s" "b_incidents t"] unfolding incidents_grow_def by auto
qed

lemma new_candidate:
  assumes ok: "incidents_ok s" and c: "ca_id c = b_next s" "candidate_ok c"
    and t: "b_candidates t = b_candidates s @ [c]" "b_incidents t = b_incidents s" "b_history t = b_history s"
      "b_links t = b_links s" "b_next t = b_next s + 1"
  shows "incidents_ok t \<and> incidents_grow s t"
proof
  have "b_next s \<notin> ca_id ` set (b_candidates s)" using ok by (auto simp: incidents_ok_def)
  then show "incidents_ok t" using ok c t unfolding incidents_ok_def history_of_def by (auto simp: less_Suc_eq)
  show "incidents_grow s t" using t more_rows(1) [of "b_candidates s" "b_candidates t"]
      more_rows(2) [of "b_incidents s" "b_incidents t"] unfolding incidents_grow_def by auto
qed

lemma persist_body_ok:
  assumes ok: "incidents_ok s" and run: "persist_body q s = Inr (i, t)"
  shows "incidents_ok t \<and> incidents_grow s t"
proof (cases "newest (filter (extendable q) (b_candidates s))")
  case (Some c)
  have t: "t = s\<lparr>b_candidates := map (\<lambda>x. if ca_id x = ca_id c then extended q x else x) (b_candidates s),
            b_relationships := fold (relate (ca_id c)) (cq_relationships q) (b_relationships s)\<rparr>"
    using run Some by (auto simp: persist_body_def split: if_split_asm)
  have row: "candidate_ok x" if "x \<in> set (b_candidates s)" for x using ok that by (simp add: incidents_ok_def)
  have open': "ca_status (extended q x) \<noteq> C_Dismissed" for x by (simp add: extended_def)
  show ?thesis
    by (rule update_candidates [OF ok, of "\<lambda>x. if ca_id x = ca_id c then extended q x else x"])
      (use extended_escalates row open' in \<open>auto simp: t\<close>)
next
  case None
  let ?c = "\<lparr> ca_id = b_next s, ca_status = C_Open, ca_key = cq_key q, ca_confidence = clamp 0 100 (cq_confidence q),
      ca_severity = cq_severity q, ca_first = cq_first q, ca_last = cq_last q, ca_summary = cq_summary q,
      ca_events = remdups (cq_events q) \<rparr>"
  have known: "cq_severity q \<in> set SEVERITIES" and t: "t = s\<lparr>b_next := b_next s + 1, b_candidates := b_candidates s @ [?c],
      b_relationships := fold (relate (b_next s)) (cq_relationships q) (b_relationships s)\<rparr>"
    using run None by (auto simp: persist_body_def b_fresh_def split: if_split_asm)
  have "candidate_ok ?c" using known clamp_bounds [of 0 100 "cq_confidence q"] by (simp add: candidate_ok_def)
  then show ?thesis by (intro new_candidate [OF ok, of ?c]) (simp_all add: t)
qed

text \<open>Replacing incidents by later versions of themselves, with the history that tells it.\<close>

lemma update_incidents:
  assumes ok: "incidents_ok s"
    and g: "\<And>x. x \<in> set (b_incidents s) \<Longrightarrow> advances x (g x) \<and> (\<exists>c \<in> set (b_candidates s). backed_by c (g x)) \<and>
      story None (history_of (inc_id x) t) (Some (inc_status (g x)))"
    and t: "b_candidates t = b_candidates s" "b_incidents t = map g (b_incidents s)" "b_history t = b_history s @ hs"
      "\<forall>h \<in> set hs. hi_incident h < b_next s" "b_links t = b_links s" "b_next t = b_next s"
  shows "incidents_ok t \<and> incidents_grow s t"
proof
  have keys: "map inc_id (map g (b_incidents s)) = map inc_id (b_incidents s)"
    "map inc_candidate (map g (b_incidents s)) = map inc_candidate (b_incidents s)" using g by (auto simp: advances_def)
  have "inc_id (g x) = inc_id x" if "x \<in> set (b_incidents s)" for x using g [OF that] by (simp add: advances_def)
  then show "incidents_ok t" using ok keys g t unfolding incidents_ok_def by (auto simp del: map_map)
  show "incidents_grow s t" using g t more_rows(1) [of "b_candidates s" "b_candidates t"] unfolding incidents_grow_def by auto
qed

lemma history_of_new: "incidents_ok s \<Longrightarrow> history_of (b_next s) s = []"
  by (auto simp: history_of_def filter_empty_conv incidents_ok_def)

lemma new_incident:
  assumes ok: "incidents_ok s" and x: "inc_id x = b_next s" "inc_status x = I_Detected"
      "inc_candidate x \<notin> inc_candidate ` set (b_incidents s)" "c \<in> set (b_candidates s)" "backed_by c x"
    and h: "hi_incident h = b_next s" "hi_previous h = None" "hi_new h = I_Detected"
    and t: "b_candidates t = b_candidates s" "b_incidents t = b_incidents s @ [x]" "b_history t = b_history s @ [h]"
      "b_links t = b_links s" "b_next t = b_next s + 1"
  shows "incidents_ok t \<and> incidents_grow s t"
proof
  have fresh: "b_next s \<notin> inc_id ` set (b_incidents s)" using ok by (auto simp: incidents_ok_def)
  have told: "history_of i t = (if i = b_next s then history_of i s @ [h] else history_of i s)" for i
    using h t(3) by (simp add: history_of_def)
  have old: "story None (history_of (inc_id y) t) (Some (inc_status y)) \<and> inc_id y < b_next t \<and> (\<exists>c \<in> set (b_candidates t). backed_by c y)"
    if "y \<in> set (b_incidents s)" for y
    using ok that told [of "inc_id y"] t(1,5) unfolding incidents_ok_def by force
  have new: "story None (history_of (inc_id x) t) (Some (inc_status x))"
    using told [of "inc_id x"] history_of_new [OF ok] x h by simp
  have rows: "\<forall>c \<in> set (b_candidates t). candidate_ok c \<and> ca_id c < b_next t" "\<forall>h \<in> set (b_history t). hi_incident h < b_next t"
    using ok t h unfolding incidents_ok_def by (auto simp: less_Suc_eq)
  have keys: "distinct (map ca_id (b_candidates t))" "distinct (map inc_id (b_incidents t))" "distinct (map inc_candidate (b_incidents t))"
    using ok t x fresh unfolding incidents_ok_def by auto
  show "incidents_ok t" unfolding incidents_ok_def using keys rows old new x t by auto
  show "incidents_grow s t" using t more_rows(1) [of "b_candidates s" "b_candidates t"]
      more_rows(2) [of "b_incidents s" "b_incidents t"] unfolding incidents_grow_def by auto
qed

text \<open>The promotion of one candidate, and of all of them in turn.\<close>

definition promoted :: "candidate_row \<Rightarrow> candidate_row \<Rightarrow> candidate_row" where
  "promoted c y = (if ca_id y = ca_id c then y\<lparr>ca_status := C_Promoted\<rparr> else y)"

lemma promoted_ok: "candidate_ok y \<Longrightarrow> escalates y (promoted c y) \<and> candidate_ok (promoted c y) \<and>
    (ca_status y \<noteq> C_Dismissed \<longrightarrow> ca_status (promoted c y) \<noteq> C_Dismissed)"
  by (simp add: promoted_def escalates_def candidate_ok_def)

lemma refreshed_incident:
  assumes ok: "incidents_ok s" and c: "c \<in> set (b_candidates s)" "ca_status c = C_Open"
    and x: "x \<in> set (b_incidents s)" "inc_candidate x = Some (ca_id c)"
  defines "x' \<equiv> x\<lparr>inc_severity := ca_severity c, inc_confidence := clamp 0 100 (ca_confidence c), inc_summary := ca_summary c\<rparr>"
  shows "advances x x' \<and> backed_by c x'"
proof -
  have "candidate_ok c" using ok c by (simp add: incidents_ok_def)
  moreover obtain c' where "c' \<in> set (b_candidates s)" "backed_by c' x" using ok x by (auto simp: incidents_ok_def)
  moreover have "c' = c" using calculation(2,3) ok x(2) c(1)
    by (auto simp: backed_by_def incidents_ok_def intro!: same_key [of ca_id "b_candidates s"])
  ultimately show ?thesis using c(2)
    by (auto simp: x'_def advances_def set_once_def backed_by_def candidate_ok_def clamp_within)
qed

lemma promote_one_ok:
  assumes ok: "incidents_ok (pr_bus p)" and c: "c \<in> set (b_candidates (pr_bus p))" "ca_status c = C_Open"
  defines "s \<equiv> pr_bus p" and "t \<equiv> pr_bus (promote_one c p)"
  shows "incidents_ok t \<and> incidents_grow s t \<and> b_candidates t = map (promoted c) (b_candidates s)"
proof -
  have finish: "incidents_ok t \<and> incidents_grow s t \<and> b_candidates t = map (promoted c) (b_candidates s)"
    if m: "incidents_ok m \<and> incidents_grow s m" "b_candidates m = b_candidates s"
      "t = m\<lparr>b_links := b_links m @ ls, b_candidates := map (promoted c) (b_candidates m)\<rparr>" for m ls
  proof -
    have "incidents_ok t \<and> incidents_grow m t"
      using m by (intro update_candidates [of m "promoted c"]) (auto simp: incidents_ok_def promoted_ok)
    then show ?thesis using m by (auto intro: incidents_grow_trans)
  qed
  show ?thesis
  proof (cases "List.find (\<lambda>x. inc_candidate x = Some (ca_id c)) (b_incidents s)")
    case (Some x)
    then have x: "x \<in> set (b_incidents s)" "inc_candidate x = Some (ca_id c)" by (auto simp: find_Some_iff)
    let ?x = "x\<lparr>inc_severity := ca_severity c, inc_confidence := clamp 0 100 (ca_confidence c), inc_summary := ca_summary c\<rparr>"
    let ?g = "\<lambda>y. if inc_id y = inc_id x then ?x else y"
    let ?m = "s\<lparr>b_incidents := map ?g (b_incidents s)\<rparr>"
    let ?ls = "map (Pair (inc_id x)) (filter (\<lambda>e. (inc_id x, e) \<notin> set (b_links s)) (ca_events c))"
    have dist: "distinct (map inc_id (b_incidents s))" using ok by (simp add: incidents_ok_def s_def)
    have unchanged: "?m = s" if "?x = x"
    proof -
      have "map ?g (b_incidents s) = b_incidents s"
        by (rule map_idI) (use that same_key [OF dist x(1)] in \<open>auto split: if_splits\<close>)
      then show ?thesis by simp
    qed
    have same: "?x = x" if "\<not> (inc_severity x \<noteq> ca_severity c \<or> inc_confidence x \<noteq> clamp 0 100 (ca_confidence c) \<or> inc_summary x \<noteq> ca_summary c)"
      using that by simp
    let ?changed = "inc_severity x \<noteq> ca_severity c \<or> inc_confidence x \<noteq> clamp 0 100 (ca_confidence c) \<or> inc_summary x \<noteq> ca_summary c"
    have "t = (if ?changed then ?m else s)\<lparr>b_links := b_links s @ ?ls, b_candidates := map (promoted c) (b_candidates s)\<rparr>"
      using Some unfolding t_def promote_one_def Let_def s_def [symmetric] promoted_def [abs_def]
      by (cases ?changed) (simp_all add: s_def)
    moreover have "(if ?changed then ?m else s) = ?m" using unchanged same by presburger
    ultimately have t: "t = ?m\<lparr>b_links := b_links ?m @ ?ls, b_candidates := map (promoted c) (b_candidates ?m)\<rparr>" by simp
    have g: "advances y (?g y) \<and> (\<exists>c \<in> set (b_candidates s). backed_by c (?g y)) \<and>
        story None (history_of (inc_id y) ?m) (Some (inc_status (?g y)))" if y: "y \<in> set (b_incidents s)" for y
    proof -
      have y_ok: "(\<exists>c \<in> set (b_candidates s). backed_by c y)" "story None (history_of (inc_id y) s) (Some (inc_status y))"
        using ok y by (auto simp: incidents_ok_def s_def)
      then show ?thesis
        using refreshed_incident [of s c x] ok c x same_key [OF dist x(1) y] by (auto simp: s_def history_of_def)
    qed
    have "incidents_ok ?m \<and> incidents_grow s ?m"
      by (rule update_incidents [of s ?g _ "[]", OF _ g]) (use ok in \<open>simp_all add: s_def\<close>)
    then show ?thesis using finish [OF _ _ t] by simp
  next
    case None
    let ?x = "\<lparr> inc_id = b_next s, inc_status = I_Detected, inc_severity = ca_severity c,
        inc_confidence = clamp 0 100 (ca_confidence c), inc_summary = ca_summary c, inc_key = ca_key c,
        inc_candidate = Some (ca_id c), inc_detected = ca_first c,
        inc_confirmed_at = None, inc_mitigated_at = None, inc_resolved_at = None, inc_closed_at = None \<rparr>"
    let ?h = "\<lparr> hi_incident = b_next s, hi_previous = None, hi_new = I_Detected, hi_by = ''correlation'',
        hi_reason = ''promoted from incident candidate'' \<rparr>"
    let ?m = "s\<lparr>b_next := b_next s + 1, b_incidents := b_incidents s @ [?x], b_history := b_history s @ [?h]\<rparr>"
    let ?ls = "map (Pair (b_next s)) (filter (\<lambda>e. (b_next s, e) \<notin> set (b_links s)) (ca_events c))"
    have "candidate_ok c" using ok c by (simp add: incidents_ok_def)
    then have backed: "backed_by c ?x" using c(2) by (simp add: backed_by_def candidate_ok_def clamp_within)
    have "Some (ca_id c) \<notin> inc_candidate ` set (b_incidents s)" using None by (auto simp: find_None_iff)
    then have m: "incidents_ok ?m \<and> incidents_grow s ?m"
      using ok c backed by (intro new_incident [of s ?x c ?h]) (simp_all add: s_def)
    have t: "t = ?m\<lparr>b_links := b_links ?m @ ?ls, b_candidates := map (promoted c) (b_candidates ?m)\<rparr>"
      using None unfolding t_def promote_one_def Let_def s_def [symmetric]
      by (simp add: b_fresh_def s_def promoted_def [abs_def])
    show ?thesis by (rule finish [OF m _ t]) simp
  qed
qed

lemma promote_all_ok:
  assumes "incidents_ok (pr_bus p)" "set cs \<subseteq> set (b_candidates (pr_bus p))" "distinct (map ca_id cs)" "\<forall>c \<in> set cs. ca_status c = C_Open"
  shows "incidents_ok (pr_bus (fold promote_one cs p)) \<and> incidents_grow (pr_bus p) (pr_bus (fold promote_one cs p))"
  using assms
proof (induction cs arbitrary: p)
  case (Cons c cs)
  let ?p = "promote_one c p"
  have one: "incidents_ok (pr_bus ?p) \<and> incidents_grow (pr_bus p) (pr_bus ?p) \<and>
      b_candidates (pr_bus ?p) = map (promoted c) (b_candidates (pr_bus p))"
    by (rule promote_one_ok) (use Cons.prems in auto)
  have "d \<in> set (b_candidates (pr_bus ?p))" if "d \<in> set cs" for d
  proof -
    have "promoted c d = d" "d \<in> set (b_candidates (pr_bus p))"
      using Cons.prems(2,3) that by (auto simp: promoted_def intro: rev_image_eqI)
    then show ?thesis using one by (metis image_eqI list.set_map)
  qed
  then have "incidents_ok (pr_bus (fold promote_one cs ?p)) \<and> incidents_grow (pr_bus ?p) (pr_bus (fold promote_one cs ?p))"
    using one Cons.prems by (intro Cons.IH) auto
  then show ?case using one by (auto intro: incidents_grow_trans)
qed (simp add: incidents_grow_refl)

lemma promotable_rows:
  assumes ok: "incidents_ok s"
  shows "distinct (map ca_id (promotable limit s)) \<and> set (promotable limit s) \<subseteq> set (b_candidates s) \<and>
    (\<forall>c \<in> set (promotable limit s). ca_status c = C_Open)"
proof -
  have "distinct (map ca_id (b_candidates s))" using ok by (simp add: incidents_ok_def)
  then have "inj_on ca_id (set (b_candidates s))" "distinct (b_candidates s)" by (auto simp: distinct_map)
  then have "distinct (map ca_id (promotable limit s))"
    unfolding promotable_def distinct_map
    by (intro conjI distinct_take) (auto intro!: distinct_take dest!: in_set_takeD elim!: inj_on_subset)
  moreover have "set (promotable limit s) \<subseteq> set (b_candidates s)" "\<forall>c \<in> set (promotable limit s). ca_status c = C_Open"
    by (auto simp: promotable_def dest!: in_set_takeD)
  ultimately show ?thesis by blast
qed

lemma promote_body_ok:
  assumes ok: "incidents_ok s" and run: "promote_body limit s = Inr (p, t)"
  shows "incidents_ok t \<and> incidents_grow s t"
proof -
  have t: "t = pr_bus (fold promote_one (promotable limit s) \<lparr> pr_bus = s, pr_promoted = 0, pr_created = [], pr_escalated = [] \<rparr>)"
    using run by (auto simp: promote_body_def Let_def)
  show ?thesis
    using promote_all_ok [of "\<lparr> pr_bus = s, pr_promoted = 0, pr_created = [], pr_escalated = [] \<rparr>" "promotable limit s"]
      promotable_rows [OF ok, of limit] ok by (simp add: t)
qed

lemma story_snoc:
  "story p (hs @ [h]) q \<longleftrightarrow> (\<exists>m. story p hs m \<and> hi_previous h = m \<and> q = Some (hi_new h) \<and>
     (case m of None \<Rightarrow> hi_new h = I_Detected | Some a \<Rightarrow> incident_status_transition_allowed a (hi_new h)))"
  by (induction hs arbitrary: p) auto

lemma allowed_rank: "incident_status_transition_allowed a b \<Longrightarrow> status_rank a < status_rank b"
  by (cases a) auto

lemma set_once_stamp [simp]: "set_once a (stamp hit now a)"
  by (cases a) (simp_all add: set_once_def stamp_def)

lemma moved_ok:
  assumes "incident_status_transition_allowed (inc_status x) n"
  shows "advances x (moved now n x)" "inc_status (moved now n x) = n" "backed_by c (moved now n x) = backed_by c x"
  using allowed_rank [OF assms] by (simp_all add: advances_def moved_def backed_by_def)

lemma transition_body_ok:
  assumes ok: "incidents_ok s" and run: "transition_body i n by_whom reason s = Inr (u, t)"
  shows "incidents_ok t \<and> incidents_grow s t"
proof (cases "t = s")
  case False
  then obtain x where x: "List.find (\<lambda>x. inc_id x = i) (b_incidents s) = Some x"
    "incident_status_transition_allowed (inc_status x) n"
    and t: "t = s\<lparr>b_incidents := map (\<lambda>y. if inc_id y = i then moved (b_now s) n y else y) (b_incidents s),
            b_history := b_history s @ [\<lparr> hi_incident = i, hi_previous = Some (inc_status x), hi_new = n, hi_by = by_whom,
              hi_reason = reason \<rparr>]\<rparr>"
    using run by (auto simp: transition_body_def split: option.splits if_split_asm)
  have member: "x \<in> set (b_incidents s)" "inc_id x = i" using x(1) by (auto simp: find_Some_iff)
  let ?g = "\<lambda>y. if inc_id y = i then moved (b_now s) n y else y"
  have dist: "distinct (map inc_id (b_incidents s))" using ok by (simp add: incidents_ok_def)
  have g: "advances y (?g y) \<and> (\<exists>c \<in> set (b_candidates s). backed_by c (?g y)) \<and>
      story None (history_of (inc_id y) t) (Some (inc_status (?g y)))" if y: "y \<in> set (b_incidents s)" for y
  proof -
    have y_ok: "\<exists>c \<in> set (b_candidates s). backed_by c y" "story None (history_of (inc_id y) s) (Some (inc_status y))"
      using ok y by (auto simp: incidents_ok_def)
    show ?thesis
    proof (cases "inc_id y = i")
      case True
      then have "y = x" using same_key [OF dist y member(1)] member(2) by simp
      then show ?thesis using y_ok moved_ok [OF x(2)] member(2) x(2) by (auto simp: t history_of_def story_snoc)
    next
      case False
      then show ?thesis using y_ok by (simp add: t history_of_def)
    qed
  qed
  have "i < b_next s" using ok member by (auto simp: incidents_ok_def)
  then show ?thesis
    by (intro update_incidents [OF ok, of ?g t "[\<lparr> hi_incident = i, hi_previous = Some (inc_status x), hi_new = n,
      hi_by = by_whom, hi_reason = reason \<rparr>]"] g) (simp_all add: t)
qed (simp add: ok incidents_grow_refl)

text \<open>The rest of the pipeline leaves the candidates and the incidents alone.\<close>

definition same_incidents :: "bus \<Rightarrow> bus \<Rightarrow> bool" where
  "same_incidents s t \<longleftrightarrow> b_candidates t = b_candidates s \<and> b_incidents t = b_incidents s \<and> b_history t = b_history s \<and>
     b_links t = b_links s \<and> b_next s \<le> b_next t"

lemma same_incidents_ok:
  assumes "incidents_ok s" "same_incidents s t"
  shows "incidents_ok t \<and> incidents_grow s t"
  by (rule update_candidates [of s id]) (use assms in \<open>auto simp: same_incidents_def incidents_ok_def\<close>)

lemma same_incidents_trans: "same_incidents s t \<Longrightarrow> same_incidents t u \<Longrightarrow> same_incidents s u"
  by (auto simp: same_incidents_def)

lemma deliver_same: "same_incidents s (deliver e c s)"
  by (simp add: same_incidents_def deliver_def b_fresh_def)

lemma fold_deliver_same: "same_incidents s (fold (\<lambda>c. deliver e (cn_id c)) cs s)"
proof (induction cs arbitrary: s)
  case (Cons c cs)
  show ?case using same_incidents_trans [OF deliver_same Cons.IH] by simp
qed (simp add: same_incidents_def)

lemma publish_body_same:
  assumes "publish_body n s = Inr (i, t)"
  shows "same_incidents s t"
proof (cases "List.find (\<lambda>e. ev_dedupe e = ne_dedupe n) (b_events s)")
  case None
  let ?m = "s\<lparr>b_next := Suc (b_next s), b_events := b_events s @ [\<lparr> ev_id = b_next s, ev_type = ne_type n,
      ev_source = ne_source n, ev_severity = ne_severity n, ev_occurred = ne_occurred n, ev_correlation = ne_correlation n,
      ev_payload = ne_payload n, ev_metadata = ne_metadata n, ev_dedupe = ne_dedupe n \<rparr>]\<rparr>"
  have "t = fold (\<lambda>c. deliver i (cn_id c)) (filter cn_enabled (b_consumers s)) ?m"
    using assms None by (auto simp: publish_body_def b_fresh_def)
  moreover have "same_incidents s ?m" by (simp add: same_incidents_def)
  ultimately show ?thesis using same_incidents_trans [OF _ fold_deliver_same] by simp
qed (use assms in \<open>simp add: publish_body_def same_incidents_def\<close>)

abbreviation incident_sound :: "(bus db, msg, 'a) io \<Rightarrow> bool" where
  "incident_sound \<equiv> sound_for incidents_ok incidents_grow"

lemma incident_sound_publish: "incident_sound (publish_event E n)"
  unfolding publish_event_def
  by (intro incident_tables.sound_seq incident_tables.sound_of_tx incident_tables.sound_leaf)
    (auto dest: publish_body_same same_incidents_ok)

lemma incident_sound_publish_all: "incident_sound (publish_all E ns)"
  by (induction ns)
    (simp_all only: publish_all.simps enqueue_notification_event_def tx_run_def, intro incident_tables.sound_leaf,
      intro incident_tables.sound_seq incident_sound_publish incident_tables.sound_of_tx, auto intro: incidents_grow_refl)

lemma incident_sound_ops:
  "incident_sound (persist_correlation q)" "incident_sound (promote_incident_candidates E text_of clock occurrence limit)"
  "incident_sound (transition_incident_status i status by_whom reason)"
proof -
  show "incident_sound (persist_correlation q)" unfolding persist_correlation_def
    by (intro incident_tables.sound_of_tx) (auto dest: persist_body_ok)
  have "incident_sound (tx (promote_body k))" for k
    by (intro incident_tables.sound_of_tx) (auto dest: promote_body_ok)
  then show "incident_sound (promote_incident_candidates E text_of clock occurrence limit)"
    unfolding promote_incident_candidates_def
    by (intro incident_tables.sound_seq incident_sound_publish_all incident_tables.sound_leaf)
  have "incident_sound (tx (transition_body i n by_whom reason))" for n reason
    by (intro incident_tables.sound_of_tx) (auto dest: transition_body_ok)
  then show "incident_sound (transition_incident_status i status by_whom reason)"
    unfolding transition_incident_status_def Let_def
    by (auto intro: incident_tables.sound_leaf split: option.split)
qed

section \<open>Every interleaving\<close>

inductive incident_step :: "bus \<Rightarrow> bus \<Rightarrow> bool" where
  correlate: "persist_correlation q (os, s) = (r, (os', t)) \<Longrightarrow> incident_step s t"
| promote: "promote_incident_candidates E text_of clock occurrence limit (os, s) = (n, (os', t)) \<Longrightarrow> incident_step s t"
| transition: "transition_incident_status i status by_whom reason (os, s) = (u, (os', t)) \<Longrightarrow> incident_step s t"
| elsewhere: "same_incidents s t \<Longrightarrow> incident_step s t"

lemma incident_step_ok: "incident_step s t \<Longrightarrow> incidents_ok s \<Longrightarrow> incidents_ok t \<and> incidents_grow s t"
  by (induction rule: incident_step.induct)
    (blast dest: incident_tables.sound_run [OF incident_sound_ops(1)] incident_tables.sound_run [OF incident_sound_ops(2)]
      incident_tables.sound_run [OF incident_sound_ops(3)] same_incidents_ok)+

lemma incident_run_ok:
  assumes "incident_step\<^sup>*\<^sup>* s t" "incidents_ok s"
  shows "incidents_ok t \<and> incidents_grow s t"
  using assms(1)
  by (induction rule: rtranclp_induct) (use assms(2) in \<open>auto dest: incident_step_ok intro: incidents_grow_refl incidents_grow_trans\<close>)

text \<open>C13 The candidates and the incidents stay consistent whatever happens: under every interleaving of
  correlations, promotions and status changes, and whatever transactions fail, no two incidents come from the
  same candidate, an incident is never more severe nor more certain than the candidate behind it, its status is the
  one its history tells by allowed transitions from \<^verbatim>\<open>detected\<close>; a candidate only escalates and extends, an
  incident never moves back, a timestamp once set is never changed, and no history row and no link is lost.\<close>

theorem incidents_consistent:
  assumes "incident_step\<^sup>*\<^sup>* s t" "incidents_ok s"
  shows "incidents_ok t \<and> incidents_grow s t"
  using assms by (rule incident_run_ok)

lemma story_bound:
  assumes "story (Some a) hs (Some b)"
  shows "status_rank a + length hs \<le> status_rank b"
  using assms by (induction hs arbitrary: a) (force dest: allowed_rank)+

lemma status_rank_bound: "status_rank a \<le> 6"
  by (cases a) simp_all

lemma story_from_start:
  assumes "story None hs (Some b)"
  shows "length hs \<le> status_rank b + 1 \<and> hs \<noteq> []"
proof (cases hs)
  case (Cons h rest)
  then have "story (Some I_Detected) rest (Some b)" using assms by (cases "hi_new h") auto
  then show ?thesis using Cons story_bound by fastforce
qed (use assms in simp)

text \<open>C25 The life of an incident ends.  Whatever is run, an incident changes its status at most six times: its
  history has no more rows than its status has rank, at most seven with the row of its creation, and a closed
  incident stays closed.\<close>

theorem incident_life_bounded:
  assumes "incident_step\<^sup>*\<^sup>* s t" "incidents_ok s" "x \<in> set (b_incidents s)"
  shows "\<exists>y \<in> set (b_incidents t). inc_id y = inc_id x \<and> length (history_of (inc_id y) t) \<le> status_rank (inc_status y) + 1 \<and>
    length (history_of (inc_id y) t) \<le> 7 \<and> (inc_status x = I_Closed \<longrightarrow> inc_status y = I_Closed)"
proof -
  have run: "incidents_ok t \<and> incidents_grow s t" using assms(1,2) by (rule incident_run_ok)
  then obtain y where y: "y \<in> set (b_incidents t)" "advances x y" using assms(3) by (auto simp: incidents_grow_def)
  have "story None (history_of (inc_id y) t) (Some (inc_status y))" using run y(1) by (simp add: incidents_ok_def)
  then have len: "length (history_of (inc_id y) t) \<le> status_rank (inc_status y) + 1" using story_from_start by blast
  have "inc_status y = I_Closed" if "inc_status x = I_Closed" using y(2) that by (cases "inc_status y") (auto simp: advances_def)
  then show ?thesis using y len status_rank_bound [of "inc_status y"] by (auto simp: advances_def)
qed

section \<open>What a correlation and a promotion do\<close>

lemma newest_Some:
  assumes "newest cs = Some c"
  shows "c \<in> set cs \<and> (\<forall>d \<in> set cs. ca_last d \<le> ca_last c)"
proof -
  obtain rest where rest: "sort_key (\<lambda>c. - ca_last c) cs = c # rest" using assms by (auto simp: newest_def split: list.splits)
  then have "set cs = set (c # rest)" by (metis set_sort)
  moreover have "sorted (map (\<lambda>c. - ca_last c) (c # rest))" using rest by (metis sorted_sort_key)
  ultimately show ?thesis by auto
qed

lemma newest_None: "newest cs = None \<Longrightarrow> cs = []"
  by (auto simp: newest_def split: list.splits) (metis set_sort set_empty)

definition covers :: "correlation_request \<Rightarrow> candidate_row \<Rightarrow> bool" where
  "covers q c \<longleftrightarrow> ca_key c = cq_key q \<and> ca_status c = C_Open \<and>
     severity_order (cq_severity q) \<le> severity_order (ca_severity c) \<and> clamp 0 100 (cq_confidence q) \<le> ca_confidence c \<and>
     ca_first c \<le> cq_first q \<and> cq_last q \<le> ca_last c \<and> set (cq_events q) \<subseteq> set (ca_events c)"

lemma covers_extended: "extendable q c \<Longrightarrow> covers q (extended q c)"
  by (auto simp: covers_def extended_def extendable_def severity_order_max add_missing_def)

text \<open>A correlation reaches one candidate.  When it is stored, the candidate it names is open, has the key of the
  correlation and covers its severity, its confidence, its time and its events; it is the latest candidate of the key
  that the window still reaches where there is one, promoted or not, and a new one otherwise; every other candidate
  is left as it was.\<close>

theorem correlation_reaches_one_candidate:
  assumes "persist_correlation q (os, s) = (Inr i, (os', t))" "incidents_ok s"
  shows "(\<exists>c \<in> set (b_candidates t). ca_id c = i \<and> covers q c) \<and>
    (\<forall>d \<in> set (b_candidates s). ca_id d \<noteq> i \<longrightarrow> d \<in> set (b_candidates t)) \<and>
    (if \<exists>d \<in> set (b_candidates s). extendable q d
     then \<exists>d \<in> set (b_candidates s). ca_id d = i \<and> extendable q d \<and>
       (\<forall>e \<in> set (b_candidates s). extendable q e \<longrightarrow> ca_last e \<le> ca_last d)
     else \<forall>d \<in> set (b_candidates s). ca_id d \<noteq> i)"
proof -
  have run: "persist_body q s = Inr (i, t)" using tx_Inr [OF assms(1) [unfolded persist_correlation_def]] .
  show ?thesis
  proof (cases "newest (filter (extendable q) (b_candidates s))")
    case (Some c)
    then have t: "i = ca_id c" "b_candidates t = map (\<lambda>x. if ca_id x = ca_id c then extended q x else x) (b_candidates s)"
      using run by (auto simp: persist_body_def split: if_split_asm)
    have c: "c \<in> set (b_candidates s)" "extendable q c" "\<forall>e \<in> set (b_candidates s). extendable q e \<longrightarrow> ca_last e \<le> ca_last c"
      using newest_Some [OF Some] by auto
    have "extended q c \<in> set (b_candidates t)" using c(1) t(2) by (auto intro: rev_image_eqI)
    moreover have "ca_id (extended q c) = i" using t(1) by (simp add: extended_def)
    moreover have "\<forall>d \<in> set (b_candidates s). ca_id d \<noteq> i \<longrightarrow> d \<in> set (b_candidates t)" using t by auto
    ultimately show ?thesis using c covers_extended [OF c(2)] t(1) by auto
  next
    case None
    have i: "i = b_next s" and t: "b_candidates t = b_candidates s @ [\<lparr> ca_id = i, ca_status = C_Open, ca_key = cq_key q,
        ca_confidence = clamp 0 100 (cq_confidence q), ca_severity = cq_severity q, ca_first = cq_first q,
        ca_last = cq_last q, ca_summary = cq_summary q, ca_events = remdups (cq_events q) \<rparr>]"
      using run None by (auto simp: persist_body_def b_fresh_def split: if_split_asm)
    have "\<forall>d \<in> set (b_candidates s). ca_id d \<noteq> i" using assms(2) i by (auto simp: incidents_ok_def)
    moreover have "\<not> (\<exists>d \<in> set (b_candidates s). extendable q d)" using newest_None [OF None] by (auto simp: filter_empty_conv)
    moreover have "\<exists>c \<in> set (b_candidates t). ca_id c = i \<and> covers q c" by (simp add: t covers_def)
    ultimately show ?thesis using t by auto
  qed
qed

text \<open>What the promotion of a candidate leaves behind.\<close>

definition incident_of :: "candidate_row \<Rightarrow> bus \<Rightarrow> bool" where
  "incident_of c s \<longleftrightarrow> (\<exists>x \<in> set (b_incidents s). inc_candidate x = Some (ca_id c) \<and> inc_severity x = ca_severity c \<and>
     inc_confidence x = clamp 0 100 (ca_confidence c) \<and> inc_summary x = ca_summary c \<and>
     (\<forall>e \<in> set (ca_events c). (inc_id x, e) \<in> set (b_links s)))"

lemma promote_one_effect:
  assumes ok: "incidents_ok (pr_bus p)"
  shows "incident_of c (pr_bus (promote_one c p))"
    "\<And>d. ca_id d \<noteq> ca_id c \<Longrightarrow> incident_of d (pr_bus p) \<Longrightarrow> incident_of d (pr_bus (promote_one c p))"
proof -
  let ?s = "pr_bus p"
  have dist: "distinct (map inc_id (b_incidents ?s))" using ok by (simp add: incidents_ok_def)
  have both: "incident_of c (pr_bus (promote_one c p)) \<and>
      (\<forall>d. ca_id d \<noteq> ca_id c \<longrightarrow> incident_of d ?s \<longrightarrow> incident_of d (pr_bus (promote_one c p)))"
  proof (cases "List.find (\<lambda>x. inc_candidate x = Some (ca_id c)) (b_incidents ?s)")
    case (Some x)
    then have x: "x \<in> set (b_incidents ?s)" "inc_candidate x = Some (ca_id c)" by (auto simp: find_Some_iff)
    let ?x = "x\<lparr>inc_severity := ca_severity c, inc_confidence := clamp 0 100 (ca_confidence c), inc_summary := ca_summary c\<rparr>"
    let ?g = "\<lambda>y. if inc_id y = inc_id x then ?x else y"
    obtain ys where ys: "b_incidents (pr_bus (promote_one c p)) = ys" "ys = map ?g (b_incidents ?s) \<or> ys = b_incidents ?s \<and> ?x = x"
      using Some by (cases "inc_severity x \<noteq> ca_severity c \<or> inc_confidence x \<noteq> clamp 0 100 (ca_confidence c) \<or> inc_summary x \<noteq> ca_summary c")
        (simp_all add: promote_one_def Let_def)
    have links: "set (b_links (pr_bus (promote_one c p))) = set (b_links ?s) \<union> Pair (inc_id x) ` set (ca_events c)"
      using Some by (auto simp: promote_one_def Let_def)
    have "?x \<in> set ys" using ys(2) x(1) by (auto intro: rev_image_eqI)
    then have "incident_of c (pr_bus (promote_one c p))" using x(2) links ys(1) by (auto simp: incident_of_def intro!: bexI [of _ ?x])
    moreover have "y \<in> set ys" if "y \<in> set (b_incidents ?s)" "inc_candidate y \<noteq> Some (ca_id c)" for y
    proof -
      have "inc_id y \<noteq> inc_id x" using same_key [OF dist that(1) x(1)] that(2) x(2) by auto
      then show ?thesis using ys(2) that(1) by (auto intro!: rev_image_eqI [of y])
    qed
    then have "incident_of d (pr_bus (promote_one c p))" if "ca_id d \<noteq> ca_id c" "incident_of d ?s" for d
      using that links ys(1) unfolding incident_of_def by fastforce
    ultimately show ?thesis by blast
  next
    case None
    then show ?thesis by (auto simp: promote_one_def Let_def b_fresh_def incident_of_def)
  qed
  then show "incident_of c (pr_bus (promote_one c p))"
    "\<And>d. ca_id d \<noteq> ca_id c \<Longrightarrow> incident_of d (pr_bus p) \<Longrightarrow> incident_of d (pr_bus (promote_one c p))" by auto
qed

text \<open>Every incident a promotion creates is counted and announced.\<close>

definition counted :: "promotion \<Rightarrow> promotion \<Rightarrow> bool" where
  "counted p q \<longleftrightarrow> (\<exists>new. map inc_id (b_incidents (pr_bus q)) = map inc_id (b_incidents (pr_bus p)) @ map inc_id new \<and>
     pr_created q = pr_created p @ new \<and> pr_promoted q = pr_promoted p + length new)"

lemma counted_trans: "counted p q \<Longrightarrow> counted q r \<Longrightarrow> counted p r"
  unfolding counted_def by (metis append.assoc map_append length_append add.assoc)

lemma promote_one_counted: "counted p (promote_one c p)"
proof (cases "List.find (\<lambda>x. inc_candidate x = Some (ca_id c)) (b_incidents (pr_bus p))")
  case (Some x)
  then show ?thesis by (auto simp: promote_one_def Let_def counted_def intro!: exI [of _ "[]"])
next
  case None
  then show ?thesis
    by (auto simp: promote_one_def Let_def b_fresh_def counted_def intro!: exI [of _ "[_]"])
qed

lemma promote_all_effect:
  assumes "incidents_ok (pr_bus p)" "set cs \<subseteq> set (b_candidates (pr_bus p))" "distinct (map ca_id cs)" "\<forall>c \<in> set cs. ca_status c = C_Open"
  shows "(\<forall>c \<in> set cs. incident_of c (pr_bus (fold promote_one cs p))) \<and> counted p (fold promote_one cs p) \<and>
    (\<forall>d. ca_id d \<notin> ca_id ` set cs \<and> incident_of d (pr_bus p) \<longrightarrow> incident_of d (pr_bus (fold promote_one cs p)))"
  using assms
proof (induction cs arbitrary: p)
  case Nil
  show ?case by (simp add: counted_def)
next
  case (Cons c cs)
  let ?p = "promote_one c p"
  have one: "incidents_ok (pr_bus ?p) \<and> incidents_grow (pr_bus p) (pr_bus ?p) \<and>
      b_candidates (pr_bus ?p) = map (promoted c) (b_candidates (pr_bus p))"
    by (rule promote_one_ok) (use Cons.prems in auto)
  have "d \<in> set (b_candidates (pr_bus ?p))" if "d \<in> set cs" for d
  proof -
    have "promoted c d = d" "d \<in> set (b_candidates (pr_bus p))"
      using Cons.prems(2,3) that by (auto simp: promoted_def intro: rev_image_eqI)
    then show ?thesis using one by (metis image_eqI list.set_map)
  qed
  then have rest: "(\<forall>c \<in> set cs. incident_of c (pr_bus (fold promote_one cs ?p))) \<and> counted ?p (fold promote_one cs ?p) \<and>
      (\<forall>d. ca_id d \<notin> ca_id ` set cs \<and> incident_of d (pr_bus ?p) \<longrightarrow> incident_of d (pr_bus (fold promote_one cs ?p)))"
    using one Cons.prems by (intro Cons.IH) auto
  have "incident_of c (pr_bus (fold promote_one cs ?p))"
    using rest promote_one_effect(1) [OF Cons.prems(1)] Cons.prems(3) by auto
  moreover have "incident_of d (pr_bus (fold promote_one cs ?p))" if "ca_id d \<notin> ca_id ` set (c # cs)" "incident_of d (pr_bus p)" for d
    using rest promote_one_effect(2) [OF Cons.prems(1), of d c] that by auto
  ultimately show ?case using rest counted_trans [OF promote_one_counted] by auto
qed

lemma incident_of_same: "same_incidents s t \<Longrightarrow> incident_of c s \<Longrightarrow> incident_of c t"
  by (simp add: same_incidents_def incident_of_def)

definition announced :: "bus \<Rightarrow> string \<Rightarrow> bool" where
  "announced s key \<longleftrightarrow> key \<in> ev_dedupe ` set (b_events s)"

lemma publish_body_announced:
  assumes "publish_body n s = Inr (i, t)"
  shows "same_incidents s t \<and> announced t (ne_dedupe n) \<and> (\<forall>k. announced s k \<longrightarrow> announced t k)"
proof (cases "List.find (\<lambda>e. ev_dedupe e = ne_dedupe n) (b_events s)")
  case (Some e)
  then have "e \<in> set (b_events s)" "ev_dedupe e = ne_dedupe n" by (auto simp: find_Some_iff)
  then show ?thesis using assms Some publish_body_same [OF assms] by (auto simp: publish_body_def announced_def intro: rev_image_eqI)
next
  case None
  then have "\<exists>e. b_events t = b_events s @ [e] \<and> ev_dedupe e = ne_dedupe n"
    using assms by (auto simp: publish_body_def b_fresh_def Let_def)
  then show ?thesis using publish_body_same [OF assms] by (auto simp: announced_def)
qed

lemma publish_all_done:
  assumes "publish_all E ns (os, s) = (Inr u, (os', t))"
  shows "same_incidents s t \<and> (\<forall>n \<in> set ns. announced t (ne_dedupe n)) \<and> (\<forall>k. announced s k \<longrightarrow> announced t k)"
  using assms
proof (induction ns arbitrary: os s)
  case (Cons n ns)
  then obtain m i os0 os1 s1 s2 where run: "sanitized_event E n = Inr m" "tx (publish_body m) (os, s) = (Inr i, (os0, s2))"
    "tx_run (\<lambda>s. s) (os0, s2) = (Inr (), (os1, s1))" "publish_all E ns (os1, s1) = (Inr u, (os', t))"
    by (auto simp: io_bind_Inr_iff publish_event_def enqueue_notification_event_def)
  have "s1 = s2" using tx_Inr [OF run(3) [unfolded tx_run_def]] by simp
  moreover have "ne_dedupe m = ne_dedupe n" using run(1) by (auto simp: sanitized_event_def and_then_Inr_iff)
  ultimately show ?case using Cons.IH [OF run(4)] publish_body_announced [OF tx_Inr [OF run(2)]] same_incidents_trans by auto
qed (simp add: same_incidents_def)

text \<open>C24 A promotion is complete.  When it returns, every open candidate it selected has its incident, as severe
  and as certain as the candidate and linked to all its events; the count it returns is the number of incidents it
  created, and an \<^verbatim>\<open>incident.created\<close> event announces each of them.\<close>

theorem promotion_complete:
  assumes "promote_incident_candidates E text_of clock occurrence limit (os, s) = (Inr n, (os', t))" "incidents_ok s"
  shows "(\<forall>c \<in> set (promotable (nat (clamp 1 100 limit)) s). incident_of c t) \<and>
    (\<exists>new. map inc_id (b_incidents t) = map inc_id (b_incidents s) @ new \<and> length new = n \<and>
       (\<forall>i \<in> set new. announced t (''incident.created:'' @ uuid_text i)))"
proof -
  let ?cs = "promotable (nat (clamp 1 100 limit)) s" and ?p = "\<lparr> pr_bus = s, pr_promoted = 0, pr_created = [], pr_escalated = [] \<rparr>"
  obtain p os1 m where p: "tx (promote_body (nat (clamp 1 100 limit))) (os, s) = (Inr p, (os1, m))" "n = pr_promoted p"
    and pub: "publish_all E
       (map (\<lambda>x. incident_event text_of ''incident.created'' clock (''incident.created:'' @ uuid_text (inc_id x)) x) (pr_created p) @
        map (\<lambda>x. incident_event text_of ''incident.escalated'' clock
            (''incident.escalated:'' @ uuid_text (inc_id x) @ '':'' @ show_int occurrence) x) (pr_escalated p)) (os1, m) = (Inr (), (os', t))"
    using assms(1) by (auto simp: promote_incident_candidates_def io_bind_Inr_iff)
  have p': "p = fold promote_one ?cs ?p" "m = pr_bus p" using tx_Inr [OF p(1)] by (auto simp: promote_body_def Let_def)
  have "distinct (map ca_id ?cs) \<and> set ?cs \<subseteq> set (b_candidates s) \<and> (\<forall>c \<in> set ?cs. ca_status c = C_Open)"
    using promotable_rows [OF assms(2)] by blast
  then have eff: "(\<forall>c \<in> set ?cs. incident_of c m) \<and> counted ?p p"
    using promote_all_effect [of ?p ?cs] assms(2) p' by auto
  then obtain new where new: "map inc_id (b_incidents m) = map inc_id (b_incidents s) @ map inc_id new" "pr_created p = new" "n = length new"
    using p(2) p'(2) by (auto simp: counted_def)
  note published = publish_all_done [OF pub]
  have "announced t (''incident.created:'' @ uuid_text (inc_id x))" if "x \<in> set new" for x
    using published that new(2) by (force simp: incident_event_def)
  moreover have "b_incidents t = b_incidents m" using published by (simp add: same_incidents_def)
  ultimately show ?thesis using eff published new incident_of_same
    by (intro conjI exI [of _ "map inc_id new"]) auto
qed

section \<open>Witnesses\<close>

definition example_correlation :: correlation_request where
  "example_correlation = \<lparr> cq_key = ''http_anomaly:192.0.2.7'', cq_confidence = 180, cq_severity = ''high'', cq_summary = [],
     cq_first = 5, cq_last = 9, cq_window = 1800, cq_events = [1, 1], cq_relationships = [] \<rparr>"

definition correlated_bus :: bus where
  "correlated_bus = published_bus\<lparr>b_next := 4,
     b_candidates := [\<lparr> ca_id = 3, ca_status = C_Open, ca_key = ''http_anomaly:192.0.2.7'', ca_confidence = 100,
       ca_severity = ''high'', ca_first = 5, ca_last = 9, ca_summary = [], ca_events = [1] \<rparr>]\<rparr>"

lemma published_incidents_ok: "incidents_ok published_bus"
  by (simp add: incidents_ok_def published_bus_def one_consumer_def empty_bus_def)

lemma correlated_run: "persist_correlation example_correlation ([], published_bus) = (Inr 3, ([], correlated_bus))"
  by code_simp

lemma correlated_ok: "incidents_ok correlated_bus"
  using incident_tables.sound_run [OF incident_sound_ops(1) published_incidents_ok correlated_run] by blast

lemma promoted_run:
  "fst (promote_incident_candidates example_pseudonyms (\<lambda>_. ''summary'') 7 8 10 ([], correlated_bus)) = Inr 1"
  by code_simp

definition promoted_bus :: bus where
  "promoted_bus = snd (snd (promote_incident_candidates example_pseudonyms (\<lambda>_. ''summary'') 7 8 10 ([], correlated_bus)))"

lemma promoted_to:
  "\<exists>os. promote_incident_candidates example_pseudonyms (\<lambda>_. ''summary'') 7 8 10 ([], correlated_bus) = (Inr 1, (os, promoted_bus))"
  using promoted_run by (metis promoted_bus_def prod.collapse)

lemma example_steps: "incident_step\<^sup>*\<^sup>* published_bus promoted_bus" "incident_step\<^sup>*\<^sup>* correlated_bus promoted_bus"
proof -
  have "incident_step published_bus correlated_bus" using correlated_run by (rule incident_step.correlate)
  moreover have step: "incident_step correlated_bus promoted_bus" using promoted_to incident_step.promote by blast
  ultimately show "incident_step\<^sup>*\<^sup>* published_bus promoted_bus" by (meson converse_rtranclp_into_rtranclp rtranclp.rtrancl_refl)
  show "incident_step\<^sup>*\<^sup>* correlated_bus promoted_bus" using step by (rule r_into_rtranclp)
qed

lemma promoted_row: "map inc_status (b_incidents promoted_bus) = [I_Detected]" "map inc_id (b_incidents promoted_bus) = [4]"
  by code_simp+

lemma incidents_consistent_witness:
  "incident_step\<^sup>*\<^sup>* published_bus promoted_bus \<and> incidents_ok promoted_bus \<and> incidents_grow published_bus promoted_bus \<and>
   map inc_id (b_incidents promoted_bus) = [4]"
  using incidents_consistent [OF example_steps(1) published_incidents_ok] example_steps(1) promoted_row(2) by simp

lemma incident_life_bounded_witness:
  "\<exists>x. b_incidents promoted_bus = [x] \<and> length (history_of (inc_id x) promoted_bus) \<le> 1"
proof -
  obtain x where x: "b_incidents promoted_bus = [x]" "inc_status x = I_Detected" using promoted_row(1) by (auto simp: map_eq_Cons_conv)
  have "incidents_ok promoted_bus" using incident_run_ok [OF example_steps(1) published_incidents_ok] by blast
  then have "\<exists>y \<in> set (b_incidents promoted_bus). inc_id y = inc_id x \<and>
      length (history_of (inc_id y) promoted_bus) \<le> status_rank (inc_status y) + 1"
    using incident_life_bounded [of promoted_bus promoted_bus x] x(1) by auto
  then show ?thesis using x by simp
qed

lemma correlation_reaches_one_candidate_witness:
  "(\<exists>c \<in> set (b_candidates correlated_bus). ca_id c = 3 \<and> covers example_correlation c) \<and> b_candidates published_bus = []"
  using correlation_reaches_one_candidate [OF correlated_run published_incidents_ok]
  by (simp add: published_bus_def one_consumer_def empty_bus_def)

lemma promotion_complete_witness:
  "list_all (\<lambda>c. incident_of c promoted_bus) (b_candidates correlated_bus) \<and> announced promoted_bus ''incident.created:4''"
proof -
  obtain os where run: "promote_incident_candidates example_pseudonyms (\<lambda>_. ''summary'') 7 8 10 ([], correlated_bus) = (Inr 1, (os, promoted_bus))"
    using promoted_to by blast
  note complete = promotion_complete [OF run correlated_ok]
  have sel: "promotable (nat (clamp 1 100 10)) correlated_bus = b_candidates correlated_bus" by code_simp
  have "map inc_id (b_incidents correlated_bus) = []" by code_simp
  then have "announced promoted_bus (''incident.created:'' @ uuid_text 4)" using complete promoted_row(2) by auto
  moreover have "''incident.created:'' @ uuid_text 4 = ''incident.created:4''" by code_simp
  ultimately show ?thesis using complete sel by (simp add: list_all_iff)
qed

end
