(* ===== verification/Correlation.thy ===== *)
theory Correlation
  imports Incidents "HOL-Library.Multiset" "HOL-Library.Sublist"
begin

text \<open>
  The correlation of events (\<^verbatim>\<open>correlation/src/lib.rs\<close>) and its service (\<^verbatim>\<open>correlation/src/main.rs\<close>): which two events belong
  together and why, what follows from a chain of them, the grouping of alerts, and the handling of one event, which
  stores an incident candidate with its relationships.  A BTreeSet of texts is the sorted list of its members, an
  unsigned byte a natural number with its saturation and its wrap-around written out.  The properties: two events are
  related by their content only and whichever way round; every correlatable event finds its candidate; a grouping loses
  and repeats no event.
\<close>

section \<open>Indicators\<close>

record event_record =
  cv_id :: uuid
  cv_type :: string
  cv_source :: string
  cv_severity :: string
  cv_occurred :: int
  cv_correlation :: "string option"
  cv_payload :: json

record correlation_match =
  cm_key :: string
  cm_type :: string
  cm_confidence :: nat
  cm_reason :: string

record correlation_outcome =
  co_confidence :: nat
  co_severity :: string
  co_summary :: msg

definition INDICATOR_KEYS :: "string list" where
  "INDICATOR_KEYS = [''resource'', ''target'', ''indicator'', ''ip'', ''ip_address'', ''source_ip'', ''destination_ip'', ''prefix'',
     ''asn'', ''domain'', ''url'', ''hash'', ''correlation_id'']"

fun collect_indicators :: "json \<Rightarrow> string option \<Rightarrow> string list"
and collect_members :: "(string \<times> json) list \<Rightarrow> string list"
and collect_items :: "json list \<Rightarrow> string option \<Rightarrow> string list" where
  "collect_indicators (JObj kvs) key = collect_members kvs"
| "collect_indicators (JArr xs) key = collect_items xs key"
| "collect_indicators (JStr text) key =
     (let normalized = to_ascii_lowercase (trim text);
          k = to_ascii_lowercase (case key of Some k \<Rightarrow> k | None \<Rightarrow> []) in
      if k \<in> set INDICATOR_KEYS \<and> length normalized \<ge> 3 \<and> length normalized \<le> 512 then [normalized] else [])"
| "collect_indicators (JInt i) key =
     (if (case key of Some k \<Rightarrow> to_ascii_lowercase k = ''asn'' | None \<Rightarrow> False) then [show_int i] else [])"
| "collect_indicators (JNum n) key =
     (if (case key of Some k \<Rightarrow> to_ascii_lowercase k = ''asn'' | None \<Rightarrow> False) then [n] else [])"
| "collect_indicators JNull key = []"
| "collect_indicators (JBool b) key = []"
| "collect_members [] = []"
| "collect_members ((name, child) # kvs) = collect_indicators child (Some name) @ collect_members kvs"
| "collect_items [] key = []"
| "collect_items (x # xs) key = collect_indicators x key @ collect_items xs key"

definition btree_set :: "string list \<Rightarrow> string list" where
  "btree_set xs = sort (remdups xs)"

definition extract_indicators :: "json \<Rightarrow> string list" where
  "extract_indicators v = btree_set (collect_indicators v None)"

section \<open>Two events\<close>

definition CORRELATABLE :: "string list" where
  "CORRELATABLE = [''new_threat_indicator'', ''bgp_change'', ''rpki_invalid'', ''asn_change'', ''trusted_network_change'', ''provider_error'']"

definition is_correlatable :: "string \<Rightarrow> bool" where
  "is_correlatable kind = (kind \<in> set CORRELATABLE)"

definition shared_id :: "event_record \<Rightarrow> event_record \<Rightarrow> string option" where
  "shared_id l r =
     (case (cv_correlation l, cv_correlation r) of
        (Some a, Some b) \<Rightarrow> if trim a \<noteq> [] \<and> a = b then Some a else None
      | _ \<Rightarrow> None)"

definition shared_indicator :: "event_record \<Rightarrow> event_record \<Rightarrow> string option" where
  "shared_indicator l r =
     (let values = extract_indicators (cv_payload r) in
      List.find (\<lambda>x. x \<in> set values) (extract_indicators (cv_payload l)))"

definition shares_source :: "event_record \<Rightarrow> event_record \<Rightarrow> bool" where
  "shares_source l r =
     (cv_source l = cv_source r \<and> trim (cv_source l) \<noteq> [] \<and>
      (cv_type l = ''provider_error'' \<or> cv_type r = ''provider_error''))"

definition correlate :: "event_record \<Rightarrow> event_record \<Rightarrow> int \<Rightarrow> correlation_match option" where
  "correlate l r window =
     (if cv_id l = cv_id r \<or> \<not> is_correlatable (cv_type l) \<or> \<not> is_correlatable (cv_type r) \<or>
        \<bar>cv_occurred l - cv_occurred r\<bar> > window then None
      else case shared_id l r of
        Some i \<Rightarrow> Some \<lparr> cm_key = ''correlation-id:'' @ i,
            cm_type = (if cv_type l = cv_type r then ''shared-correlation-id'' else ''event-chain''),
            cm_confidence = (if cv_type l = cv_type r then 82 else 96),
            cm_reason = ''events share the same source or target correlation id'' \<rparr>
      | None \<Rightarrow>
          (let shared = shared_indicator l r in
           if shared = None \<and> shares_source l r then
             Some \<lparr> cm_key = ''source:'' @ cv_source l, cm_type = ''shared-source'', cm_confidence = 68,
               cm_reason = ''events share source '' @ cv_source l @ '' within the correlation window'' \<rparr>
           else case shared of None \<Rightarrow> None
           | Some v \<Rightarrow>
               (let different_types = cv_type l \<noteq> cv_type r; same_source = cv_source l = cv_source r in
                Some \<lparr> cm_key = ''indicator:'' @ v, cm_type = (if different_types then ''event-chain'' else ''shared-indicator''),
                  cm_confidence = (if different_types then (if same_source then 86 else 92) else (if same_source then 72 else 78)),
                  cm_reason = ''events share indicator '' @ v \<rparr>)))"

section \<open>What follows from a chain\<close>

definition severity_rank :: "string \<Rightarrow> nat" where
  "severity_rank v =
     (let v = to_ascii_lowercase v in
      if v = ''critical'' then 4 else if v = ''high'' then 3 else if v = ''medium'' then 2 else if v = ''low'' then 1 else 0)"

definition normalize_severity :: "string \<Rightarrow> string" where
  "normalize_severity v =
     (let v = to_ascii_lowercase v in if v \<in> {''critical'', ''high'', ''medium'', ''low''} then v else ''info'')"

definition worst_severity :: "event_record list \<Rightarrow> string" where
  "worst_severity es =
     fold (\<lambda>e severity. if severity_rank (cv_severity e) > severity_rank severity then normalize_severity (cv_severity e) else severity)
       es ''info''"

definition derive_outcome :: "event_record list \<Rightarrow> correlation_match list \<Rightarrow> correlation_outcome" where
  "derive_outcome es ms =
     (let types = btree_set (map cv_type es); severity = worst_severity es;
          best = (if ms = [] then 0 else Max (set (map cm_confidence ms))) in
      \<lparr> co_confidence = min 100 (min 255 (best + (length types - 1) * 4 mod 256)),
        co_severity = (if length types \<ge> 2 \<and> severity = ''medium'' then ''high'' else severity),
        co_summary = (if length types > 1
          then [Lit ''Correlated security event chain ('', Lit (join_with '', '' types), Lit '')'']
          else [Lit ''Correlated security events sharing an indicator'']) \<rparr>)"

section \<open>Grouping alerts\<close>

record alert_rule =
  al_name :: string
  al_source :: "string option"
  al_class :: "string option"
  al_infrastructure :: "string option"
  al_window :: int

record alert_group =
  ag_key :: string
  ag_events :: "uuid list"
  ag_first :: int
  ag_last :: int
  ag_confidence :: nat

definition in_alert_rule :: "alert_rule \<Rightarrow> event_record \<Rightarrow> bool" where
  "in_alert_rule r e =
     ((case al_source r of None \<Rightarrow> True | Some v \<Rightarrow> v = cv_source e) \<and>
      (case al_class r of None \<Rightarrow> True | Some v \<Rightarrow> cv_type e = v))"

definition alert_key :: "alert_rule \<Rightarrow> event_record \<Rightarrow> string" where
  "alert_key r e =
     (case al_source r of Some v \<Rightarrow> v | None \<Rightarrow> cv_source e) @ '':'' @ (case al_class r of Some v \<Rightarrow> v | None \<Rightarrow> cv_type e)"

text \<open>\<^verbatim>\<open>groups.iter_mut().find(..)\<close>: the first group within reach takes the event, and a new group otherwise.\<close>

fun group_event :: "alert_rule \<Rightarrow> event_record \<Rightarrow> alert_group list \<Rightarrow> alert_group list" where
  "group_event r e [] =
     [\<lparr> ag_key = alert_key r e, ag_events = [cv_id e], ag_first = cv_occurred e, ag_last = cv_occurred e, ag_confidence = 60 \<rparr>]"
| "group_event r e (g # gs) =
     (if ag_key g = alert_key r e \<and> \<bar>cv_occurred e - ag_last g\<bar> \<le> al_window r
      then g\<lparr>ag_last := cv_occurred e, ag_first := min (ag_first g) (cv_occurred e), ag_events := ag_events g @ [cv_id e],
          ag_confidence := min 100 (min 255 (ag_confidence g + 3))\<rparr> # gs
      else g # group_event r e gs)"

definition group_alert_events :: "event_record list \<Rightarrow> alert_rule \<Rightarrow> alert_group list" where
  "group_alert_events es r = fold (group_event r) (filter (in_alert_rule r) es) []"

section \<open>The service\<close>

definition event_from_value :: "event_row \<Rightarrow> event_record" where
  "event_from_value e = \<lparr> cv_id = ev_id e, cv_type = ev_type e, cv_source = ev_source e, cv_severity = ev_severity e,
     cv_occurred = ev_occurred e, cv_correlation = ev_correlation e, cv_payload = ev_payload e \<rparr>"

text \<open>\<^verbatim>\<open>.. WHERE event_id <> $1 AND occurred_at BETWEEN $2 AND $3 ORDER BY occurred_at DESC LIMIT 500\<close>\<close>

definition correlation_rows :: "int \<Rightarrow> int \<Rightarrow> uuid \<Rightarrow> bus \<Rightarrow> event_record list" where
  "correlation_rows occurred window exclude s =
     map event_from_value (take 500 (sort_key (\<lambda>e. - ev_occurred e)
       (filter (\<lambda>e. ev_id e \<noteq> exclude \<and> occurred - window \<le> ev_occurred e \<and> ev_occurred e \<le> occurred + window) (b_events s))))"

definition list_correlation_events :: "int \<Rightarrow> int \<Rightarrow> uuid \<Rightarrow> (bus db, msg, event_record list) io" where
  "list_correlation_events occurred window exclude = tx_read (correlation_rows occurred window exclude)"

definition matches_of :: "event_record \<Rightarrow> int \<Rightarrow> event_record list \<Rightarrow> (event_record \<times> correlation_match) list" where
  "matches_of e window recent =
     concat (map (\<lambda>r. case correlate e r window of None \<Rightarrow> [] | Some m \<Rightarrow> [(r, m)]) recent)"

definition lone_request :: "event_record \<Rightarrow> int \<Rightarrow> string \<Rightarrow> correlation_request" where
  "lone_request e window i =
     (let outcome = derive_outcome [e] [] in
      \<lparr> cq_key = ''correlation-id:'' @ i, cq_confidence = int (co_confidence outcome), cq_severity = co_severity outcome,
        cq_summary = co_summary outcome, cq_first = cv_occurred e, cq_last = cv_occurred e, cq_window = window,
        cq_events = [cv_id e], cq_relationships = [] \<rparr>)"

definition chain_request :: "event_record \<Rightarrow> int \<Rightarrow> (event_record \<times> correlation_match) list \<Rightarrow> correlation_request" where
  "chain_request e window ms =
     (let ms = sort_key (\<lambda>(_, m). - int (cm_confidence m)) ms;
          strongest = filter (\<lambda>(_, m). cm_key m = cm_key (snd (hd ms))) ms;
          events = e # map fst strongest;
          outcome = derive_outcome events (map snd strongest) in
      \<lparr> cq_key = cm_key (snd (hd ms)), cq_confidence = int (co_confidence outcome), cq_severity = co_severity outcome,
        cq_summary = co_summary outcome, cq_first = Min (set (map cv_occurred events)), cq_last = Max (set (map cv_occurred events)),
        cq_window = window, cq_events = map cv_id events,
        cq_relationships = map (\<lambda>(r, m). \<lparr> er_event = cv_id e, er_related = cv_id r, er_type = cm_type m,
          er_confidence = int (cm_confidence m), er_reason = cm_reason m \<rparr>) ms \<rparr>)"

definition process_correlation :: "int \<Rightarrow> event_record \<Rightarrow> (bus db, msg, unit) io" where
  "process_correlation window e =
     (if \<not> is_correlatable (cv_type e) then io_return ()
      else io_bind (list_correlation_events (cv_occurred e) window (cv_id e)) (\<lambda>recent.
        let ms = matches_of e window recent in
        if ms = [] then
          (case Option.bind (cv_correlation e) (\<lambda>v. if trim v = [] then None else Some (trim v)) of
             None \<Rightarrow> io_return ()
           | Some i \<Rightarrow> io_bind (persist_correlation (lone_request e window i)) (\<lambda>_. io_return ()))
        else io_bind (persist_correlation (chain_request e window ms)) (\<lambda>_. io_return ())))"

text \<open>One tick of the service: claim, correlate, complete.  Every failure is logged and the loop goes on.\<close>

definition handle_correlation :: "int \<Rightarrow> delivery_row \<times> event_row \<Rightarrow> (bus db, msg, unit) io" where
  "handle_correlation window de w =
     (case process_correlation window (event_from_value (snd de)) w of
        (r, w') \<Rightarrow> io_ignore (complete_event_delivery (dl_id (fst de)) ''correlation'' (is_ok r)) w')"

definition correlation_tick :: "int \<Rightarrow> (bus db, msg, unit) io" where
  "correlation_tick window =
     io_bind (io_ignore (heartbeat_event_consumer ''correlation'')) (\<lambda>_.
     io_ignore (io_bind (claim_event_deliveries ''correlation'' 50) (each (handle_correlation window))))"

text \<open>The poll interval in seconds and the window; \<^verbatim>\<open>Duration::seconds\<close> panics beyond what it can hold in milliseconds.\<close>

definition correlation_config :: "env \<Rightarrow> (nat \<times> int) option" where
  "correlation_config env =
     (let poll = (case env_ok env ''CLAWFORGE_CORRELATION_POLL_SECONDS'' of
            Some v \<Rightarrow> (case parse_unsigned (2 ^ 64 - 1) v of Some n \<Rightarrow> if n > 0 then n else 5 | None \<Rightarrow> 5)
          | None \<Rightarrow> 5);
          window = (case env_ok env ''CLAWFORGE_CORRELATION_WINDOW_SECONDS'' of
            Some v \<Rightarrow> (case parse_i64 v of Some n \<Rightarrow> if n > 0 then n else 900 | None \<Rightarrow> 900)
          | None \<Rightarrow> 900) in
      if window > (2 ^ 63 - 1) div 1000 then None else Some (poll, window * 1000000))"

section \<open>Two events are related by their content\<close>

lemma btree_set_simps [simp]: "set (btree_set xs) = set xs" "sorted (btree_set xs)" "distinct (btree_set xs)"
  by (simp_all add: btree_set_def)

lemma btree_set_eq: "set xs = set ys \<Longrightarrow> btree_set xs = btree_set ys"
  by (intro sorted_distinct_set_unique) simp_all

lemma find_sorted_iff:
  "sorted xs \<Longrightarrow> List.find P xs = Some x \<longleftrightarrow> x \<in> set xs \<and> P x \<and> (\<forall>y \<in> set xs. P y \<longrightarrow> x \<le> y)"
  by (induction xs) (auto intro: antisym)

lemma find_None_set: "List.find P xs = None \<longleftrightarrow> (\<forall>x \<in> set xs. \<not> P x)"
  by (auto simp: find_None_iff)

abbreviation indicators :: "event_record \<Rightarrow> string set" where
  "indicators e \<equiv> set (extract_indicators (cv_payload e))"

lemma shared_indicator_Some:
  "shared_indicator l r = Some x \<longleftrightarrow> x \<in> indicators l \<inter> indicators r \<and> (\<forall>y \<in> indicators l \<inter> indicators r. x \<le> y)"
  unfolding shared_indicator_def Let_def extract_indicators_def by (auto simp: find_sorted_iff)

lemma shared_indicator_None: "shared_indicator l r = None \<longleftrightarrow> indicators l \<inter> indicators r = {}"
  unfolding shared_indicator_def Let_def by (auto simp: find_None_set)

lemma shared_indicator_sym: "shared_indicator l r = shared_indicator r l"
proof (cases "shared_indicator r l")
  case None
  then have "indicators l \<inter> indicators r = {}" unfolding shared_indicator_None by blast
  then show ?thesis unfolding None shared_indicator_None .
next
  case (Some x)
  then have "shared_indicator l r = Some x" unfolding shared_indicator_Some by blast
  then show ?thesis using Some by simp
qed

lemma shared_id_Some:
  "shared_id l r = Some i \<longleftrightarrow> cv_correlation l = Some i \<and> cv_correlation r = Some i \<and> trim i \<noteq> []"
  by (auto simp: shared_id_def split: option.splits)

lemma shared_id_sym: "shared_id l r = shared_id r l"
  by (auto simp: shared_id_def split: option.splits)

lemma shares_source_sym: "shares_source l r = shares_source r l"
  by (auto simp: shares_source_def)

text \<open>What makes two events belong together.\<close>

definition comparable :: "event_record \<Rightarrow> event_record \<Rightarrow> int \<Rightarrow> bool" where
  "comparable l r window \<longleftrightarrow> cv_id l \<noteq> cv_id r \<and> is_correlatable (cv_type l) \<and> is_correlatable (cv_type r) \<and>
     \<bar>cv_occurred l - cv_occurred r\<bar> \<le> window"

lemma correlate_sym: "correlate l r window = correlate r l window"
proof (cases "comparable l r window")
  case False
  then show ?thesis by (auto simp: correlate_def comparable_def abs_minus_commute)
next
  case True
  then have "correlate a b window = (case shared_id a b of
        Some i \<Rightarrow> Some \<lparr> cm_key = ''correlation-id:'' @ i,
            cm_type = (if cv_type a = cv_type b then ''shared-correlation-id'' else ''event-chain''),
            cm_confidence = (if cv_type a = cv_type b then 82 else 96),
            cm_reason = ''events share the same source or target correlation id'' \<rparr>
      | None \<Rightarrow>
          if shared_indicator a b = None \<and> shares_source a b then
             Some \<lparr> cm_key = ''source:'' @ cv_source a, cm_type = ''shared-source'', cm_confidence = 68,
               cm_reason = ''events share source '' @ cv_source a @ '' within the correlation window'' \<rparr>
          else map_option (\<lambda>v. \<lparr> cm_key = ''indicator:'' @ v,
              cm_type = (if cv_type a \<noteq> cv_type b then ''event-chain'' else ''shared-indicator''),
              cm_confidence = (if cv_type a \<noteq> cv_type b then (if cv_source a = cv_source b then 86 else 92)
                else (if cv_source a = cv_source b then 72 else 78)),
              cm_reason = ''events share indicator '' @ v \<rparr>) (shared_indicator a b))"
    if "(a, b) = (l, r) \<or> (a, b) = (r, l)" for a b
  proof -
    have "\<not> (cv_id a = cv_id b \<or> \<not> is_correlatable (cv_type a) \<or> \<not> is_correlatable (cv_type b) \<or> \<bar>cv_occurred a - cv_occurred b\<bar> > window)"
      using that True unfolding comparable_def by (auto simp: abs_minus_commute)
    then show ?thesis
      unfolding correlate_def Let_def
      by (simp only: if_False) (cases "shared_indicator a b"; simp only: option.simps simp_thms if_False if_True)
  qed
  note eq = this
  have "shares_source r l \<Longrightarrow> cv_source l = cv_source r" by (simp add: shares_source_def)
  then show ?thesis
    unfolding eq [of l r, simplified] eq [of r l, simplified]
    by (simp add: shared_id_sym [of l r] shared_indicator_sym [of l r] shares_source_sym [of l r]
        eq_commute [of "cv_type l"] eq_commute [of "cv_source l"] cong: option.case_cong split: option.split)
qed


section \<open>A grouping loses no event\<close>

text \<open>The group that stands for a list of events, in the order they joined it.\<close>

definition describes :: "alert_rule \<Rightarrow> event_record list \<Rightarrow> alert_group \<Rightarrow> bool" where
  "describes r es g \<longleftrightarrow> es \<noteq> [] \<and> (\<forall>e \<in> set es. in_alert_rule r e \<and> alert_key r e = ag_key g) \<and>
     ag_events g = map cv_id es \<and> ag_first g = Min (set (map cv_occurred es)) \<and> ag_last g = cv_occurred (List.last es) \<and>
     ag_confidence g = min 100 (60 + 3 * (length es - 1)) \<and>
     successively (\<lambda>a b. \<bar>cv_occurred b - cv_occurred a\<bar> \<le> al_window r) es"

text \<open>Who takes an event: the first group of its key whose last event is within the window, which becomes one event
  longer; and only where there is no such group, a new one at the end.\<close>

definition in_reach :: "alert_rule \<Rightarrow> event_record \<Rightarrow> alert_group \<Rightarrow> bool" where
  "in_reach r e g \<longleftrightarrow> ag_key g = alert_key r e \<and> \<bar>cv_occurred e - ag_last g\<bar> \<le> al_window r"

definition takes_event :: "alert_rule \<Rightarrow> event_record \<Rightarrow> alert_group list \<Rightarrow> alert_group list \<Rightarrow> bool" where
  "takes_event r e gs gs' \<longleftrightarrow>
     (if \<exists>g \<in> set gs. in_reach r e g
      then \<exists>pre g g' post. gs = pre @ g # post \<and> gs' = pre @ g' # post \<and> (\<forall>x \<in> set pre. \<not> in_reach r e x) \<and>
        in_reach r e g \<and> ag_key g' = ag_key g \<and> ag_events g' = ag_events g @ [cv_id e]
      else \<exists>g'. gs' = gs @ [g'] \<and> ag_key g' = alert_key r e \<and> ag_events g' = [cv_id e])"

lemma group_event_takes: "takes_event r e gs (group_event r e gs)"
proof (induction gs)
  case (Cons g gs)
  show ?case
  proof (cases "in_reach r e g")
    case True
    then have step: "group_event r e (g # gs) = hd (group_event r e (g # gs)) # gs"
      "ag_key (hd (group_event r e (g # gs))) = ag_key g"
      "ag_events (hd (group_event r e (g # gs))) = ag_events g @ [cv_id e]" by (simp_all add: in_reach_def)
    have "\<exists>x \<in> set (g # gs). in_reach r e x" using True by simp
    moreover have "\<exists>pre x x' post. g # gs = pre @ x # post \<and> group_event r e (g # gs) = pre @ x' # post \<and>
        (\<forall>y \<in> set pre. \<not> in_reach r e y) \<and> in_reach r e x \<and> ag_key x' = ag_key x \<and> ag_events x' = ag_events x @ [cv_id e]"
      using True step by (intro exI [of _ "[]"] exI [of _ g] exI [of _ "hd (group_event r e (g # gs))"] exI [of _ gs]) simp
    ultimately show ?thesis unfolding takes_event_def by (simp only: if_True)
  next
    case False
    then have step: "group_event r e (g # gs) = g # group_event r e gs" by (auto simp: in_reach_def)
    show ?thesis
    proof (cases "\<exists>x \<in> set gs. in_reach r e x")
      case True
      then obtain pre x x' post where "gs = pre @ x # post" "group_event r e gs = pre @ x' # post"
          "\<forall>y \<in> set pre. \<not> in_reach r e y" "in_reach r e x" "ag_key x' = ag_key x" "ag_events x' = ag_events x @ [cv_id e]"
        using Cons.IH unfolding takes_event_def by auto
      then show ?thesis unfolding takes_event_def step using False
        by simp (intro exI [of _ "g # pre"] exI [of _ x] exI [of _ x'] exI [of _ post], simp)
    next
      case none: False
      then show ?thesis using Cons.IH False unfolding takes_event_def step by auto
    qed
  qed
qed (simp add: takes_event_def)

lemma describes_join:
  assumes "describes r es g" "in_alert_rule r e" "ag_key g = alert_key r e" "\<bar>cv_occurred e - ag_last g\<bar> \<le> al_window r"
  shows "describes r (es @ [e]) (g\<lparr>ag_last := cv_occurred e, ag_first := min (ag_first g) (cv_occurred e),
    ag_events := ag_events g @ [cv_id e], ag_confidence := min 100 (min 255 (ag_confidence g + 3))\<rparr>)"
proof -
  obtain n where "length es = Suc n" using assms(1) by (cases "length es") (auto simp: describes_def)
  then have "min 100 (min 255 (min 100 (60 + 3 * (length es - 1)) + 3)) = min 100 (60 + 3 * length es)" by (simp add: min_def)
  then show ?thesis using assms by (auto simp: describes_def successively_append_iff min.commute)
qed

lemma group_event_described:
  assumes "list_all2 (describes r) parts gs" "in_alert_rule r e"
  shows "\<exists>parts'. list_all2 (describes r) parts' (group_event r e gs) \<and> mset (concat parts') = add_mset e (mset (concat parts)) \<and>
    (\<forall>p \<in> set parts'. p \<in> set parts \<or> p = [e] \<or> (\<exists>q \<in> set parts. p = q @ [e]))"
  using assms
proof (induction parts gs rule: list_all2_induct)
  case Nil
  then have "list_all2 (describes r) [[e]] (group_event r e [])" by (simp add: describes_def)
  then show ?case by (intro exI [of _ "[[e]]"]) simp
next
  case (Cons es rest g gs)
  show ?case
  proof (cases "ag_key g = alert_key r e \<and> \<bar>cv_occurred e - ag_last g\<bar> \<le> al_window r")
    case True
    then have "describes r (es @ [e]) (hd (group_event r e (g # gs)))" using describes_join [OF Cons.hyps(1) Cons.prems] by simp
    then show ?thesis using True Cons.hyps(2) by (intro exI [of _ "(es @ [e]) # rest"]) simp
  next
    case False
    obtain parts' where "list_all2 (describes r) parts' (group_event r e gs)" "mset (concat parts') = add_mset e (mset (concat rest))"
      "\<forall>p \<in> set parts'. p \<in> set rest \<or> p = [e] \<or> (\<exists>q \<in> set rest. p = q @ [e])"
      using Cons by blast
    then show ?thesis using False Cons.hyps(1) by (intro exI [of _ "es # parts'"]) auto
  qed
qed

lemma group_alert_events_snoc:
  "group_alert_events (es @ [e]) r = (if in_alert_rule r e then group_event r e (group_alert_events es r) else group_alert_events es r)"
  by (simp add: group_alert_events_def)

lemma groups_described:
  "\<exists>parts. list_all2 (describes r) parts (group_alert_events es r) \<and>
     mset (concat parts) = mset (filter (in_alert_rule r) es) \<and> (\<forall>p \<in> set parts. subseq p es)"
proof (induction es rule: rev_induct)
  case Nil
  show ?case by (intro exI [of _ "[]"]) (simp add: group_alert_events_def)
next
  case (snoc e es)
  then obtain parts where parts: "list_all2 (describes r) parts (group_alert_events es r)"
    "mset (concat parts) = mset (filter (in_alert_rule r) es)" "\<forall>p \<in> set parts. subseq p es" by blast
  have kept: "subseq p (es @ [e])" if "subseq p es" for p using that by (rule list_emb_prefix)
  show ?case
  proof (cases "in_alert_rule r e")
    case True
    obtain parts' where parts': "list_all2 (describes r) parts' (group_event r e (group_alert_events es r))"
      "mset (concat parts') = add_mset e (mset (concat parts))"
      "\<forall>p \<in> set parts'. p \<in> set parts \<or> p = [e] \<or> (\<exists>q \<in> set parts. p = q @ [e])"
      using group_event_described [OF parts(1) True] by (elim exE conjE) (rule that)
    have "subseq p (es @ [e])" if p: "p \<in> set parts'" for p
    proof -
      consider "p \<in> set parts" | "p = [e]" | q where "q \<in> set parts" "p = q @ [e]"
        using bspec [OF parts'(3) p] by (elim disjE bexE)
      then show ?thesis
      proof cases
        case 3
        then show ?thesis using parts(3) by (simp add: subseq_append)
      qed (use parts(3) kept in \<open>auto simp: subseq_singleton_left\<close>)
    qed
    then show ?thesis using parts(2) parts'(1,2) True by (intro exI [of _ parts']) (simp add: group_alert_events_snoc)
  next
    case False
    then show ?thesis using parts kept by (intro exI [of _ parts]) (simp add: group_alert_events_snoc)
  qed
qed

text \<open>C19 A grouping of alerts loses and repeats no event, and joins what is within reach.  The groups split the events
  the rule selects, each into exactly one group; a group has events of one key, in the order they came, each within the
  window of the one that joined before it; its first time is their earliest, its last time that of the event that joined
  last, and its confidence is 60 and three more for every further event, up to 100.  A further event the rule does not
  select changes nothing; one it selects joins the first group of its key whose last event is within the window, every
  other group being left as it is, and only where there is no such group it opens a new one at the end.\<close>

theorem grouping_loses_nothing:
  "(\<exists>parts. list_all2 (describes r) parts (group_alert_events es r) \<and>
     mset (concat parts) = mset (filter (in_alert_rule r) es) \<and> list_all (\<lambda>p. subseq p es) parts) \<and>
   (if in_alert_rule r e then takes_event r e (group_alert_events es r) (group_alert_events (es @ [e]) r)
    else group_alert_events (es @ [e]) r = group_alert_events es r)"
  using groups_described [of r es] group_event_takes by (simp add: group_alert_events_snoc list_all_iff)

section \<open>Every correlatable event finds its candidate\<close>

lemma persist_body_covers:
  assumes "persist_body q s = Inr (i, t)"
  shows "\<exists>c \<in> set (b_candidates t). covers q c"
proof (cases "newest (filter (extendable q) (b_candidates s))")
  case (Some c)
  then have t: "b_candidates t = map (\<lambda>x. if ca_id x = ca_id c then extended q x else x) (b_candidates s)"
    using assms by (auto simp: persist_body_def split: if_split_asm)
  have "c \<in> set (b_candidates s)" "extendable q c" using newest_Some [OF Some] by auto
  then show ?thesis using t covers_extended by fastforce
next
  case None
  then show ?thesis using assms by (auto simp: persist_body_def b_fresh_def covers_def split: if_split_asm)
qed

definition stands_for :: "event_relationship \<Rightarrow> relationship_row \<Rightarrow> bool" where
  "stands_for r x \<longleftrightarrow> re_event x = min (er_event r) (er_related r) \<and> re_related x = max (er_event r) (er_related r) \<and>
     re_type x = er_type r \<and> clamp 0 100 (er_confidence r) \<le> re_confidence x"

definition relation_held :: "event_relationship \<Rightarrow> relationship_row list \<Rightarrow> bool" where
  "relation_held r rows \<longleftrightarrow> (\<exists>x \<in> set rows. stands_for r x)"

text \<open>A relationship is added to the rows, or changes one row in place.\<close>

lemma relate_cases:
  obtains (new) x where "relate i r rows = rows @ [x]" "stands_for r x"
  | (known) f y where "relate i r rows = map f rows" "\<And>q x. stands_for q x \<Longrightarrow> stands_for q (f x)" "y \<in> set rows" "stands_for r (f y)"
proof -
  let ?same = "\<lambda>x. re_event x = min (er_event r) (er_related r) \<and> re_related x = max (er_event r) (er_related r) \<and> re_type x = er_type r"
  let ?f = "\<lambda>x. if ?same x then x\<lparr>re_candidate := (case re_candidate x of Some c \<Rightarrow> Some c | None \<Rightarrow> Some i),
             re_confidence := max (re_confidence x) (clamp 0 100 (er_confidence r)), re_reason := er_reason r\<rparr> else x"
  show thesis
  proof (cases "list_ex ?same rows")
    case True
    then obtain y where "y \<in> set rows" "?same y" by (auto simp: list_ex_iff)
    moreover have "relate i r rows = map ?f rows" using True by (simp add: relate_def Let_def)
    moreover have "stands_for q (?f x)" if "stands_for q x" for q x using that by (auto simp: stands_for_def)
    moreover have "stands_for r (?f y)" using \<open>?same y\<close> by (simp add: stands_for_def)
    ultimately show thesis using known [of ?f y] by blast
  next
    case False
    then show thesis using new by (auto simp: relate_def Let_def stands_for_def)
  qed
qed

lemma relate_holds: "relation_held r (relate i r rows)"
  by (rule relate_cases [of i r rows]) (auto simp: relation_held_def)

lemma relate_keeps: "relation_held r rows \<Longrightarrow> relation_held r (relate i r' rows)"
  by (rule relate_cases [of i r' rows]) (auto simp: relation_held_def)

lemma fold_relate_keeps: "relation_held r rows \<Longrightarrow> relation_held r (fold (relate i) rs rows)"
  by (induction rs arbitrary: rows) (auto intro: relate_keeps)

lemma fold_relate_holds: "r \<in> set rs \<Longrightarrow> relation_held r (fold (relate i) rs rows)"
  by (induction rs arbitrary: rows) (auto intro: relate_holds fold_relate_keeps)

lemma persist_body_relations:
  assumes "persist_body q s = Inr (i, t)" "r \<in> set (cq_relationships q)"
  shows "relation_held r (b_relationships t)"
  using assms fold_relate_holds by (auto simp: persist_body_def b_fresh_def split: if_split_asm option.splits)

lemma persist_correlation_returns:
  assumes "correlation_valid q s" "cq_severity q \<in> set SEVERITIES"
  obtains i t where "persist_correlation q ([], s) = (Inr i, ([], t))" "\<exists>c \<in> set (b_candidates t). covers q c"
    "\<forall>r \<in> set (cq_relationships q). relation_held r (b_relationships t)"
proof -
  obtain i t where t: "persist_body q s = Inr (i, t)"
    using assms by (cases "newest (filter (extendable q) (b_candidates s))") (auto simp: persist_body_def b_fresh_def)
  then show thesis using that [of i t] persist_body_covers persist_body_relations by (auto simp: persist_correlation_def)
qed

lemma worst_severity_known: "worst_severity es \<in> set SEVERITIES"
proof -
  have "fold (\<lambda>e v. if severity_rank (cv_severity e) > severity_rank v then normalize_severity (cv_severity e) else v) es v
      \<in> set SEVERITIES" if "v \<in> set SEVERITIES" for v
    using that by (induction es arbitrary: v) (auto simp: normalize_severity_def SEVERITIES_def Let_def)
  from this [of "''info''"] show ?thesis by (simp add: worst_severity_def SEVERITIES_def)
qed

lemma derive_outcome_known: "co_severity (derive_outcome es ms) \<in> set SEVERITIES"
  using worst_severity_known [of es] by (auto simp: derive_outcome_def Let_def SEVERITIES_def)

lemma correlation_rows_stored:
  "r \<in> set (correlation_rows t w i s) \<Longrightarrow> cv_id r \<in> ev_id ` set (b_events s)"
  by (auto simp: correlation_rows_def event_from_value_def dest!: in_set_takeD)

lemma matches_of_member: "(r, m) \<in> set (matches_of e w rs) \<longleftrightarrow> r \<in> set rs \<and> correlate e r w = Some m"
  by (auto simp: matches_of_def split: option.splits)

lemma correlate_distinct: "correlate e r w = Some m \<Longrightarrow> cv_id e \<noteq> cv_id r"
  by (auto simp: correlate_def)

text \<open>The strongest of several matches.\<close>

lemma strongest_first:
  fixes ms :: "(event_record \<times> correlation_match) list"
  assumes "ms \<noteq> []"
  shows "hd (sort_key (\<lambda>(_, m). - int (cm_confidence m)) ms) \<in> set ms \<and>
    (\<forall>(r, m) \<in> set ms. cm_confidence m \<le> cm_confidence (snd (hd (sort_key (\<lambda>(_, m). - int (cm_confidence m)) ms))))"
proof -
  let ?f = "\<lambda>(_ :: event_record, m :: correlation_match). - int (cm_confidence m)"
  obtain x rest where xs: "sort_key ?f ms = x # rest" using assms by (metis list.exhaust set_empty set_sort)
  have members: "set ms = set (x # rest)" using xs by (metis set_sort)
  have "sorted (map ?f (x # rest))" using xs by (metis sorted_sort_key)
  then have "\<forall>y \<in> set ms. ?f x \<le> ?f y" unfolding members by auto
  then show ?thesis unfolding xs using members by (auto simp: case_prod_unfold)
qed

definition lone_id :: "event_record \<Rightarrow> string option" where
  "lone_id e = Option.bind (cv_correlation e) (\<lambda>v. if trim v = [] then None else Some (trim v))"

definition candidate_of_chain :: "event_record \<Rightarrow> (event_record \<times> correlation_match) set \<Rightarrow> bus \<Rightarrow> bool" where
  "candidate_of_chain e ms t \<longleftrightarrow>
     (\<exists>m \<in> snd ` ms. (\<forall>m' \<in> snd ` ms. cm_confidence m' \<le> cm_confidence m) \<and>
        (\<exists>c \<in> set (b_candidates t). ca_key c = cm_key m \<and> ca_status c = C_Open \<and> int (cm_confidence m) \<le> ca_confidence c \<and>
           cv_id e \<in> set (ca_events c) \<and> (\<forall>(r', m') \<in> ms. cm_key m' = cm_key m \<longrightarrow> cv_id r' \<in> set (ca_events c)))) \<and>
     (\<forall>(r, m) \<in> ms. \<exists>x \<in> set (b_relationships t). {re_event x, re_related x} = {cv_id e, cv_id r} \<and>
        re_type x = cm_type m \<and> int (cm_confidence m) \<le> re_confidence x)"

definition candidate_of_one :: "event_record \<Rightarrow> string \<Rightarrow> bus \<Rightarrow> bool" where
  "candidate_of_one e i t \<longleftrightarrow> (\<exists>c \<in> set (b_candidates t). ca_key c = ''correlation-id:'' @ i \<and> ca_status c = C_Open \<and>
     cv_id e \<in> set (ca_events c) \<and> ca_first c \<le> cv_occurred e \<and> cv_occurred e \<le> ca_last c \<and>
     severity_order (normalize_severity (cv_severity e)) \<le> severity_order (ca_severity c))"

text \<open>What is looked at: the other events within the window, of which the 500 newest where there are more.\<close>

definition nearby :: "event_row \<Rightarrow> int \<Rightarrow> bus \<Rightarrow> event_row list" where
  "nearby e window s = filter (\<lambda>x. ev_id x \<noteq> ev_id e \<and> \<bar>ev_occurred x - ev_occurred e\<bar> \<le> window) (b_events s)"

definition newest_of :: "nat \<Rightarrow> event_row list \<Rightarrow> event_row list \<Rightarrow> bool" where
  "newest_of n xs ys \<longleftrightarrow> mset ys \<subseteq># mset xs \<and> length ys = min n (length xs) \<and>
     (\<forall>x \<in># mset xs - mset ys. \<forall>y \<in> set ys. ev_occurred x \<le> ev_occurred y)"

definition related_among :: "event_record \<Rightarrow> int \<Rightarrow> event_row list \<Rightarrow> (event_record \<times> correlation_match) set" where
  "related_among e window ys = {(r, m). r \<in> event_from_value ` set ys \<and> correlate e r window = Some m}"

lemma newest_of_take: "newest_of n xs (take n (sort_key (\<lambda>e. - ev_occurred e) xs))"
proof -
  let ?s = "sort_key (\<lambda>e. - ev_occurred e) xs"
  have split: "mset xs = mset (take n ?s) + mset (drop n ?s)"
    by (metis append_take_drop_id mset_append mset_sort)
  have "sorted (map (\<lambda>e. - ev_occurred e) (take n ?s @ drop n ?s))" by simp
  then have "\<forall>y \<in> set (take n ?s). \<forall>x \<in> set (drop n ?s). - ev_occurred y \<le> - ev_occurred x"
    unfolding map_append sorted_append by auto
  then show ?thesis unfolding newest_of_def split by (auto simp: min.commute)
qed

lemma correlation_rows_newest:
  obtains ys where "newest_of 500 (nearby e w s) ys"
    "correlation_rows (ev_occurred e) w (ev_id e) s = map event_from_value ys"
proof
  have within: "(\<lambda>x. ev_id x \<noteq> ev_id e \<and> ev_occurred e - w \<le> ev_occurred x \<and> ev_occurred x \<le> ev_occurred e + w) =
      (\<lambda>x. ev_id x \<noteq> ev_id e \<and> \<bar>ev_occurred x - ev_occurred e\<bar> \<le> w)" by (auto simp: fun_eq_iff abs_le_iff)
  show "correlation_rows (ev_occurred e) w (ev_id e) s =
      map event_from_value (take 500 (sort_key (\<lambda>e. - ev_occurred e) (nearby e w s)))"
    unfolding correlation_rows_def nearby_def within by (rule refl)
qed (rule newest_of_take)

lemma match_bounds: "correlate e r w = Some m \<Longrightarrow> cm_confidence m \<le> 100"
  by (auto simp: correlate_def Let_def split: if_split_asm option.splits)

lemma chain_confidence:
  assumes "m \<in> set ms" "cm_confidence m \<le> 100"
  shows "cm_confidence m \<le> co_confidence (derive_outcome es ms)"
proof -
  have best: "cm_confidence m \<le> Max (set (map cm_confidence ms))" using assms(1) by (intro Max_ge) auto
  have "ms \<noteq> []" using assms(1) by auto
  then have "co_confidence (derive_outcome es ms) =
      min 100 (min 255 (Max (set (map cm_confidence ms)) + (length (btree_set (map cv_type es)) - 1) * 4 mod 256))"
    by (simp add: derive_outcome_def Let_def)
  then show ?thesis using best assms(2) by linarith
qed

lemma chain_valid:
  assumes "e0 \<in> set (b_events s)" "e = event_from_value e0" "\<forall>(r, m) \<in> set ms. cv_id r \<in> ev_id ` set (b_events s) \<and> cv_id e \<noteq> cv_id r"
  shows "correlation_valid (chain_request e w ms) s"
  using assms by (auto simp: correlation_valid_def chain_request_def Let_def list_all_iff event_from_value_def)

lemma chain_found:
  assumes ms: "ms \<noteq> []" "\<forall>(r, m) \<in> set ms. correlate e r w = Some m"
    and c: "c \<in> set (b_candidates t)" "covers (chain_request e w ms) c"
    and rel: "\<forall>r \<in> set (cq_relationships (chain_request e w ms)). relation_held r (b_relationships t)"
  shows "candidate_of_chain e (set ms) t"
proof -
  let ?first = "hd (sort_key (\<lambda>(_, m). - int (cm_confidence m)) ms)"
  obtain r m where top: "?first = (r, m)" by (rule prod.exhaust)
  have first: "(r, m) \<in> set ms" "\<forall>(r', m') \<in> set ms. cm_confidence m' \<le> cm_confidence m" using strongest_first [OF ms(1)] top by auto
  let ?q = "chain_request e w ms"
  have key: "cq_key ?q = cm_key m" using top by (simp add: chain_request_def Let_def)
  have events: "cv_id e \<in> set (cq_events ?q) \<and> (\<forall>(r', m') \<in> set ms. cm_key m' = cm_key m \<longrightarrow> cv_id r' \<in> set (cq_events ?q))"
  proof -
    have "cq_events ?q = cv_id e # map (cv_id \<circ> fst) (filter (\<lambda>(_, m'). cm_key m' = cm_key m) (sort_key (\<lambda>(_, m). - int (cm_confidence m)) ms))"
      using top by (simp add: chain_request_def Let_def)
    then show ?thesis by (auto intro!: image_eqI)
  qed
  let ?strongest = "filter (\<lambda>(_, m'). cm_key m' = cm_key m) (sort_key (\<lambda>(_, m). - int (cm_confidence m)) ms)"
  have chosen: "m \<in> set (map snd ?strongest)" using first(1) by force
  have "cm_confidence m \<le> 100" using first(1) ms(2) match_bounds by blast
  then have "cm_confidence m \<le> co_confidence (derive_outcome (e # map fst ?strongest) (map snd ?strongest))"
    using chain_confidence [OF chosen] by blast
  moreover have "cq_confidence ?q = int (co_confidence (derive_outcome (e # map fst ?strongest) (map snd ?strongest)))"
    using top by (simp add: chain_request_def Let_def)
  moreover have "co_confidence (derive_outcome es' ms') \<le> 100" for es' ms' by (simp add: derive_outcome_def Let_def)
  ultimately have "int (cm_confidence m) \<le> cq_confidence ?q" "cq_confidence ?q \<le> 100" by (auto simp: of_nat_le_iff)
  then have conf: "int (cm_confidence m) \<le> ca_confidence c" using c(2) by (simp add: covers_def clamp_def)
  have rows: "\<exists>x \<in> set (b_relationships t). {re_event x, re_related x} = {cv_id e, cv_id r'} \<and>
        re_type x = cm_type m' \<and> int (cm_confidence m') \<le> re_confidence x" if "(r', m') \<in> set ms" for r' m'
  proof -
    let ?r = "\<lparr> er_event = cv_id e, er_related = cv_id r', er_type = cm_type m', er_confidence = int (cm_confidence m'), er_reason = cm_reason m' \<rparr>"
    have "?r \<in> set (cq_relationships ?q)" using that by (force simp: chain_request_def Let_def)
    then obtain x where "x \<in> set (b_relationships t)" "stands_for ?r x" using rel by (auto simp: relation_held_def)
    moreover have "cm_confidence m' \<le> 100" using that ms(2) match_bounds by blast
    then have "clamp 0 100 (int (cm_confidence m')) = int (cm_confidence m')" by (simp add: clamp_def)
    ultimately show ?thesis by (intro bexI [of _ x]) (auto simp: stands_for_def min_def max_def)
  qed
  have c': "ca_key c = cm_key m" "ca_status c = C_Open" "set (cq_events ?q) \<subseteq> set (ca_events c)"
    using c(2) key by (auto simp: covers_def)
  have "cv_id e \<in> set (ca_events c)" using events c'(3) by blast
  moreover have "\<forall>(r', m') \<in> set ms. cm_key m' = cm_key m \<longrightarrow> cv_id r' \<in> set (ca_events c)" using events c'(3) by blast
  ultimately have "\<exists>c \<in> set (b_candidates t). ca_key c = cm_key m \<and> ca_status c = C_Open \<and> int (cm_confidence m) \<le> ca_confidence c \<and>
           cv_id e \<in> set (ca_events c) \<and> (\<forall>(r', m') \<in> set ms. cm_key m' = cm_key m \<longrightarrow> cv_id r' \<in> set (ca_events c))"
    using c(1) conf c'(1,2) by (intro bexI [of _ c] conjI)
  moreover have "m \<in> snd ` set ms" "\<forall>m' \<in> snd ` set ms. cm_confidence m' \<le> cm_confidence m" using first by force+
  ultimately have "\<exists>m \<in> snd ` set ms. (\<forall>m' \<in> snd ` set ms. cm_confidence m' \<le> cm_confidence m) \<and>
        (\<exists>c \<in> set (b_candidates t). ca_key c = cm_key m \<and> ca_status c = C_Open \<and> int (cm_confidence m) \<le> ca_confidence c \<and>
           cv_id e \<in> set (ca_events c) \<and> (\<forall>(r', m') \<in> set ms. cm_key m' = cm_key m \<longrightarrow> cv_id r' \<in> set (ca_events c)))"
    by (intro bexI [of _ m] conjI)
  moreover have "\<forall>(r, m) \<in> set ms. \<exists>x \<in> set (b_relationships t). {re_event x, re_related x} = {cv_id e, cv_id r} \<and>
        re_type x = cm_type m \<and> int (cm_confidence m) \<le> re_confidence x" using rows by blast
  ultimately show ?thesis unfolding candidate_of_chain_def by (rule conjI)
qed

lemma lone_covered: "covers (lone_request e window i) c \<Longrightarrow> c \<in> set (b_candidates t) \<Longrightarrow> candidate_of_one e i t"
proof -
  have info: "severity_rank ''info'' = 0" by code_simp
  have "normalize_severity v = ''info''" if "severity_rank v = 0" for v
    using that by (simp add: severity_rank_def normalize_severity_def Let_def split: if_split_asm)
  then have "severity_order (normalize_severity v) \<le> severity_order (if severity_rank v > severity_rank ''info'' then normalize_severity v else ''info'')" for v
    unfolding info by simp
  moreover assume "covers (lone_request e window i) c" "c \<in> set (b_candidates t)"
  moreover have "btree_set [cv_type e] = [cv_type e]" by (simp add: btree_set_def)
  ultimately have "ca_key c = ''correlation-id:'' @ i \<and> ca_status c = C_Open \<and> cv_id e \<in> set (ca_events c) \<and>
      ca_first c \<le> cv_occurred e \<and> cv_occurred e \<le> ca_last c \<and>
      severity_order (normalize_severity (cv_severity e)) \<le> severity_order (ca_severity c)"
    unfolding covers_def lone_request_def derive_outcome_def worst_severity_def Let_def
    by simp (meson order_trans)
  then show ?thesis using \<open>c \<in> set (b_candidates t)\<close> unfolding candidate_of_one_def by blast
qed


section \<open>The service keeps the candidates consistent\<close>

lemma incident_sound_quiet:
  "incident_sound (tx_read f)" "incident_sound (ensure_event_consumer name)"
  "incident_sound (complete_event_delivery i name success)" "incident_sound (heartbeat_event_consumer name)"
proof -
  show "incident_sound (tx_read f)" unfolding tx_read_def
    by (rule incident_tables.sound_of_tx) (auto intro: incidents_grow_refl)
  show "incident_sound (ensure_event_consumer name)" unfolding ensure_event_consumer_def
  proof (rule incident_tables.sound_of_tx)
    fix s x t
    assume ok: "incidents_ok s" and run: "(case List.find (\<lambda>c. cn_name c = name) (b_consumers s) of
       Some c \<Rightarrow> Inr (cn_id c, s\<lparr>b_consumers := map (\<lambda>r. if cn_name r = name then r\<lparr>cn_enabled := True\<rparr> else r) (b_consumers s)\<rparr>)
     | None \<Rightarrow> (case b_fresh s of (i, s) \<Rightarrow>
         Inr (i, s\<lparr>b_consumers := b_consumers s @ [\<lparr> cn_id = i, cn_name = name, cn_enabled = True \<rparr>]\<rparr>))) = Inr (x, t)"
    have "same_incidents s t" using run by (auto simp: b_fresh_def same_incidents_def split: option.splits)
    then show "incidents_ok t \<and> incidents_grow s t" using ok same_incidents_ok by blast
  qed
  have "incidents_ok (s\<lparr>b_deliveries := ds\<rparr>) \<and> incidents_grow s (s\<lparr>b_deliveries := ds\<rparr>)" if "incidents_ok s" for s ds
    by (rule same_incidents_ok [OF that]) (simp add: same_incidents_def)
  then show "incident_sound (complete_event_delivery i name success)" unfolding complete_event_delivery_def
    by (intro incident_tables.sound_seq incident_tables.sound_of_tx) (auto simp: incident_tables.sound_leaf)
  show "incident_sound (heartbeat_event_consumer name)" unfolding heartbeat_event_consumer_def tx_run_def
    by (rule incident_tables.sound_of_tx) (auto intro: incidents_grow_refl)
qed

lemma incident_sound_process: "incident_sound (process_correlation window e)"
  unfolding process_correlation_def list_correlation_events_def Let_def
  by (auto intro!: incident_tables.sound_seq incident_sound_quiet incident_sound_ops incident_tables.sound_leaf split: option.split)

section \<open>Witnesses\<close>

definition hijack_event :: event_row where
  "hijack_event = \<lparr> ev_id = 1, ev_type = ''bgp_change'', ev_source = ''ripe_ris'', ev_severity = ''medium'', ev_occurred = 5000000,
     ev_correlation = None, ev_payload = JObj [(''prefix'', JStr ''203.0.113.0/24'')], ev_metadata = JObj [], ev_dedupe = ''a'' \<rparr>"

definition rpki_event :: event_row where
  "rpki_event = \<lparr> ev_id = 2, ev_type = ''rpki_invalid'', ev_source = ''rpki_validator'', ev_severity = ''low'', ev_occurred = 9000000,
     ev_correlation = Some ''AS64500'', ev_payload = JObj [(''asn'', JInt 64500), (''prefix'', JStr '' 203.0.113.0/24'')],
     ev_metadata = JObj [], ev_dedupe = ''b'' \<rparr>"

definition routing_bus :: bus where
  "routing_bus = empty_bus\<lparr>b_next := 3, b_events := [hijack_event, rpki_event]\<rparr>"



text \<open>A second event of the same incident joins the first one's group; an event after the window opens its own.\<close>

definition flood_rule :: alert_rule where
  "flood_rule = \<lparr> al_name = ''provider errors'', al_source = None, al_class = Some ''provider_error'', al_infrastructure = None,
     al_window = 900 \<rparr>"

definition flood_event :: "nat \<Rightarrow> int \<Rightarrow> event_record" where
  "flood_event i t = \<lparr> cv_id = i, cv_type = ''provider_error'', cv_source = ''ripestat'', cv_severity = ''low'', cv_occurred = t,
     cv_correlation = None, cv_payload = JNull \<rparr>"

lemma grouping_loses_nothing_witness:
  "\<exists>parts. list_all2 (describes flood_rule) parts (group_alert_events [flood_event 1 0, flood_event 2 700, flood_event 3 9000] flood_rule) \<and>
     mset (concat parts) = mset [flood_event 1 0, flood_event 2 700, flood_event 3 9000] \<and>
     map ag_events (group_alert_events [flood_event 1 0, flood_event 2 700, flood_event 3 9000] flood_rule) = [[1, 2], [3]]"
proof -
  let ?es = "[flood_event 1 0, flood_event 2 700, flood_event 3 9000]"
  have "filter (in_alert_rule flood_rule) ?es = ?es" by (simp add: in_alert_rule_def flood_rule_def flood_event_def)
  moreover have "map ag_events (group_alert_events ?es flood_rule) = [[1, 2], [3]]" by code_simp
  ultimately show ?thesis using grouping_loses_nothing [of flood_rule ?es "flood_event 4 9500"] by metis
qed

end
