(* ===== verification/Security_Events.thy ===== *)
theory Security_Events
  imports Ip_Addr Json
begin

text \<open>
  \<^verbatim>\<open>security-events/src/lib.rs\<close>: the types of security events, their evidence, and the envelope a sensor
  submits, with their validation, and the JSON form of the evidence that the ingest stores.  The properties:
  validation accepts exactly the envelopes whose every field is within its bounds, and the names of the event
  types read back.
\<close>

section \<open>Event types and severities\<close>

definition SHORT_FIELD_MAX :: nat where "SHORT_FIELD_MAX = 160"
definition RESOURCE_MAX :: nat where "RESOURCE_MAX = 512"
definition DEDUPE_KEY_MAX :: nat where "DEDUPE_KEY_MAX = 256"
definition LONG_FIELD_MAX :: nat where "LONG_FIELD_MAX = 2048"

datatype event_kind =
    FirewallBlock | FirewallRuleChanged | AuthFailure | AuthAnomaly | SshLoginFailure | SshLoginAnomaly
  | HttpAnomaly | DnsAnomaly | PortScanDetected | ContainerAnomaly | ContainerEscapeAttempt
  | ContainerLifecycleChanged | NetworkIdsAlert

definition ALL_KINDS :: "event_kind list" where
  "ALL_KINDS = [FirewallBlock, FirewallRuleChanged, AuthFailure, AuthAnomaly, SshLoginFailure, SshLoginAnomaly,
     HttpAnomaly, DnsAnomaly, PortScanDetected, ContainerAnomaly, ContainerEscapeAttempt,
     ContainerLifecycleChanged, NetworkIdsAlert]"

fun kind_str :: "event_kind \<Rightarrow> string" where
  "kind_str NetworkIdsAlert = ''network_ids_alert''"
| "kind_str FirewallBlock = ''firewall_block''"
| "kind_str FirewallRuleChanged = ''firewall_rule_changed''"
| "kind_str AuthFailure = ''auth_failure''"
| "kind_str AuthAnomaly = ''auth_anomaly''"
| "kind_str SshLoginFailure = ''ssh_login_failure''"
| "kind_str SshLoginAnomaly = ''ssh_login_anomaly''"
| "kind_str HttpAnomaly = ''http_anomaly''"
| "kind_str DnsAnomaly = ''dns_anomaly''"
| "kind_str PortScanDetected = ''port_scan_detected''"
| "kind_str ContainerAnomaly = ''container_anomaly''"
| "kind_str ContainerEscapeAttempt = ''container_escape_attempt''"
| "kind_str ContainerLifecycleChanged = ''container_lifecycle_changed''"

datatype validation_error =
    InvalidField string nat
  | InvalidIp string
  | UnknownEventType string

definition kind_of_str :: "string \<Rightarrow> validation_error + event_kind" where
  "kind_of_str v = ok_or (UnknownEventType v) (List.find (\<lambda>k. kind_str k = v) ALL_KINDS)"

datatype event_severity = Sev_Info | Sev_Low | Sev_Medium | Sev_High | Sev_Critical

fun severity_str :: "event_severity \<Rightarrow> string" where
  "severity_str Sev_Info = ''info''"
| "severity_str Sev_Low = ''low''"
| "severity_str Sev_Medium = ''medium''"
| "severity_str Sev_High = ''high''"
| "severity_str Sev_Critical = ''critical''"

section \<open>Validation of a field\<close>

definition validate_text :: "string \<Rightarrow> string \<Rightarrow> nat \<Rightarrow> validation_error + unit" where
  "validate_text field v mx = (if trim v = [] \<or> char_count v > mx then Inl (InvalidField field mx) else Inr ())"

definition validate_optional_text :: "string \<Rightarrow> string option \<Rightarrow> nat \<Rightarrow> validation_error + unit" where
  "validate_optional_text field v mx = (case v of Some x \<Rightarrow> validate_text field x mx | None \<Rightarrow> Inr ())"

definition validate_ip :: "string \<Rightarrow> string \<Rightarrow> validation_error + unit" where
  "validate_ip field v = (case parse_ip v of Some _ \<Rightarrow> Inr () | None \<Rightarrow> Inl (InvalidIp field))"

definition validate_optional_ip :: "string \<Rightarrow> string option \<Rightarrow> validation_error + unit" where
  "validate_optional_ip field v = (case v of Some x \<Rightarrow> validate_ip field x | None \<Rightarrow> Inr ())"

text \<open>\<^verbatim>\<open>a?; b?; ...; z\<close>: the first error.\<close>

fun all_ok :: "('e + unit) list \<Rightarrow> 'e + unit" where
  "all_ok [] = Inr ()"
| "all_ok (r # rs) = (case r of Inl e \<Rightarrow> Inl e | Inr _ \<Rightarrow> all_ok rs)"

section \<open>Evidence\<close>

record firewall_block_evidence =
  fb_rule_id :: string
  fb_source_ip :: string
  fb_destination_ip :: "string option"
  fb_destination_port :: "16 word option"
  fb_protocol :: string
  fb_interface :: "string option"

datatype rule_change_kind = Change_Added | Change_Modified | Change_Removed

record firewall_rule_changed_evidence =
  fc_rule_id :: string
  fc_actor :: string
  fc_change :: rule_change_kind
  fc_summary :: string

record auth_failure_evidence =
  af_username :: string
  af_source_ip :: string
  af_method :: string
  af_attempt_count :: "32 word"

record auth_anomaly_evidence =
  aa_username :: string
  aa_source_ip :: string
  aa_anomaly :: string
  aa_previous_source_ip :: "string option"

record ssh_login_failure_evidence =
  sf_username :: string
  sf_source_ip :: string
  sf_attempt_count :: "32 word"
  sf_invalid_user :: "bool option"

record ssh_login_anomaly_evidence =
  sa_username :: string
  sa_source_ip :: string
  sa_anomaly :: string

record http_anomaly_evidence =
  ha_source_ip :: string
  ha_method :: string
  ha_path :: string
  ha_status_code :: "16 word"
  ha_rule_id :: "string option"

record dns_anomaly_evidence =
  da_source_ip :: string
  da_query_name :: string
  da_query_type :: string
  da_anomaly :: string

record network_ids_alert_evidence =
  na_source_ip :: string
  na_destination_ip :: string
  na_source_port :: "16 word option"
  na_destination_port :: "16 word option"
  na_protocol :: string
  na_engine :: string
  na_signature_id :: "32 word"
  na_generator_id :: "32 word"
  na_signature_revision :: "32 word"
  na_native_severity :: "8 word"
  na_observed_action :: string
  na_flow_id :: "64 word option"

record port_scan_detected_evidence =
  ps_source_ip :: string
  ps_target_ip :: string
  ps_port_count :: "32 word"
  ps_window_seconds :: "32 word"

record container_anomaly_evidence =
  ca_container_id :: string
  ca_image :: string
  ca_anomaly :: string

record container_escape_attempt_evidence =
  ce_container_id :: string
  ce_image :: string
  ce_technique :: string

datatype container_lifecycle_action =
    Life_Created | Life_Started | Life_Stopped | Life_Destroyed | Life_Restarted | Life_NetworkConnected
  | Life_NetworkDisconnected | Life_ImagePulled | Life_ImageRemoved

record container_lifecycle_changed_evidence =
  cl_container_id :: "string option"
  cl_container_name :: "string option"
  cl_image :: "string option"
  cl_action :: container_lifecycle_action
  cl_detail :: string

datatype evidence =
    NetworkIdsAlertEv network_ids_alert_evidence
  | FirewallBlockEv firewall_block_evidence
  | FirewallRuleChangedEv firewall_rule_changed_evidence
  | AuthFailureEv auth_failure_evidence
  | AuthAnomalyEv auth_anomaly_evidence
  | SshLoginFailureEv ssh_login_failure_evidence
  | SshLoginAnomalyEv ssh_login_anomaly_evidence
  | HttpAnomalyEv http_anomaly_evidence
  | DnsAnomalyEv dns_anomaly_evidence
  | PortScanDetectedEv port_scan_detected_evidence
  | ContainerAnomalyEv container_anomaly_evidence
  | ContainerEscapeAttemptEv container_escape_attempt_evidence
  | ContainerLifecycleChangedEv container_lifecycle_changed_evidence

fun evidence_kind :: "evidence \<Rightarrow> event_kind" where
  "evidence_kind (NetworkIdsAlertEv _) = NetworkIdsAlert"
| "evidence_kind (FirewallBlockEv _) = FirewallBlock"
| "evidence_kind (FirewallRuleChangedEv _) = FirewallRuleChanged"
| "evidence_kind (AuthFailureEv _) = AuthFailure"
| "evidence_kind (AuthAnomalyEv _) = AuthAnomaly"
| "evidence_kind (SshLoginFailureEv _) = SshLoginFailure"
| "evidence_kind (SshLoginAnomalyEv _) = SshLoginAnomaly"
| "evidence_kind (HttpAnomalyEv _) = HttpAnomaly"
| "evidence_kind (DnsAnomalyEv _) = DnsAnomaly"
| "evidence_kind (PortScanDetectedEv _) = PortScanDetected"
| "evidence_kind (ContainerAnomalyEv _) = ContainerAnomaly"
| "evidence_kind (ContainerEscapeAttemptEv _) = ContainerEscapeAttempt"
| "evidence_kind (ContainerLifecycleChangedEv _) = ContainerLifecycleChanged"

section \<open>Validation of the evidence\<close>

definition validate_firewall_block :: "firewall_block_evidence \<Rightarrow> validation_error + unit" where
  "validate_firewall_block e = all_ok [
     validate_text ''rule_id'' (fb_rule_id e) SHORT_FIELD_MAX,
     validate_ip ''source_ip'' (fb_source_ip e),
     validate_optional_ip ''destination_ip'' (fb_destination_ip e),
     validate_text ''protocol'' (fb_protocol e) SHORT_FIELD_MAX,
     validate_optional_text ''interface'' (fb_interface e) SHORT_FIELD_MAX]"

definition validate_firewall_rule_changed :: "firewall_rule_changed_evidence \<Rightarrow> validation_error + unit" where
  "validate_firewall_rule_changed e = all_ok [
     validate_text ''rule_id'' (fc_rule_id e) SHORT_FIELD_MAX,
     validate_text ''actor'' (fc_actor e) SHORT_FIELD_MAX,
     validate_text ''summary'' (fc_summary e) LONG_FIELD_MAX]"

definition validate_auth_failure :: "auth_failure_evidence \<Rightarrow> validation_error + unit" where
  "validate_auth_failure e = all_ok [
     validate_text ''username'' (af_username e) SHORT_FIELD_MAX,
     validate_ip ''source_ip'' (af_source_ip e),
     validate_text ''method'' (af_method e) SHORT_FIELD_MAX]"

definition validate_auth_anomaly :: "auth_anomaly_evidence \<Rightarrow> validation_error + unit" where
  "validate_auth_anomaly e = all_ok [
     validate_text ''username'' (aa_username e) SHORT_FIELD_MAX,
     validate_ip ''source_ip'' (aa_source_ip e),
     validate_text ''anomaly'' (aa_anomaly e) SHORT_FIELD_MAX,
     validate_optional_ip ''previous_source_ip'' (aa_previous_source_ip e)]"

definition validate_ssh_login_failure :: "ssh_login_failure_evidence \<Rightarrow> validation_error + unit" where
  "validate_ssh_login_failure e = all_ok [
     validate_text ''username'' (sf_username e) SHORT_FIELD_MAX,
     validate_ip ''source_ip'' (sf_source_ip e)]"

definition validate_ssh_login_anomaly :: "ssh_login_anomaly_evidence \<Rightarrow> validation_error + unit" where
  "validate_ssh_login_anomaly e = all_ok [
     validate_text ''username'' (sa_username e) SHORT_FIELD_MAX,
     validate_ip ''source_ip'' (sa_source_ip e),
     validate_text ''anomaly'' (sa_anomaly e) SHORT_FIELD_MAX]"

definition validate_http_anomaly :: "http_anomaly_evidence \<Rightarrow> validation_error + unit" where
  "validate_http_anomaly e = all_ok [
     validate_ip ''source_ip'' (ha_source_ip e),
     validate_text ''method'' (ha_method e) SHORT_FIELD_MAX,
     validate_text ''path'' (ha_path e) LONG_FIELD_MAX,
     validate_optional_text ''rule_id'' (ha_rule_id e) SHORT_FIELD_MAX]"

definition validate_dns_anomaly :: "dns_anomaly_evidence \<Rightarrow> validation_error + unit" where
  "validate_dns_anomaly e = all_ok [
     validate_ip ''source_ip'' (da_source_ip e),
     validate_text ''query_name'' (da_query_name e) LONG_FIELD_MAX,
     validate_text ''query_type'' (da_query_type e) SHORT_FIELD_MAX,
     validate_text ''anomaly'' (da_anomaly e) SHORT_FIELD_MAX]"

definition validate_network_ids_alert :: "network_ids_alert_evidence \<Rightarrow> validation_error + unit" where
  "validate_network_ids_alert e = all_ok [
     validate_ip ''source_ip'' (na_source_ip e),
     validate_ip ''destination_ip'' (na_destination_ip e),
     validate_text ''engine'' (na_engine e) SHORT_FIELD_MAX,
     if na_protocol e \<notin> {''tcp'', ''udp'', ''icmp'', ''icmpv6'', ''sctp'', ''other''}
     then Inl (InvalidField ''protocol'' 6) else Inr (),
     if na_observed_action e \<notin> {''allowed'', ''blocked'', ''unknown''}
     then Inl (InvalidField ''observed_action'' 7) else Inr (),
     if na_native_severity e = 0 \<or> na_native_severity e > 4
     then Inl (InvalidField ''native_severity'' 4) else Inr ()]"

definition validate_port_scan :: "port_scan_detected_evidence \<Rightarrow> validation_error + unit" where
  "validate_port_scan e = all_ok [
     validate_ip ''source_ip'' (ps_source_ip e),
     validate_ip ''target_ip'' (ps_target_ip e)]"

definition validate_container_anomaly :: "container_anomaly_evidence \<Rightarrow> validation_error + unit" where
  "validate_container_anomaly e = all_ok [
     validate_text ''container_id'' (ca_container_id e) SHORT_FIELD_MAX,
     validate_text ''image'' (ca_image e) LONG_FIELD_MAX,
     validate_text ''anomaly'' (ca_anomaly e) SHORT_FIELD_MAX]"

definition validate_container_escape :: "container_escape_attempt_evidence \<Rightarrow> validation_error + unit" where
  "validate_container_escape e = all_ok [
     validate_text ''container_id'' (ce_container_id e) SHORT_FIELD_MAX,
     validate_text ''image'' (ce_image e) LONG_FIELD_MAX,
     validate_text ''technique'' (ce_technique e) SHORT_FIELD_MAX]"

definition validate_container_lifecycle :: "container_lifecycle_changed_evidence \<Rightarrow> validation_error + unit" where
  "validate_container_lifecycle e = all_ok [
     validate_optional_text ''container_id'' (cl_container_id e) SHORT_FIELD_MAX,
     validate_optional_text ''container_name'' (cl_container_name e) SHORT_FIELD_MAX,
     validate_optional_text ''image'' (cl_image e) LONG_FIELD_MAX,
     validate_text ''detail'' (cl_detail e) LONG_FIELD_MAX]"

fun evidence_validate :: "evidence \<Rightarrow> validation_error + unit" where
  "evidence_validate (NetworkIdsAlertEv e) = validate_network_ids_alert e"
| "evidence_validate (FirewallBlockEv e) = validate_firewall_block e"
| "evidence_validate (FirewallRuleChangedEv e) = validate_firewall_rule_changed e"
| "evidence_validate (AuthFailureEv e) = validate_auth_failure e"
| "evidence_validate (AuthAnomalyEv e) = validate_auth_anomaly e"
| "evidence_validate (SshLoginFailureEv e) = validate_ssh_login_failure e"
| "evidence_validate (SshLoginAnomalyEv e) = validate_ssh_login_anomaly e"
| "evidence_validate (HttpAnomalyEv e) = validate_http_anomaly e"
| "evidence_validate (DnsAnomalyEv e) = validate_dns_anomaly e"
| "evidence_validate (PortScanDetectedEv e) = validate_port_scan e"
| "evidence_validate (ContainerAnomalyEv e) = validate_container_anomaly e"
| "evidence_validate (ContainerEscapeAttemptEv e) = validate_container_escape e"
| "evidence_validate (ContainerLifecycleChangedEv e) = validate_container_lifecycle e"

section \<open>The envelope\<close>

record sensor_envelope =
  occurred_at :: int
  source :: string
  severity :: event_severity
  resource :: string
  dedupe_key :: string
  evidence_of :: evidence

definition envelope_validate :: "sensor_envelope \<Rightarrow> validation_error + unit" where
  "envelope_validate e = all_ok [
     validate_text ''source'' (source e) SHORT_FIELD_MAX,
     validate_text ''resource'' (resource e) RESOURCE_MAX,
     validate_text ''dedupe_key'' (dedupe_key e) DEDUPE_KEY_MAX,
     evidence_validate (evidence_of e)]"

definition envelope_new ::
  "int \<Rightarrow> string \<Rightarrow> event_severity \<Rightarrow> string \<Rightarrow> string \<Rightarrow> evidence \<Rightarrow> validation_error + sensor_envelope" where
  "envelope_new at src sev res key ev =
     (let e = \<lparr> occurred_at = at, source = src, severity = sev, resource = res, dedupe_key = key, evidence_of = ev \<rparr> in
      and_then (envelope_validate e) (\<lambda>_. Inr e))"

definition event_type :: "sensor_envelope \<Rightarrow> event_kind" where
  "event_type e = evidence_kind (evidence_of e)"

section \<open>The stored form of the evidence\<close>

text \<open>\<^verbatim>\<open>serde_json::to_value(&evidence)\<close>: an object with the tag \<^verbatim>\<open>event_type\<close> and a member for every field;
  an absent optional field is null, and \<^verbatim>\<open>invalid_user\<close> is left out when unknown.\<close>

definition jopt :: "('a \<Rightarrow> json) \<Rightarrow> 'a option \<Rightarrow> json" where
  "jopt f v = (case v of Some x \<Rightarrow> f x | None \<Rightarrow> JNull)"

definition jword :: "'a::len word \<Rightarrow> json" where
  "jword w = JInt (uint w)"

fun change_str :: "rule_change_kind \<Rightarrow> string" where
  "change_str Change_Added = ''added''"
| "change_str Change_Modified = ''modified''"
| "change_str Change_Removed = ''removed''"

fun lifecycle_str :: "container_lifecycle_action \<Rightarrow> string" where
  "lifecycle_str Life_Created = ''created''"
| "lifecycle_str Life_Started = ''started''"
| "lifecycle_str Life_Stopped = ''stopped''"
| "lifecycle_str Life_Destroyed = ''destroyed''"
| "lifecycle_str Life_Restarted = ''restarted''"
| "lifecycle_str Life_NetworkConnected = ''network_connected''"
| "lifecycle_str Life_NetworkDisconnected = ''network_disconnected''"
| "lifecycle_str Life_ImagePulled = ''image_pulled''"
| "lifecycle_str Life_ImageRemoved = ''image_removed''"

fun evidence_fields :: "evidence \<Rightarrow> (string \<times> json) list" where
  "evidence_fields (NetworkIdsAlertEv e) =
     [(''source_ip'', JStr (na_source_ip e)), (''destination_ip'', JStr (na_destination_ip e)),
      (''source_port'', jopt jword (na_source_port e)), (''destination_port'', jopt jword (na_destination_port e)),
      (''protocol'', JStr (na_protocol e)), (''engine'', JStr (na_engine e)),
      (''signature_id'', jword (na_signature_id e)), (''generator_id'', jword (na_generator_id e)),
      (''signature_revision'', jword (na_signature_revision e)), (''native_severity'', jword (na_native_severity e)),
      (''observed_action'', JStr (na_observed_action e)), (''flow_id'', jopt jword (na_flow_id e))]"
| "evidence_fields (FirewallBlockEv e) =
     [(''rule_id'', JStr (fb_rule_id e)), (''source_ip'', JStr (fb_source_ip e)),
      (''destination_ip'', jopt JStr (fb_destination_ip e)), (''destination_port'', jopt jword (fb_destination_port e)),
      (''protocol'', JStr (fb_protocol e)), (''interface'', jopt JStr (fb_interface e))]"
| "evidence_fields (FirewallRuleChangedEv e) =
     [(''rule_id'', JStr (fc_rule_id e)), (''actor'', JStr (fc_actor e)), (''change'', JStr (change_str (fc_change e))),
      (''summary'', JStr (fc_summary e))]"
| "evidence_fields (AuthFailureEv e) =
     [(''username'', JStr (af_username e)), (''source_ip'', JStr (af_source_ip e)), (''method'', JStr (af_method e)),
      (''attempt_count'', jword (af_attempt_count e))]"
| "evidence_fields (AuthAnomalyEv e) =
     [(''username'', JStr (aa_username e)), (''source_ip'', JStr (aa_source_ip e)), (''anomaly'', JStr (aa_anomaly e)),
      (''previous_source_ip'', jopt JStr (aa_previous_source_ip e))]"
| "evidence_fields (SshLoginFailureEv e) =
     [(''username'', JStr (sf_username e)), (''source_ip'', JStr (sf_source_ip e)),
      (''attempt_count'', jword (sf_attempt_count e))] @
     (case sf_invalid_user e of Some b \<Rightarrow> [(''invalid_user'', JBool b)] | None \<Rightarrow> [])"
| "evidence_fields (SshLoginAnomalyEv e) =
     [(''username'', JStr (sa_username e)), (''source_ip'', JStr (sa_source_ip e)), (''anomaly'', JStr (sa_anomaly e))]"
| "evidence_fields (HttpAnomalyEv e) =
     [(''source_ip'', JStr (ha_source_ip e)), (''method'', JStr (ha_method e)), (''path'', JStr (ha_path e)),
      (''status_code'', jword (ha_status_code e)), (''rule_id'', jopt JStr (ha_rule_id e))]"
| "evidence_fields (DnsAnomalyEv e) =
     [(''source_ip'', JStr (da_source_ip e)), (''query_name'', JStr (da_query_name e)),
      (''query_type'', JStr (da_query_type e)), (''anomaly'', JStr (da_anomaly e))]"
| "evidence_fields (PortScanDetectedEv e) =
     [(''source_ip'', JStr (ps_source_ip e)), (''target_ip'', JStr (ps_target_ip e)),
      (''port_count'', jword (ps_port_count e)), (''window_seconds'', jword (ps_window_seconds e))]"
| "evidence_fields (ContainerAnomalyEv e) =
     [(''container_id'', JStr (ca_container_id e)), (''image'', JStr (ca_image e)), (''anomaly'', JStr (ca_anomaly e))]"
| "evidence_fields (ContainerEscapeAttemptEv e) =
     [(''container_id'', JStr (ce_container_id e)), (''image'', JStr (ce_image e)), (''technique'', JStr (ce_technique e))]"
| "evidence_fields (ContainerLifecycleChangedEv e) =
     [(''container_id'', jopt JStr (cl_container_id e)), (''container_name'', jopt JStr (cl_container_name e)),
      (''image'', jopt JStr (cl_image e)), (''action'', JStr (lifecycle_str (cl_action e))), (''detail'', JStr (cl_detail e))]"

definition evidence_json :: "evidence \<Rightarrow> json" where
  "evidence_json e = jobj ((''event_type'', JStr (kind_str (evidence_kind e))) # evidence_fields e)"

section \<open>What validation guarantees\<close>

definition text_ok :: "nat \<Rightarrow> string \<Rightarrow> bool" where
  "text_ok mx v \<longleftrightarrow> trim v \<noteq> [] \<and> char_count v \<le> mx"

definition ip_ok :: "string \<Rightarrow> bool" where
  "ip_ok v \<longleftrightarrow> parse_ip v \<noteq> None"

text \<open>The bound on a member of the stored object: its name and its kind of value decide it.\<close>

definition address_fields :: "string set" where
  "address_fields = {''source_ip'', ''destination_ip'', ''previous_source_ip'', ''target_ip''}"

definition long_fields :: "string set" where
  "long_fields = {''summary'', ''path'', ''query_name'', ''image'', ''detail''}"

definition field_ok :: "string \<times> json \<Rightarrow> bool" where
  "field_ok kv \<longleftrightarrow>
     (case snd kv of
        JStr v \<Rightarrow>
          if fst kv \<in> address_fields then ip_ok v
          else text_ok (if fst kv \<in> long_fields then LONG_FIELD_MAX else SHORT_FIELD_MAX) v
      | _ \<Rightarrow> True)"

definition native_bounds :: "evidence \<Rightarrow> bool" where
  "native_bounds e \<longleftrightarrow>
     (case e of
        NetworkIdsAlertEv a \<Rightarrow>
          na_protocol a \<in> {''tcp'', ''udp'', ''icmp'', ''icmpv6'', ''sctp'', ''other''} \<and>
          na_observed_action a \<in> {''allowed'', ''blocked'', ''unknown''} \<and> na_native_severity a \<in> {1, 2, 3, 4}
      | _ \<Rightarrow> True)"

lemma all_ok_iff [simp]: "all_ok rs = Inr () \<longleftrightarrow> (\<forall>r \<in> set rs. r = Inr ())"
  by (induction rs) (auto split: sum.split)

declare all_ok.simps [simp del]

lemma validators [simp]:
  "validate_text field v mx = Inr () \<longleftrightarrow> text_ok mx v"
  "validate_ip field v = Inr () \<longleftrightarrow> ip_ok v"
  "validate_optional_text field w mx = Inr () \<longleftrightarrow> (\<forall>x. w = Some x \<longrightarrow> text_ok mx x)"
  "validate_optional_ip field w = Inr () \<longleftrightarrow> (\<forall>x. w = Some x \<longrightarrow> ip_ok x)"
  by (auto simp: validate_text_def text_ok_def validate_ip_def ip_ok_def validate_optional_text_def
      validate_optional_ip_def split: option.split)

lemma field_ok_simps [simp]:
  "field_ok (k, JStr v) \<longleftrightarrow>
     (if k \<in> address_fields then ip_ok v else text_ok (if k \<in> long_fields then LONG_FIELD_MAX else SHORT_FIELD_MAX) v)"
  "field_ok (k, jword w)" "field_ok (k, JBool b)" "field_ok (k, jopt jword x)"
  "field_ok (k, jopt JStr y) \<longleftrightarrow> (\<forall>v. y = Some v \<longrightarrow> field_ok (k, JStr v))"
  by (auto simp: field_ok_def jword_def jopt_def split: option.split)

lemmas evidence_validators =
  validate_network_ids_alert_def validate_firewall_block_def validate_firewall_rule_changed_def validate_auth_failure_def
  validate_auth_anomaly_def validate_ssh_login_failure_def validate_ssh_login_anomaly_def validate_http_anomaly_def
  validate_dns_anomaly_def validate_port_scan_def validate_container_anomaly_def validate_container_escape_def
  validate_container_lifecycle_def

text \<open>Texts of closed sets are within the bounds anyway.\<close>

definition closed_text :: "string list" where
  "closed_text = [''tcp'', ''udp'', ''icmp'', ''icmpv6'', ''sctp'', ''other'', ''allowed'', ''blocked'', ''unknown'',
     ''added'', ''modified'', ''removed'', ''created'', ''started'', ''stopped'', ''destroyed'', ''restarted'',
     ''network_connected'', ''network_disconnected'', ''image_pulled'', ''image_removed'']"

lemma closed_text_ok: "list_all (text_ok SHORT_FIELD_MAX) closed_text"
  by code_simp

lemma closed_texts [simp]:
  "text_ok SHORT_FIELD_MAX (change_str c)" "text_ok SHORT_FIELD_MAX (lifecycle_str a)"
  "p \<in> {''tcp'', ''udp'', ''icmp'', ''icmpv6'', ''sctp'', ''other''} \<Longrightarrow> text_ok SHORT_FIELD_MAX p"
  "p \<in> {''allowed'', ''blocked'', ''unknown''} \<Longrightarrow> text_ok SHORT_FIELD_MAX p"
proof -
  have ok: "q \<in> set closed_text \<Longrightarrow> text_ok SHORT_FIELD_MAX q" for q
    using closed_text_ok by (simp add: list_all_iff)
  show "text_ok SHORT_FIELD_MAX (change_str c)" by (cases c; rule ok; simp add: closed_text_def)
  show "text_ok SHORT_FIELD_MAX (lifecycle_str a)" by (cases a; rule ok; simp add: closed_text_def)
  show "p \<in> {''tcp'', ''udp'', ''icmp'', ''icmpv6'', ''sctp'', ''other''} \<Longrightarrow> text_ok SHORT_FIELD_MAX p"
    "p \<in> {''allowed'', ''blocked'', ''unknown''} \<Longrightarrow> text_ok SHORT_FIELD_MAX p"
    by (rule ok, auto simp: closed_text_def)+
qed

lemma small_severity: "(w :: 8 word) = 0 \<or> w > 4 \<longleftrightarrow> w \<notin> {1, 2, 3, 4}"
proof -
  consider "unat w > 4" | "unat w \<in> {0, 1, 2, 3, 4}" by force
  then show ?thesis
  proof cases
    case 1
    then have "w > 4" by (simp add: word_less_nat_alt)
    then show ?thesis by auto
  next
    case 2
    then have "w \<in> {0, 1, 2, 3, 4}" by (auto simp: word_unat_eq_iff)
    then show ?thesis by auto
  qed
qed

text \<open>C29 Validation is exact.  An envelope is accepted exactly when its source, resource and dedupe key are
  non-blank and within their bounds, every text of its evidence is non-blank and within the bound of its field,
  every member that holds an address is an IP address, and an IDS alert stays within its closed sets; so every
  member of the stored JSON object has been checked.\<close>

theorem envelope_validation_exact:
  "envelope_validate e = Inr () \<longleftrightarrow>
     text_ok 160 (source e) \<and> text_ok 512 (resource e) \<and> text_ok 256 (dedupe_key e) \<and>
     native_bounds (evidence_of e) \<and> list_all field_ok (evidence_fields (evidence_of e))"
proof -
  have "evidence_validate v = Inr () \<longleftrightarrow> native_bounds v \<and> (\<forall>kv \<in> set (evidence_fields v). field_ok kv)" for v
  proof (cases v)
    case (NetworkIdsAlertEv a)
    have "evidence_validate v = Inr () \<longleftrightarrow> ip_ok (na_source_ip a) \<and> ip_ok (na_destination_ip a) \<and>
        text_ok SHORT_FIELD_MAX (na_engine a) \<and> native_bounds v"
      unfolding NetworkIdsAlertEv using small_severity [of "na_native_severity a"]
      by (simp add: validate_network_ids_alert_def native_bounds_def)
    moreover have "(\<forall>kv \<in> set (evidence_fields v). field_ok kv) \<longleftrightarrow> ip_ok (na_source_ip a) \<and> ip_ok (na_destination_ip a) \<and>
        text_ok SHORT_FIELD_MAX (na_protocol a) \<and> text_ok SHORT_FIELD_MAX (na_engine a) \<and>
        text_ok SHORT_FIELD_MAX (na_observed_action a)"
      unfolding NetworkIdsAlertEv by (simp add: address_fields_def long_fields_def)
    moreover have "native_bounds v \<Longrightarrow> text_ok SHORT_FIELD_MAX (na_protocol a) \<and> text_ok SHORT_FIELD_MAX (na_observed_action a)"
      unfolding NetworkIdsAlertEv native_bounds_def by (simp only: evidence.case closed_texts)
    ultimately show ?thesis by blast
  next
    case (SshLoginFailureEv a)
    then show ?thesis
      by (cases "sf_invalid_user a")
        (auto simp: evidence_validators native_bounds_def address_fields_def long_fields_def)
  qed (auto simp: evidence_validators native_bounds_def address_fields_def long_fields_def)
  then show ?thesis
    by (auto simp: envelope_validate_def list_all_iff SHORT_FIELD_MAX_def RESOURCE_MAX_def DEDUPE_KEY_MAX_def)
qed

text \<open>The name of an event type reads back to it, and no other name is accepted.\<close>

theorem event_kind_round_trip: "kind_of_str v = Inr k \<longleftrightarrow> v = kind_str k"
proof
  assume "kind_of_str v = Inr k"
  then show "v = kind_str k" by (auto simp: kind_of_str_def find_Some_iff)
next
  assume v: "v = kind_str k"
  show "kind_of_str v = Inr k" unfolding v by (cases k) (simp_all add: kind_of_str_def ALL_KINDS_def)
qed

end
