(* ===== verification/Risk_Policy.thy ===== *)
theory Risk_Policy
  imports Ip_Addr Security_Events
begin

text \<open>
  The risk of a network observation (\<^verbatim>\<open>risk/src/lib.rs\<close>, with the types of \<^verbatim>\<open>intelligence/src/lib.rs\<close> it reads) and the
  decision that follows from it (\<^verbatim>\<open>policy/src/lib.rs\<close>, and the outcome of \<^verbatim>\<open>policy-engine/src/main.rs\<close>).  Reading a network in CIDR form is the third-party crate
  \<^verbatim>\<open>ipnet\<close> and a parameter.  The bytes of the program are words, and the number of sources is a 16-bit word as in the
  code, so that its wrap-around is part of the model.  The properties: a risk stays within its bounds, trust comes from
  verified networks only, more evidence never lowers a risk, and one source alone never blocks.
\<close>

section \<open>What is known of a network\<close>

datatype rpki_status = Rpki_Valid | Rpki_Unknown | Rpki_Invalid
datatype bgp_status = Bgp_Stable | Bgp_Changed | Bgp_Anomalous | Bgp_Unknown
datatype network_type = Net_Tailscale | Net_Netbird | Net_Vlan | Net_Vpn | Net_IpRange | Net_Asn | Net_Bgp
datatype verification_status = Verification_Pending | Verification_Verified | Verification_Revoked

record asn_record =
  ar_asn :: string
  ar_name :: string
  ar_provider :: string
  ar_prefixes :: "string list"
  ar_network_type :: string
  ar_reputation :: "8 word"

record bgp_event =
  be_prefix :: string
  be_origin :: string
  be_source :: string
  be_status :: bgp_status
  be_rpki :: rpki_status
  be_change :: "string option"

record rpki_record =
  rr_prefix :: string
  rr_asn :: string
  rr_status :: rpki_status
  rr_source :: string

record trusted_network =
  tn_id :: nat
  tn_name :: string
  tn_type :: network_type
  tn_identifier :: string
  tn_networks :: "string list"
  tn_nodes :: "string list"
  tn_status :: verification_status

definition is_verified :: "trusted_network \<Rightarrow> bool" where
  "is_verified n = (tn_status n = Verification_Verified)"

record network_observation =
  no_ip :: "string option"
  no_asn :: "string option"
  no_prefix :: "string option"
  no_identifier :: "string option"
  no_node :: "string option"
  no_bgp :: bgp_status
  no_rpki :: rpki_status
  no_behavior :: "8 word"
  no_history :: "8 word"

record indicator =
  in_value :: string
  in_confidence :: "8 word"
  in_source :: string

record risk_signals =
  rs_ip_reputation :: "8 word"
  rs_asn_reputation :: "8 word"
  rs_behavior :: "8 word"
  rs_history :: "8 word"
  rs_hosting :: bool
  rs_hijack :: bool
  rs_sources :: "string list"
  rs_reasons :: "string list"

definition no_signals :: risk_signals where
  "no_signals = \<lparr> rs_ip_reputation = 0, rs_asn_reputation = 0, rs_behavior = 0, rs_history = 0, rs_hosting = False,
     rs_hijack = False, rs_sources = [], rs_reasons = [] \<rparr>"

definition signals_from_asn :: "asn_record \<Rightarrow> risk_signals" where
  "signals_from_asn r =
     (let kind = to_ascii_lowercase (ar_network_type r) in
      no_signals\<lparr>rs_asn_reputation := ar_reputation r,
        rs_hosting := contains_str ''hosting'' kind \<or> contains_str ''cloud'' kind \<or> contains_str ''bulletproof'' kind,
        rs_reasons := [''ASN context from '' @ ar_provider r]\<rparr>)"

definition signals_from_bgp :: "bgp_event \<Rightarrow> risk_signals" where
  "signals_from_bgp e =
     no_signals\<lparr>rs_hijack := be_status e = Bgp_Anomalous, rs_reasons := (case be_change e of Some c \<Rightarrow> [c] | None \<Rightarrow> [])\<rparr>"

fun rpki_upper :: "rpki_status \<Rightarrow> string" where
  "rpki_upper Rpki_Valid = ''VALID''"
| "rpki_upper Rpki_Unknown = ''UNKNOWN''"
| "rpki_upper Rpki_Invalid = ''INVALID''"

definition signals_from_rpki :: "rpki_record \<Rightarrow> risk_signals" where
  "signals_from_rpki r = no_signals\<lparr>rs_reasons := [''RPKI '' @ rpki_upper (rr_status r) @ '' from '' @ rr_source r]\<rparr>"

section \<open>Trust\<close>

type_synonym net_contains = "string \<Rightarrow> ip_addr \<Rightarrow> bool option"

definition in_network :: "net_contains \<Rightarrow> ip_addr \<Rightarrow> string \<Rightarrow> bool" where
  "in_network contains address cidr = (case contains cidr address of Some b \<Rightarrow> b | None \<Rightarrow> False)"

definition node_match :: "network_observation \<Rightarrow> trusted_network \<Rightarrow> bool" where
  "node_match ob n = (case no_node ob of None \<Rightarrow> False | Some v \<Rightarrow> list_ex (\<lambda>x. x = v) (tn_nodes n))"

definition network_matches :: "net_contains \<Rightarrow> network_observation \<Rightarrow> trusted_network \<Rightarrow> bool" where
  "network_matches contains ob n =
     ((case no_identifier ob of None \<Rightarrow> False | Some v \<Rightarrow> tn_identifier n \<noteq> [] \<and> v = tn_identifier n) \<or>
      node_match ob n \<or>
      (case Option.bind (no_ip ob) parse_ip of None \<Rightarrow> False
       | Some address \<Rightarrow> list_ex (in_network contains address) (tn_networks n)))"

definition verified_match ::
  "net_contains \<Rightarrow> trusted_network list \<Rightarrow> network_observation \<Rightarrow> (trusted_network \<times> bool) option" where
  "verified_match contains registrations ob =
     map_option (\<lambda>n. (n, node_match ob n)) (List.find (network_matches contains ob) (filter is_verified registrations))"

section \<open>Risk\<close>

record risk_assessment =
  ra_risk :: nat
  ra_trust :: nat
  ra_negative :: nat
  ra_adjustment :: int
  ra_reasons :: "string list"

definition threat_of :: "indicator list \<Rightarrow> nat" where
  "threat_of inds =
     (let threat = fold max (map (\<lambda>i. min (unat (in_confidence i)) 50) inds) 0;
          sources = remdups (map in_source inds) in
      if length sources > 1
      then min (threat + min (unat ((word_of_nat (length sources) - 1) * 10 :: 16 word)) 20) 50
      else threat)"

definition negative_of :: "network_observation \<Rightarrow> indicator list \<Rightarrow> risk_signals \<Rightarrow> nat" where
  "negative_of ob inds sg =
     min (threat_of inds + unat (min (rs_ip_reputation sg) 30) + unat (min (rs_asn_reputation sg) 30) +
       unat (min (rs_behavior sg) 50) + unat (min (rs_history sg) 20) + (if rs_hosting sg then 5 else 0) +
       (if rs_hijack sg then 30 else 0) + (case no_bgp ob of Bgp_Changed \<Rightarrow> 10 | Bgp_Anomalous \<Rightarrow> 20 | _ \<Rightarrow> 0) +
       (if no_rpki ob = Rpki_Invalid then 20 else 0)) 100"

definition adjustment_of :: "net_contains \<Rightarrow> trusted_network list \<Rightarrow> network_observation \<Rightarrow> int" where
  "adjustment_of contains registrations ob =
     (case verified_match contains registrations ob of None \<Rightarrow> 0 | Some (_, node) \<Rightarrow> - 40 + (if node then - 10 else 0)) +
     (if no_rpki ob = Rpki_Valid then - 20 else 0) + (if no_bgp ob = Bgp_Stable then - 10 else 0) -
     int (unat (min (no_history ob) 20))"

definition reasons_of :: "net_contains \<Rightarrow> trusted_network list \<Rightarrow> network_observation \<Rightarrow> indicator list \<Rightarrow> risk_signals \<Rightarrow> string list" where
  "reasons_of contains registrations ob inds sg =
     rs_reasons sg @
     (if length (remdups (map in_source inds)) > 1 then [''corroborated independent intelligence''] else []) @
     (if no_rpki ob = Rpki_Invalid then [''RPKI invalid''] else []) @
     (if rs_hosting sg then [''known hosting or cloud ASN context''] else []) @
     (if rs_hijack sg then [''BGP hijack or route anomaly signal''] else []) @
     (case verified_match contains registrations ob of None \<Rightarrow> []
      | Some (_, node) \<Rightarrow> ''verified trusted infrastructure'' # (if node then [''known node identity''] else [])) @
     (if no_rpki ob = Rpki_Valid then [''RPKI valid''] else []) @
     (if no_bgp ob = Bgp_Stable then [''stable BGP route''] else [])"

definition risk_evaluate ::
  "net_contains \<Rightarrow> trusted_network list \<Rightarrow> network_observation \<Rightarrow> indicator list \<Rightarrow> risk_signals \<Rightarrow> risk_assessment" where
  "risk_evaluate contains registrations ob inds sg =
     (let negative = negative_of ob inds sg; adjustment = adjustment_of contains registrations ob in
      \<lparr> ra_risk = nat (max 0 (min 100 (int negative + adjustment))), ra_trust = nat (max 0 (min 100 (- adjustment))),
        ra_negative = negative, ra_adjustment = adjustment, ra_reasons = reasons_of contains registrations ob inds sg \<rparr>)"

section \<open>Policy\<close>

datatype decision = Observe | Challenge | RateLimit | Block

record policy_decision =
  pd_decision :: decision
  pd_risk :: nat
  pd_corroborated :: bool

definition decide :: "risk_assessment \<Rightarrow> nat \<Rightarrow> policy_decision" where
  "decide a evidence_sources =
     \<lparr> pd_decision = (if ra_risk a \<le> 39 then Observe else if ra_risk a \<le> 69 then Challenge else if ra_risk a \<le> 89 then RateLimit
         else if evidence_sources \<ge> 2 then Block else RateLimit),
       pd_risk = ra_risk a, pd_corroborated = (evidence_sources \<ge> 2) \<rparr>"

text \<open>The policy engine reads the confidence of an assessment, from 0 to 99, as its risk (\<^verbatim>\<open>policy-engine/src/main.rs\<close>).\<close>

definition risk_assessment_from_confidence :: "int \<Rightarrow> risk_assessment" where
  "risk_assessment_from_confidence confidence =
     (let score = nat (max 0 (min 100 confidence)) in
      \<lparr> ra_risk = score, ra_trust = 0, ra_negative = score, ra_adjustment = 0, ra_reasons = [] \<rparr>)"

text \<open>
  What the engine records for an assessment and a policy (\<^verbatim>\<open>evaluate_assessment\<close>).  An assessment of a rule that
  describes the system and not the intent of a source is only ever observed.  How many independent sources there are
  comes from queries of the store and is an argument.
\<close>

definition OBSERVATION_ONLY_RULES :: "string list" where
  "OBSERVATION_ONLY_RULES = [''http_server_fault_burst'']"

definition policy_outcome :: "string \<Rightarrow> int \<Rightarrow> nat \<Rightarrow> policy_decision" where
  "policy_outcome rule confidence evidence_sources =
     (let risk = risk_assessment_from_confidence confidence in
      if rule \<in> set OBSERVATION_ONLY_RULES
      then \<lparr> pd_decision = Observe, pd_risk = ra_risk risk, pd_corroborated = False \<rparr>
      else decide risk evidence_sources)"

record action_policy =
  ap_name :: string
  ap_role :: string
  ap_risk_level :: string
  ap_requires_approval :: bool

definition ACTION_POLICIES :: "action_policy list" where
  "ACTION_POLICIES =
     [\<lparr> ap_name = ''docker.restart_container'', ap_role = ''Operator'', ap_risk_level = ''medium'', ap_requires_approval = True \<rparr>,
      \<lparr> ap_name = ''docker.pull_image'', ap_role = ''Operator'', ap_risk_level = ''high'', ap_requires_approval = True \<rparr>,
      \<lparr> ap_name = ''backup.start'', ap_role = ''Operator'', ap_risk_level = ''low'', ap_requires_approval = False \<rparr>,
      \<lparr> ap_name = ''github.retry_workflow'', ap_role = ''Operator'', ap_risk_level = ''medium'', ap_requires_approval = True \<rparr>]"

definition action_policy_named :: "string \<Rightarrow> action_policy option" where
  "action_policy_named name = List.find (\<lambda>p. ap_name p = name) ACTION_POLICIES"

definition authorize_action :: "string \<Rightarrow> string \<Rightarrow> string + action_policy" where
  "authorize_action name role =
     and_then (ok_or ''action is not allowlisted'' (action_policy_named name)) (\<lambda>p.
       if role \<noteq> ''Administrator'' \<and> role \<noteq> ap_role p then Inl ''role is not permitted for action'' else Inr p)"

section \<open>Bounds\<close>

lemma fold_max_Max: "fold max xs (a :: nat) = Max (insert a (set xs))"
proof (induction xs arbitrary: a)
  case (Cons x xs)
  have "Max (insert (max x a) (set xs)) = Max (insert a (insert x (set xs)))"
  proof (cases xs)
    case Nil
    then show ?thesis by (simp add: max.commute)
  next
    case (Cons y ys)
    then show ?thesis by (simp add: max.left_commute max.assoc)
  qed
  then show ?case using Cons.IH by simp
qed simp

lemma threat_bounded: "threat_of inds \<le> 50"
proof -
  have "fold max (map (\<lambda>i. min (unat (in_confidence i)) 50) inds) 0 \<le> 50" by (auto simp: fold_max_Max)
  then show ?thesis by (simp add: threat_of_def Let_def)
qed

lemma word_below: "unat (min (x :: 8 word) y) \<le> unat y"
  by (simp add: min_def word_le_nat_alt)

lemma adjustment_bounds:
  "- 100 \<le> adjustment_of contains ns ob \<and> adjustment_of contains ns ob \<le> 0 \<and>
   (verified_match contains ns ob = None \<longrightarrow> - 50 \<le> adjustment_of contains ns ob)"
proof -
  have "unat (min (no_history ob) 20) \<le> 20" using word_below [of "no_history ob" 20] by simp
  then have "int (unat (min (no_history ob) 20)) \<le> int 20" by (simp only: of_nat_le_iff)
  then have h: "0 \<le> int (unat (min (no_history ob) 20)) \<and> int (unat (min (no_history ob) 20)) \<le> 20"
    by (simp only: of_nat_0_le_iff of_nat_numeral simp_thms)
  have "\<And>h :: int. 0 \<le> h \<and> h \<le> 20 \<Longrightarrow> (let x = (case verified_match contains ns ob of None \<Rightarrow> 0 | Some (_, node) \<Rightarrow> - 40 + (if node then - 10 else 0)) +
     (if no_rpki ob = Rpki_Valid then - 20 else 0) + (if no_bgp ob = Bgp_Stable then - 10 else 0) - h in
     - 100 \<le> x \<and> x \<le> 0 \<and> (verified_match contains ns ob = None \<longrightarrow> - 50 \<le> x))"
    by (auto simp: Let_def split: option.split)
  from this [OF h] show ?thesis unfolding adjustment_of_def Let_def .
qed

lemma verified_match_verified:
  "verified_match contains ns ob = Some (n, node) \<Longrightarrow> n \<in> set ns \<and> is_verified n \<and> network_matches contains ob n"
proof -
  assume "verified_match contains ns ob = Some (n, node)"
  then have found: "List.find (network_matches contains ob) (filter is_verified ns) = Some n" by (auto simp: verified_match_def)
  then have "n \<in> set (filter is_verified ns)" "network_matches contains ob n" unfolding find_Some_iff by (auto simp del: set_filter)
  then show ?thesis by simp
qed

text \<open>The count of the sources, as long as its product with ten fits 16 bits.\<close>

lemma source_bonus:
  assumes "1 \<le> n" "n \<le> 6554"
  shows "unat ((word_of_nat n - 1) * 10 :: 16 word) = (n - 1) * 10"
proof -
  have "(word_of_nat n - 1) * 10 = (word_of_nat ((n - 1) * 10) :: 16 word)" using assms(1) by (simp add: of_nat_diff)
  moreover have "unat (word_of_nat ((n - 1) * 10) :: 16 word) = (n - 1) * 10"
    unfolding unat_of_nat using assms(2) by simp
  ultimately show ?thesis by simp
qed

lemma threat_mono:
  assumes "set inds \<subseteq> set wider" "length (remdups (map in_source wider)) \<le> 6554"
  shows "threat_of inds \<le> threat_of wider"
proof -
  let ?n = "\<lambda>xs. length (remdups (map in_source xs))" and ?t = "\<lambda>xs. fold max (map (\<lambda>i. min (unat (in_confidence i)) 50) xs) 0"
  have n: "?n xs = card (in_source ` set xs)" for xs by (simp add: length_remdups_card_conv)
  have fewer: "?n inds \<le> ?n wider" unfolding n using assms(1) by (intro card_mono) auto
  have lower: "?t inds \<le> ?t wider" unfolding fold_max_Max using assms(1) by (intro Max_mono) auto
  have exact: "threat_of xs = (if ?n xs > 1 then min (?t xs + min ((?n xs - 1) * 10) 20) 50 else ?t xs)" if "?n xs \<le> 6554" for xs
    using source_bonus [of "?n xs"] that by (auto simp: threat_of_def Let_def)
  have small: "?t xs \<le> 50" for xs by (auto simp: fold_max_Max)
  have "threat_of inds = (if ?n inds > 1 then min (?t inds + min ((?n inds - 1) * 10) 20) 50 else ?t inds)"
    using exact fewer assms(2) by simp
  moreover have "threat_of wider = (if ?n wider > 1 then min (?t wider + min ((?n wider - 1) * 10) 20) 50 else ?t wider)"
    using exact assms(2) by simp
  moreover have "(if n > 1 then min (a + min ((n - 1) * 10) 20) 50 else a) \<le> (if m > 1 then min (b + min ((m - 1) * 10) 20) 50 else b)"
    if "a \<le> b" "n \<le> m" "a \<le> 50" for a b n m :: nat
  proof -
    have "min ((n - 1) * 10) 20 \<le> min ((m - 1) * 10) 20" using that(2) by (intro min.mono) simp_all
    then show ?thesis using that by auto
  qed
  ultimately show ?thesis using fewer lower small [of inds] by simp
qed

text \<open>C20 A risk is bounded, and more evidence never lowers it.  Whatever is observed, the risk is between 0 and 100 and
  the negative score lowered by the trust; the trust is at most 100, and more than 50 of it comes from a verified network
  that matches the observation; and with further indicators, from up to 6554 different sources, where the 16-bit count
  of the sources is exact, the risk is at least as high.\<close>

theorem risk_bounded_monotone:
  assumes "set inds \<subseteq> set wider" "length (remdups (map in_source wider)) \<le> 6554"
  shows "ra_risk (risk_evaluate contains ns ob inds sg) \<le> ra_risk (risk_evaluate contains ns ob wider sg) \<and>
    ra_risk (risk_evaluate contains ns ob wider sg) \<le> ra_negative (risk_evaluate contains ns ob wider sg) \<and>
    ra_negative (risk_evaluate contains ns ob wider sg) \<le> 100 \<and>
    int (ra_risk (risk_evaluate contains ns ob wider sg)) =
      max 0 (int (ra_negative (risk_evaluate contains ns ob wider sg)) - int (ra_trust (risk_evaluate contains ns ob wider sg))) \<and>
    ra_trust (risk_evaluate contains ns ob wider sg) \<le> 100 \<and>
    (50 < ra_trust (risk_evaluate contains ns ob wider sg) \<longrightarrow> (\<exists>n \<in> set ns. is_verified n \<and> network_matches contains ob n))"
proof -
  have "negative_of ob inds sg \<le> negative_of ob wider sg" using threat_mono [OF assms] unfolding negative_of_def by linarith
  moreover have "negative_of ob wider sg \<le> 100" by (simp add: negative_of_def)
  moreover note adjustment_bounds [of contains ns ob]
  moreover have "verified_match contains ns ob \<noteq> None \<longrightarrow> (\<exists>n \<in> set ns. is_verified n \<and> network_matches contains ob n)"
    using verified_match_verified by fastforce
  ultimately have facts: "negative_of ob inds sg \<le> negative_of ob wider sg" "negative_of ob wider sg \<le> 100"
    "- 100 \<le> adjustment_of contains ns ob" "adjustment_of contains ns ob \<le> 0"
    "50 < - adjustment_of contains ns ob \<longrightarrow> (\<exists>n \<in> set ns. is_verified n \<and> network_matches contains ob n)" by auto
  have arith: "nat (max 0 (min 100 (int x + a))) \<le> nat (max 0 (min 100 (int y + a))) \<and> nat (max 0 (min 100 (int y + a))) \<le> y \<and>
      int (nat (max 0 (min 100 (int y + a)))) = max 0 (int y - int (nat (max 0 (min 100 (- a))))) \<and>
      nat (max 0 (min 100 (- a))) \<le> 100 \<and> (50 < nat (max 0 (min 100 (- a))) \<longrightarrow> 50 < - a)"
    if "x \<le> y" "y \<le> 100" "- 100 \<le> a" "a \<le> 0" for x y :: nat and a :: int
    using that by (auto simp: max_def min_def)
  show ?thesis unfolding risk_evaluate_def Let_def risk_assessment.simps using arith [OF facts(1-4)] facts(2,5) by blast
qed

lemma risk_bounded_monotone_witness:
  "ra_risk (risk_evaluate (\<lambda>_ _. None) [] \<lparr> no_ip = None, no_asn = None, no_prefix = None, no_identifier = None, no_node = None,
       no_bgp = Bgp_Unknown, no_rpki = Rpki_Invalid, no_behavior = 0, no_history = 0 \<rparr>
     [\<lparr> in_value = ''192.0.2.7'', in_confidence = 40, in_source = ''a'' \<rparr>] no_signals) \<le>
   ra_risk (risk_evaluate (\<lambda>_ _. None) [] \<lparr> no_ip = None, no_asn = None, no_prefix = None, no_identifier = None, no_node = None,
       no_bgp = Bgp_Unknown, no_rpki = Rpki_Invalid, no_behavior = 0, no_history = 0 \<rparr>
     [\<lparr> in_value = ''192.0.2.7'', in_confidence = 40, in_source = ''a'' \<rparr>, \<lparr> in_value = ''192.0.2.7'', in_confidence = 30, in_source = ''b'' \<rparr>]
     no_signals)"
  by (rule conjunct1 [OF risk_bounded_monotone]) simp_all

section \<open>Decisions\<close>

text \<open>What reaches a block.\<close>

lemma decide_block: "pd_decision (decide a n) = Block \<longleftrightarrow> 90 \<le> ra_risk a \<and> 2 \<le> n"
  by (auto simp: decide_def)

lemma find_by_key: "distinct (map f xs) \<Longrightarrow> List.find (\<lambda>x. f x = k) xs = Some x \<longleftrightarrow> x \<in> set xs \<and> f x = k"
  by (induction xs) auto

lemma authorize_action_exact:
  "authorize_action name role = Inr p \<longleftrightarrow> p \<in> set ACTION_POLICIES \<and> ap_name p = name \<and> role \<in> {''Administrator'', ''Operator''}"
proof -
  have "distinct (map ap_name ACTION_POLICIES)" by code_simp
  then have "action_policy_named name = Some p \<longleftrightarrow> p \<in> set ACTION_POLICIES \<and> ap_name p = name"
    unfolding action_policy_named_def by (rule find_by_key)
  moreover have "list_all (\<lambda>p. ap_role p = ''Operator'') ACTION_POLICIES" by code_simp
  then have "p \<in> set ACTION_POLICIES \<Longrightarrow> ap_role p = ''Operator''" by (simp add: list_all_iff)
  ultimately show ?thesis
    by (cases "action_policy_named name") (auto simp: authorize_action_def split: if_split_asm)
qed

end
