(* ===== verification/Assessments.thy ===== *)
theory Assessments
  imports Incidents "HOL-Library.Option_ord"
begin

text \<open>
  The assessments of the security engine (\<^verbatim>\<open>storage/src/security_assessments.rs\<close>): the queries a rule reads the
  events of one window with, the upsert of an assessment and its link to an incident.  How PostgreSQL prints a
  nested JSON value and casts a text is a parameter.
\<close>

section \<open>What a query reads of an event\<close>

record db_text =
  dt_json :: "json \<Rightarrow> string"
  dt_smallint :: "string \<Rightarrow> int option"
  dt_timestamptz :: "string \<Rightarrow> int option"

text \<open>\<^verbatim>\<open>value->>'key'\<close>\<close>

fun json_as_text :: "db_text \<Rightarrow> json \<Rightarrow> string option" where
  "json_as_text D JNull = None"
| "json_as_text D (JBool b) = Some (if b then ''true'' else ''false'')"
| "json_as_text D (JInt n) = Some (show_int n)"
| "json_as_text D (JStr s) = Some s"
| "json_as_text D v = Some (dt_json D v)"

definition field_text :: "db_text \<Rightarrow> json \<Rightarrow> string \<Rightarrow> string option" where
  "field_text D payload key = Option.bind (jget payload key) (json_as_text D)"

datatype status_filter = Any_Status | Client_Attributable | Server_Error

definition status_code :: "db_text \<Rightarrow> json \<Rightarrow> nat option" where
  "status_code D payload =
     (case field_text D payload ''status_code'' of
        Some v \<Rightarrow> if length v = 3 then digits_val 10 0 v else None
      | None \<Rightarrow> None)"

fun status_passes :: "db_text \<Rightarrow> status_filter \<Rightarrow> json \<Rightarrow> bool" where
  "status_passes D Any_Status payload = True"
| "status_passes D Client_Attributable payload = (case status_code D payload of Some n \<Rightarrow> n < 500 | None \<Rightarrow> True)"
| "status_passes D Server_Error payload = (case status_code D payload of Some n \<Rightarrow> n \<ge> 500 | None \<Rightarrow> False)"

definition in_bucket :: "string \<Rightarrow> string \<Rightarrow> int \<Rightarrow> int \<Rightarrow> event_row \<Rightarrow> bool" where
  "in_bucket kind resource start stop e =
     (ev_type e = kind \<and> ev_correlation e = Some resource \<and> start \<le> ev_occurred e \<and> ev_occurred e < stop)"

definition bucket_rows :: "db_text \<Rightarrow> string \<Rightarrow> string \<Rightarrow> int \<Rightarrow> int \<Rightarrow> status_filter \<Rightarrow> nat \<Rightarrow> bus \<Rightarrow> event_row list" where
  "bucket_rows D kind resource start stop f n s =
     take n (sort_key ev_occurred (filter (\<lambda>e. in_bucket kind resource start stop e \<and> status_passes D f (ev_payload e)) (b_events s)))"

definition list_events_for_bucket_limited ::
  "db_text \<Rightarrow> string \<Rightarrow> string \<Rightarrow> int \<Rightarrow> int \<Rightarrow> status_filter \<Rightarrow> int \<Rightarrow> (bus db, msg, (uuid \<times> int) list) io" where
  "list_events_for_bucket_limited D kind resource start stop f limit =
     tx_read (\<lambda>s. map (\<lambda>e. (ev_id e, ev_occurred e)) (bucket_rows D kind resource start stop f (nat (clamp 1 1000 limit)) s))"

definition list_events_for_bucket_with_field_filtered ::
  "db_text \<Rightarrow> string \<Rightarrow> string \<Rightarrow> string \<Rightarrow> int \<Rightarrow> int \<Rightarrow> status_filter \<Rightarrow>
   (bus db, msg, (uuid \<times> int \<times> string option) list) io" where
  "list_events_for_bucket_with_field_filtered D kind resource field start stop f =
     tx_read (\<lambda>s. map (\<lambda>e. (ev_id e, ev_occurred e, field_text D (ev_payload e) field))
       (bucket_rows D kind resource start stop f 1000 s))"

definition SECOND :: int where "SECOND = 1000000"

definition overlapping_assessment :: "string \<Rightarrow> string \<Rightarrow> int \<Rightarrow> int \<Rightarrow> assessment_row \<Rightarrow> bool" where
  "overlapping_assessment resource rule start stop a =
     (as_resource a = resource \<and> as_rule a = rule \<and> as_bucket a < stop \<and> start < as_bucket a + as_window a * SECOND)"

definition resource_has_assessment_overlapping ::
  "string \<Rightarrow> string \<Rightarrow> int \<Rightarrow> int \<Rightarrow> (bus db, msg, bool) io" where
  "resource_has_assessment_overlapping resource rule start stop =
     tx_read (\<lambda>s. list_ex (overlapping_assessment resource rule start stop) (b_assessments s))"

text \<open>
  The best reputation hit of the window: highest confidence, then most recent; a missing column sorts first and
  cannot be decoded.
\<close>

definition cast_column :: "(string \<Rightarrow> int option) \<Rightarrow> string option \<Rightarrow> msg + int option" where
  "cast_column f v = (case v of None \<Rightarrow> Inr None | Some t \<Rightarrow> (case f t of Some x \<Rightarrow> Inr (Some x) | None \<Rightarrow> Inl db_error))"

definition hit_columns :: "db_text \<Rightarrow> event_row \<Rightarrow> msg + string option \<times> int option \<times> int option" where
  "hit_columns D e =
     and_then (cast_column (dt_smallint D) (field_text D (ev_metadata e) ''threat_intel_confidence'')) (\<lambda>confidence.
     and_then (cast_column (dt_timestamptz D) (field_text D (ev_metadata e) ''threat_intel_last_seen'')) (\<lambda>last_seen.
     Inr (field_text D (ev_metadata e) ''threat_intel_source'', confidence, last_seen)))"

definition best_hit :: "(string option \<times> int option \<times> int option) list \<Rightarrow> msg + reputation option" where
  "best_hit rows =
     (case sort_key (\<lambda>(_, c, _). map_option uminus c) (sort_key (\<lambda>(_, _, l). map_option uminus l) rows) of
        [] \<Rightarrow> Inr None
      | (Some source, Some c, Some l) # _ \<Rightarrow> Inr (Some \<lparr> rp_source = source, rp_confidence = c, rp_last_seen = l \<rparr>)
      | _ \<Rightarrow> Inl [Lit ''unexpected null; try decoding as an `Option`''])"

definition intel_body :: "db_text \<Rightarrow> string \<Rightarrow> string \<Rightarrow> int \<Rightarrow> int \<Rightarrow> bus \<Rightarrow> msg + reputation option" where
  "intel_body D kind resource start stop s =
     and_then (collect_results (hit_columns D)
       (filter (\<lambda>e. in_bucket kind resource start stop e \<and> field_text D (ev_metadata e) ''threat_intel_hit'' = Some ''true'')
         (b_events s))) best_hit"

definition bucket_threat_intel_hit_details ::
  "db_text \<Rightarrow> string \<Rightarrow> string \<Rightarrow> int \<Rightarrow> int \<Rightarrow> (bus db, msg, reputation option) io" where
  "bucket_threat_intel_hit_details D kind resource start stop =
     tx (\<lambda>s. and_then (intel_body D kind resource start stop s) (\<lambda>r. Inr (r, s)))"

section \<open>Storing an assessment\<close>

record assessment_upsert =
  au_rule :: string
  au_version :: string
  au_engine :: string
  au_dedupe :: string
  au_resource :: string
  au_severity :: string
  au_confidence :: int
  au_summary :: msg
  au_count :: int
  au_window :: int
  au_bucket :: int
  au_first :: int
  au_last :: int
  au_events :: "uuid list"
  au_intel :: "reputation option"

definition assessment_valid :: "assessment_upsert \<Rightarrow> bus \<Rightarrow> bool" where
  "assessment_valid q s =
     (0 \<le> au_confidence q \<and> au_confidence q \<le> 100 \<and> au_count q > 0 \<and> au_window q > 0 \<and>
      list_all (\<lambda>e. e \<in> ev_id ` set (b_events s)) (au_events q))"

definition refreshed :: "assessment_upsert \<Rightarrow> assessment_row \<Rightarrow> assessment_row" where
  "refreshed q a = a\<lparr>as_severity := au_severity q, as_confidence := au_confidence q, as_summary := au_summary q,
     as_count := au_count q, as_last := au_last q, as_intel := au_intel q, as_events := add_missing (au_events q) (as_events a)\<rparr>"

definition new_assessment :: "uuid \<Rightarrow> assessment_upsert \<Rightarrow> assessment_row" where
  "new_assessment i q = \<lparr> as_id = i, as_rule = au_rule q, as_version = au_version q, as_engine = au_engine q,
     as_dedupe = au_dedupe q, as_resource = au_resource q, as_severity = au_severity q, as_confidence = au_confidence q,
     as_summary = au_summary q, as_count = au_count q, as_window = au_window q, as_bucket = au_bucket q,
     as_first = au_first q, as_last = au_last q, as_incident = None, as_intel = au_intel q,
     as_events = add_missing (au_events q) [] \<rparr>"

definition assessment_body :: "assessment_upsert \<Rightarrow> bus \<Rightarrow> msg + uuid \<times> bus" where
  "assessment_body q s =
     (if \<not> assessment_valid q s then Inl db_error
      else case List.find (\<lambda>a. as_dedupe a = au_dedupe q) (b_assessments s) of
        Some a \<Rightarrow> Inr (as_id a,
          s\<lparr>b_assessments := map (\<lambda>r. if as_dedupe r = au_dedupe q then refreshed q r else r) (b_assessments s)\<rparr>)
      | None \<Rightarrow> (case b_fresh s of (i, s) \<Rightarrow> Inr (i, s\<lparr>b_assessments := b_assessments s @ [new_assessment i q]\<rparr>)))"

definition persist_security_assessment :: "assessment_upsert \<Rightarrow> (bus db, msg, uuid) io" where
  "persist_security_assessment q = tx (assessment_body q)"

definition link_security_assessment_incident :: "uuid \<Rightarrow> uuid \<Rightarrow> (bus db, msg, unit) io" where
  "link_security_assessment_incident assessment incident =
     tx_run (\<lambda>s. s\<lparr>b_assessments := map (\<lambda>a. if as_id a = assessment \<and> as_incident a = None
       then a\<lparr>as_incident := Some incident\<rparr> else a) (b_assessments s)\<rparr>)"

definition get_incident_id_for_candidate :: "uuid \<Rightarrow> (bus db, msg, uuid option) io" where
  "get_incident_id_for_candidate candidate =
     tx_read (\<lambda>s. map_option inc_id (List.find (\<lambda>x. inc_candidate x = Some candidate) (b_incidents s)))"

section \<open>Retention\<close>

text \<open>
  The worker's cleanup.  An assessment goes once its last activity is before the cutoff, unless it was linked to an
  incident or a decision on it backs a request that is not simulation-only.  The decisions and the requests are tables of
  their own (the worker may not read the requests), so which assessments they back is an argument.  The cutoff is the
  present less the retention period.
\<close>

definition expired_assessment :: "(uuid \<Rightarrow> bool) \<Rightarrow> int \<Rightarrow> assessment_row \<Rightarrow> bool" where
  "expired_assessment backs_request older_than a =
     (as_incident a = None \<and> as_last a < older_than \<and> \<not> backs_request (as_id a))"

definition delete_expired_security_assessments :: "(uuid \<Rightarrow> bool) \<Rightarrow> int \<Rightarrow> (bus db, msg, nat) io" where
  "delete_expired_security_assessments backs_request older_than =
     tx (\<lambda>s. let doomed = filter (expired_assessment backs_request older_than) (b_assessments s) in
       Inr (length doomed, s\<lparr>b_assessments := filter (\<lambda>a. \<not> expired_assessment backs_request older_than a) (b_assessments s)\<rparr>))"

definition security_assessment_retention_seconds :: "env \<Rightarrow> int" where
  "security_assessment_retention_seconds env =
     (case Option.bind (env_ok env ''CLAWFORGE_SECURITY_ASSESSMENT_RETENTION_SECONDS'') parse_i64 of
        Some v \<Rightarrow> if v > 0 then v else 90 * 24 * 3600 | None \<Rightarrow> 90 * 24 * 3600)"

section \<open>The queries\<close>

lemma bucket_rows_member:
  "e \<in> set (bucket_rows D kind resource start stop f n s) \<Longrightarrow>
   e \<in> set (b_events s) \<and> in_bucket kind resource start stop e \<and> status_passes D f (ev_payload e)"
  by (auto simp: bucket_rows_def dest!: in_set_takeD)

lemma bucket_rows_sorted: "sorted (map ev_occurred (bucket_rows D kind resource start stop f n s))"
  unfolding bucket_rows_def take_map [symmetric] by (rule sorted_wrt_take) simp

lemma bucket_rows_length:
  "length (bucket_rows D kind resource start stop f n s) =
   min n (length (filter (\<lambda>e. in_bucket kind resource start stop e \<and> status_passes D f (ev_payload e)) (b_events s)))"
  by (simp add: bucket_rows_def)

lemma bucket_rows_distinct:
  assumes "distinct (map ev_id (b_events s))"
  shows "distinct (map ev_id (bucket_rows D kind resource start stop f n s))"
proof -
  let ?rows = "filter (\<lambda>e. in_bucket kind resource start stop e \<and> status_passes D f (ev_payload e)) (b_events s)"
  have "inj_on ev_id (set (b_events s))" "distinct ?rows" using assms by (simp_all add: distinct_map)
  then have "inj_on ev_id (set ?rows)" by (auto elim: inj_on_subset)
  then have "distinct (map ev_id (sort_key ev_occurred ?rows))" using \<open>distinct ?rows\<close> by (simp add: distinct_map)
  then show ?thesis unfolding bucket_rows_def take_map [symmetric] by (rule distinct_take)
qed

text \<open>A window holds every event that fits it, as long as the limit allows for them.\<close>

lemma bucket_rows_at_least:
  assumes "set es \<subseteq> set (b_events s)" "distinct es" "k \<le> length es" "k \<le> n"
    "\<forall>e \<in> set es. in_bucket kind resource start stop e \<and> status_passes D f (ev_payload e)"
  shows "k \<le> length (bucket_rows D kind resource start stop f n s)"
proof -
  let ?rows = "filter (\<lambda>e. in_bucket kind resource start stop e \<and> status_passes D f (ev_payload e)) (b_events s)"
  have "length es = card (set es)" using assms(2) by (simp add: distinct_card)
  also have "\<dots> \<le> card (set ?rows)" using assms(1,5) by (intro card_mono) auto
  also have "\<dots> \<le> length ?rows" by (rule card_length)
  finally show ?thesis using assms(3,4) by (simp add: bucket_rows_length)
qed

end
