(* ===== verification/Detection.thy ===== *)
theory Detection
  imports Assessments
begin

text \<open>
  The security engine (\<^verbatim>\<open>security-engine/src/main.rs\<close>): its rules, the two grids of windows each is evaluated on,
  and the handling of a claimed event.  Building a date from seconds is \<^verbatim>\<open>chrono\<close> and a parameter; the crate version
  is the workspace's.  The properties: no burst of at most half a window escapes a rule, what an assessment states
  is backed by the stored events, the same window never gets a second assessment, and only the worker's retention
  removes one.
\<close>

section \<open>Rules\<close>

record count_rule =
  cr_id :: string
  cr_version :: string
  cr_type :: string
  cr_status :: status_filter
  cr_incident :: bool
  cr_window :: int
  cr_threshold :: nat
  cr_max :: int
  cr_yields :: "string option"

definition SSH_BRUTEFORCE :: count_rule where
  "SSH_BRUTEFORCE = \<lparr> cr_id = ''ssh_bruteforce'', cr_version = ''2'', cr_type = ''ssh_login_failure'', cr_status = Any_Status,
     cr_incident = True, cr_window = 300, cr_threshold = 5, cr_max = 1000, cr_yields = None \<rparr>"

definition SSH_BRUTEFORCE_SLOW :: count_rule where
  "SSH_BRUTEFORCE_SLOW = \<lparr> cr_id = ''ssh_bruteforce_slow'', cr_version = ''1'', cr_type = ''ssh_login_failure'',
     cr_status = Any_Status, cr_incident = True, cr_window = 3600, cr_threshold = 15, cr_max = 61,
     cr_yields = Some ''ssh_bruteforce'' \<rparr>"

definition HTTP_ANOMALY_BURST :: count_rule where
  "HTTP_ANOMALY_BURST = \<lparr> cr_id = ''http_anomaly_burst'', cr_version = ''2'', cr_type = ''http_anomaly'',
     cr_status = Client_Attributable, cr_incident = True, cr_window = 300, cr_threshold = 10, cr_max = 1000, cr_yields = None \<rparr>"

definition HTTP_SERVER_FAULT_BURST :: count_rule where
  "HTTP_SERVER_FAULT_BURST = \<lparr> cr_id = ''http_server_fault_burst'', cr_version = ''1'', cr_type = ''http_anomaly'',
     cr_status = Server_Error, cr_incident = False, cr_window = 300, cr_threshold = 10, cr_max = 1000, cr_yields = None \<rparr>"

definition RULES :: "count_rule list" where
  "RULES = [SSH_BRUTEFORCE, SSH_BRUTEFORCE_SLOW, HTTP_ANOMALY_BURST, HTTP_SERVER_FAULT_BURST]"

record distinct_rule =
  dr_id :: string
  dr_version :: string
  dr_type :: string
  dr_status :: status_filter
  dr_incident :: bool
  dr_field :: string
  dr_window :: int
  dr_threshold :: nat

definition HTTP_SCAN :: distinct_rule where
  "HTTP_SCAN = \<lparr> dr_id = ''http_scan'', dr_version = ''2'', dr_type = ''http_anomaly'', dr_status = Client_Attributable,
     dr_incident = True, dr_field = ''path'', dr_window = 300, dr_threshold = 8 \<rparr>"

definition DISTINCT_VALUE_RULES :: "distinct_rule list" where
  "DISTINCT_VALUE_RULES = [HTTP_SCAN]"

definition CANDIDATE_EXTENSION_WINDOW :: int where
  "CANDIDATE_EXTENSION_WINDOW = 3600 * SECOND"

definition ENGINE_VERSION :: string where
  "ENGINE_VERSION = ''1.0.0''"

section \<open>Windows\<close>

record engine_env =
  ee_text :: db_text
  ee_timestamp_opt :: "int \<Rightarrow> int option"

definition timestamp :: "int \<Rightarrow> int" where
  "timestamp t = t div SECOND"

definition bucket_start :: "engine_env \<Rightarrow> int \<Rightarrow> int \<Rightarrow> int \<Rightarrow> int" where
  "bucket_start E occurred window offset =
     (let floored = (timestamp occurred - offset) div window * window + offset in
      case ee_timestamp_opt E floored of Some t \<Rightarrow> t | None \<Rightarrow> occurred)"

definition grid_offsets :: "int \<Rightarrow> int list" where
  "grid_offsets window = [0, window div 2]"

definition severity_for_count :: "nat \<Rightarrow> nat \<Rightarrow> string" where
  "severity_for_count count threshold =
     (if count \<ge> threshold * 4 then ''critical'' else if count \<ge> threshold * 2 then ''high'' else ''medium'')"

definition confidence_for_count :: "nat \<Rightarrow> nat \<Rightarrow> int" where
  "confidence_for_count count threshold =
     (let over = word_of_nat (count - threshold) :: 16 word in clamp 60 99 (sint (60 + over * 4)))"

section \<open>Evaluating a rule\<close>

definition i32_len :: "'a list \<Rightarrow> int" where
  "i32_len xs = sint (word_of_nat (length xs) :: 32 word)"

definition assessment_key :: "string \<Rightarrow> string \<Rightarrow> string \<Rightarrow> int \<Rightarrow> string" where
  "assessment_key rule version resource bucket =
     rule @ '':v'' @ version @ '':'' @ resource @ '':'' @ show_int (timestamp bucket)"

definition link_incident :: "uuid \<Rightarrow> uuid \<Rightarrow> (bus db, msg, unit) io" where
  "link_incident assessment candidate =
     io_ignore (io_bind (get_incident_id_for_candidate candidate) (\<lambda>i.
       case i of Some incident \<Rightarrow> link_security_assessment_incident assessment incident | None \<Rightarrow> io_return ()))"

definition persist_assessment_and_incident ::
  "engine_env \<Rightarrow> string \<Rightarrow> string \<Rightarrow> string \<Rightarrow> int \<Rightarrow> string \<Rightarrow> int \<Rightarrow> int \<Rightarrow> uuid list \<Rightarrow> int \<Rightarrow> int \<Rightarrow> string \<Rightarrow> int \<Rightarrow>
   msg \<Rightarrow> msg \<Rightarrow> bool \<Rightarrow> (bus db, msg, unit) io" where
  "persist_assessment_and_incident E rule version kind window resource bucket bucket_end events first_seen last_seen severity confidence
     summary candidate_summary incident =
     io_bind (bucket_threat_intel_hit_details (ee_text E) kind resource bucket bucket_end) (\<lambda>intel.
     io_bind (persist_security_assessment \<lparr> au_rule = rule, au_version = version, au_engine = ENGINE_VERSION,
         au_dedupe = assessment_key rule version resource bucket, au_resource = resource, au_severity = severity,
         au_confidence = confidence, au_summary = summary, au_count = i32_len events, au_window = window, au_bucket = bucket,
         au_first = first_seen, au_last = last_seen, au_events = events, au_intel = intel \<rparr>) (\<lambda>assessment.
     if \<not> incident then io_return ()
     else io_bind (persist_correlation \<lparr> cq_key = ''security-assessment:'' @ rule @ '':'' @ resource,
         cq_confidence = confidence, cq_severity = severity, cq_summary = candidate_summary, cq_first = first_seen, cq_last = last_seen,
         cq_window = CANDIDATE_EXTENSION_WINDOW, cq_events = events, cq_relationships = [] \<rparr>) (\<lambda>candidate.
       link_incident assessment candidate)))"

definition ends :: "int \<Rightarrow> int list \<Rightarrow> int \<times> int" where
  "ends now seen = (if seen = [] then (now, now) else (hd seen, last seen))"

definition count_summary :: "count_rule \<Rightarrow> nat \<Rightarrow> msg" where
  "count_summary r count =
     [Lit (show_nat count), Lit '' events of type '', Lit (cr_type r), Lit '' from the same source within '',
      Lit (show_int (cr_window r)), Lit ''s (rule '', Lit (cr_id r), Lit '' v'', Lit (cr_version r), Lit '')'']"

definition with_offset :: "msg \<Rightarrow> int \<Rightarrow> msg" where
  "with_offset m offset = m @ [Lit '', grid offset +'', Lit (show_int offset), Lit ''s'']"

text \<open>\<^verbatim>\<open>if let Some(other) = rule.yields_to { if .. { continue; } }\<close>\<close>

definition yields :: "count_rule \<Rightarrow> string \<Rightarrow> int \<Rightarrow> int \<Rightarrow> (bus db, msg, bool) io" where
  "yields r resource bucket bucket_end =
     (case cr_yields r of None \<Rightarrow> io_return False
      | Some other \<Rightarrow> resource_has_assessment_overlapping resource other bucket bucket_end)"

definition evaluate_window :: "engine_env \<Rightarrow> count_rule \<Rightarrow> string \<Rightarrow> int \<Rightarrow> int \<Rightarrow> (bus db, msg, unit) io" where
  "evaluate_window E r resource occurred offset =
     (let bucket = bucket_start E occurred (cr_window r) offset; bucket_end = bucket + cr_window r * SECOND in
      io_bind (list_events_for_bucket_limited (ee_text E) (cr_type r) resource bucket bucket_end (cr_status r) (cr_max r)) (\<lambda>members.
      if length members < cr_threshold r then io_return ()
      else io_bind (yields r resource bucket bucket_end) (\<lambda>quiet.
        if quiet then io_return ()
        else (let (first_seen, last_seen) = ends occurred (map snd members); count = length members;
              summary = count_summary r count in
          persist_assessment_and_incident E (cr_id r) (cr_version r) (cr_type r) (cr_window r) resource bucket bucket_end
            (map fst members) first_seen last_seen (severity_for_count count (cr_threshold r)) (confidence_for_count count (cr_threshold r))
            (with_offset summary offset) summary (cr_incident r)))))"

text \<open>\<^verbatim>\<open>.as_deref().filter(|v| !v.trim().is_empty())\<close>\<close>

definition grouped_by :: "string option \<Rightarrow> string option" where
  "grouped_by correlation = (case correlation of Some c \<Rightarrow> if trim c \<noteq> [] then Some c else None | None \<Rightarrow> None)"

definition evaluate_rule :: "engine_env \<Rightarrow> count_rule \<Rightarrow> int \<Rightarrow> string option \<Rightarrow> (bus db, msg, unit) io" where
  "evaluate_rule E r occurred correlation =
     (case grouped_by correlation of
        None \<Rightarrow> io_return ()
      | Some resource \<Rightarrow> each (evaluate_window E r resource occurred) (grid_offsets (cr_window r)))"

definition scan_summary :: "distinct_rule \<Rightarrow> nat \<Rightarrow> nat \<Rightarrow> msg" where
  "scan_summary r found count =
     [Lit (show_nat found), Lit '' distinct '', Lit (dr_field r), Lit '' values across '', Lit (show_nat count),
      Lit '' events of type '', Lit (dr_type r), Lit '' from the same source within '', Lit (show_int (dr_window r)),
      Lit ''s (rule '', Lit (dr_id r), Lit '' v'', Lit (dr_version r), Lit '')'']"

definition scan_window :: "engine_env \<Rightarrow> distinct_rule \<Rightarrow> string \<Rightarrow> int \<Rightarrow> int \<Rightarrow> (bus db, msg, unit) io" where
  "scan_window E r resource occurred offset =
     (let bucket = bucket_start E occurred (dr_window r) offset; bucket_end = bucket + dr_window r * SECOND in
      io_bind (list_events_for_bucket_with_field_filtered (ee_text E) (dr_type r) resource (dr_field r) bucket bucket_end (dr_status r)) (\<lambda>members.
      let found = length (remdups (List.map_filter (\<lambda>(_, _, v). v) members)) in
      if found < dr_threshold r then io_return ()
      else (let (first_seen, last_seen) = ends occurred (map (\<lambda>(_, at, _). at) members); summary = scan_summary r found (length members) in
        persist_assessment_and_incident E (dr_id r) (dr_version r) (dr_type r) (dr_window r) resource bucket bucket_end
          (map fst members) first_seen last_seen (severity_for_count found (dr_threshold r)) (confidence_for_count found (dr_threshold r))
          (with_offset summary offset) summary (dr_incident r))))"

definition evaluate_scan_rule :: "engine_env \<Rightarrow> distinct_rule \<Rightarrow> int \<Rightarrow> string option \<Rightarrow> (bus db, msg, unit) io" where
  "evaluate_scan_rule E r occurred correlation =
     (case grouped_by correlation of
        None \<Rightarrow> io_return ()
      | Some resource \<Rightarrow> each (scan_window E r resource occurred) (grid_offsets (dr_window r)))"

definition process_event :: "engine_env \<Rightarrow> event_row \<Rightarrow> (bus db, msg, unit) io" where
  "process_event E e =
     io_bind (each (\<lambda>r. if cr_type r = ev_type e then evaluate_rule E r (ev_occurred e) (ev_correlation e) else io_return ()) RULES) (\<lambda>_.
     each (\<lambda>r. if dr_type r = ev_type e then evaluate_scan_rule E r (ev_occurred e) (ev_correlation e) else io_return ())
       DISTINCT_VALUE_RULES)"

text \<open>One tick of the service: claim, evaluate, complete.  Every failure is logged and the loop goes on.\<close>

definition handle_delivery :: "engine_env \<Rightarrow> delivery_row \<times> event_row \<Rightarrow> (bus db, msg, unit) io" where
  "handle_delivery E de w =
     (case process_event E (snd de) w of
        (r, w') \<Rightarrow> io_ignore (complete_event_delivery (dl_id (fst de)) ''security-engine'' (is_ok r)) w')"

definition engine_tick :: "engine_env \<Rightarrow> (bus db, msg, unit) io" where
  "engine_tick E =
     io_bind (io_ignore (heartbeat_event_consumer ''security-engine'')) (\<lambda>_.
     io_ignore (io_bind (claim_event_deliveries ''security-engine'' 50) (each (handle_delivery E))))"

section \<open>Two grids cover every short span\<close>

text \<open>
  What is assumed of \<^verbatim>\<open>chrono\<close>: the seconds of a date are turned back into it.  The range is inside the dates
  \<^verbatim>\<open>chrono\<close> can represent, the years -262143 to 262142, and the times of the events are a little inside that.
\<close>

definition documented_clock :: "engine_env \<Rightarrow> bool" where
  "documented_clock E \<longleftrightarrow>
     (\<forall>x. - 8000000000000 \<le> x \<longrightarrow> x \<le> 8000000000000 \<longrightarrow> ee_timestamp_opt E x = Some (x * SECOND))"

definition plausible :: "int \<Rightarrow> bool" where
  "plausible t \<longleftrightarrow> - 4000000000000 * SECOND \<le> t \<and> t < 4000000000000 * SECOND"

lemma timestamp_bounds: "timestamp t * SECOND \<le> t \<and> t < (timestamp t + 1) * SECOND"
  unfolding timestamp_def SECOND_def by presburger

lemma timestamp_plausible: "plausible t \<Longrightarrow> - 4000000000000 \<le> timestamp t \<and> timestamp t < 4000000000000"
  using timestamp_bounds [of t] unfolding plausible_def SECOND_def by auto

lemma timestamp_second [simp]: "timestamp (x * SECOND) = x"
  by (simp add: timestamp_def SECOND_def)

definition grid_start :: "int \<Rightarrow> int \<Rightarrow> int \<Rightarrow> int" where
  "grid_start t window offset = (t - offset) div window * window + offset"

lemma grid_start_bounds:
  assumes "0 < window"
  shows "grid_start t window offset \<le> t \<and> t < grid_start t window offset + window"
  using pos_mod_sign [OF assms, of "t - offset"] pos_mod_bound [OF assms, of "t - offset"] div_mult_mod_eq [of "t - offset" window]
  unfolding grid_start_def by linarith

lemma grid_start_aligned: "window dvd grid_start t window offset - offset"
  by (simp add: grid_start_def)

text \<open>The two grids never share a start.\<close>

lemma grids_disjoint:
  assumes "0 < h"
  shows "grid_start t (2 * h) 0 \<noteq> grid_start u (2 * h) h"
proof
  assume "grid_start t (2 * h) 0 = grid_start u (2 * h) h"
  then have "2 * h dvd (grid_start u (2 * h) h - 0) - (grid_start u (2 * h) h - h)"
    using grid_start_aligned [of "2 * h" t 0] grid_start_aligned [of "2 * h" u h] by (metis dvd_diff)
  then show False using assms by (auto dest: zdvd_imp_le)
qed

lemma bucket_start_grid:
  assumes "documented_clock E" "plausible t" "0 < window" "window \<le> 1000000" "0 \<le> offset" "offset \<le> 1000000"
  shows "bucket_start E t window offset = grid_start (timestamp t) window offset * SECOND"
proof -
  have "- 8000000000000 \<le> grid_start (timestamp t) window offset" "grid_start (timestamp t) window offset \<le> 8000000000000"
    using grid_start_bounds [OF assms(3), of "timestamp t" offset] timestamp_plausible [OF assms(2)] assms(4) by linarith+
  then show ?thesis using assms(1) by (simp add: bucket_start_def grid_start_def documented_clock_def Let_def)
qed

lemma bucket_contains:
  assumes "documented_clock E" "plausible t" "0 < window" "window \<le> 1000000" "0 \<le> offset" "offset \<le> 1000000"
  shows "bucket_start E t window offset \<le> t \<and> t < bucket_start E t window offset + window * SECOND"
proof -
  let ?g = "grid_start (timestamp t) window offset"
  have "?g * SECOND \<le> timestamp t * SECOND" "(timestamp t + 1) * SECOND \<le> (?g + window) * SECOND"
    using grid_start_bounds [OF assms(3), of "timestamp t" offset] by (simp_all add: SECOND_def)
  then show ?thesis unfolding bucket_start_grid [OF assms] distrib_right using timestamp_bounds [of t] unfolding distrib_right by linarith
qed

lemma short_span_one_grid:
  fixes a b h :: int
  assumes "0 < h" "a \<le> b" "b \<le> a + h"
  shows "a div (2 * h) = b div (2 * h) \<or> (a - h) div (2 * h) = (b - h) div (2 * h)"
proof (rule disjCI)
  assume "(a - h) div (2 * h) \<noteq> (b - h) div (2 * h)"
  then have less: "(a - h) div (2 * h) < (b - h) div (2 * h)" using zdiv_mono1 [of "a - h" "b - h" "2 * h"] assms by simp
  define k where "k = (b - h) div (2 * h)"
  have "((a - h) div (2 * h) + 1) * (2 * h) \<le> k * (2 * h)" using less assms(1) unfolding k_def by (intro mult_right_mono) simp_all
  then have k: "a - h < k * (2 * h)"
    using assms(1) pos_mod_bound [of "2 * h" "a - h"] div_mult_mod_eq [of "a - h" "2 * h"] unfolding distrib_right by linarith
  have "k * (2 * h) \<le> b - h" using assms(1) pos_mod_sign [of "2 * h" "b - h"] div_mult_mod_eq [of "b - h" "2 * h"]
    unfolding k_def by linarith
  then have "0 \<le> a - k * (2 * h)" "b - k * (2 * h) < 2 * h" using assms k by linarith+
  then have "a div (2 * h) = k" "b div (2 * h) = k"
    using assms by (auto intro!: int_div_pos_eq [where r = "_ - k * (2 * h)"] simp: mult.commute)
  then show "a div (2 * h) = b div (2 * h)" by simp
qed

lemma grid_start_between:
  assumes "0 < window" "a \<le> t" "t \<le> b" "(a - offset) div window = (b - offset) div window"
  shows "grid_start t window offset = grid_start a window offset"
proof -
  have "(a - offset) div window \<le> (t - offset) div window" by (rule zdiv_mono1) (use assms in auto)
  moreover have "(t - offset) div window \<le> (b - offset) div window" by (rule zdiv_mono1) (use assms in auto)
  ultimately show ?thesis using assms(4) by (simp add: grid_start_def)
qed

lemma one_window:
  assumes "documented_clock E" "window \<in> {300, 3600}" "plausible a" "plausible b" "a \<le> b" "b \<le> a + window div 2 * SECOND"
  shows "\<exists>offset \<in> set (grid_offsets window). \<forall>t. a \<le> t \<and> t \<le> b \<longrightarrow>
    bucket_start E t window offset = bucket_start E a window offset \<and>
    bucket_start E a window offset \<le> t \<and> t < bucket_start E a window offset + window * SECOND"
proof -
  obtain h where h: "window = 2 * h" "0 < h" "h \<le> 1800" "window div 2 = h" using assms(2) by (auto intro: that [of 150] that [of 1800])
  have mono: "timestamp x \<le> timestamp y" if "x \<le> y" for x y
    using that by (simp add: timestamp_def SECOND_def zdiv_mono1)
  have "b div SECOND \<le> (a + h * SECOND) div SECOND" using assms(6) h by (intro zdiv_mono1) (simp_all add: SECOND_def)
  then have "timestamp b \<le> timestamp a + h" by (simp add: timestamp_def SECOND_def)
  then obtain offset where o: "offset \<in> {0, h}" "(timestamp a - offset) div window = (timestamp b - offset) div window"
    using short_span_one_grid [OF h(2) mono [OF assms(5)]] by (metis h(1) diff_0_right insertCI)
  have bounds: "0 < window" "window \<le> 1000000" "0 \<le> offset" "offset \<le> 1000000" using h o(1) by auto
  have "bucket_start E t window offset = bucket_start E a window offset \<and>
      bucket_start E a window offset \<le> t \<and> t < bucket_start E a window offset + window * SECOND" if t: "a \<le> t" "t \<le> b" for t
  proof -
    have pt: "plausible t" using assms(3,4) t by (auto simp: plausible_def)
    have "grid_start (timestamp t) window offset = grid_start (timestamp a) window offset"
      by (rule grid_start_between [OF bounds(1) mono [OF t(1)] mono [OF t(2)] o(2)])
    then have "bucket_start E t window offset = bucket_start E a window offset"
      using bucket_start_grid [OF assms(1) pt bounds] bucket_start_grid [OF assms(1,3) bounds] by simp
    then show ?thesis using bucket_contains [OF assms(1) pt bounds] by simp
  qed
  moreover have "offset \<in> set (grid_offsets window)" using o(1) h(4) by (auto simp: grid_offsets_def)
  ultimately show ?thesis by blast
qed

text \<open>No short burst falls between the windows.  Whatever the rule, the times of a span of at most half its window
  all fall into one window of one of its two grids: one of the offsets gives all of them the same start, and the
  window that starts there holds them all.\<close>

theorem short_span_in_one_window:
  assumes "documented_clock E" "window \<in> {300, 3600}" "plausible a" "plausible b" "a \<le> b" "b \<le> a + window div 2 * SECOND"
  shows "\<exists>offset \<in> set (grid_offsets window). \<forall>t. a \<le> t \<and> t \<le> b \<longrightarrow>
    bucket_start E t window offset = bucket_start E a window offset \<and>
    bucket_start E a window offset \<le> t \<and> t < bucket_start E a window offset + window * SECOND"
  using assms by (rule one_window)

section \<open>Counts\<close>

lemma sint16_exact: "- 32768 \<le> x \<Longrightarrow> x < 32768 \<Longrightarrow> sint (word_of_int x :: 16 word) = x"
  by (simp add: sint_sbintrunc' signed_take_bit_int_eq_self)

lemma confidence_value:
  assumes "n \<le> 1000"
  shows "confidence_for_count n k = min 99 (60 + int (n - k) * 4)"
proof -
  have "60 + word_of_nat (n - k) * 4 = (word_of_int (60 + int (n - k) * 4) :: 16 word)" by simp
  moreover have "sint (word_of_int (60 + int (n - k) * 4) :: 16 word) = 60 + int (n - k) * 4"
    by (rule sint16_exact) (use assms in simp_all)
  ultimately show ?thesis by (simp add: confidence_for_count_def clamp_def Let_def)
qed

text \<open>C26 Counting never overflows: for every count a window can hold, at most a thousand, the 16-bit arithmetic of
  the confidence is exact; the confidence stays between 60 and 99, and a higher count never lowers it.\<close>

theorem confidence_exact:
  assumes "m \<le> n" "n \<le> 1000"
  shows "confidence_for_count n k = min 99 (60 + int (n - k) * 4) \<and> 60 \<le> confidence_for_count n k \<and>
    confidence_for_count n k \<le> 99 \<and> confidence_for_count m k \<le> confidence_for_count n k"
proof -
  have "int (m - k) \<le> int (n - k)" using assms(1) by simp
  then show ?thesis using confidence_value [OF assms(2)] confidence_value [of m] assms by simp
qed

lemma confidence_exact_witness: "confidence_for_count 20 5 = 99 \<and> confidence_for_count 8 5 = 72"
  using confidence_exact [of 8 20 5] confidence_exact [of 8 8 5] by simp

lemma i32_len_exact: "length xs < 2 ^ 31 \<Longrightarrow> i32_len xs = int (length xs)"
  by (simp add: i32_len_def sint_uint signed_take_bit_int_eq_self take_bit_nat_eq_self unsigned_of_nat of_nat_take_bit take_bit_int_eq_self)

section \<open>The key of an assessment\<close>

lemma head_split:
  assumes "c \<notin> set xs" "c \<notin> set xs'" "xs @ c # ys = xs' @ c # ys'"
  shows "xs = xs' \<and> ys = ys'"
  using assms
proof (induction xs arbitrary: xs')
  case Nil
  then show ?case by (cases xs') auto
next
  case (Cons x xs)
  then show ?case by (cases xs') auto
qed

lemma tail_split:
  assumes "c \<notin> set ys" "c \<notin> set ys'" "xs @ c # ys = xs' @ c # ys'"
  shows "xs = xs' \<and> ys = ys'"
proof -
  have "rev ys @ c # rev xs = rev ys' @ c # rev xs'" using arg_cong [OF assms(3), of rev] by simp
  then show ?thesis using head_split [of c "rev ys" "rev ys'" "rev xs" "rev xs'"] assms(1,2) by simp
qed

lemma show_nat_no_colon: "CHR '':'' \<notin> set (show_nat n)"
proof -
  have "CHR '':'' \<noteq> digit_chr d" if "d < 10" for d
  proof
    assume "CHR '':'' = digit_chr d"
    then have "ord_of (CHR '':'') = ord_of (digit_chr d)" by simp
    then show False using that by (simp add: ord_of_digit_chr) (simp add: ord_of_def)
  qed
  then show ?thesis using set_show_base [of 10 n] by (auto simp: show_nat_def)
qed

lemma show_nat_inject [simp]: "show_nat m = show_nat n \<longleftrightarrow> m = n"
proof
  assume "show_nat m = show_nat n"
  then have "digits_val 10 0 (show_base 10 m) = digits_val 10 0 (show_base 10 n)" by (simp only: show_nat_def)
  then show "m = n" by (simp add: digits_val_show_base del: show_base.simps)
qed simp

lemma show_nat_no_minus: "show_nat n \<noteq> CHR ''-'' # cs"
proof
  assume *: "show_nat n = CHR ''-'' # cs"
  have "CHR ''-'' \<noteq> digit_chr d" if "d < 10" for d
  proof
    assume "CHR ''-'' = digit_chr d"
    then have "ord_of (CHR ''-'') = ord_of (digit_chr d)" by simp
    then show False using that by (simp add: ord_of_digit_chr) (simp add: ord_of_def)
  qed
  then show False using set_show_base [of 10 n] * by (auto simp: show_nat_def)
qed

lemma show_int_no_colon: "CHR '':'' \<notin> set (show_int i)"
  using show_nat_no_colon by (simp add: show_int_def)

lemma show_int_inject: "show_int i = show_int j \<Longrightarrow> i = j"
  using show_nat_no_minus by (auto simp: show_int_def split: if_splits) (metis show_nat_no_minus)+

lemma assessment_key_inject:
  assumes "assessment_key r v c b = assessment_key r' v' c' b'"
    "CHR '':'' \<notin> set r" "CHR '':'' \<notin> set r'" "CHR '':'' \<notin> set v" "CHR '':'' \<notin> set v'"
  shows "r = r' \<and> v = v' \<and> c = c' \<and> timestamp b = timestamp b'"
proof -
  let ?s = "show_int (timestamp b)" and ?s' = "show_int (timestamp b')"
  have "r @ CHR '':'' # (CHR ''v'' # v @ CHR '':'' # c @ CHR '':'' # ?s) = r' @ CHR '':'' # (CHR ''v'' # v' @ CHR '':'' # c' @ CHR '':'' # ?s')"
    using assms(1) by (simp add: assessment_key_def)
  from head_split [OF assms(2,3) this]
  have 1: "r = r'" and "v @ CHR '':'' # (c @ CHR '':'' # ?s) = v' @ CHR '':'' # (c' @ CHR '':'' # ?s')"
    by (simp_all only: list.inject simp_thms)
  from head_split [OF assms(4,5) this(2)] have 2: "v = v'" and "c @ CHR '':'' # ?s = c' @ CHR '':'' # ?s'"
    by (simp_all only: simp_thms)
  from tail_split [OF show_int_no_colon show_int_no_colon this(2)] have 3: "c = c'" and "?s = ?s'" by (simp_all only: simp_thms)
  from 1 2 3 show_int_inject [OF this(2)] show ?thesis by (intro conjI)
qed

section \<open>What an assessment is backed by\<close>

type_synonym any_rule = "count_rule + distinct_rule"

definition all_rules :: "any_rule list" where
  "all_rules = map Inl RULES @ map Inr DISTINCT_VALUE_RULES"

definition rl_id :: "any_rule \<Rightarrow> string" where "rl_id r = case_sum cr_id dr_id r"
definition rl_version :: "any_rule \<Rightarrow> string" where "rl_version r = case_sum cr_version dr_version r"
definition rl_type :: "any_rule \<Rightarrow> string" where "rl_type r = case_sum cr_type dr_type r"
definition rl_status :: "any_rule \<Rightarrow> status_filter" where "rl_status r = case_sum cr_status dr_status r"
definition rl_window :: "any_rule \<Rightarrow> int" where "rl_window r = case_sum cr_window dr_window r"

lemmas rl_defs = rl_id_def rl_version_def rl_type_def rl_status_def rl_window_def

text \<open>As many events as the threshold asks for, or events with as many values of the field.\<close>

fun enough :: "engine_env \<Rightarrow> any_rule \<Rightarrow> event_row set \<Rightarrow> bool" where
  "enough E (Inl r) es = (cr_threshold r \<le> card es)"
| "enough E (Inr r) es = (dr_threshold r \<le> card {v. \<exists>e \<in> es. field_text (ee_text E) (ev_payload e) (dr_field r) = Some v})"

definition evidence :: "engine_env \<Rightarrow> any_rule \<Rightarrow> string \<Rightarrow> int \<Rightarrow> event_row \<Rightarrow> bool" where
  "evidence E r resource bucket e \<longleftrightarrow>
     in_bucket (rl_type r) resource bucket (bucket + rl_window r * SECOND) e \<and> status_passes (ee_text E) (rl_status r) (ev_payload e)"

definition backed :: "engine_env \<Rightarrow> bus \<Rightarrow> any_rule \<Rightarrow> string \<Rightarrow> int \<Rightarrow> uuid list \<Rightarrow> bool" where
  "backed E s r resource bucket ids \<longleftrightarrow>
     (\<exists>es \<subseteq> set (b_events s). ev_id ` es = set ids \<and> (\<forall>e \<in> es. evidence E r resource bucket e) \<and> enough E r es)"

definition justified :: "engine_env \<Rightarrow> bus \<Rightarrow> assessment_row \<Rightarrow> bool" where
  "justified E s a \<longleftrightarrow> (\<exists>r \<in> set all_rules. as_rule a = rl_id r \<and> as_version a = rl_version r \<and> as_window a = rl_window r \<and>
     (\<exists>offset \<in> set (grid_offsets (rl_window r)). rl_window r dvd timestamp (as_bucket a) - offset) \<and>
     as_bucket a = timestamp (as_bucket a) * SECOND \<and>
     as_dedupe a = assessment_key (as_rule a) (as_version a) (as_resource a) (as_bucket a) \<and>
     backed E s r (as_resource a) (as_bucket a) (as_events a))"

definition detection_ok :: "engine_env \<Rightarrow> bus \<Rightarrow> bool" where
  "detection_ok E s \<longleftrightarrow> distinct (map ev_id (b_events s)) \<and> (\<forall>e \<in> set (b_events s). plausible (ev_occurred e)) \<and>
     distinct (map as_dedupe (b_assessments s)) \<and> (\<forall>a \<in> set (b_assessments s). justified E s a)"

definition same_finding :: "assessment_row \<Rightarrow> assessment_row \<Rightarrow> bool" where
  "same_finding a b \<longleftrightarrow> as_id b = as_id a \<and> as_rule b = as_rule a \<and> as_version b = as_version a \<and> as_resource b = as_resource a \<and>
     as_window b = as_window a \<and> as_bucket b = as_bucket a \<and> as_dedupe b = as_dedupe a \<and>
     set (as_events a) \<subseteq> set (as_events b) \<and> (as_incident a = None \<or> as_incident b = as_incident a)"

definition findings_kept :: "bus \<Rightarrow> bus \<Rightarrow> bool" where
  "findings_kept s t \<longleftrightarrow> set (b_events s) \<subseteq> set (b_events t) \<and>
     (\<forall>a \<in> set (b_assessments s). \<exists>b \<in> set (b_assessments t). same_finding a b)"

lemma same_finding_refl [simp]: "same_finding a a"
  by (simp add: same_finding_def)

lemma same_finding_trans: "same_finding a b \<Longrightarrow> same_finding b c \<Longrightarrow> same_finding a c"
  by (auto simp: same_finding_def)

lemma findings_kept_refl: "findings_kept s s"
  unfolding findings_kept_def by (meson order_refl same_finding_refl)

lemma findings_kept_trans: "findings_kept s t \<Longrightarrow> findings_kept t u \<Longrightarrow> findings_kept s u"
  unfolding findings_kept_def by (meson order_trans same_finding_trans)

interpretation detection_tables: evolving_tables "detection_ok E" findings_kept for E
  by unfold_locales (auto intro: findings_kept_refl findings_kept_trans)

lemma all_rules_cases:
  assumes "r \<in> set all_rules"
  obtains "r = Inl SSH_BRUTEFORCE" | "r = Inl SSH_BRUTEFORCE_SLOW" | "r = Inl HTTP_ANOMALY_BURST"
    | "r = Inl HTTP_SERVER_FAULT_BURST" | "r = Inr HTTP_SCAN"
  using assms by (auto simp: all_rules_def RULES_def DISTINCT_VALUE_RULES_def)

lemmas rule_defs = SSH_BRUTEFORCE_def SSH_BRUTEFORCE_SLOW_def HTTP_ANOMALY_BURST_def HTTP_SERVER_FAULT_BURST_def HTTP_SCAN_def

lemma rule_names:
  assumes "r \<in> set all_rules"
  shows "CHR '':'' \<notin> set (rl_id r)" "CHR '':'' \<notin> set (rl_version r)" "rl_window r \<in> {300, 3600}"
  using assms by (cases rule: all_rules_cases; simp add: rl_defs rule_defs)+

lemma rule_unique:
  assumes "r \<in> set all_rules" "r' \<in> set all_rules" "rl_id r = rl_id r'"
  shows "r = r'"
  using assms by (cases rule: all_rules_cases; cases rule: all_rules_cases [OF assms(2)]) (simp_all add: rl_defs rule_defs)

lemma enough_mono:
  assumes "enough E r es" "es \<subseteq> es'" "finite es'"
  shows "enough E r es'"
proof (cases r)
  case (Inl c)
  then show ?thesis using assms card_mono [OF assms(3,2)] by simp
next
  case (Inr d)
  let ?f = "\<lambda>e. field_text (ee_text E) (ev_payload e) (dr_field d)"
  have "{v. \<exists>e \<in> es'. ?f e = Some v} \<subseteq> (\<lambda>e. the (?f e)) ` es'" by force
  then have "finite {v. \<exists>e \<in> es'. ?f e = Some v}" using assms(3) finite_surj by blast
  then have "card {v. \<exists>e \<in> es. ?f e = Some v} \<le> card {v. \<exists>e \<in> es'. ?f e = Some v}"
    using assms(2) by (intro card_mono) auto
  then show ?thesis using assms(1) Inr by simp
qed

lemma backed_mono: "backed E s r c b ids \<Longrightarrow> set (b_events s) \<subseteq> set (b_events t) \<Longrightarrow> backed E t r c b ids"
  unfolding backed_def by (meson order_trans)

lemma backed_union:
  assumes "backed E s r c b ids" "backed E s r c b ids'" "set ids'' = set ids \<union> set ids'"
  shows "backed E s r c b ids''"
proof -
  obtain es es' where es: "es \<subseteq> set (b_events s)" "ev_id ` es = set ids" "\<forall>e \<in> es. evidence E r c b e" "enough E r es"
    "es' \<subseteq> set (b_events s)" "ev_id ` es' = set ids'" "\<forall>e \<in> es'. evidence E r c b e"
    using assms(1,2) by (auto simp: backed_def)
  have "finite (es \<union> es')" by (rule finite_subset [of _ "set (b_events s)"]) (use es(1,5) in simp_all)
  then have "enough E r (es \<union> es')" by (rule enough_mono [OF es(4), rotated]) simp
  moreover have "ev_id ` (es \<union> es') = set ids''" unfolding image_Un es(2,6) assms(3) ..
  moreover have "es \<union> es' \<subseteq> set (b_events s)" "\<forall>e \<in> es \<union> es'. evidence E r c b e" using es(1,3,5,7) by blast+
  ultimately show ?thesis unfolding backed_def by blast
qed

definition request_justified :: "engine_env \<Rightarrow> bus \<Rightarrow> any_rule \<Rightarrow> assessment_upsert \<Rightarrow> bool" where
  "request_justified E s r q \<longleftrightarrow> r \<in> set all_rules \<and> au_rule q = rl_id r \<and> au_version q = rl_version r \<and> au_window q = rl_window r \<and>
     (\<exists>offset \<in> set (grid_offsets (rl_window r)). rl_window r dvd timestamp (au_bucket q) - offset) \<and>
     au_bucket q = timestamp (au_bucket q) * SECOND \<and>
     au_dedupe q = assessment_key (au_rule q) (au_version q) (au_resource q) (au_bucket q) \<and>
     backed E s r (au_resource q) (au_bucket q) (au_events q)"

lemma same_window:
  assumes "justified E s a" "request_justified E s r q" "as_dedupe a = au_dedupe q"
  shows "as_rule a = rl_id r \<and> as_version a = rl_version r \<and> as_window a = rl_window r \<and> as_resource a = au_resource q \<and>
    as_bucket a = au_bucket q \<and> backed E s r (as_resource a) (as_bucket a) (as_events a)"
proof -
  obtain r' where r': "r' \<in> set all_rules" "as_rule a = rl_id r'" "as_version a = rl_version r'" "as_window a = rl_window r'"
    "as_bucket a = timestamp (as_bucket a) * SECOND"
    "as_dedupe a = assessment_key (as_rule a) (as_version a) (as_resource a) (as_bucket a)"
    "backed E s r' (as_resource a) (as_bucket a) (as_events a)"
    using assms(1) by (auto simp: justified_def)
  have q: "r \<in> set all_rules" "au_rule q = rl_id r" "au_version q = rl_version r" "au_bucket q = timestamp (au_bucket q) * SECOND"
    "au_dedupe q = assessment_key (au_rule q) (au_version q) (au_resource q) (au_bucket q)"
    using assms(2) by (auto simp: request_justified_def)
  have "assessment_key (rl_id r') (rl_version r') (as_resource a) (as_bucket a) =
      assessment_key (rl_id r) (rl_version r) (au_resource q) (au_bucket q)"
    using assms(3) r'(2,3,6) q(2,3,5) by simp
  then have eq: "rl_id r' = rl_id r" "as_resource a = au_resource q" "timestamp (as_bucket a) = timestamp (au_bucket q)"
    using assessment_key_inject rule_names [OF r'(1)] rule_names [OF q(1)] by blast+
  then have "r' = r" using rule_unique r'(1) q(1) by blast
  moreover have "as_bucket a = au_bucket q" using r'(5) q(4) eq(3) by simp
  ultimately show ?thesis using r' eq by blast
qed

lemma refreshed_justified:
  assumes "justified E s a" "request_justified E s r q" "as_dedupe a = au_dedupe q"
  shows "justified E s (refreshed q a) \<and> same_finding a (refreshed q a)"
proof
  note same = same_window [OF assms]
  have "backed E s r (au_resource q) (au_bucket q) (au_events q)" using assms(2) by (simp add: request_justified_def)
  then have b: "backed E s r (as_resource a) (as_bucket a) (au_events q)" using same by simp
  have "backed E s r (as_resource a) (as_bucket a) (as_events (refreshed q a))"
  proof (rule backed_union [OF b])
    show "backed E s r (as_resource a) (as_bucket a) (as_events a)" using same by blast
    show "set (as_events (refreshed q a)) = set (au_events q) \<union> set (as_events a)"
      by (auto simp: refreshed_def add_missing_def)
  qed
  moreover have "r \<in> set all_rules" using assms(2) by (simp add: request_justified_def)
  moreover have "\<exists>offset \<in> set (grid_offsets (rl_window r)). rl_window r dvd timestamp (as_bucket a) - offset"
    using assms(2) same by (simp add: request_justified_def)
  moreover have "as_bucket a = timestamp (as_bucket a) * SECOND"
    "as_dedupe a = assessment_key (as_rule a) (as_version a) (as_resource a) (as_bucket a)"
    using assms(1) by (auto simp: justified_def)
  ultimately show "justified E s (refreshed q a)" using same unfolding justified_def refreshed_def by auto
  show "same_finding a (refreshed q a)" by (auto simp: same_finding_def refreshed_def add_missing_def)
qed

lemma same_findings_ok:
  assumes "detection_ok E s" "b_events t = b_events s" "b_assessments t = map f (b_assessments s)"
    "\<And>a. a \<in> set (b_assessments s) \<Longrightarrow> justified E s (f a) \<and> same_finding a (f a)"
  shows "detection_ok E t \<and> findings_kept s t"
proof
  have just: "justified E t a = justified E s a" for a using assms(2) by (simp add: justified_def backed_def)
  have "map as_dedupe (map f (b_assessments s)) = map as_dedupe (b_assessments s)" using assms(4) by (auto simp: same_finding_def)
  then show "detection_ok E t" using assms just unfolding detection_ok_def by (auto simp del: map_map)
  show "findings_kept s t" using assms unfolding findings_kept_def by auto
qed

lemma assessment_body_ok:
  assumes ok: "detection_ok E s" and q: "request_justified E s r q" and run: "assessment_body q s = Inr (i, t)"
  shows "detection_ok E t \<and> findings_kept s t \<and> b_events t = b_events s \<and> b_candidates t = b_candidates s \<and>
    b_incidents t = b_incidents s \<and> (\<exists>a \<in> set (b_assessments t). as_dedupe a = au_dedupe q \<and> as_count a = au_count q)"
proof (cases "List.find (\<lambda>a. as_dedupe a = au_dedupe q) (b_assessments s)")
  case (Some a)
  let ?f = "\<lambda>r. if as_dedupe r = au_dedupe q then refreshed q r else r"
  have t: "t = s\<lparr>b_assessments := map ?f (b_assessments s)\<rparr>" using run Some by (auto simp: assessment_body_def split: if_split_asm)
  have "justified E s (?f b) \<and> same_finding b (?f b)" if "b \<in> set (b_assessments s)" for b
    using ok that refreshed_justified [OF _ q, of b] by (auto simp: detection_ok_def)
  then have "detection_ok E t \<and> findings_kept s t" by (intro same_findings_ok [OF ok, of t ?f]) (simp_all add: t)
  moreover have a: "a \<in> set (b_assessments s)" "as_dedupe a = au_dedupe q" using Some by (auto simp: find_Some_iff)
  then have "refreshed q a \<in> set (b_assessments t)" by (auto simp: t intro: rev_image_eqI)
  then have "\<exists>b \<in> set (b_assessments t). as_dedupe b = au_dedupe q \<and> as_count b = au_count q"
    using a(2) by (intro bexI [of _ "refreshed q a"]) (simp_all add: refreshed_def)
  ultimately show ?thesis by (simp add: t)
next
  case None
  have t: "t = s\<lparr>b_next := b_next s + 1, b_assessments := b_assessments s @ [new_assessment (b_next s) q]\<rparr>"
    using run None by (auto simp: assessment_body_def b_fresh_def split: if_split_asm)
  let ?a = "new_assessment (b_next s) q"
  have "backed E s r (au_resource q) (au_bucket q) (add_missing (au_events q) [])"
    using q backed_union [of E s r "au_resource q" "au_bucket q" "au_events q" "au_events q"]
    by (auto simp: request_justified_def add_missing_def)
  then have new: "justified E s ?a" using q unfolding justified_def request_justified_def new_assessment_def by auto
  have just: "justified E t a = justified E s a" for a by (simp add: justified_def backed_def t)
  have "au_dedupe q \<notin> as_dedupe ` set (b_assessments s)" using None by (auto simp: find_None_iff)
  then have "detection_ok E t" using ok new just unfolding detection_ok_def by (auto simp: t new_assessment_def)
  moreover have "findings_kept s t" unfolding findings_kept_def t by (simp) (meson same_finding_refl)
  ultimately show ?thesis by (simp add: t new_assessment_def)
qed

section \<open>An evaluation only adds findings\<close>

abbreviation detection_sound :: "engine_env \<Rightarrow> (bus db, msg, 'a) io \<Rightarrow> bool" where
  "detection_sound E \<equiv> sound_for (detection_ok E) findings_kept"

abbreviation detection_from :: "engine_env \<Rightarrow> bus \<Rightarrow> (bus db, msg, 'a) io \<Rightarrow> bool" where
  "detection_from E \<equiv> sound_from (detection_ok E) findings_kept"

lemma unchanged_findings:
  assumes "detection_ok E s" "b_events t = b_events s" "b_assessments t = b_assessments s"
  shows "detection_ok E t \<and> findings_kept s t"
  by (rule same_findings_ok [of E s t id]) (use assms in \<open>auto simp: detection_ok_def\<close>)

lemma persist_body_rows:
  assumes "persist_body q s = Inr (i, t)"
  shows "b_events t = b_events s \<and> b_assessments t = b_assessments s \<and> cq_key q \<in> ca_key ` set (b_candidates t) \<and>
    ca_key ` set (b_candidates s) \<subseteq> ca_key ` set (b_candidates t)"
proof (cases "newest (filter (extendable q) (b_candidates s))")
  case (Some c)
  let ?f = "\<lambda>x. if ca_id x = ca_id c then extended q x else x"
  have t: "b_candidates t = map ?f (b_candidates s)" "b_events t = b_events s" "b_assessments t = b_assessments s"
    using assms Some by (auto simp: persist_body_def split: if_split_asm)
  have "map ca_key (b_candidates t) = map ca_key (b_candidates s)" by (simp add: t(1) extended_def)
  then have "ca_key ` set (b_candidates t) = ca_key ` set (b_candidates s)" by (metis list.set_map)
  moreover have "c \<in> set (b_candidates s)" "ca_key c = cq_key q" using newest_Some [OF Some] by (auto simp: extendable_def)
  ultimately show ?thesis using t(2,3) by (metis image_eqI order_refl)
next
  case None
  then show ?thesis using assms by (auto simp: persist_body_def b_fresh_def split: if_split_asm)
qed

lemma detection_sound_leaf: "detection_sound E (io_return x)" "detection_sound E (tx_read f)"
  by (simp add: detection_tables.sound_leaf)
    (auto simp: tx_read_def intro: detection_tables.sound_of_tx findings_kept_refl)

lemma detection_sound_link: "detection_sound E (link_incident a c)"
proof -
  have "detection_sound E (link_security_assessment_incident a i)" for i
    unfolding link_security_assessment_incident_def tx_run_def
  proof (rule detection_tables.sound_of_tx)
    fix s :: bus and x t
    let ?f = "\<lambda>r. if as_id r = a \<and> as_incident r = None then r\<lparr>as_incident := Some i\<rparr> else r"
    assume ok: "detection_ok E s" and t: "Inr ((), s\<lparr>b_assessments := map ?f (b_assessments s)\<rparr>) = Inr (x, t)"
    have "justified E s (?f b) \<and> same_finding b (?f b)" if "b \<in> set (b_assessments s)" for b
      using ok that by (auto simp: detection_ok_def justified_def same_finding_def)
    then show "detection_ok E t \<and> findings_kept s t" using t by (intro same_findings_ok [OF ok, of t ?f]) auto
  qed
  then have one: "detection_sound E (case i of Some incident \<Rightarrow> link_security_assessment_incident a incident | None \<Rightarrow> io_return ())" for i
    by (cases i) (simp_all only: option.case detection_tables.sound_leaf)
  show ?thesis unfolding link_incident_def get_incident_id_for_candidate_def
    by (intro sound_ignore detection_tables.sound_seq detection_sound_leaf one)
qed

lemma detection_sound_correlation: "detection_sound E (persist_correlation q)"
  unfolding persist_correlation_def
  by (rule detection_tables.sound_of_tx) (use persist_body_rows unchanged_findings in blast)

definition request_of ::
  "any_rule \<Rightarrow> string \<Rightarrow> int \<Rightarrow> uuid list \<Rightarrow> int \<Rightarrow> int \<Rightarrow> string \<Rightarrow> int \<Rightarrow> msg \<Rightarrow> reputation option \<Rightarrow> assessment_upsert" where
  "request_of r resource bucket events first_seen last_seen severity confidence summary intel =
     \<lparr> au_rule = rl_id r, au_version = rl_version r, au_engine = ENGINE_VERSION,
       au_dedupe = assessment_key (rl_id r) (rl_version r) resource bucket, au_resource = resource, au_severity = severity,
       au_confidence = confidence, au_summary = summary, au_count = i32_len events, au_window = rl_window r, au_bucket = bucket,
       au_first = first_seen, au_last = last_seen, au_events = events, au_intel = intel \<rparr>"

definition window_justified :: "engine_env \<Rightarrow> bus \<Rightarrow> any_rule \<Rightarrow> string \<Rightarrow> int \<Rightarrow> uuid list \<Rightarrow> bool" where
  "window_justified E s r resource bucket events \<longleftrightarrow> r \<in> set all_rules \<and>
     (\<exists>offset \<in> set (grid_offsets (rl_window r)). rl_window r dvd timestamp bucket - offset) \<and>
     bucket = timestamp bucket * SECOND \<and> backed E s r resource bucket events"

lemma request_of_justified:
  "request_justified E s r (request_of r c b es f l sev conf summ intel) = window_justified E s r c b es"
  by (auto simp: request_justified_def window_justified_def request_of_def)

lemma persist_from:
  assumes ok: "detection_ok E s" and w: "window_justified E s r c b es"
  shows "detection_from E s (persist_assessment_and_incident E (rl_id r) (rl_version r) kind (rl_window r) c b stop es f l sev conf
    summ csumm incident)"
  unfolding persist_assessment_and_incident_def bucket_threat_intel_hit_details_def persist_security_assessment_def
proof (rule detection_tables.from_tx [OF ok])
  fix intel t
  assume "and_then (intel_body (ee_text E) kind c b stop s) (\<lambda>r. Inr (r, s)) = Inr (intel, t)"
  then have t: "t = s" by (auto simp: and_then_Inr_iff)
  have rest: "detection_from E u (if \<not> incident then io_return () else io_bind (persist_correlation q) (link_incident i))"
    if "detection_ok E u" for u q i
    using that detection_sound_link detection_tables.from_leaf(1) detection_tables.sound_seq [OF detection_sound_correlation, of E "link_incident i" q]
    by (auto simp: detection_tables.sound_for_from)
  have "detection_from E s (io_bind (tx (assessment_body (request_of r c b es f l sev conf summ intel))) (\<lambda>assessment.
      if \<not> incident then io_return () else io_bind (persist_correlation q) (link_incident assessment)))" for q
  proof (rule detection_tables.from_tx [OF ok])
    fix i u assume run: "assessment_body (request_of r c b es f l sev conf summ intel) s = Inr (i, u)"
    have "detection_ok E u \<and> findings_kept s u" using assessment_body_ok [OF ok _ run, of r] w by (simp add: request_of_justified)
    then show "detection_ok E u \<and> findings_kept s u \<and>
        detection_from E u (if \<not> incident then io_return () else io_bind (persist_correlation q) (link_incident i))"
      using rest by blast
  qed
  then show "detection_ok E t \<and> findings_kept s t \<and> detection_from E t (io_bind (tx (assessment_body
      \<lparr> au_rule = rl_id r, au_version = rl_version r, au_engine = ENGINE_VERSION,
         au_dedupe = assessment_key (rl_id r) (rl_version r) c b, au_resource = c, au_severity = sev,
         au_confidence = conf, au_summary = summ, au_count = i32_len es, au_window = rl_window r, au_bucket = b,
         au_first = f, au_last = l, au_events = es, au_intel = intel \<rparr>)) (\<lambda>assessment.
     if \<not> incident then io_return ()
     else io_bind (persist_correlation \<lparr> cq_key = ''security-assessment:'' @ rl_id r @ '':'' @ c,
         cq_confidence = conf, cq_severity = sev, cq_summary = csumm, cq_first = f, cq_last = l,
         cq_window = CANDIDATE_EXTENSION_WINDOW, cq_events = es, cq_relationships = [] \<rparr>) (\<lambda>candidate.
       link_incident assessment candidate)))"
    using ok t findings_kept_refl by (simp add: request_of_def)
qed

text \<open>The members of a window are the evidence of its assessment.\<close>

lemma window_aligned:
  assumes "documented_clock E" "plausible t" "r \<in> set all_rules" "offset \<in> set (grid_offsets (rl_window r))"
  defines "b \<equiv> bucket_start E t (rl_window r) offset"
  shows "b = timestamp b * SECOND \<and> rl_window r dvd timestamp b - offset"
proof -
  have "b = grid_start (timestamp t) (rl_window r) offset * SECOND" unfolding b_def
    by (rule bucket_start_grid [OF assms(1,2)]) (use rule_names(3) [OF assms(3)] assms(4) in \<open>auto simp: grid_offsets_def\<close>)
  then show ?thesis using grid_start_aligned by simp
qed

lemma window_rows_justified:
  fixes c :: string and n :: nat
  assumes "documented_clock E" "detection_ok E s" "plausible t" "r \<in> set all_rules" "offset \<in> set (grid_offsets (rl_window r))"
  defines "b \<equiv> bucket_start E t (rl_window r) offset"
  defines "rows \<equiv> bucket_rows (ee_text E) (rl_type r) c b (b + rl_window r * SECOND) (rl_status r) n s"
  assumes "enough E r (set rows)"
  shows "window_justified E s r c b (map ev_id rows)"
proof -
  have "backed E s r c b (map ev_id rows)" unfolding backed_def
    using assms(8) bucket_rows_member [of _ "ee_text E" "rl_type r" c b "b + rl_window r * SECOND" "rl_status r" n s]
    by (intro exI [of _ "set rows"]) (auto simp: rows_def evidence_def)
  then show ?thesis using window_aligned [OF assms(1,3,4,5)] assms(4,5) unfolding window_justified_def b_def by blast
qed

lemma rows_card:
  assumes "detection_ok E s"
  shows "card (set (bucket_rows D kind c b stop f n s)) = length (bucket_rows D kind c b stop f n s)"
proof -
  have "distinct (map ev_id (bucket_rows D kind c b stop f n s))"
    by (rule bucket_rows_distinct) (use assms in \<open>simp add: detection_ok_def\<close>)
  then show ?thesis by (simp add: distinct_card distinct_map)
qed

lemma detection_sound_window:
  assumes "documented_clock E" "plausible t" "r \<in> set RULES" "offset \<in> set (grid_offsets (cr_window r))"
  shows "detection_sound E (evaluate_window E r c t offset)"
  unfolding detection_tables.sound_for_from
proof (intro allI impI)
  fix s assume ok: "detection_ok E s"
  let ?b = "bucket_start E t (cr_window r) offset"
  let ?rows = "bucket_rows (ee_text E) (cr_type r) c ?b (?b + cr_window r * SECOND) (cr_status r) (nat (clamp 1 1000 (cr_max r))) s"
  have "Inl r \<in> set all_rules" using assms(3) by (simp add: all_rules_def)
  then have "window_justified E s (Inl r) c ?b (map ev_id ?rows)" if "cr_threshold r \<le> length ?rows"
    using window_rows_justified [OF assms(1) ok assms(2), of "Inl r" offset c "nat (clamp 1 1000 (cr_max r))"]
      assms(4) that rows_card [OF ok] by (simp add: rl_defs)
  then have fire: "detection_from E s (persist_assessment_and_incident E (cr_id r) (cr_version r) (cr_type r) (cr_window r) c ?b
      stop (map ev_id ?rows) f l sev conf summ csumm incident)" if "cr_threshold r \<le> length ?rows" for stop f l sev conf summ csumm incident
    using persist_from [OF ok, of "Inl r"] that by (simp add: rl_defs)
  have quiet: "detection_from E s (io_bind (yields r c b stop) (\<lambda>quiet. if quiet then io_return () else m))"
    if "detection_from E s m" for b stop and m :: "(bus db, msg, unit) io"
  proof (cases "cr_yields r")
    case None
    then have "io_bind (yields r c b stop) (\<lambda>quiet. if quiet then io_return () else m) = m"
      by (auto simp: yields_def io_bind_def io_return_def)
    then show ?thesis using that by simp
  next
    case (Some other)
    show ?thesis unfolding yields_def Some option.case resource_has_assessment_overlapping_def
      by (rule detection_tables.from_read [OF ok]) (use that ok in \<open>auto intro: detection_tables.from_leaf\<close>)
  qed
  have members: "map fst (map (\<lambda>e. (ev_id e, ev_occurred e)) rows) = map ev_id rows" for rows by simp
  have fired: "detection_from E s (io_bind (yields r c ?b (?b + cr_window r * SECOND)) (\<lambda>quiet. if quiet then io_return () else
      case ends t (map ev_occurred ?rows) of (first_seen, last_seen) \<Rightarrow>
        persist_assessment_and_incident E (cr_id r) (cr_version r) (cr_type r) (cr_window r) c ?b (?b + cr_window r * SECOND)
            (map ev_id ?rows) first_seen last_seen (severity_for_count (length ?rows) (cr_threshold r))
            (confidence_for_count (length ?rows) (cr_threshold r)) (with_offset (count_summary r (length ?rows)) offset)
            (count_summary r (length ?rows)) (cr_incident r)))" if "\<not> length ?rows < cr_threshold r"
    using that by (intro quiet) (simp add: fire case_prod_unfold)
  show "detection_from E s (evaluate_window E r c t offset)"
    unfolding evaluate_window_def list_events_for_bucket_limited_def Let_def
    by (rule detection_tables.from_read [OF ok])
      (use fired in \<open>simp add: o_def detection_tables.from_leaf [OF ok] cong: if_cong\<close>)
qed

lemma distinct_values:
  "length (remdups (List.map_filter (\<lambda>p. snd (snd p)) (map (\<lambda>e. (ev_id e, ev_occurred e, f e)) rows))) =
   card {v. \<exists>e \<in> set rows. f e = Some v}"
proof -
  have "set (List.map_filter (\<lambda>p. snd (snd p)) (map (\<lambda>e. (ev_id e, ev_occurred e, f e)) rows)) = {v. \<exists>e \<in> set rows. f e = Some v}"
    by (induction rows) (auto simp: List.map_filter_simps split: option.split)
  then show ?thesis by (metis length_remdups_card_conv)
qed

lemma detection_sound_scan:
  assumes "documented_clock E" "plausible t" "r \<in> set DISTINCT_VALUE_RULES" "offset \<in> set (grid_offsets (dr_window r))"
  shows "detection_sound E (scan_window E r c t offset)"
  unfolding detection_tables.sound_for_from
proof (intro allI impI)
  fix s assume ok: "detection_ok E s"
  let ?b = "bucket_start E t (dr_window r) offset"
  let ?rows = "bucket_rows (ee_text E) (dr_type r) c ?b (?b + dr_window r * SECOND) (dr_status r) 1000 s"
  let ?found = "card {v. \<exists>e \<in> set ?rows. field_text (ee_text E) (ev_payload e) (dr_field r) = Some v}"
  have "Inr r \<in> set all_rules" using assms(3) by (simp add: all_rules_def)
  then have "window_justified E s (Inr r) c ?b (map ev_id ?rows)" if "dr_threshold r \<le> ?found"
    using window_rows_justified [OF assms(1) ok assms(2), of "Inr r" offset c 1000] assms(4) that by (simp add: rl_defs)
  then have fire: "detection_from E s (persist_assessment_and_incident E (dr_id r) (dr_version r) (dr_type r) (dr_window r) c ?b
      stop (map ev_id ?rows) f l sev conf summ csumm incident)" if "\<not> ?found < dr_threshold r" for stop f l sev conf summ csumm incident
    using persist_from [OF ok, of "Inr r"] that by (simp add: rl_defs)
  show "detection_from E s (scan_window E r c t offset)"
    unfolding scan_window_def list_events_for_bucket_with_field_filtered_def Let_def
    by (rule detection_tables.from_read [OF ok])
      (use fire in \<open>simp add: o_def distinct_values case_prod_unfold detection_tables.from_leaf [OF ok] cong: if_cong\<close>)
qed

lemma detection_sound_each: "(\<And>x. x \<in> set xs \<Longrightarrow> detection_sound E (f x)) \<Longrightarrow> detection_sound E (each f xs)"
  by (induction xs) (simp_all only: each.simps detection_sound_leaf, auto intro: detection_tables.sound_seq)

lemma detection_sound_rules:
  assumes "documented_clock E" "plausible t"
  shows "r \<in> set RULES \<Longrightarrow> detection_sound E (evaluate_rule E r t correlation)"
    "d \<in> set DISTINCT_VALUE_RULES \<Longrightarrow> detection_sound E (evaluate_scan_rule E d t correlation)"
  unfolding evaluate_rule_def evaluate_scan_rule_def
  by (cases "grouped_by correlation"; simp only: option.case detection_sound_leaf;
      intro detection_sound_each detection_sound_window [OF assms] detection_sound_scan [OF assms]; assumption)+

lemma detection_sound_event:
  assumes "documented_clock E" "plausible (ev_occurred e)"
  shows "detection_sound E (process_event E e)"
  unfolding process_event_def
  by (intro detection_tables.sound_seq detection_sound_each)
    (auto simp: detection_sound_rules [OF assms] detection_tables.sound_leaf)

lemma ensure_body_rows:
  assumes "ensure_event_consumer name (os, s) = (r, (os', t))"
  shows "b_events t = b_events s \<and> b_assessments t = b_assessments s"
  using assms unfolding ensure_event_consumer_def
  by (rule tx_cases) (auto simp: b_fresh_def split: option.splits)

lemma detection_sound_bus:
  "detection_sound E (ensure_event_consumer name)" "detection_sound E (complete_event_delivery i name success)"
  "detection_sound E (heartbeat_event_consumer name)"
proof -
  show "detection_sound E (ensure_event_consumer name)" unfolding sound_for_def using ensure_body_rows unchanged_findings by blast
  have "detection_ok E (s\<lparr>b_deliveries := ds\<rparr>) \<and> findings_kept s (s\<lparr>b_deliveries := ds\<rparr>)" if "detection_ok E s" for s ds
    by (rule unchanged_findings [OF that]) simp_all
  then show "detection_sound E (complete_event_delivery i name success)" unfolding complete_event_delivery_def
    by (intro detection_tables.sound_seq detection_tables.sound_of_tx) (auto simp: detection_tables.sound_leaf)
  show "detection_sound E (heartbeat_event_consumer name)" unfolding heartbeat_event_consumer_def tx_run_def
    by (rule detection_tables.sound_of_tx) (auto intro: findings_kept_refl)
qed

lemma detection_sound_delivery:
  assumes "documented_clock E" "plausible (ev_occurred (snd de))"
  shows "detection_sound E (handle_delivery E de)"
  unfolding sound_for_def
proof (intro allI impI)
  fix os s r os' t
  assume run: "detection_ok E s \<and> handle_delivery E de (os, s) = (r, (os', t))"
  obtain x os1 u where x: "process_event E (snd de) (os, s) = (x, (os1, u))" by (cases "process_event E (snd de) (os, s)") auto
  have one: "detection_ok E u \<and> findings_kept s u" using detection_tables.sound_run [OF detection_sound_event [OF assms] _ x] run by blast
  have "detection_sound E (io_ignore (complete_event_delivery (dl_id (fst de)) ''security-engine'' (is_ok x)))"
    by (intro sound_ignore detection_sound_bus)
  moreover have "io_ignore (complete_event_delivery (dl_id (fst de)) ''security-engine'' (is_ok x)) (os1, u) = (r, (os', t))"
    using run x by (simp add: handle_delivery_def)
  ultimately show "detection_ok E t \<and> findings_kept s t"
    using detection_tables.sound_run one findings_kept_trans by blast
qed

lemma detection_sound_tick:
  assumes "documented_clock E"
  shows "detection_sound E (engine_tick E)"
proof -
  have rows: "detection_from E s (io_bind (tx (claim_deliveries_body c n)) (\<lambda>rows.
      io_bind (io_bind (heartbeat_event_consumer name) (\<lambda>_. io_return rows)) (each (handle_delivery E))))"
    if ok: "detection_ok E s" for s c n name
  proof (rule detection_tables.from_tx [OF ok])
    fix rows t assume run: "claim_deliveries_body c n s = Inr (rows, t)"
    then have t: "b_events t = b_events s" "b_assessments t = b_assessments s" "snd ` set rows \<subseteq> set (b_events s)"
      by (auto simp: claim_deliveries_body_def Let_def)
    then have next_ok: "detection_ok E t \<and> findings_kept s t" using unchanged_findings [OF ok] by blast
    have likely: "plausible (ev_occurred (snd de))" if "de \<in> set rows" for de
      using ok t(3) that by (auto simp: detection_ok_def)
    have all: "detection_sound E (each (handle_delivery E) rows)"
      by (rule detection_sound_each) (rule detection_sound_delivery [OF assms likely])
    have "io_bind (io_bind (heartbeat_event_consumer name) (\<lambda>_. io_return rows)) (each (handle_delivery E)) =
        io_bind (heartbeat_event_consumer name) (\<lambda>_. each (handle_delivery E) rows)"
      by (auto simp: io_bind_def fun_eq_iff io_return_def split: prod.split sum.split)
    moreover have "detection_sound E (io_bind (heartbeat_event_consumer name) (\<lambda>_. each (handle_delivery E) rows))"
      by (intro detection_tables.sound_seq detection_sound_bus all)
    ultimately show "detection_ok E t \<and> findings_kept s t \<and> detection_from E t (io_bind (io_bind (heartbeat_event_consumer name)
        (\<lambda>_. io_return rows)) (each (handle_delivery E)))"
      using next_ok by (simp add: detection_tables.sound_for_from)
  qed
  have assoc: "io_bind (io_bind a f) g = io_bind a (\<lambda>x. io_bind (f x) g)" for a :: "(bus db, msg, 'x) io" and f :: "'x \<Rightarrow> (bus db, msg, 'y) io"
      and g :: "'y \<Rightarrow> (bus db, msg, 'z) io"
    by (auto simp: io_bind_def fun_eq_iff split: prod.split sum.split)
  have claim: "detection_sound E (io_bind (claim_event_deliveries ''security-engine'' 50) (each (handle_delivery E)))"
    unfolding claim_event_deliveries_def assoc
    by (rule detection_tables.sound_seq [OF detection_sound_bus(1)])
      (use rows in \<open>auto simp: detection_tables.sound_for_from assoc\<close>)
  show ?thesis unfolding engine_tick_def
    by (rule detection_tables.sound_seq) (intro sound_ignore detection_sound_bus, intro sound_ignore claim)
qed

section \<open>The engine beside the other services\<close>

text \<open>
  Between two ticks the sensors' events arrive, and the worker removes the assessments past their retention.  Two
  things bound the latter: \<^verbatim>\<open>cutoff\<close> is a time no run's cutoff was after, and \<^verbatim>\<open>backs_request\<close> holds of assessments
  that backed a real request whenever it ran.
\<close>

definition events_arrive :: "bus \<Rightarrow> bus \<Rightarrow> bool" where
  "events_arrive s t \<longleftrightarrow> b_assessments t = b_assessments s \<and> set (b_events s) \<subseteq> set (b_events t) \<and>
     distinct (map ev_id (b_events t)) \<and> (\<forall>e \<in> set (b_events t). plausible (ev_occurred e))"

inductive detection_step :: "engine_env \<Rightarrow> (uuid \<Rightarrow> bool) \<Rightarrow> int \<Rightarrow> bus \<Rightarrow> bus \<Rightarrow> bool"
  for E :: engine_env and backs_request :: "uuid \<Rightarrow> bool" and cutoff :: int where
  tick: "engine_tick E (os, s) = (r, (os', t)) \<Longrightarrow> detection_step E backs_request cutoff s t"
| arrival: "events_arrive s t \<Longrightarrow> detection_step E backs_request cutoff s t"
| retention: "delete_expired_security_assessments backs older_than (os, s) = (n, (os', t)) \<Longrightarrow> older_than \<le> cutoff \<Longrightarrow>
    (\<And>i. backs_request i \<Longrightarrow> backs i) \<Longrightarrow> detection_step E backs_request cutoff s t"

lemma retention_run:
  assumes "delete_expired_security_assessments backs older_than (os, s) = (n, (os', t))"
  shows "t = s \<or> t = s\<lparr>b_assessments := filter (\<lambda>a. \<not> expired_assessment backs older_than a) (b_assessments s)\<rparr>"
  using assms unfolding delete_expired_security_assessments_def Let_def by (rule tx_cases) auto

lemma fewer_assessments_ok: "detection_ok E s \<Longrightarrow> detection_ok E (s\<lparr>b_assessments := filter P (b_assessments s)\<rparr>)"
  by (simp add: detection_ok_def justified_def backed_def distinct_map_filter)

lemma detection_step_ok:
  assumes "documented_clock E" "detection_step E real c s t" "detection_ok E s"
  shows "detection_ok E t \<and> set (b_events s) \<subseteq> set (b_events t) \<and>
    (\<forall>a \<in> set (b_assessments s). (\<exists>b \<in> set (b_assessments t). same_finding a b) \<or> expired_assessment real c a)"
  using assms(2)
proof cases
  case (tick os r os')
  then have "detection_ok E t \<and> findings_kept s t"
    using detection_tables.sound_run [OF detection_sound_tick [OF assms(1)] assms(3)] by blast
  then show ?thesis unfolding findings_kept_def by blast
next
  case arrival
  then have "justified E t a" if "justified E s a" for a
    using that backed_mono [of E s _ _ _ _ t] unfolding justified_def events_arrive_def by blast
  then have "detection_ok E t" using assms(3) arrival unfolding detection_ok_def events_arrive_def by auto
  moreover have "\<exists>b \<in> set (b_assessments t). same_finding a b" if "a \<in> set (b_assessments s)" for a
    using that arrival unfolding events_arrive_def by (metis same_finding_refl)
  ultimately show ?thesis using arrival unfolding events_arrive_def by blast
next
  case (retention backs older_than os n os')
  consider "t = s" | "t = s\<lparr>b_assessments := filter (\<lambda>a. \<not> expired_assessment backs older_than a) (b_assessments s)\<rparr>"
    using retention_run [OF retention(1)] by blast
  then show ?thesis
  proof cases
    case 1
    then show ?thesis using assms(3) same_finding_refl by blast
  next
    case 2
    have "expired_assessment real c a" if "expired_assessment backs older_than a" for a
      using that retention(2,3) by (auto simp: expired_assessment_def)
    then have "(\<exists>b \<in> set (b_assessments t). same_finding a b) \<or> expired_assessment real c a" if "a \<in> set (b_assessments s)" for a
      using that same_finding_refl [of a] 2 by (cases "expired_assessment backs older_than a") auto
    then show ?thesis using fewer_assessments_ok [OF assms(3)] 2 by simp
  qed
qed

lemma detection_steps_ok:
  assumes "(detection_step E real c)\<^sup>*\<^sup>* s t" "documented_clock E" "detection_ok E s"
  shows "detection_ok E t \<and> set (b_events s) \<subseteq> set (b_events t) \<and>
    (\<forall>a \<in> set (b_assessments s). (\<exists>b \<in> set (b_assessments t). same_finding a b) \<or>
       (\<exists>u. (detection_step E real c)\<^sup>*\<^sup>* s u \<and> (\<exists>b \<in> set (b_assessments u). same_finding a b \<and> expired_assessment real c b)))"
  using assms(1)
proof (induction rule: rtranclp_induct)
  case base
  then show ?case using assms(3) same_finding_refl by blast
next
  case (step t v)
  then have next_ok: "detection_ok E v \<and> set (b_events t) \<subseteq> set (b_events v) \<and>
      (\<forall>a \<in> set (b_assessments t). (\<exists>b \<in> set (b_assessments v). same_finding a b) \<or> expired_assessment real c a)"
    using detection_step_ok [OF assms(2)] by blast
  have "(\<exists>b \<in> set (b_assessments v). same_finding a b) \<or>
       (\<exists>u. (detection_step E real c)\<^sup>*\<^sup>* s u \<and> (\<exists>b \<in> set (b_assessments u). same_finding a b \<and> expired_assessment real c b))"
    if a: "a \<in> set (b_assessments s)" for a
  proof (cases "\<exists>b \<in> set (b_assessments t). same_finding a b")
    case True
    then obtain b where b: "b \<in> set (b_assessments t)" "same_finding a b" by blast
    show ?thesis
    proof (cases "expired_assessment real c b")
      case True
      then show ?thesis using b step.hyps(1) by blast
    next
      case False
      then obtain d where "d \<in> set (b_assessments v)" "same_finding b d" using next_ok b(1) by blast
      then show ?thesis using same_finding_trans [OF b(2)] by blast
    qed
  next
    case False
    then show ?thesis using step.IH a by blast
  qed
  then show ?case using next_ok step.IH by blast
qed

text \<open>C12 Every assessment is justified, and leaves only by retention.  Whatever the engine, the sensors and the worker
  do and whatever transactions fail, each assessment names one of the rules with its version and its window, starts on
  one of the two grids, and the events it lists are stored events of that type, source, status and window, as many as
  the threshold asks for (as many different paths, for the scan); no two assessments share a rule, version, source and
  window start; none loses an event or changes the incident it is linked to.  One that is no longer there was, when it
  went, linked to no incident, last active before the cutoff of the retention and backing no real request; so one that
  is linked to an incident or backs a real request stays.\<close>

theorem assessments_justified:
  assumes "(detection_step E backs_request cutoff)\<^sup>*\<^sup>* s t" "documented_clock E" "detection_ok E s"
  shows "detection_ok E t \<and> set (b_events s) \<subseteq> set (b_events t) \<and>
    (\<forall>a \<in> set (b_assessments s). (\<exists>b \<in> set (b_assessments t). same_finding a b) \<or>
       (\<exists>u. (detection_step E backs_request cutoff)\<^sup>*\<^sup>* s u \<and>
          (\<exists>b \<in> set (b_assessments u). same_finding a b \<and> expired_assessment backs_request cutoff b))) \<and>
    (\<forall>a \<in> set (b_assessments s). as_incident a \<noteq> None \<or> backs_request (as_id a) \<longrightarrow>
       (\<exists>b \<in> set (b_assessments t). same_finding a b))"
proof -
  note run = detection_steps_ok [OF assms]
  have "\<exists>b \<in> set (b_assessments t). same_finding a b"
    if "a \<in> set (b_assessments s)" "as_incident a \<noteq> None \<or> backs_request (as_id a)" for a
  proof -
    have "\<not> expired_assessment backs_request cutoff b" if "same_finding a b" for b
      using that \<open>as_incident a \<noteq> None \<or> backs_request (as_id a)\<close> by (auto simp: same_finding_def expired_assessment_def)
    then show ?thesis using run that(1) by blast
  qed
  then show ?thesis using run by blast
qed

section \<open>No burst escapes\<close>

text \<open>The reputation columns an ingested event carries can be read back (\<^verbatim>\<open>record_security_event\<close> writes all three).\<close>

definition readable_hits :: "engine_env \<Rightarrow> bus \<Rightarrow> bool" where
  "readable_hits E s \<longleftrightarrow> (\<forall>e \<in> set (b_events s). field_text (ee_text E) (ev_metadata e) ''threat_intel_hit'' = Some ''true'' \<longrightarrow>
     (\<exists>src c l. hit_columns (ee_text E) e = Inr (Some src, Some c, Some l)))"

lemma collect_full:
  assumes "\<forall>x \<in> set xs. \<exists>src c l. f x = Inr (Some src, Some c, Some l)"
  shows "\<exists>ys. collect_results f xs = Inr ys \<and> (\<forall>y \<in> set ys. \<exists>src c l. y = (Some src, Some c, Some l))"
  using assms by (induction xs) fastforce+

lemma best_hit_full:
  assumes "\<forall>y \<in> set ys. \<exists>src c l. y = (Some src, Some c, Some l)"
  shows "\<exists>h. best_hit ys = Inr h"
proof (cases "sort_key (\<lambda>(_, c, _). map_option uminus c) (sort_key (\<lambda>(_, _, l). map_option uminus l) ys)")
  case Nil
  then show ?thesis by (simp add: best_hit_def)
next
  case (Cons y rest)
  then have "set ys = set (y # rest)" by (metis set_sort)
  then obtain src c l where "y = (Some src, Some c, Some l)" using assms by auto
  then show ?thesis using Cons by (simp add: best_hit_def)
qed

lemma intel_returns: "readable_hits E s \<Longrightarrow> \<exists>h. intel_body (ee_text E) kind c b stop s = Inr h"
proof -
  assume "readable_hits E s"
  then obtain ys where "collect_results (hit_columns (ee_text E)) (filter (\<lambda>e. in_bucket kind c b stop e \<and>
      field_text (ee_text E) (ev_metadata e) ''threat_intel_hit'' = Some ''true'') (b_events s)) = Inr ys"
    "\<forall>y \<in> set ys. \<exists>src c l. y = (Some src, Some c, Some l)"
    using collect_full [of "filter (\<lambda>e. in_bucket kind c b stop e \<and>
      field_text (ee_text E) (ev_metadata e) ''threat_intel_hit'' = Some ''true'') (b_events s)" "hit_columns (ee_text E)"]
    unfolding readable_hits_def by auto
  then show ?thesis using best_hit_full by (simp add: intel_body_def)
qed

lemma persist_body_returns:
  assumes "set (cq_events q) \<subseteq> ev_id ` set (b_events s)" "cq_relationships q = []" "cq_severity q \<in> set SEVERITIES"
  shows "\<exists>i t. persist_body q s = Inr (i, t)"
  using assms by (auto simp: persist_body_def correlation_valid_def list_all_iff b_fresh_def split: option.split)

lemma link_returns:
  "\<exists>t. link_incident a c ([], s) = (Inr (), ([], t)) \<and> b_events t = b_events s \<and> b_candidates t = b_candidates s \<and>
    map as_dedupe (b_assessments t) = map as_dedupe (b_assessments s)"
proof (cases "map_option inc_id (List.find (\<lambda>x. inc_candidate x = Some c) (b_incidents s))")
  case None
  then show ?thesis by (simp add: link_incident_def io_ignore_def io_bind_def get_incident_id_for_candidate_def tx_read_def)
next
  case (Some i)
  then show ?thesis
    by (auto simp: link_incident_def io_ignore_def io_bind_def get_incident_id_for_candidate_def tx_read_def
      link_security_assessment_incident_def tx_run_def)
qed

lemma severity_known: "severity_for_count n k \<in> set SEVERITIES"
  by (simp add: severity_for_count_def SEVERITIES_def)

lemma confidence_range: "60 \<le> confidence_for_count n k \<and> confidence_for_count n k \<le> 99"
  by (simp add: confidence_for_count_def clamp_def Let_def)

lemma persist_returns:
  assumes ok: "detection_ok E s" and hits: "readable_hits E s" and w: "window_justified E s r c b es"
    and es: "es \<noteq> []" "length es < 2 ^ 31"
  shows "\<exists>t. persist_assessment_and_incident E (rl_id r) (rl_version r) kind (rl_window r) c b stop es f l (severity_for_count n k)
      (confidence_for_count n k) summ csumm incident ([], s) = (Inr (), ([], t)) \<and> b_events t = b_events s \<and>
      assessment_key (rl_id r) (rl_version r) c b \<in> as_dedupe ` set (b_assessments t) \<and>
      (incident \<longrightarrow> ''security-assessment:'' @ rl_id r @ '':'' @ c \<in> ca_key ` set (b_candidates t)) \<and>
      ca_key ` set (b_candidates s) \<subseteq> ca_key ` set (b_candidates t)"
proof -
  let ?key = "assessment_key (rl_id r) (rl_version r) c b"
  obtain intel where intel: "intel_body (ee_text E) kind c b stop s = Inr intel" using intel_returns [OF hits] by blast
  let ?q = "request_of r c b es f l (severity_for_count n k) (confidence_for_count n k) summ intel"
  have ids: "set es \<subseteq> ev_id ` set (b_events s)" using w unfolding window_justified_def backed_def by (metis image_mono)
  have "r \<in> set all_rules" using w by (simp add: window_justified_def)
  then have "0 < rl_window r" using rule_names(3) [of r] by auto
  then have "assessment_valid ?q s" using ids es confidence_range [of n k]
    by (auto simp: assessment_valid_def request_of_def list_all_iff i32_len_exact)
  then obtain i s1 where run1: "assessment_body ?q s = Inr (i, s1)"
    by (cases "List.find (\<lambda>a. as_dedupe a = au_dedupe ?q) (b_assessments s)") (auto simp: assessment_body_def b_fresh_def)
  have "au_dedupe ?q = ?key" by (simp add: request_of_def)
  then have s1: "b_events s1 = b_events s" "b_candidates s1 = b_candidates s" "?key \<in> as_dedupe ` set (b_assessments s1)"
    using assessment_body_ok [OF ok _ run1, of r] w by (auto simp: request_of_justified intro: rev_image_eqI)
  let ?c = "\<lparr> cq_key = ''security-assessment:'' @ rl_id r @ '':'' @ c,
         cq_confidence = confidence_for_count n k, cq_severity = severity_for_count n k, cq_summary = csumm, cq_first = f, cq_last = l,
         cq_window = CANDIDATE_EXTENSION_WINDOW, cq_events = es, cq_relationships = [] \<rparr>"
  obtain j s2 where run2: "persist_body ?c s1 = Inr (j, s2)"
    using persist_body_returns [of ?c s1] ids s1(1) severity_known by auto
  note s2 = persist_body_rows [OF run2]
  obtain t where t: "link_incident i j ([], s2) = (Inr (), ([], t))" "b_events t = b_events s2" "b_candidates t = b_candidates s2"
    "map as_dedupe (b_assessments t) = map as_dedupe (b_assessments s2)" using link_returns by blast
  have keys: "?key \<in> as_dedupe ` set (b_assessments t)" using t(4) s2 s1(3) by (metis list.set_map)
  have "persist_assessment_and_incident E (rl_id r) (rl_version r) kind (rl_window r) c b stop es f l (severity_for_count n k)
      (confidence_for_count n k) summ csumm incident ([], s) = (Inr (), ([], if incident then t else s1))"
    using intel run1 run2 t(1)
    by (simp add: persist_assessment_and_incident_def bucket_threat_intel_hit_details_def persist_security_assessment_def
        persist_correlation_def io_bind_def request_of_def)
  then show ?thesis using keys s1 s2 t by (cases incident) auto
qed

lemma window_returns:
  assumes clock: "documented_clock E" and ok: "detection_ok E s" and hits: "readable_hits E s" and t: "plausible t"
    and r: "r \<in> set RULES" "offset \<in> set (grid_offsets (cr_window r))"
  defines "b \<equiv> bucket_start E t (cr_window r) offset"
  shows "\<exists>u. evaluate_window E r c t offset ([], s) = (Inr (), ([], u)) \<and> b_events u = b_events s \<and>
    ca_key ` set (b_candidates s) \<subseteq> ca_key ` set (b_candidates u) \<and>
    (cr_threshold r \<le> length (bucket_rows (ee_text E) (cr_type r) c b (b + cr_window r * SECOND) (cr_status r) (nat (clamp 1 1000 (cr_max r))) s) \<and>
      cr_yields r = None \<longrightarrow>
      assessment_key (cr_id r) (cr_version r) c b \<in> as_dedupe ` set (b_assessments u) \<and>
      (cr_incident r \<longrightarrow> ''security-assessment:'' @ cr_id r @ '':'' @ c \<in> ca_key ` set (b_candidates u)))"
proof -
  let ?rows = "bucket_rows (ee_text E) (cr_type r) c b (b + cr_window r * SECOND) (cr_status r) (nat (clamp 1 1000 (cr_max r))) s"
  obtain f l where fl: "ends t (map ev_occurred ?rows) = (f, l)" by (rule prod.exhaust)
  define m where "m = persist_assessment_and_incident E (cr_id r) (cr_version r) (cr_type r) (cr_window r) c b (b + cr_window r * SECOND)
            (map ev_id ?rows) f l (severity_for_count (length ?rows) (cr_threshold r))
            (confidence_for_count (length ?rows) (cr_threshold r)) (with_offset (count_summary r (length ?rows)) offset)
            (count_summary r (length ?rows)) (cr_incident r)"
  define q where "q = (case cr_yields r of None \<Rightarrow> False | Some other \<Rightarrow>
      list_ex (overlapping_assessment c other b (b + cr_window r * SECOND)) (b_assessments s))"
  have run: "evaluate_window E r c t offset ([], s) =
      (if length ?rows < cr_threshold r \<or> q then (Inr (), ([], s)) else m ([], s))"
    using fl unfolding evaluate_window_def list_events_for_bucket_limited_def Let_def b_def [symmetric]
    by (auto simp: io_bind_def tx_read_def o_def m_def q_def yields_def resource_has_assessment_overlapping_def
        cong: if_cong split: option.split)
  show ?thesis
  proof (cases "length ?rows < cr_threshold r \<or> q")
    case True
    then show ?thesis using run by (auto simp: q_def)
  next
    case False
    have rule: "Inl r \<in> set all_rules" using r(1) by (simp add: all_rules_def)
    have "window_justified E s (Inl r) c b (map ev_id ?rows)"
      using window_rows_justified [OF clock ok t rule, of offset c "nat (clamp 1 1000 (cr_max r))"] r(2) rows_card [OF ok] False
      by (simp add: rl_defs b_def)
    note just = this
    have "0 < cr_threshold r" "nat (clamp 1 1000 (cr_max r)) \<le> 1000"
      using r(1) by (auto simp: RULES_def rule_defs clamp_def)
    moreover have "length ?rows \<le> nat (clamp 1 1000 (cr_max r))" by (simp add: bucket_rows_length)
    ultimately have "?rows \<noteq> []" "length ?rows < 2 ^ 31" using False by (auto simp del: length_0_conv simp flip: length_greater_0_conv)
    then have "map ev_id ?rows \<noteq> []" "length (map ev_id ?rows) < 2 ^ 31" by simp_all
    note persist_returns [OF ok hits just this, unfolded rl_defs sum.case]
    then obtain u where "m ([], s) = (Inr (), ([], u))" "b_events u = b_events s"
      "assessment_key (cr_id r) (cr_version r) c b \<in> as_dedupe ` set (b_assessments u)"
      "cr_incident r \<longrightarrow> ''security-assessment:'' @ cr_id r @ '':'' @ c \<in> ca_key ` set (b_candidates u)"
      "ca_key ` set (b_candidates s) \<subseteq> ca_key ` set (b_candidates u)" unfolding m_def by metis
    then show ?thesis using run False by auto
  qed
qed

lemma kept_dedupes: "findings_kept s t \<Longrightarrow> as_dedupe ` set (b_assessments s) \<subseteq> as_dedupe ` set (b_assessments t)"
proof
  fix k assume kept: "findings_kept s t" and "k \<in> as_dedupe ` set (b_assessments s)"
  then obtain a where a: "a \<in> set (b_assessments s)" "k = as_dedupe a" by blast
  then obtain b where "b \<in> set (b_assessments t)" "same_finding a b" using kept unfolding findings_kept_def by blast
  then show "k \<in> as_dedupe ` set (b_assessments t)" using a(2) by (simp add: same_finding_def rev_image_eqI)
qed

definition full_window :: "engine_env \<Rightarrow> count_rule \<Rightarrow> string \<Rightarrow> int \<Rightarrow> bus \<Rightarrow> bool" where
  "full_window E r c b s \<longleftrightarrow> cr_threshold r \<le> length (bucket_rows (ee_text E) (cr_type r) c b (b + cr_window r * SECOND) (cr_status r)
     (nat (clamp 1 1000 (cr_max r))) s)"

lemma rule_returns:
  assumes clock: "documented_clock E" and ok: "detection_ok E s" and hits: "readable_hits E s" and t: "plausible now"
    and r: "r \<in> set RULES" "cr_yields r = None" "grouped_by correlation = Some c"
  shows "\<exists>t. evaluate_rule E r now correlation ([], s) = (Inr (), ([], t)) \<and> detection_ok E t \<and>
    (\<forall>offset \<in> set (grid_offsets (cr_window r)). full_window E r c (bucket_start E now (cr_window r) offset) s \<longrightarrow>
       assessment_key (cr_id r) (cr_version r) c (bucket_start E now (cr_window r) offset) \<in> as_dedupe ` set (b_assessments t) \<and>
       (cr_incident r \<longrightarrow> ''security-assessment:'' @ cr_id r @ '':'' @ c \<in> ca_key ` set (b_candidates t)))"
proof -
  define h where "h = cr_window r div 2"
  have grid: "grid_offsets (cr_window r) = [0, h]" by (simp add: grid_offsets_def h_def)
  let ?found = "\<lambda>offset t. assessment_key (cr_id r) (cr_version r) c (bucket_start E now (cr_window r) offset) \<in> as_dedupe ` set (b_assessments t) \<and>
       (cr_incident r \<longrightarrow> ''security-assessment:'' @ cr_id r @ '':'' @ c \<in> ca_key ` set (b_candidates t))"
  note window = window_returns [OF clock _ _ t r(1), where c = c, folded full_window_def]
  note sound = detection_tables.sound_run [OF detection_sound_window [OF clock t r(1)]]
  have o0: "0 \<in> set (grid_offsets (cr_window r))" and oh: "h \<in> set (grid_offsets (cr_window r))" by (simp_all add: grid)
  obtain u where u: "evaluate_window E r c now 0 ([], s) = (Inr (), ([], u))" "b_events u = b_events s"
    "full_window E r c (bucket_start E now (cr_window r) 0) s \<longrightarrow> ?found 0 u"
    using window [OF ok hits o0] r(2) by blast
  have ok_u: "detection_ok E u \<and> findings_kept s u" using sound [OF o0 ok u(1)] .
  have hits_u: "readable_hits E u" using hits u(2) by (simp add: readable_hits_def)
  obtain v where v: "evaluate_window E r c now h ([], u) = (Inr (), ([], v))"
    "full_window E r c (bucket_start E now (cr_window r) h) u \<longrightarrow> ?found h v"
    "ca_key ` set (b_candidates u) \<subseteq> ca_key ` set (b_candidates v)"
    using window [OF conjunct1 [OF ok_u] hits_u oh] r(2) by blast
  have ok_v: "detection_ok E v \<and> findings_kept u v" using sound [OF oh conjunct1 [OF ok_u] v(1)] .
  have "full_window E r c b u = full_window E r c b s" for b using u(2) by (simp add: full_window_def bucket_rows_def)
  then have "full_window E r c (bucket_start E now (cr_window r) 0) s \<longrightarrow> ?found 0 v"
    "full_window E r c (bucket_start E now (cr_window r) h) s \<longrightarrow> ?found h v"
    using u(3) v(2,3) kept_dedupes [OF conjunct2 [OF ok_v]] by blast+
  moreover have "evaluate_rule E r now correlation ([], s) = (Inr (), ([], v))"
    using u(1) v(1) r(3) by (simp add: evaluate_rule_def grid io_bind_def io_return_def)
  ultimately show ?thesis using ok_v by (auto simp: grid)
qed

lemma keyed_assessment:
  assumes ok: "detection_ok E t" and a: "a \<in> set (b_assessments t)" "as_dedupe a = assessment_key (rl_id r) (rl_version r) c b"
    and r: "r \<in> set all_rules" "b = timestamp b * SECOND"
  shows "as_rule a = rl_id r \<and> as_version a = rl_version r \<and> as_resource a = c \<and> as_bucket a = b \<and>
    (\<exists>es \<subseteq> set (b_events t). card es = card (set (as_events a)) \<and> enough E r es)"
proof -
  obtain r' es where r': "r' \<in> set all_rules" "as_rule a = rl_id r'" "as_version a = rl_version r'"
    "as_bucket a = timestamp (as_bucket a) * SECOND" "as_dedupe a = assessment_key (rl_id r') (rl_version r') (as_resource a) (as_bucket a)"
    "es \<subseteq> set (b_events t)" "ev_id ` es = set (as_events a)" "enough E r' es"
    using ok a(1) unfolding detection_ok_def justified_def backed_def by (metis (no_types, lifting))
  have eq: "rl_id r' = rl_id r \<and> rl_version r' = rl_version r \<and> as_resource a = c \<and> timestamp (as_bucket a) = timestamp b"
    by (rule assessment_key_inject) (use a(2) r'(5) rule_names [OF r'(1)] rule_names [OF r(1)] in auto)
  then have same: "r' = r" using rule_unique [OF r'(1) r(1)] by simp
  have "as_bucket a = b" using r'(4) r(2) eq by simp
  moreover have "inj_on ev_id es" using ok r'(6) unfolding detection_ok_def distinct_map by (blast intro: inj_on_subset)
  then have "card es = card (set (as_events a))" using r'(7) by (metis card_image)
  ultimately show ?thesis using r' eq same by blast
qed

text \<open>Events within half a window of each other fall into one window of one grid, whichever of them is looked at.\<close>

lemma burst_window:
  assumes clock: "documented_clock E" and w: "w \<in> {300, 3600}" and es: "\<forall>e \<in> set es. plausible (ev_occurred e)" "trigger \<in> set es"
    and span: "\<forall>e \<in> set es. \<forall>e' \<in> set es. ev_occurred e' \<le> ev_occurred e + w div 2 * SECOND"
  shows "\<exists>offset \<in> set (grid_offsets w). \<forall>e \<in> set es.
    bucket_start E (ev_occurred trigger) w offset \<le> ev_occurred e \<and> ev_occurred e < bucket_start E (ev_occurred trigger) w offset + w * SECOND"
proof -
  define lo where "lo = Min (ev_occurred ` set es)"
  define hi where "hi = Max (ev_occurred ` set es)"
  have ne: "set es \<noteq> {}" using es(2) by auto
  have "lo \<in> ev_occurred ` set es" "hi \<in> ev_occurred ` set es" using ne unfolding lo_def hi_def by simp_all
  then obtain e0 e1 where e01: "e0 \<in> set es" "lo = ev_occurred e0" "e1 \<in> set es" "hi = ev_occurred e1" by blast
  have between: "lo \<le> ev_occurred e \<and> ev_occurred e \<le> hi" if "e \<in> set es" for e using that by (simp add: lo_def hi_def)
  have "lo \<le> hi" "hi \<le> lo + w div 2 * SECOND" "plausible lo" "plausible hi" using between [OF e01(3)] span e01 es(1) by auto
  then obtain offset where o: "offset \<in> set (grid_offsets w)"
    "\<And>x. lo \<le> x \<and> x \<le> hi \<Longrightarrow> bucket_start E x w offset = bucket_start E lo w offset \<and>
       bucket_start E lo w offset \<le> x \<and> x < bucket_start E lo w offset + w * SECOND"
    using one_window [OF clock w, of lo hi] by blast
  have "bucket_start E (ev_occurred trigger) w offset = bucket_start E lo w offset" using o(2) [OF between [OF es(2)]] by simp
  then show ?thesis using o between by metis
qed

text \<open>C11 No burst escapes.  When the stored events of one source hold a threshold's worth of events that a rule counts
  within half its window, evaluating the rule for any one of them returns and leaves an assessment of that rule and
  source whose window holds all of them and which lists at least the threshold of events, and, for a rule about
  attackers, an incident candidate of the source.  A rule that yields to another is left out.\<close>

theorem burst_detected:
  assumes "documented_clock E" "detection_ok E s" "readable_hits E s" "r \<in> set RULES" "cr_yields r = None"
    and "trim c \<noteq> []" "set es \<subseteq> set (b_events s)" "distinct es" "cr_threshold r \<le> length es" "trigger \<in> set es"
    and "\<forall>e \<in> set es. ev_type e = cr_type r \<and> ev_correlation e = Some c \<and> status_passes (ee_text E) (cr_status r) (ev_payload e)"
    and "\<forall>e \<in> set es. \<forall>e' \<in> set es. ev_occurred e' \<le> ev_occurred e + cr_window r div 2 * SECOND"
  shows "\<exists>t. evaluate_rule E r (ev_occurred trigger) (ev_correlation trigger) ([], s) = (Inr (), ([], t)) \<and>
    (\<exists>a \<in> set (b_assessments t). as_rule a = cr_id r \<and> as_version a = cr_version r \<and> as_resource a = c \<and>
       cr_threshold r \<le> card (set (as_events a)) \<and>
       (\<forall>e \<in> set es. as_bucket a \<le> ev_occurred e \<and> ev_occurred e < as_bucket a + cr_window r * SECOND)) \<and>
    (cr_incident r \<longrightarrow> ''security-assessment:'' @ cr_id r @ '':'' @ c \<in> ca_key ` set (b_candidates t))"
proof -
  let ?b = "\<lambda>offset. bucket_start E (ev_occurred trigger) (cr_window r) offset"
  have rule: "Inl r \<in> set all_rules" using assms(4) by (simp add: all_rules_def)
  have likely: "\<forall>e \<in> set es. plausible (ev_occurred e)" using assms(2,7) by (auto simp: detection_ok_def)
  have window: "cr_window r \<in> {300, 3600}" using rule_names(3) [OF rule] by (simp add: rl_defs)
  obtain offset where o: "offset \<in> set (grid_offsets (cr_window r))"
    "\<forall>e \<in> set es. ?b offset \<le> ev_occurred e \<and> ev_occurred e < ?b offset + cr_window r * SECOND"
    using burst_window [OF assms(1) window likely assms(10,12)] by blast
  have full: "full_window E r c (?b offset) s" unfolding full_window_def
    by (rule bucket_rows_at_least [of es])
      (use assms(4,7,8,9,11) o(2) in \<open>auto simp: in_bucket_def RULES_def rule_defs clamp_def\<close>)
  have group: "grouped_by (ev_correlation trigger) = Some c" using assms(6,10,11) by (simp add: grouped_by_def)
  obtain t where t: "evaluate_rule E r (ev_occurred trigger) (ev_correlation trigger) ([], s) = (Inr (), ([], t))" "detection_ok E t"
    "assessment_key (cr_id r) (cr_version r) c (?b offset) \<in> as_dedupe ` set (b_assessments t)"
    "cr_incident r \<longrightarrow> ''security-assessment:'' @ cr_id r @ '':'' @ c \<in> ca_key ` set (b_candidates t)"
    using rule_returns [OF assms(1,2,3) bspec [OF likely assms(10)] assms(4,5) group] o(1) full by blast
  then obtain a where a: "a \<in> set (b_assessments t)" "as_dedupe a = assessment_key (rl_id (Inl r)) (rl_version (Inl r)) c (?b offset)"
    by (auto simp: rl_defs)
  have "?b offset = timestamp (?b offset) * SECOND"
    using window_aligned [OF assms(1) bspec [OF likely assms(10)] rule, of offset] o(1) by (simp add: rl_defs)
  note found = keyed_assessment [OF t(2) a rule this]
  then have "cr_threshold r \<le> card (set (as_events a))" by auto
  then show ?thesis using t(1,4) a(1) found o(2) by (auto simp: rl_defs intro!: bexI [of _ a])
qed

section \<open>Witnesses\<close>

definition example_engine :: engine_env where
  "example_engine = \<lparr> ee_text = \<lparr> dt_json = (\<lambda>_. []), dt_smallint = (\<lambda>_. Some 80), dt_timestamptz = (\<lambda>_. Some 0) \<rparr>,
     ee_timestamp_opt = (\<lambda>x. Some (x * SECOND)) \<rparr>"

text \<open>Five failed logins of one source, split by the boundary of the primary grid at 300 s.\<close>

definition login_failure :: "nat \<Rightarrow> event_row" where
  "login_failure k = \<lparr> ev_id = k, ev_type = ''ssh_login_failure'', ev_source = ''sensor'', ev_severity = ''low'',
     ev_occurred = (297 + int k) * SECOND, ev_correlation = Some ''source'', ev_payload = JObj [], ev_metadata = JObj [],
     ev_dedupe = show_nat k \<rparr>"

definition burst :: "event_row list" where
  "burst = map login_failure [1, 2, 3, 4, 5]"

definition burst_bus :: bus where
  "burst_bus = empty_bus\<lparr>b_next := 8, b_events := burst, b_consumers := [\<lparr> cn_id = 6, cn_name = ''security-engine'', cn_enabled = True \<rparr>],
     b_deliveries := [\<lparr> dl_id = 7, dl_event = 3, dl_consumer = 6, dl_status = D_Pending, dl_attempts = 0, dl_available = 0,
       dl_started = None \<rparr>]\<rparr>"

lemma example_clock: "documented_clock example_engine"
  by (simp add: documented_clock_def example_engine_def)

lemma burst_ok: "detection_ok example_engine burst_bus"
  by (simp add: detection_ok_def burst_bus_def empty_bus_def burst_def login_failure_def plausible_def SECOND_def)

lemma burst_readable: "readable_hits example_engine burst_bus"
  by (simp add: readable_hits_def burst_bus_def empty_bus_def burst_def login_failure_def field_text_def obj_get_def)

lemma short_span_in_one_window_witness:
  "bucket_start example_engine (302 * SECOND) 300 150 = bucket_start example_engine (298 * SECOND) 300 150 \<or>
   bucket_start example_engine (302 * SECOND) 300 0 = bucket_start example_engine (298 * SECOND) 300 0"
proof -
  have "plausible (298 * SECOND)" "plausible (302 * SECOND)" by (simp_all add: plausible_def SECOND_def)
  then have "\<exists>offset \<in> set (grid_offsets 300). \<forall>t. 298 * SECOND \<le> t \<and> t \<le> 302 * SECOND \<longrightarrow>
      bucket_start example_engine t 300 offset = bucket_start example_engine (298 * SECOND) 300 offset"
    using short_span_in_one_window [OF example_clock, of 300 "298 * SECOND" "302 * SECOND"] by (auto simp: SECOND_def)
  then obtain offset where o: "offset \<in> set (grid_offsets 300)" "\<forall>t. 298 * SECOND \<le> t \<and> t \<le> 302 * SECOND \<longrightarrow>
      bucket_start example_engine t 300 offset = bucket_start example_engine (298 * SECOND) 300 offset" by blast
  have "298 * SECOND \<le> 302 * SECOND" by (simp add: SECOND_def)
  then have "bucket_start example_engine (302 * SECOND) 300 offset = bucket_start example_engine (298 * SECOND) 300 offset"
    using o(2) by blast
  moreover have "offset = 0 \<or> offset = 150" using o(1) by (simp add: grid_offsets_def)
  ultimately show ?thesis by metis
qed

lemma burst_detected_witness:
  "\<exists>t. evaluate_rule example_engine SSH_BRUTEFORCE (300 * SECOND) (Some ''source'') ([], burst_bus) = (Inr (), ([], t)) \<and>
    (\<exists>a \<in> set (b_assessments t). as_rule a = ''ssh_bruteforce'' \<and> as_resource a = ''source'' \<and> 5 \<le> card (set (as_events a)))"
proof -
  have w: "SSH_BRUTEFORCE \<in> set RULES" "cr_yields SSH_BRUTEFORCE = None" by (simp_all add: RULES_def SSH_BRUTEFORCE_def)
  have w2: "trim ''source'' \<noteq> []" by code_simp
  have w3: "set burst \<subseteq> set (b_events burst_bus)" "distinct burst" "login_failure 3 \<in> set burst"
    by (simp_all add: burst_bus_def burst_def login_failure_def)
  have w4: "cr_threshold SSH_BRUTEFORCE \<le> length burst" by (simp add: SSH_BRUTEFORCE_def burst_def)
  have w5: "\<forall>e \<in> set burst. ev_type e = cr_type SSH_BRUTEFORCE \<and> ev_correlation e = Some ''source'' \<and>
      status_passes (ee_text example_engine) (cr_status SSH_BRUTEFORCE) (ev_payload e)"
    by (simp add: burst_def login_failure_def SSH_BRUTEFORCE_def)
  have w6: "\<forall>e \<in> set burst. \<forall>e' \<in> set burst. ev_occurred e' \<le> ev_occurred e + cr_window SSH_BRUTEFORCE div 2 * SECOND"
    by (simp add: burst_def login_failure_def SSH_BRUTEFORCE_def SECOND_def)
  from burst_detected [OF example_clock burst_ok burst_readable w w2 w3(1,2) w4 w3(3) w5 w6]
  show ?thesis by (auto simp: login_failure_def SSH_BRUTEFORCE_def)
qed

definition found_bus :: bus where
  "found_bus = burst_bus\<lparr>b_next := 9, b_assessments := [\<lparr> as_id = 8, as_rule = ''ssh_bruteforce'', as_version = ''2'',
     as_engine = ENGINE_VERSION, as_dedupe = assessment_key ''ssh_bruteforce'' ''2'' ''source'' (150 * SECOND), as_resource = ''source'',
     as_severity = ''medium'', as_confidence = 60, as_summary = [], as_count = 5, as_window = 300, as_bucket = 150 * SECOND,
     as_first = 298 * SECOND, as_last = 302 * SECOND, as_incident = None, as_intel = None, as_events = [1, 2, 3, 4, 5] \<rparr>]\<rparr>"

lemma found_ok: "detection_ok example_engine found_bus"
proof -
  have "backed example_engine found_bus (Inl SSH_BRUTEFORCE) ''source'' (150 * SECOND) [1, 2, 3, 4, 5]"
    unfolding backed_def
  proof (intro exI [of _ "set burst"] conjI)
    show "set burst \<subseteq> set (b_events found_bus)" by (simp add: found_bus_def burst_bus_def)
    show "ev_id ` set burst = set [1, 2, 3, 4, 5]" by (simp add: burst_def login_failure_def)
    show "\<forall>e \<in> set burst. evidence example_engine (Inl SSH_BRUTEFORCE) ''source'' (150 * SECOND) e"
      by (simp add: burst_def login_failure_def evidence_def in_bucket_def rl_defs SSH_BRUTEFORCE_def SECOND_def)
    have "distinct burst" "length burst = 5" by (simp_all add: burst_def login_failure_def)
    then have "card (set burst) = 5" by (simp add: distinct_card)
    then show "enough example_engine (Inl SSH_BRUTEFORCE) (set burst)" by (simp add: SSH_BRUTEFORCE_def)
  qed
  moreover have "Inl SSH_BRUTEFORCE \<in> set all_rules" by (simp add: all_rules_def RULES_def)
  moreover have "(300 :: int) dvd timestamp (150 * SECOND) - 150" "(150 :: int) \<in> set (grid_offsets 300)" by (simp_all add: grid_offsets_def)
  ultimately have "justified example_engine found_bus (hd (b_assessments found_bus))"
    unfolding justified_def
    by (intro bexI [of _ "Inl SSH_BRUTEFORCE"]) (auto simp: found_bus_def rl_defs SSH_BRUTEFORCE_def grid_offsets_def)
  then show ?thesis using burst_ok by (simp add: detection_ok_def found_bus_def)
qed

text \<open>A tick of the engine and a run of the worker long after: the assessment backs a request and stays.\<close>

lemma assessments_justified_witness:
  "\<exists>u t a. engine_tick example_engine ([], found_bus) = u \<and>
     delete_expired_security_assessments (\<lambda>i. i = 8) (10 ^ 9 * SECOND) ([], snd (snd u)) = t \<and>
     detection_ok example_engine (snd (snd t)) \<and> a \<in> set (b_assessments (snd (snd t))) \<and> as_id a = 8"
proof -
  let ?step = "detection_step example_engine (\<lambda>i. i = 8) (10 ^ 9 * SECOND)"
  obtain r os u where run: "engine_tick example_engine ([], found_bus) = (r, (os, u))" by (cases "engine_tick example_engine ([], found_bus)") auto
  obtain n os' t where clean: "delete_expired_security_assessments (\<lambda>i. i = 8) (10 ^ 9 * SECOND) ([], u) = (n, (os', t))"
    by (cases "delete_expired_security_assessments (\<lambda>i. i = 8) (10 ^ 9 * SECOND) ([], u)") auto
  have "?step found_bus u" "?step u t" using detection_step.tick [OF run] detection_step.retention [OF clean] by auto
  then have "?step\<^sup>*\<^sup>* found_bus t" by (meson converse_rtranclp_into_rtranclp r_into_rtranclp)
  from assessments_justified [OF this example_clock found_ok]
  have kept: "detection_ok example_engine t" "\<forall>a \<in> set (b_assessments found_bus). as_incident a \<noteq> None \<or> as_id a = 8 \<longrightarrow>
       (\<exists>b \<in> set (b_assessments t). same_finding a b)" by blast+
  have "hd (b_assessments found_bus) \<in> set (b_assessments found_bus)" "as_id (hd (b_assessments found_bus)) = 8"
    by (simp_all add: found_bus_def)
  then obtain a where "a \<in> set (b_assessments t)" "as_id a = 8"
    using kept(2) unfolding same_finding_def by metis
  then show ?thesis using run clean kept(1) by auto
qed

text \<open>Without such a request the same run removes it.\<close>

lemma retention_forgets:
  "delete_expired_security_assessments (\<lambda>_. False) (10 ^ 9 * SECOND) ([], found_bus) =
     (Inr 1, ([], found_bus\<lparr>b_assessments := []\<rparr>))"
  by (simp add: delete_expired_security_assessments_def expired_assessment_def tx_def found_bus_def SECOND_def)

end
