(* ===== verification/Ingest.thy ===== *)
theory Ingest
  imports Event_Bus Security_Events
begin

text \<open>
  The ingest of a sensor's envelope (\<^verbatim>\<open>storage/src/security_events.rs\<close>): its pseudonyms, the sensor's own row, the
  short-lived resolution of the pseudonym and the publication of the canonical event.  The reputation of an address
  is an SQL function over the threat-intelligence tables and a parameter, as is the text of a time.  The time of an
  envelope is in nanoseconds, a stored one in microseconds.  The properties: a resubmission changes nothing, one
  with other content is refused, an envelope that was accepted has its event, and no address field is stored as an
  address.
\<close>

section \<open>Pseudonyms\<close>

definition pseudonymize_field :: "pseudonym_env \<Rightarrow> string \<Rightarrow> msg + string" where
  "pseudonymize_field E v = pseudonymize_correlation_id E v"

definition pseudonymize_optional_field :: "pseudonym_env \<Rightarrow> string option \<Rightarrow> msg + string option" where
  "pseudonymize_optional_field E v =
     (case v of Some x \<Rightarrow> and_then (pseudonymize_field E x) (\<lambda>p. Inr (Some p)) | None \<Rightarrow> Inr None)"

fun pseudonymize_evidence :: "pseudonym_env \<Rightarrow> evidence \<Rightarrow> msg + evidence" where
  "pseudonymize_evidence E (NetworkIdsAlertEv e) =
     and_then (pseudonymize_field E (na_source_ip e)) (\<lambda>a. and_then (pseudonymize_field E (na_destination_ip e)) (\<lambda>b.
     Inr (NetworkIdsAlertEv (e\<lparr>na_source_ip := a, na_destination_ip := b\<rparr>))))"
| "pseudonymize_evidence E (FirewallBlockEv e) =
     and_then (pseudonymize_field E (fb_source_ip e)) (\<lambda>a. and_then (pseudonymize_optional_field E (fb_destination_ip e)) (\<lambda>b.
     Inr (FirewallBlockEv (e\<lparr>fb_source_ip := a, fb_destination_ip := b\<rparr>))))"
| "pseudonymize_evidence E (FirewallRuleChangedEv e) = Inr (FirewallRuleChangedEv e)"
| "pseudonymize_evidence E (AuthFailureEv e) =
     and_then (pseudonymize_field E (af_source_ip e)) (\<lambda>a. Inr (AuthFailureEv (e\<lparr>af_source_ip := a\<rparr>)))"
| "pseudonymize_evidence E (AuthAnomalyEv e) =
     and_then (pseudonymize_field E (aa_source_ip e)) (\<lambda>a. and_then (pseudonymize_optional_field E (aa_previous_source_ip e)) (\<lambda>b.
     Inr (AuthAnomalyEv (e\<lparr>aa_source_ip := a, aa_previous_source_ip := b\<rparr>))))"
| "pseudonymize_evidence E (SshLoginFailureEv e) =
     and_then (pseudonymize_field E (sf_source_ip e)) (\<lambda>a. Inr (SshLoginFailureEv (e\<lparr>sf_source_ip := a\<rparr>)))"
| "pseudonymize_evidence E (SshLoginAnomalyEv e) =
     and_then (pseudonymize_field E (sa_source_ip e)) (\<lambda>a. Inr (SshLoginAnomalyEv (e\<lparr>sa_source_ip := a\<rparr>)))"
| "pseudonymize_evidence E (HttpAnomalyEv e) =
     and_then (pseudonymize_field E (ha_source_ip e)) (\<lambda>a. Inr (HttpAnomalyEv (e\<lparr>ha_source_ip := a\<rparr>)))"
| "pseudonymize_evidence E (DnsAnomalyEv e) =
     and_then (pseudonymize_field E (da_source_ip e)) (\<lambda>a. Inr (DnsAnomalyEv (e\<lparr>da_source_ip := a\<rparr>)))"
| "pseudonymize_evidence E (PortScanDetectedEv e) =
     and_then (pseudonymize_field E (ps_source_ip e)) (\<lambda>a. and_then (pseudonymize_field E (ps_target_ip e)) (\<lambda>b.
     Inr (PortScanDetectedEv (e\<lparr>ps_source_ip := a, ps_target_ip := b\<rparr>))))"
| "pseudonymize_evidence E (ContainerAnomalyEv e) = Inr (ContainerAnomalyEv e)"
| "pseudonymize_evidence E (ContainerEscapeAttemptEv e) = Inr (ContainerEscapeAttemptEv e)"
| "pseudonymize_evidence E (ContainerLifecycleChangedEv e) = Inr (ContainerLifecycleChangedEv e)"

section \<open>Recording an event\<close>

record ingest_env =
  ie_pseudonym :: pseudonym_env
  ie_reputation :: "string \<Rightarrow> reputation option"
  ie_time_text :: "int \<Rightarrow> string"

definition stored_time :: "int \<Rightarrow> int" where
  "stored_time t = t div 1000"

definition sensor_row :: "uuid \<Rightarrow> uuid \<Rightarrow> sensor_envelope \<Rightarrow> string \<Rightarrow> json \<Rightarrow> sensor_event_row" where
  "sensor_row i sensor e r v = \<lparr> se_id = i, se_type = kind_str (event_type e), se_sensor = sensor,
     se_occurred = stored_time (occurred_at e), se_severity = severity_str (severity e), se_resource = r,
     se_dedupe = dedupe_key e, se_evidence = v \<rparr>"

text \<open>\<^verbatim>\<open>INSERT .. ON CONFLICT (sensor_id, dedupe_key) DO NOTHING\<close>, and the row that was there instead.\<close>

definition known_row :: "uuid \<Rightarrow> string \<Rightarrow> bus \<Rightarrow> sensor_event_row option" where
  "known_row sensor key s = List.find (\<lambda>r. se_sensor r = sensor \<and> se_dedupe r = key) (b_sensor_events s)"

definition insert_body ::
  "uuid \<Rightarrow> sensor_envelope \<Rightarrow> string \<Rightarrow> json \<Rightarrow> bus \<Rightarrow> msg + (uuid + sensor_event_row) \<times> bus" where
  "insert_body sensor e r v s =
     (case known_row sensor (dedupe_key e) s of
        Some row \<Rightarrow> Inr (Inr row, s)
      | None \<Rightarrow> (case b_fresh s of (i, s) \<Rightarrow>
          Inr (Inl i, s\<lparr>b_sensor_events := b_sensor_events s @ [sensor_row i sensor e r v]\<rparr>)))"

definition unchanged_content :: "sensor_event_row \<Rightarrow> sensor_envelope \<Rightarrow> string \<Rightarrow> json \<Rightarrow> bool" where
  "unchanged_content row e r v \<longleftrightarrow>
     se_type row = kind_str (event_type e) \<and> se_severity row = severity_str (severity e) \<and>
     se_occurred row = stored_time (occurred_at e) \<and> se_resource row = r \<and> se_evidence row = v"

definition event_key :: "uuid \<Rightarrow> string" where
  "event_key i = ''security-event:'' @ uuid_text i"

definition event_published :: "uuid \<Rightarrow> (bus db, msg, bool) io" where
  "event_published i = tx_read (\<lambda>s. list_ex (\<lambda>e. ev_dedupe e = event_key i) (b_events s))"

definition lookup_ip_reputation :: "ingest_env \<Rightarrow> string \<Rightarrow> (bus db, msg, reputation option) io" where
  "lookup_ip_reputation I ip = (if parse_ip ip = None then io_return None else tx_read (\<lambda>_. ie_reputation I ip))"

text \<open>\<^verbatim>\<open>.await.unwrap_or_default()\<close> and \<^verbatim>\<open>if let Err(error) = .. { warn!(..) }\<close>\<close>

definition or_default :: "('w, 'e, 'a option) io \<Rightarrow> ('w, 'e, 'a option) io" where
  "or_default m w = (case m w of (Inr x, w') \<Rightarrow> (Inr x, w') | (Inl _, w') \<Rightarrow> (Inr None, w'))"

definition best_effort :: "('w, 'e, 'a) io \<Rightarrow> ('w, 'e, unit) io" where
  "best_effort m w = (case m w of (_, w') \<Rightarrow> (Inr (), w'))"

definition resolution_ttl :: "env \<Rightarrow> int" where
  "resolution_ttl env =
     (case env_ok env ''CLAWFORGE_IP_RESOLUTION_TTL_SECONDS'' of
        Some v \<Rightarrow> (case parse_i64 v of Some n \<Rightarrow> if n > 0 then n else 86400 | None \<Rightarrow> 86400)
      | None \<Rightarrow> 86400)"

definition resolution_body :: "pseudonym_env \<Rightarrow> string \<Rightarrow> string \<Rightarrow> string \<Rightarrow> bus \<Rightarrow> msg + unit \<times> bus" where
  "resolution_body E p raw src s =
     (if parse_ip raw = None then Inl db_error
      else let row = \<lparr> ir_pseudonym = p, ir_raw = raw, ir_source = src,
          ir_expires = b_now s + resolution_ttl (pe_env E) * 1000000 \<rparr> in
        Inr ((), s\<lparr>b_resolutions := (if list_ex (\<lambda>r. ir_pseudonym r = p) (b_resolutions s)
          then map (\<lambda>r. if ir_pseudonym r = p then row else r) (b_resolutions s)
          else b_resolutions s @ [row])\<rparr>))"

definition upsert_ip_resolution :: "pseudonym_env \<Rightarrow> string \<Rightarrow> string \<Rightarrow> string \<Rightarrow> (bus db, msg, unit) io" where
  "upsert_ip_resolution E p raw src = tx (resolution_body E p raw src)"

definition event_metadata :: "ingest_env \<Rightarrow> uuid \<Rightarrow> uuid \<Rightarrow> reputation option \<Rightarrow> json" where
  "event_metadata I i sensor rep =
     jobj ([(''security_event_id'', JStr (uuid_text i)), (''sensor_id'', JStr (uuid_text sensor))] @
       (case rep of None \<Rightarrow> []
        | Some hit \<Rightarrow> [(''threat_intel_hit'', JBool True), (''threat_intel_source'', JStr (rp_source hit)),
            (''threat_intel_confidence'', JInt (rp_confidence hit)),
            (''threat_intel_last_seen'', JStr (ie_time_text I (rp_last_seen hit)))]))"

definition sensor_event :: "ingest_env \<Rightarrow> uuid \<Rightarrow> uuid \<Rightarrow> sensor_envelope \<Rightarrow> string \<Rightarrow> json \<Rightarrow> reputation option \<Rightarrow> new_event" where
  "sensor_event I i sensor e r v rep =
     \<lparr> ne_type = kind_str (event_type e), ne_source = ''sensor:'' @ uuid_text sensor, ne_severity = severity_str (severity e),
       ne_occurred = stored_time (occurred_at e), ne_correlation = Some r, ne_payload = v,
       ne_metadata = event_metadata I i sensor rep, ne_dedupe = event_key i \<rparr>"

text \<open>What follows the sensor's row: the reputation, the resolution of the pseudonym, the canonical event.\<close>

definition fan_out :: "ingest_env \<Rightarrow> uuid \<Rightarrow> uuid \<Rightarrow> sensor_envelope \<Rightarrow> string \<Rightarrow> json \<Rightarrow> (bus db, msg, uuid) io" where
  "fan_out I i sensor e r v =
     io_bind (or_default (lookup_ip_reputation I (resource e))) (\<lambda>rep.
     io_bind (best_effort (upsert_ip_resolution (ie_pseudonym I) r (resource e)
         (case rep of Some hit \<Rightarrow> rp_source hit | None \<Rightarrow> ''sensor_observed''))) (\<lambda>_.
     io_bind (publish_event (ie_pseudonym I) (sensor_event I i sensor e r v rep)) (\<lambda>_.
     io_return i)))"

definition record_security_event :: "ingest_env \<Rightarrow> uuid \<Rightarrow> sensor_envelope \<Rightarrow> (bus db, msg, uuid) io" where
  "record_security_event I sensor e =
     io_bind (io_lift (pseudonymize_field (ie_pseudonym I) (resource e))) (\<lambda>r.
     io_bind (io_lift (pseudonymize_evidence (ie_pseudonym I) (evidence_of e))) (\<lambda>ev.
     let v = evidence_json ev in
     io_bind (tx (insert_body sensor e r v)) (\<lambda>inserted.
     case inserted of
       Inl i \<Rightarrow> fan_out I i sensor e r v
     | Inr row \<Rightarrow>
         if \<not> unchanged_content row e r v
         then io_fail [Lit ''dedupe_key '', Dbg (dedupe_key e), Lit '' was already used by this sensor with different content'']
         else io_bind (event_published (se_id row)) (\<lambda>published.
           if published then io_return (se_id row) else fan_out I (se_id row) sensor e r v))))"

section \<open>What has been accepted\<close>

text \<open>An envelope is held under an id: the sensor's row has its content, and the canonical event is there.\<close>

definition held :: "ingest_env \<Rightarrow> uuid \<Rightarrow> sensor_envelope \<Rightarrow> uuid \<Rightarrow> bus \<Rightarrow> bool" where
  "held I sensor e i s \<longleftrightarrow>
     (\<exists>r ev row. pseudonymize_field (ie_pseudonym I) (resource e) = Inr r \<and>
        pseudonymize_evidence (ie_pseudonym I) (evidence_of e) = Inr ev \<and>
        known_row sensor (dedupe_key e) s = Some row \<and> unchanged_content row e r (evidence_json ev) \<and> se_id row = i) \<and>
     event_key i \<in> ev_dedupe ` set (b_events s)"

lemma deliver_sensor [simp]:
  "b_sensor_events (deliver e c s) = b_sensor_events s" "b_resolutions (deliver e c s) = b_resolutions s"
  by (simp_all add: deliver_def b_fresh_def)

lemma fold_deliver_sensor [simp]:
  "b_sensor_events (fold (\<lambda>c. deliver e (cn_id c)) cs s) = b_sensor_events s"
  by (induction cs arbitrary: s) simp_all

lemma publish_body_event:
  assumes "publish_body n s = Inr (i, t)"
  shows "b_sensor_events t = b_sensor_events s \<and> ne_dedupe n \<in> ev_dedupe ` set (b_events t) \<and>
    (\<forall>e \<in> set (b_events t) - set (b_events s). ev_payload e = ne_payload n \<and> ev_metadata e = ne_metadata n \<and>
       ev_correlation e = ne_correlation n)"
proof (cases "List.find (\<lambda>e. ev_dedupe e = ne_dedupe n) (b_events s)")
  case (Some e)
  then have "e \<in> set (b_events s)" "ev_dedupe e = ne_dedupe n" by (auto simp: find_Some_iff)
  then show ?thesis using assms Some by (auto simp: publish_body_def intro: rev_image_eqI)
next
  case None
  then show ?thesis using assms by (auto simp: publish_body_def b_fresh_def)
qed

lemma or_default_read:
  assumes "or_default (lookup_ip_reputation I ip) (os, s) = (r, (os', s'))"
  shows "s' = s \<and> (\<exists>rep. r = Inr rep)"
  using assms tx_read_done [of "\<lambda>_. ie_reputation I ip" os s "fst (tx_read (\<lambda>_. ie_reputation I ip) (os, s))"]
  by (cases "tx_read (\<lambda>_. ie_reputation I ip) (os, s)")
    (auto simp: or_default_def lookup_ip_reputation_def split: if_split_asm sum.splits prod.splits)

lemma resolution_rows:
  assumes "best_effort (upsert_ip_resolution E p raw src) (os, s) = (r, (os', s'))"
  shows "r = Inr () \<and> b_sensor_events s' = b_sensor_events s \<and> b_events s' = b_events s"
proof -
  obtain x os1 t where x: "upsert_ip_resolution E p raw src (os, s) = (x, (os1, t))" by (cases "upsert_ip_resolution E p raw src (os, s)") auto
  then have "b_sensor_events t = b_sensor_events s \<and> b_events t = b_events s" unfolding upsert_ip_resolution_def
    by (rule tx_cases) (auto simp: resolution_body_def Let_def split: if_split_asm)
  then show ?thesis using assms x by (simp add: best_effort_def)
qed

text \<open>What the fan-out leaves alone, and what it publishes.\<close>

definition fanned :: "ingest_env \<Rightarrow> uuid \<Rightarrow> bus \<Rightarrow> bus \<Rightarrow> bool" where
  "fanned I i s t \<longleftrightarrow> b_sensor_events t = b_sensor_events s \<and>
     (\<forall>e \<in> set (b_events t) - set (b_events s). clean (ie_pseudonym I) None (ev_payload e) \<and>
        clean (ie_pseudonym I) None (ev_metadata e) \<and>
        (\<exists>r. ev_correlation e = Some r \<and> (analysis_anonymize_ips (ie_pseudonym I) \<longrightarrow> parse_ip r = None)))"

lemma pseudonymized_no_address:
  assumes "pseudonymize_correlation_id E v = Inr p" "analysis_anonymize_ips E"
  shows "parse_ip p = None"
  using assms pseudonym_no_ip by (auto simp: pseudonymize_correlation_id_def pseudonymize_ip_Inr split: if_split_asm)

lemma fan_out_done:
  assumes "fan_out I i sensor e r v (os, s) = (x, (os', t))"
  shows "fanned I i s t \<and> (\<forall>j. x = Inr j \<longrightarrow> j = i \<and> event_key i \<in> ev_dedupe ` set (b_events t))"
proof -
  obtain rep os1 s1 where rep: "or_default (lookup_ip_reputation I (resource e)) (os, s) = (Inr rep, (os1, s1))" "s1 = s"
    using or_default_read [of I "resource e" os s] by (metis prod.exhaust)
  let ?src = "case rep of Some hit \<Rightarrow> rp_source hit | None \<Rightarrow> ''sensor_observed''"
  obtain os2 s2 where res: "best_effort (upsert_ip_resolution (ie_pseudonym I) r (resource e) ?src) (os1, s) = (Inr (), (os2, s2))"
    "b_sensor_events s2 = b_sensor_events s" "b_events s2 = b_events s"
    using resolution_rows [of "ie_pseudonym I" r "resource e" ?src os1 s] by (metis prod.exhaust)
  let ?n = "sensor_event I i sensor e r v rep"
  obtain y os3 s3 where pub: "publish_event (ie_pseudonym I) ?n (os2, s2) = (y, (os3, s3))" by (cases "publish_event (ie_pseudonym I) ?n (os2, s2)") auto
  have t: "t = s3" "\<And>j. x = Inr j \<Longrightarrow> j = i \<and> (\<exists>k. y = Inr k)"
    using assms rep res(1) pub by (auto simp: fan_out_def io_bind_def split: sum.splits)
  show ?thesis
  proof (cases "sanitized_event (ie_pseudonym I) ?n")
    case (Inl m)
    then have "s3 = s2" "y = Inl m" using pub by (auto simp: publish_event_def)
    then show ?thesis using t res by (auto simp: fanned_def)
  next
    case (Inr n)
    have n: "clean (ie_pseudonym I) None (ne_payload n)" "clean (ie_pseudonym I) None (ne_metadata n)" "ne_dedupe n = event_key i"
      using Inr by (auto simp: sanitized_event_def and_then_Inr_iff sensor_event_def dest: sanitize_clean_all(1))
    obtain c where c: "ne_correlation n = Some c" "pseudonymize_correlation_id (ie_pseudonym I) r = Inr c"
      using Inr by (auto simp: sanitized_event_def and_then_Inr_iff sensor_event_def)
    have run: "tx (publish_body n) (os2, s2) = (y, (os3, s3))" using pub Inr by (simp add: publish_event_def)
    have kept: "s3 = s2 \<or> (\<exists>k. publish_body n s2 = Inr (k, s3))" using run by (rule tx_cases) auto
    have "event_key i \<in> ev_dedupe ` set (b_events s3)" if "y = Inr k" for k
      using tx_Inr [OF run [unfolded that]] publish_body_event n(3) by metis
    moreover have "fanned I i s s3"
      using kept
    proof
      assume "\<exists>k. publish_body n s2 = Inr (k, s3)"
      then show ?thesis using publish_body_event [of n s2 _ s3] n c pseudonymized_no_address [OF c(2)] res(2,3)
        unfolding fanned_def by auto
    qed (use res in \<open>simp add: fanned_def\<close>)
    ultimately show ?thesis using t by blast
  qed
qed

lemma published_iff: "list_ex (\<lambda>e. ev_dedupe e = k) es \<longleftrightarrow> k \<in> ev_dedupe ` set es"
  by (induction es) auto

lemma record_cases:
  assumes "record_security_event I sensor e (os, s) = (x, (os', t))"
  obtains (refused) m where "x = Inl m" "t = s"
  | (recorded) r ev i s1 os1 where "pseudonymize_field (ie_pseudonym I) (resource e) = Inr r"
      "pseudonymize_evidence (ie_pseudonym I) (evidence_of e) = Inr ev" "known_row sensor (dedupe_key e) s = None"
      "s1 = s\<lparr>b_next := b_next s + 1, b_sensor_events := b_sensor_events s @ [sensor_row i sensor e r (evidence_json ev)]\<rparr>"
      "i = b_next s" "fan_out I i sensor e r (evidence_json ev) (os1, s1) = (x, (os', t)) \<or> x = Inl db_error \<and> t = s1"
  | (repeated) r ev row os1 where "pseudonymize_field (ie_pseudonym I) (resource e) = Inr r"
      "pseudonymize_evidence (ie_pseudonym I) (evidence_of e) = Inr ev" "known_row sensor (dedupe_key e) s = Some row"
      "unchanged_content row e r (evidence_json ev)"
      "fan_out I (se_id row) sensor e r (evidence_json ev) (os1, s) = (x, (os', t)) \<or>
       x = Inr (se_id row) \<and> t = s \<and> event_key (se_id row) \<in> ev_dedupe ` set (b_events s)"
proof (cases "pseudonymize_field (ie_pseudonym I) (resource e)")
  case (Inl m)
  then show ?thesis using assms refused by (auto simp: record_security_event_def)
next
  case (Inr r)
  note r = Inr
  show ?thesis
  proof (cases "pseudonymize_evidence (ie_pseudonym I) (evidence_of e)")
    case (Inl m)
    then show ?thesis using assms r refused by (auto simp: record_security_event_def)
  next
    case (Inr ev)
    let ?v = "evidence_json ev"
    obtain y os1 s1 where run: "tx (insert_body sensor e r ?v) (os, s) = (y, (os1, s1))" by (cases "tx (insert_body sensor e r ?v) (os, s)") auto
    have rest: "(case y of Inl m \<Rightarrow> (Inl m, (os1, s1)) | Inr (Inl i) \<Rightarrow> fan_out I i sensor e r ?v (os1, s1)
      | Inr (Inr row) \<Rightarrow> (if \<not> unchanged_content row e r ?v then io_fail [Lit ''dedupe_key '', Dbg (dedupe_key e), Lit '' was already used by this sensor with different content'']
         else io_bind (event_published (se_id row)) (\<lambda>published.
           if published then io_return (se_id row) else fan_out I (se_id row) sensor e r ?v)) (os1, s1)) = (x, (os', t))"
      using assms r Inr run by (auto simp: record_security_event_def io_bind_def Let_def split: sum.splits)
    show ?thesis
    proof (cases "known_row sensor (dedupe_key e) s")
      case None
      let ?s1 = "s\<lparr>b_next := b_next s + 1, b_sensor_events := b_sensor_events s @ [sensor_row (b_next s) sensor e r ?v]\<rparr>"
      have "(\<exists>m. y = Inl m) \<and> s1 = s \<or> s1 = ?s1 \<and> (y = Inr (Inl (b_next s)) \<or> y = Inl db_error)"
        using run by (rule tx_cases) (use None in \<open>auto simp: insert_body_def b_fresh_def\<close>)
      then show ?thesis
      proof
        assume "(\<exists>m. y = Inl m) \<and> s1 = s"
        then show ?thesis using rest refused by auto
      next
        assume *: "s1 = ?s1 \<and> (y = Inr (Inl (b_next s)) \<or> y = Inl db_error)"
        show ?thesis by (rule recorded [OF r Inr None refl refl, of os1]) (use * rest in auto)
      qed
    next
      case (Some row)
      have "s1 = s \<and> (y = Inr (Inr row) \<or> (\<exists>m. y = Inl m))"
        using run by (rule tx_cases) (use Some in \<open>auto simp: insert_body_def\<close>)
      then consider m where "y = Inl m" "s1 = s" | "y = Inr (Inr row)" "s1 = s" by blast
      then show ?thesis
      proof cases
        case 1
        then show ?thesis using rest refused by auto
      next
        case 2
        show ?thesis
        proof (cases "unchanged_content row e r ?v")
          case False
          then show ?thesis using rest 2 refused by auto
        next
          case True
          obtain z os2 s2 where z: "event_published (se_id row) (os1, s) = (z, (os2, s2))" by (cases "event_published (se_id row) (os1, s)") auto
          have "s2 = s \<and> (z = Inr (list_ex (\<lambda>e. ev_dedupe e = event_key (se_id row)) (b_events s)) \<or> (\<exists>m. z = Inl m))"
            using tx_read_done [OF z [unfolded event_published_def]] .
          then consider m where "z = Inl m" "s2 = s" | "z = Inr True" "s2 = s" "event_key (se_id row) \<in> ev_dedupe ` set (b_events s)"
            | "z = Inr False" "s2 = s"
            unfolding published_iff by (cases "event_key (se_id row) \<in> ev_dedupe ` set (b_events s)") auto
          then show ?thesis
          proof cases
            case 1
            then show ?thesis using rest 2 True z refused by (auto simp: io_bind_def)
          next
            case pub: 2
            show ?thesis by (rule repeated [OF r Inr Some True, of os2]) (use rest 2 True z pub in \<open>auto simp: io_bind_def\<close>)
          next
            case 3
            show ?thesis by (rule repeated [OF r Inr Some True, of os2]) (use rest 2 True z 3 in \<open>auto simp: io_bind_def\<close>)
          qed
        qed
      qed
    qed
  qed
qed

section \<open>What an ingest guarantees\<close>

lemma again_cases:
  assumes held: "held I sensor e i t" and run: "record_security_event I sensor e (os, t) = (x, (os', u))"
  obtains "u = t" "x = Inr i" | m where "u = t" "x = Inl m"
proof -
  obtain r ev row where h: "pseudonymize_field (ie_pseudonym I) (resource e) = Inr r"
    "pseudonymize_evidence (ie_pseudonym I) (evidence_of e) = Inr ev" "known_row sensor (dedupe_key e) t = Some row"
    "unchanged_content row e r (evidence_json ev)" "se_id row = i" "event_key i \<in> ev_dedupe ` set (b_events t)"
    using held by (auto simp: held_def)
  obtain y os1 t1 where y: "tx (insert_body sensor e r (evidence_json ev)) (os, t) = (y, (os1, t1))"
    by (cases "tx (insert_body sensor e r (evidence_json ev)) (os, t)") auto
  have "t1 = t \<and> (y = Inr (Inr row) \<or> (\<exists>m. y = Inl m))"
    using y by (rule tx_cases) (use h(3) in \<open>auto simp: insert_body_def\<close>)
  then consider m where "y = Inl m" "t1 = t" | "y = Inr (Inr row)" "t1 = t" by blast
  then show ?thesis
  proof cases
    case 1
    then show ?thesis using run h y that(2) by (auto simp: record_security_event_def io_bind_def Let_def)
  next
    case 2
    obtain z os2 t2 where z: "event_published i (os1, t) = (z, (os2, t2))" by (cases "event_published i (os1, t)") auto
    have "list_ex (\<lambda>e. ev_dedupe e = event_key i) (b_events t)" using h(6) by (simp add: published_iff)
    then have "t2 = t \<and> (z = Inr True \<or> (\<exists>m. z = Inl m))" using tx_read_done [OF z [unfolded event_published_def]] by simp
    then show ?thesis using run h y 2 z that by (auto simp: record_security_event_def io_bind_def Let_def)
  qed
qed


text \<open>C27 Other content under a used key is refused.  When the sensor's key already names a row, and type,
  severity, time, resource or evidence differ after their pseudonyms have been put in, recording fails and
  changes nothing.\<close>

theorem ingest_conflict_refused:
  assumes "known_row sensor (dedupe_key e) s = Some row"
    and "pseudonymize_field (ie_pseudonym I) (resource e) = Inr r" "pseudonymize_evidence (ie_pseudonym I) (evidence_of e) = Inr ev"
    and "\<not> unchanged_content row e r (evidence_json ev)"
  shows "\<exists>m os'. record_security_event I sensor e (os, s) = (Inl m, (os', s))"
proof -
  obtain x os' t where run: "record_security_event I sensor e (os, s) = (x, (os', t))" by (cases "record_security_event I sensor e (os, s)") auto
  then show ?thesis
  proof (cases rule: record_cases)
    case (refused m)
    then show ?thesis using run by blast
  next
    case recorded
    then show ?thesis using assms(1) by simp
  next
    case repeated
    then show ?thesis using assms by simp
  qed
qed

lemma pseudonymized_fields:
  assumes "analysis_anonymize_ips E"
  shows "pseudonymize_field E v = Inr p \<Longrightarrow> parse_ip p = None"
    "pseudonymize_optional_field E w = Inr q \<Longrightarrow> q = Some p \<Longrightarrow> parse_ip p = None"
  using pseudonymized_no_address [OF _ assms]
  by (auto simp: pseudonymize_field_def pseudonymize_optional_field_def and_then_Inr_iff split: option.splits)

lemma evidence_no_address:
  assumes "analysis_anonymize_ips E" "pseudonymize_evidence E ev = Inr ev'" "(k, JStr v) \<in> set (evidence_fields ev')" "k \<in> address_fields"
  shows "parse_ip v = None"
  using assms pseudonymized_fields [OF assms(1)]
  by (cases ev) (auto simp: and_then_Inr_iff jopt_def jword_def address_fields_def split: option.splits)

lemma set_insert_member: "set (obj_insert k v kvs) \<subseteq> insert (k, v) (set kvs)"
  by (induction k v kvs rule: obj_insert.induct) auto

lemma jobj_member: "jget (jobj kvs) k = Some v \<Longrightarrow> (k, v) \<in> set kvs"
proof -
  have "set (fold (\<lambda>(k, v). obj_insert k v) kvs acc) \<subseteq> set kvs \<union> set acc" for kvs :: "(string \<times> json) list" and acc
    using set_insert_member by (induction kvs arbitrary: acc) fastforce+
  from this [of kvs "[]"] show "jget (jobj kvs) k = Some v \<Longrightarrow> (k, v) \<in> set kvs"
    by (auto simp: jobj_def obj_get_def dest: map_of_SomeD)
qed

lemma stored_no_address:
  assumes "analysis_anonymize_ips E" "pseudonymize_evidence E ev = Inr ev'" "get_str (evidence_json ev') k = Some v" "k \<in> address_fields"
  shows "parse_ip v = None"
proof -
  obtain w where w: "jget (evidence_json ev') k = Some w" "as_str w = Some v" using assms(3) by (auto simp: get_str_def bind_eq_Some_conv)
  have "w = JStr v" using w(2) by (cases w) auto
  moreover have "k \<noteq> ''event_type''" using assms(4) by (auto simp: address_fields_def)
  ultimately have "(k, JStr v) \<in> set (evidence_fields ev')" using jobj_member w(1) unfolding evidence_json_def by fastforce
  then show ?thesis using evidence_no_address [OF assms(1,2)] assms(4) by blast
qed

text \<open>C14 No address is stored.  While addresses are to be pseudonymized, whatever recording an envelope does, even
  when it fails halfway, a row it adds has no address as its resource nor in any of the evidence's address fields,
  and an event it adds has passed the sanitizer and groups by something that is no address.  (The one place that
  holds an address is the short-lived resolution of the pseudonym.)\<close>

theorem ingest_stores_no_address:
  assumes "record_security_event I sensor e (os, s) = (x, (os', t))" "analysis_anonymize_ips (ie_pseudonym I)"
  shows "(\<forall>row \<in> set (b_sensor_events t) - set (b_sensor_events s). parse_ip (se_resource row) = None \<and>
      (\<forall>k \<in> address_fields. \<forall>v. get_str (se_evidence row) k = Some v \<longrightarrow> parse_ip v = None)) \<and>
    (\<forall>ev \<in> set (b_events t) - set (b_events s). clean (ie_pseudonym I) None (ev_payload ev) \<and>
      clean (ie_pseudonym I) None (ev_metadata ev) \<and> (\<exists>r. ev_correlation ev = Some r \<and> parse_ip r = None))"
  using assms(1)
proof (cases rule: record_cases)
  case (refused m)
  then show ?thesis by simp
next
  case (recorded r ev j s1 os1)
  let ?row = "sensor_row j sensor e r (evidence_json ev)"
  have "parse_ip r = None" using pseudonymized_fields(1) [OF assms(2) recorded(1)] .
  then have row: "parse_ip (se_resource ?row) = None"
    "\<And>k v. k \<in> address_fields \<Longrightarrow> get_str (se_evidence ?row) k = Some v \<Longrightarrow> parse_ip v = None"
    using stored_no_address [OF assms(2) recorded(2)] by (auto simp: sensor_row_def)
  have "fanned I j s1 t" using recorded(6) fan_out_done by (auto simp: fanned_def)
  moreover have "b_sensor_events s1 = b_sensor_events s @ [?row]" "b_events s1 = b_events s" using recorded(4,5) by simp_all
  ultimately show ?thesis using row assms(2) unfolding fanned_def by auto
next
  case (repeated r ev row os1)
  have "fanned I (se_id row) s t" using repeated(5) fan_out_done by (auto simp: fanned_def)
  then show ?thesis using assms(2) unfolding fanned_def by auto
qed

section \<open>Witnesses\<close>

definition example_ingest :: ingest_env where
  "example_ingest = \<lparr> ie_pseudonym = example_pseudonyms, ie_reputation = (\<lambda>_. None), ie_time_text = (\<lambda>_. []) \<rparr>"

definition example_envelope :: sensor_envelope where
  "example_envelope = \<lparr> occurred_at = 5000000, source = ''sensor'', severity = Sev_Low, resource = ''192.0.2.7'', dedupe_key = ''d1'',
     evidence_of = SshLoginFailureEv \<lparr> sf_username = ''root'', sf_source_ip = ''192.0.2.7'', sf_attempt_count = 1, sf_invalid_user = None \<rparr> \<rparr>"

definition ingested_bus :: bus where
  "ingested_bus = snd (snd (record_security_event example_ingest 9 example_envelope ([], one_consumer)))"

lemma ingest_run: "fst (record_security_event example_ingest 9 example_envelope ([], one_consumer)) = Inr 1"
  by code_simp

lemma ingest_done: "\<exists>os. record_security_event example_ingest 9 example_envelope ([], one_consumer) = (Inr 1, (os, ingested_bus))"
  using ingest_run by (metis ingested_bus_def prod.collapse)


definition used_key_bus :: bus where
  "used_key_bus = one_consumer\<lparr>b_sensor_events := [\<lparr> se_id = 1, se_type = ''ssh_login_failure'', se_sensor = 9, se_occurred = 5,
     se_severity = ''low'', se_resource = ''other'', se_dedupe = ''d1'', se_evidence = JNull \<rparr>]\<rparr>"

lemma ingest_conflict_refused_witness:
  "\<exists>m os'. record_security_event example_ingest 9 example_envelope ([], used_key_bus) = (Inl m, (os', used_key_bus))"
proof -
  obtain r where r: "pseudonymize_field (ie_pseudonym example_ingest) (resource example_envelope) = Inr r" "r \<noteq> ''other''"
  proof -
    have "pseudonymize_field (ie_pseudonym example_ingest) (resource example_envelope) = Inr ''ip-pseudonym:09090909090909090909090909090909''"
      by code_simp
    then show ?thesis using that by simp
  qed
  have "is_ok (pseudonymize_evidence (ie_pseudonym example_ingest) (evidence_of example_envelope))" by code_simp
  then obtain ev where ev: "pseudonymize_evidence (ie_pseudonym example_ingest) (evidence_of example_envelope) = Inr ev"
    by (auto simp: is_ok_iff)
  have known: "known_row 9 (dedupe_key example_envelope) used_key_bus = Some (hd (b_sensor_events used_key_bus))"
    by (simp add: known_row_def used_key_bus_def example_envelope_def)
  have "\<not> unchanged_content (hd (b_sensor_events used_key_bus)) example_envelope r (evidence_json ev)"
    using r(2) by (simp add: unchanged_content_def used_key_bus_def)
  then show ?thesis using ingest_conflict_refused [OF known r(1) ev] by blast
qed

lemma ingest_stores_no_address_witness:
  "\<exists>row. b_sensor_events ingested_bus = [row] \<and> parse_ip (se_resource row) = None"
proof -
  obtain os where run: "record_security_event example_ingest 9 example_envelope ([], one_consumer) = (Inr 1, (os, ingested_bus))"
    using ingest_done by blast
  have "analysis_anonymize_ips (ie_pseudonym example_ingest)" by code_simp
  then have "\<forall>row \<in> set (b_sensor_events ingested_bus) - set (b_sensor_events one_consumer). parse_ip (se_resource row) = None"
    using ingest_stores_no_address [OF run] by blast
  moreover have "b_sensor_events one_consumer = []" by (simp add: one_consumer_def empty_bus_def)
  moreover have "length (b_sensor_events ingested_bus) = 1" by code_simp
  ultimately show ?thesis by (auto simp: length_Suc_conv)
qed

end
