(* ===== verification/Spec2Isabelle.thy ===== *)
theory Spec2Isabelle
  imports Executor Correlation Risk_Policy Detection Ingest
begin

text \<open>
  A verification library for ClawForge, a self-hosted security platform written in Rust.

  \<^bold>\<open>The program.\<close>  Sensors post envelopes; the storage crate stores them with every address replaced by a pseudonym and
  publishes a canonical event to an event bus in PostgreSQL, from which each service claims its own deliveries.  The
  security engine counts the events of a source in windows and writes assessments, and correlations of events become
  incident candidates, which a promotion turns into incidents.  At the other end an execution request that has been
  approved is claimed by the executor, which changes a firewall or puts a workload into quarantine through an adapter,
  around a write-ahead journal, and takes the change back when its time is over, when an operator asks for it or when
  a worker died halfway.  The two ends meet in the database only.

  \<^bold>\<open>Acting: adapters.\<close>  \<open>Ip_Addr\<close> and \<open>Json\<close> model what the code uses of the standard library and of \<^verbatim>\<open>serde_json\<close>.
  \<open>Fw_Target\<close>, \<open>Fw_Adapter\<close>, \<open>Nftables\<close>, \<open>Haproxy\<close>, \<open>Goaway\<close>, \<open>Tailscale\<close> and \<open>Routing\<close> are
  \<^verbatim>\<open>firewall-agent/src/lib.rs\<close>: targets and the never-block list, the adapter trait as a record of functions with its contract
  as a locale that every adapter interprets, each adapter's methods, and the construction by action name.  \<open>Quarantine\<close>,
  \<open>Docker_Quarantine\<close> and \<open>Proxmox_Quarantine\<close> are the files of those names in the same crate, \<open>Secret\<close> is
  \<^verbatim>\<open>secret/src/lib.rs\<close>.  Their lemmas say that a protected target is never touched, that an apply is verified and can be
  rolled back to the state before it, and that a failed step is compensated.

  \<^bold>\<open>Acting: the store.\<close>  \<open>Store\<close> holds the rows of the tables, \<open>Rule_Journal\<close> is \<^verbatim>\<open>storage/src/firewall_rule_intents.rs\<close>,
  \<open>Quarantine_Journal\<close> \<^verbatim>\<open>quarantine_intents.rs\<close>, \<open>Receipts\<close>, \<open>Approvals\<close> and \<open>Incident_Source\<close> the operations of
  \<^verbatim>\<open>storage/src/lib.rs\<close> and \<^verbatim>\<open>incident_source_resolution.rs\<close> the executor uses, with the triggers and constraints of the
  migrations.  The requests of the table come from people and from the policy engine's two functions (the simulated
  challenge of migration 0061 and the bridge of 0064, whose plan is an argument); the release of an address is revalidated
  against the current reputation listings, as migration 0064 does.  \<open>Ownership\<close> is the abstract life of a generation that both journals refine.  Their lemmas are the invariants
  of the tables, the exclusion of concurrent guards, and the authority a live execution needs.

  \<^bold>\<open>Acting: the executor.\<close>  \<open>Exec_Gates\<close>, \<open>Rule_Apply\<close>, \<open>Recovery\<close>, \<open>Quarantine_Runtime\<close> and \<open>Executor\<close> are
  \<^verbatim>\<open>executor/src/\<close>: the gates and limits, the application of a rule around the journal, its recovery and the sweeps, the
  quarantine runtime, and one tick of the main loop.  Their lemmas compose the ones above: nothing changes outside without
  every gate open, what changed is owned and recorded, and a sweep takes back only what is due, and with a working database
  all of the batch it reads.

  \<^bold>\<open>Seeing: the pipeline.\<close>  \<open>Security_Events\<close> is \<^verbatim>\<open>security-events/src/lib.rs\<close>, \<open>Pseudonym\<close> the sanitizer and the pseudonyms
  of \<^verbatim>\<open>storage/src/lib.rs\<close>, \<open>Bus_Store\<close> the rows and the transactions of the pipeline, \<open>Event_Bus\<close> the publication and
  the deliveries, \<open>Ingest\<close> \<^verbatim>\<open>record_security_event\<close>, \<open>Incidents\<close> candidates, promotion and status transitions,
  \<open>Assessments\<close> \<^verbatim>\<open>security_assessments.rs\<close> with the retention the worker runs, \<open>Detection\<close> \<^verbatim>\<open>security-engine/src/main.rs\<close>, \<open>Correlation\<close> the files of
  \<^verbatim>\<open>correlation/src/\<close>, and \<open>Risk_Policy\<close> \<^verbatim>\<open>risk/src/lib.rs\<close>, \<^verbatim>\<open>policy/src/lib.rs\<close> and the outcome
  of \<^verbatim>\<open>policy-engine/src/main.rs\<close> for one policy.  Their lemmas say that nothing is lost
  or counted twice on the way, that what is stored holds no address, that a burst of events is found wherever the windows
  begin, that a finding is justified by stored events, and what a decision needs; the last of them, across the engine and the
  policy, stands at the end of this theory.  The locale
  \<open>evolving_tables\<close> carries an invariant and an order of table states through an operation, and is interpreted for the bus,
  the incidents and the assessments.

  \<^bold>\<open>How state and effects are modelled.\<close>  A table is a list of rows in the order of insertion, a database operation a
  function on the tables, and a transaction that fails leaves them as they were; an outcome list says which transactions
  fail before the commit and which are reported failed after it.  What the outside world does (running \<^verbatim>\<open>nft\<close>,
  \<^verbatim>\<open>docker\<close>, HTTP requests, the HAProxy socket, files) is a parameter: a function on an abstract world, with its documented
  behaviour as a named hypothesis where a theorem needs it.  An error is the left value of a sum with the parts of its
  message.  SHA-256, HMAC, base64, the YAML library, the text form of database times and the clock's conversions are
  parameters.  Machine integers keep their width where the code can reach their ends.

  \<^bold>\<open>Bounds.\<close>  No definition uses fuel the code does not have: the polls of Proxmox tasks and the retries have the
  code's own constants, every other loop is over a list.  Times are integers of microseconds, except where the code rounds.
  Two sessions of the pipeline interleave between operations, two sessions of the journals between their
  transactions, with row locks explicit.

  \<^bold>\<open>Not modelled.\<close>  How the policy engine collects independent evidence and plans a bridge request (its results are
  arguments), the api and the mcp server (routing, sessions and views over the modelled stores), the intelligence
  feeds, the notification services and the sensors (formats of other parties), listings and metrics, logging and
  heartbeats, SQL itself, the frontend and the scripts.
\<close>

section \<open>From the count of events to the decision\<close>

text \<open>C16 What a count can lead to.  The count is that of the events in a window, for the scan rule that of the different
  paths.  For a rule that only observes the system (server faults) the policy engine records an observation, whatever
  the count.  For every other rule, and up to a count of a thousand, the decision follows from how far the count is above
  the rule's threshold and from the number of independent sources: at least a challenge, a rate limit from three above
  it, and a block exactly from eight above it and with a second source; the recorded risk is the confidence.\<close>

theorem decision_by_count:
  fixes sources :: nat
  assumes "r \<in> set all_rules" "n \<le> 1000"
  defines "k \<equiv> case_sum cr_threshold dr_threshold r"
  defines "d \<equiv> policy_outcome (rl_id r) (confidence_for_count n k) sources"
  shows "pd_decision d = (if r = Inl HTTP_SERVER_FAULT_BURST then Observe
      else if n < k + 3 then Challenge else if k + 8 \<le> n \<and> 2 \<le> sources then Block else RateLimit) \<and>
    int (pd_risk d) = confidence_for_count n k \<and>
    pd_corroborated d = (r \<noteq> Inl HTTP_SERVER_FAULT_BURST \<and> 2 \<le> sources)"
proof -
  have rule: "rl_id r \<in> set OBSERVATION_ONLY_RULES \<longleftrightarrow> r = Inl HTTP_SERVER_FAULT_BURST"
    using assms(1) by (auto simp: all_rules_def RULES_def DISTINCT_VALUE_RULES_def rl_id_def OBSERVATION_ONLY_RULES_def
        SSH_BRUTEFORCE_def SSH_BRUTEFORCE_SLOW_def HTTP_ANOMALY_BURST_def HTTP_SERVER_FAULT_BURST_def HTTP_SCAN_def)
  have risk: "ra_risk (risk_assessment_from_confidence (confidence_for_count n k)) = min 99 (60 + (n - k) * 4)"
    unfolding confidence_value [OF assms(2)] risk_assessment_from_confidence_def Let_def risk_assessment.simps by linarith
  have "int (min 99 (60 + (n - k) * 4)) = confidence_for_count n k" unfolding confidence_value [OF assms(2)] by linarith
  then show ?thesis
    unfolding d_def policy_outcome_def Let_def decide_def risk rule by auto
qed

lemma decision_by_count_witness:
  "pd_decision (policy_outcome ''ssh_bruteforce'' (confidence_for_count 13 5) 2) = Block \<and>
   pd_decision (policy_outcome ''ssh_bruteforce'' (confidence_for_count 13 5) 1) = RateLimit"
proof -
  have rule: "Inl SSH_BRUTEFORCE \<in> set all_rules" "Inl SSH_BRUTEFORCE \<noteq> (Inl HTTP_SERVER_FAULT_BURST :: any_rule)"
    "rl_id (Inl SSH_BRUTEFORCE) = ''ssh_bruteforce''" "case_sum cr_threshold dr_threshold (Inl SSH_BRUTEFORCE) = 5"
    by (simp_all add: all_rules_def RULES_def rl_id_def SSH_BRUTEFORCE_def HTTP_SERVER_FAULT_BURST_def)
  show ?thesis
    using decision_by_count [OF rule(1), of 13 2] decision_by_count [OF rule(1), of 13 1] rule by simp
qed

lemma server_faults_observed:
  "pd_decision (policy_outcome ''http_server_fault_burst'' confidence sources) = Observe"
  by (simp add: policy_outcome_def OBSERVATION_ONLY_RULES_def Let_def)

end
